(* ===== verification/Prelude.thy ===== *)
theory Prelude
  imports Main "HOL-Library.Word"
begin

text \<open>
  Shared base of the NEMU development: the fault values every model returns where the C program
  aborts or leaves defined behaviour, the sequencing of fallible steps, a weakest-precondition
  reading of them, little-endian views of machine words, and generic lemmas on lists and words.
\<close>

unbundle bit_operations_syntax

named_theorems le_simps \<open>little-endian byte views of words\<close>
named_theorems wp_simps \<open>weakest preconditions of the sequencing combinators\<close>

section \<open>Machine integers\<close>

type_synonym u8 = "8 word"
type_synonym u16 = "16 word"
type_synonym u32 = "32 word"
type_synonym u64 = "64 word"

lemma ucast_ucast_u8_u32 [simp]: "ucast (ucast (b :: u8) :: u32) = b"
  by (rule bit_word_eqI) (auto simp: bit_simps)

lemma unat_and_mask: "unat (v AND mask k :: 'a::len word) < 2 ^ k"
  by (simp add: unsigned_take_bit_eq flip: take_bit_eq_mask)

lemma unat_and_7: "unat (v AND 7 :: u32) < 8"
  using unat_and_mask [of v 3] by (simp add: mask_eq_exp_minus_1)

lemma unat_and_3: "unat (v AND 3 :: u32) < 4"
  using unat_and_mask [of v 2] by (simp add: mask_eq_exp_minus_1)

lemma unat_and_not_mask: "unat (a AND NOT (mask n) :: 'w::len word) = unat a div 2 ^ n * 2 ^ n"
proof -
  have "a AND NOT (mask n) = push_bit n (drop_bit n a)" by (rule bit_word_eqI) (auto simp: bit_simps)
  moreover have u: "unat a < 2 ^ LENGTH('w)" by (rule unsigned_less)
  ultimately have "unat (a AND NOT (mask n)) = take_bit LENGTH('w) (push_bit n (drop_bit n (unat a)))"
    by (simp only: unsigned_push_bit_eq unsigned_drop_bit_eq) (simp add: take_bit_nat_eq_self)
  then have "unat (a AND NOT (mask n)) = take_bit LENGTH('w) (unat a div 2 ^ n * 2 ^ n)"
    by (simp only: push_bit_eq_mult drop_bit_eq_div)
  moreover have "unat a div 2 ^ n * 2 ^ n < 2 ^ LENGTH('w)"
    using u by (rule le_less_trans [rotated]) simp
  ultimately show ?thesis by (simp add: take_bit_nat_eq_self)
qed

section \<open>Faults\<close>

text \<open>
  Every way the program stops before it returns: \<open>assert\<close> and \<open>Assert\<close>, \<open>panic\<close> with its
  message, the \<open>TODO()\<close> panic of the parts still to be written, and the undefined behaviours the
  models make visible (an access outside a host array, a null pointer, a division trap, the read of
  a variable that was never assigned, the use of freed heap memory, a shift by the width of its operand
  or more, an \<open>int\<close> out of its range). \<open>Diverge\<close> stands for a loop that does not end.
\<close>

datatype fault =
    Assert_fail
  | Panic string
  | Todo
  | Out_of_bounds
  | Null_deref
  | Div_error
  | Uninit
  | Use_after_free
  | Bad_shift
  | Int_overflow
  | Diverge

type_synonym 'a res = "fault + 'a"

fun bindE :: "'a res \<Rightarrow> ('a \<Rightarrow> 'b res) \<Rightarrow> 'b res" where
  "bindE (Inl e) f = Inl e"
| "bindE (Inr a) f = f a"

definition assertE :: "bool \<Rightarrow> unit res" where
  "assertE b = (if b then Inr () else Inl Assert_fail)"

fun optE :: "fault \<Rightarrow> 'a option \<Rightarrow> 'a res" where
  "optE e None = Inl e"
| "optE e (Some a) = Inr a"

fun seqs :: "('s \<Rightarrow> 's res) list \<Rightarrow> 's \<Rightarrow> 's res" where
  "seqs [] s = Inr s"
| "seqs (f # fs) s = bindE (f s) (seqs fs)"

lemma bindE_cong [fundef_cong]:
  "m = m' \<Longrightarrow> (\<And>a. m' = Inr a \<Longrightarrow> f a = f' a) \<Longrightarrow> bindE m f = bindE m' f'"
  by (cases m') auto

lemma bindE_eq_Inr: "bindE m f = Inr b \<longleftrightarrow> (\<exists>a. m = Inr a \<and> f a = Inr b)"
  by (cases m) auto

lemma bindE_eq_Inl: "bindE m f = Inl e \<longleftrightarrow> m = Inl e \<or> (\<exists>a. m = Inr a \<and> f a = Inl e)"
  by (cases m) auto

lemma bindE_assoc: "bindE (bindE m f) g = bindE m (\<lambda>a. bindE (f a) g)"
  by (cases m) auto

lemma assertE_simps [simp]: "assertE True = Inr ()" "assertE False = Inl Assert_fail"
  by (simp_all add: assertE_def)

lemma assertE_eq_Inr [simp]: "assertE b = Inr u \<longleftrightarrow> b"
  by (simp add: assertE_def)

lemma assertE_eq_Inl [simp]: "assertE b = Inl e \<longleftrightarrow> \<not> b \<and> e = Assert_fail"
  by (auto simp: assertE_def)

lemma optE_eq_Inr [simp]: "optE e x = Inr a \<longleftrightarrow> x = Some a"
  by (cases x) auto

lemma optE_eq_Inl [simp]: "optE e x = Inl e' \<longleftrightarrow> x = None \<and> e' = e"
  by (cases x) auto

lemma bindE_return: "bindE m Inr = m" "bindE m (seqs []) = m"
  by (cases m; simp)+

lemma bindE_if: "bindE (if b then x else y) f = (if b then bindE x f else bindE y f)"
  by simp

lemma seqs_append: "seqs (fs @ gs) s = bindE (seqs fs s) (seqs gs)"
  by (induction fs arbitrary: s) (auto simp: bindE_assoc intro!: bindE_cong)

subsection \<open>Weakest preconditions\<close>

text \<open>
  \<open>wpE Q E r\<close>: if the step \<open>r\<close> returns, its value satisfies \<open>Q\<close>; if it faults, the fault
  satisfies \<open>E\<close>.
\<close>

fun wpE :: "('a \<Rightarrow> bool) \<Rightarrow> (fault \<Rightarrow> bool) \<Rightarrow> 'a res \<Rightarrow> bool" where
  "wpE Q E (Inl e) = E e"
| "wpE Q E (Inr a) = Q a"

lemma wpE_bindE [wp_simps]: "wpE Q E (bindE m f) = wpE (\<lambda>a. wpE Q E (f a)) E m"
  by (cases m) auto

lemma wpE_if [wp_simps]: "wpE Q E (if b then x else y) = (if b then wpE Q E x else wpE Q E y)"
  by simp

lemma wpE_assertE [wp_simps]: "wpE Q E (assertE b) = (if b then Q () else E Assert_fail)"
  by (simp add: assertE_def)

lemma wpE_optE [wp_simps]: "wpE Q E (optE e x) = (case x of None \<Rightarrow> E e | Some a \<Rightarrow> Q a)"
  by (cases x) auto

lemma wpE_mono: "wpE Q E r \<Longrightarrow> (\<And>a. r = Inr a \<Longrightarrow> Q a \<Longrightarrow> Q' a) \<Longrightarrow> (\<And>e. E e \<Longrightarrow> E' e) \<Longrightarrow> wpE Q' E' r"
  by (cases r) auto

lemma wpE_InrD: "wpE Q E r \<Longrightarrow> r = Inr a \<Longrightarrow> Q a"
  by simp

lemma wpE_InlD: "wpE Q E r \<Longrightarrow> r = Inl e \<Longrightarrow> E e"
  by simp

lemma wpE_seqs_Cons [wp_simps]: "wpE Q E (seqs (f # fs) s) = wpE (\<lambda>a. wpE Q E (seqs fs a)) E (f s)"
  by (simp add: wpE_bindE)

text \<open>A predicate every step of a sequence preserves is preserved by the sequence.\<close>

lemma seqs_preserves:
  assumes "\<forall>f\<in>set fs. \<forall>s. P s \<longrightarrow> wpE P E (f s)" and "P s"
  shows "wpE P E (seqs fs s)"
  using assms by (induction fs arbitrary: s) (auto simp: wpE_bindE intro: wpE_mono)

section \<open>Lists\<close>

lemma nth_list_update_if: "xs[i := v] ! j = (if i = j \<and> j < length xs then v else xs ! j)"
  by (cases "i < length xs") (auto simp: nth_list_update list_update_beyond)

section \<open>Little-endian views\<close>

definition le_bytes :: "nat \<Rightarrow> 'a::len word \<Rightarrow> u8 list" where
  "le_bytes n w = map (\<lambda>i. ucast (drop_bit (8 * i) w)) [0..<n]"

fun le_word :: "u8 list \<Rightarrow> 'a::len word" where
  "le_word [] = 0"
| "le_word (b # bs) = ucast b OR push_bit 8 (le_word bs)"

lemma length_le_bytes [simp]: "length (le_bytes n w) = n"
  by (simp add: le_bytes_def)

lemma nth_le_bytes [simp]: "i < n \<Longrightarrow> le_bytes n w ! i = ucast (drop_bit (8 * i) w)"
  by (simp add: le_bytes_def)

lemma bit_le_word:
  "bit (le_word bs :: 'a::len word) k \<longleftrightarrow>
     k < LENGTH('a) \<and> k div 8 < length bs \<and> bit (bs ! (k div 8)) (k mod 8)"
proof (induction bs arbitrary: k)
  case Nil
  then show ?case by simp
next
  case (Cons b bs)
  show ?case
  proof (cases "k < 8")
    case True
    then show ?thesis by (auto simp: bit_simps)
  next
    case False
    then obtain j where k: "k = j + 8" by (metis add.commute le_Suc_ex not_le)
    have "\<not> bit b k" using False by (simp add: bit_word.rep_eq)
    moreover have "k div 8 = Suc (j div 8)" using k by simp
    ultimately show ?thesis using Cons.IH [of j] k by (auto simp: bit_simps)
  qed
qed

lemma le_word_le_bytes [le_simps]: "le_word (le_bytes n w) = (take_bit (8 * n) w :: 'a::len word)"
proof (rule bit_word_eqI)
  fix k assume k: "k < LENGTH('a)"
  have eq: "8 * (k div 8) + k mod 8 = k" by simp
  have "k div 8 < n \<longleftrightarrow> k < 8 * n" by (auto simp: less_mult_imp_div_less div_less_iff_less_mult)
  then show "bit (le_word (le_bytes n w) :: 'a word) k \<longleftrightarrow> bit (take_bit (8 * n) w) k"
    using k eq by (auto simp: bit_le_word bit_simps)
qed

lemma le_word_le_bytes_full:
  "8 * n = LENGTH('a) \<Longrightarrow> le_word (le_bytes n w) = (w :: 'a::len word)"
  by (simp add: le_word_le_bytes take_bit_word_eq_self)

lemma le_bytes_le_word:
  assumes "length bs = n" and "8 * n \<le> LENGTH('a)"
  shows "le_bytes n (le_word bs :: 'a::len word) = bs"
proof (rule nth_equalityI)
  show "length (le_bytes n (le_word bs :: 'a word)) = length bs" using assms by simp
next
  fix i assume "i < length (le_bytes n (le_word bs :: 'a word))"
  then have i: "i < n" by simp
  show "le_bytes n (le_word bs :: 'a word) ! i = bs ! i"
  proof (rule bit_word_eqI)
    fix k assume k: "k < LENGTH(8)"
    then have "8 * i + k < LENGTH('a)" using i assms(2) by auto
    moreover have "(8 * i + k) div 8 = i" "(8 * i + k) mod 8 = k" using k by auto
    ultimately show "bit (le_bytes n (le_word bs :: 'a word) ! i) k \<longleftrightarrow> bit (bs ! i) k"
      using i k assms(1) by (auto simp: bit_simps bit_le_word)
  qed
qed


section \<open>Host byte arrays\<close>

text \<open>
  A static byte array of the host program is a total function on indices together with its size;
  an access that leaves the array is the fault \<open>Out_of_bounds\<close>.
\<close>

type_synonym byte_array = "nat \<Rightarrow> u8"

definition load_bytes :: "nat \<Rightarrow> nat \<Rightarrow> nat \<Rightarrow> byte_array \<Rightarrow> u8 list res" where
  "load_bytes sz p n f =
     (if p + n \<le> sz then Inr (map (\<lambda>i. f (p + i)) [0..<n]) else Inl Out_of_bounds)"

definition put_bytes :: "nat \<Rightarrow> u8 list \<Rightarrow> byte_array \<Rightarrow> byte_array" where
  "put_bytes p bs f = (\<lambda>i. if p \<le> i \<and> i < p + length bs then bs ! (i - p) else f i)"

definition store_bytes :: "nat \<Rightarrow> nat \<Rightarrow> u8 list \<Rightarrow> byte_array \<Rightarrow> byte_array res" where
  "store_bytes sz p bs f =
     (if p + length bs \<le> sz then Inr (put_bytes p bs f) else Inl Out_of_bounds)"

lemma load_bytes_Inr: "load_bytes sz p n f = Inr bs \<Longrightarrow> length bs = n \<and> p + n \<le> sz"
  by (auto simp: load_bytes_def split: if_splits)

lemma load_put_same:
  "p + length bs \<le> sz \<Longrightarrow> load_bytes sz p (length bs) (put_bytes p bs f) = Inr bs"
  by (auto simp: load_bytes_def put_bytes_def intro: nth_equalityI)

lemma load_put_other:
  "p + n \<le> q \<or> q + length bs \<le> p \<Longrightarrow>
     load_bytes sz p n (put_bytes q bs f) = load_bytes sz p n f"
  by (auto simp: load_bytes_def put_bytes_def)

lemma put_bytes_other: "i < p \<or> p + length bs \<le> i \<Longrightarrow> put_bytes p bs f i = f i"
  by (auto simp: put_bytes_def)

lemma put_bytes_same: "i < length bs \<Longrightarrow> put_bytes p bs f (p + i) = bs ! i"
  by (simp add: put_bytes_def)

section \<open>Strings\<close>

text \<open>
  The host's \<open>strtok\<close>: skip the delimiters, return the token up to the next one, and keep the rest for
  the next call with a null pointer.
\<close>

definition strtok :: "(char \<Rightarrow> bool) \<Rightarrow> string \<Rightarrow> string option \<times> string" where
  "strtok delim s =
     (let s = dropWhile delim s in
      if s = [] then (None, [])
      else (Some (takeWhile (\<lambda>ch. \<not> delim ch) s), drop 1 (dropWhile (\<lambda>ch. \<not> delim ch) s)))"

lemma strtok_shorter: "strtok delim s = (Some t, r) \<Longrightarrow> length r < length s"
proof -
  assume a: "strtok delim s = (Some t, r)"
  have "length (dropWhile delim s) \<le> length s" by (rule length_dropWhile_le)
  moreover have "length (dropWhile (\<lambda>ch. \<not> delim ch) (dropWhile delim s)) \<le> length (dropWhile delim s)"
    by (rule length_dropWhile_le)
  ultimately show ?thesis using a
    by (cases "dropWhile delim s") (auto simp: strtok_def Let_def split: if_splits)
qed

lemma strtok_token:
  assumes "p \<noteq> []" "d \<notin> set p"
  shows "strtok ((=) d) (p @ d # r) = (Some p, r)"
proof -
  have "dropWhile ((=) d) (p @ d # r) = p @ d # r" using assms by (cases p) auto
  moreover have "takeWhile (\<lambda>x. d \<noteq> x) (p @ d # r) = p" "dropWhile (\<lambda>x. d \<noteq> x) (p @ d # r) = d # r"
    using assms(2) by (induction p) auto
  ultimately show ?thesis by (simp add: strtok_def)
qed

end
