(* ===== verification/Device.thy ===== *)
theory Device
  imports Prelude
begin

text \<open>
  The device side of NEMU: the I/O space and its maps (\<open>device/io/map.c\<close>, \<open>mmio.c\<close>,
  \<open>port-io.c\<close>, \<open>include/device/map.h\<close>), the alarm (\<open>alarm.c\<close>), and the devices
  \<open>serial.c\<close>, \<open>timer.c\<close>, \<open>keyboard.c\<close>, \<open>vga.c\<close>, \<open>audio.c\<close> with their
  initialisation in \<open>device.c\<close>. All static variables of these files are the fields of one
  record. A pointer into the I/O space is its offset there; a function pointer registered with a
  map is a value of \<open>io_callback_t\<close>. What the host supplies is a parameter: the clock is a
  function from the number of calls of \<open>gettimeofday\<close> so far, the SDL scancodes are a function
  from key names, and polled SDL events are a list.
\<close>

named_theorems io_defs \<open>definitions of the I/O bus\<close>

section \<open>Run state of the emulator (monitor.h)\<close>

datatype run_state = NEMU_STOP | NEMU_RUNNING | NEMU_END | NEMU_ABORT | NEMU_QUIT

record 'v NEMUState =
  nstate :: run_state
  halt_pc :: 'v
  halt_ret :: u32

section \<open>Data\<close>

datatype io_callback_t =
    serial_io_handler_t
  | rtc_io_handler_t
  | i8042_data_io_handler_t
  | audio_io_handler_t

record IOMap =
  map_name :: string
  map_low :: u32
  map_high :: u32
  map_space :: nat
  map_callback :: "io_callback_t option"

datatype alarm_handler_t = timer_intr_t | set_device_update_flag_t

record io_state =
  io_space :: byte_array
  p_space :: nat
  mmio_maps :: "IOMap list"
  pio_maps :: "IOMap list"
  alarm_handler :: "alarm_handler_t list"
  jiffy :: u32
  serial_base :: "nat option"
  serial_out :: "u8 list"
  rtc_port_base :: "nat option"
  i8042_data_port_base :: "nat option"
  key_queue :: "nat \<Rightarrow> u32"
  key_f :: nat
  key_r :: nat
  vgactl_port_base :: "nat option"
  vmem :: "nat option"
  audio_base :: "nat option"
  sbuf :: "nat option"
  device_update_flag :: bool
  host_clock :: "nat \<Rightarrow> u64 \<times> u64"
  host_clock_calls :: nat

definition IO_SPACE_MAX :: nat where "IO_SPACE_MAX = 2 * 1024 * 1024"
definition PAGE_SIZE :: u32 where "PAGE_SIZE = 4096"
definition PAGE_MASK :: u32 where "PAGE_MASK = PAGE_SIZE - 1"
definition NR_MAP :: nat where "NR_MAP = 16"
definition PORT_IO_SPACE_MAX :: nat where "PORT_IO_SPACE_MAX = 65535"
definition MAX_HANDLER :: nat where "MAX_HANDLER = 8"
definition TIMER_HZ :: u32 where "TIMER_HZ = 60"
definition KEY_QUEUE_LEN :: nat where "KEY_QUEUE_LEN = 1024"
definition KEYDOWN_MASK :: u32 where "KEYDOWN_MASK = 0x8000"

text \<open>The static initialisers: everything zero, every pointer null.\<close>

definition io_initial :: "(nat \<Rightarrow> u64 \<times> u64) \<Rightarrow> io_state" where
  "io_initial clk =
     \<lparr> io_space = (\<lambda>_. 0), p_space = 0, mmio_maps = [], pio_maps = [],
       alarm_handler = [], jiffy = 0, serial_base = None, serial_out = [],
       rtc_port_base = None, i8042_data_port_base = None,
       key_queue = (\<lambda>_. 0), key_f = 0, key_r = 0,
       vgactl_port_base = None, vmem = None, audio_base = None, sbuf = None,
       device_update_flag = False, host_clock = clk, host_clock_calls = 0 \<rparr>"

section \<open>I/O space (map.c)\<close>

definition new_space :: "u32 \<Rightarrow> io_state \<Rightarrow> (nat \<times> io_state) res" where
  "new_space sz io =
     (let p = p_space io;
          sz = (sz + (PAGE_SIZE - 1)) AND NOT PAGE_MASK;
          io = io\<lparr>p_space := p + unat sz\<rparr>
      in bindE (assertE (p_space io < IO_SPACE_MAX)) (\<lambda>_. Inr (p, io)))"

definition io_load :: "nat \<Rightarrow> nat \<Rightarrow> io_state \<Rightarrow> u8 list res" where
  "io_load p n io = load_bytes IO_SPACE_MAX p n (io_space io)"

definition io_store :: "nat \<Rightarrow> u8 list \<Rightarrow> io_state \<Rightarrow> io_state res" where
  "io_store p bs io =
     bindE (store_bytes IO_SPACE_MAX p bs (io_space io)) (\<lambda>sp. Inr (io\<lparr>io_space := sp\<rparr>))"

definition check_bound :: "IOMap option \<Rightarrow> u32 \<Rightarrow> IOMap res" where
  "check_bound m addr =
     (case m of
        None \<Rightarrow> Inl Assert_fail
      | Some mp \<Rightarrow> bindE (assertE (addr \<le> map_high mp \<and> addr \<ge> map_low mp)) (\<lambda>_. Inr mp))"

subsection \<open>Handlers the devices register\<close>

definition serial_io_handler :: "u32 \<Rightarrow> nat \<Rightarrow> bool \<Rightarrow> io_state \<Rightarrow> io_state res" where
  "serial_io_handler offset len is_write io =
     bindE (assertE (len = 1)) (\<lambda>_.
       if offset = 0 then
         (if is_write then
            bindE (optE Null_deref (serial_base io)) (\<lambda>b.
            bindE (io_load b 1 io) (\<lambda>bs. Inr (io\<lparr>serial_out := serial_out io @ bs\<rparr>)))
          else Inl (Panic ''do not support read''))
       else Inl (Panic ''do not support offset''))"

definition rtc_io_handler :: "u32 \<Rightarrow> nat \<Rightarrow> bool \<Rightarrow> io_state \<Rightarrow> io_state res" where
  "rtc_io_handler offset len is_write io =
     bindE (assertE (offset = 0 \<or> offset = 4)) (\<lambda>_.
       if \<not> is_write then
         (let (tv_sec, tv_usec) = host_clock io (host_clock_calls io);
              io = io\<lparr>host_clock_calls := host_clock_calls io + 1\<rparr>
          in bindE (optE Null_deref (rtc_port_base io)) (\<lambda>b.
             bindE (io_store b (le_bytes 4 (ucast tv_usec :: u32)) io)
               (io_store (b + 4) (le_bytes 4 (ucast tv_sec :: u32)))))
       else Inr io)"

definition i8042_data_io_handler :: "u32 \<Rightarrow> nat \<Rightarrow> bool \<Rightarrow> io_state \<Rightarrow> io_state res" where
  "i8042_data_io_handler offset len is_write io =
     bindE (assertE (\<not> is_write)) (\<lambda>_.
     bindE (assertE (offset = 0)) (\<lambda>_.
     bindE (optE Null_deref (i8042_data_port_base io)) (\<lambda>b.
       if key_f io \<noteq> key_r io then
         bindE (io_store b (le_bytes 4 (key_queue io (key_f io))) io) (\<lambda>io.
           Inr (io\<lparr>key_f := (key_f io + 1) mod KEY_QUEUE_LEN\<rparr>))
       else io_store b (le_bytes 4 (0 :: u32)) io)))"

definition audio_io_handler :: "u32 \<Rightarrow> nat \<Rightarrow> bool \<Rightarrow> io_state \<Rightarrow> io_state res" where
  "audio_io_handler offset len is_write io = Inr io"

fun invoke_callback :: "io_callback_t option \<Rightarrow> u32 \<Rightarrow> nat \<Rightarrow> bool \<Rightarrow> io_state \<Rightarrow> io_state res" where
  "invoke_callback None offset len w io = Inr io"
| "invoke_callback (Some serial_io_handler_t) offset len w io = serial_io_handler offset len w io"
| "invoke_callback (Some rtc_io_handler_t) offset len w io = rtc_io_handler offset len w io"
| "invoke_callback (Some i8042_data_io_handler_t) offset len w io =
     i8042_data_io_handler offset len w io"
| "invoke_callback (Some audio_io_handler_t) offset len w io = audio_io_handler offset len w io"

subsection \<open>Access through a map\<close>

text \<open>
  \<open>map_read\<close> loads a whole \<open>word_t\<close> and masks it with \<open>~0Lu >> ((8 - len) << 3)\<close>, a 64-bit
  mask; \<open>word_t\<close> is 32 bits wide except for riscv64, so the models are polymorphic in it.
\<close>

definition map_read ::
  "u32 \<Rightarrow> nat \<Rightarrow> IOMap option \<Rightarrow> io_state \<Rightarrow> ('w::len word \<times> io_state) res" where
  "map_read addr len m io =
     bindE (assertE (len \<ge> 1 \<and> len \<le> 8)) (\<lambda>_.
     bindE (check_bound m addr) (\<lambda>mp.
       let offset = addr - map_low mp in
       bindE (invoke_callback (map_callback mp) offset len False io) (\<lambda>io.
       bindE (io_load (map_space mp + unat offset) (LENGTH('w) div 8) io) (\<lambda>bs.
         Inr (ucast ((ucast (le_word bs :: 'w word) :: u64) AND drop_bit (8 * (8 - len)) (-1)), io)))))"

definition map_write ::
  "u32 \<Rightarrow> 'w::len word \<Rightarrow> nat \<Rightarrow> IOMap option \<Rightarrow> io_state \<Rightarrow> io_state res" where
  "map_write addr data len m io =
     bindE (assertE (len \<ge> 1 \<and> len \<le> 8)) (\<lambda>_.
     bindE (check_bound m addr) (\<lambda>mp.
       let offset = addr - map_low mp in
       bindE (if 8 * len \<le> LENGTH('w) then Inr () else Inl Out_of_bounds) (\<lambda>_.
       bindE (io_store (map_space mp + unat offset) (le_bytes len data) io) (\<lambda>io.
         invoke_callback (map_callback mp) offset len True io))))"

definition map_inside :: "IOMap \<Rightarrow> u32 \<Rightarrow> bool" where
  "map_inside m addr \<longleftrightarrow> addr \<ge> map_low m \<and> addr \<le> map_high m"

text \<open>In the default build \<open>difftest_skip_ref()\<close> expands to nothing.\<close>

fun find_mapid_from :: "nat \<Rightarrow> IOMap list \<Rightarrow> u32 \<Rightarrow> nat option" where
  "find_mapid_from i [] addr = None"
| "find_mapid_from i (m # ms) addr =
     (if map_inside m addr then Some i else find_mapid_from (Suc i) ms addr)"

definition find_mapid_by_addr :: "IOMap list \<Rightarrow> u32 \<Rightarrow> nat option" where
  "find_mapid_by_addr maps addr = find_mapid_from 0 maps addr"

section \<open>Memory-mapped and port-mapped I/O (mmio.c, port-io.c)\<close>

definition add_mmio_map ::
  "string \<Rightarrow> u32 \<Rightarrow> nat \<Rightarrow> u32 \<Rightarrow> io_callback_t option \<Rightarrow> io_state \<Rightarrow> io_state res" where
  "add_mmio_map nm addr space len cb io =
     bindE (assertE (length (mmio_maps io) < NR_MAP)) (\<lambda>_.
       Inr (io\<lparr>mmio_maps := mmio_maps io @
         [\<lparr>map_name = nm, map_low = addr, map_high = addr + len - 1,
           map_space = space, map_callback = cb\<rparr>]\<rparr>))"

definition fetch_mmio_map :: "u32 \<Rightarrow> io_state \<Rightarrow> IOMap option" where
  "fetch_mmio_map addr io =
     (case find_mapid_by_addr (mmio_maps io) addr of
        None \<Rightarrow> None | Some mapid \<Rightarrow> Some (mmio_maps io ! mapid))"

definition add_pio_map ::
  "string \<Rightarrow> u16 \<Rightarrow> nat \<Rightarrow> nat \<Rightarrow> io_callback_t option \<Rightarrow> io_state \<Rightarrow> io_state res" where
  "add_pio_map nm addr space len cb io =
     bindE (assertE (length (pio_maps io) < NR_MAP)) (\<lambda>_.
     bindE (assertE (unat addr + len \<le> PORT_IO_SPACE_MAX)) (\<lambda>_.
       Inr (io\<lparr>pio_maps := pio_maps io @
         [\<lparr>map_name = nm, map_low = ucast addr, map_high = ucast addr + of_nat len - 1,
           map_space = space, map_callback = cb\<rparr>]\<rparr>)))"

definition pio_read_common :: "u16 \<Rightarrow> nat \<Rightarrow> io_state \<Rightarrow> (u32 \<times> io_state) res" where
  "pio_read_common addr len io =
     bindE (assertE (unat addr + len - 1 < PORT_IO_SPACE_MAX)) (\<lambda>_.
     bindE (optE Assert_fail (find_mapid_by_addr (pio_maps io) (ucast addr))) (\<lambda>mapid.
       map_read (ucast addr) len (Some (pio_maps io ! mapid)) io))"

definition pio_write_common :: "u16 \<Rightarrow> u32 \<Rightarrow> nat \<Rightarrow> io_state \<Rightarrow> io_state res" where
  "pio_write_common addr data len io =
     bindE (assertE (unat addr + len - 1 < PORT_IO_SPACE_MAX)) (\<lambda>_.
     bindE (optE Assert_fail (find_mapid_by_addr (pio_maps io) (ucast addr))) (\<lambda>mapid.
       map_write (ucast addr) data len (Some (pio_maps io ! mapid)) io))"

definition pio_read_l :: "u16 \<Rightarrow> io_state \<Rightarrow> (u32 \<times> io_state) res" where
  "pio_read_l addr = pio_read_common addr 4"
definition pio_read_w :: "u16 \<Rightarrow> io_state \<Rightarrow> (u32 \<times> io_state) res" where
  "pio_read_w addr = pio_read_common addr 2"
definition pio_read_b :: "u16 \<Rightarrow> io_state \<Rightarrow> (u32 \<times> io_state) res" where
  "pio_read_b addr = pio_read_common addr 1"
definition pio_write_l :: "u16 \<Rightarrow> u32 \<Rightarrow> io_state \<Rightarrow> io_state res" where
  "pio_write_l addr data = pio_write_common addr data 4"
definition pio_write_w :: "u16 \<Rightarrow> u32 \<Rightarrow> io_state \<Rightarrow> io_state res" where
  "pio_write_w addr data = pio_write_common addr data 2"
definition pio_write_b :: "u16 \<Rightarrow> u32 \<Rightarrow> io_state \<Rightarrow> io_state res" where
  "pio_write_b addr data = pio_write_common addr data 1"


section \<open>Alarm (alarm.c) and the timer interrupt (timer.c, intr.c)\<close>

definition add_alarm_handle :: "alarm_handler_t \<Rightarrow> io_state \<Rightarrow> io_state res" where
  "add_alarm_handle h io =
     bindE (assertE (length (alarm_handler io) < MAX_HANDLER)) (\<lambda>_.
       Inr (io\<lparr>alarm_handler := alarm_handler io @ [h]\<rparr>))"

definition uptime :: "io_state \<Rightarrow> u32" where
  "uptime io = jiffy io div TIMER_HZ"

definition dev_raise_intr :: "io_state \<Rightarrow> io_state" where
  "dev_raise_intr io = io"

definition timer_intr :: "'v NEMUState \<Rightarrow> io_state \<Rightarrow> io_state" where
  "timer_intr ns io = (if nstate ns = NEMU_RUNNING then dev_raise_intr io else io)"

definition set_device_update_flag :: "io_state \<Rightarrow> io_state" where
  "set_device_update_flag io = io\<lparr>device_update_flag := True\<rparr>"

fun call_alarm_handler :: "'v NEMUState \<Rightarrow> alarm_handler_t \<Rightarrow> io_state \<Rightarrow> io_state" where
  "call_alarm_handler ns timer_intr_t io = timer_intr ns io"
| "call_alarm_handler ns set_device_update_flag_t io = set_device_update_flag io"

definition alarm_sig_handler :: "'v NEMUState \<Rightarrow> io_state \<Rightarrow> io_state" where
  "alarm_sig_handler ns io =
     (let io = fold (call_alarm_handler ns) (alarm_handler io) io in io\<lparr>jiffy := jiffy io + 1\<rparr>)"

section \<open>Keyboard (keyboard.c)\<close>

text \<open>The keys in the order of the macro \<open>_KEYS\<close>: key number \<open>i + 1\<close> is the \<open>i\<close>-th name.\<close>

definition KEYS :: "string list" where
  "KEYS =
    [''ESCAPE'', ''F1'', ''F2'', ''F3'', ''F4'', ''F5'', ''F6'', ''F7'', ''F8'', ''F9'', ''F10'',
     ''F11'', ''F12'', ''GRAVE'', ''1'', ''2'', ''3'', ''4'', ''5'', ''6'', ''7'', ''8'', ''9'', ''0'',
     ''MINUS'', ''EQUALS'', ''BACKSPACE'', ''TAB'', ''Q'', ''W'', ''E'', ''R'', ''T'', ''Y'', ''U'',
     ''I'', ''O'', ''P'', ''LEFTBRACKET'', ''RIGHTBRACKET'', ''BACKSLASH'', ''CAPSLOCK'', ''A'', ''S'',
     ''D'', ''F'', ''G'', ''H'', ''J'', ''K'', ''L'', ''SEMICOLON'', ''APOSTROPHE'', ''RETURN'',
     ''LSHIFT'', ''Z'', ''X'', ''C'', ''V'', ''B'', ''N'', ''M'', ''COMMA'', ''PERIOD'', ''SLASH'',
     ''RSHIFT'', ''LCTRL'', ''APPLICATION'', ''LALT'', ''SPACE'', ''RALT'', ''RCTRL'', ''UP'', ''DOWN'',
     ''LEFT'', ''RIGHT'', ''INSERT'', ''DELETE'', ''HOME'', ''END'', ''PAGEUP'', ''PAGEDOWN'']"

text \<open>
  \<open>keymap\<close> is built with designated initialisers \<open>[SDL_SCANCODE_k] = _KEY_k\<close>: a later key with
  the same scancode overrides an earlier one, and an entry no key names is \<open>_KEY_NONE\<close>. The
  scancodes are SDL's, so they are the argument \<open>sdl\<close>.
\<close>

fun keymap_from :: "(string \<Rightarrow> u8) \<Rightarrow> u32 \<Rightarrow> string list \<Rightarrow> u8 \<Rightarrow> u32 \<Rightarrow> u32" where
  "keymap_from sdl n [] sc v = v"
| "keymap_from sdl n (k # ks) sc v = keymap_from sdl (n + 1) ks sc (if sdl k = sc then n else v)"

definition keymap :: "(string \<Rightarrow> u8) \<Rightarrow> u8 \<Rightarrow> u32" where
  "keymap sdl sc = keymap_from sdl 1 KEYS sc 0"

definition send_key ::
  "(string \<Rightarrow> u8) \<Rightarrow> 'v NEMUState \<Rightarrow> u8 \<Rightarrow> bool \<Rightarrow> io_state \<Rightarrow> io_state res" where
  "send_key sdl ns scancode is_keydown io =
     (if nstate ns = NEMU_RUNNING \<and> keymap sdl scancode \<noteq> 0 then
        let am_scancode = keymap sdl scancode OR (if is_keydown then KEYDOWN_MASK else 0);
            io = io\<lparr>key_queue := (key_queue io)(key_r io := am_scancode)\<rparr>;
            io = io\<lparr>key_r := (key_r io + 1) mod KEY_QUEUE_LEN\<rparr>
        in bindE (assertE (key_r io \<noteq> key_f io)) (\<lambda>_. Inr io)
      else Inr io)"

section \<open>Initialisation of the devices\<close>

definition init_serial :: "io_state \<Rightarrow> io_state res" where
  "init_serial io =
     bindE (new_space 8 io) (\<lambda>(p, io).
       let io = io\<lparr>serial_base := Some p\<rparr> in
       bindE (add_pio_map ''serial'' 0x3F8 p 8 (Some serial_io_handler_t) io)
         (add_mmio_map ''serial'' 0xa10003F8 p 8 (Some serial_io_handler_t)))"

definition init_timer :: "io_state \<Rightarrow> io_state res" where
  "init_timer io =
     bindE (new_space 8 io) (\<lambda>(p, io).
       let io = io\<lparr>rtc_port_base := Some p\<rparr> in
       bindE (add_pio_map ''rtc'' 0x48 p 8 (Some rtc_io_handler_t) io) (\<lambda>io.
       bindE (add_mmio_map ''rtc'' 0xa1000048 p 8 (Some rtc_io_handler_t) io)
         (add_alarm_handle timer_intr_t)))"

definition SCREEN_W :: u32 where "SCREEN_W = 400"
definition SCREEN_H :: u32 where "SCREEN_H = 300"
definition SCREEN_SIZE :: u32 where "SCREEN_SIZE = SCREEN_H * SCREEN_W * 4"

text \<open>The SDL window, renderer and texture of \<open>init_vga\<close> are host objects and not modelled.\<close>

definition init_vga :: "io_state \<Rightarrow> io_state res" where
  "init_vga io =
     bindE (new_space 8 io) (\<lambda>(p, io).
       let io = io\<lparr>vgactl_port_base := Some p\<rparr> in
       bindE (io_store p (le_bytes 4 (push_bit 16 SCREEN_W OR SCREEN_H)) io) (\<lambda>io.
       bindE (add_pio_map ''screen'' 0x100 p 8 None io) (\<lambda>io.
       bindE (add_mmio_map ''screen'' 0xa1000100 p 8 None io) (\<lambda>io.
       bindE (new_space SCREEN_SIZE io) (\<lambda>(v, io).
         let io = io\<lparr>vmem := Some v\<rparr> in
         add_mmio_map ''vmem'' 0xa0000000 v SCREEN_SIZE None io)))))"

definition init_i8042 :: "io_state \<Rightarrow> io_state res" where
  "init_i8042 io =
     bindE (new_space 4 io) (\<lambda>(p, io).
       let io = io\<lparr>i8042_data_port_base := Some p\<rparr> in
       bindE (io_store p (le_bytes 4 (0 :: u32)) io) (\<lambda>io.
       bindE (add_pio_map ''keyboard'' 0x60 p 4 (Some i8042_data_io_handler_t) io)
         (add_mmio_map ''keyboard'' 0xa1000060 p 4 (Some i8042_data_io_handler_t))))"

definition init_audio :: "io_state \<Rightarrow> io_state res" where
  "init_audio io =
     (let space_size = 4 * 6 in
      bindE (new_space space_size io) (\<lambda>(p, io).
        let io = io\<lparr>audio_base := Some p\<rparr> in
        bindE (add_pio_map ''audio'' 0x200 p (unat space_size) (Some audio_io_handler_t) io) (\<lambda>io.
        bindE (add_mmio_map ''audio'' 0xa1000200 p space_size (Some audio_io_handler_t) io) (\<lambda>io.
        bindE (new_space 65536 io) (\<lambda>(b, io).
          let io = io\<lparr>sbuf := Some b\<rparr> in
          add_mmio_map ''audio-sbuf'' 0xa0800000 b 65536 None io)))))"

text \<open>
  \<open>init_device\<close> of a build with \<open>HAS_IOE\<close>; without it (the configuration of \<open>common.h\<close>) the
  function is empty. \<open>init_alarm\<close> only installs the signal handler and the interval timer.
\<close>

definition init_device :: "bool \<Rightarrow> io_state \<Rightarrow> io_state res" where
  "init_device has_ioe io =
     (if has_ioe then
        bindE (init_serial io) (\<lambda>io.
        bindE (init_timer io) (\<lambda>io.
        bindE (init_vga io) (\<lambda>io.
        bindE (init_i8042 io) (\<lambda>io.
        bindE (init_audio io)
          (add_alarm_handle set_device_update_flag_t)))))
      else Inr io)"

section \<open>Polling (device.c)\<close>

datatype SDL_Event = SDL_QUIT | SDL_KEYDOWN u8 | SDL_KEYUP u8 | SDL_OTHER

text \<open>\<open>vga_update_screen\<close> has an empty body: its comment is a task for the reader.\<close>

definition vga_update_screen :: "io_state \<Rightarrow> io_state" where
  "vga_update_screen io = io"

fun device_poll ::
  "(string \<Rightarrow> u8) \<Rightarrow> SDL_Event list \<Rightarrow> 'v NEMUState \<times> io_state \<Rightarrow> ('v NEMUState \<times> io_state) res" where
  "device_poll sdl [] (ns, io) = Inr (ns, io)"
| "device_poll sdl (SDL_QUIT # es) (ns, io) = device_poll sdl es (ns\<lparr>nstate := NEMU_QUIT\<rparr>, io)"
| "device_poll sdl (SDL_KEYDOWN k # es) (ns, io) =
     bindE (send_key sdl ns k True io) (\<lambda>io. device_poll sdl es (ns, io))"
| "device_poll sdl (SDL_KEYUP k # es) (ns, io) =
     bindE (send_key sdl ns k False io) (\<lambda>io. device_poll sdl es (ns, io))"
| "device_poll sdl (SDL_OTHER # es) (ns, io) = device_poll sdl es (ns, io)"

definition device_update ::
  "(string \<Rightarrow> u8) \<Rightarrow> SDL_Event list \<Rightarrow> 'v NEMUState \<times> io_state \<Rightarrow> ('v NEMUState \<times> io_state) res" where
  "device_update sdl events = (\<lambda>(ns, io).
     if \<not> device_update_flag io then Inr (ns, io)
     else device_poll sdl events (ns, vga_update_screen (io\<lparr>device_update_flag := False\<rparr>)))"

end
