(* ===== verification/Memory.thy ===== *)
theory Memory
  imports Device
begin

text \<open>
  Guest memory: \<open>memory/paddr.c\<close> and \<open>include/memory/vaddr.h\<close>. The physical memory is the static
  array \<open>pmem\<close> of \<open>PMEM_SIZE\<close> bytes; an address outside it goes to the I/O maps. \<open>PMEM_BASE\<close>
  and the width of \<open>word_t\<close> depend on the guest ISA, so the base is an argument \<open>base\<close> of the
  operations and the width a type parameter (\<open>ISA64\<close> is the case of 64 bits).
\<close>

record bus =
  pmem :: byte_array
  bus_io :: io_state

definition bus_initial :: "(nat \<Rightarrow> u64 \<times> u64) \<Rightarrow> bus" where
  "bus_initial clk = \<lparr>pmem = (\<lambda>_. 0), bus_io = io_initial clk\<rparr>"

definition PMEM_SIZE :: nat where "PMEM_SIZE = 128 * 1024 * 1024"

section \<open>Host pointers\<close>

text \<open>A host pointer into \<open>pmem\<close> is the distance from its start.\<close>

definition guest_to_host :: "u32 \<Rightarrow> int" where
  "guest_to_host addr = uint addr"

definition host_to_guest :: "int \<Rightarrow> u32" where
  "host_to_guest p = word_of_int (0 - p)"

section \<open>Physical accesses\<close>

text \<open>\<open>init_mem\<close> fills the memory with the host's \<open>rand()\<close>, here the argument \<open>rnd\<close>.\<close>

definition init_mem :: "(nat \<Rightarrow> u32) \<Rightarrow> bus \<Rightarrow> bus" where
  "init_mem rnd b =
     b\<lparr>pmem := (\<lambda>i. if i < PMEM_SIZE then ucast (drop_bit (8 * (i mod 4)) (rnd (i div 4))) else pmem b i)\<rparr>"

definition in_pmem :: "u32 \<Rightarrow> u32 \<Rightarrow> bool" where
  "in_pmem base addr \<longleftrightarrow> base \<le> addr \<and> addr \<le> base + of_nat PMEM_SIZE - 1"

definition mem_len_ok :: "nat \<Rightarrow> nat \<Rightarrow> bool" where
  "mem_len_ok wordsize len \<longleftrightarrow> len = 1 \<or> len = 2 \<or> len = 4 \<or> (wordsize = 64 \<and> len = 8)"

definition pmem_read :: "u32 \<Rightarrow> u32 \<Rightarrow> nat \<Rightarrow> bus \<Rightarrow> 'w::len word res" where
  "pmem_read base addr len b =
     bindE (assertE (mem_len_ok LENGTH('w) len)) (\<lambda>_.
     bindE (load_bytes PMEM_SIZE (unat (addr - base)) len (pmem b)) (\<lambda>bs. Inr (le_word bs)))"

definition pmem_write :: "u32 \<Rightarrow> u32 \<Rightarrow> 'w::len word \<Rightarrow> nat \<Rightarrow> bus \<Rightarrow> bus res" where
  "pmem_write base addr data len b =
     bindE (assertE (mem_len_ok LENGTH('w) len)) (\<lambda>_.
     bindE (store_bytes PMEM_SIZE (unat (addr - base)) (le_bytes len data) (pmem b)) (\<lambda>m.
       Inr (b\<lparr>pmem := m\<rparr>)))"

definition paddr_read :: "u32 \<Rightarrow> u32 \<Rightarrow> nat \<Rightarrow> bus \<Rightarrow> ('w::len word \<times> bus) res" where
  "paddr_read base addr len b =
     (if in_pmem base addr then bindE (pmem_read base addr len b) (\<lambda>v. Inr (v, b))
      else bindE (map_read addr len (fetch_mmio_map addr (bus_io b)) (bus_io b)) (\<lambda>(v, i).
             Inr (v, b\<lparr>bus_io := i\<rparr>)))"

definition paddr_write :: "u32 \<Rightarrow> u32 \<Rightarrow> 'w::len word \<Rightarrow> nat \<Rightarrow> bus \<Rightarrow> bus res" where
  "paddr_write base addr data len b =
     (if in_pmem base addr then pmem_write base addr data len b
      else bindE (map_write addr data len (fetch_mmio_map addr (bus_io b)) (bus_io b)) (\<lambda>i.
             Inr (b\<lparr>bus_io := i\<rparr>)))"

section \<open>Virtual accesses\<close>

text \<open>
  \<open>isa_vaddr_check\<close> is the constant \<open>MEM_RET_OK\<close> for every ISA in the tree, so a virtual access
  of 1, 2, 4 (and 8) bytes is the physical one; the address is converted to the 32-bit \<open>paddr_t\<close>.
\<close>

datatype mem_ret = MEM_RET_OK | MEM_RET_NEED_TRANSLATE | MEM_RET_FAIL | MEM_RET_CROSS_PAGE
datatype mem_type = MEM_TYPE_IFETCH | MEM_TYPE_READ | MEM_TYPE_WRITE

definition isa_vaddr_check :: "'w::len word \<Rightarrow> mem_type \<Rightarrow> nat \<Rightarrow> mem_ret" where
  "isa_vaddr_check vaddr ty len = MEM_RET_OK"

definition vaddr_ifetch_n :: "u32 \<Rightarrow> 'w::len word \<Rightarrow> nat \<Rightarrow> bus \<Rightarrow> ('w word \<times> bus) res" where
  "vaddr_ifetch_n base addr len b =
     (if isa_vaddr_check addr MEM_TYPE_IFETCH len = MEM_RET_OK then paddr_read base (ucast addr) len b
      else Inr (0, b))"

definition vaddr_read_n :: "u32 \<Rightarrow> 'w::len word \<Rightarrow> nat \<Rightarrow> bus \<Rightarrow> ('w word \<times> bus) res" where
  "vaddr_read_n base addr len b =
     (if isa_vaddr_check addr MEM_TYPE_READ len = MEM_RET_OK then paddr_read base (ucast addr) len b
      else Inr (0, b))"

definition vaddr_write_n :: "u32 \<Rightarrow> 'w::len word \<Rightarrow> 'w word \<Rightarrow> nat \<Rightarrow> bus \<Rightarrow> bus res" where
  "vaddr_write_n base addr data len b =
     (if isa_vaddr_check addr MEM_TYPE_WRITE len = MEM_RET_OK
      then paddr_write base (ucast addr) data len b else Inr b)"

definition vaddr_read :: "u32 \<Rightarrow> 'w::len word \<Rightarrow> nat \<Rightarrow> bus \<Rightarrow> ('w word \<times> bus) res" where
  "vaddr_read base addr len b =
     bindE (assertE (mem_len_ok LENGTH('w) len)) (\<lambda>_. vaddr_read_n base addr len b)"

definition vaddr_write :: "u32 \<Rightarrow> 'w::len word \<Rightarrow> 'w word \<Rightarrow> nat \<Rightarrow> bus \<Rightarrow> bus res" where
  "vaddr_write base addr data len b =
     bindE (assertE (mem_len_ok LENGTH('w) len)) (\<lambda>_. vaddr_write_n base addr data len b)"

definition vaddr_ifetch :: "u32 \<Rightarrow> 'w::len word \<Rightarrow> nat \<Rightarrow> bus \<Rightarrow> ('w word \<times> bus) res" where
  "vaddr_ifetch base addr len b =
     bindE (assertE (mem_len_ok LENGTH('w) len)) (\<lambda>_. vaddr_ifetch_n base addr len b)"

lemmas vaddr_defs =
  vaddr_read_def vaddr_write_def vaddr_ifetch_def vaddr_read_n_def vaddr_write_n_def
  vaddr_ifetch_n_def isa_vaddr_check_def

text \<open>The address translation hook is a stub for every ISA: it returns the code of a failure.\<close>

definition isa_mmu_translate :: "'w::len word \<Rightarrow> mem_type \<Rightarrow> nat \<Rightarrow> mem_ret" where
  "isa_mmu_translate vaddr ty len = MEM_RET_FAIL"

section \<open>Contract of a word store\<close>

text \<open>
  What the CPU relies on: inside the valid region a store succeeds, a load returns the low bytes of
  the last store at that address, and a store leaves disjoint loads alone. The region of an
  instance is \<open>valid\<close>, the position of an address in it \<open>pos\<close>.
\<close>

locale word_store =
  fixes valid :: "'w::len word \<Rightarrow> nat \<Rightarrow> bool"
    and pos :: "'w word \<Rightarrow> nat"
    and rd :: "'w word \<Rightarrow> nat \<Rightarrow> 's \<Rightarrow> ('w word \<times> 's) res"
    and wr :: "'w word \<Rightarrow> 'w word \<Rightarrow> nat \<Rightarrow> 's \<Rightarrow> 's res"
  assumes rd_total: "valid a n \<Longrightarrow> \<exists>v. rd a n s = Inr (v, s)"
    and wr_total: "valid a n \<Longrightarrow> \<exists>t. wr a v n s = Inr t"
    and rd_wr_same: "valid a n \<Longrightarrow> wr a v n s = Inr t \<Longrightarrow> rd a n t = Inr (take_bit (8 * n) v, t)"
    and rd_wr_other: "valid a n \<Longrightarrow> valid b m \<Longrightarrow> wr b v m s = Inr t \<Longrightarrow>
        pos a + n \<le> pos b \<or> pos b + m \<le> pos a \<Longrightarrow> rd a n s = Inr (x, s) \<Longrightarrow> rd a n t = Inr (x, t)"
begin

lemma wr_then_rd: "valid a n \<Longrightarrow> \<exists>t. wr a v n s = Inr t \<and> rd a n t = Inr (take_bit (8 * n) v, t)"
  using wr_total rd_wr_same by blast

text \<open>A store of a full word is read back unchanged, also after a later disjoint store.\<close>

lemma wr_survives:
  assumes "valid a n" "valid b m" and disj: "pos a + n \<le> pos b \<or> pos b + m \<le> pos a"
    and "wr a v n s = Inr t" and "wr b w m t = Inr u"
  shows "rd a n u = Inr (take_bit (8 * n) v, u)"
  using assms(1,2,4,5) rd_wr_same [OF assms(1,4)] rd_wr_other [OF assms(1,2,5) disj] by blast

text \<open>A sequence of stores at pairwise disjoint addresses.\<close>

fun wr_list :: "('w word \<times> 'w word \<times> nat) list \<Rightarrow> 's \<Rightarrow> 's res" where
  "wr_list [] s = Inr s"
| "wr_list ((a, v, n) # ws) s = bindE (wr a v n s) (wr_list ws)"

lemma wr_list_other:
  assumes "valid a n" and "\<forall>(b, w, m)\<in>set ws. valid b m \<and> (pos a + n \<le> pos b \<or> pos b + m \<le> pos a)"
    and "rd a n s = Inr (x, s)" and "wr_list ws s = Inr t"
  shows "rd a n t = Inr (x, t)"
  using assms(2-) by (induction ws s rule: wr_list.induct)
    (auto simp: bindE_eq_Inr intro: rd_wr_other [OF assms(1)])

end


section \<open>Guest memory implements the contract\<close>

definition pmem_valid :: "u32 \<Rightarrow> 'w::len word \<Rightarrow> nat \<Rightarrow> bool" where
  "pmem_valid base a n \<longleftrightarrow>
     mem_len_ok LENGTH('w) n \<and> in_pmem base (ucast a) \<and> unat ((ucast a :: u32) - base) + n \<le> PMEM_SIZE"

definition pmem_pos :: "u32 \<Rightarrow> 'w::len word \<Rightarrow> nat" where
  "pmem_pos base a = unat ((ucast a :: u32) - base)"

lemma vaddr_read_pmem:
  "in_pmem base (ucast a) \<Longrightarrow>
     vaddr_read base (a :: 'w::len word) n b =
       bindE (pmem_read base (ucast a) n b) (\<lambda>v. Inr (v, b))"
  by (auto simp: vaddr_defs paddr_read_def pmem_read_def assertE_def)

lemma vaddr_write_pmem:
  "in_pmem base (ucast a) \<Longrightarrow>
     vaddr_write base (a :: 'w::len word) v n b = pmem_write base (ucast a) v n b"
  by (auto simp: vaddr_defs paddr_write_def pmem_write_def assertE_def)

lemma vaddr_ifetch_eq_read: "vaddr_ifetch base a n b = vaddr_read base a n b"
  by (simp add: vaddr_defs)

lemma pmem_read_eq:
  "pmem_valid base (a :: 'w::len word) n \<Longrightarrow>
     vaddr_read base a n b = Inr (le_word (map (\<lambda>i. pmem b (pmem_pos base a + i)) [0..<n]), b)"
  by (simp add: vaddr_read_pmem pmem_valid_def pmem_read_def pmem_pos_def load_bytes_def)

lemma pmem_write_eq:
  "pmem_valid base (a :: 'w::len word) n \<Longrightarrow>
     vaddr_write base a v n b = Inr (b\<lparr>pmem := put_bytes (pmem_pos base a) (le_bytes n v) (pmem b)\<rparr>)"
  by (simp add: vaddr_write_pmem pmem_valid_def pmem_write_def pmem_pos_def store_bytes_def)

interpretation guest_mem: word_store "pmem_valid base" "pmem_pos base" "vaddr_read base" "vaddr_write base"
  for base :: u32
proof
  fix a v :: "'a::len word" and n and s t :: bus
  assume valid: "pmem_valid base a n"
  show "\<exists>v. vaddr_read base a n s = Inr (v, s)" by (simp add: pmem_read_eq valid)
  show "\<exists>t. vaddr_write base a v n s = Inr t" by (simp add: pmem_write_eq valid)
  assume "vaddr_write base a v n s = Inr t"
  then have t: "t = s\<lparr>pmem := put_bytes (pmem_pos base a) (le_bytes n v) (pmem s)\<rparr>"
    by (simp add: pmem_write_eq valid)
  have "map (\<lambda>i. pmem t (pmem_pos base a + i)) [0..<n] = le_bytes n v"
    by (rule nth_equalityI) (simp_all add: t put_bytes_same)
  then show "vaddr_read base a n t = Inr (take_bit (8 * n) v, t)"
    by (simp add: pmem_read_eq valid le_word_le_bytes)
next
  fix a b v x :: "'a::len word" and n m and s t :: bus
  assume valid: "pmem_valid base a n" "pmem_valid base b m"
    and wr: "vaddr_write base b v m s = Inr t"
    and disj: "pmem_pos base a + n \<le> pmem_pos base b \<or> pmem_pos base b + m \<le> pmem_pos base a"
    and rd: "vaddr_read base a n s = Inr (x, s)"
  have t: "t = s\<lparr>pmem := put_bytes (pmem_pos base b) (le_bytes m v) (pmem s)\<rparr>"
    using wr by (simp add: pmem_write_eq valid)
  have "map (\<lambda>i. pmem t (pmem_pos base a + i)) [0..<n] = map (\<lambda>i. pmem s (pmem_pos base a + i)) [0..<n]"
    using disj by (auto simp: t intro!: put_bytes_other)
  then show "vaddr_read base a n t = Inr (x, t)"
    using rd by (simp add: pmem_read_eq valid del: map_eq_conv)
qed

section \<open>Properties\<close>

lemma in_pmem_pos:
  assumes "in_pmem base addr"
  shows "unat (addr - base) < PMEM_SIZE"
proof -
  from assms have le: "base \<le> addr" and "addr \<le> base + (of_nat PMEM_SIZE - 1)"
    by (auto simp: in_pmem_def add_diff_eq)
  then have "unat addr \<le> unat (base + (of_nat PMEM_SIZE - 1))"
    by (simp add: word_le_nat_alt)
  also have "\<dots> \<le> unat base + unat (of_nat PMEM_SIZE - 1 :: u32)"
    by (simp add: unat_word_ariths(1))
  finally show ?thesis using le by (simp add: unat_sub PMEM_SIZE_def)
qed

text \<open>
  C8. A guest store is read back: for every ISA (memory base and word width) and every access of 1,
  2, 4 (or 8) bytes that lies inside the physical memory, \<open>vaddr_write\<close> succeeds and a following
  \<open>vaddr_read\<close> of the same size returns the low bytes of the stored value; every other valid access
  at disjoint addresses returns what it returned before.
\<close>

theorem vaddr_write_read:
  fixes a v :: "'w::len word"
  assumes "pmem_valid base a n"
  shows "\<exists>t. vaddr_write base a v n s = Inr t \<and>
           vaddr_read base a n t = Inr (take_bit (8 * n) v, t) \<and>
           (\<forall>c m x. pmem_valid base c m \<and>
              (pmem_pos base c + m \<le> pmem_pos base a \<or> pmem_pos base a + n \<le> pmem_pos base c) \<and>
              vaddr_read base (c :: 'w word) m s = Inr (x, s) \<longrightarrow> vaddr_read base c m t = Inr (x, t))"
proof -
  obtain t where "vaddr_write base a v n s = Inr t" and "vaddr_read base a n t = Inr (take_bit (8 * n) v, t)"
    using guest_mem.wr_then_rd [OF assms] by blast
  then show ?thesis using guest_mem.rd_wr_other [OF _ assms] by blast
qed

theorem vaddr_write_read_witness:
  "\<exists>t. vaddr_write 0 (0x100000 :: u32) 0xdeadbeef 4 (bus_initial (\<lambda>_. (0, 0))) = Inr t \<and>
       vaddr_read 0 (0x100000 :: u32) 4 t = Inr (0xdeadbeef, t)"
  using vaddr_write_read [of 0 "0x100000 :: u32" 4 "0xdeadbeef" "bus_initial (\<lambda>_. (0, 0))"]
  by (auto simp: pmem_valid_def mem_len_ok_def in_pmem_def PMEM_SIZE_def)

text \<open>
  C11. The bound check of \<open>paddr_read\<close> and \<open>paddr_write\<close> covers the first byte only: an access that
  starts in the physical memory and ends past it leaves the array \<open>pmem\<close>.
\<close>

theorem paddr_straddle_out_of_bounds:
  assumes "in_pmem base addr" and "mem_len_ok LENGTH('w::len) n" and "unat (addr - base) + n > PMEM_SIZE"
  shows "(paddr_read base addr n b :: ('w word \<times> bus) res) = Inl Out_of_bounds \<and>
         paddr_write base addr (v :: 'w word) n b = Inl Out_of_bounds"
  using assms
  by (simp add: paddr_read_def paddr_write_def pmem_read_def pmem_write_def load_bytes_def store_bytes_def)

theorem paddr_straddle_out_of_bounds_witness:
  "(paddr_read 0 0x7FFFFFE 4 (bus_initial (\<lambda>_. (0, 0))) :: (u32 \<times> bus) res) = Inl Out_of_bounds \<and>
   paddr_write 0 0x7FFFFFE (1 :: u32) 4 (bus_initial (\<lambda>_. (0, 0))) = Inl Out_of_bounds"
  by (rule paddr_straddle_out_of_bounds) (simp_all add: in_pmem_def mem_len_ok_def PMEM_SIZE_def)

text \<open>
  Accesses inside the physical memory leave the devices alone, and accesses through an I/O map
  leave the physical memory alone.
\<close>

theorem paddr_isolation:
  "(in_pmem base addr \<and> paddr_write base addr (v :: 'w::len word) n b = Inr t \<longrightarrow> bus_io t = bus_io b) \<and>
   (\<not> in_pmem base addr \<and> paddr_write base addr v n b = Inr t \<longrightarrow> pmem t = pmem b) \<and>
   (in_pmem base addr \<and> paddr_read base addr n b = Inr (x :: 'w word, t) \<longrightarrow> t = b) \<and>
   (\<not> in_pmem base addr \<and> paddr_read base addr n b = Inr (x, t) \<longrightarrow> pmem t = pmem b)"
  by (auto simp: paddr_write_def paddr_read_def pmem_write_def bindE_eq_Inr split: prod.splits)

theorem paddr_isolation_witness:
  "in_pmem 0 0x100000 \<and>
   (\<exists>t. paddr_write 0 0x100000 (7 :: u32) 4 (bus_initial (\<lambda>_. (0, 0))) = Inr t \<and>
        bus_io t = bus_io (bus_initial (\<lambda>_. (0, 0))))"
proof -
  have i: "in_pmem 0 0x100000" by (simp add: in_pmem_def PMEM_SIZE_def)
  have "\<exists>t. paddr_write 0 0x100000 (7 :: u32) 4 (bus_initial (\<lambda>_. (0, 0))) = Inr t"
    by (simp add: paddr_write_def i pmem_write_def store_bytes_def mem_len_ok_def PMEM_SIZE_def)
  then show ?thesis
    using i paddr_isolation [where v = "7 :: u32" and n = 4 and addr = "0x100000" and base = 0] by blast
qed

text \<open>
  In a build without devices every access outside the physical memory stops at the assertion of
  \<open>check_bound\<close> (with no map at all, \<open>fetch_mmio_map\<close> returns the null pointer).
\<close>

theorem unmapped_access_aborts:
  assumes "\<not> in_pmem base (ucast a)" and "mmio_maps (bus_io b) = []" and "mem_len_ok LENGTH('w::len) n"
  shows "vaddr_read base (a :: 'w word) n b = Inl Assert_fail \<and> vaddr_write base a v n b = Inl Assert_fail"
  using assms
  by (auto simp: vaddr_defs paddr_read_def paddr_write_def fetch_mmio_map_def find_mapid_by_addr_def
      map_read_def map_write_def check_bound_def mem_len_ok_def)

theorem unmapped_access_aborts_witness:
  "vaddr_read 0 (0xa0000000 :: u32) 4 (bus_initial (\<lambda>_. (0, 0))) = Inl Assert_fail \<and>
   vaddr_write 0 (0xa0000000 :: u32) 1 4 (bus_initial (\<lambda>_. (0, 0))) = Inl Assert_fail"
  by (rule unmapped_access_aborts)
    (simp_all add: in_pmem_def PMEM_SIZE_def bus_initial_def io_initial_def mem_len_ok_def)

text \<open>
  \<open>host_to_guest\<close> is not the inverse of \<open>guest_to_host\<close>: it subtracts in the wrong order and
  returns the negated guest address.
\<close>

theorem host_to_guest_negates: "host_to_guest (guest_to_host addr) = - addr"
  by (simp add: host_to_guest_def guest_to_host_def)

end
