(* ===== verification/Rtl.thy ===== *)
theory Rtl
  imports Memory "HOL-Library.Signed_Division"
begin

text \<open>
  The RTL layer of the interpreter engine: the decode and execution state
  (\<open>include/cpu/decode.h\<close>, \<open>include/cpu/exec.h\<close>), the host operators \<open>c_*\<close> and
  \<open>interpret_relop\<close> (\<open>engine/interpreter/c_op.h\<close>), the basic RTL instructions
  (\<open>engine/interpreter/rtl-basic.h\<close>) and the pseudo instructions (\<open>include/rtl/pseudo.h\<close>).

  RTL instructions take pointers to \<open>rtlreg_t\<close>, and the code makes them alias (a destination may be
  a guest register, a temporary or the value cell of an operand). The places such a pointer can
  point to are the constructors of \<open>rtlptr\<close>, and \<open>rd\<close>/\<open>wr\<close> read and write the place in the
  state. A local variable the code has not assigned yet is \<open>None\<close>, and its read is the fault
  \<open>Uninit\<close>. Word width and ISA-specific decode information are type parameters.
\<close>

named_theorems rtl_defs \<open>definitions of the RTL instructions\<close>

section \<open>State\<close>

datatype opnd = Src1 | Dest | Src2

datatype rtlptr = Rgpr nat | Rtmp nat | Rval opnd | Rmbr | Rz

datatype op_type_t = OP_TYPE_REG | OP_TYPE_MEM | OP_TYPE_IMM

text \<open>The union of \<open>reg\<close>, \<open>imm\<close> and \<open>simm\<close> is one cell, \<open>op_imm\<close>.\<close>

record 'v Operand =
  op_type :: "op_type_t option"
  op_width :: "nat option"
  op_imm :: "'v option"
  op_preg :: "rtlptr option"
  op_val :: "'v option"

record ('v, 'i) DecodeExecState =
  opcode :: "u32 option"
  seq_pc :: "'v"
  is_jmp :: bool
  jmp_pc :: "'v option"
  src1 :: "'v Operand"
  dest :: "'v Operand"
  src2 :: "'v Operand"
  dwidth :: "nat option"
  tmp_reg :: "nat \<Rightarrow> 'v option"
  mbr :: "'v option"
  isa :: 'i

record 'v CPU_state =
  gpr :: "'v list"
  pc :: "'v"

text \<open>
  The globals an instruction can reach: the CPU, the memory bus, \<open>nemu_state\<close>, and the length of the
  debug buffer \<open>log_bytebuf\<close>, to which \<open>instr_fetch\<close> appends three characters per byte.
\<close>

record 'v machine =
  cpu :: "'v CPU_state"
  mbus :: bus
  nemu_state :: "'v NEMUState"
  log_bytebuf_len :: nat

record ('v, 'i) ctx =
  ds :: "('v, 'i) DecodeExecState"
  mach :: "'v machine"

definition operand_uninit :: "'w::len word Operand" where
  "operand_uninit = \<lparr>op_type = None, op_width = None, op_imm = None, op_preg = None, op_val = None\<rparr>"

text \<open>The local variable \<open>DecodeExecState s\<close> of \<open>isa_exec_once\<close> after its initial assignments.\<close>

definition decode_state_init :: "'w::len word \<Rightarrow> 'w word option \<Rightarrow> 'i \<Rightarrow> ('w word, 'i) DecodeExecState" where
  "decode_state_init p m i =
     \<lparr>opcode = None, seq_pc = p, is_jmp = False, jmp_pc = None,
      src1 = operand_uninit, dest = operand_uninit, src2 = operand_uninit, dwidth = None,
      tmp_reg = (\<lambda>_. None), mbr = m, isa = i\<rparr>"

subsection \<open>Operands and pointers\<close>

fun get_op :: "opnd \<Rightarrow> ('w::len word, 'i) ctx \<Rightarrow> 'w word Operand" where
  "get_op Src1 c = src1 (ds c)"
| "get_op Dest c = dest (ds c)"
| "get_op Src2 c = src2 (ds c)"

fun upd_op :: "opnd \<Rightarrow> ('w word Operand \<Rightarrow> 'w word Operand) \<Rightarrow> ('w::len word, 'i) ctx \<Rightarrow> ('w word, 'i) ctx" where
  "upd_op Src1 f c = c\<lparr>ds := (ds c)\<lparr>src1 := f (src1 (ds c))\<rparr>\<rparr>"
| "upd_op Dest f c = c\<lparr>ds := (ds c)\<lparr>dest := f (dest (ds c))\<rparr>\<rparr>"
| "upd_op Src2 f c = c\<lparr>ds := (ds c)\<lparr>src2 := f (src2 (ds c))\<rparr>\<rparr>"

abbreviation cgpr :: "('w::len word, 'i) ctx \<Rightarrow> 'w word list" where
  "cgpr c \<equiv> gpr (cpu (mach c))"

definition set_gpr :: "nat \<Rightarrow> 'w word \<Rightarrow> ('w::len word, 'i) ctx \<Rightarrow> ('w word, 'i) ctx" where
  "set_gpr i v c = c\<lparr>mach := (mach c)\<lparr>cpu := (cpu (mach c))\<lparr>gpr := (cgpr c)[i := v]\<rparr>\<rparr>\<rparr>"

fun rd :: "rtlptr \<Rightarrow> ('w::len word, 'i) ctx \<Rightarrow> 'w word res" where
  "rd (Rgpr i) c = (if i < length (cgpr c) then Inr (cgpr c ! i) else Inl Out_of_bounds)"
| "rd (Rtmp i) c = (if i < 4 then optE Uninit (tmp_reg (ds c) i) else Inl Out_of_bounds)"
| "rd (Rval op) c = optE Uninit (op_val (get_op op c))"
| "rd Rmbr c = optE Uninit (mbr (ds c))"
| "rd Rz c = Inr 0"

text \<open>\<open>rzero\<close> is a constant object: no RTL instruction may be given it as a destination.\<close>

fun wr :: "rtlptr \<Rightarrow> 'w word \<Rightarrow> ('w::len word, 'i) ctx \<Rightarrow> ('w word, 'i) ctx res" where
  "wr (Rgpr i) v c = (if i < length (cgpr c) then Inr (set_gpr i v c) else Inl Out_of_bounds)"
| "wr (Rtmp i) v c =
     (if i < 4 then Inr (c\<lparr>ds := (ds c)\<lparr>tmp_reg := (tmp_reg (ds c))(i := Some v)\<rparr>\<rparr>) else Inl Out_of_bounds)"
| "wr (Rval op) v c = Inr (upd_op op (\<lambda>q. q\<lparr>op_val := Some v\<rparr>) c)"
| "wr Rmbr v c = Inr (c\<lparr>ds := (ds c)\<lparr>mbr := Some v\<rparr>\<rparr>)"
| "wr Rz v c = Inl Out_of_bounds"

abbreviation s0 :: rtlptr where "s0 \<equiv> Rtmp 0"
abbreviation s1 :: rtlptr where "s1 \<equiv> Rtmp 1"
abbreviation s2 :: rtlptr where "s2 \<equiv> Rtmp 2"
abbreviation t0 :: rtlptr where "t0 \<equiv> Rtmp 3"

definition preg_of :: "opnd \<Rightarrow> ('w::len word, 'i) ctx \<Rightarrow> rtlptr res" where
  "preg_of op c = optE Uninit (op_preg (get_op op c))"

definition width_of :: "opnd \<Rightarrow> ('w::len word, 'i) ctx \<Rightarrow> nat res" where
  "width_of op c = optE Uninit (op_width (get_op op c))"

section \<open>Host operators (c\_op.h)\<close>

definition c_shift_mask :: "'w::len word" where
  "c_shift_mask = (if LENGTH('w) = 64 then 0x3f else 0x1f)"

definition c_add :: "'w::len word \<Rightarrow> 'w word \<Rightarrow> 'w word res" where "c_add a b = Inr (a + b)"
definition c_sub :: "'w::len word \<Rightarrow> 'w word \<Rightarrow> 'w word res" where "c_sub a b = Inr (a - b)"
definition c_and :: "'w::len word \<Rightarrow> 'w word \<Rightarrow> 'w word res" where "c_and a b = Inr (a AND b)"
definition c_or :: "'w::len word \<Rightarrow> 'w word \<Rightarrow> 'w word res" where "c_or a b = Inr (a OR b)"
definition c_xor :: "'w::len word \<Rightarrow> 'w word \<Rightarrow> 'w word res" where "c_xor a b = Inr (a XOR b)"
definition c_shl :: "'w::len word \<Rightarrow> 'w word \<Rightarrow> 'w word res" where
  "c_shl a b = Inr (push_bit (unat (b AND c_shift_mask)) a)"
definition c_shr :: "'w::len word \<Rightarrow> 'w word \<Rightarrow> 'w word res" where
  "c_shr a b = Inr (drop_bit (unat (b AND c_shift_mask)) a)"
definition c_sar :: "'w::len word \<Rightarrow> 'w word \<Rightarrow> 'w word res" where
  "c_sar a b = Inr (signed_drop_bit (unat (b AND c_shift_mask)) a)"

text \<open>
  Products: the low word is the same for signed and unsigned operands; \<open>c_mul_hi\<close> and \<open>c_imul_hi\<close>
  take the high word of the double-width product.
\<close>

definition c_mul_lo :: "'w::len word \<Rightarrow> 'w word \<Rightarrow> 'w word res" where "c_mul_lo a b = Inr (a * b)"
definition c_imul_lo :: "'w::len word \<Rightarrow> 'w word \<Rightarrow> 'w word res" where
  "c_imul_lo a b = Inr (word_of_int (sint a * sint b))"
definition c_mul_hi :: "'w::len word \<Rightarrow> 'w word \<Rightarrow> 'w word res" where
  "c_mul_hi a b = Inr (word_of_int ((uint a * uint b) div 2 ^ LENGTH('w)))"
definition c_imul_hi :: "'w::len word \<Rightarrow> 'w word \<Rightarrow> 'w word res" where
  "c_imul_hi a b = Inr (word_of_int ((sint a * sint b) div 2 ^ LENGTH('w)))"

text \<open>Division traps on a zero divisor, and on the one signed quotient that does not fit.\<close>

definition c_div_q :: "'w::len word \<Rightarrow> 'w word \<Rightarrow> 'w word res" where
  "c_div_q a b = (if b = 0 then Inl Div_error else Inr (a div b))"
definition c_div_r :: "'w::len word \<Rightarrow> 'w word \<Rightarrow> 'w word res" where
  "c_div_r a b = (if b = 0 then Inl Div_error else Inr (a mod b))"
definition sdiv_overflows :: "nat \<Rightarrow> int \<Rightarrow> int \<Rightarrow> bool" where
  "sdiv_overflows bits x y \<longleftrightarrow> x = - (2 ^ (bits - 1)) \<and> y = - 1"
definition c_idiv_q :: "'w::len word \<Rightarrow> 'w word \<Rightarrow> 'w word res" where
  "c_idiv_q a b = (if b = 0 \<or> sdiv_overflows LENGTH('w) (sint a) (sint b) then Inl Div_error
     else Inr (word_of_int (sint a sdiv sint b)))"
definition c_idiv_r :: "'w::len word \<Rightarrow> 'w word \<Rightarrow> 'w word res" where
  "c_idiv_r a b = (if b = 0 \<or> sdiv_overflows LENGTH('w) (sint a) (sint b) then Inl Div_error
     else Inr (word_of_int (sint a smod sint b)))"

text \<open>The 32-bit operators of a 64-bit ISA: compute in 32 bits, then sign-extend.\<close>

definition c_sext32to64 :: "u32 \<Rightarrow> u64" where "c_sext32to64 a = scast a"
definition c_addw :: "u64 \<Rightarrow> u64 \<Rightarrow> u64 res" where "c_addw a b = Inr (c_sext32to64 (ucast (a + b)))"
definition c_subw :: "u64 \<Rightarrow> u64 \<Rightarrow> u64 res" where "c_subw a b = Inr (c_sext32to64 (ucast (a - b)))"
definition c_shlw :: "u64 \<Rightarrow> u64 \<Rightarrow> u64 res" where
  "c_shlw a b = Inr (c_sext32to64 (push_bit (unat (b AND 0x1f)) (ucast a)))"
definition c_shrw :: "u64 \<Rightarrow> u64 \<Rightarrow> u64 res" where
  "c_shrw a b = Inr (c_sext32to64 (drop_bit (unat (b AND 0x1f)) (ucast a)))"
definition c_sarw :: "u64 \<Rightarrow> u64 \<Rightarrow> u64 res" where
  "c_sarw a b = Inr (c_sext32to64 (signed_drop_bit (unat (b AND 0x1f)) (ucast a)))"
definition c_mulw :: "u64 \<Rightarrow> u64 \<Rightarrow> u64 res" where "c_mulw a b = Inr (c_sext32to64 (ucast (a * b)))"
definition c_via32 :: "(u32 \<Rightarrow> u32 \<Rightarrow> u32 res) \<Rightarrow> u64 \<Rightarrow> u64 \<Rightarrow> u64 res" where
  "c_via32 f a b = bindE (f (ucast a) (ucast b)) (\<lambda>r. Inr (c_sext32to64 r))"
definition c_divw :: "u64 \<Rightarrow> u64 \<Rightarrow> u64 res" where "c_divw = c_via32 c_idiv_q"
definition c_divuw :: "u64 \<Rightarrow> u64 \<Rightarrow> u64 res" where "c_divuw = c_via32 c_div_q"
definition c_remw :: "u64 \<Rightarrow> u64 \<Rightarrow> u64 res" where "c_remw = c_via32 c_idiv_r"
definition c_remuw :: "u64 \<Rightarrow> u64 \<Rightarrow> u64 res" where "c_remuw = c_via32 c_div_r"

subsection \<open>Relation operators\<close>

definition RELOP_FALSE :: nat where "RELOP_FALSE = 0 OR 0 OR 0 OR 0"
definition RELOP_TRUE :: nat where "RELOP_TRUE = 0 OR 0 OR 0 OR 1"
definition RELOP_EQ :: nat where "RELOP_EQ = 0 OR 0 OR 2 OR 0"
definition RELOP_NE :: nat where "RELOP_NE = 0 OR 0 OR 2 OR 1"
definition RELOP_LT :: nat where "RELOP_LT = 0 OR 4 OR 0 OR 0"
definition RELOP_LE :: nat where "RELOP_LE = 0 OR 4 OR 2 OR 0"
definition RELOP_GT :: nat where "RELOP_GT = 0 OR 4 OR 2 OR 1"
definition RELOP_GE :: nat where "RELOP_GE = 0 OR 4 OR 0 OR 1"
definition RELOP_LTU :: nat where "RELOP_LTU = 8 OR 0 OR 0 OR 0"
definition RELOP_LEU :: nat where "RELOP_LEU = 8 OR 0 OR 2 OR 0"
definition RELOP_GTU :: nat where "RELOP_GTU = 8 OR 0 OR 2 OR 1"
definition RELOP_GEU :: nat where "RELOP_GEU = 8 OR 0 OR 0 OR 1"

lemmas relop_defs =
  RELOP_FALSE_def RELOP_TRUE_def RELOP_EQ_def RELOP_NE_def RELOP_LT_def RELOP_LE_def
  RELOP_GT_def RELOP_GE_def RELOP_LTU_def RELOP_LEU_def RELOP_GTU_def RELOP_GEU_def

definition interpret_relop :: "nat \<Rightarrow> 'w::len word \<Rightarrow> 'w word \<Rightarrow> bool res" where
  "interpret_relop relop a b =
     (if relop = RELOP_FALSE then Inr False
      else if relop = RELOP_TRUE then Inr True
      else if relop = RELOP_EQ then Inr (a = b)
      else if relop = RELOP_NE then Inr (a \<noteq> b)
      else if relop = RELOP_LT then Inr (a <s b)
      else if relop = RELOP_LE then Inr (a \<le>s b)
      else if relop = RELOP_GT then Inr (b <s a)
      else if relop = RELOP_GE then Inr (b \<le>s a)
      else if relop = RELOP_LTU then Inr (a < b)
      else if relop = RELOP_LEU then Inr (a \<le> b)
      else if relop = RELOP_GTU then Inr (a > b)
      else if relop = RELOP_GEU then Inr (a \<ge> b)
      else Inl (Panic ''unsupport relop''))"


section \<open>Basic instructions (rtl-basic.h)\<close>

text \<open>
  \<open>def_rtl_compute_reg\<close> and \<open>def_rtl_compute_imm\<close> read their sources, apply the operator and
  write the destination, in this order.
\<close>

definition rtl_compute_reg ::
  "('w::len word \<Rightarrow> 'w word \<Rightarrow> 'w word res) \<Rightarrow> rtlptr \<Rightarrow> rtlptr \<Rightarrow> rtlptr \<Rightarrow> ('w word, 'i) ctx \<Rightarrow> ('w word, 'i) ctx res" where
  [rtl_defs]: "rtl_compute_reg f d p q c =
     bindE (rd p c) (\<lambda>x. bindE (rd q c) (\<lambda>y. bindE (f x y) (\<lambda>v. wr d v c)))"

definition rtl_compute_imm ::
  "('w::len word \<Rightarrow> 'w word \<Rightarrow> 'w word res) \<Rightarrow> rtlptr \<Rightarrow> rtlptr \<Rightarrow> 'w word \<Rightarrow> ('w word, 'i) ctx \<Rightarrow> ('w word, 'i) ctx res" where
  [rtl_defs]: "rtl_compute_imm f d p imm c =
     bindE (rd p c) (\<lambda>x. bindE (f x imm) (\<lambda>v. wr d v c))"

type_synonym ('w, 'i) rtl_reg = "rtlptr \<Rightarrow> rtlptr \<Rightarrow> rtlptr \<Rightarrow> ('w, 'i) ctx \<Rightarrow> ('w, 'i) ctx res"

type_synonym ('w, 'i) rtl_imm = "rtlptr \<Rightarrow> rtlptr \<Rightarrow> 'w \<Rightarrow> ('w, 'i) ctx \<Rightarrow> ('w, 'i) ctx res"

abbreviation rtl_add :: "('w::len word, 'i) rtl_reg" where
  "rtl_add \<equiv> rtl_compute_reg c_add"

abbreviation rtl_addi :: "('w::len word, 'i) rtl_imm" where
  "rtl_addi \<equiv> rtl_compute_imm c_add"

abbreviation rtl_sub :: "('w::len word, 'i) rtl_reg" where
  "rtl_sub \<equiv> rtl_compute_reg c_sub"

abbreviation rtl_subi :: "('w::len word, 'i) rtl_imm" where
  "rtl_subi \<equiv> rtl_compute_imm c_sub"

abbreviation rtl_and :: "('w::len word, 'i) rtl_reg" where
  "rtl_and \<equiv> rtl_compute_reg c_and"

abbreviation rtl_andi :: "('w::len word, 'i) rtl_imm" where
  "rtl_andi \<equiv> rtl_compute_imm c_and"

abbreviation rtl_or :: "('w::len word, 'i) rtl_reg" where
  "rtl_or \<equiv> rtl_compute_reg c_or"

abbreviation rtl_ori :: "('w::len word, 'i) rtl_imm" where
  "rtl_ori \<equiv> rtl_compute_imm c_or"

abbreviation rtl_xor :: "('w::len word, 'i) rtl_reg" where
  "rtl_xor \<equiv> rtl_compute_reg c_xor"

abbreviation rtl_xori :: "('w::len word, 'i) rtl_imm" where
  "rtl_xori \<equiv> rtl_compute_imm c_xor"

abbreviation rtl_shl :: "('w::len word, 'i) rtl_reg" where
  "rtl_shl \<equiv> rtl_compute_reg c_shl"

abbreviation rtl_shli :: "('w::len word, 'i) rtl_imm" where
  "rtl_shli \<equiv> rtl_compute_imm c_shl"

abbreviation rtl_shr :: "('w::len word, 'i) rtl_reg" where
  "rtl_shr \<equiv> rtl_compute_reg c_shr"

abbreviation rtl_shri :: "('w::len word, 'i) rtl_imm" where
  "rtl_shri \<equiv> rtl_compute_imm c_shr"

abbreviation rtl_sar :: "('w::len word, 'i) rtl_reg" where
  "rtl_sar \<equiv> rtl_compute_reg c_sar"

abbreviation rtl_sari :: "('w::len word, 'i) rtl_imm" where
  "rtl_sari \<equiv> rtl_compute_imm c_sar"

abbreviation rtl_mul_lo :: "('w::len word, 'i) rtl_reg" where
  "rtl_mul_lo \<equiv> rtl_compute_reg c_mul_lo"

abbreviation rtl_mul_hi :: "('w::len word, 'i) rtl_reg" where
  "rtl_mul_hi \<equiv> rtl_compute_reg c_mul_hi"

abbreviation rtl_imul_lo :: "('w::len word, 'i) rtl_reg" where
  "rtl_imul_lo \<equiv> rtl_compute_reg c_imul_lo"

abbreviation rtl_imul_hi :: "('w::len word, 'i) rtl_reg" where
  "rtl_imul_hi \<equiv> rtl_compute_reg c_imul_hi"

abbreviation rtl_div_q :: "('w::len word, 'i) rtl_reg" where
  "rtl_div_q \<equiv> rtl_compute_reg c_div_q"

abbreviation rtl_div_r :: "('w::len word, 'i) rtl_reg" where
  "rtl_div_r \<equiv> rtl_compute_reg c_div_r"

abbreviation rtl_idiv_q :: "('w::len word, 'i) rtl_reg" where
  "rtl_idiv_q \<equiv> rtl_compute_reg c_idiv_q"

abbreviation rtl_idiv_r :: "('w::len word, 'i) rtl_reg" where
  "rtl_idiv_r \<equiv> rtl_compute_reg c_idiv_r"


definition rtl_setrelop ::
  "nat \<Rightarrow> rtlptr \<Rightarrow> rtlptr \<Rightarrow> rtlptr \<Rightarrow> ('w::len word, 'i) ctx \<Rightarrow> ('w word, 'i) ctx res" where
  [rtl_defs]: "rtl_setrelop relop d p q c =
     bindE (rd p c) (\<lambda>x. bindE (rd q c) (\<lambda>y.
     bindE (interpret_relop relop x y) (\<lambda>r. wr d (if r then 1 else 0) c)))"

definition rtl_setrelopi ::
  "nat \<Rightarrow> rtlptr \<Rightarrow> rtlptr \<Rightarrow> 'w word \<Rightarrow> ('w::len word, 'i) ctx \<Rightarrow> ('w word, 'i) ctx res" where
  [rtl_defs]: "rtl_setrelopi relop d p imm c =
     bindE (rd p c) (\<lambda>x. bindE (interpret_relop relop x imm) (\<lambda>r. wr d (if r then 1 else 0) c))"

text \<open>64-by-32 division: the dividend is the register pair \<open>hi:lo\<close>.\<close>

definition pair64 :: "'w::len word \<Rightarrow> 'w word \<Rightarrow> u64" where
  "pair64 hi lo = push_bit 32 (ucast hi) OR ucast lo"

definition rtl_div64 ::
  "(u64 \<Rightarrow> u64 \<Rightarrow> u64) \<Rightarrow> rtlptr \<Rightarrow> rtlptr \<Rightarrow> rtlptr \<Rightarrow> rtlptr \<Rightarrow> ('w::len word, 'i) ctx \<Rightarrow> ('w word, 'i) ctx res" where
  [rtl_defs]: "rtl_div64 f d hi lo q c =
     bindE (rd hi c) (\<lambda>h. bindE (rd lo c) (\<lambda>l. bindE (rd q c) (\<lambda>y.
       let dividend = pair64 h l; divisor = ucast y :: u32 in
       if divisor = 0 then Inl Div_error else wr d (ucast (f dividend (ucast divisor))) c)))"

definition rtl_div64_q :: "rtlptr \<Rightarrow> rtlptr \<Rightarrow> rtlptr \<Rightarrow> rtlptr \<Rightarrow> ('w::len word, 'i) ctx \<Rightarrow> ('w word, 'i) ctx res" where
  [rtl_defs]: "rtl_div64_q = rtl_div64 (div)"
definition rtl_div64_r :: "rtlptr \<Rightarrow> rtlptr \<Rightarrow> rtlptr \<Rightarrow> rtlptr \<Rightarrow> ('w::len word, 'i) ctx \<Rightarrow> ('w word, 'i) ctx res" where
  [rtl_defs]: "rtl_div64_r = rtl_div64 (mod)"

definition rtl_idiv64 ::
  "(int \<Rightarrow> int \<Rightarrow> int) \<Rightarrow> rtlptr \<Rightarrow> rtlptr \<Rightarrow> rtlptr \<Rightarrow> rtlptr \<Rightarrow> ('w::len word, 'i) ctx \<Rightarrow> ('w word, 'i) ctx res" where
  [rtl_defs]: "rtl_idiv64 f d hi lo q c =
     bindE (rd hi c) (\<lambda>h. bindE (rd lo c) (\<lambda>l. bindE (rd q c) (\<lambda>y.
       let dividend = sint (pair64 h l); divisor = sint (ucast y :: u32) in
       if divisor = 0 \<or> sdiv_overflows 64 dividend divisor then Inl Div_error
       else wr d (word_of_int (f dividend divisor)) c)))"

definition rtl_idiv64_q :: "rtlptr \<Rightarrow> rtlptr \<Rightarrow> rtlptr \<Rightarrow> rtlptr \<Rightarrow> ('w::len word, 'i) ctx \<Rightarrow> ('w word, 'i) ctx res" where
  [rtl_defs]: "rtl_idiv64_q = rtl_idiv64 (sdiv)"
definition rtl_idiv64_r :: "rtlptr \<Rightarrow> rtlptr \<Rightarrow> rtlptr \<Rightarrow> rtlptr \<Rightarrow> ('w::len word, 'i) ctx \<Rightarrow> ('w word, 'i) ctx res" where
  [rtl_defs]: "rtl_idiv64_r = rtl_idiv64 (smod)"

subsection \<open>Memory\<close>

definition set_mbus :: "bus \<Rightarrow> ('v, 'i) ctx \<Rightarrow> ('v, 'i) ctx" where
  "set_mbus b c = c\<lparr>mach := (mach c)\<lparr>mbus := b\<rparr>\<rparr>"

definition rtl_lm ::
  "u32 \<Rightarrow> rtlptr \<Rightarrow> rtlptr \<Rightarrow> 'w word \<Rightarrow> nat \<Rightarrow> ('w::len word, 'i) ctx \<Rightarrow> ('w word, 'i) ctx res" where
  [rtl_defs]: "rtl_lm base d p offset len c =
     bindE (rd p c) (\<lambda>a. bindE (vaddr_read base (a + offset) len (mbus (mach c))) (\<lambda>(v, b).
       wr d v (set_mbus b c)))"

definition rtl_sm ::
  "u32 \<Rightarrow> rtlptr \<Rightarrow> 'w word \<Rightarrow> rtlptr \<Rightarrow> nat \<Rightarrow> ('w::len word, 'i) ctx \<Rightarrow> ('w word, 'i) ctx res" where
  [rtl_defs]: "rtl_sm base p offset q len c =
     bindE (rd p c) (\<lambda>a. bindE (rd q c) (\<lambda>v.
     bindE (vaddr_write base (a + offset) v len (mbus (mach c))) (\<lambda>b. Inr (set_mbus b c))))"

definition rtl_lms ::
  "u32 \<Rightarrow> rtlptr \<Rightarrow> rtlptr \<Rightarrow> 'w word \<Rightarrow> nat \<Rightarrow> ('w::len word, 'i) ctx \<Rightarrow> ('w word, 'i) ctx res" where
  [rtl_defs]: "rtl_lms base d p offset len c =
     bindE (rd p c) (\<lambda>a. bindE (vaddr_read base (a + offset) len (mbus (mach c))) (\<lambda>(v, b).
       if len = 4 then wr d (scast (ucast v :: u32)) (set_mbus b c)
       else if len = 1 then wr d (scast (ucast v :: u8)) (set_mbus b c)
       else if len = 2 then wr d (scast (ucast v :: u16)) (set_mbus b c)
       else Inl Assert_fail))"

text \<open>
  \<open>rtl_host_lm\<close> and \<open>rtl_host_sm\<close> access part of a guest register through a host pointer. The
  pointer is the byte offset in the register array, whose elements have \<open>LENGTH('w) div 8\<close> bytes in
  little-endian order; an access never crosses an element.
\<close>

definition reg_part :: "nat \<Rightarrow> nat \<Rightarrow> 'w::len word \<Rightarrow> 'w word" where
  "reg_part k len w = take_bit (8 * len) (drop_bit (8 * k) w)"

definition set_reg_part :: "nat \<Rightarrow> nat \<Rightarrow> 'w::len word \<Rightarrow> 'w word \<Rightarrow> 'w word" where
  "set_reg_part k len v w =
     (w AND NOT (push_bit (8 * k) (mask (8 * len)))) OR push_bit (8 * k) (take_bit (8 * len) v)"

definition rtl_host_lm :: "rtlptr \<Rightarrow> nat \<Rightarrow> nat \<Rightarrow> ('w::len word, 'i) ctx \<Rightarrow> ('w word, 'i) ctx res" where
  [rtl_defs]: "rtl_host_lm d p len c =
     (let n = LENGTH('w) div 8; i = p div n; k = p mod n in
      if len = 4 \<or> len = 1 \<or> len = 2 then
        (if i < length (cgpr c) \<and> k + len \<le> n then wr d (reg_part k len (cgpr c ! i)) c
         else Inl Out_of_bounds)
      else Inl Assert_fail)"

definition rtl_host_sm :: "nat \<Rightarrow> rtlptr \<Rightarrow> nat \<Rightarrow> ('w::len word, 'i) ctx \<Rightarrow> ('w word, 'i) ctx res" where
  [rtl_defs]: "rtl_host_sm p q len c =
     (let n = LENGTH('w) div 8; i = p div n; k = p mod n in
      if len = 4 \<or> len = 1 \<or> len = 2 then
        bindE (rd q c) (\<lambda>v.
          if i < length (cgpr c) \<and> k + len \<le> n then Inr (set_gpr i (set_reg_part k len v (cgpr c ! i)) c)
          else Inl Out_of_bounds)
      else Inl Assert_fail)"

subsection \<open>Control\<close>

definition rtl_j :: "'w word \<Rightarrow> ('w::len word, 'i) ctx \<Rightarrow> ('w word, 'i) ctx res" where
  [rtl_defs]: "rtl_j target c = Inr (c\<lparr>ds := (ds c)\<lparr>jmp_pc := Some target, is_jmp := True\<rparr>\<rparr>)"

definition rtl_jr :: "rtlptr \<Rightarrow> ('w::len word, 'i) ctx \<Rightarrow> ('w word, 'i) ctx res" where
  [rtl_defs]: "rtl_jr p c = bindE (rd p c) (\<lambda>t. rtl_j t c)"

definition rtl_jrelop ::
  "nat \<Rightarrow> rtlptr \<Rightarrow> rtlptr \<Rightarrow> 'w word \<Rightarrow> ('w::len word, 'i) ctx \<Rightarrow> ('w word, 'i) ctx res" where
  [rtl_defs]: "rtl_jrelop relop p q target c =
     bindE (rd p c) (\<lambda>x. bindE (rd q c) (\<lambda>y.
     bindE (interpret_relop relop x y) (\<lambda>b. if b then rtl_j target c else Inr c)))"

definition rtl_exit :: "run_state \<Rightarrow> 'w word \<Rightarrow> u32 \<Rightarrow> ('w::len word, 'i) ctx \<Rightarrow> ('w word, 'i) ctx res" where
  [rtl_defs]: "rtl_exit st hpc hret c =
     Inr (c\<lparr>mach := (mach c)\<lparr>nemu_state := \<lparr>nstate = st, halt_pc = hpc, halt_ret = hret\<rparr>\<rparr>\<rparr>)"

section \<open>Pseudo instructions (pseudo.h)\<close>

definition rtl_li :: "rtlptr \<Rightarrow> 'w word \<Rightarrow> ('w::len word, 'i) ctx \<Rightarrow> ('w word, 'i) ctx res" where
  [rtl_defs]: "rtl_li d imm = rtl_addi d Rz imm"

definition rtl_mv :: "rtlptr \<Rightarrow> rtlptr \<Rightarrow> ('w::len word, 'i) ctx \<Rightarrow> ('w word, 'i) ctx res" where
  [rtl_defs]: "rtl_mv d p c = (if d \<noteq> p then rtl_add d p Rz c else Inr c)"

definition rtl_not :: "rtlptr \<Rightarrow> rtlptr \<Rightarrow> ('w::len word, 'i) ctx \<Rightarrow> ('w word, 'i) ctx res" where
  [rtl_defs]: "rtl_not d p c = Inl Todo"
definition rtl_neg :: "rtlptr \<Rightarrow> rtlptr \<Rightarrow> ('w::len word, 'i) ctx \<Rightarrow> ('w word, 'i) ctx res" where
  [rtl_defs]: "rtl_neg d p c = Inl Todo"
definition rtl_sext :: "rtlptr \<Rightarrow> rtlptr \<Rightarrow> nat \<Rightarrow> ('w::len word, 'i) ctx \<Rightarrow> ('w word, 'i) ctx res" where
  [rtl_defs]: "rtl_sext d p width c = Inl Todo"
definition rtl_zext :: "rtlptr \<Rightarrow> rtlptr \<Rightarrow> nat \<Rightarrow> ('w::len word, 'i) ctx \<Rightarrow> ('w word, 'i) ctx res" where
  [rtl_defs]: "rtl_zext d p width c = Inl Todo"
definition rtl_msb :: "rtlptr \<Rightarrow> rtlptr \<Rightarrow> nat \<Rightarrow> ('w::len word, 'i) ctx \<Rightarrow> ('w word, 'i) ctx res" where
  [rtl_defs]: "rtl_msb d p width c = Inl Todo"

section \<open>Fetch and commit (cpu/exec.h)\<close>

text \<open>\<open>LOG_BYTEBUF_SIZE\<close> is the size of \<open>log_bytebuf\<close> in \<open>monitor/debug/log.c\<close>.\<close>

definition LOG_BYTEBUF_SIZE :: nat where "LOG_BYTEBUF_SIZE = 80"

definition instr_fetch :: "u32 \<Rightarrow> nat \<Rightarrow> ('w::len word, 'i) ctx \<Rightarrow> (u32 \<times> ('w word, 'i) ctx) res" where
  "instr_fetch base len c =
     bindE (vaddr_ifetch base (seq_pc (ds c)) len (mbus (mach c))) (\<lambda>(v, b).
       let n = log_bytebuf_len (mach c) + 3 * len in
       if n < LOG_BYTEBUF_SIZE then
         Inr (ucast v, c\<lparr>ds := (ds c)\<lparr>seq_pc := seq_pc (ds c) + of_nat len\<rparr>,
                         mach := (mach c)\<lparr>mbus := b, log_bytebuf_len := n\<rparr>\<rparr>)
       else Inl Out_of_bounds)"

definition update_pc :: "('w::len word, 'i) ctx \<Rightarrow> ('w word, 'i) ctx res" where
  "update_pc c =
     bindE (if is_jmp (ds c) then optE Uninit (jmp_pc (ds c)) else Inr (seq_pc (ds c))) (\<lambda>p.
       Inr (c\<lparr>mach := (mach c)\<lparr>cpu := (cpu (mach c))\<lparr>pc := p\<rparr>\<rparr>\<rparr>))"

end
