(* ===== verification/X86_Reg.thy ===== *)
theory X86_Reg
  imports Rtl
begin

text \<open>
  The x86 registers: \<open>include/isa/x86.h\<close>, \<open>isa/x86/local-include/reg.h\<close>, \<open>isa/x86/reg.c\<close> and the
  register part of \<open>isa/x86/local-include/rtl.h\<close>. The union of \<open>gpr[8]\<close> with the named registers
  is the list \<open>gpr\<close> of eight words; the 16- and 8-bit views are parts of its elements.
\<close>

type_synonym x86_CPU_state = "u32 CPU_state"

record x86_ISADecodeInfo =
  is_operand_size_16 :: bool
  ext_opcode :: u8
  mbase :: "rtlptr option"
  moff :: u32

type_synonym x86_ctx = "(u32, x86_ISADecodeInfo) ctx"

abbreviation (input) x86_IMAGE_START :: u32 where "x86_IMAGE_START \<equiv> 0x100000"
abbreviation (input) x86_PMEM_BASE :: u32 where "x86_PMEM_BASE \<equiv> 0"

abbreviation (input) R_EAX :: nat where "R_EAX \<equiv> 0"
abbreviation (input) R_ECX :: nat where "R_ECX \<equiv> 1"
abbreviation (input) R_EDX :: nat where "R_EDX \<equiv> 2"
abbreviation (input) R_EBX :: nat where "R_EBX \<equiv> 3"
abbreviation (input) R_ESP :: nat where "R_ESP \<equiv> 4"
abbreviation (input) R_EBP :: nat where "R_EBP \<equiv> 5"
abbreviation (input) R_ESI :: nat where "R_ESI \<equiv> 6"
abbreviation (input) R_EDI :: nat where "R_EDI \<equiv> 7"
abbreviation (input) R_AX :: nat where "R_AX \<equiv> 0"
abbreviation (input) R_DX :: nat where "R_DX \<equiv> 2"
abbreviation (input) R_AL :: nat where "R_AL \<equiv> 0"
abbreviation (input) R_AH :: nat where "R_AH \<equiv> 4"

definition cpu_wf :: "x86_CPU_state \<Rightarrow> bool" where
  "cpu_wf c \<longleftrightarrow> length (gpr c) = 8"

section \<open>Register access (reg.h)\<close>

definition check_reg_index :: "nat \<Rightarrow> nat res" where
  "check_reg_index index = bindE (assertE (index < 8)) (\<lambda>_. Inr index)"

text \<open>Addresses of the register views, as byte offsets in \<open>cpu.gpr\<close>.\<close>

definition reg_w_addr :: "nat \<Rightarrow> nat" where "reg_w_addr index = 4 * index"
definition reg_b_addr :: "nat \<Rightarrow> nat" where "reg_b_addr index = 4 * (index AND 3) + drop_bit 2 index"

definition reg_l :: "nat \<Rightarrow> x86_CPU_state \<Rightarrow> u32 res" where
  "reg_l index c = bindE (check_reg_index index) (\<lambda>i.
     if i < length (gpr c) then Inr (gpr c ! i) else Inl Out_of_bounds)"

definition reg_w :: "nat \<Rightarrow> x86_CPU_state \<Rightarrow> u32 res" where
  "reg_w index c = bindE (check_reg_index index) (\<lambda>i.
     if i < length (gpr c) then Inr (reg_part 0 2 (gpr c ! i)) else Inl Out_of_bounds)"

definition reg_b :: "nat \<Rightarrow> x86_CPU_state \<Rightarrow> u32 res" where
  "reg_b index c = bindE (check_reg_index index) (\<lambda>i.
     if i AND 3 < length (gpr c) then Inr (reg_part (drop_bit 2 index) 1 (gpr c ! (i AND 3)))
     else Inl Out_of_bounds)"

definition regsl :: "string list" where
  "regsl = [''eax'', ''ecx'', ''edx'', ''ebx'', ''esp'', ''ebp'', ''esi'', ''edi'']"
definition regsw :: "string list" where
  "regsw = [''ax'', ''cx'', ''dx'', ''bx'', ''sp'', ''bp'', ''si'', ''di'']"
definition regsb :: "string list" where
  "regsb = [''al'', ''cl'', ''dl'', ''bl'', ''ah'', ''ch'', ''dh'', ''bh'']"

definition reg_name :: "nat \<Rightarrow> nat \<Rightarrow> string res" where
  "reg_name index width =
     bindE (assertE (index < 8)) (\<lambda>_.
       if width = 4 then Inr (regsl ! index)
       else if width = 1 then Inr (regsb ! index)
       else if width = 2 then Inr (regsw ! index)
       else Inl Assert_fail)"

section \<open>Self test and lookup by name (reg.c)\<close>

text \<open>\<open>reg_test\<close> draws its samples from the host's \<open>rand()\<close>: \<open>rnd 0\<close> for \<open>pc\<close>, then one per register.\<close>

fun reg_test_loop :: "(nat \<Rightarrow> u32) \<Rightarrow> nat list \<Rightarrow> x86_CPU_state \<Rightarrow> x86_CPU_state res" where
  "reg_test_loop rnd [] c = Inr c"
| "reg_test_loop rnd (i # is) c =
     bindE (check_reg_index i) (\<lambda>i.
       let c = c\<lparr>gpr := (gpr c)[i := rnd (Suc i)]\<rparr> in
       bindE (reg_w i c) (\<lambda>w.
       bindE (assertE (w = rnd (Suc i) AND 0xffff)) (\<lambda>_. reg_test_loop rnd is c)))"

definition assert_reg_b :: "nat \<Rightarrow> u32 \<Rightarrow> x86_CPU_state \<Rightarrow> x86_CPU_state res" where
  "assert_reg_b i v c = bindE (reg_b i c) (\<lambda>b. bindE (assertE (b = v)) (\<lambda>_. Inr c))"

definition assert_reg_l :: "nat \<Rightarrow> u32 \<Rightarrow> x86_CPU_state \<Rightarrow> x86_CPU_state res" where
  "assert_reg_l i v c = bindE (reg_l i c) (\<lambda>b. bindE (assertE (v = b)) (\<lambda>_. Inr c))"

definition reg_test :: "(nat \<Rightarrow> u32) \<Rightarrow> x86_CPU_state \<Rightarrow> x86_CPU_state res" where
  "reg_test rnd c =
     (let sample = (\<lambda>i. rnd (Suc i)); c = c\<lparr>pc := rnd 0\<rparr> in
      bindE (reg_test_loop rnd [0..<8] c) (seqs
       [assert_reg_b 0 (sample 0 AND 0xff), assert_reg_b 4 (drop_bit 8 (sample 0) AND 0xff),
        assert_reg_b 3 (sample 3 AND 0xff), assert_reg_b 7 (drop_bit 8 (sample 3) AND 0xff),
        assert_reg_b 1 (sample 1 AND 0xff), assert_reg_b 5 (drop_bit 8 (sample 1) AND 0xff),
        assert_reg_b 2 (sample 2 AND 0xff), assert_reg_b 6 (drop_bit 8 (sample 2) AND 0xff),
        assert_reg_l 0 (sample 0), assert_reg_l 1 (sample 1), assert_reg_l 2 (sample 2),
        assert_reg_l 3 (sample 3), assert_reg_l 4 (sample 4), assert_reg_l 5 (sample 5),
        assert_reg_l 6 (sample 6), assert_reg_l 7 (sample 7),
        (\<lambda>c. bindE (assertE (rnd 0 = pc c)) (\<lambda>_. Inr c))]))"

text \<open>The host's \<open>tolower\<close> in the C locale.\<close>

definition tolower :: "char \<Rightarrow> char" where
  "tolower ch = (if 65 \<le> (of_char ch :: nat) \<and> (of_char ch :: nat) \<le> 90
                 then char_of ((of_char ch :: nat) + 32) else ch)"

fun reg_str2val_loop :: "string \<Rightarrow> nat list \<Rightarrow> x86_CPU_state \<Rightarrow> u32 option" where
  "reg_str2val_loop s [] c = None"
| "reg_str2val_loop s (i # is) c =
     (if s = regsl ! i then Some (gpr c ! i)
      else if s = regsw ! i then Some (reg_part 0 2 (gpr c ! i))
      else if s = regsb ! i then Some (reg_part (i div 4) 1 (gpr c ! (i mod 4)))
      else reg_str2val_loop s is c)"

text \<open>\<open>None\<close> is the result \<open>0\<close> with \<open>*success = false\<close>.\<close>

definition isa_reg_str2val :: "string \<Rightarrow> x86_CPU_state \<Rightarrow> u32 option" where
  "isa_reg_str2val s c =
     (let s_dup = map tolower s in
      if s_dup = ''pc'' then Some (pc c) else reg_str2val_loop s_dup [0..<8] c)"

section \<open>Register moves (local-include/rtl.h)\<close>

definition rtl_lr :: "rtlptr \<Rightarrow> nat \<Rightarrow> nat \<Rightarrow> x86_ctx \<Rightarrow> x86_ctx res" where
  [rtl_defs]: "rtl_lr d r width c =
     (if width = 4 then bindE (check_reg_index r) (\<lambda>i. rtl_mv d (Rgpr i) c)
      else if width = 1 then bindE (check_reg_index r) (\<lambda>i. rtl_host_lm d (reg_b_addr i) 1 c)
      else if width = 2 then bindE (check_reg_index r) (\<lambda>i. rtl_host_lm d (reg_w_addr i) 2 c)
      else Inl Assert_fail)"

definition rtl_sr :: "nat \<Rightarrow> rtlptr \<Rightarrow> nat \<Rightarrow> x86_ctx \<Rightarrow> x86_ctx res" where
  [rtl_defs]: "rtl_sr r p width c =
     (if width = 4 then bindE (check_reg_index r) (\<lambda>i. rtl_mv (Rgpr i) p c)
      else if width = 1 then bindE (check_reg_index r) (\<lambda>i. rtl_host_sm (reg_b_addr i) p 1 c)
      else if width = 2 then bindE (check_reg_index r) (\<lambda>i. rtl_host_sm (reg_w_addr i) p 2 c)
      else Inl Assert_fail)"

text \<open>The instructions still to be written: each stops at \<open>TODO()\<close>.\<close>

definition rtl_push :: "rtlptr \<Rightarrow> x86_ctx \<Rightarrow> x86_ctx res" where
  [rtl_defs]: "rtl_push p c = Inl Todo"
definition rtl_pop :: "rtlptr \<Rightarrow> x86_ctx \<Rightarrow> x86_ctx res" where
  [rtl_defs]: "rtl_pop p c = Inl Todo"
definition rtl_is_sub_overflow :: "rtlptr \<Rightarrow> rtlptr \<Rightarrow> rtlptr \<Rightarrow> rtlptr \<Rightarrow> nat \<Rightarrow> x86_ctx \<Rightarrow> x86_ctx res" where
  [rtl_defs]: "rtl_is_sub_overflow d r p q w c = Inl Todo"
definition rtl_is_sub_carry :: "rtlptr \<Rightarrow> rtlptr \<Rightarrow> rtlptr \<Rightarrow> x86_ctx \<Rightarrow> x86_ctx res" where
  [rtl_defs]: "rtl_is_sub_carry d p q c = Inl Todo"
definition rtl_is_add_overflow :: "rtlptr \<Rightarrow> rtlptr \<Rightarrow> rtlptr \<Rightarrow> rtlptr \<Rightarrow> nat \<Rightarrow> x86_ctx \<Rightarrow> x86_ctx res" where
  [rtl_defs]: "rtl_is_add_overflow d r p q w c = Inl Todo"
definition rtl_is_add_carry :: "rtlptr \<Rightarrow> rtlptr \<Rightarrow> rtlptr \<Rightarrow> x86_ctx \<Rightarrow> x86_ctx res" where
  [rtl_defs]: "rtl_is_add_carry d r p c = Inl Todo"

datatype eflag = CF | OF | ZF | SF

definition rtl_set_eflag :: "eflag \<Rightarrow> rtlptr \<Rightarrow> x86_ctx \<Rightarrow> x86_ctx res" where
  [rtl_defs]: "rtl_set_eflag f p c = Inl Todo"
definition rtl_get_eflag :: "eflag \<Rightarrow> rtlptr \<Rightarrow> x86_ctx \<Rightarrow> x86_ctx res" where
  [rtl_defs]: "rtl_get_eflag f d c = Inl Todo"
definition rtl_update_ZF :: "rtlptr \<Rightarrow> nat \<Rightarrow> x86_ctx \<Rightarrow> x86_ctx res" where
  [rtl_defs]: "rtl_update_ZF p w c = Inl Todo"
definition rtl_update_SF :: "rtlptr \<Rightarrow> nat \<Rightarrow> x86_ctx \<Rightarrow> x86_ctx res" where
  [rtl_defs]: "rtl_update_SF p w c = Inl Todo"
definition rtl_update_ZFSF :: "rtlptr \<Rightarrow> nat \<Rightarrow> x86_ctx \<Rightarrow> x86_ctx res" where
  [rtl_defs]: "rtl_update_ZFSF p w = seqs [rtl_update_ZF p w, rtl_update_SF p w]"

end
