(* ===== verification/Expr.thy ===== *)
theory Expr
  imports X86_Reg
begin

text \<open>
  The expression evaluator of the debugger, \<open>monitor/debug/expr.c\<close>: the token rules, the tokenizer
  \<open>make_token\<close>, the recursive evaluator \<open>eval\<close> over token positions, and \<open>expr\<close>. The static array
  \<open>tokens\<close> with its counter \<open>nr_token\<close> is the token list built so far; only its first \<open>nr_token\<close>
  entries are ever read. Positions are integers, as in the source, because \<open>q\<close> can be \<open>-1\<close>.
\<close>

section \<open>Tokens and rules\<close>

datatype tk =
    TK_NOTYPE | TK_OP_START | TK_PLUS | TK_SUB | TK_MUX | TK_DIV | TK_LBRKT | TK_RBRKT
  | TK_EQ | TK_NEQ | TK_AND | TK_OP_END | TK_REG | TK_DEREF | TK_NUM | TK_HEX_NUM | TK_INVAILD

text \<open>The numbers of the enumeration, on which the operator test compares.\<close>

fun tk_code :: "tk \<Rightarrow> nat" where
  "tk_code TK_NOTYPE = 256"
| "tk_code TK_OP_START = 257"
| "tk_code TK_PLUS = 258"
| "tk_code TK_SUB = 259"
| "tk_code TK_MUX = 260"
| "tk_code TK_DIV = 261"
| "tk_code TK_LBRKT = 262"
| "tk_code TK_RBRKT = 263"
| "tk_code TK_EQ = 264"
| "tk_code TK_NEQ = 265"
| "tk_code TK_AND = 266"
| "tk_code TK_OP_END = 267"
| "tk_code TK_REG = 268"
| "tk_code TK_DEREF = 269"
| "tk_code TK_NUM = 270"
| "tk_code TK_HEX_NUM = 271"
| "tk_code TK_INVAILD = 272"

lemma tk_code_inj: "tk_code a = tk_code b \<Longrightarrow> a = b"
  by (cases a; cases b; simp)

instantiation tk :: linorder
begin

definition less_eq_tk :: "tk \<Rightarrow> tk \<Rightarrow> bool" where
  "less_eq_tk a b \<longleftrightarrow> tk_code a \<le> tk_code b"

definition less_tk :: "tk \<Rightarrow> tk \<Rightarrow> bool" where
  "less_tk a b \<longleftrightarrow> tk_code a < tk_code b"

instance
  by intro_classes (auto simp: less_eq_tk_def less_tk_def intro: tk_code_inj)

end

definition token_is_vaild_op :: "tk \<Rightarrow> bool" where
  "token_is_vaild_op ty \<longleftrightarrow> ty > TK_OP_START \<and> ty < TK_OP_END"

text \<open>
  The regular expressions of the rules are sequences of a character class with a repetition. In each
  of them a repeated class is disjoint from what may follow, so the greedy prefix match is the
  leftmost-longest match of \<open>regexec\<close> that starts at offset 0.
\<close>

datatype rep = One | Plus | Opt

type_synonym regex = "((char \<Rightarrow> bool) \<times> rep) list"

fun span_len :: "(char \<Rightarrow> bool) \<Rightarrow> string \<Rightarrow> nat" where
  "span_len p [] = 0"
| "span_len p (x # xs) = (if p x then Suc (span_len p xs) else 0)"

fun rx_match :: "regex \<Rightarrow> string \<Rightarrow> nat option" where
  "rx_match [] s = Some 0"
| "rx_match ((p, One) # r) s =
     (case s of [] \<Rightarrow> None
      | x # xs \<Rightarrow> if p x then map_option Suc (rx_match r xs) else None)"
| "rx_match ((p, Plus) # r) s =
     (let n = span_len p s in if n = 0 then None else map_option ((+) n) (rx_match r (drop n s)))"
| "rx_match ((p, Opt) # r) s =
     (case s of [] \<Rightarrow> rx_match r s
      | x # xs \<Rightarrow> if p x then map_option Suc (rx_match r xs) else rx_match r s)"

definition is_digit :: "char \<Rightarrow> bool" where
  "is_digit ch \<longleftrightarrow> ch \<in> set ''0123456789''"

definition is_alpha :: "char \<Rightarrow> bool" where
  "is_alpha ch \<longleftrightarrow> (65 \<le> (of_char ch :: nat) \<and> (of_char ch :: nat) \<le> 90) \<or>
                 (97 \<le> (of_char ch :: nat) \<and> (of_char ch :: nat) \<le> 122)"

record rule =
  rule_regex :: regex
  rule_type :: tk
  rule_prec :: nat

definition mk_rule :: "regex \<Rightarrow> tk \<Rightarrow> nat \<Rightarrow> rule" where
  "mk_rule r t p = \<lparr>rule_regex = r, rule_type = t, rule_prec = p\<rparr>"

abbreviation lit :: "char \<Rightarrow> (char \<Rightarrow> bool) \<times> rep" where
  "lit c \<equiv> ((=) c, One)"

definition rules :: "rule list" where
  "rules =
    [mk_rule [((=) (CHR '' ''), Plus)] TK_NOTYPE 255,
     mk_rule [lit (CHR ''+'')] TK_PLUS 4,
     mk_rule [lit (CHR ''-'')] TK_SUB 4,
     mk_rule [lit (CHR ''*'')] TK_MUX 3,
     mk_rule [lit (CHR ''/'')] TK_DIV 3,
     mk_rule [lit (CHR ''('')] TK_LBRKT 1,
     mk_rule [lit (CHR '')'')] TK_RBRKT 1,
     mk_rule [lit (CHR ''=''), lit (CHR ''='')] TK_EQ 7,
     mk_rule [lit (CHR ''!''), lit (CHR ''='')] TK_NEQ 7,
     mk_rule [lit (CHR ''&''), lit (CHR ''&'')] TK_AND 11,
     mk_rule [lit (CHR ''$''), (is_alpha, Plus)] TK_REG 255,
     mk_rule [lit (CHR ''0''), (\<lambda>ch. ch = CHR ''x'' \<or> ch = CHR ''X'', One),
              (is_digit, Plus), ((=) (CHR ''U''), Opt)] TK_HEX_NUM 255,
     mk_rule [(is_digit, Plus), ((=) (CHR ''U''), Opt)] TK_NUM 255]"

record token =
  tok_type :: tk
  tok_str :: string

section \<open>Tokenizer\<close>

text \<open>
  The rule loop: the first rule that matches at the position, with the length of its match.
\<close>

fun first_match :: "rule list \<Rightarrow> string \<Rightarrow> (tk \<times> nat) option" where
  "first_match [] s = None"
| "first_match (r # rs) s =
     (case rx_match (rule_regex r) s of
        Some n \<Rightarrow> Some (rule_type r, n)
      | None \<Rightarrow> first_match rs s)"

text \<open>
  For every match the code clears \<open>TOKENS_MAX_SIZE\<close> bytes from \<open>tokens[nr_token].str\<close> on; a token
  has 36 bytes, 4 of them the type.
\<close>

definition TOKENS_MAX_SIZE :: nat where "TOKENS_MAX_SIZE = 65535 + 1"

definition memset_in_bounds :: "nat \<Rightarrow> bool" where
  "memset_in_bounds nr_token \<longleftrightarrow> 36 * nr_token + 4 + TOKENS_MAX_SIZE \<le> 36 * TOKENS_MAX_SIZE"

definition mk_token :: "tk \<Rightarrow> string \<Rightarrow> token" where
  "mk_token t s = \<lparr>tok_type = t, tok_str = s\<rparr>"

text \<open>
  \<open>add_token ts ty sub\<close> is the body of the switch: \<open>ts\<close> are the tokens so far and \<open>sub\<close> the matched
  text. A hexadecimal number right after a dereference is copied into the string of the dereference token, which is
  not cleared first: what a longer number left there before stays behind a shorter one.
\<close>

fun add_token :: "token list \<Rightarrow> tk \<Rightarrow> string \<Rightarrow> token list res" where
  "add_token ts TK_NOTYPE sub = Inr ts"
| "add_token ts TK_PLUS sub = Inr (ts @ [mk_token TK_PLUS []])"
| "add_token ts TK_SUB sub = Inr (ts @ [mk_token TK_SUB []])"
| "add_token ts TK_MUX sub =
     (if ts = [] then Inr (ts @ [mk_token TK_DEREF []])
      else
        let ty = tok_type (last ts) in
        if ty = TK_RBRKT \<or> ty = TK_NUM \<or> ty = TK_HEX_NUM then Inr (ts @ [mk_token TK_MUX []])
        else Inr (ts @ [mk_token TK_DEREF []]))"
| "add_token ts TK_DIV sub = Inr (ts @ [mk_token TK_DIV []])"
| "add_token ts TK_LBRKT sub = Inr (ts @ [mk_token TK_LBRKT []])"
| "add_token ts TK_RBRKT sub = Inr (ts @ [mk_token TK_RBRKT []])"
| "add_token ts TK_EQ sub = Inr (ts @ [mk_token TK_EQ []])"
| "add_token ts TK_NEQ sub = Inr (ts @ [mk_token TK_NEQ []])"
| "add_token ts TK_AND sub = Inr (ts @ [mk_token TK_AND []])"
| "add_token ts TK_REG sub =
     (if length sub - 1 \<le> 32 then Inr (ts @ [mk_token TK_REG (drop 1 sub)]) else Inl Out_of_bounds)"
| "add_token ts TK_NUM sub =
     (if length sub \<ge> 32 then Inl Assert_fail
      else Inr (ts @ [mk_token TK_NUM (if last sub = CHR ''U'' then butlast sub else sub)]))"
| "add_token ts TK_HEX_NUM sub =
     (if length sub \<ge> 10 then Inl Assert_fail
      else if ts \<noteq> [] \<and> tok_type (last ts) = TK_DEREF then
        Inr (butlast ts @ [mk_token TK_DEREF (sub @ drop (length sub) (tok_str (last ts)))])
      else Inr (ts @ [mk_token TK_HEX_NUM sub]))"
| "add_token ts ty sub = Inl Todo"

lemma span_len_le: "span_len p s \<le> length s"
  by (induction s) auto

lemma rx_match_le: "rx_match r s = Some n \<Longrightarrow> n \<le> length s"
proof (induction r s arbitrary: n rule: rx_match.induct)
  case (3 p r s)
  then show ?case using span_len_le [of p s] by (fastforce simp: Let_def split: if_splits)
qed (auto split: list.splits if_splits intro: le_SucI)

lemma rx_match_pos: "rx_match ((p, q) # r) s = Some n \<Longrightarrow> q \<noteq> Opt \<Longrightarrow> 0 < n"
  by (cases q) (auto simp: Let_def split: list.splits if_splits)

lemma first_match_in:
  "first_match rs s = Some (t, n) \<Longrightarrow> \<exists>r\<in>set rs. rx_match (rule_regex r) s = Some n"
  by (induction rs) (auto split: option.splits)

text \<open>No rule matches the empty string: each begins with a class that must occur.\<close>

definition rule_nonempty :: "rule \<Rightarrow> bool" where
  "rule_nonempty r = (case rule_regex r of [] \<Rightarrow> False | (p, q) # _ \<Rightarrow> q \<noteq> Opt)"

lemma rules_nonempty: "r \<in> set rules \<Longrightarrow> rule_nonempty r"
  unfolding rules_def rule_nonempty_def mk_rule_def by auto

lemma first_match_pos:
  assumes "first_match rules s = Some (t, n)"
  shows "0 < n \<and> n \<le> length s"
proof -
  obtain r where "r \<in> set rules" and m: "rx_match (rule_regex r) s = Some n"
    using first_match_in [OF assms] by blast
  then obtain p q rest where "rule_regex r = (p, q) # rest" and "q \<noteq> Opt"
    using rules_nonempty [of r] by (auto simp: rule_nonempty_def split: list.splits)
  then show ?thesis using m rx_match_pos [of p q rest s n] rx_match_le [of _ s n] by auto
qed

text \<open>
  \<open>make_token\<close>: \<open>None\<close> is the return value \<open>false\<close> (no rule matches), \<open>Some ts\<close> the value \<open>true\<close>
  with the tokens.
\<close>

function tokenize :: "token list \<Rightarrow> string \<Rightarrow> token list option res" where
  "tokenize ts e =
     (if e = [] then Inr (Some ts)
      else case first_match rules e of
        None \<Rightarrow> Inr None
      | Some (ty, n) \<Rightarrow>
          if memset_in_bounds (length ts) then
            bindE (add_token ts ty (take n e)) (\<lambda>ts. tokenize ts (drop n e))
          else Inl Out_of_bounds)"
  by pat_completeness auto
termination
  by (relation "measure (\<lambda>(ts, e). length e)") (auto dest: first_match_pos)

declare tokenize.simps [simp del]

definition make_token :: "string \<Rightarrow> token list option res" where
  "make_token e = tokenize [] e"

section \<open>Evaluator\<close>

text \<open>The tokens at positions \<open>p\<close> to \<open>q\<close>.\<close>

definition tok_range :: "token list \<Rightarrow> int \<Rightarrow> int \<Rightarrow> token list" where
  "tok_range ts p q = map (\<lambda>i. ts ! nat i) [p..q]"

fun check_brackets :: "token list \<Rightarrow> nat \<Rightarrow> bool" where
  "check_brackets [] tp = (tp = 0)"
| "check_brackets (t # ts) tp =
     (if tok_type t = TK_LBRKT then check_brackets ts (tp + 1)
      else if tok_type t = TK_RBRKT then (if tp = 0 then False else check_brackets ts (tp - 1))
      else check_brackets ts tp)"

definition check_parentheses :: "token list \<Rightarrow> int \<Rightarrow> int \<Rightarrow> bool res" where
  "check_parentheses ts p q =
     bindE (assertE (q - p + 1 \<ge> 3)) (\<lambda>_.
       if tok_type (ts ! nat p) \<noteq> TK_LBRKT \<and> tok_type (ts ! nat q) \<noteq> TK_RBRKT then Inr False
       else Inr (check_brackets (tok_range ts (p + 1) (q - 1)) 0))"

fun get_precedence_in :: "rule list \<Rightarrow> tk \<Rightarrow> nat" where
  "get_precedence_in [] ty = 255"
| "get_precedence_in (r # rs) ty = (if rule_type r = ty then rule_prec r else get_precedence_in rs ty)"

definition get_precedence :: "tk \<Rightarrow> nat" where
  "get_precedence ty = get_precedence_in rules ty"

definition priority_is_higher :: "tk \<Rightarrow> tk \<Rightarrow> bool res" where
  "priority_is_higher op1 op2 =
     bindE (assertE (token_is_vaild_op op1)) (\<lambda>_.
     bindE (assertE (token_is_vaild_op op2)) (\<lambda>_.
       Inr (get_precedence op1 < get_precedence op2)))"

text \<open>
  The search for the main operator runs from \<open>q\<close> down to \<open>p\<close>; \<open>None\<close> stands for \<open>TK_INVAILD\<close>. The
  argument list holds the tokens with their positions, the rightmost first.
\<close>

fun find_main :: "(int \<times> token) list \<Rightarrow> nat \<Rightarrow> (tk \<times> int) option \<Rightarrow> (tk \<times> int) option res" where
  "find_main [] need_brkt m = Inr m"
| "find_main ((i, t) # its) need_brkt m =
     (let ty = tok_type t in
      if \<not> token_is_vaild_op ty then find_main its need_brkt m
      else if ty = TK_RBRKT then find_main its (need_brkt + 1) m
      else if need_brkt \<noteq> 0 then
        find_main its (if ty = TK_LBRKT then need_brkt - 1 else need_brkt) m
      else
        case m of
          None \<Rightarrow> find_main its need_brkt (Some (ty, i))
        | Some (main_op, j) \<Rightarrow>
            bindE (priority_is_higher main_op ty) (\<lambda>h.
              find_main its need_brkt (if h then Some (ty, i) else m)))"

definition positions :: "token list \<Rightarrow> int \<Rightarrow> int \<Rightarrow> (int \<times> token) list" where
  "positions ts p q = map (\<lambda>i. (i, ts ! nat i)) [p..q]"

definition main_operator :: "token list \<Rightarrow> int \<Rightarrow> int \<Rightarrow> (tk \<times> int) res" where
  "main_operator ts p q =
     bindE (find_main (rev (positions ts p q)) 0 None) (optE Assert_fail)"

text \<open>
  The host's \<open>strtol\<close>: white space, an optional sign, the prefix \<open>0x\<close> in base 16, then digits up to
  the first other character, saturating at the 64-bit \<open>long\<close>.
\<close>

definition digit_val :: "char \<Rightarrow> nat option" where
  "digit_val ch =
     (let n = of_char ch :: nat in
      if 48 \<le> n \<and> n \<le> 57 then Some (n - 48)
      else if 97 \<le> n \<and> n \<le> 122 then Some (n - 87)
      else if 65 \<le> n \<and> n \<le> 90 then Some (n - 55)
      else None)"

fun strtol_digits :: "nat \<Rightarrow> string \<Rightarrow> int \<Rightarrow> int" where
  "strtol_digits b [] acc = acc"
| "strtol_digits b (x # xs) acc =
     (case digit_val x of
        Some d \<Rightarrow> if d < b then strtol_digits b xs (acc * int b + int d) else acc
      | None \<Rightarrow> acc)"

definition is_space :: "char \<Rightarrow> bool" where
  "is_space ch \<longleftrightarrow> of_char ch \<in> {32, 9, 10, 11, 12, 13 :: nat}"

definition skip_0x :: "nat \<Rightarrow> string \<Rightarrow> string" where
  "skip_0x b s = (case s of a # x # d # _ \<Rightarrow>
       if b = 16 \<and> a = CHR ''0'' \<and> (x = CHR ''x'' \<or> x = CHR ''X'') \<and>
          (case digit_val d of None \<Rightarrow> False | Some v \<Rightarrow> v < 16) then drop 2 s else s
     | _ \<Rightarrow> s)"

definition clamp_long :: "int \<Rightarrow> int" where
  "clamp_long x = max (- (2 ^ 63)) (min (2 ^ 63 - 1) x)"

definition strtol :: "nat \<Rightarrow> string \<Rightarrow> int" where
  "strtol b s =
     (let s = dropWhile is_space s;
          (neg, s) = (case s of x # xs \<Rightarrow> if x = CHR ''-'' then (True, xs)
                                     else if x = CHR ''+'' then (False, xs) else (False, s)
                       | [] \<Rightarrow> (False, s));
          v = strtol_digits b (skip_0x b s) 0
      in clamp_long (if neg then - v else v))"

text \<open>\<open>scanf\<close> of an \<open>int\<close> with \<open>%d\<close>: blanks, a sign and at least one digit; the \<open>long\<close> read is cut to 32 bits.\<close>

definition scan_int :: "string \<Rightarrow> u32 option" where
  "scan_int s =
     (let t = dropWhile is_space s; t = (case t of [] \<Rightarrow> [] | x # xs \<Rightarrow> if x = CHR ''-'' \<or> x = CHR ''+'' then xs else t)
      in case t of [] \<Rightarrow> None | x # xs \<Rightarrow> if is_digit x then Some (word_of_int (strtol 10 s)) else None)"

text \<open>
  The case of a single token. The local copy \<open>str\<close> has 32 bytes, so \<open>strcpy\<close> needs a string shorter
  than that. A dereference reads a word of host memory at \<open>guest_to_host\<close> of the number.
\<close>

definition eval_leaf :: "x86_CPU_state \<Rightarrow> byte_array \<Rightarrow> token \<Rightarrow> u32 res" where
  "eval_leaf c mem t =
     (if length (tok_str t) \<ge> 32 then Inl Out_of_bounds
      else case tok_type t of
        TK_NUM \<Rightarrow> Inr (word_of_int (strtol 10 (tok_str t)))
      | TK_HEX_NUM \<Rightarrow> Inr (word_of_int (strtol 16 (tok_str t)))
      | TK_REG \<Rightarrow> optE Assert_fail (isa_reg_str2val (tok_str t) c)
      | TK_DEREF \<Rightarrow>
          bindE (load_bytes PMEM_SIZE (nat (guest_to_host (word_of_int (strtol 16 (tok_str t))))) 4 mem)
            (\<lambda>bs. Inr (le_word bs))
      | _ \<Rightarrow> Inl Assert_fail)"

fun apply_op :: "tk \<Rightarrow> u32 \<Rightarrow> u32 \<Rightarrow> u32 res" where
  "apply_op TK_PLUS a b = Inr (a + b)"
| "apply_op TK_SUB a b = Inr (a - b)"
| "apply_op TK_MUX a b = Inr (a * b)"
| "apply_op TK_DIV a b = bindE (assertE (b \<noteq> 0)) (\<lambda>_. Inr (a div b))"
| "apply_op TK_EQ a b = Inr (if a = b then 1 else 0)"
| "apply_op TK_NEQ a b = Inr (if a \<noteq> b then 1 else 0)"
| "apply_op TK_AND a b = Inr (if a \<noteq> 0 \<and> b \<noteq> 0 then 1 else 0)"
| "apply_op t a b = Inl Assert_fail"

lemma find_main_mem:
  "find_main its n m = Inr (Some (t, j)) \<Longrightarrow> m = Some (t, j) \<or> (\<exists>x. (j, x) \<in> set its)"
proof (induction its arbitrary: n m)
  case Nil
  then show ?case by simp
next
  case (Cons it its)
  obtain i x where "it = (i, x)" by (cases it)
  with Cons.prems show ?case
    by (auto simp: Let_def bindE_eq_Inr split: if_splits option.splits dest!: Cons.IH)
qed

lemma main_operator_range: "main_operator ts p q = Inr (t, j) \<Longrightarrow> p \<le> j \<and> j \<le> q"
  by (auto simp: main_operator_def bindE_eq_Inr positions_def dest!: find_main_mem)

function eval :: "x86_CPU_state \<Rightarrow> byte_array \<Rightarrow> token list \<Rightarrow> int \<Rightarrow> int \<Rightarrow> u32 res" where
  "eval c mem ts p q =
     (if p > q then Inl Assert_fail
      else if p = q then eval_leaf c mem (ts ! nat p)
      else
        bindE (check_parentheses ts p q) (\<lambda>b.
          if b then eval c mem ts (p + 1) (q - 1)
          else
            bindE (main_operator ts p q) (\<lambda>(main_op, main_op_pos).
            bindE (eval c mem ts p (main_op_pos - 1)) (\<lambda>val1.
            bindE (eval c mem ts (main_op_pos + 1) q) (\<lambda>val2.
              apply_op main_op val1 val2)))))"
  by pat_completeness auto
termination
  by (relation "measure (\<lambda>(c, mem, ts, p, q). nat (q - p + 1))") (auto dest!: main_operator_range)

declare eval.simps [simp del]

text \<open>\<open>None\<close> is the result with \<open>*success = false\<close>.\<close>

definition expr :: "x86_CPU_state \<Rightarrow> byte_array \<Rightarrow> string \<Rightarrow> u32 option res" where
  "expr c mem e =
     bindE (make_token e) (\<lambda>r. case r of
        None \<Rightarrow> Inr None
      | Some ts \<Rightarrow> bindE (eval c mem ts 0 (int (length ts) - 1)) (\<lambda>v. Inr (Some v)))"

end
