(* ===== verification/Expr_Correct.thy ===== *)
theory Expr_Correct
  imports Expr
begin

text \<open>
  Correctness of the evaluator against a specification by syntax trees: an expression tree, its
  tokens, its precedence discipline, and its value. The evaluator, which works on positions of a
  token array, returns the value of the tree.
\<close>

section \<open>Expression trees\<close>

datatype ast = Leaf token | Par ast | Bin tk ast ast

definition binop :: "tk \<Rightarrow> bool" where
  "binop t \<longleftrightarrow> t \<in> {TK_PLUS, TK_SUB, TK_MUX, TK_DIV, TK_EQ, TK_NEQ, TK_AND}"

abbreviation tok_lb :: token where "tok_lb \<equiv> mk_token TK_LBRKT []"
abbreviation tok_rb :: token where "tok_rb \<equiv> mk_token TK_RBRKT []"

fun ast_toks :: "ast \<Rightarrow> token list" where
  "ast_toks (Leaf t) = [t]"
| "ast_toks (Par e) = tok_lb # ast_toks e @ [tok_rb]"
| "ast_toks (Bin op l r) = ast_toks l @ mk_token op [] # ast_toks r"

fun ast_prec :: "ast \<Rightarrow> nat" where
  "ast_prec (Bin op l r) = get_precedence op"
| "ast_prec _ = 0"

text \<open>
  A tree in which brackets are explicit: the left operand of an operator binds at least as tightly,
  the right one more tightly (every operator associates to the left).
\<close>

fun ast_wf :: "ast \<Rightarrow> bool" where
  "ast_wf (Leaf t) \<longleftrightarrow> \<not> token_is_vaild_op (tok_type t)"
| "ast_wf (Par e) \<longleftrightarrow> ast_wf e"
| "ast_wf (Bin op l r) \<longleftrightarrow> binop op \<and> ast_wf l \<and> ast_wf r \<and>
     ast_prec l \<le> get_precedence op \<and> ast_prec r < get_precedence op"

fun ast_val :: "x86_CPU_state \<Rightarrow> byte_array \<Rightarrow> ast \<Rightarrow> u32 res" where
  "ast_val c mem (Leaf t) = eval_leaf c mem t"
| "ast_val c mem (Par e) = ast_val c mem e"
| "ast_val c mem (Bin op l r) =
     bindE (ast_val c mem l) (\<lambda>a. bindE (ast_val c mem r) (\<lambda>b. apply_op op a b))"

lemma tok_type_mk_token [simp]: "tok_type (mk_token t s) = t" "tok_str (mk_token t s) = s"
  by (simp_all add: mk_token_def)

lemma not_op_not_bracket:
  "\<not> token_is_vaild_op t \<Longrightarrow> t \<noteq> TK_LBRKT \<and> t \<noteq> TK_RBRKT"
  by (auto simp: token_is_vaild_op_def less_tk_def)

lemma binop_facts:
  assumes "binop t"
  shows "token_is_vaild_op t" "t \<noteq> TK_LBRKT" "t \<noteq> TK_RBRKT" "0 < get_precedence t"
  using assms
  by (auto simp: binop_def token_is_vaild_op_def less_tk_def get_precedence_def rules_def mk_rule_def)

lemma bracket_op [simp]: "token_is_vaild_op TK_LBRKT" "token_is_vaild_op TK_RBRKT"
  by (simp_all add: token_is_vaild_op_def less_tk_def)

lemma ast_toks_nonempty [simp]: "ast_toks e \<noteq> []"
  by (cases e) auto

lemma ast_toks_length: "length (ast_toks e) \<ge> 1"
  using ast_toks_nonempty [of e] by (simp add: Suc_le_eq)

section \<open>The bracket check\<close>

lemma check_brackets_toks: "ast_wf e \<Longrightarrow> check_brackets (ast_toks e @ xs) n = check_brackets xs n"
proof (induction e arbitrary: xs n)
  case (Leaf t)
  then show ?case using not_op_not_bracket by auto
next
  case (Par e)
  then show ?case by simp
next
  case (Bin op l r)
  then show ?case using binop_facts [of op] by simp
qed

text \<open>A tree whose tokens begin with an opening bracket begins with a bracketed tree.\<close>

lemma toks_begin_bracket:
  "ast_wf e \<Longrightarrow> tok_type (hd (ast_toks e)) = TK_LBRKT \<Longrightarrow>
     \<exists>e1 xs. ast_wf e1 \<and> ast_toks e = tok_lb # ast_toks e1 @ tok_rb # xs"
proof (induction e)
  case (Leaf t)
  then show ?case using not_op_not_bracket by auto
next
  case (Par e)
  then show ?case by auto
next
  case (Bin op l r)
  then obtain e1 xs where "ast_wf e1" "ast_toks l = tok_lb # ast_toks e1 @ tok_rb # xs" by auto
  then show ?case by auto
qed

text \<open>Bracket counts: a check that succeeds from depth \<open>n\<close> closes \<open>n\<close> brackets more than it opens.\<close>

definition n_lb :: "token list \<Rightarrow> nat" where
  "n_lb ts = length (filter (\<lambda>t. tok_type t = TK_LBRKT) ts)"
definition n_rb :: "token list \<Rightarrow> nat" where
  "n_rb ts = length (filter (\<lambda>t. tok_type t = TK_RBRKT) ts)"

lemma check_brackets_count: "check_brackets ts n \<Longrightarrow> n + n_lb ts = n_rb ts"
  by (induction ts n rule: check_brackets.induct) (auto simp: n_lb_def n_rb_def split: if_splits)

lemma toks_balanced: "ast_wf e \<Longrightarrow> n_lb (ast_toks e) = n_rb (ast_toks e)"
  by (induction e) (auto simp: n_lb_def n_rb_def dest: not_op_not_bracket binop_facts)

lemma hd_not_rb: "ast_wf e \<Longrightarrow> tok_type (hd (ast_toks e)) \<noteq> TK_RBRKT"
  by (induction e) (auto dest: not_op_not_bracket)

text \<open>Stripping the outer tokens of an operator expression never looks like stripping brackets.\<close>

lemma check_brackets_bin_first:
  assumes "ast_wf (Bin op l r)" and "tok_type (hd (ast_toks l)) = TK_LBRKT"
  shows "\<not> check_brackets (butlast (tl (ast_toks (Bin op l r)))) 0"
proof -
  obtain e1 xs where e1: "ast_wf e1" "ast_toks l = tok_lb # ast_toks e1 @ tok_rb # xs"
    using assms toks_begin_bracket [of l] by auto
  have "butlast (tl (ast_toks (Bin op l r))) = ast_toks e1 @ tok_rb # butlast (xs @ mk_token op [] # ast_toks r)"
    by (simp add: e1 butlast_append)
  then show ?thesis by (simp add: check_brackets_toks e1)
qed

lemma check_brackets_bin_last:
  assumes wf: "ast_wf (Bin op l r)" and "tok_type (hd (ast_toks l)) \<noteq> TK_LBRKT"
    and "tok_type (last (ast_toks r)) = TK_RBRKT"
  shows "\<not> check_brackets (butlast (tl (ast_toks (Bin op l r)))) 0"
proof
  assume ok: "check_brackets (butlast (tl (ast_toks (Bin op l r)))) 0"
  obtain x xs where l: "ast_toks l = x # xs" by (cases "ast_toks l") auto
  obtain ys y where r: "ast_toks r = ys @ [y]" by (cases "ast_toks r" rule: rev_cases) auto
  have x: "tok_type x \<noteq> TK_LBRKT" "tok_type x \<noteq> TK_RBRKT" and y: "tok_type y = TK_RBRKT"
    using assms hd_not_rb [of l] l r by auto
  have mid: "butlast (tl (ast_toks (Bin op l r))) = xs @ mk_token op [] # ys"
    by (simp add: l r butlast_append)
  have "n_lb (xs @ mk_token op [] # ys) = n_rb (xs @ mk_token op [] # ys)"
    using check_brackets_count [OF ok] by (simp only: mid)
  moreover have "n_lb (ast_toks (Bin op l r)) = n_rb (ast_toks (Bin op l r))"
    using toks_balanced [OF wf] .
  ultimately show False using x y wf binop_facts [of op] by (simp add: l r n_lb_def n_rb_def)
qed

section \<open>The search for the main operator\<close>

fun enum_from :: "int \<Rightarrow> token list \<Rightarrow> (int \<times> token) list" where
  "enum_from k [] = []"
| "enum_from k (x # xs) = (k, x) # enum_from (k + 1) xs"

lemma enum_from_append: "enum_from k (xs @ ys) = enum_from k xs @ enum_from (k + int (length xs)) ys"
  by (induction xs arbitrary: k) (auto simp: add.assoc)

lemma priority_binop:
  "token_is_vaild_op s \<Longrightarrow> token_is_vaild_op t \<Longrightarrow>
     priority_is_higher s t = Inr (get_precedence s < get_precedence t)"
  by (simp add: priority_is_higher_def)

lemma find_main_deep:
  "ast_wf e \<Longrightarrow> find_main (rev (enum_from k (ast_toks e)) @ its) (Suc n) m = find_main its (Suc n) m"
proof (induction e arbitrary: k its n)
  case (Bin op l r)
  then show ?case using binop_facts [of op] by (simp add: enum_from_append Let_def)
qed (auto simp: enum_from_append Let_def)

lemma find_main_keep:
  assumes "token_is_vaild_op t"
  shows "ast_wf e \<Longrightarrow> ast_prec e \<le> get_precedence t \<Longrightarrow>
    find_main (rev (enum_from k (ast_toks e)) @ its) 0 (Some (t, j)) = find_main its 0 (Some (t, j))"
proof (induction e arbitrary: k its)
  case (Par e)
  then show ?case using assms by (simp add: enum_from_append Let_def find_main_deep)
next
  case (Bin op l r)
  then show ?case
    using assms binop_facts [of op] by (simp add: enum_from_append Let_def priority_binop)
qed (auto simp: Let_def)

fun ast_main :: "int \<Rightarrow> ast \<Rightarrow> (tk \<times> int) option" where
  "ast_main k (Bin op l r) = Some (op, k + int (length (ast_toks l)))"
| "ast_main k _ = None"

lemma find_main_none:
  "ast_wf e \<Longrightarrow>
    find_main (rev (enum_from k (ast_toks e)) @ its) 0 None = find_main its 0 (ast_main k e)"
proof (induction e arbitrary: k its)
  case (Par e)
  then show ?case by (simp add: enum_from_append Let_def find_main_deep)
next
  case (Bin op l r)
  have step: "find_main ((i, mk_token op []) # its') 0 (ast_main k' r) = find_main its' 0 (Some (op, i))"
    for i its' k'
    using Bin.prems binop_facts [of op] by (cases r) (auto simp: Let_def priority_binop dest: binop_facts)
  then show ?case
    using Bin binop_facts [of op] by (simp add: enum_from_append find_main_keep)
qed (auto simp: Let_def)

section \<open>Positions in the token array\<close>

lemma upto_map_nth:
  "map (\<lambda>i. f i ((pre @ xs @ post) ! nat i)) [int (length pre)..int (length pre) + int (length xs) - 1] =
     map2 f [int (length pre)..int (length pre) + int (length xs) - 1] xs"
proof (rule nth_equalityI)
  fix i
  assume "i < length (map (\<lambda>i. f i ((pre @ xs @ post) ! nat i))
            [int (length pre)..int (length pre) + int (length xs) - 1])"
  then have i: "i < length xs" by simp
  then have "nat (int (length pre) + int i) = length pre + i" by simp
  then show "map (\<lambda>i. f i ((pre @ xs @ post) ! nat i))
        [int (length pre)..int (length pre) + int (length xs) - 1] ! i =
      map2 f [int (length pre)..int (length pre) + int (length xs) - 1] xs ! i"
    using i by (simp add: nth_append)
qed simp

lemma tok_range_eq:
  "tok_range (pre @ xs @ post) (int (length pre)) (int (length pre) + int (length xs) - 1) = xs"
  using upto_map_nth [of "\<lambda>i x. x" pre xs post] map_snd_zip [of "[int (length pre)..int (length pre) + int (length xs) - 1]" xs]
  by (simp add: tok_range_def case_prod_unfold)

lemma zip_upto_enum: "zip [k..k + int (length xs) - 1] xs = enum_from k xs"
proof (induction xs arbitrary: k)
  case (Cons x xs)
  have "[k..k + int (length (x # xs)) - 1] = k # [k + 1..(k + 1) + int (length xs) - 1]"
    by (simp add: upto_rec1)
  then show ?case using Cons.IH [of "k + 1"] by simp
qed simp

lemma positions_eq:
  "positions (pre @ xs @ post) (int (length pre)) (int (length pre) + int (length xs) - 1) =
     enum_from (int (length pre)) xs"
  using upto_map_nth [of Pair pre xs post] by (simp add: positions_def zip_upto_enum)


section \<open>The evaluator returns the value of the tree\<close>

lemma nth_at: "int (length pre) = p \<Longrightarrow> (pre @ x # post) ! nat p = x"
  by auto

lemma check_parentheses_bin:
  assumes wf: "ast_wf (Bin op l r)"
  shows "check_parentheses (pre @ ast_toks (Bin op l r) @ post) (int (length pre))
           (int (length pre) + int (length (ast_toks (Bin op l r))) - 1) = Inr False"
proof -
  let ?ts = "ast_toks (Bin op l r)" and ?p = "int (length pre)"
  let ?q = "?p + int (length ?ts) - 1"
  obtain x xs where l: "ast_toks l = x # xs" by (cases "ast_toks l") auto
  obtain ys y where r: "ast_toks r = ys @ [y]" by (cases "ast_toks r" rule: rev_cases) auto
  let ?mid = "xs @ mk_token op [] # ys"
  have ts: "?ts = x # ?mid @ [y]" by (simp add: l r)
  have hd: "(pre @ ?ts @ post) ! nat ?p = x" by (simp add: l)
  have "pre @ ?ts @ post = (pre @ x # ?mid) @ y # post" by (simp add: l r)
  moreover have "nat ?q = length (pre @ x # ?mid)" by (simp add: l r)
  ultimately have lst: "(pre @ ?ts @ post) ! nat ?q = y" by (simp only: nth_append_length)
  have "tok_range ((pre @ [x]) @ ?mid @ (y # post)) (?p + 1) (?q - 1) = ?mid"
    using tok_range_eq [of "pre @ [x]" ?mid "y # post"] by (simp add: l r algebra_simps)
  then have mid: "tok_range (pre @ ?ts @ post) (?p + 1) (?q - 1) = ?mid" by (simp add: l r)
  have bl: "butlast (tl ?ts) = ?mid" by (simp add: l r butlast_append)
  have "check_parentheses (pre @ ?ts @ post) ?p ?q =
      (if tok_type x \<noteq> TK_LBRKT \<and> tok_type y \<noteq> TK_RBRKT then Inr False else Inr (check_brackets ?mid 0))"
    unfolding check_parentheses_def hd lst mid by (simp add: l r)
  also have "\<dots> = Inr False"
    using check_brackets_bin_first [OF wf] check_brackets_bin_last [OF wf] bl l r by auto
  finally show ?thesis .
qed

lemma check_parentheses_par:
  assumes wf: "ast_wf e"
  shows "check_parentheses (pre @ ast_toks (Par e) @ post) (int (length pre))
           (int (length pre) + int (length (ast_toks (Par e))) - 1) = Inr True"
proof -
  let ?p = "int (length pre)" and ?n = "int (length (ast_toks e))"
  have "tok_range ((pre @ [tok_lb]) @ ast_toks e @ (tok_rb # post)) (?p + 1) (?p + ?n) = ast_toks e"
    using tok_range_eq [of "pre @ [tok_lb]" "ast_toks e" "tok_rb # post"] by (simp add: algebra_simps)
  moreover have "check_brackets (ast_toks e) 0"
    using check_brackets_toks [OF wf, of "[]" 0] by simp
  moreover have "?n \<ge> 1" using ast_toks_length [of e] by simp
  ultimately show ?thesis by (simp add: check_parentheses_def)
qed

lemma main_operator_bin:
  assumes "ast_wf (Bin op l r)"
  shows "main_operator (pre @ ast_toks (Bin op l r) @ post) (int (length pre))
           (int (length pre) + int (length (ast_toks (Bin op l r))) - 1) =
         Inr (op, int (length pre) + int (length (ast_toks l)))"
  using find_main_none [OF assms, of "int (length pre)" "[]"]
  unfolding main_operator_def positions_eq by simp

theorem eval_ast:
  "ast_wf e \<Longrightarrow>
     eval c mem (pre @ ast_toks e @ post) (int (length pre))
       (int (length pre) + int (length (ast_toks e)) - 1) = ast_val c mem e"
proof (induction e arbitrary: pre post)
  case (Leaf t)
  then show ?case by (simp add: eval.simps)
next
  case (Par e)
  let ?p = "int (length pre)" and ?n = "int (length (ast_toks e))"
  have n: "?n \<ge> 1" using ast_toks_length [of e] by simp
  have "eval c mem (pre @ ast_toks (Par e) @ post) ?p (?p + int (length (ast_toks (Par e))) - 1) =
      eval c mem (pre @ ast_toks (Par e) @ post) (?p + 1) (?p + ?n)"
    using check_parentheses_par [of e pre post] Par.prems n
    by (simp add: eval.simps [of c mem _ ?p])
  also have "\<dots> = ast_val c mem e"
    using Par.IH [of "pre @ [tok_lb]" "tok_rb # post"] Par.prems by (simp add: algebra_simps)
  finally show ?case by simp
next
  case (Bin op l r)
  let ?ts = "pre @ ast_toks (Bin op l r) @ post"
  let ?p = "int (length pre)" and ?nl = "int (length (ast_toks l))" and ?nr = "int (length (ast_toks r))"
  let ?q = "?p + int (length (ast_toks (Bin op l r))) - 1"
  have n: "?nl \<ge> 1" "?nr \<ge> 1" using ast_toks_length [of l] ast_toks_length [of r] by simp_all
  have el: "eval c mem ?ts ?p (?p + ?nl - 1) = ast_val c mem l"
    using Bin.IH(1) [of pre "mk_token op [] # ast_toks r @ post"] Bin.prems by simp
  have er: "eval c mem ?ts (?p + ?nl + 1) ?q = ast_val c mem r"
    using Bin.IH(2) [of "pre @ ast_toks l @ [mk_token op []]" post] Bin.prems by (simp add: algebra_simps)
  have lt: "\<not> ?q < ?p" "?p \<noteq> ?q" using n by simp_all
  show ?case
    by (subst eval.simps)
      (simp only: lt check_parentheses_bin [OF Bin.prems] main_operator_bin [OF Bin.prems] el er
        bindE.simps prod.case if_False ast_val.simps)
qed

end
