(* ===== verification/Gen_Expr.thy ===== *)
theory Gen_Expr
  imports Expr_Correct
begin

text \<open>
  The random expression generator \<open>tools/gen-expr/gen-expr.c\<close> and what its output means to the
  evaluator: every text it generates is the text of an expression tree, the tokenizer splits it into
  the tokens of that tree, and \<open>expr\<close> returns the value the usual precedence rules give it.

  The host's \<open>rand()\<close> is the argument \<open>rnd\<close>, a function of the number of calls so far. The state is
  that number and the text in \<open>buf\<close>, whose length is \<open>buf_index\<close>. \<open>gen_rand_expr\<close> recurses without
  a bound of its own (the random numbers decide), so the model takes the recursion depth as fuel and
  returns \<open>None\<close> when it is used up.
\<close>

section \<open>Generator\<close>

type_synonym gen_state = "nat \<times> string"

definition MAX_INDEX :: nat where "MAX_INDEX = 65536"

definition choose_rand :: "(nat \<Rightarrow> nat) \<Rightarrow> nat \<Rightarrow> gen_state \<Rightarrow> nat \<times> gen_state" where
  "choose_rand rnd n = (\<lambda>(k, buf). (rnd k mod n, (k + 1, buf)))"

definition gen :: "char \<Rightarrow> gen_state \<Rightarrow> bool \<times> gen_state" where
  "gen ch = (\<lambda>(k, buf). if length buf \<ge> MAX_INDEX - 1 then (False, (k, buf)) else (True, (k, buf @ [ch])))"

text \<open>\<open>sprintf\<close> of a non-negative number with \<open>%d\<close>.\<close>

fun show_nat :: "nat \<Rightarrow> string" where
  "show_nat n = (if n < 10 then [char_of (48 + n)] else show_nat (n div 10) @ [char_of (48 + n mod 10)])"

declare show_nat.simps [simp del]

definition gen_num :: "(nat \<Rightarrow> nat) \<Rightarrow> gen_state \<Rightarrow> bool \<times> gen_state" where
  "gen_num rnd s =
     (let (ran_num, (k, buf)) = choose_rand rnd 1000 s; str = show_nat ran_num @ ''U'' in
      if length buf + length str \<ge> MAX_INDEX - 1 then (False, (k, buf)) else (True, (k, buf @ str)))"

definition op_char :: "nat \<Rightarrow> char" where
  "op_char n = ''+-*/'' ! n"

definition gen_rand_op :: "(nat \<Rightarrow> nat) \<Rightarrow> gen_state \<Rightarrow> bool \<times> gen_state" where
  "gen_rand_op rnd = (\<lambda>(k, buf).
     if length buf \<ge> MAX_INDEX - 1 then (False, (k, buf))
     else let (n, (k, buf)) = choose_rand rnd 4 (k, buf) in (True, (k, buf @ [op_char n])))"

text \<open>Sequencing of steps that return \<open>false\<close> on failure: the first failure is returned.\<close>

definition gen_then ::
  "(bool \<times> gen_state) option \<Rightarrow> (gen_state \<Rightarrow> (bool \<times> gen_state) option) \<Rightarrow> (bool \<times> gen_state) option" where
  "gen_then r f = (case r of None \<Rightarrow> None | Some (ok, s) \<Rightarrow> if ok then f s else Some (False, s))"

fun gen_rand_expr :: "nat \<Rightarrow> (nat \<Rightarrow> nat) \<Rightarrow> gen_state \<Rightarrow> (bool \<times> gen_state) option" where
  "gen_rand_expr 0 rnd s = None"
| "gen_rand_expr (Suc fuel) rnd s =
     (let (n, s) = choose_rand rnd 4 s in
      if n = 0 then Some (gen_num rnd s)
      else if n = 1 then
        gen_then (Some (gen (CHR ''('') s)) (\<lambda>s.
        gen_then (gen_rand_expr fuel rnd s) (\<lambda>s. Some (gen (CHR '')'') s)))
      else if n = 2 then
        gen_then (gen_rand_expr fuel rnd s) (\<lambda>s.
        gen_then (Some (gen_rand_op rnd s)) (\<lambda>s. gen_rand_expr fuel rnd s))
      else
        gen_then (Some (gen (CHR '' '') s)) (\<lambda>s. gen_rand_expr fuel rnd s))"

section \<open>Generated texts\<close>

datatype gtree = GNum nat | GPar gtree | GBin nat gtree gtree | GSp gtree

fun gwf :: "gtree \<Rightarrow> bool" where
  "gwf (GNum n) \<longleftrightarrow> n < 1000"
| "gwf (GPar g) \<longleftrightarrow> gwf g"
| "gwf (GBin k g h) \<longleftrightarrow> k < 4 \<and> gwf g \<and> gwf h"
| "gwf (GSp g) \<longleftrightarrow> gwf g"

fun gtext :: "gtree \<Rightarrow> string" where
  "gtext (GNum n) = show_nat n @ ''U''"
| "gtext (GPar g) = ''('' @ gtext g @ '')''"
| "gtext (GBin k g h) = gtext g @ [op_char k] @ gtext h"
| "gtext (GSp g) = '' '' @ gtext g"

lemma gen_then_Some_True:
  "gen_then r f = Some (True, t) \<longleftrightarrow> (\<exists>s. r = Some (True, s) \<and> f s = Some (True, t))"
  by (auto simp: gen_then_def split: option.splits)

lemma gen_True: "gen ch (k, buf) = (True, s) \<longleftrightarrow> length buf < MAX_INDEX - 1 \<and> s = (k, buf @ [ch])"
  by (auto simp: gen_def)

lemma choose_rand_eq: "choose_rand rnd n (k, buf) = (rnd k mod n, (k + 1, buf))"
  by (simp add: choose_rand_def)

lemma gen_rand_expr_tree:
  "gen_rand_expr fuel rnd (k, buf) = Some (True, (k', buf')) \<Longrightarrow>
     \<exists>g. gwf g \<and> buf' = buf @ gtext g \<and> length buf' < MAX_INDEX"
proof (induction fuel arbitrary: k buf k' buf')
  case 0
  then show ?case by simp
next
  case (Suc fuel)
  have lt4: "rnd k mod 4 < 4" by simp
  consider "rnd k mod 4 = 0" | "rnd k mod 4 = 1" | "rnd k mod 4 = 2" | "rnd k mod 4 = 3"
    using lt4 by linarith
  then show ?case
  proof cases
    case 1
    with Suc.prems have "buf' = buf @ show_nat (rnd (k + 1) mod 1000) @ ''U''" "length buf' < MAX_INDEX"
      by (auto simp: choose_rand_eq gen_num_def MAX_INDEX_def Let_def split: if_splits)
    then show ?thesis by (intro exI [of _ "GNum (rnd (k + 1) mod 1000)"]) simp
  next
    case 2
    with Suc.prems obtain k1 buf1 where
      "gen_rand_expr fuel rnd (k + 1, buf @ ''('') = Some (True, (k1, buf1))"
      "length buf1 < MAX_INDEX - 1" "buf' = buf1 @ '')''"
      by (auto simp: choose_rand_eq gen_then_Some_True gen_True)
    with Suc.IH show ?thesis by (fastforce intro: exI [of _ "GPar _"] simp: MAX_INDEX_def)
  next
    case 3
    with Suc.prems obtain k1 buf1 where
      e1: "gen_rand_expr fuel rnd (k + 1, buf) = Some (True, (k1, buf1))" and
      e2: "gen_rand_expr fuel rnd (k1 + 1, buf1 @ [op_char (rnd k1 mod 4)]) = Some (True, (k', buf'))"
      by (auto simp: choose_rand_eq gen_then_Some_True gen_rand_op_def split: if_splits)
    obtain g h where "gwf g" "buf1 = buf @ gtext g" "gwf h"
      "buf' = (buf1 @ [op_char (rnd k1 mod 4)]) @ gtext h" "length buf' < MAX_INDEX"
      using Suc.IH [OF e1] Suc.IH [OF e2] by blast
    then show ?thesis by (intro exI [of _ "GBin (rnd k1 mod 4) g h"]) simp
  next
    case 4
    with Suc.prems have "gen_rand_expr fuel rnd (k + 1, buf @ '' '') = Some (True, (k', buf'))"
      by (auto simp: choose_rand_eq gen_then_Some_True gen_True)
    with Suc.IH show ?thesis by (fastforce intro: exI [of _ "GSp _"])
  qed
qed

section \<open>Tokens of a generated text\<close>

definition op_tk :: "nat \<Rightarrow> tk" where
  "op_tk n = [TK_PLUS, TK_SUB, TK_MUX, TK_DIV] ! n"

fun gtoks :: "gtree \<Rightarrow> token list" where
  "gtoks (GNum n) = [mk_token TK_NUM (show_nat n)]"
| "gtoks (GPar g) = tok_lb # gtoks g @ [tok_rb]"
| "gtoks (GBin k g h) = gtoks g @ mk_token (op_tk k) [] # gtoks h"
| "gtoks (GSp g) = gtoks g"

lemma gtoks_last: "gtoks g \<noteq> [] \<and> tok_type (last (gtoks g)) \<in> {TK_NUM, TK_RBRKT}"
  by (induction g) auto

lemma is_digit_all: "list_all (\<lambda>n. is_digit (char_of (48 + n :: nat))) [0..<10]"
  by code_simp

lemma is_digit_digit: "n < 10 \<Longrightarrow> is_digit (char_of (48 + n :: nat))"
  using is_digit_all by (simp add: list_all_iff)

lemma show_nat_digits: "\<forall>ch\<in>set (show_nat n). is_digit ch"
proof (induction n rule: show_nat.induct)
  case (1 n)
  then show ?case using is_digit_digit [of n] is_digit_digit [of "n mod 10"]
    by (subst show_nat.simps) auto
qed

lemma show_nat_nonempty: "show_nat n \<noteq> []"
  by (subst show_nat.simps) simp

lemma show_nat_length: "n < 1000 \<Longrightarrow> length (show_nat n) \<le> 3"
  by (simp add: show_nat.simps [of n] show_nat.simps [of "n div 10"] show_nat.simps [of "n div 10 div 10"])

lemma digit_cases: "is_digit x \<Longrightarrow> x \<in> set ''0123456789''"
  by (simp add: is_digit_def)

lemma span_len_digits:
  "\<forall>ch\<in>set dg. is_digit ch \<Longrightarrow> span_len is_digit (dg @ CHR ''U'' # s) = length dg"
  by (induction dg) (auto simp: is_digit_def)

text \<open>A rule whose first class excludes the next character is passed over.\<close>

lemma first_match_skip:
  "\<not> p x \<Longrightarrow> q \<noteq> Opt \<Longrightarrow>
     first_match (mk_rule ((p, q) # r) t n # rs) (x # s) = first_match rs (x # s)"
  by (cases q) (simp_all add: mk_rule_def Let_def)

lemma first_match_hit:
  "rx_match r s = Some k \<Longrightarrow> first_match (mk_rule r t n # rs) s = Some (t, k)"
  by (simp add: mk_rule_def)

lemma first_match_miss:
  "rx_match r s = None \<Longrightarrow> first_match (mk_rule r t n # rs) s = first_match rs s"
  by (simp add: mk_rule_def)

lemma first_match_num:
  assumes "\<forall>ch\<in>set dg. is_digit ch" "dg \<noteq> []"
  shows "first_match rules (dg @ CHR ''U'' # s) = Some (TK_NUM, Suc (length dg))"
proof -
  obtain x xs where dg: "dg = x # xs" using assms(2) by (cases dg) auto
  have x: "is_digit x" using assms(1) dg by simp
  have hex: "rx_match [lit (CHR ''0''), (\<lambda>ch. ch = CHR ''x'' \<or> ch = CHR ''X'', One),
              (is_digit, Plus), ((=) (CHR ''U''), Opt)] (x # xs @ CHR ''U'' # s) = None"
    using assms(1) dg by (cases xs) (auto simp: is_digit_def split: option.splits)
  have num: "rx_match [(is_digit, Plus), ((=) (CHR ''U''), Opt)] (x # xs @ CHR ''U'' # s) =
      Some (Suc (length dg))"
    using span_len_digits [OF assms(1), of s] dg by (simp add: Let_def split: if_splits)
  have other: "CHR '' '' \<noteq> x" "CHR ''+'' \<noteq> x" "CHR ''-'' \<noteq> x" "CHR ''*'' \<noteq> x" "CHR ''/'' \<noteq> x"
    "CHR ''('' \<noteq> x" "CHR '')'' \<noteq> x" "CHR ''='' \<noteq> x" "CHR ''!'' \<noteq> x" "CHR ''&'' \<noteq> x" "CHR ''$'' \<noteq> x"
    using x by (auto simp: is_digit_def)
  show ?thesis
    unfolding rules_def dg append_Cons using other
    by (simp only: first_match_skip first_match_miss [OF hex] first_match_hit [OF num] rep.distinct
        not_False_eq_True simp_thms) (simp add: dg)
qed

lemma first_match_punct:
  "first_match rules (CHR ''('' # s) = Some (TK_LBRKT, 1)"
  "first_match rules (CHR '')'' # s) = Some (TK_RBRKT, 1)"
  "first_match rules (CHR ''+'' # s) = Some (TK_PLUS, 1)"
  "first_match rules (CHR ''-'' # s) = Some (TK_SUB, 1)"
  "first_match rules (CHR ''*'' # s) = Some (TK_MUX, 1)"
  "first_match rules (CHR ''/'' # s) = Some (TK_DIV, 1)"
  unfolding rules_def by (simp_all add: first_match_skip first_match_hit del: first_match.simps)

lemma op_cases:
  assumes "n < 4"
  obtains "op_char n = CHR ''+''" "op_tk n = TK_PLUS" | "op_char n = CHR ''-''" "op_tk n = TK_SUB"
  | "op_char n = CHR ''*''" "op_tk n = TK_MUX" | "op_char n = CHR ''/''" "op_tk n = TK_DIV"
proof -
  have "n = 0 \<or> n = 1 \<or> n = 2 \<or> n = 3" using assms by auto
  then show thesis using that by (auto simp: op_char_def op_tk_def)
qed

lemma first_match_op: "n < 4 \<Longrightarrow> first_match rules (op_char n # s) = Some (op_tk n, 1)"
  by (erule op_cases) (simp_all add: first_match_punct)

lemma first_match_space:
  "first_match rules (CHR '' '' # s) = Some (TK_NOTYPE, Suc (span_len ((=) (CHR '' '')) s))"
  unfolding rules_def by (simp add: mk_rule_def)

text \<open>One step of the tokenizer on each kind of text the generator emits.\<close>

lemma tokenize_match:
  assumes "e \<noteq> []" "first_match rules e = Some (ty, n)" "memset_in_bounds (length ts)"
    "add_token ts ty (take n e) = Inr ts'"
  shows "tokenize ts e = tokenize ts' (drop n e)"
  using assms by (subst tokenize.simps) simp

lemma tokenize_space:
  assumes "memset_in_bounds (length ts)"
  shows "tokenize ts (CHR '' '' # s) = tokenize ts s"
proof -
  let ?n = "span_len ((=) (CHR '' '')) s"
  have "tokenize ts (CHR '' '' # s) = tokenize ts (drop ?n s)"
    using tokenize_match [OF _ first_match_space assms] by simp
  also have "\<dots> = tokenize ts s"
  proof (cases s)
    case (Cons x xs)
    show ?thesis
    proof (cases "x = CHR '' ''")
      case True
      then show ?thesis
        using tokenize_match [OF _ first_match_space assms, of xs] Cons by simp
    qed (simp add: Cons)
  qed simp
  finally show ?thesis .
qed

lemma tokenize_num:
  assumes "memset_in_bounds (length ts)" "n < 1000"
  shows "tokenize ts (show_nat n @ CHR ''U'' # s) = tokenize (ts @ [mk_token TK_NUM (show_nat n)]) s"
proof -
  note m = first_match_num [OF show_nat_digits show_nat_nonempty, of n s]
  have "add_token ts TK_NUM (take (Suc (length (show_nat n))) (show_nat n @ CHR ''U'' # s)) =
      Inr (ts @ [mk_token TK_NUM (show_nat n)])"
    using show_nat_length [OF assms(2)] by simp
  then show ?thesis using tokenize_match [OF _ m assms(1)] by simp
qed

lemma add_op:
  assumes "ts \<noteq> []" "tok_type (last ts) \<in> {TK_NUM, TK_RBRKT}" "k < 4"
  shows "add_token ts (op_tk k) sub = Inr (ts @ [mk_token (op_tk k) []])"
  using assms(3) by (rule op_cases) (use assms in \<open>auto simp: Let_def\<close>)

lemma tokenize_gtree:
  "gwf g \<Longrightarrow> length ts + length (gtoks g) \<le> 63716 \<Longrightarrow>
     tokenize ts (gtext g @ s) = tokenize (ts @ gtoks g) s"
proof (induction g arbitrary: ts s)
  case (GNum n)
  then show ?case by (simp add: tokenize_num memset_in_bounds_def TOKENS_MAX_SIZE_def)
next
  case (GPar g)
  have b: "memset_in_bounds (length ts)" "memset_in_bounds (length (ts @ tok_lb # gtoks g))"
    using GPar.prems by (simp_all add: memset_in_bounds_def TOKENS_MAX_SIZE_def)
  have "tokenize ts (gtext (GPar g) @ s) = tokenize (ts @ [tok_lb]) (gtext g @ CHR '')'' # s)"
    using tokenize_match [OF _ first_match_punct(1) b(1)] by simp
  also have "\<dots> = tokenize (ts @ tok_lb # gtoks g) (CHR '')'' # s)"
    using GPar.IH [of "ts @ [tok_lb]"] GPar.prems by simp
  also have "\<dots> = tokenize (ts @ gtoks (GPar g)) s"
    using tokenize_match [OF _ first_match_punct(2) b(2)] by simp
  finally show ?case .
next
  case (GBin k g h)
  let ?ts = "ts @ gtoks g"
  have b: "memset_in_bounds (length ?ts)"
    using GBin.prems by (simp add: memset_in_bounds_def TOKENS_MAX_SIZE_def)
  have "tokenize ts (gtext (GBin k g h) @ s) = tokenize ?ts (op_char k # gtext h @ s)"
    using GBin.IH(1) [of ts] GBin.prems by simp
  also have "\<dots> = tokenize (?ts @ [mk_token (op_tk k) []]) (gtext h @ s)"
    using tokenize_match [OF _ first_match_op b] add_op [of ?ts k] gtoks_last [of g] GBin.prems
    by simp
  also have "\<dots> = tokenize (ts @ gtoks (GBin k g h)) s"
    using GBin.IH(2) [of "?ts @ [mk_token (op_tk k) []]"] GBin.prems by simp
  finally show ?case .
next
  case (GSp g)
  have "length (gtoks g) \<ge> 1" using gtoks_last [of g] by (simp add: Suc_le_eq)
  then have "memset_in_bounds (length ts)"
    using GSp.prems by (simp add: memset_in_bounds_def TOKENS_MAX_SIZE_def)
  then show ?case using GSp by (simp add: tokenize_space)
qed

lemma gtoks_length: "length (gtoks g) \<le> length (gtext g)"
  by (induction g) auto

lemma make_token_gtree:
  assumes "gwf g" "length (gtext g) \<le> 63716"
  shows "make_token (gtext g) = Inr (Some (gtoks g))"
  using tokenize_gtree [OF assms(1), of "[]" "[]"] gtoks_length [of g] assms(2)
  by (simp add: make_token_def tokenize.simps [of _ "[]"])

section \<open>The precedence parse of a generated text\<close>

text \<open>
  Two operands and an operator between them, written without brackets: the operator that binds
  least, and of equals the rightmost, becomes the root.
\<close>

function combine :: "ast \<Rightarrow> tk \<Rightarrow> ast \<Rightarrow> ast" where
  "combine l op r =
     (if get_precedence op \<le> ast_prec r \<and> ast_prec l \<le> ast_prec r then
        (case r of Bin op2 r1 r2 \<Rightarrow> Bin op2 (combine l op r1) r2 | _ \<Rightarrow> Bin op l r)
      else if ast_prec l \<le> get_precedence op then Bin op l r
      else (case l of Bin op1 l1 l2 \<Rightarrow> Bin op1 l1 (combine l2 op r) | _ \<Rightarrow> Bin op l r))"
  by pat_completeness auto
termination
  by (relation "measure (\<lambda>(l, op, r). size l + size r)") auto

declare combine.simps [simp del]

lemma combine_right:
  "get_precedence op \<le> get_precedence op2 \<Longrightarrow> ast_prec l \<le> get_precedence op2 \<Longrightarrow>
     combine l op (Bin op2 r1 r2) = Bin op2 (combine l op r1) r2"
  by (subst combine.simps) simp

lemma combine_here:
  "ast_prec r < get_precedence op \<Longrightarrow> ast_prec l \<le> get_precedence op \<Longrightarrow> combine l op r = Bin op l r"
  by (subst combine.simps) simp

lemma combine_left:
  "ast_prec r < get_precedence op1 \<Longrightarrow> get_precedence op < get_precedence op1 \<Longrightarrow>
     combine (Bin op1 l1 l2) op r = Bin op1 l1 (combine l2 op r)"
  by (subst combine.simps) simp

lemma ast_prec_pos: "0 < ast_prec e \<Longrightarrow> \<exists>op l r. e = Bin op l r"
  by (cases e) auto

lemma combine_ok:
  "binop op \<Longrightarrow> size l + size r \<le> n \<Longrightarrow>
     ast_toks (combine l op r) = ast_toks l @ mk_token op [] # ast_toks r \<and>
     (ast_wf l \<longrightarrow> ast_wf r \<longrightarrow>
       ast_wf (combine l op r) \<and>
       ast_prec (combine l op r) = max (get_precedence op) (max (ast_prec l) (ast_prec r)))"
proof (induction n arbitrary: l r)
  case 0
  then show ?case by (cases l; cases r) (simp_all add: combine_here binop_facts(4))
next
  case (Suc n)
  have pos: "0 < get_precedence op" using Suc.prems(1) by (rule binop_facts(4))
  consider
    (right) "get_precedence op \<le> ast_prec r" "ast_prec l \<le> ast_prec r"
  | (here) "ast_prec r < get_precedence op" "ast_prec l \<le> get_precedence op"
  | (left) "ast_prec r < ast_prec l" "get_precedence op < ast_prec l"
    by linarith
  then show ?case
  proof cases
    case right
    then obtain o2 r1 r2 where r: "r = Bin o2 r1 r2" using ast_prec_pos [of r] pos by auto
    then show ?thesis using right Suc.IH [of l r1] Suc.prems by (auto simp: combine_right)
  next
    case here
    then show ?thesis using Suc.prems by (auto simp: combine_here)
  next
    case left
    then obtain o1 l1 l2 where l: "l = Bin o1 l1 l2" using ast_prec_pos [of l] by auto
    then show ?thesis using left Suc.IH [of l2 r] Suc.prems by (auto simp: combine_left)
  qed
qed

lemma combine_toks: "binop op \<Longrightarrow> ast_toks (combine l op r) = ast_toks l @ mk_token op [] # ast_toks r"
  using combine_ok [OF _ order_refl] by blast

lemma combine_wf: "binop op \<Longrightarrow> ast_wf l \<Longrightarrow> ast_wf r \<Longrightarrow> ast_wf (combine l op r)"
  using combine_ok [OF _ order_refl] by blast

fun gparse :: "gtree \<Rightarrow> ast" where
  "gparse (GNum n) = Leaf (mk_token TK_NUM (show_nat n))"
| "gparse (GPar g) = Par (gparse g)"
| "gparse (GBin k g h) = combine (gparse g) (op_tk k) (gparse h)"
| "gparse (GSp g) = gparse g"

lemma binop_op_tk: "k < 4 \<Longrightarrow> binop (op_tk k)"
  by (erule op_cases) (simp_all add: binop_def)

lemma gparse_toks: "gwf g \<Longrightarrow> ast_toks (gparse g) = gtoks g"
  by (induction g) (simp_all add: combine_toks binop_op_tk)

lemma gparse_wf: "gwf g \<Longrightarrow> ast_wf (gparse g)"
  by (induction g) (auto simp: combine_wf binop_op_tk token_is_vaild_op_def less_tk_def)

section \<open>Values\<close>

lemma digit_val_digit:
  assumes "n < 10"
  shows "digit_val (char_of (48 + n :: nat)) = Some n" "\<not> is_space (char_of (48 + n))"
    "char_of (48 + n) \<noteq> CHR ''-''" "char_of (48 + n) \<noteq> CHR ''+''"
proof -
  show d: "digit_val (char_of (48 + n :: nat)) = Some n" "\<not> is_space (char_of (48 + n))"
    using assms by (simp_all add: digit_val_def is_space_def)
  have "digit_val (CHR ''-'') = None" "digit_val (CHR ''+'') = None" by (simp_all add: digit_val_def)
  then show "char_of (48 + n) \<noteq> CHR ''-''" "char_of (48 + n) \<noteq> CHR ''+''" using d(1) by fastforce+
qed

lemma strtol_digits_show:
  "n < 10 \<Longrightarrow> strtol_digits 10 (s @ [char_of (48 + n)]) a =
     (if \<forall>ch\<in>set s. is_digit ch then strtol_digits 10 s a * 10 + int n
      else strtol_digits 10 (s @ [char_of (48 + n)]) a)"
proof (induction s arbitrary: a)
  case Nil
  then show ?case by (simp add: digit_val_digit)
next
  case (Cons x s)
  have "is_digit x \<Longrightarrow> \<exists>d<10. digit_val x = Some d"
    by (auto simp: is_digit_def digit_val_def)
  with Cons show ?case by (auto split: option.splits)
qed

lemma strtol_digits_show_nat: "strtol_digits 10 (show_nat n) 0 = int n"
proof (induction n rule: show_nat.induct)
  case (1 n)
  show ?case
  proof (cases "n < 10")
    case True
    then show ?thesis by (simp add: show_nat.simps [of n] digit_val_digit)
  next
    case False
    have "strtol_digits 10 (show_nat (n div 10) @ [char_of (48 + n mod 10)]) 0 = int (n div 10) * 10 + int (n mod 10)"
      using strtol_digits_show [of "n mod 10" "show_nat (n div 10)" 0] show_nat_digits [of "n div 10"] 1 False by simp
    also have "\<dots> = int (n div 10 * 10 + n mod 10)" by (simp only: of_nat_add of_nat_mult of_nat_numeral)
    finally show ?thesis using False by (simp only: show_nat.simps [of n] if_False div_mult_mod_eq)
  qed
qed

lemma show_nat_hd: "\<exists>d<10. \<exists>s. show_nat n = char_of (48 + d :: nat) # s"
proof (induction n rule: show_nat.induct)
  case (1 n)
  then show ?case by (cases "n < 10") (force simp: show_nat.simps [of n])+
qed

lemma strtol_show_nat: "int n < 2 ^ 63 \<Longrightarrow> strtol 10 (show_nat n) = int n"
proof -
  assume n: "int n < 2 ^ 63"
  obtain d s where d: "d < 10" "show_nat n = char_of (48 + d :: nat) # s" using show_nat_hd [of n] by auto
  have "skip_0x 10 (show_nat n) = show_nat n" by (auto simp: skip_0x_def split: list.splits)
  moreover have "dropWhile is_space (show_nat n) = show_nat n" using d by (simp add: digit_val_digit)
  ultimately have "strtol 10 (show_nat n) = clamp_long (strtol_digits 10 (show_nat n) 0)"
    using d digit_val_digit [of d] by (simp add: strtol_def del: strtol_digits.simps)
  then show ?thesis using n by (simp add: strtol_digits_show_nat clamp_long_def)
qed

lemma eval_leaf_num: "n < 1000 \<Longrightarrow> eval_leaf c mem (mk_token TK_NUM (show_nat n)) = Inr (of_nat n)"
  using show_nat_length [of n] by (simp add: eval_leaf_def strtol_show_nat)

lemma gtoks_nums:
  "gwf g \<Longrightarrow> t \<in> set (gtoks g) \<Longrightarrow> tok_type t = TK_NUM \<Longrightarrow> \<exists>n<1000. t = mk_token TK_NUM (show_nat n)"
proof (induction g)
  case (GBin k g h)
  then show ?case by (auto elim!: op_cases)
qed auto

lemma expr_gtree:
  assumes "gwf g" "length (gtext g) \<le> 63716"
  shows "expr c mem (gtext g) = bindE (ast_val c mem (gparse g)) (\<lambda>v. Inr (Some v))"
  using make_token_gtree [OF assms] eval_ast [OF gparse_wf [OF assms(1)], of c mem "[]" "[]"]
  by (simp add: expr_def gparse_toks [OF assms(1)])

text \<open>
  Every text the generator produces (of at most 63716 characters, the most tokens \<open>make_token\<close>
  has room for) is tokenized into the tokens of a precedence-correct expression tree whose leaves
  are the generated numbers, and \<open>expr\<close> returns the 32-bit value of that tree.
\<close>

theorem gen_rand_expr_evaluates:
  assumes "gen_rand_expr fuel rnd (k, []) = Some (True, (k', buf))" and "length buf \<le> 63716"
  shows "\<exists>e. ast_wf e \<and> make_token buf = Inr (Some (ast_toks e)) \<and>
    (\<forall>t\<in>set (ast_toks e). tok_type t = TK_NUM \<longrightarrow>
       (\<exists>n<1000. t = mk_token TK_NUM (show_nat n) \<and> eval_leaf c mem t = Inr (of_nat n))) \<and>
    expr c mem buf = bindE (ast_val c mem e) (\<lambda>v. Inr (Some v))"
proof -
  obtain g where g: "gwf g" "buf = gtext g" using gen_rand_expr_tree [OF assms(1)] by auto
  show ?thesis
    using g assms(2) gparse_wf gparse_toks make_token_gtree expr_gtree gtoks_nums eval_leaf_num
    by (intro exI [of _ "gparse g"]) metis
qed

text \<open>The random sequence 2, 1, 2, 0, 5, 0, 0, 7, 2, 0, 3 generates (5+7)*3.\<close>

definition sample_rnd :: "nat \<Rightarrow> nat" where
  "sample_rnd k = [2, 1, 2, 0, 5, 0, 0, 7, 2, 0, 3] ! k"

lemma sample_nums: "show_nat 5 = ''5''" "show_nat 7 = ''7''" "show_nat 3 = ''3''"
  by code_simp+

lemma sample_text: "gen_rand_expr (Suc (Suc (Suc (Suc 0)))) sample_rnd (0, []) = Some (True, (11, ''(5U+7U)*3U''))"
  by (simp add: sample_rnd_def choose_rand_def gen_def gen_num_def gen_rand_op_def gen_then_def MAX_INDEX_def
      op_char_def sample_nums)

theorem gen_rand_expr_evaluates_witness:
  "\<exists>e. ast_wf e \<and> make_token ''(5U+7U)*3U'' = Inr (Some (ast_toks e)) \<and>
    expr undefined (\<lambda>_. 0) ''(5U+7U)*3U'' = bindE (ast_val undefined (\<lambda>_. 0) e) (\<lambda>v. Inr (Some v))"
  using gen_rand_expr_evaluates [OF sample_text, of undefined "\<lambda>_. 0"] by auto

end
