(* ===== verification/Expr_Test.thy ===== *)
theory Expr_Test
  imports Gen_Expr
begin

text \<open>
  The test of the evaluator: the main loop of \<open>tools/gen-expr/gen-expr.c\<close>, which has the C compiler evaluate
  each random expression and writes a file of results and expressions, and \<open>test_expr\<close> of
  \<open>monitor/debug/expr.c\<close>, which reads the file and compares. The compiler is a parameter with the law that
  it follows the C grammar on unsigned constants; the grammar is written down independently of the evaluator.
  Proved: \<open>test_expr\<close> accepts every file the main loop writes, as long as no line is longer than the tokenizer has room for.
\<close>

section \<open>C constant expressions\<close>

datatype ctok = CNum nat | CPlus | CMinus | CTimes | CSlash | COpen | CClose

text \<open>
  The tokens of a text of decimal constants with suffix \<open>U\<close> that fit into 32 bits, operators, brackets and
  blanks; no other text is in the subset. The argument is the constant read so far.
\<close>

fun c_lex :: "nat option \<Rightarrow> string \<Rightarrow> ctok list option" where
  "c_lex None [] = Some []"
| "c_lex (Some n) [] = None"
| "c_lex (Some n) (x # xs) =
     (if x = CHR ''U'' then if n < 2 ^ 32 then map_option ((#) (CNum n)) (c_lex None xs) else None
      else if is_digit x \<and> n \<noteq> 0 then c_lex (Some (n * 10 + (of_char x - 48))) xs
      else None)"
| "c_lex None (x # xs) =
     (if is_digit x then c_lex (Some (of_char x - 48)) xs
      else if x = CHR '' '' then c_lex None xs
      else if x = CHR ''+'' then map_option ((#) CPlus) (c_lex None xs)
      else if x = CHR ''-'' then map_option ((#) CMinus) (c_lex None xs)
      else if x = CHR ''*'' then map_option ((#) CTimes) (c_lex None xs)
      else if x = CHR ''/'' then map_option ((#) CSlash) (c_lex None xs)
      else if x = CHR ''('' then map_option ((#) COpen) (c_lex None xs)
      else if x = CHR '')'' then map_option ((#) CClose) (c_lex None xs)
      else None)"

text \<open>Values are 32-bit unsigned; \<open>None\<close> is an expression that divides by zero.\<close>

definition c_arith :: "(u32 \<Rightarrow> u32 \<Rightarrow> u32) \<Rightarrow> u32 option \<Rightarrow> u32 option \<Rightarrow> u32 option" where
  "c_arith f a b = Option.bind a (\<lambda>a. Option.bind b (\<lambda>b. Some (f a b)))"

definition c_divide :: "u32 option \<Rightarrow> u32 option \<Rightarrow> u32 option" where
  "c_divide a b = Option.bind a (\<lambda>a. Option.bind b (\<lambda>b. if b = 0 then None else Some (a div b)))"

text \<open>The productions of the C standard for primary, multiplicative and additive expressions.\<close>

inductive c_prim :: "ctok list \<Rightarrow> u32 option \<Rightarrow> bool"
  and c_mul :: "ctok list \<Rightarrow> u32 option \<Rightarrow> bool"
  and c_add :: "ctok list \<Rightarrow> u32 option \<Rightarrow> bool" where
  num: "n < 2 ^ 32 \<Longrightarrow> c_prim [CNum n] (Some (of_nat n))"
| bracket: "c_add ts v \<Longrightarrow> c_prim (COpen # ts @ [CClose]) v"
| prim: "c_prim ts v \<Longrightarrow> c_mul ts v"
| times: "c_mul ts v \<Longrightarrow> c_prim us w \<Longrightarrow> c_mul (ts @ CTimes # us) (c_arith (*) v w)"
| slash: "c_mul ts v \<Longrightarrow> c_prim us w \<Longrightarrow> c_mul (ts @ CSlash # us) (c_divide v w)"
| mul: "c_mul ts v \<Longrightarrow> c_add ts v"
| plus: "c_add ts v \<Longrightarrow> c_mul us w \<Longrightarrow> c_add (ts @ CPlus # us) (c_arith (+) v w)"
| minus: "c_add ts v \<Longrightarrow> c_mul us w \<Longrightarrow> c_add (ts @ CMinus # us) (c_arith (-) v w)"

section \<open>The evaluator follows the grammar\<close>

fun tk_of :: "ctok \<Rightarrow> token" where
  "tk_of (CNum n) = mk_token TK_NUM (show_nat n)"
| "tk_of CPlus = mk_token TK_PLUS []"
| "tk_of CMinus = mk_token TK_SUB []"
| "tk_of CTimes = mk_token TK_MUX []"
| "tk_of CSlash = mk_token TK_DIV []"
| "tk_of COpen = tok_lb"
| "tk_of CClose = tok_rb"

text \<open>A division by zero ends the emulator in an assertion.\<close>

definition c_res :: "u32 option \<Rightarrow> u32 res" where
  "c_res v = (case v of None \<Rightarrow> Inl Assert_fail | Some x \<Rightarrow> Inr x)"

lemma c_res_simps [simp]: "c_res None = Inl Assert_fail" "c_res (Some x) = Inr x"
  by (simp_all add: c_res_def)

lemma c_res_arith:
  "bindE (c_res a) (\<lambda>x. bindE (c_res b) (apply_op TK_PLUS x)) = c_res (c_arith (+) a b)"
  "bindE (c_res a) (\<lambda>x. bindE (c_res b) (apply_op TK_SUB x)) = c_res (c_arith (-) a b)"
  "bindE (c_res a) (\<lambda>x. bindE (c_res b) (apply_op TK_MUX x)) = c_res (c_arith (*) a b)"
  "bindE (c_res a) (\<lambda>x. bindE (c_res b) (apply_op TK_DIV x)) = c_res (c_divide a b)"
  by (cases a; cases b; simp add: c_arith_def c_divide_def)+

lemma c_precs: "get_precedence TK_MUX = 3" "get_precedence TK_DIV = 3" "get_precedence TK_PLUS = 4" "get_precedence TK_SUB = 4"
  by (simp_all add: get_precedence_def rules_def mk_rule_def)

lemma show_nat_length_le: "n < 10 ^ Suc k \<Longrightarrow> length (show_nat n) \<le> Suc k"
proof (induction k arbitrary: n)
  case (Suc k)
  then show ?case using Suc.IH [of "n div 10"] by (simp add: show_nat.simps [of n])
qed (simp add: show_nat.simps)

lemma eval_leaf_const: "n < 2 ^ 32 \<Longrightarrow> eval_leaf c mem (mk_token TK_NUM (show_nat n)) = Inr (of_nat n)"
  using show_nat_length_le [of n 9] by (simp add: eval_leaf_def strtol_show_nat)

lemma c_binop: "op \<in> {TK_PLUS, TK_SUB, TK_MUX, TK_DIV} \<Longrightarrow> binop op"
  by (auto simp: binop_def)

lemma grammar_ast:
  "c_prim ts v \<Longrightarrow> \<exists>e. ast_wf e \<and> ast_prec e = 0 \<and> ast_toks e = map tk_of ts \<and> ast_val c mem e = c_res v"
  "c_mul ts v \<Longrightarrow> \<exists>e. ast_wf e \<and> ast_prec e \<le> 3 \<and> ast_toks e = map tk_of ts \<and> ast_val c mem e = c_res v"
  "c_add ts v \<Longrightarrow> \<exists>e. ast_wf e \<and> ast_prec e \<le> 4 \<and> ast_toks e = map tk_of ts \<and> ast_val c mem e = c_res v"
proof (induction rule: c_prim_c_mul_c_add.inducts)
  case (num n)
  then show ?case
    by (intro exI [of _ "Leaf (tk_of (CNum n))"]) (simp add: eval_leaf_const token_is_vaild_op_def less_tk_def)
next
  case (bracket ts v)
  then obtain e where "ast_wf e" "ast_toks e = map tk_of ts" "ast_val c mem e = c_res v" by auto
  then show ?case by (intro exI [of _ "Par e"]) simp
next
  case (times ts v us w)
  then obtain e f where "ast_wf e" "ast_prec e \<le> 3" "ast_toks e = map tk_of ts" "ast_val c mem e = c_res v"
    "ast_wf f" "ast_prec f = 0" "ast_toks f = map tk_of us" "ast_val c mem f = c_res w" by auto
  then show ?case
    by (intro exI [of _ "Bin TK_MUX e f"]) (simp add: c_precs c_binop c_res_arith)
next
  case (slash ts v us w)
  then obtain e f where "ast_wf e" "ast_prec e \<le> 3" "ast_toks e = map tk_of ts" "ast_val c mem e = c_res v"
    "ast_wf f" "ast_prec f = 0" "ast_toks f = map tk_of us" "ast_val c mem f = c_res w" by auto
  then show ?case
    by (intro exI [of _ "Bin TK_DIV e f"]) (simp add: c_precs c_binop c_res_arith)
next
  case (plus ts v us w)
  then obtain e f where "ast_wf e" "ast_prec e \<le> 4" "ast_toks e = map tk_of ts" "ast_val c mem e = c_res v"
    "ast_wf f" "ast_prec f \<le> 3" "ast_toks f = map tk_of us" "ast_val c mem f = c_res w" by auto
  then show ?case
    by (intro exI [of _ "Bin TK_PLUS e f"]) (simp add: c_precs c_binop c_res_arith)
next
  case (minus ts v us w)
  then obtain e f where "ast_wf e" "ast_prec e \<le> 4" "ast_toks e = map tk_of ts" "ast_val c mem e = c_res v"
    "ast_wf f" "ast_prec f \<le> 3" "ast_toks f = map tk_of us" "ast_val c mem f = c_res w" by auto
  then show ?case
    by (intro exI [of _ "Bin TK_SUB e f"]) (simp add: c_precs c_binop c_res_arith)
qed (auto intro: le_SucI)

lemma c_add_eval:
  assumes "c_add ts v"
  shows "eval c mem (map tk_of ts) 0 (int (length ts) - 1) = c_res v"
proof -
  obtain e where e: "ast_wf e" "ast_toks e = map tk_of ts" "ast_val c mem e = c_res v"
    using grammar_ast(3) [OF assms] by blast
  show ?thesis using eval_ast [OF e(1), of c mem "[]" "[]"] e(2,3) by simp
qed

lemma c_res_inj: "c_res v = c_res w \<Longrightarrow> v = w"
  by (cases v; cases w) simp_all

lemma c_add_unique: "c_add ts v \<Longrightarrow> c_add ts w \<Longrightarrow> v = w"
  using c_add_eval [of ts v undefined undefined] c_add_eval [of ts w undefined undefined] by (auto intro: c_res_inj)

text \<open>The other direction: the tokens of a tree of the evaluator derive in the grammar.\<close>

lemma tk_of_op:
  assumes "tk_of x = mk_token op []" "binop op"
  shows "(op, x) \<in> {(TK_PLUS, CPlus), (TK_SUB, CMinus), (TK_MUX, CTimes), (TK_DIV, CSlash)}"
  using assms show_nat_nonempty by (cases x) (auto simp: mk_token_def binop_def)

lemma tk_of_bracket: "tk_of x = tok_lb \<longleftrightarrow> x = COpen" "tok_lb = tk_of x \<longleftrightarrow> x = COpen"
  "tk_of x = tok_rb \<longleftrightarrow> x = CClose" "tok_rb = tk_of x \<longleftrightarrow> x = CClose"
  by (cases x; auto simp: mk_token_def)+

definition c_consts :: "ctok list \<Rightarrow> bool" where
  "c_consts ts \<longleftrightarrow> (\<forall>n. CNum n \<in> set ts \<longrightarrow> n < 2 ^ 32)"

lemma ast_prec_small: "ast_wf e \<Longrightarrow> ast_prec e < 3 \<Longrightarrow> ast_prec e = 0"
  by (cases e) (auto simp: binop_def c_precs get_precedence_def rules_def mk_rule_def)

lemma ast_grammar:
  "ast_wf e \<Longrightarrow> ast_toks e = map tk_of ts \<Longrightarrow> c_consts ts \<Longrightarrow>
     \<exists>v. c_add ts v \<and> (ast_prec e \<le> 3 \<longrightarrow> c_mul ts v) \<and> (ast_prec e = 0 \<longrightarrow> c_prim ts v)"
proof (induction e arbitrary: ts)
  case (Leaf t)
  then obtain x where x: "ts = [x]" "t = tk_of x" by auto
  then obtain n where "x = CNum n" using Leaf.prems(1) by (cases x) (auto simp: token_is_vaild_op_def less_tk_def)
  then show ?case using x Leaf.prems(3) by (auto simp: c_consts_def intro!: exI c_prim_c_mul_c_add.intros)
next
  case (Par e)
  then obtain us where us: "ts = COpen # us @ [CClose]" "ast_toks e = map tk_of us"
    by (auto simp: Cons_eq_map_conv append_eq_map_conv tk_of_bracket)
  then obtain v where "c_add us v" using Par by (auto simp: c_consts_def)
  then have "c_prim ts v" by (simp add: us bracket)
  then show ?case by (blast intro: prim mul)
next
  case (Bin op l r)
  then obtain us x ws where ts: "ts = us @ x # ws" "ast_toks l = map tk_of us" "tk_of x = mk_token op []" "ast_toks r = map tk_of ws"
    by (fastforce simp: Cons_eq_map_conv append_eq_map_conv)
  have op: "(op, x) \<in> {(TK_PLUS, CPlus), (TK_SUB, CMinus), (TK_MUX, CTimes), (TK_DIV, CSlash)}"
    using tk_of_op [OF ts(3)] Bin.prems(1) by simp
  have c: "c_consts us" "c_consts ws" using Bin.prems(3) by (auto simp: c_consts_def ts)
  obtain v where v: "c_add us v" "ast_prec l \<le> 3 \<longrightarrow> c_mul us v"
    using Bin.IH(1) [OF _ ts(2) c(1)] Bin.prems(1) by (metis ast_wf.simps(3))
  obtain w where w: "ast_prec r \<le> 3 \<longrightarrow> c_mul ws w" "ast_prec r = 0 \<longrightarrow> c_prim ws w"
    using Bin.IH(2) [OF _ ts(4) c(2)] Bin.prems(1) by (metis ast_wf.simps(3))
  show ?case
  proof (cases "op \<in> {TK_PLUS, TK_SUB}")
    case True
    then have "c_mul ws w" using w(1) Bin.prems(1) by (auto simp: c_precs)
    then show ?thesis using True op v(1) plus minus unfolding ts(1) by (fastforce simp: c_precs)
  next
    case False
    then have m: "op \<in> {TK_MUX, TK_DIV}" using op by auto
    then have "c_mul us v" using v(2) Bin.prems(1) by (auto simp: c_precs)
    moreover have "c_prim ws w" using w(2) ast_prec_small [of r] m Bin.prems(1) by (auto simp: c_precs)
    ultimately have "\<exists>v. c_mul ts v" using m op times slash unfolding ts(1) by fastforce
    then show ?thesis using m by (auto simp: c_precs intro: mul)
  qed
qed

section \<open>Generated texts in the grammar\<close>

fun gct :: "gtree \<Rightarrow> ctok list" where
  "gct (GNum n) = [CNum n]"
| "gct (GPar g) = COpen # gct g @ [CClose]"
| "gct (GBin k g h) = gct g @ [CPlus, CMinus, CTimes, CSlash] ! k # gct h"
| "gct (GSp g) = gct g"

lemma less_4: "k < 4 \<Longrightarrow> k = 0 \<or> k = 1 \<or> k = 2 \<or> k = (3 :: nat)"
  by auto

lemma gct_toks: "gwf g \<Longrightarrow> map tk_of (gct g) = gtoks g"
  by (induction g) (auto simp: op_tk_def dest!: less_4)

lemma gct_consts: "gwf g \<Longrightarrow> c_consts (gct g)"
  by (induction g) (auto simp: c_consts_def dest!: less_4)

lemma c_lex_digit:
  assumes "d < 10"
  shows "c_lex None (char_of (48 + d :: nat) # s) = c_lex (Some d) s"
    "0 < n \<Longrightarrow> c_lex (Some n) (char_of (48 + d :: nat) # s) = c_lex (Some (n * 10 + d)) s"
proof -
  have "char_of (48 + d :: nat) \<noteq> CHR ''U''" using assms is_digit_digit [OF assms] by (auto simp: is_digit_def)
  then show "c_lex None (char_of (48 + d :: nat) # s) = c_lex (Some d) s"
    "0 < n \<Longrightarrow> c_lex (Some n) (char_of (48 + d :: nat) # s) = c_lex (Some (n * 10 + d)) s"
    using assms is_digit_digit [OF assms] by simp_all
qed

lemma c_lex_show_nat: "c_lex None (show_nat n @ s) = c_lex (Some n) s"
proof (induction n arbitrary: s rule: show_nat.induct)
  case (1 n)
  then show ?case
    by (cases "n < 10") (simp_all add: show_nat.simps [of n] c_lex_digit del: c_lex.simps)
qed

lemma c_lex_gtext: "gwf g \<Longrightarrow> c_lex None (gtext g @ s) = map_option ((@) (gct g)) (c_lex None s)"
proof (induction g arbitrary: s)
  case (GNum n)
  then show ?case by (simp add: c_lex_show_nat)
next
  case (GBin k g h)
  then show ?case using less_4 [of k]
    by (cases "c_lex None s") (auto simp: op_char_def is_digit_def)
next
  case (GPar g)
  then show ?case by (cases "c_lex None s") (simp_all add: is_digit_def)
qed (simp add: is_digit_def)

lemma gen_text_value:
  assumes "gen_rand_expr fuel rnd (k, []) = Some (True, (k', buf))"
  obtains g v where "gwf g" "buf = gtext g" "c_lex None buf = Some (gct g)" "c_add (gct g) v"
proof -
  obtain g where g: "gwf g" "buf = gtext g" using gen_rand_expr_tree [OF assms] by auto
  moreover have "c_lex None (gtext g) = Some (gct g)" using c_lex_gtext [OF g(1), of "[]"] by simp
  moreover obtain v where "c_add (gct g) v"
    using ast_grammar [OF gparse_wf [OF g(1)], of "gct g"] gct_toks [OF g(1)] gct_consts [OF g(1)] gparse_toks [OF g(1)] by auto
  ultimately show thesis using that by blast
qed

text \<open>\<open>expr\<close> computes the value C gives to a generated text.\<close>

lemma expr_c_value:
  assumes "gwf g" "length (gtext g) \<le> 63716" "c_add (gct g) v"
  shows "expr c mem (gtext g) = bindE (c_res v) (\<lambda>x. Inr (Some x))"
  using make_token_gtree [OF assms(1,2)] c_add_eval [OF assms(3), of c mem]
  by (simp add: expr_def gct_toks [OF assms(1), symmetric])

section \<open>The main loop of the generator\<close>

text \<open>The program text around an expression; 0x0A is a line feed, 0x22 a quotation mark.\<close>

definition code_format :: "string \<Rightarrow> string" where
  "code_format e = ''#include <stdio.h>'' @ [CHR 0x0A] @ ''int main() {   unsigned result = '' @ e @
     '';   printf('' @ [CHR 0x22] @ ''%u'' @ [CHR 0x22] @ '', result);   return 0; }''"

text \<open>The \<open>while\<close> loop that tries until \<open>gen_rand_expr\<close> succeeds.\<close>

partial_function (option) gen_retry :: "nat \<Rightarrow> (nat \<Rightarrow> nat) \<Rightarrow> nat \<Rightarrow> (nat \<times> string) option" where
  "gen_retry fuel rnd k =
     (case gen_rand_expr fuel rnd (k, []) of
        None \<Rightarrow> None
      | Some (ok, (k, buf)) \<Rightarrow> if ok then Some (k, buf) else gen_retry fuel rnd k)"

lemma gen_retry_text:
  assumes "gen_retry fuel rnd k = Some y"
  shows "\<exists>j. gen_rand_expr fuel rnd (j, []) = Some (True, y)"
  by (rule gen_retry.raw_induct [of "\<lambda>fuel rnd k y. \<exists>j. gen_rand_expr fuel rnd (j, []) = Some (True, y)", OF _ assms])
    (auto split: option.splits if_splits)

text \<open>
  The lines printed. The compiler \<open>cc\<close> refuses a program or yields the output of running it; when \<open>fscanf\<close> finds
  no number in it, the uninitialised \<open>result\<close> is printed.
\<close>

fun gen_loop :: "nat \<Rightarrow> (string \<Rightarrow> string option) \<Rightarrow> (nat \<Rightarrow> nat) \<Rightarrow> nat \<Rightarrow> nat \<Rightarrow> string list res option" where
  "gen_loop fuel cc rnd 0 k = Some (Inr [])"
| "gen_loop fuel cc rnd (Suc loop) k =
     (case gen_retry fuel rnd k of
        None \<Rightarrow> None
      | Some (k, buf) \<Rightarrow>
          (case cc (code_format buf) of
             None \<Rightarrow> gen_loop fuel cc rnd loop k
           | Some out \<Rightarrow>
               (case scan_int out of
                  None \<Rightarrow> Some (Inl Uninit)
                | Some result \<Rightarrow>
                    map_option (\<lambda>r. bindE r (\<lambda>ls. Inr ((show_nat (unat result) @ '' '' @ buf @ [CHR 0x0A]) # ls)))
                      (gen_loop fuel cc rnd loop k))))"

definition gen_main :: "nat \<Rightarrow> (string \<Rightarrow> string option) \<Rightarrow> (nat \<Rightarrow> nat) \<Rightarrow> string option \<Rightarrow> string list res option" where
  "gen_main fuel cc rnd argv1 =
     (let loop = (case argv1 of None \<Rightarrow> 1 | Some s \<Rightarrow> (case scan_int s of None \<Rightarrow> 1 | Some n \<Rightarrow> sint n))
      in gen_loop fuel cc rnd (nat loop) 0)"

section \<open>The test\<close>

text \<open>\<open>getline\<close>: the line with its line feed, and the rest of the file.\<close>

definition getline :: "string \<Rightarrow> string \<times> string" where
  "getline s =
     (let l = takeWhile ((\<noteq>) (CHR 0x0A)) s
      in case drop (length l) s of [] \<Rightarrow> (l, []) | x # r \<Rightarrow> (l @ [x], r))"

definition split_expr_rst :: "string \<Rightarrow> (string \<times> string) option" where
  "split_expr_rst buf =
     (case strtok ((=) (CHR '' '')) buf of
        (None, _) \<Rightarrow> None
      | (Some result, rest) \<Rightarrow>
          (case strtok ((=) (CHR 0x0A)) rest of
             (None, _) \<Rightarrow> None
           | (Some e, _) \<Rightarrow> Some (e, result)))"

lemma getline_rest: "s \<noteq> [] \<Longrightarrow> length (snd (getline s)) < length s"
proof -
  assume "s \<noteq> []"
  have "snd (getline s) = drop (Suc (length (takeWhile ((\<noteq>) (CHR 0x0A)) s))) s"
    by (simp add: getline_def Let_def drop_Suc tl_drop split: list.splits) (metis drop_Suc drop_eq_Nil2 list.sel(3) nat_le_linear not_less_eq_eq tl_drop)
  then show ?thesis using \<open>s \<noteq> []\<close> by simp
qed

lemma getline_less: "s \<noteq> [] \<Longrightarrow> p = getline s \<Longrightarrow> (l, r) = p \<Longrightarrow> length r < length s"
  using getline_rest [of s] by (metis snd_conv)

function test_lines :: "x86_CPU_state \<Rightarrow> byte_array \<Rightarrow> string \<Rightarrow> bool res" where
  "test_lines c mem input =
     (if input = [] then Inr True
      else let (line, rest) = getline input in
        case split_expr_rst (takeWhile ((\<noteq>) (CHR 0x00)) line) of
          None \<Rightarrow> Inr False
        | Some (expr_s, rst_s) \<Rightarrow>
            bindE (expr c mem expr_s) (\<lambda>r.
              (case r of
                 None \<Rightarrow> Inr False
               | Some cal_rst \<Rightarrow>
                   if cal_rst \<noteq> word_of_int (strtol 10 rst_s) then Inr False else test_lines c mem rest)))"
  by pat_completeness auto
termination
  by (relation "measure (\<lambda>(c, mem, input). length input)") (simp_all add: getline_less)

declare test_lines.simps [simp del]

text \<open>\<open>home\<close> is the value of \<open>NEMU_HOME\<close>, \<open>files\<close> the files that can be opened; the path has 200 bytes.\<close>

definition test_expr :: "x86_CPU_state \<Rightarrow> byte_array \<Rightarrow> string option \<Rightarrow> (string \<Rightarrow> string option) \<Rightarrow> bool res" where
  "test_expr c mem home files =
     (case home of
        None \<Rightarrow> Inr False
      | Some temp \<Rightarrow>
          let input_path = temp @ ''/tools/gen-expr/input'' in
          if length input_path \<ge> 200 then Inl Out_of_bounds
          else (case files input_path of None \<Rightarrow> Inr False | Some input \<Rightarrow> test_lines c mem input))"

section \<open>Lines read back\<close>

lemma scan_show_nat: "scan_int (show_nat (unat (x :: u32))) = Some x"
proof -
  obtain d s where d: "d < 10" "show_nat (unat x) = char_of (48 + d :: nat) # s" using show_nat_hd by blast
  have "int (unat x) < 2 ^ 63" using unsigned_less [of x, where 'a = int] by simp
  then have "word_of_int (strtol 10 (show_nat (unat x))) = x" by (simp add: strtol_show_nat)
  then show ?thesis using d by (simp add: scan_int_def digit_val_digit is_digit_digit)
qed

lemma digit_no_blank: "is_digit x \<Longrightarrow> x \<noteq> CHR 0x0A \<and> x \<noteq> CHR 0x00 \<and> x \<noteq> CHR '' ''"
  by (auto simp: is_digit_def)

lemma show_nat_chars: "x \<in> set (show_nat n) \<Longrightarrow> x \<noteq> CHR 0x0A \<and> x \<noteq> CHR 0x00 \<and> x \<noteq> CHR '' ''"
  using show_nat_digits digit_no_blank by blast

lemma gtext_chars: "gwf g \<Longrightarrow> x \<in> set (gtext g) \<Longrightarrow> x \<noteq> CHR 0x0A \<and> x \<noteq> CHR 0x00"
proof (induction g)
  case (GNum n)
  then show ?case using show_nat_chars [of x n] by (cases "x \<in> set (show_nat n)") simp_all
next
  case (GBin k g h)
  then show ?case using less_4 [of k] by (auto simp: op_char_def)
qed auto

lemma gtext_nonempty: "gtext g \<noteq> []"
  by (cases g) auto

text \<open>A line is split into the result and the expression, except that blanks in front of the expression are kept.\<close>

lemma read_line:
  assumes "gwf g" "l = show_nat n @ '' '' @ gtext g @ [CHR 0x0A]"
  shows "getline (l @ rest) = (l, rest)" "split_expr_rst (takeWhile ((\<noteq>) (CHR 0x00)) l) = Some (gtext g, show_nat n)"
proof -
  have 1: "\<forall>x\<in>set (show_nat n @ '' '' @ gtext g). CHR 0x0A \<noteq> x"
    using show_nat_chars gtext_chars [OF assms(1)] by fastforce
  have l: "l = (show_nat n @ '' '' @ gtext g) @ [CHR 0x0A]" by (simp add: assms(2))
  show "getline (l @ rest) = (l, rest)"
    unfolding l getline_def Let_def append_assoc using 1 by (subst (1 2) takeWhile_append2) auto
  have 2: "takeWhile ((\<noteq>) (CHR 0x00)) l = l"
    using show_nat_chars gtext_chars [OF assms(1)] unfolding l by (fastforce simp: takeWhile_eq_all_conv)
  have "strtok ((=) (CHR '' '')) l = (Some (show_nat n), gtext g @ [CHR 0x0A])"
    using strtok_token [of "show_nat n" "CHR '' ''"] show_nat_nonempty show_nat_chars by (auto simp: assms(2))
  moreover have "strtok ((=) (CHR 0x0A)) (gtext g @ [CHR 0x0A]) = (Some (gtext g), [])"
    using strtok_token [of "gtext g" "CHR 0x0A" "[]"] gtext_nonempty gtext_chars [OF assms(1)] by auto
  ultimately show "split_expr_rst (takeWhile ((\<noteq>) (CHR 0x00)) l) = Some (gtext g, show_nat n)"
    unfolding 2 by (simp add: split_expr_rst_def)
qed

section \<open>The compiler\<close>

text \<open>
  The law of the compiler, called with \<open>-Werror=div-by-zero\<close>: on an expression of the grammar the program prints its value in
  decimal, and an expression that divides by zero is refused.
\<close>

locale c_compiler =
  fixes cc :: "string \<Rightarrow> string option"
  assumes compiles: "c_lex None e = Some ts \<Longrightarrow> c_add ts v \<Longrightarrow> cc (code_format e) = map_option (\<lambda>x. show_nat (unat x)) v"
begin

text \<open>A line the main loop prints, read back.\<close>

lemma gen_loop_lines:
  "gen_loop fuel cc rnd loop k = Some r \<Longrightarrow>
     \<exists>ls. r = Inr ls \<and> (\<forall>l\<in>set ls. \<exists>g x. gwf g \<and> l = show_nat (unat x) @ '' '' @ gtext g @ [CHR 0x0A] \<and> c_add (gct g) (Some x))"
proof (induction loop arbitrary: k r)
  case (Suc loop)
  then obtain k' buf where b: "gen_retry fuel rnd k = Some (k', buf)" by (auto split: option.splits)
  then obtain j where "gen_rand_expr fuel rnd (j, []) = Some (True, (k', buf))" using gen_retry_text by blast
  then obtain g v where g: "gwf g" "buf = gtext g" "c_lex None buf = Some (gct g)" "c_add (gct g) v"
    by (rule gen_text_value)
  show ?case
  proof (cases v)
    case None
    then have "gen_loop fuel cc rnd loop k' = Some r" using Suc.prems b compiles [OF g(3,4)] by simp
    then show ?thesis by (rule Suc.IH)
  next
    case (Some x)
    then obtain r' where r': "gen_loop fuel cc rnd loop k' = Some r'"
      "r = bindE r' (\<lambda>ls. Inr ((show_nat (unat x) @ '' '' @ buf @ [CHR 0x0A]) # ls))"
      using Suc.prems b compiles [OF g(3,4)] by (auto simp: scan_show_nat)
    obtain ls where "r' = Inr ls" "\<forall>l\<in>set ls. \<exists>g x. gwf g \<and> l = show_nat (unat x) @ '' '' @ gtext g @ [CHR 0x0A] \<and> c_add (gct g) (Some x)"
      using Suc.IH [OF r'(1)] by blast
    then show ?thesis using r'(2) g Some by auto
  qed
qed simp

end

lemma test_lines_pass:
  "\<forall>l\<in>set ls. length l \<le> 63716 \<and> (\<exists>g x. gwf g \<and> l = show_nat (unat x) @ '' '' @ gtext g @ [CHR 0x0A] \<and> c_add (gct g) (Some x)) \<Longrightarrow>
     test_lines c mem (concat ls) = Inr True"
proof (induction ls)
  case (Cons l ls)
  then obtain g x where g: "gwf g" "l = show_nat (unat x) @ '' '' @ gtext g @ [CHR 0x0A]" "c_add (gct g) (Some x)" and
    len: "length (gtext g) \<le> 63716" by auto
  have "int (unat x) < 2 ^ 63" using unsigned_less [of x, where 'a = int] by simp
  then have x: "word_of_int (strtol 10 (show_nat (unat x))) = x" by (simp add: strtol_show_nat)
  note l = read_line [OF g(1,2)]
  have "l \<noteq> []" by (simp add: g(2))
  then have "test_lines c mem (l @ concat ls) = test_lines c mem (concat ls)"
    using expr_c_value [OF g(1) len g(3), of c mem] l x by (simp add: test_lines.simps [of c mem "l @ concat ls"])
  then show ?case using Cons by simp
qed (simp add: test_lines.simps)

section \<open>Property\<close>

text \<open>
  C4. Every file the main loop of the generator writes, with any number of expressions, any random numbers and any compiler
  that follows the C grammar, holds a result on every line, and \<open>test_expr\<close> accepts it when no line is longer
  than the tokenizer has room for.
\<close>

theorem generated_test_passes:
  assumes "c_compiler cc" "gen_main fuel cc rnd argv1 = Some r"
  shows "\<exists>ls. r = Inr ls \<and> ((\<forall>l\<in>set ls. length l \<le> 63716) \<longrightarrow> length home < 179 \<longrightarrow>
    files (home @ ''/tools/gen-expr/input'') = Some (concat ls) \<longrightarrow> test_expr c mem (Some home) files = Inr True)"
proof -
  obtain ls where ls: "r = Inr ls" "\<forall>l\<in>set ls. \<exists>g x. gwf g \<and> l = show_nat (unat x) @ '' '' @ gtext g @ [CHR 0x0A] \<and> c_add (gct g) (Some x)"
    using c_compiler.gen_loop_lines [OF assms(1)] assms(2) by (fastforce simp: gen_main_def Let_def)
  then show ?thesis using test_lines_pass [of ls c mem] by (auto simp: test_expr_def)
qed

text \<open>A compiler that follows the grammar, and the file it yields for the expression of the generator's example.\<close>

definition code_text :: "string \<Rightarrow> string" where
  "code_text s = take (length s - length (code_format [])) (drop 52 s)"

lemma code_text_format: "code_text (code_format e) = e"
  by (simp add: code_text_def code_format_def)

definition sample_cc :: "string \<Rightarrow> string option" where
  "sample_cc s = (case c_lex None (code_text s) of None \<Rightarrow> None | Some ts \<Rightarrow>
     (case eval undefined (\<lambda>_. 0) (map tk_of ts) 0 (int (length ts) - 1) of Inl _ \<Rightarrow> None | Inr x \<Rightarrow> Some (show_nat (unat x))))"

interpretation sample: c_compiler sample_cc
proof
  fix e ts v
  assume "c_lex None e = Some ts" "c_add ts v"
  then show "sample_cc (code_format e) = map_option (\<lambda>x. show_nat (unat x)) v"
    by (cases v) (simp_all add: sample_cc_def code_text_format c_add_eval)
qed

lemma sample_value: "c_lex None ''(5U+7U)*3U'' = Some [COpen, CNum 5, CPlus, CNum 7, CClose, CTimes, CNum 3]"
  "c_add [COpen, CNum 5, CPlus, CNum 7, CClose, CTimes, CNum 3] (Some 36)"
proof -
  show "c_lex None ''(5U+7U)*3U'' = Some [COpen, CNum 5, CPlus, CNum 7, CClose, CTimes, CNum 3]"
    by (simp add: is_digit_def)
  have "c_add ([CNum 5] @ CPlus # [CNum 7]) (c_arith (+) (Some (of_nat 5)) (Some (of_nat 7)))"
    by (intro plus mul prim num) simp_all
  then have "c_prim (COpen # [CNum 5, CPlus, CNum 7] @ [CClose]) (Some 12)" by (intro bracket) (simp add: c_arith_def)
  then have "c_mul ((COpen # [CNum 5, CPlus, CNum 7] @ [CClose]) @ CTimes # [CNum 3]) (c_arith (*) (Some 12) (Some (of_nat 3)))"
    by (intro times prim num) simp_all
  then show "c_add [COpen, CNum 5, CPlus, CNum 7, CClose, CTimes, CNum 3] (Some 36)"
    by (intro mul) (simp add: c_arith_def)
qed

lemma sample_main: "gen_main 4 sample_cc sample_rnd None = Some (Inr [''36 (5U+7U)*3U'' @ [CHR 0x0A]])"
proof -
  have "gen_retry 4 sample_rnd 0 = Some (11, ''(5U+7U)*3U'')"
    using sample_text by (simp add: gen_retry.simps numeral_eq_Suc)
  moreover have "sample_cc (code_format ''(5U+7U)*3U'') = Some (show_nat (unat (36 :: u32)))"
    using sample.compiles [OF sample_value] by simp
  moreover have s: "show_nat 36 = ''36''" by code_simp
  moreover have "scan_int ''36'' = Some (36 :: u32)" using scan_show_nat [of 36] s by simp
  ultimately show ?thesis by (simp add: gen_main_def)
qed

theorem generated_test_passes_witness:
  "test_expr undefined (\<lambda>_. 0) (Some ''/nemu'') (\<lambda>p. if p = ''/nemu/tools/gen-expr/input'' then Some (''36 (5U+7U)*3U'' @ [CHR 0x0A]) else None) = Inr True"
  using generated_test_passes [OF sample.c_compiler_axioms sample_main, of "''/nemu''"
    "\<lambda>p. if p = ''/nemu/tools/gen-expr/input'' then Some (''36 (5U+7U)*3U'' @ [CHR 0x0A]) else None" undefined "\<lambda>_. 0"]
  by simp

end
