(* ===== verification/X86_Decode.thy ===== *)
theory X86_Decode
  imports X86_Reg
begin

text \<open>
  The x86 operand decoder: \<open>isa/x86/decode.c\<close> (ModR/M and SIB bytes) and
  \<open>isa/x86/local-include/decode.h\<close> (operand helpers and the decode helpers of the opcode table).
  The debug strings \<open>op->str\<close> are not modelled.
\<close>

named_theorems decode_defs \<open>definitions of the x86 decode helpers\<close>

abbreviation x_fetch :: "nat \<Rightarrow> x86_ctx \<Rightarrow> (u32 \<times> x86_ctx) res" where
  "x_fetch \<equiv> instr_fetch x86_PMEM_BASE"

definition upd_isa :: "(x86_ISADecodeInfo \<Rightarrow> x86_ISADecodeInfo) \<Rightarrow> x86_ctx \<Rightarrow> x86_ctx" where
  "upd_isa f c = c\<lparr>ds := (ds c)\<lparr>isa := f (isa (ds c))\<rparr>\<rparr>"

definition set_opcode :: "u32 \<Rightarrow> x86_ctx \<Rightarrow> x86_ctx" where
  "set_opcode v c = c\<lparr>ds := (ds c)\<lparr>opcode := Some v\<rparr>\<rparr>"

definition mbase_of :: "x86_ctx \<Rightarrow> rtlptr res" where
  "mbase_of c = optE Null_deref (mbase (isa (ds c)))"

section \<open>Operands (decode.h)\<close>

definition operand_reg :: "opnd \<Rightarrow> bool \<Rightarrow> nat \<Rightarrow> nat \<Rightarrow> x86_ctx \<Rightarrow> x86_ctx res" where
  [decode_defs]: "operand_reg op load_val r width c =
     (let c = upd_op op (\<lambda>q. q\<lparr>op_type := Some OP_TYPE_REG, op_imm := Some (of_nat r)\<rparr>) c in
      if width = 4 then
        bindE (check_reg_index r) (\<lambda>i. Inr (upd_op op (\<lambda>q. q\<lparr>op_preg := Some (Rgpr i)\<rparr>) c))
      else
        bindE (assertE (width = 1 \<or> width = 2)) (\<lambda>_.
          let c = upd_op op (\<lambda>q. q\<lparr>op_preg := Some (Rval op)\<rparr>) c in
          if load_val then rtl_lr (Rval op) r width c else Inr c))"

definition operand_imm :: "opnd \<Rightarrow> bool \<Rightarrow> u32 \<Rightarrow> x86_ctx \<Rightarrow> x86_ctx res" where
  [decode_defs]: "operand_imm op load_val imm c =
     (let c = upd_op op (\<lambda>q. q\<lparr>op_type := Some OP_TYPE_IMM, op_imm := Some imm\<rparr>) c in
      if load_val then
        bindE (rtl_li (Rval op) imm c) (\<lambda>c. Inr (upd_op op (\<lambda>q. q\<lparr>op_preg := Some (Rval op)\<rparr>) c))
      else Inr c)"

definition decode_op_I :: "opnd \<Rightarrow> bool \<Rightarrow> x86_ctx \<Rightarrow> x86_ctx res" where
  [decode_defs]: "decode_op_I op load_val c =
     bindE (width_of op c) (\<lambda>w. bindE (x_fetch w c) (\<lambda>(imm, c). operand_imm op load_val imm c))"

definition decode_op_SI :: "opnd \<Rightarrow> bool \<Rightarrow> x86_ctx \<Rightarrow> x86_ctx res" where
  [decode_defs]: "decode_op_SI op load_val c =
     bindE (width_of op c) (\<lambda>w. bindE (assertE (w = 1 \<or> w = 4)) (\<lambda>_. Inl Todo))"

definition decode_op_a :: "opnd \<Rightarrow> bool \<Rightarrow> x86_ctx \<Rightarrow> x86_ctx res" where
  [decode_defs]: "decode_op_a op load_val c =
     bindE (width_of op c) (\<lambda>w. operand_reg op load_val R_EAX w c)"

definition decode_op_r :: "opnd \<Rightarrow> bool \<Rightarrow> x86_ctx \<Rightarrow> x86_ctx res" where
  [decode_defs]: "decode_op_r op load_val c =
     bindE (width_of op c) (\<lambda>w. bindE (optE Uninit (opcode (ds c))) (\<lambda>oc.
       operand_reg op load_val (unat (oc AND 0x7)) w c))"

section \<open>ModR/M and SIB (decode.c)\<close>

record ModR_M =
  R_M :: nat
  mreg :: nat
  mmod :: nat

definition modrm_of :: "u32 \<Rightarrow> ModR_M" where
  "modrm_of v = \<lparr>R_M = unat (v AND 7), mreg = unat (drop_bit 3 v AND 7), mmod = unat (drop_bit 6 v AND 3)\<rparr>"

record SIB =
  sbase :: nat
  sindex :: nat
  sss :: nat

definition sib_of :: "u32 \<Rightarrow> SIB" where
  "sib_of v = \<lparr>sbase = unat (v AND 7), sindex = unat (drop_bit 3 v AND 7), sss = unat (drop_bit 6 v AND 3)\<rparr>"

text \<open>
  The first part of \<open>load_addr\<close>: base register, index register, scale and displacement size, where
  \<open>None\<close> is the register number \<open>-1\<close>; then the displacement itself, sign-extended from one byte.
\<close>

definition load_addr_sib :: "ModR_M \<Rightarrow> x86_ctx \<Rightarrow> ((nat \<times> nat option \<times> nat) \<times> x86_ctx) res" where
  [decode_defs]: "load_addr_sib m c =
     (if R_M m = R_ESP then
        bindE (x_fetch 1 c) (\<lambda>(v, c).
          let sib = sib_of v in
          Inr ((sbase sib, if sindex sib \<noteq> R_ESP then Some (sindex sib) else None, sss sib), c))
      else Inr ((R_M m, None, 0), c))"

definition load_addr_base :: "ModR_M \<Rightarrow> nat \<Rightarrow> nat option \<times> nat" where
  [decode_defs]: "load_addr_base m base_reg =
     (if mmod m = 0 then (if base_reg = R_EBP then (None, 4) else (Some base_reg, 0))
      else if mmod m = 1 then (Some base_reg, 1) else (Some base_reg, 4))"

definition load_addr_disp :: "nat \<Rightarrow> x86_ctx \<Rightarrow> (u32 \<times> x86_ctx) res" where
  [decode_defs]: "load_addr_disp disp_size c =
     (if disp_size \<noteq> 0 then
        bindE (x_fetch disp_size c) (\<lambda>(disp, c).
          Inr (if disp_size = 1 then scast (ucast disp :: u8) else disp, c))
      else Inr (0, c))"

definition load_addr :: "ModR_M \<Rightarrow> opnd \<Rightarrow> x86_ctx \<Rightarrow> x86_ctx res" where
  [decode_defs]: "load_addr m rm c =
     bindE (assertE (mmod m \<noteq> 3)) (\<lambda>_.
     bindE (load_addr_sib m c) (\<lambda>((b, index_reg, scale), c).
       let (base_reg, disp_size) = load_addr_base m b in
       bindE (load_addr_disp disp_size c) (\<lambda>(disp, c).
       bindE (case base_reg of None \<Rightarrow> Inr Rz | Some i \<Rightarrow> bindE (check_reg_index i) (\<lambda>i. Inr (Rgpr i))) (\<lambda>mb.
         let c = upd_isa (\<lambda>q. q\<lparr>mbase := Some mb\<rparr>) c in
         bindE (case index_reg of None \<Rightarrow> Inr c
                | Some i \<Rightarrow>
                    bindE (check_reg_index i) (\<lambda>i.
                    bindE (rtl_shli s1 (Rgpr i) (of_nat scale) c) (\<lambda>c.
                    bindE (rtl_add Rmbr mb s1 c) (\<lambda>c.
                      Inr (upd_isa (\<lambda>q. q\<lparr>mbase := Some Rmbr\<rparr>) c))))) (\<lambda>c.
           let c = upd_isa (\<lambda>q. q\<lparr>moff := disp\<rparr>) c in
           Inr (upd_op rm (\<lambda>q. q\<lparr>op_type := Some OP_TYPE_MEM\<rparr>) c))))))"

definition read_ModR_M :: "opnd \<Rightarrow> bool \<Rightarrow> opnd option \<Rightarrow> bool \<Rightarrow> x86_ctx \<Rightarrow> x86_ctx res" where
  [decode_defs]: "read_ModR_M rm load_rm_val reg load_reg_val c =
     bindE (x_fetch 1 c) (\<lambda>(v, c).
       let m = modrm_of v; c = upd_isa (\<lambda>q. q\<lparr>ext_opcode := of_nat (mreg m)\<rparr>) c in
       bindE (case reg of None \<Rightarrow> Inr c
              | Some rg \<Rightarrow> bindE (width_of rg c) (\<lambda>w. operand_reg rg load_reg_val (mreg m) w c)) (\<lambda>c.
         if mmod m = 3 then bindE (width_of rm c) (\<lambda>w. operand_reg rm load_rm_val (R_M m) w c)
         else
           bindE (load_addr m rm c) (\<lambda>c.
           bindE (if load_rm_val then
                    bindE (mbase_of c) (\<lambda>mb. bindE (width_of rm c) (\<lambda>w.
                      rtl_lm x86_PMEM_BASE (Rval rm) mb (moff (isa (ds c))) w c))
                  else Inr c) (\<lambda>c.
             Inr (upd_op rm (\<lambda>q. q\<lparr>op_preg := Some (Rval rm)\<rparr>) c)))))"

definition operand_rm :: "opnd \<Rightarrow> bool \<Rightarrow> opnd option \<Rightarrow> bool \<Rightarrow> x86_ctx \<Rightarrow> x86_ctx res" where
  [decode_defs]: "operand_rm = read_ModR_M"

definition decode_op_O :: "opnd \<Rightarrow> bool \<Rightarrow> x86_ctx \<Rightarrow> x86_ctx res" where
  [decode_defs]: "decode_op_O op load_val c =
     (let c = upd_op op (\<lambda>q. q\<lparr>op_type := Some OP_TYPE_MEM\<rparr>) c in
      bindE (x_fetch 4 c) (\<lambda>(v, c).
        let c = upd_isa (\<lambda>q. q\<lparr>moff := v, mbase := Some Rz\<rparr>) c in
        if load_val then
          bindE (width_of op c) (\<lambda>w.
          bindE (rtl_lm x86_PMEM_BASE (Rval op) Rz v w c) (\<lambda>c.
            Inr (upd_op op (\<lambda>q. q\<lparr>op_preg := Some (Rval op)\<rparr>) c)))
        else Inr c))"

section \<open>Decode helpers\<close>

definition set_op_width :: "opnd \<Rightarrow> nat \<Rightarrow> x86_ctx \<Rightarrow> x86_ctx res" where
  "set_op_width op w c = Inr (upd_op op (\<lambda>q. q\<lparr>op_width := Some w\<rparr>) c)"

definition decode_G2E :: "x86_ctx \<Rightarrow> x86_ctx res" where
  [decode_defs]: "decode_G2E = operand_rm Dest True (Some Src1) True"
definition decode_mov_G2E :: "x86_ctx \<Rightarrow> x86_ctx res" where
  [decode_defs]: "decode_mov_G2E = operand_rm Dest False (Some Src1) True"
definition decode_E2G :: "x86_ctx \<Rightarrow> x86_ctx res" where
  [decode_defs]: "decode_E2G = operand_rm Src1 True (Some Dest) True"
definition decode_mov_E2G :: "x86_ctx \<Rightarrow> x86_ctx res" where
  [decode_defs]: "decode_mov_E2G = operand_rm Src1 True (Some Dest) False"
definition decode_lea_M2G :: "x86_ctx \<Rightarrow> x86_ctx res" where
  [decode_defs]: "decode_lea_M2G = operand_rm Src1 False (Some Dest) False"
definition decode_I2a :: "x86_ctx \<Rightarrow> x86_ctx res" where
  [decode_defs]: "decode_I2a = seqs [decode_op_a Dest True, decode_op_I Src1 True]"
definition decode_I_E2G :: "x86_ctx \<Rightarrow> x86_ctx res" where
  [decode_defs]: "decode_I_E2G = seqs [operand_rm Src2 True (Some Dest) False, decode_op_I Src1 True]"
definition decode_I2E :: "x86_ctx \<Rightarrow> x86_ctx res" where
  [decode_defs]: "decode_I2E = seqs [operand_rm Dest True None False, decode_op_I Src1 True]"
definition decode_mov_I2E :: "x86_ctx \<Rightarrow> x86_ctx res" where
  [decode_defs]: "decode_mov_I2E = seqs [operand_rm Dest False None False, decode_op_I Src1 True]"
definition decode_I2r :: "x86_ctx \<Rightarrow> x86_ctx res" where
  [decode_defs]: "decode_I2r = seqs [decode_op_r Dest True, decode_op_I Src1 True]"
definition decode_mov_I2r :: "x86_ctx \<Rightarrow> x86_ctx res" where
  [decode_defs]: "decode_mov_I2r = seqs [decode_op_r Dest False, decode_op_I Src1 True]"
definition decode_I :: "x86_ctx \<Rightarrow> x86_ctx res" where
  [decode_defs]: "decode_I = decode_op_I Dest True"
definition decode_r :: "x86_ctx \<Rightarrow> x86_ctx res" where
  [decode_defs]: "decode_r = decode_op_r Dest True"
definition decode_E :: "x86_ctx \<Rightarrow> x86_ctx res" where
  [decode_defs]: "decode_E = operand_rm Dest True None False"
definition decode_setcc_E :: "x86_ctx \<Rightarrow> x86_ctx res" where
  [decode_defs]: "decode_setcc_E = operand_rm Dest False None False"
definition decode_gp7_E :: "x86_ctx \<Rightarrow> x86_ctx res" where
  [decode_defs]: "decode_gp7_E = operand_rm Dest False None False"
definition decode_test_I :: "x86_ctx \<Rightarrow> x86_ctx res" where
  [decode_defs]: "decode_test_I = decode_op_I Src1 True"

text \<open>The width check of \<open>SI2E\<close> and \<open>SI_E2G\<close>, and their masking of a 16-bit immediate.\<close>

definition assert_dest_width_24 :: "x86_ctx \<Rightarrow> x86_ctx res" where
  [decode_defs]: "assert_dest_width_24 c =
     bindE (width_of Dest c) (\<lambda>w. bindE (assertE (w = 2 \<or> w = 4)) (\<lambda>_. Inr c))"

definition mask_dsrc1 :: "x86_ctx \<Rightarrow> x86_ctx res" where
  [decode_defs]: "mask_dsrc1 c =
     bindE (width_of Dest c) (\<lambda>w.
       if w = 2 then
         bindE (preg_of Src1 c) (\<lambda>p. bindE (rd p c) (\<lambda>x. wr p (x AND 0xffff) c))
       else Inr c)"

definition decode_SI2E :: "x86_ctx \<Rightarrow> x86_ctx res" where
  [decode_defs]: "decode_SI2E = seqs [assert_dest_width_24, operand_rm Dest True None False,
     set_op_width Src1 1, decode_op_SI Src1 True, mask_dsrc1]"
definition decode_SI_E2G :: "x86_ctx \<Rightarrow> x86_ctx res" where
  [decode_defs]: "decode_SI_E2G = seqs [assert_dest_width_24, operand_rm Src2 True (Some Dest) False,
     set_op_width Src1 1, decode_op_SI Src1 True, mask_dsrc1]"
definition decode_gp2_1_E :: "x86_ctx \<Rightarrow> x86_ctx res" where
  [decode_defs]: "decode_gp2_1_E = seqs [operand_rm Dest True None False, operand_imm Src1 True 1]"
definition decode_gp2_cl2E :: "x86_ctx \<Rightarrow> x86_ctx res" where
  [decode_defs]: "decode_gp2_cl2E = seqs [operand_rm Dest True None False, operand_reg Src1 True R_ECX 4]"
definition decode_gp2_Ib2E :: "x86_ctx \<Rightarrow> x86_ctx res" where
  [decode_defs]: "decode_gp2_Ib2E = seqs [operand_rm Dest True None False, set_op_width Src1 1, decode_op_I Src1 True]"
definition decode_Ib_G2E :: "x86_ctx \<Rightarrow> x86_ctx res" where
  [decode_defs]: "decode_Ib_G2E = seqs [operand_rm Dest True (Some Src2) True, set_op_width Src1 1, decode_op_I Src1 True]"
definition decode_cl_G2E :: "x86_ctx \<Rightarrow> x86_ctx res" where
  [decode_defs]: "decode_cl_G2E = seqs [operand_rm Dest True (Some Src2) True, operand_reg Src1 True R_ECX 4]"
definition decode_O2a :: "x86_ctx \<Rightarrow> x86_ctx res" where
  [decode_defs]: "decode_O2a = seqs [decode_op_O Src1 True, decode_op_a Dest False]"
definition decode_a2O :: "x86_ctx \<Rightarrow> x86_ctx res" where
  [decode_defs]: "decode_a2O = seqs [decode_op_a Src1 True, decode_op_O Dest False]"
definition decode_J :: "x86_ctx \<Rightarrow> x86_ctx res" where
  [decode_defs]: "decode_J c =
     bindE (decode_op_SI Dest False c) (\<lambda>c.
     bindE (optE Uninit (op_imm (dest (ds c)))) (\<lambda>simm.
       Inr (c\<lparr>ds := (ds c)\<lparr>jmp_pc := Some (simm + seq_pc (ds c))\<rparr>\<rparr>)))"
definition decode_push_SI :: "x86_ctx \<Rightarrow> x86_ctx res" where
  [decode_defs]: "decode_push_SI = decode_op_SI Dest True"
definition decode_in_I2a :: "x86_ctx \<Rightarrow> x86_ctx res" where
  [decode_defs]: "decode_in_I2a = seqs [set_op_width Src1 1, decode_op_I Src1 True, decode_op_a Dest False]"
definition decode_in_dx2a :: "x86_ctx \<Rightarrow> x86_ctx res" where
  [decode_defs]: "decode_in_dx2a = seqs [operand_reg Src1 True R_DX 2, decode_op_a Dest False]"
definition decode_out_a2I :: "x86_ctx \<Rightarrow> x86_ctx res" where
  [decode_defs]: "decode_out_a2I = seqs [decode_op_a Src1 True, set_op_width Dest 1, decode_op_I Dest True]"
definition decode_out_a2dx :: "x86_ctx \<Rightarrow> x86_ctx res" where
  [decode_defs]: "decode_out_a2dx = seqs [decode_op_a Src1 True, operand_reg Dest True R_DX 2]"

definition operand_write :: "opnd \<Rightarrow> rtlptr \<Rightarrow> x86_ctx \<Rightarrow> x86_ctx res" where
  [decode_defs]: "operand_write op src c =
     bindE (optE Uninit (op_type (get_op op c))) (\<lambda>t.
       case t of
         OP_TYPE_REG \<Rightarrow>
           bindE (optE Uninit (op_imm (get_op op c))) (\<lambda>r.
           bindE (width_of op c) (\<lambda>w. rtl_sr (unat r) src w c))
       | OP_TYPE_MEM \<Rightarrow>
           bindE (mbase_of c) (\<lambda>mb.
           bindE (width_of op c) (\<lambda>w. rtl_sm x86_PMEM_BASE mb (moff (isa (ds c))) src w c))
       | OP_TYPE_IMM \<Rightarrow> Inl Assert_fail)"

end
