(* ===== verification/X86_Exec.thy ===== *)
theory X86_Exec
  imports X86_Decode
begin

text \<open>
  The x86 execution helpers and the interpreter step: \<open>isa/x86/exec/*.h\<close>, \<open>exec.c\<close>, \<open>special.c\<close> and
  the start-up of \<open>isa/x86/init.c\<close>. An execution helper is a function on the context; where the
  source reads a pointer from an operand at run time (\<open>dsrc1\<close>, \<open>ddest\<close>), so does the model. The
  disassembly text of \<open>print_asm\<close> is not modelled.
\<close>

named_theorems exec_defs \<open>definitions of the x86 execution helpers\<close>

type_synonym ehelper = "x86_ctx \<Rightarrow> x86_ctx res"

text \<open>Steps over the operand pointers \<open>ddest\<close>, \<open>dsrc1\<close>, \<open>dsrc2\<close> and the destination width.\<close>

definition with_ptr :: "opnd \<Rightarrow> (rtlptr \<Rightarrow> ehelper) \<Rightarrow> ehelper" where
  "with_ptr op f c = bindE (preg_of op c) (\<lambda>p. f p c)"

definition with_width :: "opnd \<Rightarrow> (nat \<Rightarrow> ehelper) \<Rightarrow> ehelper" where
  "with_width op f c = bindE (width_of op c) (\<lambda>w. f w c)"

section \<open>Arithmetic (arith.h)\<close>

definition exec_add :: ehelper where "exec_add c = Inl Todo"
definition exec_sub :: ehelper where "exec_sub c = Inl Todo"
definition exec_cmp :: ehelper where "exec_cmp c = Inl Todo"
definition exec_inc :: ehelper where "exec_inc c = Inl Todo"
definition exec_dec :: ehelper where "exec_dec c = Inl Todo"
definition exec_neg :: ehelper where "exec_neg c = Inl Todo"

definition exec_adc :: ehelper where
  "exec_adc = seqs
     [rtl_get_eflag CF s0,
      with_ptr Src1 (\<lambda>p. rtl_add s0 p s0),
      with_ptr Dest (\<lambda>d. rtl_add s1 d s0),
      with_width Dest (\<lambda>w. rtl_update_ZFSF s1 w),
      with_ptr Dest (\<lambda>d. with_ptr Src1 (\<lambda>p. with_width Dest (\<lambda>w. rtl_is_add_overflow s2 s1 d p w))),
      rtl_set_eflag OF s2,
      with_width Dest (\<lambda>w. if w \<noteq> 4 then rtl_andi s1 s1 (drop_bit ((4 - w) * 8) 0xffffffff) else Inr),
      rtl_is_add_carry s2 s1 s0,
      with_ptr Src1 (\<lambda>p. rtl_is_add_carry s0 s0 p),
      rtl_or s0 s0 s2,
      rtl_set_eflag CF s0,
      operand_write Dest s1]"

definition exec_sbb :: ehelper where
  "exec_sbb = seqs
     [rtl_get_eflag CF s0,
      with_ptr Src1 (\<lambda>p. rtl_add s0 p s0),
      with_ptr Dest (\<lambda>d. rtl_sub s1 d s0),
      with_width Dest (\<lambda>w. rtl_update_ZFSF s1 w),
      with_ptr Dest (\<lambda>d. with_ptr Src1 (\<lambda>p. with_width Dest (\<lambda>w. rtl_is_sub_overflow s2 s1 d p w))),
      rtl_set_eflag OF s2,
      with_ptr Src1 (\<lambda>p. rtl_is_add_carry s2 s0 p),
      with_ptr Dest (\<lambda>d. rtl_is_sub_carry s0 d s0),
      rtl_or s0 s0 s2,
      rtl_set_eflag CF s0,
      operand_write Dest s1]"

definition exec_mul :: ehelper where
  "exec_mul = seqs
     [with_width Dest (\<lambda>w. rtl_lr s0 R_EAX w),
      with_ptr Dest (\<lambda>d. rtl_mul_lo s1 d s0),
      with_width Dest (\<lambda>w.
        if w = 1 then rtl_sr R_AX s1 2
        else if w = 2 then seqs [rtl_sr R_AX s1 2, rtl_shri s1 s1 16, rtl_sr R_DX s1 2]
        else if w = 4 then seqs
          [with_ptr Dest (\<lambda>d. rtl_mul_hi s0 d s0), rtl_sr R_EDX s0 4, rtl_sr R_EAX s1 4]
        else (\<lambda>_. Inl Assert_fail))]"

definition exec_imul1 :: ehelper where
  "exec_imul1 = with_width Dest (\<lambda>w.
     if w = 1 then seqs
       [rtl_lr s0 R_EAX 1, with_ptr Dest (\<lambda>d. rtl_imul_lo s1 d s0), rtl_sr R_AX s1 2]
     else if w = 2 then seqs
       [rtl_lr s0 R_EAX 2, with_ptr Dest (\<lambda>d. rtl_imul_lo s1 d s0), rtl_sr R_AX s1 2,
        rtl_shri s1 s1 16, rtl_sr R_DX s1 2]
     else if w = 4 then with_ptr Dest (\<lambda>d.
       let pdest = (if d = Rgpr R_EDX then s0 else d) in seqs
         [if d = Rgpr R_EDX then rtl_mv s0 d else Inr,
          rtl_imul_hi (Rgpr R_EDX) pdest (Rgpr R_EAX),
          rtl_imul_lo (Rgpr R_EAX) pdest (Rgpr R_EAX)])
     else (\<lambda>_. Inl Assert_fail))"

definition exec_imul2 :: ehelper where
  "exec_imul2 = seqs
     [with_ptr Src1 (\<lambda>p. with_width Src1 (\<lambda>w. rtl_sext p p w)),
      with_ptr Dest (\<lambda>d. with_width Dest (\<lambda>w. rtl_sext d d w)),
      with_ptr Dest (\<lambda>d. with_ptr Src1 (\<lambda>p. rtl_imul_lo d d p)),
      with_ptr Dest (\<lambda>d. operand_write Dest d)]"

definition exec_imul3 :: ehelper where
  "exec_imul3 = seqs
     [with_ptr Src1 (\<lambda>p. with_width Dest (\<lambda>w. rtl_sext p p w)),
      with_ptr Src2 (\<lambda>q. with_width Dest (\<lambda>w. rtl_sext q q w)),
      with_ptr Dest (\<lambda>d. with_ptr Src2 (\<lambda>q. with_ptr Src1 (\<lambda>p. rtl_imul_lo d q p))),
      with_ptr Dest (\<lambda>d. operand_write Dest d)]"

text \<open>\<open>div\<close> and \<open>idiv\<close> have the same body over unsigned and signed division.\<close>

definition exec_div_body ::
  "(rtlptr \<Rightarrow> rtlptr \<Rightarrow> rtlptr \<Rightarrow> ehelper) \<Rightarrow> (rtlptr \<Rightarrow> rtlptr \<Rightarrow> rtlptr \<Rightarrow> ehelper) \<Rightarrow>
   (rtlptr \<Rightarrow> rtlptr \<Rightarrow> rtlptr \<Rightarrow> rtlptr \<Rightarrow> ehelper) \<Rightarrow> (rtlptr \<Rightarrow> rtlptr \<Rightarrow> rtlptr \<Rightarrow> rtlptr \<Rightarrow> ehelper) \<Rightarrow> ehelper" where
  "exec_div_body dq dr dq64 dr64 = with_width Dest (\<lambda>w.
     if w = 1 then seqs
       [rtl_lr s0 R_AX 2, with_ptr Dest (\<lambda>d. dq s1 s0 d), rtl_sr R_AL s1 1,
        with_ptr Dest (\<lambda>d. dr s1 s0 d), rtl_sr R_AH s1 1]
     else if w = 2 then seqs
       [rtl_lr s0 R_AX 2, rtl_lr s1 R_DX 2, rtl_shli s1 s1 16, rtl_or s0 s0 s1,
        with_ptr Dest (\<lambda>d. dq s1 s0 d), rtl_sr R_AX s1 2,
        with_ptr Dest (\<lambda>d. dr s1 s0 d), rtl_sr R_DX s1 2]
     else if w = 4 then with_ptr Dest (\<lambda>d.
       let pdest = (if d = Rgpr R_EAX then s0 else d) in seqs
         [rtl_mv s0 (Rgpr R_EAX),
          dq64 (Rgpr R_EAX) (Rgpr R_EDX) s0 pdest,
          dr64 (Rgpr R_EDX) (Rgpr R_EDX) s0 pdest])
     else (\<lambda>_. Inl Assert_fail))"

definition exec_div :: ehelper where
  "exec_div = exec_div_body rtl_div_q rtl_div_r rtl_div64_q rtl_div64_r"
definition exec_idiv :: ehelper where
  "exec_idiv = exec_div_body rtl_idiv_q rtl_idiv_r rtl_idiv64_q rtl_idiv64_r"

section \<open>Condition codes (cc.h), control (control.h), logic (logic.h)\<close>

definition cc_name :: "string list" where
  "cc_name = [''o'', ''no'', ''b'', ''nb'', ''e'', ''ne'', ''be'', ''nbe'',
              ''s'', ''ns'', ''p'', ''np'', ''l'', ''nl'', ''le'', ''nle'']"

definition get_cc_name :: "nat \<Rightarrow> string res" where
  "get_cc_name subcode = (if subcode < 16 then Inr (cc_name ! subcode) else Inl Out_of_bounds)"

definition rtl_setcc :: "rtlptr \<Rightarrow> u32 \<Rightarrow> ehelper" where
  "rtl_setcc d subcode c =
     (let cc = subcode AND 0xe in
      if cc \<in> {0, 2, 4, 6, 8, 12, 14} then Inl Todo
      else if cc = 10 then Inl (Panic ''PF is not supported'')
      else Inl (Panic ''should not reach here''))"

definition exec_jmp :: ehelper where
  "exec_jmp c = bindE (optE Uninit (jmp_pc (ds c))) (\<lambda>t. rtl_j t c)"
definition exec_jcc :: ehelper where
  "exec_jcc c =
     bindE (optE Uninit (opcode (ds c))) (\<lambda>oc.
     bindE (rtl_setcc s0 (oc AND 0xf) c) (\<lambda>c.
     bindE (optE Uninit (jmp_pc (ds c))) (\<lambda>t. rtl_jrelop RELOP_NE s0 Rz t c)))"
definition exec_jmp_rm :: ehelper where "exec_jmp_rm = with_ptr Dest rtl_jr"
definition exec_call :: ehelper where "exec_call c = Inl Todo"
definition exec_ret :: ehelper where "exec_ret c = Inl Todo"
definition exec_ret_imm :: ehelper where "exec_ret_imm c = Inl Todo"
definition exec_call_rm :: ehelper where "exec_call_rm c = Inl Todo"

definition exec_test :: ehelper where "exec_test c = Inl Todo"
definition exec_and :: ehelper where "exec_and c = Inl Todo"
definition exec_xor :: ehelper where "exec_xor c = Inl Todo"
definition exec_or :: ehelper where "exec_or c = Inl Todo"
definition exec_not :: ehelper where "exec_not c = Inl Todo"
definition exec_sar :: ehelper where "exec_sar c = Inl Todo"
definition exec_shl :: ehelper where "exec_shl c = Inl Todo"
definition exec_shr :: ehelper where "exec_shr c = Inl Todo"
definition exec_setcc :: ehelper where
  "exec_setcc c =
     bindE (optE Uninit (opcode (ds c))) (\<lambda>oc.
       seqs [with_ptr Dest (\<lambda>d. rtl_setcc d (oc AND 0xf)), with_ptr Dest (\<lambda>d. operand_write Dest d)] c)"

section \<open>Data movement (data-mov.h)\<close>

definition exec_mov :: ehelper where "exec_mov = with_ptr Src1 (\<lambda>p. operand_write Dest p)"
definition exec_push :: ehelper where "exec_push c = Inl Todo"
definition exec_pop :: ehelper where "exec_pop c = Inl Todo"
definition exec_pusha :: ehelper where "exec_pusha c = Inl Todo"
definition exec_popa :: ehelper where "exec_popa c = Inl Todo"
definition exec_leave :: ehelper where "exec_leave c = Inl Todo"
definition exec_cltd :: ehelper where
  "exec_cltd c = (if is_operand_size_16 (isa (ds c)) then Inl Todo else Inl Todo)"
definition exec_cwtl :: ehelper where
  "exec_cwtl c = (if is_operand_size_16 (isa (ds c)) then Inl Todo else Inl Todo)"

definition set_dest_width :: ehelper where
  "set_dest_width c = set_op_width Dest (if is_operand_size_16 (isa (ds c)) then 2 else 4) c"

definition exec_movsx :: ehelper where
  "exec_movsx = seqs
     [set_dest_width,
      with_ptr Dest (\<lambda>d. with_ptr Src1 (\<lambda>p. with_width Src1 (\<lambda>w. rtl_sext d p w))),
      with_ptr Dest (\<lambda>d. operand_write Dest d)]"
definition exec_movzx :: ehelper where
  "exec_movzx = seqs [set_dest_width, with_ptr Src1 (\<lambda>p. operand_write Dest p)]"
definition exec_lea :: ehelper where
  "exec_lea = seqs
     [with_ptr Dest (\<lambda>d c. bindE (mbase_of c) (\<lambda>mb. rtl_addi d mb (moff (isa (ds c))) c)),
      with_ptr Dest (\<lambda>d. operand_write Dest d)]"

section \<open>System instructions (system.h) and special ones (special.c)\<close>

definition exec_lidt :: ehelper where "exec_lidt c = Inl Todo"
definition exec_mov_r2cr :: ehelper where "exec_mov_r2cr c = Inl Todo"
definition exec_mov_cr2r :: ehelper where "exec_mov_cr2r c = Inl Todo"
definition exec_int :: ehelper where "exec_int c = Inl Todo"
definition exec_iret :: ehelper where "exec_iret c = Inl Todo"
definition exec_in :: ehelper where "exec_in c = Inl Todo"
definition exec_out :: ehelper where "exec_out c = Inl Todo"

definition exec_nop :: ehelper where "exec_nop c = Inr c"

text \<open>
  \<open>exec_inv\<close> refetches eight bytes at \<open>cpu.pc\<close> for its message, so it can itself leave the memory
  or the log buffer.
\<close>

definition exec_inv :: ehelper where
  [exec_defs]: "exec_inv c =
     (let c = c\<lparr>ds := (ds c)\<lparr>seq_pc := pc (cpu (mach c))\<rparr>\<rparr> in
      bindE (x_fetch 4 c) (\<lambda>(_, c). bindE (x_fetch 4 c) (\<lambda>(_, c).
        rtl_exit NEMU_ABORT (pc (cpu (mach c))) (-1) c)))"

definition exec_nemu_trap :: ehelper where
  [exec_defs]: "exec_nemu_trap c =
     bindE (rd (Rgpr R_EAX) c) (\<lambda>eax. rtl_exit NEMU_END (pc (cpu (mach c))) eax c)"

section \<open>Opcode dispatch (exec.c)\<close>

text \<open>A negative width leaves the operand widths alone; width 0 is the operand size.\<close>

definition set_width :: "int \<Rightarrow> ehelper" where
  [exec_defs]: "set_width width c =
     (if width = -1 then Inr c
      else
        let w = (if width = 0 then (if is_operand_size_16 (isa (ds c)) then 2 else 4) else nat width);
            f = (\<lambda>q. q\<lparr>op_width := Some w\<rparr>)
        in Inr (upd_op Src1 f (upd_op Dest f (upd_op Src2 f c))))"

definition decode_empty :: ehelper where "decode_empty c = Inr c"

definition IDEXW :: "ehelper \<Rightarrow> ehelper \<Rightarrow> int \<Rightarrow> ehelper" where
  [exec_defs]: "IDEXW dec ex w = seqs [set_width w, dec, ex]"

abbreviation IDEX :: "ehelper \<Rightarrow> ehelper \<Rightarrow> ehelper" where "IDEX dec ex \<equiv> IDEXW dec ex 0"
abbreviation EXW :: "ehelper \<Rightarrow> int \<Rightarrow> ehelper" where "EXW ex w \<equiv> IDEXW decode_empty ex w"
abbreviation EXn :: "ehelper \<Rightarrow> ehelper" where "EXn ex \<equiv> EXW ex 0"
abbreviation EMPTY :: ehelper where "EMPTY \<equiv> EXn exec_inv"

text \<open>The opcode groups have eight empty entries each; an extended opcode has three bits.\<close>

definition exec_group :: ehelper where
  [exec_defs]: "exec_group c = (if ext_opcode (isa (ds c)) \<le> 7 then EMPTY c else Inr c)"

definition exec_gp1 :: ehelper where [exec_defs]: "exec_gp1 = exec_group"
definition exec_gp2 :: ehelper where [exec_defs]: "exec_gp2 = exec_group"
definition exec_gp3 :: ehelper where [exec_defs]: "exec_gp3 = exec_group"
definition exec_gp4 :: ehelper where [exec_defs]: "exec_gp4 = exec_group"
definition exec_gp5 :: ehelper where [exec_defs]: "exec_gp5 = exec_group"
definition exec_gp7 :: ehelper where [exec_defs]: "exec_gp7 = exec_group"

definition exec_2byte_esc :: ehelper where
  [exec_defs]: "exec_2byte_esc c =
     bindE (x_fetch 1 c) (\<lambda>(v, c).
       let oc = ucast v :: u8; c = set_opcode (ucast oc) c in
       if oc = 0x01 then IDEX decode_gp7_E exec_gp7 c else exec_inv c)"

definition exec_opcode :: "u8 \<Rightarrow> ehelper" where
  [exec_defs]: "exec_opcode oc =
     (if oc = 0x0f then EXn exec_2byte_esc
      else if oc = 0x80 then IDEXW decode_I2E exec_gp1 1
      else if oc = 0x81 then IDEX decode_I2E exec_gp1
      else if oc = 0x83 then IDEX decode_SI2E exec_gp1
      else if oc = 0x88 then IDEXW decode_mov_G2E exec_mov 1
      else if oc = 0x89 then IDEX decode_mov_G2E exec_mov
      else if oc = 0x8a then IDEXW decode_mov_E2G exec_mov 1
      else if oc = 0x8b then IDEX decode_mov_E2G exec_mov
      else if oc = 0xa0 then IDEXW decode_O2a exec_mov 1
      else if oc = 0xa1 then IDEX decode_O2a exec_mov
      else if oc = 0xa2 then IDEXW decode_a2O exec_mov 1
      else if oc = 0xa3 then IDEX decode_a2O exec_mov
      else if 0xb0 \<le> oc \<and> oc \<le> 0xb7 then IDEXW decode_mov_I2r exec_mov 1
      else if 0xb8 \<le> oc \<and> oc \<le> 0xbf then IDEX decode_mov_I2r exec_mov
      else if oc = 0xc0 then IDEXW decode_gp2_Ib2E exec_gp2 1
      else if oc = 0xc1 then IDEX decode_gp2_Ib2E exec_gp2
      else if oc = 0xc6 then IDEXW decode_mov_I2E exec_mov 1
      else if oc = 0xc7 then IDEX decode_mov_I2E exec_mov
      else if oc = 0xd0 then IDEXW decode_gp2_1_E exec_gp2 1
      else if oc = 0xd1 then IDEX decode_gp2_1_E exec_gp2
      else if oc = 0xd2 then IDEXW decode_gp2_cl2E exec_gp2 1
      else if oc = 0xd3 then IDEX decode_gp2_cl2E exec_gp2
      else if oc = 0xd6 then EXn exec_nemu_trap
      else if oc = 0xf6 then IDEXW decode_E exec_gp3 1
      else if oc = 0xf7 then IDEX decode_E exec_gp3
      else if oc = 0xfe then IDEXW decode_E exec_gp4 1
      else if oc = 0xff then IDEX decode_E exec_gp5
      else exec_inv)"

text \<open>
  The operand-size prefix \<open>0x66\<close> jumps back to the fetch. Each round adds three characters to
  \<open>log_bytebuf\<close>, and a round that would overflow it does not return, so the loop ends.
\<close>

function fetch_decode_exec :: ehelper where
  "fetch_decode_exec c =
     bindE (x_fetch 1 c) (\<lambda>(v, c').
       let oc = ucast v :: u8; c'' = set_opcode (ucast oc) c' in
       if oc = 0x66 then fetch_decode_exec (upd_isa (\<lambda>q. q\<lparr>is_operand_size_16 := True\<rparr>) c'')
       else exec_opcode oc c'')"
  by pat_completeness auto
termination
  by (relation "measure (\<lambda>c. LOG_BYTEBUF_SIZE - log_bytebuf_len (mach c))")
    (auto simp: instr_fetch_def bindE_eq_Inr set_opcode_def upd_isa_def Let_def split: if_splits prod.splits)

declare fetch_decode_exec.simps [simp del]

definition x86_isa_init :: x86_ISADecodeInfo where
  "x86_isa_init = \<lparr>is_operand_size_16 = False, ext_opcode = 0, mbase = None, moff = 0\<rparr>"

definition isa_exec_once :: "u32 machine \<Rightarrow> (u32 \<times> u32 machine) res" where
  "isa_exec_once m =
     bindE (fetch_decode_exec \<lparr>ds = decode_state_init (pc (cpu m)) (Some 0) x86_isa_init, mach = m\<rparr>) (\<lambda>c.
     bindE (update_pc c) (\<lambda>c. Inr (seq_pc (ds c), mach c)))"

section \<open>Start-up (init.c)\<close>

definition img :: "u8 list" where
  "img =
    [0xb8, 0x34, 0x12, 0x00, 0x00,
     0xb9, 0x27, 0x00, 0x10, 0x00,
     0x89, 0x01,
     0x66, 0xc7, 0x41, 0x04, 0x01, 0x00,
     0xbb, 0x02, 0x00, 0x00, 0x00,
     0x66, 0xc7, 0x84, 0x99, 0x00, 0xe0,
     0xff, 0xff, 0x01, 0x00,
     0xb8, 0x00, 0x00, 0x00, 0x00,
     0xd6]"

definition restart :: "x86_CPU_state \<Rightarrow> x86_CPU_state" where
  "restart c = c\<lparr>pc := x86_PMEM_BASE + x86_IMAGE_START\<rparr>"

definition init_isa :: "(nat \<Rightarrow> u32) \<Rightarrow> u32 machine \<Rightarrow> u32 machine res" where
  "init_isa rnd m =
     bindE (reg_test rnd (cpu m)) (\<lambda>c.
     bindE (store_bytes PMEM_SIZE (nat (guest_to_host x86_IMAGE_START)) img (pmem (mbus m))) (\<lambda>f.
       Inr (m\<lparr>cpu := restart c, mbus := (mbus m)\<lparr>pmem := f\<rparr>\<rparr>)))"

end
