(* ===== verification/X86_Correct.thy ===== *)
theory X86_Correct
  imports X86_Exec
begin

text \<open>
  Functional correctness of the x86 interpreter: the register file and its 8- and 16-bit views, the
  effective address of a ModR/M operand against the i386 addressing table, immediate moves, and the
  symbolic execution of single instructions that the run of the built-in image uses.
\<close>

section \<open>Register views\<close>

lemma len8: "length (xs :: u32 list) = 8 \<Longrightarrow> \<exists>a0 a1 a2 a3 a4 a5 a6 a7. xs = [a0,a1,a2,a3,a4,a5,a6,a7]"
  by (auto simp: length_Suc_conv numeral_eq_Suc)

lemma reg_part_and:
  "reg_part 0 2 (v :: u32) = v AND 0xffff" "reg_part 0 1 (v :: u32) = v AND 0xff"
  "reg_part 1 1 (v :: u32) = drop_bit 8 v AND 0xff"
  by (simp_all add: reg_part_def take_bit_eq_mask mask_eq_exp_minus_1)

lemma reg_test_ok:
  assumes "cpu_wf c"
  shows "reg_test rnd c = Inr \<lparr>gpr = map (\<lambda>i. rnd (Suc i)) [0..<8], pc = rnd 0\<rparr>"
proof -
  obtain a0 a1 a2 a3 a4 a5 a6 a7 where g: "gpr c = [a0, a1, a2, a3, a4, a5, a6, a7]"
    using len8 assms unfolding cpu_wf_def by blast
  have upt: "[0..<8] = [0, 1, 2, 3, 4, 5, 6, 7 :: nat]" by (simp add: upt_rec)
  show ?thesis
    by (simp add: reg_test_def upt g check_reg_index_def reg_w_def reg_b_def reg_l_def assert_reg_b_def
        assert_reg_l_def reg_part_and Let_def reg_part_and [simplified])
qed

text \<open>
  The start-up self test of the register file passes for every outcome of \<open>rand()\<close>, and leaves the
  sampled values in the registers.
\<close>

theorem reg_test_passes:
  assumes "cpu_wf c"
  shows "reg_test rnd c = Inr \<lparr>gpr = map (\<lambda>i. rnd (Suc i)) [0..<8], pc = rnd 0\<rparr>"
  by (rule reg_test_ok [OF assms])

theorem reg_test_passes_witness:
  "\<exists>c. reg_test (\<lambda>i. of_nat (3 * i)) \<lparr>gpr = replicate 8 0, pc = 0\<rparr> = Inr c \<and> pc c = 0"
  using reg_test_passes [of "\<lparr>gpr = replicate 8 0, pc = 0\<rparr>" "\<lambda>i. of_nat (3 * i)"] by (simp add: cpu_wf_def)

lemma reg_part_set_same:
  assumes "8 * (k + len) \<le> LENGTH('w)"
  shows "reg_part k len (set_reg_part k len v (w :: 'w::len word)) = take_bit (8 * len) v"
  using assms by (intro bit_word_eqI) (auto simp: reg_part_def set_reg_part_def bit_simps)

lemma reg_part_set_other:
  "j + m \<le> k \<or> k + len \<le> j \<Longrightarrow> reg_part j m (set_reg_part k len v (w :: 'w::len word)) = reg_part j m w"
  by (intro bit_word_eqI) (auto simp: reg_part_def set_reg_part_def bit_simps dest: bit_imp_le_length)

lemma reg_part_full: "reg_part 0 4 (w :: u32) = w"
  by (intro bit_word_eqI) (auto simp: reg_part_def bit_simps)

text \<open>Reading a register of a given width, and its first byte in the register file.\<close>

definition reg_read :: "nat \<Rightarrow> nat \<Rightarrow> x86_CPU_state \<Rightarrow> u32 res" where
  "reg_read width r c = (if width = 4 then reg_l r c else if width = 2 then reg_w r c else reg_b r c)"

definition reg_base :: "nat \<Rightarrow> nat \<Rightarrow> nat" where
  "reg_base width r = (if width = 1 then reg_b_addr r else reg_w_addr r)"

lemma reg_base_split:
  assumes "r < 8" "width \<in> {1, 2, 4}"
  shows "reg_base width r div 4 < 8" "reg_base width r mod 4 + width \<le> 4"
    "cpu_wf c \<Longrightarrow> reg_read width r c = Inr (reg_part (reg_base width r mod 4) width (gpr c ! (reg_base width r div 4)))"
proof -
  have r: "r = 0 \<or> r = 1 \<or> r = 2 \<or> r = 3 \<or> r = 4 \<or> r = 5 \<or> r = 6 \<or> r = 7" using assms by auto
  show "reg_base width r div 4 < 8" "reg_base width r mod 4 + width \<le> 4"
    "cpu_wf c \<Longrightarrow> reg_read width r c = Inr (reg_part (reg_base width r mod 4) width (gpr c ! (reg_base width r div 4)))"
    using r assms(2)
    by (auto simp: reg_base_def reg_b_addr_def reg_w_addr_def reg_read_def reg_l_def reg_w_def reg_b_def
        check_reg_index_def cpu_wf_def reg_part_full)
qed
lemma rtl_sr_eq:
  assumes "cpu_wf (cpu (mach c))" "r < 8" "width \<in> {1, 2, 4}" "rd p c = Inr v"
  shows "rtl_sr r p width c = Inr (set_gpr (reg_base width r div 4)
    (set_reg_part (reg_base width r mod 4) width v (cgpr c ! (reg_base width r div 4))) c)"
proof -
  have full: "set_reg_part 0 4 v w = (v :: u32)" for w
    by (intro bit_word_eqI) (auto simp: set_reg_part_def bit_simps)
  have mv: "rtl_mv (Rgpr r) p c = Inr (set_gpr r v c)"
    using assms by (auto simp: rtl_mv_def rtl_compute_reg_def c_add_def cpu_wf_def set_gpr_def)
  show ?thesis
    using assms reg_base_split(1,2) [OF assms(2,3)] mv full
    by (auto simp: rtl_sr_def reg_base_def check_reg_index_def cpu_wf_def rtl_host_sm_def reg_w_addr_def Let_def)
qed

text \<open>
  The 8-, 16- and 32-bit registers are views of one register file: storing a value into one of
  them makes that view read the low bits of the value and leaves every view with other bytes
  unchanged.
\<close>

theorem sub_registers:
  assumes "cpu_wf (cpu (mach c))" "r < 8" "width \<in> {1, 2, 4}" "rd p c = Inr v"
  shows "\<exists>c'. rtl_sr r p width c = Inr c' \<and> cpu_wf (cpu (mach c')) \<and>
    reg_read width r (cpu (mach c')) = Inr (take_bit (8 * width) v) \<and>
    (\<forall>r' w'. r' < 8 \<and> w' \<in> {1, 2, 4} \<and>
       (reg_base w' r' + w' \<le> reg_base width r \<or> reg_base width r + width \<le> reg_base w' r') \<longrightarrow>
       reg_read w' r' (cpu (mach c')) = reg_read w' r' (cpu (mach c)))"
proof -
  let ?i = "reg_base width r div 4" and ?k = "reg_base width r mod 4"
  let ?c = "set_gpr ?i (set_reg_part ?k width v (cgpr c ! ?i)) c"
  note b = reg_base_split [OF assms(2,3)]
  have g: "cgpr ?c = (cgpr c)[?i := set_reg_part ?k width v (cgpr c ! ?i)]" by (simp add: set_gpr_def)
  have wf: "cpu_wf (cpu (mach ?c))" using assms(1) by (simp add: cpu_wf_def g)
  have len: "?i < length (cgpr c)" using b(1) assms(1) by (simp add: cpu_wf_def)
  have same: "reg_read width r (cpu (mach ?c)) = Inr (take_bit (8 * width) v)"
    unfolding b(3) [OF wf] g using b(2) len by (simp add: reg_part_set_same)
  have other: "reg_read w' r' (cpu (mach ?c)) = reg_read w' r' (cpu (mach c))"
    if "r' < 8" "w' \<in> {1, 2, 4}"
      "reg_base w' r' + w' \<le> reg_base width r \<or> reg_base width r + width \<le> reg_base w' r'" for r' w'
  proof -
    have "reg_base w' r' div 4 = ?i \<Longrightarrow> reg_base w' r' mod 4 + w' \<le> ?k \<or> ?k + width \<le> reg_base w' r' mod 4"
      using that(3) div_mult_mod_eq [of "reg_base w' r'" 4] div_mult_mod_eq [of "reg_base width r" 4] by linarith
    then show ?thesis
      unfolding reg_base_split(3) [OF that(1,2) wf] reg_base_split(3) [OF that(1,2) assms(1)] g
      by (auto simp: nth_list_update_if reg_part_set_other)
  qed
  show ?thesis using rtl_sr_eq [OF assms] wf same other by blast
qed

text \<open>A context to evaluate single steps in.\<close>

definition sample_ctx :: "u32 list \<Rightarrow> byte_array \<Rightarrow> x86_ctx" where
  "sample_ctx g f =
     \<lparr>ds = decode_state_init 0x100000 (Some 0) x86_isa_init,
      mach = \<lparr>cpu = \<lparr>gpr = g, pc = 0x100000\<rparr>, mbus = (bus_initial (\<lambda>_. (0, 0)))\<lparr>pmem := f\<rparr>,
              nemu_state = \<lparr>nstate = NEMU_RUNNING, halt_pc = 0, halt_ret = 0\<rparr>, log_bytebuf_len = 0\<rparr>\<rparr>"

theorem sub_registers_witness:
  "\<exists>c. rtl_sr R_AH (Rgpr 1) 1 (sample_ctx [0, 0x1234, 0, 0, 0, 0, 0, 0] (\<lambda>_. 0)) = Inr c \<and>
     reg_read 1 R_AH (cpu (mach c)) = Inr 0x34"
  using sub_registers [of "sample_ctx [0, 0x1234, 0, 0, 0, 0, 0, 0] (\<lambda>_. 0)" R_AH 1 "Rgpr 1" "0x1234"]
  by (auto simp: sample_ctx_def cpu_wf_def)

section \<open>Fetching\<close>

lemma fetch_eq:
  assumes "pmem_valid 0 (seq_pc (ds c)) len" "log_bytebuf_len (mach c) + 3 * len < 80"
  shows "x_fetch len c = Inr (le_word (map (\<lambda>i. pmem (mbus (mach c)) (unat (seq_pc (ds c)) + i)) [0..<len]),
     c\<lparr>ds := (ds c)\<lparr>seq_pc := seq_pc (ds c) + of_nat len\<rparr>,
       mach := (mach c)\<lparr>log_bytebuf_len := log_bytebuf_len (mach c) + 3 * len\<rparr>\<rparr>)"
  using assms by (simp add: instr_fetch_def vaddr_ifetch_eq_read pmem_read_eq pmem_pos_def Let_def LOG_BYTEBUF_SIZE_def)

lemma fde_step:
  assumes "pmem_valid 0 (seq_pc (ds c)) 1" "log_bytebuf_len (mach c) + 3 < 80"
    and "pmem (mbus (mach c)) (unat (seq_pc (ds c))) \<noteq> 0x66"
  shows "fetch_decode_exec c = exec_opcode (pmem (mbus (mach c)) (unat (seq_pc (ds c))))
    (set_opcode (ucast (pmem (mbus (mach c)) (unat (seq_pc (ds c)))))
      (c\<lparr>ds := (ds c)\<lparr>seq_pc := seq_pc (ds c) + 1\<rparr>,
         mach := (mach c)\<lparr>log_bytebuf_len := log_bytebuf_len (mach c) + 3\<rparr>\<rparr>))"
  using assms by (subst fetch_decode_exec.simps) (simp add: fetch_eq Let_def)

lemma fde_prefix:
  assumes "pmem_valid 0 (seq_pc (ds c)) 1" "log_bytebuf_len (mach c) + 3 < 80"
    and "pmem (mbus (mach c)) (unat (seq_pc (ds c))) = 0x66"
  shows "fetch_decode_exec c = fetch_decode_exec (upd_isa (\<lambda>q. q\<lparr>is_operand_size_16 := True\<rparr>)
    (set_opcode 0x66 (c\<lparr>ds := (ds c)\<lparr>seq_pc := seq_pc (ds c) + 1\<rparr>,
                         mach := (mach c)\<lparr>log_bytebuf_len := log_bytebuf_len (mach c) + 3\<rparr>\<rparr>)))"
  using assms by (subst fetch_decode_exec.simps) (simp add: fetch_eq Let_def)

lemmas step_defs =
  isa_exec_once_def decode_state_init_def x86_isa_init_def operand_uninit_def fde_step fde_prefix
  exec_defs decode_defs rtl_defs set_opcode_def upd_isa_def fetch_eq update_pc_def width_of_def preg_of_def
  mbase_of_def with_ptr_def exec_mov_def check_reg_index_def set_gpr_def c_add_def decode_empty_def
  modrm_of_def sib_of_def

section \<open>Moves of an immediate\<close>

text \<open>
  \<open>mov r32, imm32\<close> (opcodes \<open>0xb8\<close> to \<open>0xbf\<close>): one step loads the four bytes after the opcode into the
  register the opcode names, advances \<open>pc\<close> by five, and changes nothing else but the instruction log.
\<close>

theorem mov_imm32:
  assumes r: "r < 8"
    and wf: "cpu_wf (cpu m)"
    and v: "pmem_valid 0 (pc (cpu m)) 1" "pmem_valid 0 (pc (cpu m) + 1) 4" "log_bytebuf_len m + 15 < 80"
    and oc: "pmem (mbus m) (unat (pc (cpu m))) = 0xb8 + of_nat r"
    and imm: "vaddr_read 0 (pc (cpu m) + 1) 4 (mbus m) = Inr (imm, b)"
  shows "isa_exec_once m = Inr (pc (cpu m) + 5, m\<lparr>cpu := (cpu m)\<lparr>gpr := (gpr (cpu m))[r := imm], pc := pc (cpu m) + 5\<rparr>,
    log_bytebuf_len := log_bytebuf_len m + 15\<rparr>)"
proof -
  have rc: "r \<in> {0, 1, 2, 3, 4, 5, 6, 7}" using r by auto
  have imm': "imm = le_word (map (\<lambda>i. pmem (mbus m) (unat (pc (cpu m) + 1) + i)) [0..<4])"
    using imm v by (auto simp: pmem_read_eq pmem_pos_def)
  show ?thesis
  using rc oc v wf unfolding cpu_wf_def imm'
  by (elim insertE emptyE; simp add: step_defs add.assoc del: upt.simps)
qed

theorem mov_imm32_witness:
  "isa_exec_once (mach (sample_ctx [0, 0, 0, 0, 0, 0, 0, 0] (put_bytes 0x100000 [0xb9, 0x78, 0x56, 0x34, 0x12] (\<lambda>_. 0)))) =
     Inr (0x100005, (mach (sample_ctx [0, 0, 0, 0, 0, 0, 0, 0] (put_bytes 0x100000 [0xb9, 0x78, 0x56, 0x34, 0x12] (\<lambda>_. 0))))
       \<lparr>cpu := \<lparr>gpr = [0, 0x12345678, 0, 0, 0, 0, 0, 0], pc = 0x100005\<rparr>, log_bytebuf_len := 15\<rparr>)"
proof -
  let ?m = "mach (sample_ctx [0, 0, 0, 0, 0, 0, 0, 0] (put_bytes 0x100000 [0xb9, 0x78, 0x56, 0x34, 0x12] (\<lambda>_. 0)))"
  have v: "pmem_valid 0 (0x100000 :: u32) 1" "pmem_valid 0 (0x100001 :: u32) 4"
    by (simp_all add: pmem_valid_def mem_len_ok_def in_pmem_def PMEM_SIZE_def)
  have rd: "vaddr_read 0 (pc (cpu ?m) + 1) 4 (mbus ?m) = Inr (0x12345678, mbus ?m)"
    using v by (simp add: sample_ctx_def pmem_read_eq pmem_pos_def put_bytes_def upt_rec)
  have "isa_exec_once ?m = Inr (pc (cpu ?m) + 5, ?m\<lparr>cpu := (cpu ?m)\<lparr>gpr := (gpr (cpu ?m))[1 := 0x12345678], pc := pc (cpu ?m) + 5\<rparr>,
    log_bytebuf_len := log_bytebuf_len ?m + 15\<rparr>)"
    by (rule mov_imm32 [OF _ _ _ _ _ _ rd]) (use v in \<open>simp_all add: sample_ctx_def cpu_wf_def put_bytes_def\<close>)
  then show ?thesis by (simp add: sample_ctx_def)
qed

section \<open>Effective addresses\<close>

text \<open>Room for \<open>n\<close> more instruction bytes in memory and in the log; the \<open>n\<close> bytes at offset \<open>k\<close>.\<close>

definition instr_room :: "x86_ctx \<Rightarrow> nat \<Rightarrow> bool" where
  "instr_room c n \<longleftrightarrow> unat (seq_pc (ds c)) + n \<le> PMEM_SIZE \<and> log_bytebuf_len (mach c) + 3 * n < 80"

definition code :: "x86_ctx \<Rightarrow> nat \<Rightarrow> nat \<Rightarrow> u32" where
  "code c k n = le_word (map (\<lambda>i. pmem (mbus (mach c)) (unat (seq_pc (ds c)) + k + i)) [0..<n])"

definition fetched :: "nat \<Rightarrow> x86_ctx \<Rightarrow> x86_ctx" where
  "fetched n c = c\<lparr>ds := (ds c)\<lparr>seq_pc := seq_pc (ds c) + of_nat n\<rparr>,
     mach := (mach c)\<lparr>log_bytebuf_len := log_bytebuf_len (mach c) + 3 * n\<rparr>\<rparr>"

lemma unat_seq_pc: "unat (p::u32) + n \<le> PMEM_SIZE \<Longrightarrow> unat (p + of_nat n) = unat p + n"
  by (simp add: unat_word_ariths PMEM_SIZE_def unat_of_nat)

lemma valid_room: "unat (p::u32) + n \<le> PMEM_SIZE \<Longrightarrow> n \<in> {1,2,4} \<Longrightarrow> pmem_valid 0 p n"
  by (auto simp: pmem_valid_def mem_len_ok_def in_pmem_def PMEM_SIZE_def word_le_nat_alt)

lemma fetch_room:
  "instr_room c n \<Longrightarrow> n \<in> {1, 2, 4} \<Longrightarrow> x_fetch n c = Inr (code c 0 n, fetched n c)"
  using fetch_eq [of c n] valid_room [of "seq_pc (ds c)" n] by (auto simp: instr_room_def code_def fetched_def)

lemma fetched_room: "instr_room c (m + n) \<Longrightarrow> instr_room (fetched m c) n"
  using unat_seq_pc [of "seq_pc (ds c)" m] by (simp add: instr_room_def fetched_def)

lemma code_fetched: "instr_room c m \<Longrightarrow> code (fetched m c) k n = code c (m + k) n"
  by (simp add: instr_room_def fetched_def code_def unat_seq_pc add.assoc)

lemma fetched_fetched: "fetched m (fetched n c) = fetched (n + m) c"
  by (simp add: fetched_def add.assoc)

text \<open>
  The i386 table of addressing forms: base register, index register with its scale, and the place and
  size of the displacement, from the fields of the ModR/M byte and the SIB byte.
\<close>

record ea_form =
  ea_base :: "nat option"
  ea_index :: "(nat \<times> nat) option"
  ea_disp_at :: nat
  ea_disp_size :: nat

definition ea_form_of :: "nat \<Rightarrow> nat \<Rightarrow> SIB \<Rightarrow> ea_form" where
  "ea_form_of md rm sib =
     (let b = if rm = 4 then sbase sib else rm; nobase = (md = 0 \<and> b = 5) in
      \<lparr>ea_base = (if nobase then None else Some b),
       ea_index = (if rm = 4 \<and> sindex sib \<noteq> 4 then Some (sindex sib, sss sib) else None),
       ea_disp_at = (if rm = 4 then 1 else 0),
       ea_disp_size = (if nobase then 4 else if md = 0 then 0 else if md = 1 then 1 else 4)\<rparr>)"

definition ea_value :: "ea_form \<Rightarrow> u32 list \<Rightarrow> u32 \<Rightarrow> u32" where
  "ea_value f g disp =
     (case ea_base f of None \<Rightarrow> 0 | Some b \<Rightarrow> g ! b) +
     (case ea_index f of None \<Rightarrow> 0 | Some (i, k) \<Rightarrow> g ! i * 2 ^ k) +
     (if ea_disp_size f = 0 then 0 else if ea_disp_size f = 1 then scast (ucast disp :: u8) else disp)"

lemma sib_lt: "sbase (sib_of v) < 8" "sindex (sib_of v) < 8" "sss (sib_of v) < 4"
  by (simp_all add: sib_of_def unat_and_7 unat_and_3)

lemma get_op_upd_isa [simp]: "get_op op (upd_isa f c) = get_op op c"
  by (cases op) (simp_all add: upd_isa_def)

lemma load_addr_sib_room:
  assumes "instr_room c 1"
  shows "load_addr_sib m c =
    Inr (if R_M m = 4 then (sbase (sib_of (code c 0 1)),
           if sindex (sib_of (code c 0 1)) \<noteq> 4 then Some (sindex (sib_of (code c 0 1))) else None,
           sss (sib_of (code c 0 1)))
         else (R_M m, None, 0), fetched (if R_M m = 4 then 1 else 0) c)"
  using fetch_room [OF assms] by (simp add: load_addr_sib_def Let_def) (simp add: fetched_def)

lemma load_addr_disp_room:
  assumes "instr_room c n" "n \<in> {0, 1, 4}"
  shows "load_addr_disp n c =
    Inr (if n = 0 then 0 else if n = 1 then scast (ucast (code c 0 1) :: u8) else code c 0 n, fetched n c)"
  using assms fetch_room [of c n] by (auto simp: load_addr_disp_def fetched_def)

lemma instr_room_mono: "instr_room c n \<Longrightarrow> m \<le> n \<Longrightarrow> instr_room c m"
  by (simp add: instr_room_def)

lemma rd_simps_isa: "rd p (upd_isa f c) = rd p c"
  by (cases p) (simp_all add: upd_isa_def get_op_upd_isa [unfolded upd_isa_def])

lemma shl_scale: "k < 4 \<Longrightarrow> c_shl (v :: u32) (of_nat k) = Inr (v * 2 ^ k)"
proof -
  assume "k < 4"
  then have "k \<in> {0, 1, 2, 3}" by auto
  then show ?thesis by (auto simp: c_shl_def c_shift_mask_def push_bit_eq_mult)
qed

lemma ea_form_bounds:
  assumes "R_M m < 8" "f = ea_form_of (mmod m) (R_M m) (sib_of v)"
  shows "\<forall>i. ea_base f = Some i \<longrightarrow> i < 8" "\<forall>i k. ea_index f = Some (i, k) \<longrightarrow> i < 8 \<and> k < 4"
  using assms sib_lt by (auto simp: ea_form_of_def Let_def)

text \<open>The decoder in terms of the form: what is fetched, and the address computation that remains.\<close>

lemma load_addr_form:
  assumes m: "mmod m < 3" "R_M m < 8" and room: "instr_room c 5"
    and f: "f = ea_form_of (mmod m) (R_M m) (sib_of (code c 0 1))"
  obtains c2 d where "cgpr c2 = cgpr c" "mbus (mach c2) = mbus (mach c)"
    "seq_pc (ds c2) = seq_pc (ds c) + of_nat (ea_disp_at f + ea_disp_size f)"
    "load_addr m op c =
     (let mb = (case ea_base f of None \<Rightarrow> Rz | Some i \<Rightarrow> Rgpr i); c = upd_isa (\<lambda>q. q\<lparr>mbase := Some mb\<rparr>) c2 in
      bindE (case ea_index f of None \<Rightarrow> Inr c
             | Some (i, k) \<Rightarrow> bindE (check_reg_index i) (\<lambda>i.
                 bindE (rtl_shli s1 (Rgpr i) (of_nat k) c) (\<lambda>c.
                 bindE (rtl_add Rmbr mb s1 c) (\<lambda>c. Inr (upd_isa (\<lambda>q. q\<lparr>mbase := Some Rmbr\<rparr>) c))))) (\<lambda>c.
        Inr (upd_op op (\<lambda>q. q\<lparr>op_type := Some OP_TYPE_MEM\<rparr>) (upd_isa (\<lambda>q. q\<lparr>moff := d\<rparr>) c))))"
    "ea_value f (cgpr c) (code c (ea_disp_at f) (ea_disp_size f)) =
      (case ea_base f of None \<Rightarrow> 0 | Some b \<Rightarrow> cgpr c ! b) + (case ea_index f of None \<Rightarrow> 0 | Some (i, k) \<Rightarrow> cgpr c ! i * 2 ^ k) + d"
proof -
  let ?sib = "sib_of (code c 0 1)" and ?s = "ea_disp_at f"
  let ?mb = "case ea_base f of None \<Rightarrow> Rz | Some i \<Rightarrow> Rgpr i"
  have s: "?s = (if R_M m = 4 then 1 else 0)" "?s \<le> 1" "ea_disp_size f \<in> {0, 1, 4}"
    by (auto simp: f ea_form_of_def Let_def)
  define c2 where "c2 = fetched (ea_disp_size f) (fetched ?s c)"
  have r1: "instr_room (fetched ?s c) (ea_disp_size f)"
    using fetched_room [of c ?s "ea_disp_size f"] instr_room_mono [OF room] s by auto
  have base: "load_addr_base m (if R_M m = 4 then sbase ?sib else R_M m) = (ea_base f, ea_disp_size f)"
    by (auto simp: load_addr_base_def f ea_form_of_def Let_def)
  have sib: "load_addr_sib m c = Inr ((if R_M m = 4 then sbase ?sib else R_M m,
      map_option fst (ea_index f), case ea_index f of None \<Rightarrow> (if R_M m = 4 then sss ?sib else 0) | Some (i, k) \<Rightarrow> k), fetched ?s c)"
    using load_addr_sib_room [OF instr_room_mono [OF room, of 1], of m] by (auto simp: f ea_form_of_def Let_def)
  define d where "d = (if ea_disp_size f = 0 then 0
      else if ea_disp_size f = 1 then scast (ucast (code c ?s 1) :: u8) else code c ?s (ea_disp_size f))"
  have disp: "load_addr_disp (ea_disp_size f) (fetched ?s c) = Inr (d, c2)"
    using load_addr_disp_room [OF r1 s(3)] code_fetched [of c ?s 0] instr_room_mono [OF room, of ?s] s(2)
    by (simp add: c2_def d_def)
  have c2: "cgpr c2 = cgpr c" "mbus (mach c2) = mbus (mach c)"
    "seq_pc (ds c2) = seq_pc (ds c) + of_nat (ea_disp_at f + ea_disp_size f)"
    by (simp_all add: c2_def fetched_def add.assoc)
  have "(case ea_base f of None \<Rightarrow> Inr Rz | Some i \<Rightarrow> bindE (check_reg_index i) (\<lambda>i. Inr (Rgpr i))) = Inr ?mb"
    using ea_form_bounds(1) [OF m(2) f] by (simp add: check_reg_index_def split: option.split)
  then have la: "load_addr m op c =
     (let c = upd_isa (\<lambda>q. q\<lparr>mbase := Some ?mb\<rparr>) c2 in
      bindE (case ea_index f of None \<Rightarrow> Inr c
             | Some (i, k) \<Rightarrow> bindE (check_reg_index i) (\<lambda>i.
                 bindE (rtl_shli s1 (Rgpr i) (of_nat k) c) (\<lambda>c.
                 bindE (rtl_add Rmbr ?mb s1 c) (\<lambda>c. Inr (upd_isa (\<lambda>q. q\<lparr>mbase := Some Rmbr\<rparr>) c))))) (\<lambda>c.
        Inr (upd_op op (\<lambda>q. q\<lparr>op_type := Some OP_TYPE_MEM\<rparr>) (upd_isa (\<lambda>q. q\<lparr>moff := d\<rparr>) c))))"
    using m(1) unfolding load_addr_def sib by (cases "ea_index f") (auto simp: base disp Let_def)
  have val: "ea_value f (cgpr c) (code c ?s (ea_disp_size f)) =
      (case ea_base f of None \<Rightarrow> 0 | Some b \<Rightarrow> cgpr c ! b) +
      (case ea_index f of None \<Rightarrow> 0 | Some (i, k) \<Rightarrow> cgpr c ! i * 2 ^ k) + d"
    by (simp add: ea_value_def d_def)
  show thesis using that [OF c2 _ val] la by (simp only: Let_def)
qed

text \<open>
  C5. \<open>load_addr\<close> implements the addressing table: for every memory form of the ModR/M byte it leaves a
  base pointer and an offset whose sum is base register plus scaled index plus sign-extended
  displacement, consumes exactly the SIB and displacement bytes, and changes no register or memory.
\<close>

theorem load_addr_ea:
  assumes wf: "length (cgpr c) = 8" and m: "mmod m < 3" "R_M m < 8" and room: "instr_room c 5"
    and f: "f = ea_form_of (mmod m) (R_M m) (sib_of (code c 0 1))"
  shows "\<exists>c' mb b. load_addr m op c = Inr c' \<and> mbase_of c' = Inr mb \<and> rd mb c' = Inr b \<and>
    b + moff (isa (ds c')) = ea_value f (cgpr c) (code c (ea_disp_at f) (ea_disp_size f)) \<and>
    seq_pc (ds c') = seq_pc (ds c) + of_nat (ea_disp_at f + ea_disp_size f) \<and>
    op_type (get_op op c') = Some OP_TYPE_MEM \<and> cgpr c' = cgpr c \<and> mbus (mach c') = mbus (mach c)"
proof -
  let ?mb = "case ea_base f of None \<Rightarrow> Rz | Some i \<Rightarrow> Rgpr i"
  obtain c2 d where c2: "cgpr c2 = cgpr c" "mbus (mach c2) = mbus (mach c)"
    "seq_pc (ds c2) = seq_pc (ds c) + of_nat (ea_disp_at f + ea_disp_size f)" and la: "load_addr m op c =
     (let mb = ?mb; c = upd_isa (\<lambda>q. q\<lparr>mbase := Some mb\<rparr>) c2 in
      bindE (case ea_index f of None \<Rightarrow> Inr c
             | Some (i, k) \<Rightarrow> bindE (check_reg_index i) (\<lambda>i.
                 bindE (rtl_shli s1 (Rgpr i) (of_nat k) c) (\<lambda>c.
                 bindE (rtl_add Rmbr mb s1 c) (\<lambda>c. Inr (upd_isa (\<lambda>q. q\<lparr>mbase := Some Rmbr\<rparr>) c))))) (\<lambda>c.
        Inr (upd_op op (\<lambda>q. q\<lparr>op_type := Some OP_TYPE_MEM\<rparr>) (upd_isa (\<lambda>q. q\<lparr>moff := d\<rparr>) c))))" and
    val: "ea_value f (cgpr c) (code c (ea_disp_at f) (ea_disp_size f)) =
      (case ea_base f of None \<Rightarrow> 0 | Some b \<Rightarrow> cgpr c ! b) + (case ea_index f of None \<Rightarrow> 0 | Some (i, k) \<Rightarrow> cgpr c ! i * 2 ^ k) + d"
    by (rule load_addr_form [OF m room f])
  note lt = ea_form_bounds [OF m(2) f]
  have mb: "rd ?mb c2 = Inr (case ea_base f of None \<Rightarrow> 0 | Some b \<Rightarrow> cgpr c ! b)" 
    using lt(1) wf c2(1) by (auto split: option.split)
  show ?thesis
  proof (cases "ea_index f")
    case None
    then show ?thesis using la mb c2 lt wf by (cases op; cases "ea_base f") (simp_all add: val upd_isa_def mbase_of_def)
  next
    case (Some ik)
    obtain i k where ik: "ea_index f = Some (i, k)" "i < 8" "k < 4" using lt(2) Some by (cases ik) auto
    show ?thesis using la mb c2 wf lt(1) ik(2,3)
     by (cases op; cases "ea_base f")
       (simp_all add: val ik(1) check_reg_index_def rtl_defs upd_isa_def mbase_of_def shl_scale c_add_def)
  qed
qed

theorem load_addr_ea_witness:
  "\<exists>c' mb b. load_addr \<lparr>R_M = 4, mreg = 0, mmod = 2\<rparr> Dest
       (sample_ctx [0, 0x100027, 0, 2, 0, 0, 0, 0] (put_bytes 0x100000 [0x99, 0x00, 0xe0, 0xff, 0xff] (\<lambda>_. 0))) = Inr c' \<and>
     mbase_of c' = Inr mb \<and> rd mb c' = Inr b \<and> b + moff (isa (ds c')) = 0xfe02f"
proof -
  let ?c = "sample_ctx [0, 0x100027, 0, 2, 0, 0, 0, 0] (put_bytes 0x100000 [0x99, 0x00, 0xe0, 0xff, 0xff] (\<lambda>_. 0))"
  have code: "code ?c 0 1 = 0x99" "code ?c 1 4 = 0xffffe000"
    by (simp_all add: code_def sample_ctx_def decode_state_init_def put_bytes_def upt_rec)
  have f: "ea_form_of 2 4 (sib_of 0x99) = \<lparr>ea_base = Some 1, ea_index = Some (3, 2), ea_disp_at = 1, ea_disp_size = 4\<rparr>"
    by (simp add: ea_form_of_def sib_of_def)
  have room: "instr_room ?c 5"
    by (simp add: instr_room_def sample_ctx_def decode_state_init_def PMEM_SIZE_def)
  have val: "ea_value \<lparr>ea_base = Some 1, ea_index = Some (3, 2), ea_disp_at = 1, ea_disp_size = 4\<rparr>
      [0, 0x100027, 0, 2, 0, 0, 0, 0] 0xffffe000 = 0xfe02f"
    by (simp add: ea_value_def)
  show ?thesis
    using load_addr_ea [of ?c "\<lparr>R_M = 4, mreg = 0, mmod = 2\<rparr>", OF _ _ _ room refl, of Dest] code f val
    by (auto simp: sample_ctx_def)
qed

end
