(* ===== verification/Watchpoint.thy ===== *)
theory Watchpoint
  imports Prelude
begin

text \<open>
  The watchpoint pool of the debugger, \<open>monitor/debug/watchpoint.c\<close>: 32 records in a static array,
  threaded into a list of active watchpoints (\<open>head\<close>) and a free list (\<open>free_\<close>). A pointer to a
  record is its index, \<open>None\<close> the null pointer. The string \<open>watch_expr\<close> is a heap pointer that can be
  null, live or freed. Walks along \<open>next\<close> are partial functions: on a cyclic list they do not return,
  which the callers turn into the fault \<open>Diverge\<close>.
\<close>

section \<open>Data\<close>

definition NR_WP :: nat where "NR_WP = 32"

datatype cstr = Null_str | Str string | Freed_str

record WP =
  NO :: int
  wp_next :: "nat option"
  watch_expr :: cstr
  watch_value :: u32

record wp_state =
  wp_pool :: "WP list"
  wp_head :: "nat option"
  wp_free :: "nat option"

section \<open>Operations\<close>

definition init_wp_pool :: "wp_state \<Rightarrow> wp_state" where
  "init_wp_pool st =
     \<lparr>wp_pool = map (\<lambda>i. \<lparr>NO = int i, wp_next = (if i = NR_WP - 1 then None else Some (i + 1)),
                          watch_expr = Null_str, watch_value = 0\<rparr>) [0..<NR_WP],
      wp_head = None, wp_free = Some 0\<rparr>"

definition new_wp :: "wp_state \<Rightarrow> (nat \<times> wp_state) res" where
  "new_wp st =
     (case wp_free st of
        None \<Rightarrow> Inl Assert_fail
      | Some p \<Rightarrow>
          let pool = wp_pool st in
          Inr (p, \<lparr>wp_pool = pool[p := (pool ! p)\<lparr>wp_next := wp_head st\<rparr>],
                   wp_head = Some p, wp_free = wp_next (pool ! p)\<rparr>))"

text \<open>The loop that looks for the predecessor of \<open>wp\<close>.\<close>

partial_function (option) find_pre :: "WP list \<Rightarrow> nat \<Rightarrow> nat \<Rightarrow> nat option" where
  "find_pre pool wp pre =
     (case wp_next (pool ! pre) of
        None \<Rightarrow> Some pre
      | Some n \<Rightarrow> if n = wp then Some pre else find_pre pool wp n)"

text \<open>\<open>printf\<close> reads the string before \<open>free\<close> releases it.\<close>

fun use_str :: "cstr \<Rightarrow> string res" where
  "use_str Null_str = Inl Null_deref"
| "use_str (Str s) = Inr s"
| "use_str Freed_str = Inl Use_after_free"

definition unlink_wp :: "nat \<Rightarrow> nat \<Rightarrow> WP list \<Rightarrow> (WP list \<times> nat option) res" where
  "unlink_wp wp h pool =
     (if h = wp then Inr (pool, wp_next (pool ! wp))
      else
        bindE (optE Diverge (find_pre pool wp h)) (\<lambda>pre.
        bindE (assertE (wp_next (pool ! pre) = Some wp)) (\<lambda>_.
          Inr (pool[pre := (pool ! pre)\<lparr>wp_next := wp_next (pool ! wp)\<rparr>], Some h))))"

definition free_wp :: "nat \<Rightarrow> wp_state \<Rightarrow> wp_state res" where
  "free_wp wp st =
     (case wp_head st of
        None \<Rightarrow> Inl Assert_fail
      | Some h \<Rightarrow>
          bindE (use_str (watch_expr (wp_pool st ! wp))) (\<lambda>_.
            let pool = (wp_pool st)[wp := (wp_pool st ! wp)\<lparr>watch_expr := Freed_str, watch_value := 0\<rparr>] in
            bindE (unlink_wp wp h pool) (\<lambda>(pool, h').
              Inr \<lparr>wp_pool = pool[wp := (pool ! wp)\<lparr>wp_next := wp_free st\<rparr>],
                   wp_head = h', wp_free = Some wp\<rparr>)))"

partial_function (option) no_to_wp_loop :: "WP list \<Rightarrow> int \<Rightarrow> nat option \<Rightarrow> nat option option" where
  "no_to_wp_loop pool no p =
     (case p of
        None \<Rightarrow> Some None
      | Some i \<Rightarrow> if NO (pool ! i) = no then Some (Some i) else no_to_wp_loop pool no (wp_next (pool ! i)))"

definition no_to_wp :: "int \<Rightarrow> wp_state \<Rightarrow> nat option res" where
  "no_to_wp no st =
     (if no > int NR_WP then Inr None else optE Diverge (no_to_wp_loop (wp_pool st) no (wp_head st)))"

text \<open>
  \<open>check_wp_changed\<close> reevaluates every active expression with \<open>expr\<close>, the argument \<open>ev\<close>, in the
  current CPU and memory, and stores the new values.
\<close>

partial_function (option) check_wp_loop ::
  "(string \<Rightarrow> u32 option res) \<Rightarrow> nat option \<Rightarrow> bool \<Rightarrow> WP list \<Rightarrow> (bool \<times> WP list) res option" where
  "check_wp_loop ev p changed pool =
     (case p of
        None \<Rightarrow> Some (Inr (changed, pool))
      | Some i \<Rightarrow>
          (case use_str (watch_expr (pool ! i)) of
             Inl f \<Rightarrow> Some (Inl f)
           | Inr e \<Rightarrow>
               (case ev e of
                  Inl f \<Rightarrow> Some (Inl f)
                | Inr None \<Rightarrow> Some (Inl Assert_fail)
                | Inr (Some v) \<Rightarrow>
                    if v \<noteq> watch_value (pool ! i) then
                      check_wp_loop ev (wp_next (pool ! i)) True (pool[i := (pool ! i)\<lparr>watch_value := v\<rparr>])
                    else check_wp_loop ev (wp_next (pool ! i)) changed pool)))"

definition check_wp_changed :: "(string \<Rightarrow> u32 option res) \<Rightarrow> wp_state \<Rightarrow> (bool \<times> wp_state) res" where
  "check_wp_changed ev st =
     bindE (optE Diverge (check_wp_loop ev (wp_head st) False (wp_pool st))) (\<lambda>r.
     bindE r (\<lambda>(changed, pool). Inr (changed, st\<lparr>wp_pool := pool\<rparr>)))"

text \<open>\<open>watchpoint_display\<close> prints every active watchpoint in list order.\<close>

partial_function (option) watchpoint_display_loop ::
  "WP list \<Rightarrow> nat option \<Rightarrow> (int \<times> cstr \<times> u32) list \<Rightarrow> (int \<times> cstr \<times> u32) list option" where
  "watchpoint_display_loop pool p out =
     (case p of
        None \<Rightarrow> Some out
      | Some i \<Rightarrow> watchpoint_display_loop pool (wp_next (pool ! i))
          (out @ [(NO (pool ! i), watch_expr (pool ! i), watch_value (pool ! i))]))"

definition watchpoint_display :: "wp_state \<Rightarrow> (int \<times> cstr \<times> u32) list res" where
  "watchpoint_display st = optE Diverge (watchpoint_display_loop (wp_pool st) (wp_head st) [])"

section \<open>Interface of a resource pool\<close>

text \<open>
  A pool hands out and takes back resources. \<open>active\<close> and \<open>free\<close> list them, the resource handed out
  last first; \<open>live r s\<close> says that \<open>r\<close> may be given back. The laws are what the debugger relies on.
\<close>

fun alloc_many :: "('s \<Rightarrow> ('r \<times> 's) res) \<Rightarrow> nat \<Rightarrow> 's \<Rightarrow> ('r list \<times> 's) res" where
  "alloc_many alloc 0 s = Inr ([], s)"
| "alloc_many alloc (Suc n) s =
     bindE (alloc s) (\<lambda>(r, s). bindE (alloc_many alloc n s) (\<lambda>(rs, s). Inr (r # rs, s)))"

locale resource_pool =
  fixes inv :: "'s \<Rightarrow> bool"
    and active :: "'s \<Rightarrow> 'r list"
    and free :: "'s \<Rightarrow> 'r list"
    and live :: "'r \<Rightarrow> 's \<Rightarrow> bool"
    and alloc :: "'s \<Rightarrow> ('r \<times> 's) res"
    and release :: "'r \<Rightarrow> 's \<Rightarrow> 's res"
  assumes pool_distinct: "inv s \<Longrightarrow> distinct (active s @ free s)"
    and alloc_empty: "inv s \<Longrightarrow> free s = [] \<Longrightarrow> alloc s = Inl Assert_fail"
    and alloc_ok: "inv s \<Longrightarrow> free s = r # rs \<Longrightarrow>
      \<exists>s'. alloc s = Inr (r, s') \<and> inv s' \<and> active s' = r # active s \<and> free s' = rs"
    and release_ok: "inv s \<Longrightarrow> r \<in> set (active s) \<Longrightarrow> live r s \<Longrightarrow>
      \<exists>s'. release r s = Inr s' \<and> inv s' \<and> active s' = remove1 r (active s) \<and> free s' = r # free s"
begin

lemma alloc_cases:
  assumes "inv s"
  obtains "free s = []" "alloc s = Inl Assert_fail"
  | r s' where "free s = r # free s'" "alloc s = Inr (r, s')" "inv s'" "active s' = r # active s"
  using alloc_empty [OF assms] alloc_ok [OF assms] by (cases "free s") auto

lemma alloc_Inr:
  assumes "inv s" and "alloc s = Inr (r, s')"
  shows "inv s' \<and> free s = r # free s' \<and> active s' = r # active s"
  using assms by (auto elim: alloc_cases)

lemma alloc_fresh: "inv s \<Longrightarrow> alloc s = Inr (r, s') \<Longrightarrow> r \<notin> set (active s)"
  using alloc_Inr pool_distinct by force

lemma alloc_succeeds_iff: "inv s \<Longrightarrow> (\<exists>r s'. alloc s = Inr (r, s')) \<longleftrightarrow> free s \<noteq> []"
  by (erule alloc_cases) auto

lemma alloc_capacity:
  "inv s \<Longrightarrow> alloc s = Inr (r, s') \<Longrightarrow> length (active s') + length (free s') = length (active s) + length (free s)"
  using alloc_Inr [of s r s'] by auto

lemma release_capacity:
  assumes "inv s" "r \<in> set (active s)" "live r s" "release r s = Inr s'"
  shows "length (active s') + length (free s') = length (active s) + length (free s)"
  using release_ok [OF assms(1-3)] assms(2,4) length_pos_if_in_set [OF assms(2)]
  by (auto simp: length_remove1)

text \<open>Handing a resource back right after it was handed out restores both lists.\<close>

lemma alloc_release:
  assumes "inv s" "alloc s = Inr (r, s')" "live r s'"
  shows "\<exists>s''. release r s' = Inr s'' \<and> inv s'' \<and> active s'' = active s \<and> free s'' = free s"
proof -
  have a: "inv s'" "free s = r # free s'" "active s' = r # active s" using alloc_Inr assms by auto
  then show ?thesis using release_ok [of s' r] assms(3) by auto
qed

text \<open>Repeated requests: with \<open>n\<close> free resources exactly \<open>n\<close> succeed.\<close>

lemma alloc_many_ok:
  "inv s \<Longrightarrow> n \<le> length (free s) \<Longrightarrow>
     \<exists>s'. alloc_many alloc n s = Inr (take n (free s), s') \<and> inv s' \<and>
          active s' = rev (take n (free s)) @ active s \<and> free s' = drop n (free s)"
proof (induction n arbitrary: s)
  case (Suc n)
  then obtain r s1 where s1: "free s = r # free s1" "alloc s = Inr (r, s1)" "inv s1" "active s1 = r # active s"
    by (auto elim: alloc_cases)
  then show ?case using Suc.IH [of s1] Suc.prems by auto
qed simp

lemma alloc_many_exhausted: "inv s \<Longrightarrow> n > length (free s) \<Longrightarrow> alloc_many alloc n s = Inl Assert_fail"
proof (induction n arbitrary: s)
  case (Suc n)
  show ?case
  proof (rule alloc_cases [OF Suc.prems(1)])
    fix r s' assume "free s = r # free s'" "alloc s = Inr (r, s')" "inv s'"
    then show ?thesis using Suc by simp
  qed simp
qed simp

end

section \<open>Linked lists in the pool\<close>

fun path :: "WP list \<Rightarrow> nat option \<Rightarrow> nat list \<Rightarrow> bool" where
  "path pool p [] \<longleftrightarrow> p = None"
| "path pool p (x # xs) \<longleftrightarrow> p = Some x \<and> x < length pool \<and> path pool (wp_next (pool ! x)) xs"

fun nodes :: "nat \<Rightarrow> WP list \<Rightarrow> nat option \<Rightarrow> nat list" where
  "nodes 0 pool p = []"
| "nodes (Suc n) pool None = []"
| "nodes (Suc n) pool (Some x) = x # nodes n pool (wp_next (pool ! x))"

lemma nodes_path: "path pool p xs \<Longrightarrow> length xs \<le> n \<Longrightarrow> nodes n pool p = xs"
proof (induction xs arbitrary: p n)
  case Nil
  then show ?case by (cases n) auto
next
  case (Cons x xs)
  then show ?case by (cases n) auto
qed

lemma path_cong:
  "length pool' = length pool \<Longrightarrow> \<forall>x\<in>set xs. wp_next (pool' ! x) = wp_next (pool ! x) \<Longrightarrow>
     path pool' p xs = path pool p xs"
  by (induction xs arbitrary: p) auto

lemma path_update_other: "i \<notin> set xs \<Longrightarrow> path (pool[i := w]) p xs = path pool p xs"
  by (rule path_cong) (auto simp: nth_list_update_if)

lemma path_update_data: "wp_next w = wp_next (pool ! i) \<Longrightarrow> path (pool[i := w]) p xs = path pool p xs"
  by (rule path_cong) (auto simp: nth_list_update_if)

text \<open>Unlinking the element after a prefix.\<close>

lemma find_pre_path:
  "path pool (Some h) (h # xs @ wp # ys) \<Longrightarrow> wp \<notin> set (h # xs) \<Longrightarrow>
     find_pre pool wp h = Some (last (h # xs)) \<and> wp_next (pool ! last (h # xs)) = Some wp"
proof (induction xs arbitrary: h)
  case Nil
  then show ?case by (simp add: find_pre.simps [of pool wp h])
next
  case (Cons x xs)
  then have "find_pre pool wp h = find_pre pool wp x" by (simp add: find_pre.simps [of pool wp h])
  then show ?case using Cons by simp
qed

lemma path_unlink:
  "path pool p (xs @ pre # wp # ys) \<Longrightarrow> distinct (xs @ pre # wp # ys) \<Longrightarrow>
     path (pool[pre := (pool ! pre)\<lparr>wp_next := wp_next (pool ! wp)\<rparr>]) p (xs @ pre # ys)"
proof (induction xs arbitrary: p)
  case Nil
  then show ?case by (simp add: path_update_other)
next
  case (Cons x xs)
  then show ?case by simp
qed

lemma unlink_wp_path:
  assumes "path pool (Some h) hs" "distinct hs" "wp \<in> set hs"
  shows "\<exists>pool' h'. unlink_wp wp h pool = Inr (pool', h') \<and> path pool' h' (remove1 wp hs) \<and>
    length pool' = length pool \<and>
    (\<forall>i. pool' ! i = (pool ! i)\<lparr>wp_next := wp_next (pool' ! i)\<rparr>) \<and> (\<forall>i. i \<notin> set hs \<longrightarrow> pool' ! i = pool ! i)"
proof (cases "h = wp")
  case True
  then obtain ys where "hs = wp # ys" using assms(1) by (cases hs) auto
  then show ?thesis using assms True by (simp add: unlink_wp_def)
next
  case False
  then obtain xs ys where hs: "hs = h # xs @ wp # ys" and nin: "wp \<notin> set (h # xs)"
    using assms split_list_first [OF assms(3)] by (cases hs) (auto simp: append_eq_Cons_conv Cons_eq_append_conv)
  let ?pre = "last (h # xs)"
  have pre: "find_pre pool wp h = Some ?pre" "wp_next (pool ! ?pre) = Some wp"
    using find_pre_path [of pool h xs wp ys] assms(1) hs nin by auto
  have hs': "hs = butlast (h # xs) @ ?pre # wp # ys" by (simp add: hs)
  have "remove1 wp hs = butlast (h # xs) @ ?pre # ys"
    using nin hs by (simp add: remove1_append)
  moreover have "path (pool[?pre := (pool ! ?pre)\<lparr>wp_next := wp_next (pool ! wp)\<rparr>]) (Some h) (butlast (h # xs) @ ?pre # ys)"
    using path_unlink [of pool "Some h" "butlast (h # xs)" ?pre wp ys] assms(1,2) hs' by metis
  moreover have "?pre \<in> set hs" using hs' by (metis in_set_conv_decomp)
  ultimately show ?thesis
    using pre False by (auto simp: unlink_wp_def nth_list_update_if)
qed

section \<open>Invariant of the pool\<close>

definition active_wps :: "wp_state \<Rightarrow> nat list" where
  "active_wps st = nodes NR_WP (wp_pool st) (wp_head st)"

definition free_wps :: "wp_state \<Rightarrow> nat list" where
  "free_wps st = nodes NR_WP (wp_pool st) (wp_free st)"

definition live_wp :: "nat \<Rightarrow> wp_state \<Rightarrow> bool" where
  "live_wp i st = (\<exists>e. watch_expr (wp_pool st ! i) = Str e)"

definition wp_inv :: "wp_state \<Rightarrow> bool" where
  "wp_inv st \<longleftrightarrow> length (wp_pool st) = NR_WP \<and>
     path (wp_pool st) (wp_head st) (active_wps st) \<and> path (wp_pool st) (wp_free st) (free_wps st) \<and>
     distinct (active_wps st @ free_wps st) \<and> set (active_wps st @ free_wps st) = {..<NR_WP} \<and>
     (\<forall>i<NR_WP. NO (wp_pool st ! i) = int i)"

lemma wp_invI:
  assumes "length (wp_pool st) = NR_WP" "path (wp_pool st) (wp_head st) hs" "path (wp_pool st) (wp_free st) fs"
    "distinct (hs @ fs)" "set (hs @ fs) = {..<NR_WP}" "\<forall>i<NR_WP. NO (wp_pool st ! i) = int i"
  shows "wp_inv st" "active_wps st = hs" "free_wps st = fs"
proof -
  have "length hs + length fs = NR_WP" using distinct_card [OF assms(4)] assms(5) by simp
  then show 1: "active_wps st = hs" and 2: "free_wps st = fs"
    using nodes_path [OF assms(2)] nodes_path [OF assms(3)] by (simp_all add: active_wps_def free_wps_def)
  show "wp_inv st" unfolding wp_inv_def 1 2 using assms by blast
qed

lemma wp_inv_init: "wp_inv (init_wp_pool st)" "active_wps (init_wp_pool st) = []"
  "free_wps (init_wp_pool st) = [0..<NR_WP]"
proof -
  let ?st = "init_wp_pool st"
  have step: "n \<le> NR_WP \<Longrightarrow> path (wp_pool ?st) (if n = NR_WP then None else Some n) [n..<NR_WP]" for n
  proof (induction "NR_WP - n" arbitrary: n)
    case (Suc k)
    then have n: "n < NR_WP" "path (wp_pool ?st) (if Suc n = NR_WP then None else Some (Suc n)) [Suc n..<NR_WP]"
      by auto
    have "wp_next (wp_pool ?st ! n) = (if Suc n = NR_WP then None else Some (Suc n))"
      using n by (auto simp: init_wp_pool_def)
    moreover have "length (wp_pool ?st) = NR_WP" by (simp add: init_wp_pool_def)
    ultimately show ?case using n by (simp add: upt_conv_Cons)
  qed simp
  have fr: "path (wp_pool ?st) (wp_free ?st) [0..<NR_WP]"
    using step [of 0] by (simp add: init_wp_pool_def NR_WP_def)
  have "wp_inv ?st \<and> active_wps ?st = [] \<and> free_wps ?st = [0..<NR_WP]"
    by (intro conjI; rule wp_invI [of ?st "[]" "[0..<NR_WP]"])
      (use fr in \<open>auto simp: init_wp_pool_def lessThan_atLeast0\<close>)
  then show "wp_inv ?st" "active_wps ?st = []" "free_wps ?st = [0..<NR_WP]" by auto
qed

lemma wp_invD:
  assumes "wp_inv st"
  shows "length (wp_pool st) = NR_WP" "path (wp_pool st) (wp_head st) (active_wps st)"
    "path (wp_pool st) (wp_free st) (free_wps st)" "distinct (active_wps st @ free_wps st)"
    "set (active_wps st @ free_wps st) = {..<NR_WP}" "i < NR_WP \<Longrightarrow> NO (wp_pool st ! i) = int i"
  using assms unfolding wp_inv_def by blast+

lemma wp_inv_lt: "wp_inv st \<Longrightarrow> i \<in> set (active_wps st) \<Longrightarrow> i < NR_WP"
  using wp_invD(5) [of st] by auto

lemma new_wp_empty: "wp_inv st \<Longrightarrow> free_wps st = [] \<Longrightarrow> new_wp st = Inl Assert_fail"
  using wp_invD(3) [of st] by (simp add: new_wp_def)

lemma new_wp_ok:
  assumes "wp_inv st" "free_wps st = r # rs"
  shows "\<exists>st'. new_wp st = Inr (r, st') \<and> wp_inv st' \<and> active_wps st' = r # active_wps st \<and> free_wps st' = rs"
proof -
  note inv = wp_invD [OF assms(1)]
  let ?pool = "(wp_pool st)[r := (wp_pool st ! r)\<lparr>wp_next := wp_head st\<rparr>]"
  let ?st = "\<lparr>wp_pool = ?pool, wp_head = Some r, wp_free = wp_next (wp_pool st ! r)\<rparr>"
  have fr: "wp_free st = Some r" "r < NR_WP" "path (wp_pool st) (wp_next (wp_pool st ! r)) rs"
    using inv(1,3) assms(2) by auto
  have nin: "r \<notin> set (active_wps st)" "r \<notin> set rs" using inv(4) assms(2) by auto
  have "wp_inv ?st \<and> active_wps ?st = r # active_wps st \<and> free_wps ?st = rs"
    by (intro conjI; rule wp_invI [of ?st "r # active_wps st" rs])
      (use inv fr nin assms(2) in \<open>auto simp: path_update_other nth_list_update_if\<close>)
  then show ?thesis using fr by (simp add: new_wp_def Let_def)
qed

lemma free_wp_ok:
  assumes "wp_inv st" "r \<in> set (active_wps st)" "live_wp r st"
  shows "\<exists>st'. free_wp r st = Inr st' \<and> wp_inv st' \<and> active_wps st' = remove1 r (active_wps st) \<and>
    free_wps st' = r # free_wps st"
proof -
  note inv = wp_invD [OF assms(1)]
  obtain e where e: "watch_expr (wp_pool st ! r) = Str e" using assms(3) by (auto simp: live_wp_def)
  obtain h where h: "wp_head st = Some h" using inv(2) assms(2) by (cases "active_wps st") auto
  let ?p1 = "(wp_pool st)[r := (wp_pool st ! r)\<lparr>watch_expr := Freed_str, watch_value := 0\<rparr>]"
  have p1: "path ?p1 (Some h) (active_wps st)" "path ?p1 (wp_free st) (free_wps st)"
    using inv(2,3) h by (simp_all add: path_update_data)
  obtain p2 h' where u: "unlink_wp r h ?p1 = Inr (p2, h')" "path p2 h' (remove1 r (active_wps st))"
    "length p2 = length ?p1" "\<forall>i. p2 ! i = (?p1 ! i)\<lparr>wp_next := wp_next (p2 ! i)\<rparr>"
    "\<forall>i. i \<notin> set (active_wps st) \<longrightarrow> p2 ! i = ?p1 ! i"
    using unlink_wp_path [OF p1(1) _ assms(2)] inv(4) by auto
  let ?st = "\<lparr>wp_pool = p2[r := (p2 ! r)\<lparr>wp_next := wp_free st\<rparr>], wp_head = h', wp_free = Some r\<rparr>"
  have NO: "NO (p2 ! i) = int i" if "i < NR_WP" for i
    using u(4) [rule_format, of i] inv(1) inv(6) [OF that] by (metis (mono_tags, lifting) WP.simps(1) WP.surjective WP.update_convs(2) WP.update_convs(3) WP.update_convs(4) nth_list_update_if)
  have fp: "path p2 (wp_free st) (free_wps st)"
    using p1(2) path_cong [of p2 ?p1 "free_wps st"] u(3,5) inv(4) by (metis disjoint_iff distinct_append)
  have r: "r < NR_WP" "r \<notin> set (free_wps st)" "r \<notin> set (remove1 r (active_wps st))"
    using inv(4,5) assms(2) by auto
  have D: "distinct (remove1 r (active_wps st) @ r # free_wps st)" using inv(4) r by (auto simp: set_remove1_eq)
  have S: "set (remove1 r (active_wps st) @ r # free_wps st) = {..<NR_WP}"
    using inv(4,5) assms(2) by (auto simp: set_remove1_eq)
  have "wp_inv ?st \<and> active_wps ?st = remove1 r (active_wps st) \<and> free_wps ?st = r # free_wps st"
    by (intro conjI; rule wp_invI [of ?st "remove1 r (active_wps st)" "r # free_wps st"])
      (use inv(1) u(2,3) NO fp r D S in \<open>auto simp: path_update_other nth_list_update_if\<close>)
  then show ?thesis using e h u(1) by (simp add: free_wp_def Let_def)
qed

interpretation wp: resource_pool wp_inv active_wps free_wps live_wp new_wp free_wp
  using new_wp_empty new_wp_ok free_wp_ok wp_invD(4) by unfold_locales blast+

section \<open>Lookup and display\<close>

text \<open>\<open>cmd_w\<close> stores the expression and its value in the record it was given.\<close>

definition set_watch :: "nat \<Rightarrow> string \<Rightarrow> u32 \<Rightarrow> wp_state \<Rightarrow> wp_state" where
  "set_watch i e v st =
     st\<lparr>wp_pool := (wp_pool st)[i := (wp_pool st ! i)\<lparr>watch_expr := Str e, watch_value := v\<rparr>]\<rparr>"

lemma wp_inv_set_watch:
  assumes "wp_inv st"
  shows "wp_inv (set_watch i e v st)" "active_wps (set_watch i e v st) = active_wps st"
    "free_wps (set_watch i e v st) = free_wps st" "i < NR_WP \<Longrightarrow> live_wp i (set_watch i e v st)"
proof -
  note inv = wp_invD [OF assms]
  have "wp_inv (set_watch i e v st) \<and> active_wps (set_watch i e v st) = active_wps st \<and>
      free_wps (set_watch i e v st) = free_wps st"
    by (intro conjI; rule wp_invI [of "set_watch i e v st" "active_wps st" "free_wps st"])
      (use inv in \<open>auto simp: set_watch_def path_update_data nth_list_update_if\<close>)
  then show "wp_inv (set_watch i e v st)" "active_wps (set_watch i e v st) = active_wps st"
    "free_wps (set_watch i e v st) = free_wps st" by auto
  show "i < NR_WP \<Longrightarrow> live_wp i (set_watch i e v st)" using inv(1) by (simp add: set_watch_def live_wp_def)
qed

lemma no_to_wp_loop_path:
  "path pool p xs \<Longrightarrow> no_to_wp_loop pool no p = Some (find (\<lambda>i. NO (pool ! i) = no) xs)"
proof (induction xs arbitrary: p)
  case Nil
  then show ?case by (simp add: no_to_wp_loop.simps)
next
  case (Cons x xs)
  then show ?case by (simp add: no_to_wp_loop.simps [of pool no "Some x"])
qed

lemma find_number:
  "\<forall>i\<in>set xs. P i = (int i = no) \<Longrightarrow> find P xs = (if no \<ge> 0 \<and> nat no \<in> set xs then Some (nat no) else None)"
  by (induction xs) (auto split: if_splits)

text \<open>A pool with one active watchpoint, number 0 on \<open>$eax\<close> with the stored value 7.\<close>

definition sample_wps :: wp_state where
  "sample_wps = set_watch 0 ''$eax'' 7 (snd (projr (new_wp (init_wp_pool \<lparr>wp_pool = [], wp_head = None, wp_free = None\<rparr>))))"

lemma sample_wps:
  "wp_inv sample_wps" "active_wps sample_wps = [0]"
  "watch_expr (wp_pool sample_wps ! 0) = Str ''$eax''" "watch_value (wp_pool sample_wps ! 0) = 7"
proof -
  let ?s = "init_wp_pool \<lparr>wp_pool = [], wp_head = None, wp_free = None\<rparr>"
  have "free_wps ?s = 0 # [1..<NR_WP]" 
    unfolding wp_inv_init(3) by (subst upt_rec) (simp add: NR_WP_def del: upt.simps)
  then obtain s' where s': "new_wp ?s = Inr (0, s')" "wp_inv s'" "active_wps s' = [0]"
    using new_wp_ok [OF wp_inv_init(1)] wp_inv_init(2) by metis
  then show "wp_inv sample_wps" "active_wps sample_wps = [0]"
    by (simp_all add: sample_wps_def wp_inv_set_watch)
  show "watch_expr (wp_pool sample_wps ! 0) = Str ''$eax''" "watch_value (wp_pool sample_wps ! 0) = 7"
    using s' wp_invD(1) [OF s'(2)] by (simp_all add: sample_wps_def set_watch_def NR_WP_def)
qed

lemma no_to_wp_find:
  assumes "wp_inv st"
  shows "no_to_wp no st = Inr (if no \<ge> 0 \<and> nat no \<in> set (active_wps st) then Some (nat no) else None)"
proof -
  note inv = wp_invD [OF assms]
  have NO: "\<forall>i\<in>set (active_wps st). (NO (wp_pool st ! i) = no) = (int i = no)" using inv(6) wp_inv_lt [OF assms] by auto
  have small: "no \<le> int NR_WP" if "no \<ge> 0" "nat no \<in> set (active_wps st)"
    using wp_inv_lt [OF assms that(2)] that(1) by linarith
  show ?thesis
    using no_to_wp_loop_path [OF inv(2), of no] find_number [OF NO] small by (auto simp: no_to_wp_def)
qed

text \<open>
  In a well-formed pool the lookup by number returns: the active watchpoint with that number, or
  nothing when no active watchpoint has it.
\<close>

theorem no_to_wp_active:
  assumes "wp_inv st"
  shows "no_to_wp no st = Inr (if no \<ge> 0 \<and> nat no \<in> set (active_wps st) then Some (nat no) else None)"
  by (rule no_to_wp_find [OF assms])

theorem no_to_wp_active_witness:
  "no_to_wp 0 sample_wps = Inr (Some 0) \<and> no_to_wp 3 sample_wps = Inr None"
  using no_to_wp_active [OF sample_wps(1), of 0] no_to_wp_active [OF sample_wps(1), of 3] by (simp add: sample_wps)

lemma watchpoint_display_path:
  "path pool p xs \<Longrightarrow> watchpoint_display_loop pool p out =
     Some (out @ map (\<lambda>i. (NO (pool ! i), watch_expr (pool ! i), watch_value (pool ! i))) xs)"
proof (induction xs arbitrary: p out)
  case Nil
  then show ?case by (simp add: watchpoint_display_loop.simps)
next
  case (Cons x xs)
  then show ?case by (simp add: watchpoint_display_loop.simps [of pool "Some x"])
qed

section \<open>Change detection\<close>

definition store_value :: "(nat \<Rightarrow> u32) \<Rightarrow> nat \<Rightarrow> WP list \<Rightarrow> WP list" where
  "store_value val i pool = pool[i := (pool ! i)\<lparr>watch_value := val i\<rparr>]"

lemma store_value_nth:
  "store_value val i pool ! j = (if i = j \<and> j < length pool then (pool ! j)\<lparr>watch_value := val j\<rparr> else pool ! j)"
  by (auto simp: store_value_def nth_list_update_if)

lemma store_values_nth:
  "length (fold (store_value val) xs pool) = length pool \<and>
   fold (store_value val) xs pool ! j =
     (if j \<in> set xs \<and> j < length pool then (pool ! j)\<lparr>watch_value := val j\<rparr> else pool ! j)"
proof (induction xs arbitrary: pool)
  case (Cons x xs)
  have len: "length (store_value val x pool) = length pool" by (simp add: store_value_def)
  show ?case using Cons [of "store_value val x pool"] by (auto simp: len store_value_nth)
qed simp

lemma check_wp_loop_path:
  "path pool p xs \<Longrightarrow> distinct xs \<Longrightarrow>
   \<forall>i\<in>set xs. \<exists>e. watch_expr (pool ! i) = Str e \<and> ev e = Inr (Some (val i)) \<Longrightarrow>
   check_wp_loop ev p ch pool =
     Some (Inr (ch \<or> (\<exists>i\<in>set xs. watch_value (pool ! i) \<noteq> val i), fold (store_value val) xs pool))"
proof (induction xs arbitrary: p ch pool)
  case Nil
  then show ?case by (simp add: check_wp_loop.simps)
next
  case (Cons x xs)
  let ?pool = "store_value val x pool"
  obtain e where e: "watch_expr (pool ! x) = Str e" "ev e = Inr (Some (val x))" using Cons.prems(3) by auto
  have x: "x \<notin> set xs" "x < length pool" "p = Some x" using Cons.prems by auto
  have other: "\<forall>i\<in>set xs. ?pool ! i = pool ! i" using x by (auto simp: store_value_nth)
  have "path ?pool (wp_next (pool ! x)) xs"
    using Cons.prems(1) x by (simp add: store_value_def path_update_other)
  moreover have same: "?pool = pool" if "watch_value (pool ! x) = val x"
    unfolding store_value_def using that [symmetric] by simp
  ultimately have IH: "check_wp_loop ev (wp_next (pool ! x)) b ?pool =
     Some (Inr (b \<or> (\<exists>i\<in>set xs. watch_value (pool ! i) \<noteq> val i), fold (store_value val) xs ?pool))" for b
    using Cons.IH [of ?pool "wp_next (pool ! x)" b] Cons.prems(2,3) other by auto
  have "check_wp_loop ev p ch pool =
      check_wp_loop ev (wp_next (pool ! x)) (ch \<or> watch_value (pool ! x) \<noteq> val x) ?pool"
    using e same by (auto simp: x(3) check_wp_loop.simps [of ev "Some x"] store_value_def)
  then show ?case using IH x by auto
qed

text \<open>The state after a check in which the expression of watchpoint \<open>i\<close> has the value \<open>val i\<close>.\<close>

definition checked :: "(nat \<Rightarrow> u32) \<Rightarrow> wp_state \<Rightarrow> wp_state" where
  "checked val st = st\<lparr>wp_pool := fold (store_value val) (active_wps st) (wp_pool st)\<rparr>"

lemma wp_inv_checked:
  assumes "wp_inv st"
  shows "wp_inv (checked val st)" "active_wps (checked val st) = active_wps st"
    "free_wps (checked val st) = free_wps st"
proof -
  note inv = wp_invD [OF assms]
  let ?pool = "fold (store_value val) (active_wps st) (wp_pool st)"
  have p: "path ?pool q xs = path (wp_pool st) q xs" for q xs
    by (rule path_cong) (auto simp: store_values_nth)
  have "wp_inv (checked val st) \<and> active_wps (checked val st) = active_wps st \<and>
      free_wps (checked val st) = free_wps st"
    by (intro conjI; rule wp_invI [of "checked val st" "active_wps st" "free_wps st"])
      (use inv in \<open>auto simp: checked_def p store_values_nth\<close>)
  then show "wp_inv (checked val st)" "active_wps (checked val st) = active_wps st"
    "free_wps (checked val st) = free_wps st" by auto
qed

lemma check_wp_changed_eq:
  assumes "wp_inv st"
    and "\<forall>i\<in>set (active_wps st). \<exists>e. watch_expr (wp_pool st ! i) = Str e \<and> ev e = Inr (Some (val i))"
  shows "check_wp_changed ev st =
    Inr (\<exists>i\<in>set (active_wps st). watch_value (wp_pool st ! i) \<noteq> val i, checked val st)"
  using check_wp_loop_path [OF wp_invD(2) [OF assms(1)] _ assms(2)] wp_invD(4) [OF assms(1)]
  by (simp add: check_wp_changed_def checked_def)

text \<open>
  C9. When every active expression evaluates, \<open>check_wp_changed\<close> returns, reports a change exactly if
  some active expression has a value other than the stored one, stores the new values, keeps the
  pool well-formed, and reports no change when it is called again in the same machine state.
\<close>

theorem check_wp_changed_detects:
  assumes "wp_inv st"
    and "\<forall>i\<in>set (active_wps st). \<exists>e. watch_expr (wp_pool st ! i) = Str e \<and> ev e = Inr (Some (val i))"
  shows "\<exists>st'. check_wp_changed ev st =
      Inr (\<exists>i\<in>set (active_wps st). watch_value (wp_pool st ! i) \<noteq> val i, st') \<and>
    wp_inv st' \<and> active_wps st' = active_wps st \<and> free_wps st' = free_wps st \<and>
    (\<forall>i\<in>set (active_wps st). wp_pool st' ! i = (wp_pool st ! i)\<lparr>watch_value := val i\<rparr>) \<and>
    check_wp_changed ev st' = Inr (False, checked val st')"
proof -
  note inv = wp_invD [OF assms(1)]
  have nth: "wp_pool (checked val st) ! i = (wp_pool st ! i)\<lparr>watch_value := val i\<rparr>"
    if "i \<in> set (active_wps st)" for i
    using that inv(1,5) by (auto simp: checked_def store_values_nth)
  have "check_wp_changed ev (checked val st) = Inr (False, checked val (checked val st))"
    using check_wp_changed_eq [OF wp_inv_checked(1) [OF assms(1)], of val ev val] assms nth
    by (simp add: wp_inv_checked(2))
  then show ?thesis
    using check_wp_changed_eq [OF assms] wp_inv_checked [OF assms(1)] nth by blast
qed

theorem check_wp_changed_detects_witness:
  "\<exists>st'. check_wp_changed (\<lambda>e. Inr (Some 9)) sample_wps = Inr (True, st') \<and>
    check_wp_changed (\<lambda>e. Inr (Some 9)) st' = Inr (False, checked (\<lambda>_. 9) st')"
  using check_wp_changed_detects [OF sample_wps(1), of "\<lambda>e. Inr (Some 9)" "\<lambda>_. 9"]
  by (auto simp: sample_wps)

section \<open>Creation and deletion\<close>

text \<open>
  A watchpoint that is created, given an expression and deleted again leaves the active list and
  the free list of a well-formed pool as they were; in between it is the first of the active list
  and was not active before.
\<close>

theorem new_free_wp_restores:
  assumes "wp_inv st" and "new_wp st = Inr (r, st')"
  shows "r \<notin> set (active_wps st) \<and> active_wps st' = r # active_wps st \<and>
    (\<exists>st''. free_wp r (set_watch r e v st') = Inr st'' \<and> wp_inv st'' \<and>
       active_wps st'' = active_wps st \<and> free_wps st'' = free_wps st)"
proof -
  note a = wp.alloc_Inr [OF assms]
  have "r < NR_WP" using a wp_invD(5) [OF assms(1)] by auto
  then show ?thesis
    using a wp.alloc_fresh [OF assms] wp.release_ok [of "set_watch r e v st'" r]
    by (auto simp: wp_inv_set_watch)
qed

theorem new_free_wp_restores_witness:
  "\<exists>r st' st''. new_wp sample_wps = Inr (r, st') \<and> free_wp r (set_watch r ''1'' 1 st') = Inr st'' \<and>
    active_wps st'' = [0]"
proof -
  have "length (active_wps sample_wps @ free_wps sample_wps) = NR_WP"
    using distinct_card [OF wp_invD(4) [OF sample_wps(1)]] wp_invD(5) [OF sample_wps(1)] by simp
  then have "free_wps sample_wps \<noteq> []" by (auto simp: sample_wps NR_WP_def)
  then obtain r st' where "new_wp sample_wps = Inr (r, st')"
    using wp.alloc_succeeds_iff [OF sample_wps(1)] by auto
  then show ?thesis using new_free_wp_restores [OF sample_wps(1)] sample_wps(2) by metis
qed

text \<open>
  A freshly initialised pool hands out all 32 watchpoints, in order and each once, and the
  thirty-third request fails its assertion.
\<close>

theorem new_wp_capacity:
  "(\<exists>st'. alloc_many new_wp NR_WP (init_wp_pool st) = Inr ([0..<NR_WP], st') \<and> wp_inv st' \<and> free_wps st' = []) \<and>
   alloc_many new_wp (Suc NR_WP) (init_wp_pool st) = Inl Assert_fail"
  using wp.alloc_many_ok [OF wp_inv_init(1), of NR_WP st]
    wp.alloc_many_exhausted [OF wp_inv_init(1), of st "Suc NR_WP"] wp_inv_init(3) [of st]
  by (auto simp del: alloc_many.simps)

end
