(* ===== verification/Monitor.thy ===== *)
theory Monitor
  imports X86_Correct Expr Watchpoint
begin

text \<open>
  The monitor: the execution loop of \<open>monitor/cpu-exec.c\<close>, the debugger commands of
  \<open>monitor/debug/ui.c\<close>, the start-up of \<open>monitor/monitor.c\<close> and \<open>main\<close>. Differential testing is off in
  the configuration of \<open>common.h\<close>, so \<open>difftest_step\<close> does nothing here. What the monitor prints is a
  list of messages, the disassembly of \<open>asm_print\<close> and the statistics left out; the lines the user
  types are a list, whose end is the null pointer \<open>readline\<close> returns at end of file.
\<close>

section \<open>State\<close>

datatype msg =
    Msg_ended | Msg_bad_argument | Msg_expr_error | Msg_value u32 | Msg_no_number | Msg_no_such_wp int
  | Msg_addr u32 | Msg_word u32 | Msg_newline | Msg_invalid_args | Msg_info_what | Msg_unknown string
  | Msg_help string string | Msg_reg string u32 | Msg_wp int cstr u32 | Msg_trap run_state u32 u32

text \<open>
  The build configuration and the host: whether \<open>HAS_IOE\<close> is defined, SDL's scancodes, how many alarm signals
  (\<open>SIGVTALRM\<close>) arrive in a round of the execution loop, and the events \<open>SDL_PollEvent\<close> delivers in it. Rounds are named by
  the number of instructions executed.
\<close>

record config =
  has_ioe :: bool
  sdl_scancode :: "string \<Rightarrow> u8"
  alarms :: "u64 \<Rightarrow> nat"
  sdl_events :: "u64 \<Rightarrow> SDL_Event list"

record nemu =
  nm :: "u32 machine"
  wps :: wp_state
  g_nr_guest_instr :: u64
  console :: "msg list"

definition say :: "msg \<Rightarrow> nemu \<Rightarrow> nemu" where
  "say x st = st\<lparr>console := console st @ [x]\<rparr>"

definition set_state :: "run_state \<Rightarrow> nemu \<Rightarrow> nemu" where
  "set_state s st = st\<lparr>nm := (nm st)\<lparr>nemu_state := (nemu_state (nm st))\<lparr>nstate := s\<rparr>\<rparr>\<rparr>"

abbreviation cur_state :: "nemu \<Rightarrow> run_state" where
  "cur_state st \<equiv> nstate (nemu_state (nm st))"

text \<open>\<open>expr\<close> in the current CPU and memory.\<close>

abbreviation nemu_expr :: "nemu \<Rightarrow> string \<Rightarrow> u32 option res" where
  "nemu_expr st \<equiv> expr (cpu (nm st)) (pmem (mbus (nm st)))"

section \<open>Execution loop (cpu-exec.c)\<close>

definition is_exit_status_bad :: "'v NEMUState \<Rightarrow> nat" where
  "is_exit_status_bad s =
     (if (nstate s = NEMU_END \<and> halt_ret s = 0) \<or> nstate s = NEMU_QUIT then 0 else 1)"

text \<open>\<open>asm_print\<close> empties the log buffers; \<open>LOG_END\<close> bounds the log file.\<close>

definition asm_print :: "u32 machine \<Rightarrow> u32 machine" where
  "asm_print m = m\<lparr>log_bytebuf_len := 0\<rparr>"

definition LOG_END :: u64 where "LOG_END = 1024 * 1024 * 50"

definition log_enable :: "nemu \<Rightarrow> bool" where
  "log_enable st \<longleftrightarrow> g_nr_guest_instr st \<ge> 0 \<and> g_nr_guest_instr st \<le> LOG_END"

text \<open>
  The signals of a round run their handler before \<open>device_update\<close> looks at the flag. Where in the round they arrive makes no
  difference: the handlers write the flag and \<open>jiffy\<close> only (\<open>dev_raise_intr\<close> is empty), which nothing else in the round
  reads, and a signal after the test of the flag counts for the next round (or is lost when it falls between the test and the reset).
\<close>

definition alarm_signals :: "nat \<Rightarrow> 'v NEMUState \<Rightarrow> io_state \<Rightarrow> io_state" where
  "alarm_signals n ns io = (alarm_sig_handler ns ^^ n) io"

definition poll_devices :: "config \<Rightarrow> nemu \<Rightarrow> nemu res" where
  "poll_devices cfg st =
     (if has_ioe cfg then
        let ns = nemu_state (nm st); io = alarm_signals (alarms cfg (g_nr_guest_instr st)) ns (bus_io (mbus (nm st))) in
        bindE (device_update (sdl_scancode cfg) (sdl_events cfg (g_nr_guest_instr st)) (ns, io)) (\<lambda>(ns, io).
          Inr (st\<lparr>nm := (nm st)\<lparr>nemu_state := ns, mbus := (mbus (nm st))\<lparr>bus_io := io\<rparr>\<rparr>\<rparr>))
      else Inr st)"

text \<open>The body of the loop.\<close>

definition exec_step :: "config \<Rightarrow> nemu \<Rightarrow> nemu res" where
  "exec_step cfg st =
     bindE (isa_exec_once (nm st)) (\<lambda>(seq_pc, m).
       let st = st\<lparr>nm := asm_print m, g_nr_guest_instr := g_nr_guest_instr st + 1\<rparr> in
       bindE (check_wp_changed (nemu_expr st) (wps st)) (\<lambda>(changed, w).
         let st = st\<lparr>wps := w\<rparr>; st = (if changed then set_state NEMU_STOP st else st) in
         poll_devices cfg st))"

fun exec_loop :: "config \<Rightarrow> nat \<Rightarrow> nemu \<Rightarrow> nemu res" where
  "exec_loop cfg 0 st = Inr st"
| "exec_loop cfg (Suc n) st =
     bindE (exec_step cfg st) (\<lambda>st. if cur_state st \<noteq> NEMU_RUNNING then Inr st else exec_loop cfg n st)"

definition cpu_exec :: "config \<Rightarrow> u64 \<Rightarrow> nemu \<Rightarrow> nemu res" where
  "cpu_exec cfg n st =
     (if cur_state st = NEMU_END \<or> cur_state st = NEMU_ABORT then Inr (say Msg_ended st)
      else
        bindE (exec_loop cfg (unat n) (set_state NEMU_RUNNING st)) (\<lambda>st.
          case cur_state st of
            NEMU_RUNNING \<Rightarrow> Inr (set_state NEMU_STOP st)
          | NEMU_STOP \<Rightarrow> Inr st
          | NEMU_QUIT \<Rightarrow> Inr st
          | _ \<Rightarrow> Inr (say (Msg_trap (cur_state st) (halt_pc (nemu_state (nm st))) (halt_ret (nemu_state (nm st)))) st)))"

section \<open>Commands (ui.c)\<close>

abbreviation strtok_space :: "string \<Rightarrow> string option \<times> string" where
  "strtok_space \<equiv> strtok ((=) (CHR '' ''))"

text \<open>\<open>atoi\<close> is \<open>strtol\<close> to base 10, truncated to \<open>int\<close>.\<close>

definition atoi :: "string \<Rightarrow> u32" where
  "atoi s = word_of_int (strtol 10 s)"

text \<open>A handler returns whether the main loop goes on (a result that is not negative).\<close>

type_synonym cmd_result = "(bool \<times> nemu) res"

definition cmd_c :: "config \<Rightarrow> nemu \<Rightarrow> cmd_result" where
  "cmd_c cfg st = bindE (cpu_exec cfg (-1) st) (\<lambda>st. Inr (True, st))"

definition cmd_q :: "nemu \<Rightarrow> cmd_result" where
  "cmd_q st = Inr (False, st)"

definition cmd_si :: "config \<Rightarrow> string option \<Rightarrow> nemu \<Rightarrow> cmd_result" where
  "cmd_si cfg args st =
     (let nsteps = (case args of None \<Rightarrow> 1 | Some a \<Rightarrow> atoi a) in
      bindE (cpu_exec cfg (ucast nsteps) st) (\<lambda>st. Inr (True, st)))"

definition cmd_p :: "string option \<Rightarrow> nemu \<Rightarrow> cmd_result" where
  "cmd_p args st =
     (case args of
        None \<Rightarrow> Inr (True, say Msg_bad_argument st)
      | Some e \<Rightarrow>
          bindE (nemu_expr st e) (\<lambda>r.
            case r of None \<Rightarrow> Inr (True, say Msg_expr_error st) | Some v \<Rightarrow> Inr (True, say (Msg_value v) st)))"

definition cmd_w :: "string option \<Rightarrow> nemu \<Rightarrow> cmd_result" where
  "cmd_w args st =
     (case args of
        None \<Rightarrow> Inl Null_deref
      | Some e \<Rightarrow>
          bindE (new_wp (wps st)) (\<lambda>(i, w).
            let w = w\<lparr>wp_pool := (wp_pool w)[i := (wp_pool w ! i)\<lparr>watch_expr := Str e\<rparr>]\<rparr> in
            bindE (nemu_expr st e) (\<lambda>r.
              case r of
                None \<Rightarrow> bindE (free_wp i w) (\<lambda>w. Inr (False, st\<lparr>wps := w\<rparr>))
              | Some v \<Rightarrow>
                  Inr (True, st\<lparr>wps := w\<lparr>wp_pool := (wp_pool w)[i := (wp_pool w ! i)\<lparr>watch_value := v\<rparr>]\<rparr>\<rparr>))))"

text \<open>The do-while loop of \<open>cmd_d\<close> over the remaining arguments.\<close>

definition delete_wp :: "string \<Rightarrow> nemu \<Rightarrow> nemu res" where
  "delete_wp arg st =
     (let w_no = sint (word_of_int (strtol 10 arg) :: u32) in
      bindE (no_to_wp w_no (wps st)) (\<lambda>r.
        case r of
          None \<Rightarrow> Inr (say (Msg_no_such_wp w_no) st)
        | Some i \<Rightarrow> bindE (free_wp i (wps st)) (\<lambda>w. Inr (st\<lparr>wps := w\<rparr>))))"

function delete_wps :: "string \<Rightarrow> nemu \<Rightarrow> nemu res" where
  "delete_wps rest st =
     (case strtok_space rest of
        (None, _) \<Rightarrow> Inr st
      | (Some arg, rest') \<Rightarrow> bindE (delete_wp arg st) (delete_wps rest'))"
  by pat_completeness auto
termination
  by (relation "measure (\<lambda>(rest, st). length rest)") (auto dest: strtok_shorter [OF sym])

declare delete_wps.simps [simp del]

definition cmd_d :: "string \<Rightarrow> nemu \<Rightarrow> cmd_result" where
  "cmd_d rest st =
     (case strtok_space rest of
        (None, _) \<Rightarrow> Inr (False, say Msg_no_number st)
      | _ \<Rightarrow> bindE (delete_wps rest st) (\<lambda>st. Inr (True, st)))"

definition cmd_names :: "(string \<times> string) list" where
  "cmd_names =
    [(''help'', ''Display informations about all supported commands''),
     (''c'', ''Continue the execution of the program''),
     (''q'', ''Exit NEMU''),
     (''si'', ''single step execution''),
     (''info'', ''Display information about following arguements''),
     (''x'', ''Display memory''),
     (''p'', ''Calculate expression''),
     (''w'', ''Add new watchpoint''),
     (''d'', ''Delete existing watchpoint'')]"

definition cmd_help :: "string \<Rightarrow> nemu \<Rightarrow> cmd_result" where
  "cmd_help rest st =
     (case fst (strtok_space rest) of
        None \<Rightarrow> Inr (True, fold (\<lambda>(n, d). say (Msg_help n d)) cmd_names st)
      | Some arg \<Rightarrow>
          (case map_of cmd_names arg of
             Some d \<Rightarrow> Inr (True, say (Msg_help arg d) st)
           | None \<Rightarrow> Inr (True, say (Msg_unknown arg) st)))"

text \<open>
  \<open>cmd_x\<close> prints \<open>nr_is\<close> words of \<open>pmem\<close>, four to a line; \<open>guest_to_host\<close> checks no bounds. A count
  that is not positive prints none.
\<close>

fun dump_words :: "nat \<Rightarrow> nat \<Rightarrow> u32 \<Rightarrow> nemu \<Rightarrow> nemu res" where
  "dump_words i 0 g_addr st = Inr (say Msg_newline st)"
| "dump_words i (Suc n) g_addr st =
     (let st = (if i mod 4 = 0 then say (Msg_addr g_addr) st else st) in
      bindE (load_bytes PMEM_SIZE (nat (guest_to_host g_addr)) 4 (pmem (mbus (nm st)))) (\<lambda>bs.
        dump_words (Suc i) n (g_addr + 4) (say (Msg_word (le_word bs)) st)))"

definition cmd_x :: "string \<Rightarrow> nemu \<Rightarrow> cmd_result" where
  "cmd_x rest st =
     (case strtok_space rest of
        (None, _) \<Rightarrow> Inr (True, say Msg_invalid_args st)
      | (Some arg, rest') \<Rightarrow>
          (case fst (strtok ((=) (CHR 0x0A)) rest') of
             None \<Rightarrow> Inr (True, say Msg_invalid_args st)
           | Some e \<Rightarrow>
               bindE (nemu_expr st e) (\<lambda>r.
                 case r of
                   None \<Rightarrow> Inr (True, say Msg_invalid_args (say Msg_expr_error st))
                 | Some g_addr \<Rightarrow>
                     bindE (dump_words 0 (nat (sint (atoi arg))) g_addr st) (\<lambda>st. Inr (True, st)))))"

definition isa_reg_display :: "nemu \<Rightarrow> nemu" where
  "isa_reg_display st =
     say (Msg_reg ''pc'' (pc (cpu (nm st))))
       (fold (\<lambda>i. say (Msg_reg (regsl ! i) (gpr (cpu (nm st)) ! i))) [0..<8] st)"

definition cmd_info :: "string \<Rightarrow> nemu \<Rightarrow> cmd_result" where
  "cmd_info rest st =
     (case fst (strtok_space rest) of
        None \<Rightarrow> Inr (True, say Msg_info_what st)
      | Some arg \<Rightarrow>
          if arg = ''r'' then Inr (True, isa_reg_display st)
          else if arg = ''w'' then
            bindE (watchpoint_display (wps st)) (\<lambda>ls. Inr (True, fold (\<lambda>(n, e, v). say (Msg_wp n e v)) ls st))
          else Inr (True, st))"

text \<open>
  One round of \<open>ui_mainloop\<close>: the first word is the command; the text after the blank that ends it is
  the argument string, a null pointer when it is empty.
\<close>

definition ui_command :: "config \<Rightarrow> string \<Rightarrow> nemu \<Rightarrow> cmd_result" where
  "ui_command cfg line st =
     (case strtok_space line of
        (None, _) \<Rightarrow> Inr (True, st)
      | (Some cmd, rest) \<Rightarrow>
          let args = (if rest = [] then None else Some rest) in
          if cmd = ''help'' then cmd_help rest st
          else if cmd = ''c'' then cmd_c cfg st
          else if cmd = ''q'' then cmd_q st
          else if cmd = ''si'' then cmd_si cfg args st
          else if cmd = ''info'' then cmd_info rest st
          else if cmd = ''x'' then cmd_x rest st
          else if cmd = ''p'' then cmd_p args st
          else if cmd = ''w'' then cmd_w args st
          else if cmd = ''d'' then cmd_d rest st
          else Inr (True, say (Msg_unknown cmd) st))"

fun ui_mainloop :: "config \<Rightarrow> string list \<Rightarrow> nemu \<Rightarrow> nemu res" where
  "ui_mainloop cfg [] st = Inr st"
| "ui_mainloop cfg (line # lines) st =
     bindE (ui_command cfg line st) (\<lambda>(go_on, st). if go_on then ui_mainloop cfg lines st else Inr st)"

section \<open>Start-up (monitor.c, main.c)\<close>

text \<open>
  \<open>load_img\<close> reads an image file of \<open>size\<close> bytes with one \<open>fread\<close> element of that size, which reports
  success only for a non-empty file; it does not compare the size with the memory.
\<close>

definition load_img :: "u8 list option \<Rightarrow> u32 machine \<Rightarrow> (nat \<times> u32 machine) res" where
  "load_img img_file m =
     (case img_file of
        None \<Rightarrow> Inr (4096, m)
      | Some bytes \<Rightarrow>
          bindE (assertE (bytes \<noteq> [])) (\<lambda>_.
          bindE (store_bytes PMEM_SIZE (nat (guest_to_host x86_IMAGE_START)) bytes (pmem (mbus m))) (\<lambda>f.
            Inr (length bytes, m\<lparr>mbus := (mbus m)\<lparr>pmem := f\<rparr>\<rparr>))))"

text \<open>\<open>rnd_mem\<close> and \<open>rnd_reg\<close> are the outcomes of \<open>rand()\<close> in \<open>init_mem\<close> and \<open>reg_test\<close>.\<close>

definition init_monitor ::
  "(nat \<Rightarrow> u32) \<Rightarrow> (nat \<Rightarrow> u32) \<Rightarrow> u8 list option \<Rightarrow> nemu \<Rightarrow> nemu res" where
  "init_monitor rnd_mem rnd_reg img_file st =
     (let m = (nm st)\<lparr>mbus := init_mem rnd_mem (mbus (nm st))\<rparr> in
      bindE (init_isa rnd_reg m) (\<lambda>m.
      bindE (load_img img_file m) (\<lambda>(img_size, m).
        Inr (st\<lparr>nm := m, wps := init_wp_pool (wps st)\<rparr>))))"

definition engine_start :: "config \<Rightarrow> string list \<Rightarrow> nemu \<Rightarrow> nemu res" where
  "engine_start cfg lines st =
     bindE (init_device (has_ioe cfg) (bus_io (mbus (nm st)))) (\<lambda>io.
       ui_mainloop cfg lines (st\<lparr>nm := (nm st)\<lparr>mbus := (mbus (nm st))\<lparr>bus_io := io\<rparr>\<rparr>\<rparr>))"

definition nemu_main ::
  "config \<Rightarrow> (nat \<Rightarrow> u32) \<Rightarrow> (nat \<Rightarrow> u32) \<Rightarrow> u8 list option \<Rightarrow> string list \<Rightarrow> nemu \<Rightarrow> (nat \<times> nemu) res" where
  "nemu_main cfg rnd_mem rnd_reg img_file lines st =
     bindE (init_monitor rnd_mem rnd_reg img_file st) (\<lambda>st.
     bindE (engine_start cfg lines st) (\<lambda>st.
       Inr (is_exit_status_bad (nemu_state (nm st)), st)))"

text \<open>
  The command line: \<open>parse_args\<close> gets what \<open>getopt_long\<close> returns, an option letter or 1 for an argument that is no
  option, with \<open>optarg\<close>; \<open>None\<close> is the exit after the usage text.
\<close>

record options =
  batch_mode :: bool
  log_file :: "string option"
  diff_so_file :: "string option"
  img_file_arg :: "string option"
  difftest_port :: u32

definition options_initial :: options where
  "options_initial = \<lparr>batch_mode = False, log_file = None, diff_so_file = None, img_file_arg = None, difftest_port = 1234\<rparr>"

fun parse_args :: "(char \<times> string) list \<Rightarrow> options \<Rightarrow> options option" where
  "parse_args [] opts = Some opts"
| "parse_args ((ch, optarg) # args) opts =
     (if ch = CHR ''b'' then parse_args args (opts\<lparr>batch_mode := True\<rparr>)
      else if ch = CHR ''p'' then
        parse_args args (opts\<lparr>difftest_port := (case scan_int optarg of None \<Rightarrow> difftest_port opts | Some n \<Rightarrow> n)\<rparr>)
      else if ch = CHR ''l'' then parse_args args (opts\<lparr>log_file := Some optarg\<rparr>)
      else if ch = CHR ''d'' then parse_args args (opts\<lparr>diff_so_file := Some optarg\<rparr>)
      else if ch = CHR 0x01 then
        parse_args args (if img_file_arg opts \<noteq> None then opts else opts\<lparr>img_file_arg := Some optarg\<rparr>)
      else None)"

definition init_log :: "(string \<Rightarrow> bool) \<Rightarrow> string option \<Rightarrow> unit res" where
  "init_log writable file = (case file of None \<Rightarrow> Inr () | Some f \<Rightarrow> assertE (writable f))"

text \<open>
  \<open>main\<close> with its arguments; \<open>files\<close> are the files that can be read, \<open>writable\<close> those that can be opened for writing. An image that
  cannot be opened fails the assertion of \<open>load_img\<close>.
\<close>

definition nemu_start ::
  "config \<Rightarrow> (nat \<Rightarrow> u32) \<Rightarrow> (nat \<Rightarrow> u32) \<Rightarrow> (string \<Rightarrow> bool) \<Rightarrow> (string \<Rightarrow> u8 list option) \<Rightarrow> (char \<times> string) list \<Rightarrow>
     string list \<Rightarrow> nemu \<Rightarrow> (nat \<times> nemu) res" where
  "nemu_start cfg rnd_mem rnd_reg writable files args lines st =
     (case parse_args args options_initial of
        None \<Rightarrow> Inr (0, st)
      | Some opts \<Rightarrow>
          bindE (init_log writable (log_file opts)) (\<lambda>_.
          bindE (case img_file_arg opts of None \<Rightarrow> Inr None | Some f \<Rightarrow> bindE (optE Assert_fail (files f)) (\<lambda>bs. Inr (Some bs))) (\<lambda>img.
            nemu_main cfg rnd_mem rnd_reg img lines st)))"

text \<open>The batch option is accepted and changes nothing; the image is the first argument that is no option.\<close>

lemma parse_args_batch:
  "map_option (batch_mode_update (\<lambda>_. b)) (parse_args args (opts\<lparr>batch_mode := a\<rparr>)) =
     map_option (batch_mode_update (\<lambda>_. b)) (parse_args args opts)"
proof (induction args arbitrary: opts)
  case (Cons x args)
  obtain ch arg where x: "x = (ch, arg)" by (cases x)
  have "parse_args (x # args) (opts\<lparr>batch_mode := a\<rparr>) = parse_args (x # args) opts" if "ch = CHR ''b''"
    using that by (simp add: x)
  moreover have "map_option (batch_mode_update (\<lambda>_. b)) (parse_args (x # args) (opts\<lparr>batch_mode := a\<rparr>)) =
      map_option (batch_mode_update (\<lambda>_. b)) (parse_args (x # args) opts)" if "ch \<noteq> CHR ''b''"
    using that Cons.IH [of "opts\<lparr>difftest_port := (case scan_int arg of None \<Rightarrow> difftest_port opts | Some n \<Rightarrow> n)\<rparr>"]
      Cons.IH [of "opts\<lparr>log_file := Some arg\<rparr>"] Cons.IH [of "opts\<lparr>diff_so_file := Some arg\<rparr>"]
      Cons.IH [of opts] Cons.IH [of "opts\<lparr>img_file_arg := Some arg\<rparr>"] by (cases opts; cases "scan_int arg"; simp add: x)
  ultimately show ?case by metis
qed simp

lemma parse_args_no_batch:
  "map_option (batch_mode_update (\<lambda>_. b)) (parse_args (filter (\<lambda>(ch, a). ch \<noteq> CHR ''b'') args) opts) =
     map_option (batch_mode_update (\<lambda>_. b)) (parse_args args opts)"
  by (induction args opts rule: parse_args.induct) (simp_all add: parse_args_batch)

theorem batch_option_ignored:
  "nemu_start cfg rnd_mem rnd_reg writable files (filter (\<lambda>(ch, a). ch \<noteq> CHR ''b'') args) lines st =
     nemu_start cfg rnd_mem rnd_reg writable files args lines st"
proof -
  have "rel_option (\<lambda>x y. log_file x = log_file y \<and> img_file_arg x = img_file_arg y)
      (parse_args (filter (\<lambda>(ch, a). ch \<noteq> CHR ''b'') args) options_initial) (parse_args args options_initial)"
    using parse_args_no_batch [of undefined args options_initial]
    by (cases "parse_args args options_initial"; cases "parse_args (filter (\<lambda>(ch, a). ch \<noteq> CHR ''b'') args) options_initial")
      (auto dest: arg_cong [of _ _ log_file] arg_cong [of _ _ img_file_arg])
  then show ?thesis by (auto simp: nemu_start_def elim: option.rel_cases)
qed

lemma parse_args_image:
  "parse_args args opts = Some opts' \<Longrightarrow>
     img_file_arg opts' = (case img_file_arg opts of Some f \<Rightarrow> Some f | None \<Rightarrow> map_option snd (find (\<lambda>(ch, a). ch = CHR 0x01) args))"
  by (induction args opts rule: parse_args.induct) (auto split: if_splits option.splits)

text \<open>The program before \<open>main\<close>: zeroed registers and memory, state \<open>NEMU_STOP\<close>.\<close>

definition nemu_initial :: "(nat \<Rightarrow> u64 \<times> u64) \<Rightarrow> nemu" where
  "nemu_initial clock =
     \<lparr>nm = \<lparr>cpu = \<lparr>gpr = replicate 8 0, pc = 0\<rparr>, mbus = bus_initial clock,
            nemu_state = \<lparr>nstate = NEMU_STOP, halt_pc = 0, halt_ret = 0\<rparr>, log_bytebuf_len = 0\<rparr>,
      wps = \<lparr>wp_pool = replicate NR_WP \<lparr>NO = 0, wp_next = None, watch_expr = Null_str, watch_value = 0\<rparr>,
             wp_head = None, wp_free = None\<rparr>,
      g_nr_guest_instr = 0, console = []\<rparr>"

end
