(* ===== verification/Monitor_Correct.thy ===== *)
theory Monitor_Correct
  imports Monitor
begin

text \<open>
  Properties of the monitor: the run of the built-in image from \<open>main\<close> to the exit status, the
  laws of the execution loop, and what the debugger commands do to the watchpoint pool.
\<close>

section \<open>The built-in image\<close>

definition has_img :: "byte_array \<Rightarrow> bool" where
  "has_img f \<longleftrightarrow> (\<forall>i<39. f (0x100000 + i) = img ! i)"

lemma img_length: "length img = 39"
  by (simp add: img_def)

lemma has_img_put:
  assumes "has_img f" "p + length bs \<le> 0x100000 \<or> 0x100027 \<le> p"
  shows "has_img (put_bytes p bs f)"
  using assms by (auto simp: has_img_def put_bytes_def)

lemma has_img_put_img: "has_img (put_bytes 0x100000 img f)"
  using put_bytes_same [of _ img "0x100000" f] by (simp add: has_img_def img_length)

lemma img_byte: "has_img f \<Longrightarrow> i < 39 \<Longrightarrow> f (0x100000 + i) = img ! i"
  by (simp add: has_img_def)

lemma img_bytes:
  assumes "has_img f"
  shows "f 0x100000 = 0xb8" "f 0x100001 = 0x34" "f 0x100002 = 0x12" "f 0x100003 = 0" "f 0x100004 = 0"
    "f 0x100005 = 0xb9" "f 0x100006 = 0x27" "f 0x100007 = 0" "f 0x100008 = 0x10" "f 0x100009 = 0"
    "f 0x10000a = 0x89" "f 0x10000b = 0x01"
    "f 0x10000c = 0x66" "f 0x10000d = 0xc7" "f 0x10000e = 0x41" "f 0x10000f = 0x04" "f 0x100010 = 0x01" "f 0x100011 = 0"
    "f 0x100012 = 0xbb" "f 0x100013 = 0x02" "f 0x100014 = 0" "f 0x100015 = 0" "f 0x100016 = 0"
    "f 0x100017 = 0x66" "f 0x100018 = 0xc7" "f 0x100019 = 0x84" "f 0x10001a = 0x99" "f 0x10001b = 0" "f 0x10001c = 0xe0"
    "f 0x10001d = 0xff" "f 0x10001e = 0xff" "f 0x10001f = 0x01" "f 0x100020 = 0"
    "f 0x100021 = 0xb8" "f 0x100022 = 0" "f 0x100023 = 0" "f 0x100024 = 0" "f 0x100025 = 0" "f 0x100026 = 0xd6"
proof -
  have "\<forall>i\<in>set [0..<39]. f (0x100000 + i) = img ! i" using assms by (simp add: has_img_def)
  then show "f 0x100000 = 0xb8" "f 0x100001 = 0x34" "f 0x100002 = 0x12" "f 0x100003 = 0" "f 0x100004 = 0"
    "f 0x100005 = 0xb9" "f 0x100006 = 0x27" "f 0x100007 = 0" "f 0x100008 = 0x10" "f 0x100009 = 0"
    "f 0x10000a = 0x89" "f 0x10000b = 0x01"
    "f 0x10000c = 0x66" "f 0x10000d = 0xc7" "f 0x10000e = 0x41" "f 0x10000f = 0x04" "f 0x100010 = 0x01" "f 0x100011 = 0"
    "f 0x100012 = 0xbb" "f 0x100013 = 0x02" "f 0x100014 = 0" "f 0x100015 = 0" "f 0x100016 = 0"
    "f 0x100017 = 0x66" "f 0x100018 = 0xc7" "f 0x100019 = 0x84" "f 0x10001a = 0x99" "f 0x10001b = 0" "f 0x10001c = 0xe0"
    "f 0x10001d = 0xff" "f 0x10001e = 0xff" "f 0x10001f = 0x01" "f 0x100020 = 0"
    "f 0x100021 = 0xb8" "f 0x100022 = 0" "f 0x100023 = 0" "f 0x100024 = 0" "f 0x100025 = 0" "f 0x100026 = 0xd6"
    by (simp_all add: upt_rec img_def)
qed

lemmas run_defs =
  step_defs pmem_valid_def mem_len_ok_def in_pmem_def PMEM_SIZE_def c_shl_def reg_b_addr_def reg_w_addr_def
  set_mbus_def pmem_write_eq pmem_read_eq pmem_pos_def upt_rec c_shift_mask_def

text \<open>The machine between two instructions.\<close>

definition mk_m :: "u32 list \<Rightarrow> u32 \<Rightarrow> byte_array \<Rightarrow> io_state \<Rightarrow> u32 NEMUState \<Rightarrow> u32 machine" where
  "mk_m g p f io ns =
     \<lparr>cpu = \<lparr>gpr = g, pc = p\<rparr>, mbus = \<lparr>pmem = f, bus_io = io\<rparr>, nemu_state = ns, log_bytebuf_len = 0\<rparr>"

definition steps_to :: "u32 machine \<Rightarrow> u32 machine \<Rightarrow> bool" where
  "steps_to m m' \<longleftrightarrow> (\<exists>q k. isa_exec_once m = Inr (q, m'\<lparr>log_bytebuf_len := k\<rparr>)) \<and> log_bytebuf_len m' = 0"

lemma img_step1: "has_img f \<Longrightarrow>
  steps_to (mk_m [a0, a1, a2, a3, a4, a5, a6, a7] 0x100000 f io ns) (mk_m [0x1234, a1, a2, a3, a4, a5, a6, a7] 0x100005 f io ns)"
  by (simp add: steps_to_def mk_m_def run_defs img_bytes)

lemma img_step2: "has_img f \<Longrightarrow>
  steps_to (mk_m [0x1234, a1, a2, a3, a4, a5, a6, a7] 0x100005 f io ns) (mk_m [0x1234, 0x100027, a2, a3, a4, a5, a6, a7] 0x10000a f io ns)"
  by (simp add: steps_to_def mk_m_def run_defs img_bytes)

lemma img_step3: "has_img f \<Longrightarrow>
  steps_to (mk_m [0x1234, 0x100027, a2, a3, a4, a5, a6, a7] 0x10000a f io ns)
    (mk_m [0x1234, 0x100027, a2, a3, a4, a5, a6, a7] 0x10000c (put_bytes 0x100027 (le_bytes 4 (0x1234 :: u32)) f) io ns)"
  by (simp add: steps_to_def mk_m_def run_defs img_bytes)

lemma img_step4: "has_img f \<Longrightarrow>
  steps_to (mk_m [0x1234, 0x100027, a2, a3, a4, a5, a6, a7] 0x10000c f io ns)
    (mk_m [0x1234, 0x100027, a2, a3, a4, a5, a6, a7] 0x100012 (put_bytes 0x10002b (le_bytes 2 (1 :: u32)) f) io ns)"
  by (simp add: steps_to_def mk_m_def run_defs img_bytes)

lemma img_step5: "has_img f \<Longrightarrow>
  steps_to (mk_m [0x1234, 0x100027, a2, a3, a4, a5, a6, a7] 0x100012 f io ns)
    (mk_m [0x1234, 0x100027, a2, 2, a4, a5, a6, a7] 0x100017 f io ns)"
  by (simp add: steps_to_def mk_m_def run_defs img_bytes)

lemma img_step6: "has_img f \<Longrightarrow>
  steps_to (mk_m [0x1234, 0x100027, a2, 2, a4, a5, a6, a7] 0x100017 f io ns)
    (mk_m [0x1234, 0x100027, a2, 2, a4, a5, a6, a7] 0x100021 (put_bytes 0xfe02f (le_bytes 2 (1 :: u32)) f) io ns)"
  by (simp add: steps_to_def mk_m_def run_defs img_bytes)

lemma img_step7: "has_img f \<Longrightarrow>
  steps_to (mk_m [0x1234, 0x100027, a2, 2, a4, a5, a6, a7] 0x100021 f io ns)
    (mk_m [0, 0x100027, a2, 2, a4, a5, a6, a7] 0x100026 f io ns)"
  by (simp add: steps_to_def mk_m_def run_defs img_bytes)

lemma img_step8: "has_img f \<Longrightarrow>
  steps_to (mk_m [0, 0x100027, a2, 2, a4, a5, a6, a7] 0x100026 f io ns)
    (mk_m [0, 0x100027, a2, 2, a4, a5, a6, a7] 0x100027 f io \<lparr>nstate = NEMU_END, halt_pc = 0x100026, halt_ret = 0\<rparr>)"
  by (simp add: steps_to_def mk_m_def run_defs img_bytes)

section \<open>The execution loop\<close>

lemma check_wp_changed_none: "wp_head w = None \<Longrightarrow> check_wp_changed ev w = Inr (False, w)"
  by (simp add: check_wp_changed_def check_wp_loop.simps)

text \<open>Without watchpoints and devices a round of the loop is one instruction.\<close>

lemma exec_step_plain:
  assumes "steps_to (nm st) m" "wp_head (wps st) = None" "\<not> has_ioe cfg"
  shows "exec_step cfg st = Inr (st\<lparr>nm := m, g_nr_guest_instr := g_nr_guest_instr st + 1\<rparr>)"
proof -
  obtain q k where i: "isa_exec_once (nm st) = Inr (q, m\<lparr>log_bytebuf_len := k\<rparr>)" "log_bytebuf_len m = 0"
    using assms(1) by (auto simp: steps_to_def)
  have "asm_print (m\<lparr>log_bytebuf_len := k\<rparr>) = m" using i(2) by (cases m) (simp add: asm_print_def)
  then show ?thesis
    using assms(2,3) i by (simp add: exec_step_def Let_def check_wp_changed_none poll_devices_def)
qed

lemma exec_loop_pos:
  "0 < n \<Longrightarrow> exec_loop cfg n st =
     bindE (exec_step cfg st) (\<lambda>st. if cur_state st \<noteq> NEMU_RUNNING then Inr st else exec_loop cfg (n - 1) st)"
  by (cases n) (simp_all only: exec_loop.simps diff_Suc_1 less_irrefl)

definition with_m :: "nemu \<Rightarrow> u32 machine \<Rightarrow> u64 \<Rightarrow> nemu" where
  "with_m st m k = st\<lparr>nm := m, g_nr_guest_instr := g_nr_guest_instr st + k\<rparr>"

lemma exec_loop_go:
  assumes "wp_head (wps st) = None" "\<not> has_ioe cfg" "0 < n" "steps_to m m'" "nstate (nemu_state m') = NEMU_RUNNING"
  shows "exec_loop cfg n (with_m st m k) = exec_loop cfg (n - 1) (with_m st m' (k + 1))"
  using assms exec_step_plain [of "with_m st m k" m' cfg] by (simp add: exec_loop_pos with_m_def add.assoc)

lemma exec_loop_halt:
  assumes "wp_head (wps st) = None" "\<not> has_ioe cfg" "0 < n" "steps_to m m'" "nstate (nemu_state m') \<noteq> NEMU_RUNNING"
  shows "exec_loop cfg n (with_m st m k) = Inr (with_m st m' (k + 1))"
  using assms exec_step_plain [of "with_m st m k" m' cfg] by (simp add: exec_loop_pos with_m_def add.assoc)

text \<open>The memory the image leaves behind.\<close>

definition img_memory :: "byte_array \<Rightarrow> byte_array" where
  "img_memory f = put_bytes 0xfe02f (le_bytes 2 (1 :: u32)) (put_bytes 0x10002b (le_bytes 2 (1 :: u32))
      (put_bytes 0x100027 (le_bytes 4 (0x1234 :: u32)) f))"

lemma image_run:
  assumes img: "has_img f" and ns: "nstate ns = NEMU_RUNNING" and st: "wp_head (wps st) = None" "\<not> has_ioe cfg"
    and n: "8 \<le> n"
  shows "exec_loop cfg n (with_m st (mk_m [a0, a1, a2, a3, a4, a5, a6, a7] 0x100000 f io ns) 0) =
    Inr (with_m st (mk_m [0, 0x100027, a2, 2, a4, a5, a6, a7] 0x100027 (img_memory f) io
      \<lparr>nstate = NEMU_END, halt_pc = 0x100026, halt_ret = 0\<rparr>) 8)"
proof -
  let ?f3 = "put_bytes 0x100027 (le_bytes 4 (0x1234 :: u32)) f"
  let ?f4 = "put_bytes 0x10002b (le_bytes 2 (1 :: u32)) ?f3"
  have f3: "has_img ?f3" using img by (simp add: has_img_put)
  have f4: "has_img ?f4" using f3 by (simp add: has_img_put)
  have f6: "has_img (img_memory f)" unfolding img_memory_def using f4 by (simp add: has_img_put)
  have run: "nstate (nemu_state (mk_m g p h io ns)) = NEMU_RUNNING" for g p h using ns by (simp add: mk_m_def)
  have stop: "nstate (nemu_state (mk_m g p h io \<lparr>nstate = NEMU_END, halt_pc = b, halt_ret = r\<rparr>)) \<noteq> NEMU_RUNNING"
    for g p h b r by (simp add: mk_m_def)
  note go = exec_loop_go [OF st _ _ run]
  have "exec_loop cfg n (with_m st (mk_m [a0, a1, a2, a3, a4, a5, a6, a7] 0x100000 f io ns) 0) =
      exec_loop cfg (n - 1) (with_m st (mk_m [0x1234, a1, a2, a3, a4, a5, a6, a7] 0x100005 f io ns) (0 + 1))"
    using n by (intro go img_step1 img) simp
  also have "\<dots> = exec_loop cfg (n - 1 - 1) (with_m st (mk_m [0x1234, 0x100027, a2, a3, a4, a5, a6, a7] 0x10000a f io ns) (0 + 1 + 1))"
    using n by (intro go img_step2 img) simp
  also have "\<dots> = exec_loop cfg (n - 1 - 1 - 1) (with_m st (mk_m [0x1234, 0x100027, a2, a3, a4, a5, a6, a7] 0x10000c ?f3 io ns) (0 + 1 + 1 + 1))"
    using n by (intro go img_step3 img) simp
  also have "\<dots> = exec_loop cfg (n - 1 - 1 - 1 - 1) (with_m st (mk_m [0x1234, 0x100027, a2, a3, a4, a5, a6, a7] 0x100012 ?f4 io ns) (0 + 1 + 1 + 1 + 1))"
    using n by (intro go img_step4 f3) simp
  also have "\<dots> = exec_loop cfg (n - 1 - 1 - 1 - 1 - 1) (with_m st (mk_m [0x1234, 0x100027, a2, 2, a4, a5, a6, a7] 0x100017 ?f4 io ns) (0 + 1 + 1 + 1 + 1 + 1))"
    using n by (intro go img_step5 f4) simp
  also have "\<dots> = exec_loop cfg (n - 1 - 1 - 1 - 1 - 1 - 1) (with_m st (mk_m [0x1234, 0x100027, a2, 2, a4, a5, a6, a7] 0x100021 (img_memory f) io ns) (0 + 1 + 1 + 1 + 1 + 1 + 1))"
    unfolding img_memory_def using n by (intro go img_step6 f4) simp
  also have "\<dots> = exec_loop cfg (n - 1 - 1 - 1 - 1 - 1 - 1 - 1) (with_m st (mk_m [0, 0x100027, a2, 2, a4, a5, a6, a7] 0x100026 (img_memory f) io ns) (0 + 1 + 1 + 1 + 1 + 1 + 1 + 1))"
    using n by (intro go img_step7 f6) simp
  also have "\<dots> = Inr (with_m st (mk_m [0, 0x100027, a2, 2, a4, a5, a6, a7] 0x100027 (img_memory f) io
      \<lparr>nstate = NEMU_END, halt_pc = 0x100026, halt_ret = 0\<rparr>) (0 + 1 + 1 + 1 + 1 + 1 + 1 + 1 + 1))"
    using n by (intro exec_loop_halt [OF st _ _ stop] img_step8 f6) simp
  finally show ?thesis by simp
qed

section \<open>From main to the exit status\<close>

definition no_ioe :: config where
  "no_ioe = \<lparr>has_ioe = False, sdl_scancode = (\<lambda>_. 0), alarms = (\<lambda>_. 0), sdl_events = (\<lambda>_. [])\<rparr>"

lemma init_monitor_ok:
  assumes "cpu_wf (cpu (nm st))" "log_bytebuf_len (nm st) = 0"
  shows "\<exists>g f. length g = 8 \<and> has_img f \<and> init_monitor rm rr None st =
    Inr (st\<lparr>nm := mk_m g 0x100000 f (bus_io (mbus (nm st))) (nemu_state (nm st)), wps := init_wp_pool (wps st)\<rparr>)"
proof -
  let ?b = "init_mem rm (mbus (nm st))"
  let ?f = "put_bytes 0x100000 img (pmem ?b)"
  have "store_bytes PMEM_SIZE (nat (guest_to_host x86_IMAGE_START)) img (pmem ?b) = Inr ?f"
    by (simp add: store_bytes_def guest_to_host_def img_length PMEM_SIZE_def)
  moreover have "bus_io ?b = bus_io (mbus (nm st))" by (simp add: init_mem_def)
  ultimately show ?thesis
    using assms has_img_put_img [of "pmem ?b"]
    by (intro exI [of _ "map (\<lambda>i. rr (Suc i)) [0..<8]"] exI [of _ ?f])
      (simp add: init_monitor_def init_isa_def reg_test_ok restart_def load_img_def mk_m_def Let_def)
qed

lemma strtok_cmd: "strtok_space ''c'' = (Some ''c'', [])" "strtok_space ''q'' = (Some ''q'', [])"
  by (simp_all add: strtok_def)

lemma ui_command_c: "ui_command cfg ''c'' st = cmd_c cfg st"
  by (simp add: ui_command_def strtok_cmd)

lemma ui_command_q: "ui_command cfg ''q'' st = Inr (False, st)"
  by (simp add: ui_command_def strtok_cmd cmd_q_def)

lemma ui_continue_quit: "cpu_exec cfg (-1) st = Inr st' \<Longrightarrow> ui_mainloop cfg [''c'', ''q''] st = Inr st'"
  by (simp add: ui_command_c ui_command_q cmd_c_def)

lemma engine_start_plain: "\<not> has_ioe cfg \<Longrightarrow> engine_start cfg lines st = ui_mainloop cfg lines st"
  by (simp add: engine_start_def init_device_def)

lemma no_ioe_plain: "\<not> has_ioe no_ioe"
  by (simp add: no_ioe_def)

text \<open>
  C2. NEMU started without an image and told to continue runs the built-in image to its trap: whatever
  the random memory and register contents, \<open>main\<close> returns exit status 0, after eight instructions, in
  state \<open>NEMU_END\<close> with \<open>halt_ret\<close> 0, the trap at \<open>0x100026\<close>, and the words the image stores in memory.
\<close>

theorem builtin_image_good_trap:
  "\<exists>st' f. nemu_main no_ioe rnd_mem rnd_reg None [''c'', ''q''] (nemu_initial clock) = Inr (0, st') \<and>
     nemu_state (nm st') = \<lparr>nstate = NEMU_END, halt_pc = 0x100026, halt_ret = 0\<rparr> \<and>
     g_nr_guest_instr st' = 8 \<and> pc (cpu (nm st')) = 0x100027 \<and>
     pmem (mbus (nm st')) = img_memory f \<and> console st' = [Msg_trap NEMU_END 0x100026 0]"
proof -
  let ?st = "nemu_initial clock"
  have wf: "cpu_wf (cpu (nm ?st))" "log_bytebuf_len (nm ?st) = 0" by (simp_all add: nemu_initial_def cpu_wf_def)
  let ?io = "bus_io (mbus (nm ?st))" and ?ns = "nemu_state (nm ?st)"
  obtain g f where g: "length g = 8" and f: "has_img f" and
    init: "init_monitor rnd_mem rnd_reg None ?st = Inr (?st\<lparr>nm := mk_m g 0x100000 f ?io ?ns, wps := init_wp_pool (wps ?st)\<rparr>)"
    (is "_ = Inr ?s1")
    using init_monitor_ok [OF wf, of rnd_mem rnd_reg] by auto
  obtain a0 a1 a2 a3 a4 a5 a6 a7 where ga: "g = [a0, a1, a2, a3, a4, a5, a6, a7]" using len8 [OF g] by blast
  let ?ns1 = "?ns\<lparr>nstate := NEMU_RUNNING\<rparr>"
  let ?m = "mk_m [0, 0x100027, a2, 2, a4, a5, a6, a7] 0x100027 (img_memory f) ?io \<lparr>nstate = NEMU_END, halt_pc = 0x100026, halt_ret = 0\<rparr>"
  let ?s2 = "with_m ?s1 ?m 8"
  have s1: "set_state NEMU_RUNNING ?s1 = with_m ?s1 (mk_m [a0, a1, a2, a3, a4, a5, a6, a7] 0x100000 f ?io ?ns1) 0"
    by (simp add: set_state_def with_m_def mk_m_def ga)
  have loop: "exec_loop no_ioe (unat (-1 :: u64)) (set_state NEMU_RUNNING ?s1) = Inr ?s2"
    unfolding s1 by (rule image_run) (simp_all add: f no_ioe_def init_wp_pool_def unsigned_minus_1_eq_mask mask_eq_exp_minus_1)
  have stop: "cur_state ?s1 = NEMU_STOP" by (simp add: mk_m_def nemu_initial_def)
  have fin: "nemu_state (nm ?s2) = \<lparr>nstate = NEMU_END, halt_pc = 0x100026, halt_ret = 0\<rparr>"
    "pc (cpu (nm ?s2)) = 0x100027" "pmem (mbus (nm ?s2)) = img_memory f" "g_nr_guest_instr ?s2 = 8" "console ?s2 = []"
    by (simp_all add: with_m_def mk_m_def nemu_initial_def)
  have cpu: "cpu_exec no_ioe (-1) ?s1 = Inr (say (Msg_trap NEMU_END 0x100026 0) ?s2)"
    unfolding cpu_exec_def loop using stop fin by simp
  have "engine_start no_ioe [''c'', ''q''] ?s1 = Inr (say (Msg_trap NEMU_END 0x100026 0) ?s2)"
    unfolding engine_start_plain [OF no_ioe_plain] by (rule ui_continue_quit [OF cpu])
  then have "nemu_main no_ioe rnd_mem rnd_reg None [''c'', ''q''] ?st = Inr (0, say (Msg_trap NEMU_END 0x100026 0) ?s2)"
    unfolding nemu_main_def init bindE.simps using fin by (simp add: is_exit_status_bad_def say_def)
  then show ?thesis using fin by (auto simp: say_def)
qed

section \<open>Stepping and stopping\<close>

lemma set_state_simps [simp]:
  "cur_state (set_state s st) = s" "set_state s (set_state s' st) = set_state s st"
  "cur_state st = s \<Longrightarrow> set_state s st = st"
  by (simp_all add: set_state_def)

lemma exec_loop_add:
  "cur_state st = NEMU_RUNNING \<Longrightarrow> exec_loop cfg (a + b) st =
     bindE (exec_loop cfg a st) (\<lambda>st. if cur_state st \<noteq> NEMU_RUNNING then Inr st else exec_loop cfg b st)"
proof (induction a arbitrary: st)
  case (Suc a)
  show ?case
    by (cases "exec_step cfg st") (auto simp: Suc.IH)
qed simp

lemma cpu_exec_running_out:
  assumes "cur_state st \<noteq> NEMU_END" "cur_state st \<noteq> NEMU_ABORT"
    and "exec_loop cfg (unat n) (set_state NEMU_RUNNING st) = Inr st'" "cur_state st' = NEMU_RUNNING"
  shows "cpu_exec cfg n st = Inr (set_state NEMU_STOP st')"
  using assms by (simp add: cpu_exec_def)

text \<open>
  Single stepping composes: when \<open>a\<close> instructions run without a trap, a quit or a watchpoint hit,
  executing \<open>a\<close> and then \<open>b\<close> instructions is the same as executing \<open>a + b\<close> of them.
\<close>

theorem cpu_exec_compose:
  assumes "cur_state st \<noteq> NEMU_END" "cur_state st \<noteq> NEMU_ABORT" "unat a + unat b < 2 ^ 64"
    and "exec_loop cfg (unat a) (set_state NEMU_RUNNING st) = Inr st'" "cur_state st' = NEMU_RUNNING"
  shows "bindE (cpu_exec cfg a st) (cpu_exec cfg b) = cpu_exec cfg (a + b) st"
proof -
  have "unat (a + b) = unat a + unat b" using assms(3) by (simp add: unat_word_ariths)
  then have "exec_loop cfg (unat (a + b)) (set_state NEMU_RUNNING st) = exec_loop cfg (unat b) st'"
    using exec_loop_add [of "set_state NEMU_RUNNING st" cfg "unat a" "unat b"] assms(4,5) by simp
  then have "cpu_exec cfg (a + b) st = cpu_exec cfg b (set_state NEMU_STOP st')"
    using assms(1,2,5) by (simp add: cpu_exec_def)
  then show ?thesis using cpu_exec_running_out [OF assms(1,2,4,5)] by simp
qed

definition sample_nemu :: "u32 \<Rightarrow> wp_state \<Rightarrow> nemu" where
  "sample_nemu p w =
     \<lparr>nm = mk_m [0, 0x100027, 0, 2, 0, 0, 0, 0] p (put_bytes 0x100000 img (\<lambda>_. 0)) (io_initial (\<lambda>_. (0, 0)))
             \<lparr>nstate = NEMU_STOP, halt_pc = 0, halt_ret = 0\<rparr>,
      wps = w, g_nr_guest_instr = 0, console = []\<rparr>"

theorem cpu_exec_compose_witness:
  "bindE (cpu_exec no_ioe 1 (sample_nemu 0x100000 \<lparr>wp_pool = [], wp_head = None, wp_free = None\<rparr>)) (cpu_exec no_ioe 7) =
     cpu_exec no_ioe 8 (sample_nemu 0x100000 \<lparr>wp_pool = [], wp_head = None, wp_free = None\<rparr>)"
proof -
  let ?st = "sample_nemu 0x100000 \<lparr>wp_pool = [], wp_head = None, wp_free = None\<rparr>"
  let ?f = "put_bytes 0x100000 img (\<lambda>_. 0)" and ?ns = "\<lparr>nstate = NEMU_RUNNING, halt_pc = 0, halt_ret = 0\<rparr> :: u32 NEMUState"
  let ?m = "\<lambda>a p. mk_m [a, 0x100027, 0, 2, 0, 0, 0, 0] p ?f (io_initial (\<lambda>_. (0, 0))) ?ns"
  have st: "set_state NEMU_RUNNING ?st = with_m ?st (?m 0 0x100000) 0"
    by (simp add: set_state_def sample_nemu_def mk_m_def with_m_def)
  have "exec_loop no_ioe 1 (with_m ?st (?m 0 0x100000) 0) = exec_loop no_ioe (1 - 1) (with_m ?st (?m 0x1234 0x100005) (0 + 1))"
    by (rule exec_loop_go) (simp_all add: sample_nemu_def no_ioe_def img_step1 has_img_put_img, simp add: mk_m_def)
  then have run: "exec_loop no_ioe (unat (1 :: u64)) (set_state NEMU_RUNNING ?st) = Inr (with_m ?st (?m 0x1234 0x100005) 1)"
    unfolding st by simp
  have "bindE (cpu_exec no_ioe 1 ?st) (cpu_exec no_ioe 7) = cpu_exec no_ioe (1 + 7) ?st"
    by (rule cpu_exec_compose [OF _ _ _ run]) (simp_all add: sample_nemu_def mk_m_def with_m_def)
  then show ?thesis by simp
qed

lemma console_simps [simp]: "console (set_state s st) = console st" "console (say x st) = console st @ [x]"
  by (simp_all add: set_state_def say_def)

lemma poll_devices_console: "poll_devices cfg st = Inr st' \<Longrightarrow> console st' = console st"
  by (cases "has_ioe cfg") (auto simp: poll_devices_def Let_def bindE_eq_Inr)

lemma exec_step_console: "exec_step cfg st = Inr st' \<Longrightarrow> console st' = console st"
proof -
  assume s: "exec_step cfg st = Inr st'"
  obtain q m where i: "isa_exec_once (nm st) = Inr (q, m)"
    using s unfolding exec_step_def by (cases "isa_exec_once (nm st)") auto
  let ?st = "st\<lparr>nm := asm_print m, g_nr_guest_instr := g_nr_guest_instr st + 1\<rparr>"
  obtain ch w where c: "check_wp_changed (nemu_expr ?st) (wps ?st) = Inr (ch, w)"
    using s unfolding exec_step_def i Let_def bindE.simps prod.case
    by (cases "check_wp_changed (nemu_expr ?st) (wps ?st)") auto
  have "poll_devices cfg (if ch then set_state NEMU_STOP (?st\<lparr>wps := w\<rparr>) else ?st\<lparr>wps := w\<rparr>) = Inr st'"
    using s unfolding exec_step_def i Let_def bindE.simps prod.case c .
  then show ?thesis by (auto dest!: poll_devices_console split: if_splits)
qed

lemma exec_loop_console: "exec_loop cfg n st = Inr st' \<Longrightarrow> console st' = console st"
proof (induction n arbitrary: st)
  case (Suc n)
  obtain s1 where s1: "exec_step cfg st = Inr s1" using Suc.prems by (auto simp: bindE_eq_Inr)
  show ?case
  proof (cases "cur_state s1 = NEMU_RUNNING")
    case True
    then show ?thesis using Suc.prems s1 Suc.IH [of s1] exec_step_console [OF s1] by simp
  qed (use Suc.prems s1 exec_step_console [OF s1] in simp)
qed simp

text \<open>
  \<open>cpu_exec\<close> never returns in state \<open>NEMU_RUNNING\<close>; on a program that has ended it changes
  nothing but prints that execution has ended.
\<close>

theorem cpu_exec_returns_stopped:
  "case cpu_exec cfg n st of Inl f \<Rightarrow> True | Inr st' \<Rightarrow> cur_state st' \<noteq> NEMU_RUNNING \<and>
     (if cur_state st \<in> {NEMU_END, NEMU_ABORT} then st' = say Msg_ended st else console st' = console st \<or>
        console st' = console st @ [Msg_trap (cur_state st') (halt_pc (nemu_state (nm st'))) (halt_ret (nemu_state (nm st')))])"
proof (cases "cur_state st \<in> {NEMU_END, NEMU_ABORT}")
  case False
  show ?thesis
  proof (cases "exec_loop cfg (unat n) (set_state NEMU_RUNNING st)")
    case (Inr st')
    then show ?thesis using False exec_loop_console [OF Inr] by (cases "cur_state st'") (auto simp: cpu_exec_def say_def)
  qed (use False in \<open>auto simp: cpu_exec_def\<close>)
qed (auto simp: cpu_exec_def say_def)

lemma cpu_exec_console:
  "cpu_exec cfg n st = Inr st' \<Longrightarrow> cur_state st \<notin> {NEMU_END, NEMU_ABORT} \<Longrightarrow>
     console st' \<noteq> console st @ [Msg_ended]"
proof -
  assume c: "cpu_exec cfg n st = Inr st'" "cur_state st \<notin> {NEMU_END, NEMU_ABORT}"
  then obtain st1 where l: "exec_loop cfg (unat n) (set_state NEMU_RUNNING st) = Inr st1"
    by (auto simp: cpu_exec_def bindE_eq_Inr)
  then show ?thesis using c exec_loop_console [OF l] by (cases "cur_state st1") (auto simp: cpu_exec_def)
qed

text \<open>A round of the loop in which a watchpoint may change.\<close>

lemma exec_step_watch:
  assumes "isa_exec_once (nm st) = Inr (q, m)" "check_wp_changed (expr (cpu m) (pmem (mbus m))) (wps st) = Inr (ch, w)" "\<not> has_ioe cfg"
  shows "exec_step cfg st =
    Inr ((if ch then set_state NEMU_STOP else (\<lambda>s. s)) (st\<lparr>nm := asm_print m, g_nr_guest_instr := g_nr_guest_instr st + 1, wps := w\<rparr>))"
  using assms by (simp add: exec_step_def poll_devices_def asm_print_def)

text \<open>
  C10. A watchpoint that changes in the same instruction as \<open>nemu_trap\<close> hides the end of the program:
  the loop overwrites \<open>NEMU_END\<close> with \<open>NEMU_STOP\<close> and no trap message is printed; the next \<open>si\<close> executes the
  instruction behind the trap: registers, memory and the instruction count are those after it, and NEMU stops again
  without a word about the end.
\<close>

theorem watchpoint_hides_trap:
  assumes "cur_state st = NEMU_STOP" "\<not> has_ioe cfg"
    and "isa_exec_once (nm st\<lparr>nemu_state := (nemu_state (nm st))\<lparr>nstate := NEMU_RUNNING\<rparr>\<rparr>) = Inr (p, m)"
    and "nstate (nemu_state m) = NEMU_END"
    and "check_wp_changed (expr (cpu m) (pmem (mbus m))) (wps st) = Inr (True, w)"
    and behind: "isa_exec_once (m\<lparr>nemu_state := (nemu_state m)\<lparr>nstate := NEMU_RUNNING\<rparr>, log_bytebuf_len := 0\<rparr>) = Inr (q, m2)"
    and "nstate (nemu_state m2) = NEMU_RUNNING"
    and "check_wp_changed (expr (cpu m2) (pmem (mbus m2))) w = Inr (ch, w2)"
  shows "\<exists>st1 st2. cpu_exec cfg (-1) st = Inr st1 \<and> cur_state st1 = NEMU_STOP \<and> console st1 = console st \<and> cpu (nm st1) = cpu m \<and>
    cpu_exec cfg 1 st1 = Inr st2 \<and> cur_state st2 = NEMU_STOP \<and> console st2 = console st \<and> cpu (nm st2) = cpu m2 \<and> mbus (nm st2) = mbus m2 \<and>
    g_nr_guest_instr st2 = g_nr_guest_instr st + 2 \<and> (\<forall>n. cpu_exec cfg n st1 \<noteq> Inr (say Msg_ended st1))"
proof -
  let ?st = "st\<lparr>nm := asm_print m, g_nr_guest_instr := g_nr_guest_instr st + 1, wps := w\<rparr>"
  let ?s1 = "set_state NEMU_STOP ?st"
  have "exec_step cfg (set_state NEMU_RUNNING st) = Inr ?s1"
    using assms(3) by (subst exec_step_watch [OF _ _ assms(2), of _ p m True w]) (simp_all add: set_state_def assms(5))
  then have "exec_loop cfg (unat (-1 :: u64)) (set_state NEMU_RUNNING st) = Inr ?s1"
    by (subst exec_loop_pos) (simp_all add: unsigned_minus_1_eq_mask mask_eq_exp_minus_1)
  then have run: "cpu_exec cfg (-1) st = Inr ?s1" using assms(1) by (simp add: cpu_exec_def)
  let ?t = "?s1\<lparr>nm := asm_print m2, g_nr_guest_instr := g_nr_guest_instr st + 2, wps := w2\<rparr>"
  have "nm (set_state NEMU_RUNNING ?s1) = m\<lparr>nemu_state := (nemu_state m)\<lparr>nstate := NEMU_RUNNING\<rparr>, log_bytebuf_len := 0\<rparr>"
    by (simp add: set_state_def asm_print_def)
  then have "exec_step cfg (set_state NEMU_RUNNING ?s1) = Inr ((if ch then set_state NEMU_STOP else (\<lambda>s. s)) ?t)"
    using behind assms(8) by (subst exec_step_watch [OF _ _ assms(2), of _ q m2 ch w2]) (simp_all add: set_state_def)
  then have "exec_loop cfg (unat (1 :: u64)) (set_state NEMU_RUNNING ?s1) = Inr ((if ch then set_state NEMU_STOP else (\<lambda>s. s)) ?t)"
    by (subst exec_loop_pos) simp_all
  then have "cpu_exec cfg 1 ?s1 = Inr (set_state NEMU_STOP ?t)"
    using assms(7) by (simp add: cpu_exec_def set_state_def asm_print_def)
  moreover have "cpu_exec cfg n ?s1 \<noteq> Inr (say Msg_ended ?s1)" for n
    using cpu_exec_console [of cfg n ?s1] by auto
  ultimately show ?thesis
    using run by (intro exI [of _ ?s1] exI [of _ "set_state NEMU_STOP ?t"]) (simp add: set_state_def asm_print_def)
qed

text \<open>The last instruction of the built-in image, with a watchpoint on the program counter, and another instruction behind it.\<close>

lemma expr_pc: "expr c mem ''$pc'' = Inr (Some (pc c))"
  by (simp add: expr_def make_token_def tokenize.simps rules_def mk_rule_def is_alpha_def memset_in_bounds_def
      TOKENS_MAX_SIZE_def eval.simps eval_leaf_def mk_token_def isa_reg_str2val_def tolower_def)

lemma step_behind:
  assumes "f 0x100027 = 0xb8" "f 0x100028 = 0x78" "f 0x100029 = 0x56" "f 0x10002a = 0" "f 0x10002b = 0"
  shows "steps_to (mk_m [0, 0x100027, a2, 2, a4, a5, a6, a7] 0x100027 f io ns) (mk_m [0x5678, 0x100027, a2, 2, a4, a5, a6, a7] 0x10002c f io ns)"
  by (simp add: steps_to_def mk_m_def run_defs assms)

definition pc_watch :: "u32 \<Rightarrow> wp_state" where
  "pc_watch v = \<lparr>wp_pool = [\<lparr>NO = 0, wp_next = None, watch_expr = Str ''$pc'', watch_value = v\<rparr>], wp_head = Some 0, wp_free = None\<rparr>"

lemma check_pc_watch: "pc c \<noteq> v \<Longrightarrow> check_wp_changed (expr c mem) (pc_watch v) = Inr (True, pc_watch (pc c))"
  by (simp add: pc_watch_def check_wp_changed_def check_wp_loop.simps expr_pc)

definition trap_mem :: byte_array where
  "trap_mem = put_bytes 0x100027 [0xb8, 0x78, 0x56, 0, 0] (put_bytes 0x100000 img (\<lambda>_. 0))"

lemma trap_mem_img: "has_img trap_mem"
  unfolding trap_mem_def by (intro has_img_put has_img_put_img) simp

lemma trap_mem_behind: "trap_mem 0x100027 = 0xb8" "trap_mem 0x100028 = 0x78" "trap_mem 0x100029 = 0x56" "trap_mem 0x10002a = 0" "trap_mem 0x10002b = 0"
  by (simp_all add: trap_mem_def put_bytes_def)

definition trap_nemu :: nemu where
  "trap_nemu =
     \<lparr>nm = mk_m [0, 0x100027, 0, 2, 0, 0, 0, 0] 0x100026 trap_mem (io_initial (\<lambda>_. (0, 0))) \<lparr>nstate = NEMU_STOP, halt_pc = 0, halt_ret = 0\<rparr>,
      wps = pc_watch 0x100026, g_nr_guest_instr = 0, console = []\<rparr>"

theorem watchpoint_hides_trap_witness:
  "\<exists>st1 st2. cpu_exec no_ioe (-1) trap_nemu = Inr st1 \<and> cur_state st1 = NEMU_STOP \<and>
     cpu_exec no_ioe 1 st1 = Inr st2 \<and> gpr (cpu (nm st2)) ! 0 = 0x5678 \<and> pc (cpu (nm st2)) = 0x10002c \<and> console st2 = []"
proof -
  let ?io = "io_initial (\<lambda>_. (0, 0))" and ?ns = "\<lambda>s p. \<lparr>nstate = s, halt_pc = p, halt_ret = 0\<rparr> :: u32 NEMUState"
  let ?g = "\<lambda>a. [a, 0x100027, 0, 2, 0, 0, 0, 0] :: u32 list"
  let ?m = "mk_m (?g 0) 0x100027 trap_mem ?io (?ns NEMU_END 0x100026)"
  let ?m2 = "mk_m (?g 0x5678) 0x10002c trap_mem ?io (?ns NEMU_RUNNING 0x100026)"
  obtain p k where i: "isa_exec_once ((nm trap_nemu)\<lparr>nemu_state := (nemu_state (nm trap_nemu))\<lparr>nstate := NEMU_RUNNING\<rparr>\<rparr>) = Inr (p, ?m\<lparr>log_bytebuf_len := k\<rparr>)"
    using img_step8 [OF trap_mem_img, of 0 0 0 0 0 ?io "?ns NEMU_RUNNING 0"] by (auto simp: steps_to_def trap_nemu_def mk_m_def)
  obtain q k2 where i2: "isa_exec_once (?m\<lparr>log_bytebuf_len := k, nemu_state := (nemu_state ?m)\<lparr>nstate := NEMU_RUNNING\<rparr>, log_bytebuf_len := 0\<rparr>) = Inr (q, ?m2\<lparr>log_bytebuf_len := k2\<rparr>)"
    using step_behind [OF trap_mem_behind, of 0 0 0 0 0 ?io "?ns NEMU_RUNNING 0x100026"] by (auto simp: steps_to_def mk_m_def)
  have "check_wp_changed (expr (cpu ?m) f) (pc_watch 0x100026) = Inr (True, pc_watch 0x100027)"
    "check_wp_changed (expr (cpu ?m2) f) (pc_watch 0x100027) = Inr (True, pc_watch 0x10002c)" for f
    using check_pc_watch [of "cpu ?m" "0x100026" f] check_pc_watch [of "cpu ?m2" "0x100027" f] by (simp_all add: mk_m_def)
  then show ?thesis
    using watchpoint_hides_trap [OF _ no_ioe_plain i, of "pc_watch 0x100027" q "?m2\<lparr>log_bytebuf_len := k2\<rparr>" True "pc_watch 0x10002c"] i2
    by (auto simp: trap_nemu_def mk_m_def)
qed

text \<open>
  Leaving the debugger with \<open>q\<close> before the program ends makes \<open>main\<close> return status 1: the command
  does not set \<open>NEMU_QUIT\<close>, so \<open>is_exit_status_bad\<close> takes the run for a failure.
\<close>

theorem quit_exit_status_bad:
  "\<exists>st'. nemu_main no_ioe rnd_mem rnd_reg None [''q''] (nemu_initial clock) = Inr (1, st') \<and> cur_state st' = NEMU_STOP"
proof -
  let ?st = "nemu_initial clock"
  have wf: "cpu_wf (cpu (nm ?st))" "log_bytebuf_len (nm ?st) = 0" by (simp_all add: nemu_initial_def cpu_wf_def)
  obtain g f where init: "init_monitor rnd_mem rnd_reg None ?st =
      Inr (?st\<lparr>nm := mk_m g 0x100000 f (bus_io (mbus (nm ?st))) (nemu_state (nm ?st)), wps := init_wp_pool (wps ?st)\<rparr>)"
    using init_monitor_ok [OF wf, of rnd_mem rnd_reg] by auto
  show ?thesis
    unfolding nemu_main_def init bindE.simps engine_start_plain [OF no_ioe_plain]
    by (simp add: ui_command_q is_exit_status_bad_def mk_m_def nemu_initial_def)
qed

end
