(* ===== verification/Memory_Safe.thy ===== *)
theory Memory_Safe
  imports Memory
begin

text \<open>
  The faults that only a programming error of the emulator itself can cause, and that no access to
  guest memory or to a device causes one of them. The safety proofs of the instruction sets and of the
  debugger build on this theory.
\<close>

text \<open>
  The faults a run of the debugger must never end in: the read of an unassigned variable, the use of
  freed memory, a loop that does not end.
\<close>

definition nu :: "fault \<Rightarrow> bool" where
  "nu f \<longleftrightarrow> f \<notin> {Uninit, Use_after_free, Diverge}"

lemma nu_simps [simp]:
  "nu Assert_fail" "nu (Panic s)" "nu Todo" "nu Out_of_bounds" "nu Null_deref" "nu Div_error" "nu Bad_shift" "\<not> nu Uninit"
  "\<not> nu Use_after_free" "\<not> nu Diverge"
  by (simp_all add: nu_def)

section \<open>Memory\<close>

lemma wp_io_load [simp]: "wpE (\<lambda>_. True) nu (io_load p n io)"
  by (simp add: io_load_def load_bytes_def)

lemma wp_io_store [simp]: "wpE (\<lambda>_. True) nu (io_store p bs io)"
  by (simp add: io_store_def store_bytes_def)

lemma wp_bind_True: "wpE (\<lambda>_. True) E m \<Longrightarrow> (\<And>a. wpE Q E (f a)) \<Longrightarrow> wpE Q E (bindE m f)"
  by (cases m) auto

lemma wp_callback [simp]: "wpE (\<lambda>_. True) nu (invoke_callback cb off len w io)"
proof -
  have "wpE (\<lambda>_. True) nu (serial_io_handler off len w io)" "wpE (\<lambda>_. True) nu (rtc_io_handler off len w io)"
    "wpE (\<lambda>_. True) nu (i8042_data_io_handler off len w io)" "wpE (\<lambda>_. True) nu (audio_io_handler off len w io)"
    by (auto simp: serial_io_handler_def rtc_io_handler_def i8042_data_io_handler_def audio_io_handler_def
        wp_simps case_prod_unfold Let_def intro!: wp_bind_True split: option.split)
  then show ?thesis
    by (cases "(cb, off, len, w, io)" rule: invoke_callback.cases) auto
qed

lemma wp_paddr_read [simp]: "wpE (\<lambda>_. True) nu (paddr_read base a n b)"
  by (auto simp: paddr_read_def pmem_read_def map_read_def check_bound_def load_bytes_def wp_simps Let_def
      intro!: wp_bind_True split: option.split)

lemma wp_paddr_write [simp]: "wpE (\<lambda>_. True) nu (paddr_write base a v n b)"
  by (auto simp: paddr_write_def pmem_write_def map_write_def check_bound_def store_bytes_def wp_simps Let_def
      intro!: wp_bind_True split: option.split)

lemma wp_vaddr [simp]:
  "wpE (\<lambda>_. True) nu (vaddr_read base a n b)" "wpE (\<lambda>_. True) nu (vaddr_write base a v n b)"
  "wpE (\<lambda>_. True) nu (vaddr_ifetch base a n b)"
  by (simp_all add: vaddr_defs wp_simps)

end
