(* ===== verification/X86_Safe.thy ===== *)
theory X86_Safe
  imports X86_Exec Memory_Safe
begin

text \<open>
  Safety of the x86 interpreter step. The local variable \<open>DecodeExecState s\<close> of \<open>isa_exec_once\<close>
  starts with most of its fields unassigned, and the execution helpers read operands through pointers
  the decode helpers were to set. Contracts of the decode helpers, in weakest-precondition form,
  show that every field an instruction reads has been written before.
\<close>

section \<open>Contexts\<close>

definition base_ok :: "x86_ctx \<Rightarrow> bool" where
  "base_ok c \<longleftrightarrow> length (cgpr c) = 8 \<and> (\<forall>op. op_width (get_op op c) \<noteq> None) \<and> opcode (ds c) \<noteq> None \<and> \<not> is_jmp (ds c)"

text \<open>The value of an operand may be read, and its location may be written.\<close>

definition val_ok :: "opnd \<Rightarrow> x86_ctx \<Rightarrow> bool" where
  "val_ok op c \<longleftrightarrow> (\<exists>i<8. op_preg (get_op op c) = Some (Rgpr i)) \<or>
     (op_preg (get_op op c) = Some (Rval op) \<and> op_val (get_op op c) \<noteq> None)"

definition mbase_ok :: "x86_ctx \<Rightarrow> bool" where
  "mbase_ok c \<longleftrightarrow> mbase (isa (ds c)) = Some Rz \<or> (\<exists>i<8. mbase (isa (ds c)) = Some (Rgpr i)) \<or>
     (mbase (isa (ds c)) = Some Rmbr \<and> mbr (ds c) \<noteq> None)"

definition reg_ok :: "opnd \<Rightarrow> x86_ctx \<Rightarrow> bool" where
  "reg_ok op c \<longleftrightarrow> op_type (get_op op c) = Some OP_TYPE_REG \<and> op_imm (get_op op c) \<noteq> None"

definition loc_ok :: "opnd \<Rightarrow> x86_ctx \<Rightarrow> bool" where
  "loc_ok op c \<longleftrightarrow> reg_ok op c \<or> (op_type (get_op op c) = Some OP_TYPE_MEM \<and> mbase_ok c)"

definition others :: "opnd set \<Rightarrow> x86_ctx \<Rightarrow> x86_ctx \<Rightarrow> bool" where
  "others S c c' \<longleftrightarrow> base_ok c' \<and> cpu (mach c') = cpu (mach c) \<and> (\<forall>op. op \<notin> S \<longrightarrow> get_op op c' = get_op op c)"

definition same_addr :: "x86_ctx \<Rightarrow> x86_ctx \<Rightarrow> bool" where
  "same_addr c c' \<longleftrightarrow> isa (ds c') = isa (ds c) \<and> mbr (ds c') = mbr (ds c)"

lemma get_upd_op: "get_op o1 (upd_op o2 f c) = (if o1 = o2 then f (get_op o1 c) else get_op o1 c)"
  by (cases o1; cases o2) simp_all

lemma upd_op_frame [simp]:
  "mach (upd_op op f c) = mach c" "isa (ds (upd_op op f c)) = isa (ds c)" "mbr (ds (upd_op op f c)) = mbr (ds c)"
  "opcode (ds (upd_op op f c)) = opcode (ds c)" "is_jmp (ds (upd_op op f c)) = is_jmp (ds c)"
  by (cases op; simp)+

lemma upd_isa_frame [simp]:
  "mach (upd_isa f c) = mach c" "isa (ds (upd_isa f c)) = f (isa (ds c))" "mbr (ds (upd_isa f c)) = mbr (ds c)"
  "opcode (ds (upd_isa f c)) = opcode (ds c)" "is_jmp (ds (upd_isa f c)) = is_jmp (ds c)"
  "get_op op (upd_isa f c) = get_op op c"
  by (simp_all add: upd_isa_def) (cases op; simp)

lemma get_op_mach [simp]: "get_op op (c\<lparr>mach := m\<rparr>) = get_op op c" "get_op op (set_mbus b c) = get_op op c"
  by (cases op; simp add: set_mbus_def)+

lemma get_op_seq [simp]: "get_op op (c\<lparr>ds := (ds c)\<lparr>seq_pc := p\<rparr>\<rparr>) = get_op op c"
  "get_op op (c\<lparr>ds := (ds c)\<lparr>seq_pc := p\<rparr>, mach := m\<rparr>) = get_op op c"
  by (cases op; simp)+

lemma set_mbus_frame [simp]:
  "ds (set_mbus b c) = ds c" "cpu (mach (set_mbus b c)) = cpu (mach c)"
  by (simp_all add: set_mbus_def)

text \<open>An instruction fetch only moves the program counter, the devices and the log.\<close>

lemma wp_fetch:
  assumes "\<And>v c'. others {} c c' \<Longrightarrow> same_addr c c' \<Longrightarrow> Q (v, c')" and "base_ok c"
  shows "wpE Q nu (x_fetch n c)"
proof -
  have "others {} c c' \<and> same_addr c c'"
    if "c' = c\<lparr>ds := (ds c)\<lparr>seq_pc := p\<rparr>, mach := (mach c)\<lparr>mbus := b, log_bytebuf_len := k\<rparr>\<rparr>" for p b k c'
    using assms(2) that by (simp add: others_def same_addr_def base_ok_def)
  then show ?thesis
    using assms(1) by (auto simp: instr_fetch_def Let_def wp_simps case_prod_unfold intro!: wp_bind_True)
qed

section \<open>Contracts of the operand helpers\<close>

lemma others_trans: "others S c c1 \<Longrightarrow> others T c1 c2 \<Longrightarrow> others (S \<union> T) c c2"
  by (auto simp: others_def)

lemma others_trans_same: "others S c c1 \<Longrightarrow> others S c1 c2 \<Longrightarrow> others S c c2"
  using others_trans [of S c c1 S c2] by simp

lemma others_base: "others S c c' \<Longrightarrow> base_ok c'"
  by (simp add: others_def)

lemma same_addr_trans: "same_addr c c1 \<Longrightarrow> same_addr c1 c2 \<Longrightarrow> same_addr c c2"
  by (simp add: same_addr_def)

lemma val_ok_other: "others S c c' \<Longrightarrow> op \<notin> S \<Longrightarrow> val_ok op c \<Longrightarrow> val_ok op c'"
  by (auto simp: others_def val_ok_def)

lemma reg_ok_other: "others S c c' \<Longrightarrow> op \<notin> S \<Longrightarrow> reg_ok op c \<Longrightarrow> reg_ok op c'"
  by (auto simp: others_def reg_ok_def)

lemma loc_ok_other: "others S c c' \<Longrightarrow> same_addr c c' \<Longrightarrow> op \<notin> S \<Longrightarrow> loc_ok op c \<Longrightarrow> loc_ok op c'"
  by (auto simp: others_def loc_ok_def reg_ok_def mbase_ok_def same_addr_def)

lemma wp_rtl_lr:
  assumes "base_ok c" "r < 8"
  shows "wpE (\<lambda>c'. others {op} c c' \<and> same_addr c c' \<and> op_val (get_op op c') \<noteq> None \<and>
      op_preg (get_op op c') = op_preg (get_op op c) \<and> op_type (get_op op c') = op_type (get_op op c) \<and>
      op_imm (get_op op c') = op_imm (get_op op c)) nu (rtl_lr (Rval op) r w c)"
  using assms
  by (auto simp: rtl_lr_def rtl_mv_def rtl_compute_reg_def rtl_host_lm_def c_add_def check_reg_index_def wp_simps
      base_ok_def others_def same_addr_def get_upd_op Let_def)

lemma wp_operand_reg:
  assumes "base_ok c" "r < 8"
  shows "wpE (\<lambda>c'. others {op} c c' \<and> same_addr c c' \<and> reg_ok op c' \<and> (load \<longrightarrow> val_ok op c')) nu
    (operand_reg op load r w c)"
proof (cases "w = 4")
  case True
  then show ?thesis
    using assms by (auto simp: operand_reg_def check_reg_index_def wp_simps Let_def others_def same_addr_def
        base_ok_def reg_ok_def val_ok_def get_upd_op)
next
  case False
  let ?c = "upd_op op (\<lambda>q. q\<lparr>op_preg := Some (Rval op)\<rparr>) (upd_op op (\<lambda>q. q\<lparr>op_type := Some OP_TYPE_REG, op_imm := Some (of_nat r)\<rparr>) c)"
  have b: "others {op} c ?c" "same_addr c ?c"
    using assms by (auto simp: others_def same_addr_def base_ok_def get_upd_op)
  have "wpE (\<lambda>c'. others {op} c c' \<and> same_addr c c' \<and> reg_ok op c' \<and> (load \<longrightarrow> val_ok op c')) nu
      (if load then rtl_lr (Rval op) r w ?c else Inr ?c)"
  proof (cases load)
    case True
    then show ?thesis
      using wpE_mono [OF wp_rtl_lr [OF others_base [OF b(1)] assms(2), of op w]]
        others_trans [OF b(1)] same_addr_trans [OF b(2)]
      by (simp add: reg_ok_def val_ok_def get_upd_op) (metis (mono_tags, lifting) insert_is_Un Un_absorb)
  qed (use b in \<open>simp add: reg_ok_def get_upd_op\<close>)
  then show ?thesis using False by (auto simp: operand_reg_def Let_def wp_simps split: if_splits)
qed

lemma wp_operand_imm:
  assumes "base_ok c"
  shows "wpE (\<lambda>c'. others {op} c c' \<and> same_addr c c' \<and> (load \<longrightarrow> val_ok op c')) nu (operand_imm op load imm c)"
  using assms
  by (auto simp: operand_imm_def rtl_li_def rtl_compute_imm_def c_add_def wp_simps Let_def others_def same_addr_def
      base_ok_def val_ok_def get_upd_op)

lemma wp_width_of: "base_ok c \<Longrightarrow> (\<And>w. Q w) \<Longrightarrow> wpE Q nu (width_of op c)"
  by (auto simp: width_of_def base_ok_def wp_simps split: option.split)

lemma wp_decode_op_I:
  assumes "base_ok c"
  shows "wpE (\<lambda>c'. others {op} c c' \<and> same_addr c c' \<and> (load \<longrightarrow> val_ok op c')) nu (decode_op_I op load c)"
  unfolding decode_op_I_def wp_simps
proof (rule wp_width_of [OF assms], rule wp_fetch [OF _ assms], simp)
  fix v c' assume f: "others {} c c'" "same_addr c c'"
  show "wpE (\<lambda>c'. others {op} c c' \<and> same_addr c c' \<and> (load \<longrightarrow> val_ok op c')) nu (operand_imm op load v c')"
    using f others_trans [OF f(1)] same_addr_trans [OF f(2)]
    by (intro wpE_mono [OF wp_operand_imm [OF others_base [OF f(1)], of op load v]]) auto
qed

lemma wp_decode_op_a:
  assumes "base_ok c"
  shows "wpE (\<lambda>c'. others {op} c c' \<and> same_addr c c' \<and> reg_ok op c' \<and> (load \<longrightarrow> val_ok op c')) nu (decode_op_a op load c)"
  unfolding decode_op_a_def wp_simps by (rule wp_width_of [OF assms], rule wp_operand_reg [OF assms]) simp

lemma wp_decode_op_r:
  assumes "base_ok c"
  shows "wpE (\<lambda>c'. others {op} c c' \<and> same_addr c c' \<and> reg_ok op c' \<and> (load \<longrightarrow> val_ok op c')) nu (decode_op_r op load c)"
proof -
  obtain oc where "opcode (ds c) = Some oc" using assms by (auto simp: base_ok_def)
  then show ?thesis
    unfolding decode_op_r_def wp_simps
    by (intro wp_width_of [OF assms]) (auto intro!: wp_operand_reg [OF assms] simp: unat_and_7)
qed

lemma wp_rd_mbase: "base_ok c \<Longrightarrow> mbase_ok c \<Longrightarrow> mbase (isa (ds c)) = Some p \<Longrightarrow> (\<And>v. Q v) \<Longrightarrow> wpE Q nu (rd p c)"
  by (auto simp: mbase_ok_def base_ok_def wp_simps split: option.split)

lemma wp_rtl_lm:
  assumes "base_ok c" "mbase_ok c" "mbase (isa (ds c)) = Some p"
  shows "wpE (\<lambda>c'. others {op} c c' \<and> same_addr c c' \<and> op_val (get_op op c') \<noteq> None \<and>
      op_type (get_op op c') = op_type (get_op op c)) nu (rtl_lm 0 (Rval op) p off w c)"
  unfolding rtl_lm_def wp_simps case_prod_unfold
proof (rule wp_rd_mbase [OF assms])
  fix a
  show "wpE (\<lambda>vb. wpE (\<lambda>c'. others {op} c c' \<and> same_addr c c' \<and> op_val (get_op op c') \<noteq> None \<and>
      op_type (get_op op c') = op_type (get_op op c)) nu (wr (Rval op) (fst vb) (set_mbus (snd vb) c))) nu
      (vaddr_read 0 (a + off) w (mbus (mach c)))"
    using assms(1) by (intro wpE_mono [OF wp_vaddr(1)])
      (auto simp: others_def same_addr_def base_ok_def get_upd_op)
qed

section \<open>Contracts of the addressing forms\<close>

lemma wp_load_addr_sib:
  assumes "base_ok c" "R_M m < 8"
  shows "wpE (\<lambda>((b, ix, k), c'). others {} c c' \<and> b < 8 \<and> (\<forall>i. ix = Some i \<longrightarrow> i < 8)) nu (load_addr_sib m c)"
proof -
  show ?thesis
    unfolding load_addr_sib_def wp_simps
    using assms by (auto simp: sib_of_def Let_def others_def unat_and_7 intro!: wp_fetch)
qed

lemma wp_load_addr_disp:
  "base_ok c \<Longrightarrow> wpE (\<lambda>(d, c'). others {} c c') nu (load_addr_disp n c)"
  by (auto simp: load_addr_disp_def wp_simps others_def intro!: wp_fetch)

lemma wp_load_addr_index:
  assumes "base_ok c" "mb = Rz \<or> (\<exists>i<8. mb = Rgpr i)" "\<forall>i. ix = Some i \<longrightarrow> i < 8" "mbase (isa (ds c)) = Some mb"
  shows "wpE (\<lambda>c'. others {} c c' \<and> mbase_ok c') nu
    (case ix of None \<Rightarrow> Inr c
     | Some i \<Rightarrow> bindE (check_reg_index i) (\<lambda>i. bindE (rtl_shli s1 (Rgpr i) k c) (\<lambda>c.
         bindE (rtl_add Rmbr mb s1 c) (\<lambda>c. Inr (upd_isa (\<lambda>q. q\<lparr>mbase := Some Rmbr\<rparr>) c)))))"
proof -
  have tmp: "get_op op (c\<lparr>ds := (ds c)\<lparr>tmp_reg := t\<rparr>\<rparr>) = get_op op c"
    "get_op op (c\<lparr>ds := (ds c)\<lparr>tmp_reg := t, mbr := u\<rparr>\<rparr>) = get_op op c" for op t u by (cases op; simp)+
  show ?thesis
  proof (cases ix)
    case None
    then show ?thesis using assms by (auto simp: others_def mbase_ok_def)
  next
    case (Some i)
    then have "i < length (cgpr c)" "i < 8" using assms by (auto simp: base_ok_def)
    then show ?thesis
      using assms Some
      by (elim disjE exE) (auto simp: check_reg_index_def rtl_compute_imm_def rtl_compute_reg_def c_shl_def c_add_def
          wp_simps others_def mbase_ok_def base_ok_def tmp)
  qed
qed

lemma wp_load_addr:
  assumes "base_ok c" "R_M m < 8"
  shows "wpE (\<lambda>c'. others {rm} c c' \<and> op_type (get_op rm c') = Some OP_TYPE_MEM \<and> mbase_ok c') nu (load_addr m rm c)"
  unfolding load_addr_def wp_simps
proof (simp, intro impI, rule wpE_mono [OF wp_load_addr_sib [OF assms]], goal_cases)
  case (1 a)
  obtain b ix k c1 where a: "a = ((b, ix, k), c1)" by (metis prod.exhaust)
  have c1: "others {} c c1" "b < 8" "\<forall>i. ix = Some i \<longrightarrow> i < 8" using 1 a by auto
  obtain br n where br: "load_addr_base m b = (br, n)" by (cases "load_addr_base m b")
  have mb: "\<forall>i. br = Some i \<longrightarrow> i < 8" using br c1(2) by (auto simp: load_addr_base_def split: if_splits)
  let ?mb = "case br of None \<Rightarrow> Rz | Some i \<Rightarrow> Rgpr i"
  have chk: "(case br of None \<Rightarrow> Inr Rz | Some i \<Rightarrow> bindE (check_reg_index i) (\<lambda>i. Inr (Rgpr i))) = Inr ?mb"
    using mb by (simp add: check_reg_index_def split: option.split)
  show ?case
    unfolding a using wp_load_addr_disp [OF others_base [OF c1(1)], of n]
  proof (simp add: br wp_simps, elim wpE_mono, goal_cases)
    case (1 dc)
    obtain d c2 where dc: "dc = (d, c2)" by (cases dc)
    let ?c = "upd_isa (\<lambda>q. q\<lparr>mbase := Some ?mb\<rparr>) c2"
    have c2: "others {} c ?c" using 1 dc c1(1) by (auto simp: others_def base_ok_def)
    have "?mb = Rz \<or> (\<exists>i<8. ?mb = Rgpr i)" using mb by (auto split: option.split)
    from wp_load_addr_index [OF others_base [OF c2] this c1(3), of "of_nat k"]
    show ?case
      using c2 by (simp add: dc chk wp_simps Let_def) (elim wpE_mono; auto simp: others_def base_ok_def get_upd_op mbase_ok_def)
  qed
qed

lemma wp_reg_field:
  assumes "base_ok c" "r < 8"
  shows "wpE (\<lambda>c'. others (set_option reg) c c' \<and> (\<forall>g. reg = Some g \<longrightarrow> reg_ok g c' \<and> (load \<longrightarrow> val_ok g c'))) nu
    (case reg of None \<Rightarrow> Inr c | Some rg \<Rightarrow> bindE (width_of rg c) (\<lambda>w. operand_reg rg load r w c))"
proof (cases reg)
  case None
  then show ?thesis using assms by (simp add: others_def)
next
  case (Some g)
  show ?thesis
    using wpE_mono [OF wp_operand_reg [OF assms, of g load]] by (simp add: Some wp_simps) (rule wp_width_of [OF assms(1)], auto)
qed

definition rm_post :: "opnd \<Rightarrow> bool \<Rightarrow> opnd option \<Rightarrow> bool \<Rightarrow> x86_ctx \<Rightarrow> x86_ctx \<Rightarrow> bool" where
  "rm_post rm load_rm reg load_reg c c' \<longleftrightarrow>
     others (insert rm (set_option reg)) c c' \<and> loc_ok rm c' \<and> (load_rm \<longrightarrow> val_ok rm c') \<and>
     (\<forall>g. reg = Some g \<longrightarrow> reg_ok g c' \<and> (load_reg \<longrightarrow> val_ok g c'))"

lemma others_upd_preg:
  "others S c c' \<Longrightarrow> op \<in> S \<Longrightarrow> others S c (upd_op op (\<lambda>q. q\<lparr>op_preg := p\<rparr>) c')"
  by (auto simp: others_def base_ok_def get_upd_op)

text \<open>An operand whose value was loaded from memory and whose pointer is set to that value.\<close>

lemma loaded_ok:
  assumes "same_addr c c'" "mbase_ok c" "op_type (get_op op c') = Some OP_TYPE_MEM" "op_val (get_op op c') \<noteq> None"
  shows "loc_ok op (upd_op op (\<lambda>q. q\<lparr>op_preg := Some (Rval op)\<rparr>) c')"
    "val_ok op (upd_op op (\<lambda>q. q\<lparr>op_preg := Some (Rval op)\<rparr>) c')"
  using assms by (auto simp: loc_ok_def mbase_ok_def same_addr_def get_upd_op val_ok_def)

lemma wp_rm_memory:
  assumes "base_ok c" "R_M m < 8"
  shows "wpE (\<lambda>c'. others {rm} c c' \<and> loc_ok rm c' \<and> (load \<longrightarrow> val_ok rm c')) nu
    (bindE (load_addr m rm c) (\<lambda>c.
       bindE (if load then bindE (mbase_of c) (\<lambda>mb. bindE (width_of rm c) (\<lambda>w.
                rtl_lm 0 (Rval rm) mb (moff (isa (ds c))) w c))
              else Inr c) (\<lambda>c. Inr (upd_op rm (\<lambda>q. q\<lparr>op_preg := Some (Rval rm)\<rparr>) c))))"
  unfolding wp_simps
proof (rule wpE_mono [OF wp_load_addr [OF assms, of rm]], goal_cases)
  case (1 c1)
  then have c1: "others {rm} c c1" "op_type (get_op rm c1) = Some OP_TYPE_MEM" "mbase_ok c1" by auto
  note b = others_base [OF c1(1)]
  obtain mb where mb: "mbase (isa (ds c1)) = Some mb" using c1(3) by (auto simp: mbase_ok_def)
  have "wpE (\<lambda>a. others {rm} c (upd_op rm (\<lambda>q. q\<lparr>op_preg := Some (Rval rm)\<rparr>) a) \<and>
      loc_ok rm (upd_op rm (\<lambda>q. q\<lparr>op_preg := Some (Rval rm)\<rparr>) a) \<and>
      (load \<longrightarrow> val_ok rm (upd_op rm (\<lambda>q. q\<lparr>op_preg := Some (Rval rm)\<rparr>) a))) nu
      (rtl_lm 0 (Rval rm) mb (moff (isa (ds c1))) w c1)" for w
    by (rule wpE_mono [OF wp_rtl_lm [OF b c1(3) mb, of rm "moff (isa (ds c1))" w]])
      (use c1 others_trans_same [OF c1(1)] in \<open>auto intro!: others_upd_preg loaded_ok [OF _ c1(3)]\<close>)
  moreover have "others {rm} c (upd_op rm (\<lambda>q. q\<lparr>op_preg := Some (Rval rm)\<rparr>) c1)"
    "loc_ok rm (upd_op rm (\<lambda>q. q\<lparr>op_preg := Some (Rval rm)\<rparr>) c1)"
    using c1 by (auto intro: others_upd_preg simp: loc_ok_def mbase_ok_def get_upd_op)
  ultimately show ?case using wp_width_of [OF b] by (cases load) (simp_all add: mbase_of_def mb wp_simps)
qed auto

lemma wp_operand_rm:
  assumes "base_ok c" "reg \<noteq> Some rm"
  shows "wpE (rm_post rm load_rm reg load_reg c) nu (operand_rm rm load_rm reg load_reg c)"
  unfolding operand_rm_def read_ModR_M_def wp_simps
proof (rule wp_fetch [OF _ assms(1)], simp add: Let_def wp_simps, goal_cases)
  case (1 v c1)
  let ?m = "modrm_of v"
  let ?c = "upd_isa (\<lambda>q. q\<lparr>ext_opcode := of_nat (mreg ?m)\<rparr>) c1"
  have m: "R_M ?m < 8" "mreg ?m < 8" by (simp_all add: modrm_of_def unat_and_7)
  have c1: "others {} c ?c" using 1 by (auto simp: others_def base_ok_def)
  show ?case
  proof (rule wpE_mono [OF wp_reg_field [OF others_base [OF c1] m(2), of reg load_reg]], goal_cases)
    case (1 c2)
    then have c2: "others (set_option reg) c c2" "\<forall>g. reg = Some g \<longrightarrow> reg_ok g c2 \<and> (load_reg \<longrightarrow> val_ok g c2)"
      using others_trans [OF c1] by auto
    note b = others_base [OF c2(1)]
    have post: "rm_post rm load_rm reg load_reg c c'"
      if "others {rm} c2 c'" "loc_ok rm c'" "load_rm \<longrightarrow> val_ok rm c'" for c'
    proof -
      have "others (insert rm (set_option reg)) c c'" using others_trans [OF c2(1) that(1)] by simp
      moreover have "reg_ok g c' \<and> (load_reg \<longrightarrow> val_ok g c')" if "reg = Some g" for g
        using c2(2) assms(2) that reg_ok_other [OF \<open>others {rm} c2 c'\<close>] val_ok_other [OF \<open>others {rm} c2 c'\<close>] by auto
      ultimately show ?thesis using that by (simp add: rm_post_def)
    qed
    have "wpE (rm_post rm load_rm reg load_reg c) nu (operand_reg rm load_rm (R_M ?m) w c2)" for w
      by (rule wpE_mono [OF wp_operand_reg [OF b m(1), of rm load_rm w]]) (auto intro!: post simp: loc_ok_def)
    moreover have "wpE (rm_post rm load_rm reg load_reg c) nu
      (bindE (load_addr ?m rm c2) (\<lambda>c.
       bindE (if load_rm then bindE (mbase_of c) (\<lambda>mb. bindE (width_of rm c) (\<lambda>w.
                rtl_lm 0 (Rval rm) mb (moff (isa (ds c))) w c))
              else Inr c) (\<lambda>c. Inr (upd_op rm (\<lambda>q. q\<lparr>op_preg := Some (Rval rm)\<rparr>) c))))"
      by (rule wpE_mono [OF wp_rm_memory [OF b m(1), of rm load_rm]]) (auto intro!: post)
    ultimately show ?case
      using wp_width_of [OF b, of _ rm] by (cases load_rm; cases "mmod ?m = 3") (simp_all add: wp_simps)
  qed auto
qed

lemma wp_decode_op_O:
  assumes "base_ok c"
  shows "wpE (\<lambda>c'. others {op} c c' \<and> loc_ok op c' \<and> (load \<longrightarrow> val_ok op c')) nu (decode_op_O op load c)"
proof -
  let ?c = "upd_op op (\<lambda>q. q\<lparr>op_type := Some OP_TYPE_MEM\<rparr>) c"
  have c0: "others {op} c ?c" "op_type (get_op op ?c) = Some OP_TYPE_MEM"
    using assms by (auto simp: others_def base_ok_def get_upd_op)
  show ?thesis
    unfolding decode_op_O_def Let_def wp_simps
  proof (rule wp_fetch [OF _ others_base [OF c0(1)]], simp add: wp_simps, goal_cases)
    case (1 v c1)
    let ?d = "upd_isa (\<lambda>q. q\<lparr>moff := v, mbase := Some Rz\<rparr>) c1"
    have d: "others {op} c ?d" "op_type (get_op op ?d) = Some OP_TYPE_MEM" "mbase_ok ?d"
      using 1 c0 by (auto simp: others_def base_ok_def mbase_ok_def)
    note b = others_base [OF d(1)]
    have "wpE (\<lambda>a. others {op} c (upd_op op (\<lambda>q. q\<lparr>op_preg := Some (Rval op)\<rparr>) a) \<and>
        loc_ok op (upd_op op (\<lambda>q. q\<lparr>op_preg := Some (Rval op)\<rparr>) a) \<and>
        val_ok op (upd_op op (\<lambda>q. q\<lparr>op_preg := Some (Rval op)\<rparr>) a)) nu (rtl_lm 0 (Rval op) Rz v w ?d)" for w
      by (rule wpE_mono [OF wp_rtl_lm [OF b d(3), of Rz op v w]])
        (use d others_trans_same [OF d(1)] in \<open>auto intro!: others_upd_preg loaded_ok [OF _ d(3)]\<close>)
    then show ?case using d wp_width_of [OF b, of _ op] by (auto simp: loc_ok_def)
  qed
qed

section \<open>Contracts of the execution helpers\<close>

definition done_ok :: "x86_ctx \<Rightarrow> bool" where
  "done_ok c \<longleftrightarrow> length (cgpr c) = 8 \<and> \<not> is_jmp (ds c)"

text \<open>A fetch before any width is set needs less of the context.\<close>

lemma wp_fetch_start:
  assumes "done_ok c" "\<And>v c'. done_ok c' \<Longrightarrow> opcode (ds c') = opcode (ds c) \<Longrightarrow> Q (v, c')"
  shows "wpE Q nu (x_fetch n c)"
  using assms
  by (auto simp: instr_fetch_def Let_def wp_simps case_prod_unfold done_ok_def intro!: wp_bind_True)

lemma base_done: "base_ok c \<Longrightarrow> done_ok c"
  by (simp add: base_ok_def done_ok_def)

lemma wp_rd_val:
  "base_ok c \<Longrightarrow> val_ok op c \<Longrightarrow> op_preg (get_op op c) = Some p \<Longrightarrow> \<exists>v. rd p c = Inr v"
  by (auto simp: val_ok_def base_ok_def)

lemma wp_rtl_sr:
  assumes "base_ok c" "rd p c = Inr v"
  shows "wpE done_ok nu (rtl_sr r p w c)"
  using assms
  by (auto simp: rtl_sr_def check_reg_index_def rtl_mv_def rtl_compute_reg_def rtl_host_sm_def c_add_def wp_simps
      done_ok_def base_ok_def set_gpr_def Let_def)

lemma wp_rtl_sm:
  assumes "base_ok c" "mbase_ok c" "mbase (isa (ds c)) = Some mb" "rd p c = Inr v"
  shows "wpE done_ok nu (rtl_sm 0 mb off p w c)"
  unfolding rtl_sm_def wp_simps
  by (rule wp_rd_mbase [OF assms(1-3)])
    (use assms(1,4) in \<open>auto simp: done_ok_def base_ok_def intro!: wpE_mono [OF wp_vaddr(2)]\<close>)

lemma wp_exec_mov:
  assumes "base_ok c" "val_ok Src1 c" "loc_ok Dest c"
  shows "wpE done_ok nu (exec_mov c)"
proof -
  obtain p where p: "op_preg (get_op Src1 c) = Some p" using assms(2) by (auto simp: val_ok_def)
  obtain v where v: "rd p c = Inr v" using wp_rd_val [OF assms(1,2) p] by blast
  show ?thesis
  proof (cases "reg_ok Dest c")
    case True
    then show ?thesis
      using p wp_width_of [OF assms(1), of _ Dest] wp_rtl_sr [OF assms(1) v]
      by (auto simp: exec_mov_def with_ptr_def preg_of_def operand_write_def reg_ok_def wp_simps)
  next
    case False
    then obtain mb where mb: "mbase (isa (ds c)) = Some mb" "mbase_ok c" "op_type (get_op Dest c) = Some OP_TYPE_MEM"
      using assms(3) by (auto simp: loc_ok_def mbase_ok_def)
    then show ?thesis
      using p wp_width_of [OF assms(1), of _ Dest] wp_rtl_sm [OF assms(1) mb(2,1) v]
      by (auto simp: exec_mov_def with_ptr_def preg_of_def operand_write_def mbase_of_def wp_simps)
  qed
qed

lemma wp_exec_inv:
  assumes "done_ok c"
  shows "wpE done_ok nu (exec_inv c)"
proof -
  let ?c = "c\<lparr>ds := (ds c)\<lparr>seq_pc := pc (cpu (mach c))\<rparr>\<rparr>"
  have b: "done_ok ?c" using assms by (simp add: done_ok_def)
  show ?thesis
    unfolding exec_inv_def Let_def wp_simps
    by (rule wp_fetch_start [OF b], simp add: wp_simps, rule wp_fetch_start) (auto simp: rtl_exit_def done_ok_def)
qed

lemma all_opnd: "(\<forall>op. P op) \<longleftrightarrow> P Src1 \<and> P Dest \<and> P Src2"
  by (metis opnd.exhaust)

lemma wp_set_width:
  "length (cgpr c) = 8 \<Longrightarrow> opcode (ds c) \<noteq> None \<Longrightarrow> \<not> is_jmp (ds c) \<Longrightarrow> w \<ge> 0 \<Longrightarrow>
     wpE base_ok nu (set_width w c)"
  by (auto simp: set_width_def Let_def base_ok_def all_opnd)

lemma wp_EMPTY: "base_ok c \<Longrightarrow> wpE done_ok nu (EMPTY c)"
  using wp_exec_inv [OF base_done] by (auto simp: IDEXW_def wp_simps decode_empty_def base_ok_def
      intro!: wpE_mono [OF wp_set_width])

lemma wp_exec_group: "base_ok c \<Longrightarrow> wpE done_ok nu (exec_group c)"
  using wp_EMPTY by (auto simp: exec_group_def done_ok_def base_ok_def)

lemma wp_IDEXW:
  assumes "length (cgpr c) = 8" "opcode (ds c) \<noteq> None" "\<not> is_jmp (ds c)" "w \<ge> 0"
    and "\<And>c. base_ok c \<Longrightarrow> wpE P nu (dec c)" and "\<And>c. P c \<Longrightarrow> wpE done_ok nu (ex c)"
  shows "wpE done_ok nu (IDEXW dec ex w c)"
  unfolding IDEXW_def wp_simps
proof (rule wpE_mono [OF wp_set_width [OF assms(1-4)]], goal_cases)
  case (1 c1)
  then show ?case
    by (intro wpE_mono [OF assms(5)]) (auto intro: wpE_mono [OF assms(6)])
qed auto

section \<open>The interpreter step\<close>

lemma wp_decode_then_I:
  assumes "base_ok c" "reg \<noteq> Some rm" "Src1 \<noteq> rm"
  shows "wpE (\<lambda>c'. base_ok c' \<and> loc_ok rm c' \<and> val_ok Src1 c') nu
    (seqs [operand_rm rm load None False, decode_op_I Src1 True] c)"
  unfolding wp_simps
proof (rule wpE_mono [OF wp_operand_rm [OF assms(1), of None rm load False]], goal_cases)
  case (2 c1)
  then have c1: "base_ok c1" "loc_ok rm c1" by (auto simp: rm_post_def others_def)
  show ?case
    by (rule wpE_mono [OF wp_decode_op_I [OF c1(1), of Src1 True]])
      (use assms(3) loc_ok_other [OF _ _ _ c1(2)] in \<open>auto dest: others_base\<close>)
qed auto

lemma wp_mov_decoders:
  assumes "base_ok c"
  shows "wpE (\<lambda>c. base_ok c \<and> loc_ok Dest c \<and> val_ok Src1 c) nu (decode_mov_G2E c)"
    "wpE (\<lambda>c. base_ok c \<and> loc_ok Dest c \<and> val_ok Src1 c) nu (decode_mov_E2G c)"
    "wpE (\<lambda>c. base_ok c \<and> loc_ok Dest c \<and> val_ok Src1 c) nu (decode_mov_I2E c)"
    "wpE (\<lambda>c. base_ok c \<and> loc_ok Dest c \<and> val_ok Src1 c) nu (decode_mov_I2r c)"
    "wpE (\<lambda>c. base_ok c \<and> loc_ok Dest c \<and> val_ok Src1 c) nu (decode_O2a c)"
    "wpE (\<lambda>c. base_ok c \<and> loc_ok Dest c \<and> val_ok Src1 c) nu (decode_a2O c)"
proof -
  show "wpE (\<lambda>c. base_ok c \<and> loc_ok Dest c \<and> val_ok Src1 c) nu (decode_mov_G2E c)"
    unfolding decode_mov_G2E_def
    by (rule wpE_mono [OF wp_operand_rm [OF assms, of "Some Src1" Dest False True]]) (auto simp: rm_post_def others_def)
  show "wpE (\<lambda>c. base_ok c \<and> loc_ok Dest c \<and> val_ok Src1 c) nu (decode_mov_E2G c)"
    unfolding decode_mov_E2G_def
    by (rule wpE_mono [OF wp_operand_rm [OF assms, of "Some Dest" Src1 True False]])
      (auto simp: rm_post_def others_def loc_ok_def)
  show "wpE (\<lambda>c. base_ok c \<and> loc_ok Dest c \<and> val_ok Src1 c) nu (decode_mov_I2E c)"
    unfolding decode_mov_I2E_def by (rule wp_decode_then_I [OF assms, of None]) auto
  show "wpE (\<lambda>c. base_ok c \<and> loc_ok Dest c \<and> val_ok Src1 c) nu (decode_mov_I2r c)"
    unfolding decode_mov_I2r_def wp_simps
  proof (rule wpE_mono [OF wp_decode_op_r [OF assms, of Dest False]], goal_cases)
    case (1 c1)
    then have c1: "base_ok c1" "loc_ok Dest c1" by (auto simp: others_def loc_ok_def)
    show ?case
      by (rule wpE_mono [OF wp_decode_op_I [OF c1(1), of Src1 True]])
        (use loc_ok_other [OF _ _ _ c1(2)] in \<open>auto dest: others_base\<close>)
  qed auto
  show "wpE (\<lambda>c. base_ok c \<and> loc_ok Dest c \<and> val_ok Src1 c) nu (decode_O2a c)"
    unfolding decode_O2a_def wp_simps
  proof (rule wpE_mono [OF wp_decode_op_O [OF assms, of Src1 True]], goal_cases)
    case (1 c1)
    then have c1: "base_ok c1" "val_ok Src1 c1" by (auto simp: others_def)
    show ?case
      by (rule wpE_mono [OF wp_decode_op_a [OF c1(1), of Dest False]])
        (use val_ok_other [OF _ _ c1(2)] in \<open>auto dest: others_base simp: loc_ok_def\<close>)
  qed auto
  show "wpE (\<lambda>c. base_ok c \<and> loc_ok Dest c \<and> val_ok Src1 c) nu (decode_a2O c)"
    unfolding decode_a2O_def wp_simps
  proof (rule wpE_mono [OF wp_decode_op_a [OF assms, of Src1 True]], goal_cases)
    case (1 c1)
    then have c1: "base_ok c1" "val_ok Src1 c1" by (auto simp: others_def)
    show ?case
      by (rule wpE_mono [OF wp_decode_op_O [OF c1(1), of Dest False]])
        (use val_ok_other [OF _ _ c1(2)] in \<open>auto dest: others_base\<close>)
  qed auto
qed

text \<open>The decoders in front of the opcode groups, whose entries read no operand.\<close>

lemma wp_group_decoders:
  assumes "base_ok c"
  shows "wpE base_ok nu (decode_I2E c)" "wpE base_ok nu (decode_SI2E c)" "wpE base_ok nu (decode_gp2_Ib2E c)"
    "wpE base_ok nu (decode_gp2_1_E c)" "wpE base_ok nu (decode_gp2_cl2E c)" "wpE base_ok nu (decode_E c)"
    "wpE base_ok nu (decode_gp7_E c)"
proof -
  have rm: "wpE base_ok nu (operand_rm Dest load None False c)" if "base_ok c" for load c
    by (rule wpE_mono [OF wp_operand_rm [OF that, of None Dest load False]]) (auto simp: rm_post_def others_def)
  have I: "wpE base_ok nu (decode_op_I Src1 True c)" if "base_ok c" for c
    by (rule wpE_mono [OF wp_decode_op_I [OF that]]) (auto simp: others_def)
  have w: "wpE base_ok nu (set_op_width Src1 1 c)" if "base_ok c" for c
    using that by (auto simp: set_op_width_def base_ok_def get_upd_op simp del: upd_op.simps)
  have im: "wpE base_ok nu (operand_imm Src1 True 1 c)" if "base_ok c" for c
    by (rule wpE_mono [OF wp_operand_imm [OF that]]) (auto simp: others_def)
  have rg: "wpE base_ok nu (operand_reg Src1 True R_ECX 4 c)" if "base_ok c" for c
    by (rule wpE_mono [OF wp_operand_reg [OF that]]) (auto simp: others_def)
  have as: "wpE base_ok nu (assert_dest_width_24 c)" if "base_ok c" for c
    using wp_width_of [OF that, of _ Dest] that by (simp add: assert_dest_width_24_def wp_simps)
  have SI: "wpE base_ok nu (decode_op_SI Src1 True c)" if "base_ok c" for c
    using wp_width_of [OF that, of _ Src1] by (simp add: decode_op_SI_def wp_simps)
  have mk: "wpE base_ok nu (bindE (decode_op_SI Src1 True c) f)" if "base_ok c" for c f
    using wp_width_of [OF that, of _ Src1] by (simp add: decode_op_SI_def wp_simps)
  note defs = decode_I2E_def decode_SI2E_def decode_gp2_Ib2E_def decode_gp2_1_E_def decode_gp2_cl2E_def
    decode_E_def decode_gp7_E_def
  show "wpE base_ok nu (decode_I2E c)" "wpE base_ok nu (decode_gp2_Ib2E c)" "wpE base_ok nu (decode_gp2_1_E c)"
    "wpE base_ok nu (decode_gp2_cl2E c)" "wpE base_ok nu (decode_E c)" "wpE base_ok nu (decode_gp7_E c)"
    unfolding defs using rm I w im rg assms by (auto intro!: seqs_preserves simp del: seqs.simps)
  have "wpE base_ok nu (seqs [assert_dest_width_24, operand_rm Dest True None False, set_op_width Src1 1] c)"
    using as rm w assms by (auto intro!: seqs_preserves simp del: seqs.simps)
  then have "wpE base_ok nu (bindE (seqs [assert_dest_width_24, operand_rm Dest True None False, set_op_width Src1 1] c)
      (seqs [decode_op_SI Src1 True, mask_dsrc1]))"
    unfolding wpE_bindE by (rule wpE_mono) (use mk in \<open>auto simp del: seqs.simps simp: seqs.simps(2) [of "decode_op_SI Src1 True"]\<close>)
  then show "wpE base_ok nu (decode_SI2E c)"
    unfolding decode_SI2E_def
    by (simp only: append_Cons append_Nil flip: seqs_append)
qed

lemma wp_exec_2byte_esc: "base_ok c \<Longrightarrow> wpE done_ok nu (exec_2byte_esc c)"
  unfolding exec_2byte_esc_def wp_simps
proof (erule wp_fetch [rotated], simp add: Let_def, intro conjI impI, goal_cases)
  case (1 v c1)
  then have b: "base_ok c1" by (rule_tac others_base)
  show ?case
    by (rule wp_IDEXW [where P = base_ok])
      (use b wp_group_decoders(7) wp_exec_group in \<open>auto simp: base_ok_def set_opcode_def exec_gp7_def\<close>)
next
  case (2 v c1)
  then show ?case
    by (intro wp_exec_inv) (auto simp: done_ok_def set_opcode_def others_def base_ok_def)
qed

lemma wp_nemu_trap: "done_ok c \<Longrightarrow> wpE done_ok nu (exec_nemu_trap c)"
  by (auto simp: exec_nemu_trap_def rtl_exit_def wp_simps done_ok_def)

lemma wp_exec_opcode:
  assumes "done_ok c" "opcode (ds c) \<noteq> None"
  shows "wpE done_ok nu (exec_opcode oc c)"
proof -
  have mov: "wpE done_ok nu (IDEXW dec exec_mov w c)"
    if "\<And>c. base_ok c \<Longrightarrow> wpE (\<lambda>c. base_ok c \<and> loc_ok Dest c \<and> val_ok Src1 c) nu (dec c)" "w \<ge> 0" for dec w
    by (rule wp_IDEXW [OF _ assms(2) _ that(2,1)]) (use assms(1) wp_exec_mov in \<open>auto simp: done_ok_def\<close>)
  have grp: "wpE done_ok nu (IDEXW dec exec_group w c)" if "\<And>c. base_ok c \<Longrightarrow> wpE base_ok nu (dec c)" "w \<ge> 0" for dec w
    by (rule wp_IDEXW [OF _ assms(2) _ that(2,1)]) (use assms(1) wp_exec_group in \<open>auto simp: done_ok_def\<close>)
  have ex: "wpE done_ok nu (EXn f c)" if "\<And>c. base_ok c \<Longrightarrow> wpE done_ok nu (f c)" for f
    by (rule wp_IDEXW [where P = base_ok]) (use assms that in \<open>auto simp: done_ok_def decode_empty_def\<close>)
  note gp = exec_gp1_def exec_gp2_def exec_gp3_def exec_gp4_def exec_gp5_def
  show ?thesis
    unfolding exec_opcode_def gp
    using mov wp_mov_decoders grp wp_group_decoders ex [OF wp_exec_2byte_esc] ex [OF wp_nemu_trap [OF base_done]]
      wp_exec_inv [OF assms(1)]
    by simp
qed

lemma wp_fetch_decode_exec: "done_ok c \<Longrightarrow> wpE done_ok nu (fetch_decode_exec c)"
proof (induction c rule: fetch_decode_exec.induct)
  case (1 c)
  show ?case
  proof (subst fetch_decode_exec.simps, cases "x_fetch 1 c")
    case (Inl e)
    then show "wpE done_ok nu (bindE (x_fetch 1 c) (\<lambda>(v, c').
       let oc = ucast v :: u8; c'' = set_opcode (ucast oc) c' in
       if oc = 0x66 then fetch_decode_exec (upd_isa (\<lambda>q. q\<lparr>is_operand_size_16 := True\<rparr>) c'')
       else exec_opcode oc c''))"
      using wp_fetch_start [OF 1(2), of "\<lambda>_. True" 1] by simp
  next
    case (Inr vc)
    obtain v c1 where vc: "vc = (v, c1)" by (cases vc)
    have "done_ok c1" using wp_fetch_start [OF 1(2), of "\<lambda>(v, c). done_ok c" 1] Inr vc by simp
    then have ok: "done_ok (set_opcode w c1)" "done_ok (upd_isa f (set_opcode w c1))" "opcode (ds (set_opcode w c1)) \<noteq> None"
      for w f by (simp_all add: done_ok_def set_opcode_def)
    show "wpE done_ok nu (bindE (x_fetch 1 c) (\<lambda>(v, c').
       let oc = ucast v :: u8; c'' = set_opcode (ucast oc) c' in
       if oc = 0x66 then fetch_decode_exec (upd_isa (\<lambda>q. q\<lparr>is_operand_size_16 := True\<rparr>) c'')
       else exec_opcode oc c''))"
      unfolding Inr vc bindE.simps prod.case Let_def
      using 1(1) [OF Inr vc [symmetric] refl refl] ok wp_exec_opcode [OF ok(1,3)] by auto
  qed
qed

lemma wp_isa_exec_once:
  assumes "cpu_wf (cpu m)"
  shows "wpE (\<lambda>(p, m'). cpu_wf (cpu m')) nu (isa_exec_once m)"
proof -
  have "done_ok \<lparr>ds = decode_state_init (pc (cpu m)) (Some 0) x86_isa_init, mach = m\<rparr>"
    using assms by (simp add: done_ok_def decode_state_init_def cpu_wf_def)
  from wp_fetch_decode_exec [OF this] show ?thesis
    unfolding isa_exec_once_def wp_simps by (rule wpE_mono) (auto simp: update_pc_def done_ok_def cpu_wf_def)
qed

text \<open>
  C3. For every memory content and every register file, executing one instruction never reads a
  variable that was not assigned before, and when it returns the register file still has its eight
  registers: every other way to stop is an assertion, a panic, an unimplemented instruction or an
  access outside a host array.
\<close>

theorem isa_exec_once_no_uninit:
  assumes "cpu_wf (cpu m)"
  shows "isa_exec_once m \<noteq> Inl Uninit \<and> (\<forall>p m'. isa_exec_once m = Inr (p, m') \<longrightarrow> cpu_wf (cpu m'))"
  using wp_isa_exec_once [OF assms] by (cases "isa_exec_once m") (auto simp: nu_def)

theorem isa_exec_once_no_uninit_witness:
  "cpu_wf \<lparr>gpr = replicate 8 0, pc = 0x100000\<rparr> \<and>
   isa_exec_once \<lparr>cpu = \<lparr>gpr = replicate 8 0, pc = 0x100000\<rparr>, mbus = bus_initial (\<lambda>_. (0, 0)),
     nemu_state = \<lparr>nstate = NEMU_RUNNING, halt_pc = 0, halt_ret = 0\<rparr>, log_bytebuf_len = 0\<rparr> \<noteq> Inl Uninit"
proof -
  have "cpu_wf \<lparr>gpr = replicate 8 0, pc = 0x100000\<rparr>" by (simp add: cpu_wf_def)
  then show ?thesis
    using isa_exec_once_no_uninit [of "\<lparr>cpu = \<lparr>gpr = replicate 8 0, pc = 0x100000\<rparr>, mbus = bus_initial (\<lambda>_. (0, 0)),
     nemu_state = \<lparr>nstate = NEMU_RUNNING, halt_pc = 0, halt_ret = 0\<rparr>, log_bytebuf_len = 0\<rparr>"] by simp
qed

end
