(* ===== verification/Session.thy ===== *)
theory Session
  imports Monitor_Correct X86_Safe
begin

text \<open>
  Safety of a whole debugger session. The watchpoint pool is threaded through every command and every
  executed instruction; this theory shows that whatever the user types and whatever program runs, the
  pool stays well-formed, the register file keeps its shape, and the debugger never reads an unassigned
  variable, never uses a freed expression string and never walks a cyclic list.
\<close>

section \<open>Faults of the expression evaluator\<close>

lemma wp_add_token: "wpE (\<lambda>_. True) nu (add_token ts ty sub)"
  by (cases "(ts, ty, sub)" rule: add_token.cases) (auto simp: Let_def)

lemma wp_tokenize: "wpE (\<lambda>_. True) nu (tokenize ts e)"
proof (induction ts e rule: tokenize.induct)
  case (1 ts e)
  show ?case
  proof (cases "e = [] \<or> first_match rules e = None \<or> \<not> memset_in_bounds (length ts)")
    case False
    then obtain ty n where m: "first_match rules e = Some (ty, n)" "e \<noteq> []" "memset_in_bounds (length ts)" by auto
    then have step: "tokenize ts e = bindE (add_token ts ty (take n e)) (\<lambda>ts. tokenize ts (drop n e))"
      by (simp add: tokenize.simps [of ts e])
    show ?thesis
      unfolding step using 1 [OF m(2,1) refl m(3)] wp_add_token [of ts ty "take n e"]
      by (cases "add_token ts ty (take n e)") auto
  qed (auto simp: tokenize.simps [of ts e] split: option.split)
qed

lemma wp_find_main: "wpE (\<lambda>_. True) nu (find_main its n m)"
proof (induction its arbitrary: n m)
  case (Cons it its)
  then show ?case
    by (cases it) (auto simp: Let_def priority_is_higher_def wp_simps split: option.split)
qed simp

lemma wp_eval_leaf: "wpE (\<lambda>_. True) nu (eval_leaf c mem t)"
  by (auto simp: eval_leaf_def load_bytes_def wp_simps split: tk.split option.split)

lemma wp_apply_op: "wpE (\<lambda>_. True) nu (apply_op t a b)"
  by (cases t) (auto simp: wp_simps)

lemma wp_eval: "wpE (\<lambda>_. True) nu (eval c mem ts p q)"
proof (induction c mem ts p q rule: eval.induct)
  case (1 c mem ts p q)
  have leaf: ?case if "p \<ge> q"
    using that wp_eval_leaf by (auto simp: eval.simps [of c mem ts p q])
  have rec: ?case if pq: "\<not> p > q" "p \<noteq> q"
  proof (cases "check_parentheses ts p q")
    case (Inl f)
    then show ?thesis using pq by (auto simp: eval.simps [of c mem ts p q] check_parentheses_def bindE_eq_Inl)
  next
    case (Inr b)
    show ?thesis
    proof (cases b)
      case True
      then show ?thesis using 1(1) [OF pq Inr] Inr pq by (simp add: eval.simps [of c mem ts p q])
    next
      case False
      note IH = 1(2) [OF pq Inr False] and IH2 = 1(3) [OF pq Inr False]
      have op: "wpE (\<lambda>_. True) nu (main_operator ts p q)"
        using wp_find_main [of "rev (positions ts p q)" 0 None] by (auto simp: main_operator_def wp_simps elim!: wpE_mono split: option.split)
      show ?thesis
      proof (cases "main_operator ts p q")
        case (Inl f)
        then show ?thesis using op False \<open>check_parentheses ts p q = Inr b\<close> pq by (simp add: eval.simps [of c mem ts p q])
      next
        case (Inr tj)
        obtain t j where tj: "tj = (t, j)" by (cases tj)
        show ?thesis
          using IH [OF Inr tj [symmetric]] IH2 [OF Inr tj [symmetric]] False \<open>check_parentheses ts p q = Inr b\<close> Inr pq tj wp_apply_op
          by (cases "eval c mem ts p (j - 1)"; cases "eval c mem ts (j + 1) q") (auto simp: eval.simps [of c mem ts p q])
      qed
    qed
  qed
  show ?case using leaf rec by force
qed

lemma wp_expr: "wpE (\<lambda>_. True) nu (expr c mem e)"
proof -
  have "wpE (\<lambda>_. True) nu (make_token e)" by (simp add: make_token_def wp_tokenize)
  moreover have "wpE (\<lambda>_. True) nu (case r of None \<Rightarrow> Inr None
      | Some ts \<Rightarrow> bindE (eval c mem ts 0 (int (length ts) - 1)) (\<lambda>v. Inr (Some v)))" for r
    by (auto simp: wp_simps wp_eval split: option.split)
  ultimately show ?thesis unfolding expr_def by (rule wp_bind_True)
qed

section \<open>The pool during a session\<close>

text \<open>Between commands every active watchpoint has an expression.\<close>

definition wps_ok :: "wp_state \<Rightarrow> bool" where
  "wps_ok w \<longleftrightarrow> wp_inv w \<and> (\<forall>i\<in>set (active_wps w). live_wp i w)"

definition session_ok :: "nemu \<Rightarrow> bool" where
  "session_ok st \<longleftrightarrow> cpu_wf (cpu (nm st)) \<and> wps_ok (wps st)"

text \<open>Two pools that differ in the stored values only.\<close>

definition same_links :: "WP list \<Rightarrow> WP list \<Rightarrow> bool" where
  "same_links pool pool' \<longleftrightarrow> length pool' = length pool \<and>
     (\<forall>i. wp_next (pool' ! i) = wp_next (pool ! i) \<and> NO (pool' ! i) = NO (pool ! i) \<and>
          watch_expr (pool' ! i) = watch_expr (pool ! i))"

lemma same_links_refl: "same_links pool pool"
  by (simp add: same_links_def)

lemma same_links_value: "same_links pool pool' \<Longrightarrow> same_links pool (pool'[i := (pool' ! i)\<lparr>watch_value := v\<rparr>])"
  by (auto simp: same_links_def nth_list_update_if)

lemma wps_ok_same_links:
  assumes "wps_ok w" "same_links (wp_pool w) pool"
  shows "wps_ok (w\<lparr>wp_pool := pool\<rparr>)"
proof -
  note inv = wp_invD [of w]
  have w: "wp_inv w" using assms(1) by (simp add: wps_ok_def)
  have p: "path pool q xs = path (wp_pool w) q xs" for q xs
    using assms(2) by (intro path_cong) (auto simp: same_links_def)
  have "wp_inv (w\<lparr>wp_pool := pool\<rparr>) \<and> active_wps (w\<lparr>wp_pool := pool\<rparr>) = active_wps w"
    by (intro conjI; rule wp_invI [of _ "active_wps w" "free_wps w"])
      (use inv [OF w] assms(2) in \<open>auto simp: p same_links_def\<close>)
  then show ?thesis using assms by (auto simp: wps_ok_def live_wp_def same_links_def)
qed

lemma wp_check_loop:
  assumes ev: "\<And>e. wpE (\<lambda>_. True) nu (ev e)"
  shows "path pool p xs \<Longrightarrow> \<forall>i\<in>set xs. \<exists>e. watch_expr (pool ! i) = Str e \<Longrightarrow> same_links pool pool' \<Longrightarrow>
    \<exists>r. check_wp_loop ev p ch pool' = Some r \<and> wpE (\<lambda>(_, pool''). same_links pool pool'') nu r"
proof (induction xs arbitrary: p ch pool')
  case Nil
  then show ?case by (simp add: check_wp_loop.simps)
next
  case (Cons x xs)
  then obtain e where e: "watch_expr (pool' ! x) = Str e" and p: "p = Some x" and
    tl: "path pool (wp_next (pool' ! x)) xs" by (auto simp: same_links_def)
  note IH = Cons.IH [OF tl]
  have f: "ev e = Inl f \<Longrightarrow> nu f" for f using ev [of e] by simp
  show ?case
    using IH [OF _ Cons.prems(3)] IH [OF _ same_links_value [OF Cons.prems(3)]] Cons.prems(2) e f
    by (auto simp: p check_wp_loop.simps [of ev "Some x"] split: sum.split option.split)
qed

lemma wp_check_wp_changed:
  assumes "wps_ok w" and "\<And>e. wpE (\<lambda>_. True) nu (ev e)"
  shows "wpE (\<lambda>(_, w'). wps_ok w') nu (check_wp_changed ev w)"
proof -
  have "path (wp_pool w) (wp_head w) (active_wps w)"
    "\<forall>i\<in>set (active_wps w). \<exists>e. watch_expr (wp_pool w ! i) = Str e"
    using assms(1) wp_invD(2) [of w] by (auto simp: wps_ok_def live_wp_def)
  then obtain r where "check_wp_loop ev (wp_head w) False (wp_pool w) = Some r"
    "wpE (\<lambda>(_, pool''). same_links (wp_pool w) pool'') nu r"
    using wp_check_loop [of ev, OF assms(2) _ _ same_links_refl] by blast
  then show ?thesis using wps_ok_same_links [OF assms(1)]
    by (cases r) (auto simp: check_wp_changed_def)
qed

section \<open>Execution\<close>

lemma wp_device_poll: "wpE (\<lambda>_. True) nu (device_poll sdl es x)"
proof (induction sdl es x rule: device_poll.induct)
  case (3 sdl k es ns io)
  then show ?case by (auto simp: send_key_def wp_simps Let_def)
next
  case (4 sdl k es ns io)
  then show ?case by (auto simp: send_key_def wp_simps Let_def)
qed auto

lemma wp_poll_devices: "session_ok st \<Longrightarrow> wpE session_ok nu (poll_devices cfg st)"
proof -
  assume st: "session_ok st"
  have "wpE (\<lambda>_. True) nu (device_update (sdl_scancode cfg) ev x)" for ev x
    by (cases x) (simp add: device_update_def wp_device_poll)
  then show ?thesis
    using st by (auto simp: poll_devices_def Let_def session_ok_def intro!: wp_bind_True)
qed

text \<open>The host's events reach the run: \<open>init_device\<close> registers the handler, and an alarm lets the next round poll.\<close>

lemma init_device_alarm: "init_device True io = Inr io' \<Longrightarrow> set_device_update_flag_t \<in> set (alarm_handler io')"
  by (auto simp: init_device_def add_alarm_handle_def bindE_eq_Inr)

lemma alarm_flag_keep: "device_update_flag io \<Longrightarrow> device_update_flag (fold (call_alarm_handler ns) hs io)"
proof (induction hs arbitrary: io)
  case (Cons h hs)
  have "device_update_flag (call_alarm_handler ns h io)"
    using Cons.prems by (cases h) (simp_all add: timer_intr_def dev_raise_intr_def set_device_update_flag_def)
  then show ?case using Cons.IH by simp
qed simp

lemma alarm_flag: "set_device_update_flag_t \<in> set hs \<Longrightarrow> device_update_flag (fold (call_alarm_handler ns) hs io)"
proof (induction hs arbitrary: io)
  case (Cons h hs)
  then show ?case by (cases h) (auto simp: set_device_update_flag_def alarm_flag_keep)
qed simp

lemma call_alarm_list [simp]: "alarm_handler (fold (call_alarm_handler ns) hs io) = alarm_handler io"
proof (induction hs arbitrary: io)
  case (Cons h hs)
  have "alarm_handler (call_alarm_handler ns h io) = alarm_handler io"
    by (cases h) (simp_all add: timer_intr_def dev_raise_intr_def set_device_update_flag_def)
  then show ?case using Cons.IH by simp
qed simp

lemma alarm_signals_flag:
  assumes "0 < n" "set_device_update_flag_t \<in> set (alarm_handler io)"
  shows "device_update_flag (alarm_signals n ns io)"
proof -
  have h: "alarm_handler (alarm_signals k ns io) = alarm_handler io" for k
    by (induction k) (simp_all add: alarm_signals_def alarm_sig_handler_def Let_def)
  obtain k where "n = Suc k" using assms(1) gr0_conv_Suc by auto
  then show ?thesis using assms(2) h [of k] by (simp add: alarm_signals_def alarm_sig_handler_def Let_def alarm_flag)
qed

lemma quit_event_stops:
  assumes "has_ioe cfg" "0 < alarms cfg (g_nr_guest_instr st)" "sdl_events cfg (g_nr_guest_instr st) = [SDL_QUIT]"
    and "set_device_update_flag_t \<in> set (alarm_handler (bus_io (mbus (nm st))))"
  shows "\<exists>st'. poll_devices cfg st = Inr st' \<and> cur_state st' = NEMU_QUIT"
proof -
  have "device_update_flag (alarm_signals (alarms cfg (g_nr_guest_instr st)) (nemu_state (nm st)) (bus_io (mbus (nm st))))"
    by (rule alarm_signals_flag [OF assms(2,4)])
  then show ?thesis using assms(1,3) by (simp add: poll_devices_def device_update_def Let_def)
qed

lemma session_ok_state [simp]: "session_ok (set_state s st) = session_ok st"
  by (simp add: session_ok_def set_state_def)

lemma session_ok_say [simp]: "session_ok (say x st) = session_ok st"
  by (simp add: session_ok_def say_def)

lemma wp_exec_step:
  assumes "session_ok st"
  shows "wpE session_ok nu (exec_step cfg st)"
proof -
  have i: "wpE (\<lambda>(p, m'). cpu_wf (cpu m')) nu (isa_exec_once (nm st))"
    using assms by (simp add: wp_isa_exec_once session_ok_def)
  have c: "wpE (\<lambda>(_, w'). wps_ok w') nu (check_wp_changed ev (wps st))" if "\<And>e. wpE (\<lambda>_. True) nu (ev e)" for ev
    using assms that by (intro wp_check_wp_changed) (simp_all add: session_ok_def)
  show ?thesis
    unfolding exec_step_def wp_simps Let_def
    by (intro wpE_mono [OF i])
      (auto simp: wp_simps session_ok_def set_state_def asm_print_def wp_expr intro!: wpE_mono [OF c] wp_poll_devices)
qed

lemma wp_exec_loop: "session_ok st \<Longrightarrow> wpE session_ok nu (exec_loop cfg n st)"
proof (induction n arbitrary: st)
  case (Suc n)
  show ?case
    unfolding exec_loop.simps wp_simps
    by (rule wpE_mono [OF wp_exec_step [OF Suc.prems]]) (simp_all add: Suc.IH)
qed simp

lemma wp_cpu_exec: "session_ok st \<Longrightarrow> wpE session_ok nu (cpu_exec cfg n st)"
  using wp_exec_loop [of "set_state NEMU_RUNNING st" cfg "unat n"]
  by (auto simp: cpu_exec_def wp_simps elim!: wpE_mono split: run_state.split)

section \<open>Commands\<close>

lemma unlink_wp_watch:
  "unlink_wp wp h pool = Inr (pool', h') \<Longrightarrow> watch_expr (pool' ! i) = watch_expr (pool ! i)"
  by (auto simp: unlink_wp_def bindE_eq_Inr nth_list_update_if split: if_splits)

lemma free_wp_watch:
  "free_wp r w = Inr w' \<Longrightarrow> i \<noteq> r \<Longrightarrow> watch_expr (wp_pool w' ! i) = watch_expr (wp_pool w ! i)"
  by (auto simp: free_wp_def bindE_eq_Inr nth_list_update_if Let_def dest!: unlink_wp_watch [of _ _ _ _ _ i] split: option.splits)

lemma wps_ok_free:
  assumes "wps_ok w" "r \<in> set (active_wps w)"
  shows "wpE wps_ok nu (free_wp r w)"
proof -
  have w: "wp_inv w" "live_wp r w" using assms by (auto simp: wps_ok_def)
  then obtain w' where w': "free_wp r w = Inr w'" "wp_inv w'" "active_wps w' = remove1 r (active_wps w)"
    using free_wp_ok [OF w(1) assms(2)] by blast
  have "distinct (active_wps w)" using wp_invD(4) [OF w(1)] by simp
  then have "i \<in> set (active_wps w) \<and> i \<noteq> r" if "i \<in> set (active_wps w')" for i using that w'(3) by auto
  then have "\<forall>i\<in>set (active_wps w'). live_wp i w'"
    using assms(1) free_wp_watch [OF w'(1)] by (metis live_wp_def wps_ok_def)
  then show ?thesis using w'(1,2) by (simp add: wps_ok_def)
qed

lemma wps_ok_set_watch:
  assumes "wp_inv w" "i \<in> set (active_wps w)" "\<forall>j\<in>set (active_wps w). j \<noteq> i \<longrightarrow> live_wp j w"
  shows "wps_ok (set_watch i e v w)"
  using assms wp_inv_set_watch [OF assms(1), of i e v] wp_inv_lt [OF assms(1,2)]
  by (auto simp: wps_ok_def live_wp_def set_watch_def nth_list_update_if)

lemma new_wp_watch: "new_wp w = Inr (r, w') \<Longrightarrow> watch_expr (wp_pool w' ! i) = watch_expr (wp_pool w ! i)"
  by (auto simp: new_wp_def Let_def nth_list_update_if split: option.splits)

text \<open>A new watchpoint becomes well-formed as soon as its expression is stored.\<close>

lemma wps_ok_new:
  assumes "wps_ok w" "new_wp w = Inr (r, w')"
  shows "wps_ok (set_watch r e v w') \<and> active_wps (set_watch r e v w') = r # active_wps w"
proof -
  have w: "wp_inv w" using assms(1) by (simp add: wps_ok_def)
  note a = wp.alloc_Inr [OF w assms(2)]
  then have "wps_ok (set_watch r e v w')"
    using assms(1) new_wp_watch [OF assms(2)] by (intro wps_ok_set_watch) (auto simp: wps_ok_def live_wp_def)
  then show ?thesis using a by (simp add: wp_inv_set_watch)
qed

lemma set_watch_twice:
  "w\<lparr>wp_pool := (wp_pool w)[i := (wp_pool w ! i)\<lparr>watch_expr := Str e\<rparr>]\<rparr> = set_watch i e (watch_value (wp_pool w ! i)) w"
  "(set_watch i e v w)\<lparr>wp_pool := (wp_pool (set_watch i e v w))[i := (wp_pool (set_watch i e v w) ! i)\<lparr>watch_value := v'\<rparr>]\<rparr> =
     set_watch i e v' w"
  by (cases "i < length (wp_pool w)"; simp add: set_watch_def list_update_beyond)+

lemma wp_cmd_w:
  assumes "session_ok st"
  shows "wpE (\<lambda>(_, st'). session_ok st') nu (cmd_w args st)"
proof (cases args)
  case (Some e)
  have w: "wps_ok (wps st)" using assms by (simp add: session_ok_def)
  show ?thesis
  proof (cases "new_wp (wps st)")
    case (Inl f)
    then show ?thesis by (auto simp: Some cmd_w_def new_wp_def Let_def split: option.splits)
  next
    case (Inr iw)
    obtain i w' where iw: "iw = (i, w')" by (cases iw)
    have ok: "wps_ok (set_watch i e v w')" "i \<in> set (active_wps (set_watch i e v w'))" for v
      using wps_ok_new [OF w, of i w' e] Inr iw by auto
    have "wpE (\<lambda>w. session_ok (st\<lparr>wps := w\<rparr>)) nu (free_wp i (set_watch i e v w'))" for v
      using wps_ok_free [OF ok] assms by (auto simp: session_ok_def elim!: wpE_mono)
    then show ?thesis
      using ok(1) assms Inr iw
      by (auto simp: Some cmd_w_def Let_def set_watch_twice wp_simps session_ok_def
          intro!: wpE_mono [OF wp_expr] split: option.split)
  qed
qed (simp add: cmd_w_def)

lemma wp_delete_wp: "session_ok st \<Longrightarrow> wpE session_ok nu (delete_wp arg st)"
proof -
  assume st: "session_ok st"
  then have w: "wps_ok (wps st)" "wp_inv (wps st)" by (simp_all add: session_ok_def wps_ok_def)
  have fr: "wpE (\<lambda>w. session_ok (st\<lparr>wps := w\<rparr>)) nu (free_wp r (wps st))" if "r \<in> set (active_wps (wps st))" for r
    using wps_ok_free [OF w(1) that] st by (auto simp: session_ok_def elim!: wpE_mono)
  show ?thesis
    using st fr by (auto simp: delete_wp_def no_to_wp_find [OF w(2)] wp_simps Let_def)
qed

lemma wp_delete_wps: "session_ok st \<Longrightarrow> wpE session_ok nu (delete_wps rest st)"
proof (induction rest st rule: delete_wps.induct)
  case (1 rest st)
  show ?case
  proof (cases "strtok_space rest")
    case (Pair t r)
    show ?thesis
    proof (cases t)
      case (Some arg)
      have "wpE (\<lambda>st. wpE session_ok nu (delete_wps r st)) nu (delete_wp arg st)"
        using wp_delete_wp [OF 1(2)] by (rule wpE_mono) (use 1(1) Pair Some in auto)
      then show ?thesis using Pair Some by (simp add: delete_wps.simps [of rest] wp_simps)
    qed (use 1(2) Pair in \<open>simp add: delete_wps.simps [of rest]\<close>)
  qed
qed

lemma session_ok_fold: "(\<And>x st. session_ok (f x st) = session_ok st) \<Longrightarrow> session_ok (fold f xs st) = session_ok st"
  by (induction xs arbitrary: st) simp_all

lemma wp_dump_words: "session_ok st \<Longrightarrow> wpE session_ok nu (dump_words i n a st)"
  by (induction i n a st rule: dump_words.induct) (auto simp: Let_def load_bytes_def wp_simps)

lemma wp_cmd_x: "session_ok st \<Longrightarrow> wpE (\<lambda>(_, st'). session_ok st') nu (cmd_x rest st)"
  by (auto simp: cmd_x_def wp_simps intro!: wpE_mono [OF wp_expr] wpE_mono [OF wp_dump_words] split: option.split prod.split)

lemma wp_cmd_info:
  assumes "session_ok st"
  shows "wpE (\<lambda>(_, st'). session_ok st') nu (cmd_info rest st)"
proof -
  have "\<exists>ls. watchpoint_display (wps st) = Inr ls"
    using assms watchpoint_display_path [OF wp_invD(2) [of "wps st"], of "[]"]
    by (auto simp: session_ok_def wps_ok_def watchpoint_display_def)
  moreover have "session_ok (fold (\<lambda>(n, e, v). say (Msg_wp n e v)) ls st)" for ls
    using assms by (subst session_ok_fold) (auto split: prod.split)
  moreover have "session_ok (isa_reg_display st)"
    using assms by (simp add: isa_reg_display_def session_ok_fold)
  ultimately show ?thesis using assms by (auto simp: cmd_info_def split: option.split)
qed

lemma wp_cmd_help:
  assumes "session_ok st"
  shows "wpE (\<lambda>(_, st'). session_ok st') nu (cmd_help rest st)"
proof -
  have "session_ok (fold (\<lambda>(n, d). say (Msg_help n d)) cmd_names st)"
    using assms by (subst session_ok_fold) (auto split: prod.split)
  then show ?thesis using assms by (auto simp: cmd_help_def split: option.split)
qed

lemma wp_ui_command:
  assumes "session_ok st"
  shows "wpE (\<lambda>(_, st'). session_ok st') nu (ui_command cfg line st)"
proof -
  have run: "wpE (\<lambda>(_, st'). session_ok st') nu (bindE (cpu_exec cfg n st) (\<lambda>st. Inr (True, st)))" for n
    using wp_cpu_exec [OF assms] by (simp add: wp_simps)
  have p: "wpE (\<lambda>(_, st'). session_ok st') nu (cmd_p args st)" for args
    using assms by (auto simp: cmd_p_def wp_simps intro!: wpE_mono [OF wp_expr] split: option.split)
  have d: "wpE (\<lambda>(_, st'). session_ok st') nu (cmd_d rest st)" for rest
    using assms wp_delete_wps [OF assms] by (auto simp: cmd_d_def wp_simps split: option.split prod.split)
  note cmds = run p d wp_cmd_w wp_cmd_x wp_cmd_info wp_cmd_help
  show ?thesis
    using assms by (auto simp: ui_command_def Let_def cmds cmd_c_def cmd_si_def cmd_q_def split: option.split prod.split)
qed

lemma wp_ui_mainloop: "session_ok st \<Longrightarrow> wpE session_ok nu (ui_mainloop cfg lines st)"
proof (induction lines arbitrary: st)
  case (Cons line lines)
  have "wpE (\<lambda>(go, st). wpE session_ok nu (if go then ui_mainloop cfg lines st else Inr st)) nu (ui_command cfg line st)"
    by (rule wpE_mono [OF wp_ui_command [OF Cons.prems]]) (auto simp: Cons.IH)
  then show ?case by (simp add: wp_simps case_prod_unfold)
qed simp

section \<open>From main\<close>

lemma wp_init_device: "wpE (\<lambda>_. True) nu (init_device b io)"
proof -
  note defs = init_serial_def init_timer_def init_vga_def init_i8042_def init_audio_def add_alarm_handle_def
    new_space_def add_pio_map_def add_mmio_map_def
  have "wpE (\<lambda>_. True) nu (init_serial io)" "wpE (\<lambda>_. True) nu (init_timer io)" "wpE (\<lambda>_. True) nu (init_vga io)"
    "wpE (\<lambda>_. True) nu (init_i8042 io)" "wpE (\<lambda>_. True) nu (init_audio io)" "wpE (\<lambda>_. True) nu (add_alarm_handle h io)" for io h
    by (auto simp: defs Let_def wp_simps case_prod_unfold intro!: wp_bind_True)
  then show ?thesis by (auto simp: init_device_def intro!: wp_bind_True)
qed

lemma wp_init_monitor:
  assumes "cpu_wf (cpu (nm st))"
  shows "wpE session_ok nu (init_monitor rnd_mem rnd_reg img_file st)"
  using assms
  by (auto simp: init_monitor_def init_isa_def load_img_def reg_test_ok restart_def session_ok_def wps_ok_def
      wp_inv_init cpu_wf_def store_bytes_def wp_simps Let_def split: option.split)

text \<open>
  C1. A whole run of NEMU, with any image, any lines typed by the user, any random initialisation, with devices or without, and
  with any alarm signals and window events in every round of the execution loop, never reads an unassigned variable, never uses a freed watchpoint expression and
  never loops in a watchpoint list; when it returns, the register file has eight registers, the
  watchpoint pool is well-formed and every active watchpoint has an expression.
\<close>

theorem nemu_session_safe:
  "case nemu_main cfg rnd_mem rnd_reg img_file lines (nemu_initial clock) of
     Inl f \<Rightarrow> f \<notin> {Uninit, Use_after_free, Diverge}
   | Inr (status, st) \<Rightarrow> length (gpr (cpu (nm st))) = 8 \<and> wp_inv (wps st) \<and>
       set (active_wps (wps st)) \<subseteq> {i. live_wp i (wps st)}"
proof -
  have dev: "session_ok (st\<lparr>nm := (nm st)\<lparr>mbus := b\<rparr>\<rparr>) = session_ok st" for st b by (simp add: session_ok_def)
  have start: "wpE session_ok nu (engine_start cfg lines st)" if "session_ok st" for st
    unfolding engine_start_def using that by (intro wp_bind_True wp_init_device wp_ui_mainloop) (simp add: dev)
  have "wpE session_ok nu (init_monitor rnd_mem rnd_reg img_file (nemu_initial clock))"
    by (rule wp_init_monitor) (simp add: nemu_initial_def cpu_wf_def)
  then have "wpE (\<lambda>(status, st). session_ok st) nu (nemu_main cfg rnd_mem rnd_reg img_file lines (nemu_initial clock))"
    unfolding nemu_main_def wp_simps by (auto intro: start elim!: wpE_mono)
  then show ?thesis
    by (auto simp: session_ok_def wps_ok_def cpu_wf_def nu_def split: sum.split)
qed

end
