(* ===== verification/Int64.thy ===== *)
theory Int64
  imports Prelude "HOL-Library.Signed_Division"
begin

text \<open>
  The 64-bit division runtime of the guest library, \<open>klib/src/int64.c\<close>, for targets whose registers
  have 32 bits. A \<open>udwords\<close> union is the pair of its halves; \<open>du\<close> is its member \<open>all\<close>. A C shift by 32
  or more is undefined, here the fault \<open>Bad_shift\<close>. On these targets the compiler implements
  \<open>__builtin_clz\<close> and \<open>__builtin_ctz\<close> by calls of \<open>__clzsi2\<close> and \<open>__ctzsi2\<close> of the same file.
\<close>

section \<open>Counting zeros\<close>

definition of_cond :: "bool \<Rightarrow> u32" where
  "of_cond b = (if b then 1 else 0)"

text \<open>
  \<open>t = ((x & m) == 0) << k\<close> and \<open>x >>= w - t\<close>, \<open>r += t\<close>; the width of each half is \<open>w = 2 ^ k\<close>.
\<close>

definition clz_step :: "u32 \<Rightarrow> nat \<Rightarrow> u32 \<times> u32 \<Rightarrow> u32 \<times> u32" where
  "clz_step m k = (\<lambda>(x, r).
     let t = push_bit k (of_cond (x AND m = 0)) in (drop_bit (2 ^ k - unat t) x, r + t))"

definition clzsi2 :: "u32 \<Rightarrow> u32" where
  "clzsi2 a =
     (let (x, r) = clz_step 0xC 1 (clz_step 0xF0 2 (clz_step 0xFF00 3 (clz_step 0xFFFF0000 4 (a, 0))))
      in r + ((2 - x) AND - of_cond (x AND 2 = 0)))"

definition ctz_step :: "u32 \<Rightarrow> nat \<Rightarrow> u32 \<times> u32 \<Rightarrow> u32 \<times> u32" where
  "ctz_step m k = (\<lambda>(x, r).
     let t = push_bit k (of_cond (x AND m = 0)) in (drop_bit (unat t) x, r + t))"

definition ctzsi2 :: "u32 \<Rightarrow> u32" where
  "ctzsi2 a =
     (let (x, r) = ctz_step 0x3 1 (ctz_step 0x0F 2 (ctz_step 0x00FF 3 (ctz_step 0x0000FFFF 4 (a, 0))));
          x = x AND 3
      in r + ((2 - drop_bit 1 x) AND - of_cond (x AND 1 = 0)))"

section \<open>Unsigned division\<close>

record udwords =
  lo :: u32
  hi :: u32

definition du :: "udwords \<Rightarrow> u64" where
  "du u = push_bit 32 (ucast (hi u)) OR ucast (lo u)"

definition udw :: "u64 \<Rightarrow> udwords" where
  "udw a = \<lparr>lo = ucast a, hi = ucast (drop_bit 32 a)\<rparr>"

definition shl32 :: "u32 \<Rightarrow> u32 \<Rightarrow> u32 res" where
  "shl32 x k = (if k < 32 then Inr (push_bit (unat k) x) else Inl Bad_shift)"

definition shr32 :: "u32 \<Rightarrow> u32 \<Rightarrow> u32 res" where
  "shr32 x k = (if k < 32 then Inr (drop_bit (unat k) x) else Inl Bad_shift)"

text \<open>
  A branch before the loop either returns a quotient and remainder or enters the loop with \<open>sr\<close>, \<open>q\<close>
  and \<open>r\<close>. A caller that passes a null pointer for \<open>rem\<close> ignores the remainder.
\<close>

datatype div_start = Done u64 u64 | Loop u32 udwords udwords

text \<open>The general shift \<open>q = n << (64 - sr)\<close>, \<open>r = n >> sr\<close> for \<open>sr\<close> below 32.\<close>

definition start_shift :: "udwords \<Rightarrow> u32 \<Rightarrow> div_start res" where
  "start_shift n sr =
     bindE (shl32 (lo n) (32 - sr)) (\<lambda>qh.
     bindE (shr32 (hi n) sr) (\<lambda>rh.
     bindE (shl32 (hi n) (32 - sr)) (\<lambda>x.
     bindE (shr32 (lo n) sr) (\<lambda>y.
       Inr (Loop sr \<lparr>lo = 0, hi = qh\<rparr> \<lparr>lo = x OR y, hi = rh\<rparr>)))))"

text \<open>Divisor \<open>K 0\<close>: \<open>d.s.low == 0\<close>.\<close>

definition start_K0 :: "udwords \<Rightarrow> udwords \<Rightarrow> div_start res" where
  "start_K0 n d =
     (if hi d = 0 then Inl Div_error
      else if lo n = 0 then
        Inr (Done (ucast (hi n div hi d)) (du \<lparr>lo = 0, hi = hi n mod hi d\<rparr>))
      else if hi d AND (hi d - 1) = 0 then
        bindE (shr32 (hi n) (ctzsi2 (hi d))) (\<lambda>q.
          Inr (Done (ucast q) (du \<lparr>lo = lo n, hi = hi n AND (hi d - 1)\<rparr>)))
      else
        let sr = clzsi2 (hi d) - clzsi2 (hi n) in
        if sr > 32 - 2 then Inr (Done 0 (du n))
        else start_shift n (sr + 1))"

text \<open>Divisor \<open>0 K\<close>: \<open>d.s.high == 0\<close>.\<close>

definition start_0K :: "udwords \<Rightarrow> udwords \<Rightarrow> div_start res" where
  "start_0K n d =
     (if lo d AND (lo d - 1) = 0 then
        let rem = ucast (lo n AND (lo d - 1)) in
        if lo d = 1 then Inr (Done (du n) rem)
        else
          let sr = ctzsi2 (lo d) in
          bindE (shr32 (hi n) sr) (\<lambda>qh.
          bindE (shl32 (hi n) (32 - sr)) (\<lambda>x.
          bindE (shr32 (lo n) sr) (\<lambda>y.
            Inr (Done (du \<lparr>lo = x OR y, hi = qh\<rparr>) rem))))
      else
        let sr = 1 + 32 + clzsi2 (lo d) - clzsi2 (hi n) in
        if sr = 32 then Inr (Loop sr \<lparr>lo = 0, hi = lo n\<rparr> \<lparr>lo = hi n, hi = 0\<rparr>)
        else if sr < 32 then start_shift n sr
        else
          bindE (shl32 (lo n) (64 - sr)) (\<lambda>ql.
          bindE (shl32 (hi n) (64 - sr)) (\<lambda>x.
          bindE (shr32 (lo n) (sr - 32)) (\<lambda>y.
          bindE (shr32 (hi n) (sr - 32)) (\<lambda>rl.
            Inr (Loop sr \<lparr>lo = ql, hi = x OR y\<rparr> \<lparr>lo = rl, hi = 0\<rparr>))))))"

text \<open>Divisor \<open>K K\<close>.\<close>

definition start_KK :: "udwords \<Rightarrow> udwords \<Rightarrow> div_start res" where
  "start_KK n d =
     (let sr = clzsi2 (hi d) - clzsi2 (hi n) in
      if sr > 32 - 1 then Inr (Done 0 (du n))
      else
        let sr = sr + 1 in
        if sr = 32 then Inr (Loop sr \<lparr>lo = 0, hi = lo n\<rparr> \<lparr>lo = hi n, hi = 0\<rparr>)
        else start_shift n sr)"

definition div_start_of :: "udwords \<Rightarrow> udwords \<Rightarrow> div_start res" where
  "div_start_of n d =
     (if hi n = 0 then
        (if hi d = 0 then
           (if lo d = 0 then Inl Div_error else Inr (Done (ucast (lo n div lo d)) (ucast (lo n mod lo d))))
         else Inr (Done 0 (ucast (lo n))))
      else if lo d = 0 then start_K0 n d
      else if hi d = 0 then start_0K n d
      else start_KK n d)"

text \<open>The body of the loop.\<close>

definition udiv_step :: "udwords \<Rightarrow> udwords \<times> udwords \<times> u32 \<Rightarrow> udwords \<times> udwords \<times> u32" where
  "udiv_step d = (\<lambda>(q, r, carry).
     let r = r\<lparr>hi := push_bit 1 (hi r) OR drop_bit 31 (lo r)\<rparr>;
         r = r\<lparr>lo := push_bit 1 (lo r) OR drop_bit 31 (hi q)\<rparr>;
         q = q\<lparr>hi := push_bit 1 (hi q) OR drop_bit 31 (lo q)\<rparr>;
         q = q\<lparr>lo := push_bit 1 (lo q) OR carry\<rparr>;
         s = signed_drop_bit 63 (du d - du r - 1)
     in (q, udw (du r - (du d AND s)), ucast (s AND 1)))"

fun udiv_loop :: "nat \<Rightarrow> udwords \<Rightarrow> udwords \<times> udwords \<times> u32 \<Rightarrow> udwords \<times> udwords \<times> u32" where
  "udiv_loop 0 d st = st"
| "udiv_loop (Suc sr) d st = udiv_loop sr d (udiv_step d st)"

definition udivmoddi4 :: "u64 \<Rightarrow> u64 \<Rightarrow> (u64 \<times> u64) res" where
  "udivmoddi4 a b =
     bindE (div_start_of (udw a) (udw b)) (\<lambda>st.
       case st of
         Done q r \<Rightarrow> Inr (q, r)
       | Loop sr q r \<Rightarrow>
           (let (q, r, carry) = udiv_loop (unat sr) (udw b) (q, r, 0)
            in Inr (push_bit 1 (du q) OR ucast carry, du r)))"

definition udivdi3 :: "u64 \<Rightarrow> u64 \<Rightarrow> u64 res" where
  "udivdi3 a b = bindE (udivmoddi4 a b) (\<lambda>(q, r). Inr q)"

definition umoddi3 :: "u64 \<Rightarrow> u64 \<Rightarrow> u64 res" where
  "umoddi3 a b = bindE (udivmoddi4 a b) (\<lambda>(q, r). Inr r)"

section \<open>Signed division\<close>

definition divdi3 :: "u64 \<Rightarrow> u64 \<Rightarrow> u64 res" where
  "divdi3 a b =
     (let s_a = signed_drop_bit 63 a;
          s_b = signed_drop_bit 63 b;
          a = (a XOR s_a) - s_a;
          b = (b XOR s_b) - s_b;
          s_a = s_a XOR s_b
      in bindE (udivmoddi4 a b) (\<lambda>(q, r). Inr ((q XOR s_a) - s_a)))"

definition divmoddi4 :: "u64 \<Rightarrow> u64 \<Rightarrow> (u64 \<times> u64) res" where
  "divmoddi4 a b = bindE (divdi3 a b) (\<lambda>d. Inr (d, a - d * b))"

definition moddi3 :: "u64 \<Rightarrow> u64 \<Rightarrow> u64 res" where
  "moddi3 a b =
     (let s = signed_drop_bit 63 b;
          b = (b XOR s) - s;
          s = signed_drop_bit 63 a;
          a = (a XOR s) - s
      in bindE (udivmoddi4 a b) (\<lambda>(q, r). Inr ((r XOR s) - s)))"

section \<open>Correctness of the zero counts\<close>

lemma unat_drop [simp]: "unat (drop_bit k (x :: 'a::len word)) = unat x div 2 ^ k"
  by (simp only: unat_drop_bit_eq) (simp only: drop_bit_eq_div)

lemma u32_lt: "unat (x :: u32) < 2 ^ 32"
  using unsigned_less [of x, where ?'a = nat] by simp

lemma unat_eq_1: "unat (x :: 'a::len word) = 1 \<Longrightarrow> x = 1"
  by (simp add: word_eq_iff_unsigned [where ?'a = nat])

lemma drop_bit_eq_0: "drop_bit k (x :: 'a::len word) = 0 \<longleftrightarrow> unat x < 2 ^ k"
proof -
  have "drop_bit k x = 0 \<longleftrightarrow> unat x div 2 ^ k = 0" by (metis unat_drop unat_eq_zero)
  then show ?thesis by (simp add: div_eq_0_iff)
qed

lemma and_high_eq_0:
  fixes x :: "'a::len word"
  assumes "unat x < 2 ^ (k + w)" "m = push_bit k (mask w)"
  shows "x AND m = 0 \<longleftrightarrow> unat x < 2 ^ k"
proof -
  have x: "take_bit (k + w) x = x" using assms(1) by (simp only: take_bit_eq_self_iff_drop_bit_eq_0 drop_bit_eq_0)
  have "x AND m = push_bit k (drop_bit k x)"
    unfolding assms(2)
  proof (rule bit_word_eqI)
    fix n assume n: "n < LENGTH('a)"
    have "bit x n \<Longrightarrow> n < k + w" using x by (metis bit_take_bit_iff)
    then show "bit (x AND push_bit k (mask w)) n = bit (push_bit k (drop_bit k x)) n"
      using n by (auto simp: bit_simps)
  qed
  moreover have "push_bit k (drop_bit k x) = 0 \<longleftrightarrow> drop_bit k x = 0"
  proof
    assume "push_bit k (drop_bit k x) = 0"
    then have "\<not> bit (push_bit k (drop_bit k x)) n" for n by simp
    then show "drop_bit k x = 0"
      by (intro bit_word_eqI) (metis (no_types, lifting) add_diff_cancel_left' bit_0_eq bit_drop_bit_eq bit_imp_le_length bit_push_bit_iff bot_apply bot_bool_def comp_apply le_add1 possible_bit_word)
  qed simp
  ultimately show ?thesis by (simp add: drop_bit_eq_0)
qed

lemma unat_and_mask_eq: "unat ((x :: 'a::len word) AND mask w) = unat x mod 2 ^ w"
  by (simp only: take_bit_eq_mask [symmetric] unsigned_take_bit_eq) (simp only: take_bit_eq_mod)

lemma and_mask_eq_0: "(x :: 'a::len word) AND mask w = 0 \<longleftrightarrow> 2 ^ w dvd unat x"
  by (metis unat_and_mask_eq unat_eq_0 dvd_eq_mod_eq_0)

lemma unat_push_cond: "k < 32 \<Longrightarrow> unat (push_bit k (of_cond b)) = (if b then 2 ^ k else 0)"
proof -
  assume "k < 32"
  then have "(2 :: nat) ^ k < 2 ^ 32" by (intro power_strict_increasing) auto
  moreover have "unat (push_bit k (of_cond b)) = (if b then 2 ^ k else 0) mod 2 ^ 32"
    by (simp only: of_cond_def unsigned_push_bit_eq) (simp add: push_bit_eq_mult take_bit_eq_mod)
  ultimately show ?thesis by simp
qed

text \<open>The invariant between two steps: \<open>2 ^ m\<close> bounds the rest, whose highest bit is bit \<open>e\<close>.\<close>

definition clz_inv :: "nat \<Rightarrow> nat \<Rightarrow> u32 \<times> u32 \<Rightarrow> bool" where
  "clz_inv e0 m = (\<lambda>(x, r). \<exists>e<m. 2 ^ e \<le> unat x \<and> unat x < 2 ^ Suc e \<and> e + (32 - m) = e0 + unat r)"

lemma clz_step:
  assumes inv: "clz_inv e0 (2 ^ k + 2 ^ k) (x, r)" and k: "k < 5" and m: "m = push_bit (2 ^ k) (mask (2 ^ k))" and e0: "e0 < 32"
  shows "clz_inv e0 (2 ^ k) (clz_step m k (x, r))"
proof -
  let ?w = "2 ^ k :: nat"
  obtain e where e: "e < ?w + ?w" "2 ^ e \<le> unat x" "unat x < 2 ^ Suc e" "e + (32 - (?w + ?w)) = e0 + unat r"
    using inv by (auto simp: clz_inv_def)
  have w: "?w \<le> 16" using k power_increasing [of k 4 "2 :: nat"] by simp
  have ub: "unat x < 2 ^ (?w + ?w)" using e(1,3) power_increasing [of "Suc e" "?w + ?w" "2 :: nat"] by linarith
  note z = and_high_eq_0 [OF ub m]
  have small: "unat x < 2 ^ ?w \<longleftrightarrow> e < ?w"
  proof
    assume "unat x < 2 ^ ?w"
    then have "(2 :: nat) ^ e < 2 ^ ?w" using e(2) by linarith
    then show "e < ?w" by simp
  next
    assume "e < ?w"
    then show "unat x < 2 ^ ?w" using e(3) power_increasing [of "Suc e" ?w "2 :: nat"] by linarith
  qed
  have r: "unat r < 32" using e(1,4) w by linarith
  show ?thesis
  proof (cases "e < ?w")
    case True
    then have t: "x AND m = 0" using z small by simp
    have "unat (r + push_bit k (of_cond True)) = unat r + ?w"
      using unat_push_cond [of k True] k r w by (simp add: unat_word_ariths)
    then show ?thesis
      using e True w t unat_push_cond [of k True] k by (auto simp: clz_inv_def clz_step_def Let_def intro!: exI [of _ e])
  next
    case False
    then have t: "x AND m \<noteq> 0" using z small by simp
    have p: "2 ^ e = 2 ^ (e - ?w) * (2 ^ ?w :: nat)" "2 ^ Suc e = 2 ^ Suc (e - ?w) * (2 ^ ?w :: nat)"
      using False by (simp_all add: power_add [symmetric])
    have "2 ^ (e - ?w) \<le> unat x div 2 ^ ?w" "unat x div 2 ^ ?w < 2 ^ Suc (e - ?w)"
      using e(2,3) p by (simp_all add: less_eq_div_iff_mult_less_eq div_less_iff_less_mult)
    then show ?thesis
      using e False w t unat_push_cond [of k False] k by (auto simp: clz_inv_def clz_step_def Let_def of_cond_def intro!: exI [of _ "e - ?w"])
  qed
qed


lemma clzsi2_bounds:
  assumes "2 ^ e0 \<le> unat x" "unat x < 2 ^ Suc e0"
  shows "unat (clzsi2 x) = 31 - e0"
proof -
  have "(2 :: nat) ^ e0 < 2 ^ 32" using assms(1) u32_lt [of x] by linarith
  then have e0: "e0 < 32" by (simp only: power_strict_increasing_iff)
  have i0: "clz_inv e0 (2 ^ 4 + 2 ^ 4) (x, 0)" using assms e0 by (simp add: clz_inv_def)
  have step: "clz_inv e0 (w + w) xr \<Longrightarrow> w = 2 ^ k \<Longrightarrow> k < 5 \<Longrightarrow> m = push_bit w (mask w) \<Longrightarrow> clz_inv e0 w (clz_step m k xr)"
    for w k m xr using clz_step [of e0 k "fst xr" "snd xr" m] e0 by simp
  have 1: "clz_inv e0 16 (clz_step 0xFFFF0000 4 (x, 0))"
    by (rule step [where w = 16]) (use i0 in \<open>simp_all add: mask_eq_exp_minus_1\<close>)
  have 2: "clz_inv e0 8 (clz_step 0xFF00 3 (clz_step 0xFFFF0000 4 (x, 0)))"
    by (rule step [where w = 8]) (use 1 in \<open>simp_all add: mask_eq_exp_minus_1\<close>)
  have 3: "clz_inv e0 4 (clz_step 0xF0 2 (clz_step 0xFF00 3 (clz_step 0xFFFF0000 4 (x, 0))))"
    by (rule step [where w = 4]) (use 2 in \<open>simp_all add: mask_eq_exp_minus_1\<close>)
  have "clz_inv e0 2 (clz_step 0xC 1 (clz_step 0xF0 2 (clz_step 0xFF00 3 (clz_step 0xFFFF0000 4 (x, 0)))))"
    by (rule step [where w = 2]) (use 3 in \<open>simp_all add: mask_eq_exp_minus_1\<close>)
  then obtain y r e where y: "clz_step 0xC 1 (clz_step 0xF0 2 (clz_step 0xFF00 3 (clz_step 0xFFFF0000 4 (x, 0)))) = (y, r)"
    and inv: "e < 2" "2 ^ e \<le> unat y" "unat y < 2 ^ Suc e" "e + 30 = e0 + unat r"
    by (auto simp: clz_inv_def)
  have "y = of_nat (unat y)" by simp
  moreover have "unat y = 1 \<and> e = 0 \<or> (unat y = 2 \<or> unat y = 3) \<and> e = 1" using inv(1-3) by (cases e) auto
  ultimately have "y = 1 \<and> e = 0 \<or> (y = 2 \<or> y = 3) \<and> e = 1" by (metis of_nat_1 of_nat_numeral)
  then have "clzsi2 x = r + (if e = 0 then 1 else 0)"
    unfolding clzsi2_def y Let_def prod.case by (auto simp: of_cond_def)
  then show ?thesis using inv(1,4) e0 by (cases e) (auto simp: unat_word_ariths)
qed

definition ctz_inv :: "nat \<Rightarrow> nat \<Rightarrow> u32 \<times> u32 \<Rightarrow> bool" where
  "ctz_inv e0 m = (\<lambda>(x, r). \<exists>e<m. 2 ^ e dvd unat x \<and> odd (unat x div 2 ^ e) \<and> e + unat r = e0)"

lemma ctz_step:
  assumes inv: "ctz_inv e0 (2 ^ k + 2 ^ k) (x, r)" and k: "k < 5" and m: "m = mask (2 ^ k)" and e0: "e0 < 32"
  shows "ctz_inv e0 (2 ^ k) (ctz_step m k (x, r))"
proof -
  let ?w = "2 ^ k :: nat"
  obtain e where e: "e < ?w + ?w" "2 ^ e dvd unat x" "odd (unat x div 2 ^ e)" "e + unat r = e0"
    using inv by (auto simp: ctz_inv_def)
  have w: "?w \<le> 16" using k power_increasing [of k 4 "2 :: nat"] by simp
  have d: "2 ^ ?w dvd unat x \<longleftrightarrow> ?w \<le> e"
  proof
    assume a: "2 ^ ?w dvd unat x"
    show "?w \<le> e"
    proof (rule ccontr)
      assume "\<not> ?w \<le> e"
      then have "2 ^ Suc e dvd unat x" using a power_le_dvd by (metis not_less_eq_eq)
      then have "even (unat x div 2 ^ e)" by (metis dvd_div_iff_mult e(2) mult.commute power_Suc power_not_zero zero_neq_numeral)
      then show False using e(3) by simp
    qed
  qed (use e(2) power_le_dvd in blast)
  show ?thesis
  proof (cases "?w \<le> e")
    case True
    then have t: "x AND m = 0" using d m by (simp add: and_mask_eq_0)
    have "unat (r + push_bit k (of_cond True)) = unat r + ?w"
      using unat_push_cond [of k True] k e(4) e0 w by (simp add: unat_word_ariths)
    moreover have "unat x div 2 ^ ?w div 2 ^ (e - ?w) = unat x div 2 ^ e"
      using True by (simp add: div_mult2_eq [symmetric] power_add [symmetric])
    moreover have "2 ^ (e - ?w) dvd unat x div 2 ^ ?w"
      using e(2) True d by (simp add: dvd_div_iff_mult power_add [symmetric])
    ultimately show ?thesis
      using e True w t unat_push_cond [of k True] k by (auto simp: ctz_inv_def ctz_step_def Let_def intro!: exI [of _ "e - ?w"])
  next
    case False
    then have t: "x AND m \<noteq> 0" using d m by (simp add: and_mask_eq_0)
    then show ?thesis
      using e False t unat_push_cond [of k False] k by (auto simp: ctz_inv_def ctz_step_def Let_def of_cond_def intro!: exI [of _ e])
  qed
qed

lemma ctzsi2_exact:
  assumes "2 ^ e0 dvd unat x" "odd (unat x div 2 ^ e0)"
  shows "unat (ctzsi2 x) = e0 \<and> e0 < 32"
proof -
  have "unat x \<noteq> 0" using assms(2) by (metis div_0 even_zero)
  then have "(2 :: nat) ^ e0 < 2 ^ 32" using dvd_imp_le [OF assms(1)] u32_lt [of x] by linarith
  then have e0: "e0 < 32" by (simp only: power_strict_increasing_iff)
  have i0: "ctz_inv e0 (2 ^ 4 + 2 ^ 4) (x, 0)" using assms e0 by (simp add: ctz_inv_def)
  have step: "ctz_inv e0 (w + w) xr \<Longrightarrow> w = 2 ^ k \<Longrightarrow> k < 5 \<Longrightarrow> m = mask w \<Longrightarrow> ctz_inv e0 w (ctz_step m k xr)"
    for w k m xr using ctz_step [of e0 k "fst xr" "snd xr" m] e0 by simp
  have 1: "ctz_inv e0 16 (ctz_step 0x0000FFFF 4 (x, 0))"
    by (rule step [where w = 16]) (use i0 in \<open>simp_all add: mask_eq_exp_minus_1\<close>)
  have 2: "ctz_inv e0 8 (ctz_step 0x00FF 3 (ctz_step 0x0000FFFF 4 (x, 0)))"
    by (rule step [where w = 8]) (use 1 in \<open>simp_all add: mask_eq_exp_minus_1\<close>)
  have 3: "ctz_inv e0 4 (ctz_step 0x0F 2 (ctz_step 0x00FF 3 (ctz_step 0x0000FFFF 4 (x, 0))))"
    by (rule step [where w = 4]) (use 2 in \<open>simp_all add: mask_eq_exp_minus_1\<close>)
  have "ctz_inv e0 2 (ctz_step 0x3 1 (ctz_step 0x0F 2 (ctz_step 0x00FF 3 (ctz_step 0x0000FFFF 4 (x, 0)))))"
    by (rule step [where w = 2]) (use 3 in \<open>simp_all add: mask_eq_exp_minus_1\<close>)
  then obtain y r e where y: "ctz_step 0x3 1 (ctz_step 0x0F 2 (ctz_step 0x00FF 3 (ctz_step 0x0000FFFF 4 (x, 0)))) = (y, r)"
    and inv: "e < 2" "2 ^ e dvd unat y" "odd (unat y div 2 ^ e)" "e + unat r = e0"
    by (auto simp: ctz_inv_def)
  have y3: "unat (y AND 3) = unat y mod 4"
    using unat_and_mask_eq [of y 2] by (simp add: mask_eq_exp_minus_1)
  have "y AND 3 = of_nat (unat (y AND 3))" by simp
  moreover have "e = 0 \<and> (unat y mod 4 = 1 \<or> unat y mod 4 = 3) \<or> e = 1 \<and> unat y mod 4 = 2"
  proof (cases "e = 0")
    case False
    then have "e = 1" using inv(1) by simp
    then show ?thesis using inv(2,3) by simp presburger
  next
    case True
    then have "odd (unat y)" using inv(3) by simp
    then show ?thesis using True by presburger
  qed
  ultimately have "e = 0 \<and> (y AND 3 = 1 \<or> y AND 3 = 3) \<or> e = 1 \<and> y AND 3 = 2" unfolding y3 by (metis of_nat_1 of_nat_numeral)
  then have "ctzsi2 x = r + (if e = 0 then 0 else 1)"
    unfolding ctzsi2_def y Let_def prod.case
    by (elim disjE conjE) (simp_all only: of_cond_def, simp_all)
  then show ?thesis using inv(1,4) e0 by (cases e) (auto simp: unat_word_ariths)
qed

section \<open>Halves\<close>

lemma du_udw [simp]: "du (udw a) = a"
  by (rule bit_word_eqI) (auto simp: du_def udw_def bit_simps)

lemma unat_ucast_u64 [simp]: "unat (ucast (x :: u32) :: u64) = unat x"
  using u32_lt [of x] by (simp add: unsigned_ucast_eq take_bit_eq_mod)

lemma unat_du: "unat (du u) = unat (hi u) * 2 ^ 32 + unat (lo u)"
proof -
  have "push_bit 32 (ucast (hi u)) AND ucast (lo u) = (0 :: u64)"
    by (rule bit_word_eqI) (auto simp: bit_simps dest: bit_imp_le_length)
  then have "du u = push_bit 32 (ucast (hi u)) + ucast (lo u)"
    by (simp add: du_def disjunctive_add_eq_or)
  then have "unat (du u) = (unat (hi u) * 2 ^ 32 + unat (lo u)) mod 2 ^ 64"
    by (simp add: push_bit_eq_mult unat_word_ariths mod_simps)
  then show ?thesis
    using u32_lt [of "hi u"] u32_lt [of "lo u"] by simp
qed

lemma bit_du: "bit (du u) n \<longleftrightarrow> (if n < 32 then bit (lo u) n else bit (hi u) (n - 32))"
  by (auto simp: du_def bit_simps dest: bit_imp_le_length)

lemma udw_du [simp]: "udw (du u) = u"
  by (cases u) (auto simp: udw_def bit_du bit_simps intro!: bit_word_eqI)

lemma du_eta [simp]: "du \<lparr>lo = lo n, hi = hi n\<rparr> = du n"
  by (cases n) simp

lemma du_eqI:
  assumes "\<And>n. n < 32 \<Longrightarrow> bit (lo u) n = bit w n" "\<And>j. j < 32 \<Longrightarrow> bit (hi u) j = bit w (32 + j)"
  shows "du u = w"
proof (rule bit_word_eqI)
  fix n assume "n < LENGTH(64)"
  then show "bit (du u) n = bit w n" using assms(1) [of n] assms(2) [of "n - 32"] by (auto simp: bit_du)
qed

lemma du_shift_right:
  assumes "0 < s" "s < 32"
  shows "du \<lparr>lo = push_bit (32 - s) h OR drop_bit s l, hi = drop_bit s h\<rparr> = drop_bit s (du \<lparr>lo = l, hi = h\<rparr>)"
  using assms by (intro du_eqI) (auto simp: bit_du bit_simps ac_simps dest: bit_imp_le_length)

lemma du_shift_left:
  assumes "0 < s" "s < 32"
  shows "du \<lparr>lo = push_bit s l OR drop_bit (32 - s) y, hi = push_bit s h OR drop_bit (32 - s) l\<rparr> =
      push_bit s (du \<lparr>lo = l, hi = h\<rparr>) OR drop_bit (64 - s) (du \<lparr>lo = z, hi = y\<rparr>)"
    and "du \<lparr>lo = push_bit s l OR c, hi = push_bit s h OR drop_bit (32 - s) l\<rparr> = push_bit s (du \<lparr>lo = l, hi = h\<rparr>) OR ucast c"
  using assms by (intro du_eqI; auto simp: bit_du bit_simps ac_simps dest: bit_imp_le_length)+

lemma du_shift_left_high:
  assumes "s < 32"
  shows "du \<lparr>lo = 0, hi = push_bit s l\<rparr> = push_bit (32 + s) (du \<lparr>lo = l, hi = h\<rparr>)"
  using assms by (intro du_eqI) (auto simp: bit_du bit_simps ac_simps dest: bit_imp_le_length)

lemma du_shift_right_low:
  assumes "s < 32"
  shows "du \<lparr>lo = drop_bit s h, hi = 0\<rparr> = drop_bit (32 + s) (du \<lparr>lo = l, hi = h\<rparr>)"
  using assms by (intro du_eqI) (auto simp: bit_du bit_simps ac_simps dest: bit_imp_le_length)

section \<open>The loop\<close>

lemma sign_mask: "signed_drop_bit 63 (x :: u64) = (if 2 ^ 63 \<le> unat x then -1 else 0)"
proof -
  have "2 ^ 63 \<le> unat x \<longleftrightarrow> bit x 63"
    using drop_bit_eq_zero_iff_not_bit_last [of x] drop_bit_eq_0 [of 63 x] by (simp add: not_less [symmetric])
  then show ?thesis by (intro bit_word_eqI) (auto simp: bit_simps Suc_le_eq)
qed

lemma push_or_bit: "b = 0 \<or> b = 1 \<Longrightarrow> push_bit 1 w OR b = 2 * w + (b :: u64)"
proof -
  assume "b = 0 \<or> b = 1"
  then have "push_bit 1 w AND b = 0" by (intro bit_word_eqI) (auto simp: bit_simps bit_0)
  then show ?thesis by (simp add: disjunctive_add_eq_or [symmetric] push_bit_eq_mult mult.commute)
qed

lemma udiv_step_words:
  assumes "carry = 0 \<or> carry = 1"
  shows "udiv_step d (q, r, carry) =
    (let R = 2 * du r + drop_bit 63 (du q); s = signed_drop_bit 63 (du d - R - 1)
     in (udw (2 * du q + ucast carry), udw (R - (du d AND s)), ucast (s AND 1)))"
proof -
  have top: "drop_bit 63 w = 0 \<or> drop_bit 63 w = 1" for w :: u64
  proof -
    have "unat (drop_bit 63 w) < 2" using unsigned_less [of w, where ?'a = nat] by (simp only: unat_drop) (simp add: div_less_iff_less_mult)
    then have "unat (drop_bit 63 w) = 0 \<or> unat (drop_bit 63 w) = 1" by linarith
    then show ?thesis by (metis unat_eq_0 unat_eq_1)
  qed
  have R: "du \<lparr>lo = push_bit 1 (lo r) OR drop_bit 31 (hi q), hi = push_bit 1 (hi r) OR drop_bit 31 (lo r)\<rparr> = 2 * du r + drop_bit 63 (du q)"
    using du_shift_left(1) [of 1 "lo r" "hi q" "hi r" "lo q"] push_or_bit [OF top] by (cases r; cases q) simp
  have c: "ucast carry = (0 :: u64) \<or> ucast carry = (1 :: u64)" using assms by auto
  have Q: "du \<lparr>lo = push_bit 1 (lo q) OR carry, hi = push_bit 1 (hi q) OR drop_bit 31 (lo q)\<rparr> = 2 * du q + ucast carry"
    using du_shift_left(2) [of 1 "lo q" carry "hi q"] push_or_bit [OF c] by (cases q) simp
  show ?thesis
    using R Q udw_du [of "\<lparr>lo = push_bit 1 (lo q) OR carry, hi = push_bit 1 (hi q) OR drop_bit 31 (lo q)\<rparr>"]
    by (cases r; cases q) (simp add: udiv_step_def Let_def)
qed

text \<open>The test of the loop: the sign of \<open>d - r - 1\<close> says whether \<open>r \<ge> d\<close>.\<close>

lemma sign_test:
  fixes d r :: u64
  assumes "unat r < 2 * unat d" "unat d \<le> 2 ^ 63 \<or> 2 ^ 63 \<le> unat r"
  shows "2 ^ 63 \<le> unat (d - r - 1) \<longleftrightarrow> unat d \<le> unat r"
proof (cases "unat d \<le> unat r")
  case True
  have "unat (r - d) = unat r - unat d" using True by (simp add: unat_sub word_le_nat_alt)
  have lt: "unat r < 2 ^ 64" "unat d < 2 ^ 64" using unsigned_less [of r, where ?'a = nat] unsigned_less [of d, where ?'a = nat] by simp_all
  have "unat (d - r - 1) = (2 ^ 64 - 1) - (unat r - unat d)"
  proof -
    have "d - r - 1 = - 1 - (r - d)" by simp
    moreover have "unat (- 1 :: u64) = 2 ^ 64 - 1" by (simp add: unsigned_minus_1_eq_mask mask_eq_exp_minus_1)
    moreover have "unat (- 1 - (r - d)) = unat (- 1 :: u64) - unat (r - d)" by (rule unat_sub) simp
    ultimately show ?thesis using \<open>unat (r - d) = unat r - unat d\<close> by (simp only:)
  qed
  then show ?thesis using True assms lt by auto
next
  case False
  then have "unat (d - r) = unat d - unat r" by (simp add: unat_sub word_le_nat_alt)
  moreover from this False have "1 \<le> d - r" by (simp add: word_le_nat_alt)
  ultimately have "unat (d - r - 1) = unat d - unat r - 1" by (simp add: unat_sub)
  moreover have "unat d < 2 ^ 64" using unsigned_less [of d, where ?'a = nat] by simp
  ultimately show ?thesis using False assms by auto
qed

definition div_inv :: "nat \<Rightarrow> nat \<Rightarrow> nat \<Rightarrow> nat \<Rightarrow> udwords \<times> udwords \<times> u32 \<Rightarrow> bool" where
  "div_inv N D k Q = (\<lambda>(q, r, c). unat (du q) = (N mod 2 ^ k) * 2 ^ (64 - k) + Q div 2 \<and> unat c = Q mod 2 \<and>
     Q < 2 ^ (64 - k) \<and> Q * D + unat (du r) = N div 2 ^ k \<and> unat (du r) < D)"

lemma div_inv_step:
  fixes d :: udwords
  assumes inv: "div_inv N (unat (du d)) (Suc k) Q (q, r, c)" and k: "k < 63" and N: "N < 2 ^ 64"
    and D: "unat (du d) \<le> 2 ^ 63 \<or> 2 ^ 63 \<le> N \<and> k = 0"
  shows "\<exists>Q'. div_inv N (unat (du d)) k Q' (udiv_step d (q, r, c))"
proof -
  let ?D = "unat (du d)"
  define W where "W = (2 :: nat) ^ (63 - k)"
  define b where "b = N mod 2 ^ Suc k div 2 ^ k"
  have W2: "2 ^ (64 - Suc k) = W" "2 ^ (64 - k) = 2 * W" "2 ^ k * W = 2 ^ 63" "0 < W"
    using k by (simp_all add: W_def power_Suc [symmetric] Suc_diff_Suc power_add [symmetric] del: power_Suc) 
  have i: "unat (du q) = (N mod 2 ^ Suc k) * W + Q div 2" "unat c = Q mod 2" "Q < W"
    "Q * ?D + unat (du r) = N div 2 ^ Suc k" "unat (du r) < ?D"
    using inv W2(1) by (auto simp: div_inv_def)
  have bit: "N mod 2 ^ Suc k = b * 2 ^ k + N mod 2 ^ k" "b \<le> 1" "N div 2 ^ k = 2 * (N div 2 ^ Suc k) + b"
  proof -
    have m: "N mod 2 ^ Suc k = 2 ^ k * (N div 2 ^ k mod 2) + N mod 2 ^ k"
      using mod_mult2_eq [of N "2 ^ k" 2] by (simp add: mult.commute)
    have bb: "b = N div 2 ^ k mod 2" unfolding b_def m by simp
    show "N mod 2 ^ Suc k = b * 2 ^ k + N mod 2 ^ k" using m bb by (simp add: mult.commute)
    show "b \<le> 1" unfolding bb by simp
    have "N div 2 ^ Suc k = N div 2 ^ k div 2" using div_mult2_eq [of N "2 ^ k" 2] by (simp add: mult.commute)
    then show "N div 2 ^ k = 2 * (N div 2 ^ Suc k) + b" unfolding bb by simp
  qed
  have c01: "c = 0 \<or> c = 1" using i(2) by (metis mod2_eq_if unat_eq_0 unat_eq_1)
  have small: "N mod 2 ^ k * W + Q div 2 < 2 ^ 63"
  proof -
    have "N mod 2 ^ k + 1 \<le> 2 ^ k" by (simp add: Suc_leI)
    then have "(N mod 2 ^ k + 1) * W \<le> 2 ^ k * W" by (rule mult_le_mono1)
    then show ?thesis using i(3) W2(3) by simp
  qed
  have qv: "unat (du q) = b * 2 ^ 63 + (N mod 2 ^ k * W + Q div 2)"
    unfolding i(1) bit(1) W2(3) [symmetric] by (simp add: algebra_simps)
  have top: "unat (drop_bit 63 (du q)) = b"
    using small unfolding unat_drop qv by simp
  let ?R = "2 * du r + drop_bit 63 (du q)"
  have "2 * unat (du r) + b \<le> N div 2 ^ k" unfolding bit(3) i(4) [symmetric] by simp
  also have "\<dots> \<le> N" by (rule div_le_dividend)
  finally have Rlt: "2 * unat (du r) + b < 2 ^ 64" using N by linarith
  then have R: "unat ?R = 2 * unat (du r) + b"
    using top by (simp add: unat_word_ariths)
  have Q2: "unat (2 * du q + ucast c) = (N mod 2 ^ k) * 2 ^ (64 - k) + Q"
  proof -
    have "unat (2 * du q + ucast c) = (2 * unat (du q) + Q mod 2) mod 2 ^ 64"
      using i(2) by (simp add: unat_word_ariths mod_simps)
    also have "2 * unat (du q) + Q mod 2 = b * 2 ^ 64 + (2 * (N mod 2 ^ k * W) + Q)"
      unfolding qv by simp
    also have "(b * 2 ^ 64 + (2 * (N mod 2 ^ k * W) + Q)) mod 2 ^ 64 = 2 * (N mod 2 ^ k * W) + Q"
      using small by simp
    finally show ?thesis unfolding W2(2) by simp
  qed
  have Req: "2 * Q * ?D + unat ?R = N div 2 ^ k" using i(4) bit(3) R by simp
  have lim: "unat ?R < 2 * ?D" "?D \<le> 2 ^ 63 \<or> 2 ^ 63 \<le> unat ?R"
  proof -
    show "unat ?R < 2 * ?D" using R i(5) bit(2) by linarith
    show "?D \<le> 2 ^ 63 \<or> 2 ^ 63 \<le> unat ?R"
    proof (cases "?D \<le> 2 ^ 63")
      case False
      then have k0: "k = 0" "2 ^ 63 \<le> N" using D by auto
      have "Q = 0"
      proof (rule ccontr)
        assume "Q \<noteq> 0"
        then have "2 * ?D \<le> 2 * Q * ?D" by simp
        moreover have "2 * Q * ?D + unat ?R = N" using Req k0(1) by simp
        ultimately have "2 * ?D \<le> N" by linarith
        then show False using False N by simp
      qed
      then show ?thesis using Req k0 by simp
    qed simp
  qed
  have s: "signed_drop_bit 63 (du d - ?R - 1) = (if ?D \<le> unat ?R then -1 else 0 :: u64)"
    unfolding sign_mask using sign_test [OF lim] by simp
  show ?thesis
  proof (cases "?D \<le> unat ?R")
    case True
    have "unat (?R - du d) = unat ?R - ?D" using True by (simp add: unat_sub word_le_nat_alt)
    then have "div_inv N ?D k (2 * Q + 1) (udiv_step d (q, r, c))"
      unfolding udiv_step_words [OF c01] Let_def s using True Q2 Req lim(1) i(3) W2(2)
      by (simp add: div_inv_def)
    then show ?thesis by blast
  next
    case False
    then have "div_inv N ?D k (2 * Q) (udiv_step d (q, r, c))"
      unfolding udiv_step_words [OF c01] Let_def s using Q2 Req i(3) W2(2)
      by (simp add: div_inv_def)
    then show ?thesis by blast
  qed
qed


lemma div_loop:
  assumes "div_inv N (unat (du d)) k Q st" and "k < 64" "N < 2 ^ 64" "unat (du d) \<le> 2 ^ 63 \<or> 2 ^ 63 \<le> N \<and> k \<le> 1"
  shows "\<exists>Q'. div_inv N (unat (du d)) 0 Q' (udiv_loop k d st)"
  using assms
proof (induction k arbitrary: Q st)
  case (Suc k)
  obtain q r c where st: "st = (q, r, c)" by (cases st)
  obtain Q' where "div_inv N (unat (du d)) k Q' (udiv_step d st)"
    using div_inv_step [of N d k Q q r c] Suc.prems st by auto
  then show ?case using Suc.IH [of Q' "udiv_step d st"] Suc.prems by auto
qed auto

lemma div_loop_result:
  assumes "unat a div 2 ^ k < unat (du d)" "0 < k" "k < 64" "unat (du d) \<le> 2 ^ 63 \<or> 2 ^ 63 \<le> unat a \<and> k = 1"
    and "du q = push_bit (64 - k) a" "du r = drop_bit k a" "udiv_loop k d (q, r, 0) = (q', r', c')"
  shows "push_bit 1 (du q') OR ucast c' = a div du d \<and> du r' = a mod du d"
proof -
  have a: "unat a < 2 ^ 64" using unsigned_less [of a, where ?'a = nat] by simp
  have "unat a * 2 ^ (64 - k) mod 2 ^ 64 = (unat a mod 2 ^ k) * 2 ^ (64 - k)"
    using mult_mod_left [of "unat a" "2 ^ k" "2 ^ (64 - k)"] assms(3) by (simp add: power_add [symmetric])
  then have "unat (du q) = (unat a mod 2 ^ k) * 2 ^ (64 - k)"
    unfolding assms(5) by (simp only: unsigned_push_bit_eq) (simp add: push_bit_eq_mult take_bit_eq_mod)
  then have "div_inv (unat a) (unat (du d)) k 0 (q, r, 0)"
    using assms(1,6) by (simp add: div_inv_def)
  then obtain Q where "div_inv (unat a) (unat (du d)) 0 Q (q', r', c')"
    using div_loop [of "unat a" d k 0 "(q, r, 0)"] assms(3,4,7) a by force
  then have Q: "unat (du q') = Q div 2" "unat c' = Q mod 2" "Q < 2 ^ 64" "Q * unat (du d) + unat (du r') = unat a"
    "unat (du r') < unat (du d)" by (auto simp: div_inv_def)
  have "c' = 0 \<or> c' = 1" using Q(2) by (metis mod2_eq_if unat_eq_0 unat_eq_1)
  then have "push_bit 1 (du q') OR ucast c' = 2 * du q' + ucast c'" by (intro push_or_bit) auto
  moreover have "unat (2 * du q' + ucast c') = Q" using Q(1-3) by (simp add: unat_word_ariths mod_simps)
  moreover have "Q = unat a div unat (du d)" "unat (du r') = unat a mod unat (du d)"
    using Q(4,5) by (metis add.commute div_mult_self3 div_less add.right_neutral mult.commute less_nat_zero_code not_gr_zero, metis mod_mult_self3 mod_less Q(4))
  ultimately show ?thesis by (metis unat_div_distrib unat_mod_distrib word_unat_eq_iff)
qed

section \<open>The branches before the loop\<close>

lemma top_bit_ex:
  assumes "(x :: u32) \<noteq> 0"
  obtains e where "2 ^ e \<le> unat x" "unat x < 2 ^ Suc e" "e < 32"
proof -
  have "\<exists>e. 2 ^ e \<le> n \<and> n < 2 ^ Suc e" if "0 < n" for n :: nat
    using that
  proof (induction n rule: less_induct)
    case (less n)
    show ?case
    proof (cases "n = 1")
      case False
      then obtain e where "2 ^ e \<le> n div 2 \<and> n div 2 < 2 ^ Suc e" using less.IH [of "n div 2"] less.prems by auto
      then show ?thesis by (intro exI [of _ "Suc e"]) auto
    qed (auto intro: exI [of _ 0])
  qed
  then obtain e where e: "2 ^ e \<le> unat x" "unat x < 2 ^ Suc e" using assms by (metis unat_eq_0 neq0_conv)
  then have "(2 :: nat) ^ e < 2 ^ 32" using u32_lt [of x] by linarith
  then have "e < 32" by (simp only: power_strict_increasing_iff)
  then show thesis using that e by blast
qed

lemma unat_and_pred:
  assumes "unat x = 2 ^ e" "e < 32"
  shows "unat (y AND (x - 1 :: u32)) = unat y mod 2 ^ e" "unat (ctzsi2 x) = e"
proof -
  have "x = of_nat (unat x)" by simp
  also have "\<dots> = 2 ^ e" using assms(1) by simp
  finally have "x - 1 = mask e" by (simp add: mask_eq_exp_minus_1)
  then show "unat (y AND (x - 1)) = unat y mod 2 ^ e" by (simp only: unat_and_mask_eq)
  show "unat (ctzsi2 x) = e" using ctzsi2_exact [of e x] assms by simp
qed

lemma power_of_2:
  assumes "(x :: u32) \<noteq> 0" "x AND (x - 1) = 0"
  shows "\<exists>e<32. unat x = 2 ^ e"
proof -
  obtain e where e: "2 ^ e \<le> unat x" "unat x < 2 ^ Suc e" "e < 32" using top_bit_ex [OF assms(1)] .
  have top: "bit y e" if "2 ^ e \<le> unat y" "unat y < 2 ^ Suc e" for y :: u32
  proof -
    have "unat y div 2 ^ e = 1" using that by (simp add: div_nat_eqI)
    then have "bit (unat y) e" by (simp add: bit_iff_odd)
    then show ?thesis by (simp add: bit_unsigned_iff)
  qed
  have "unat (x - 1) = unat x - 1" using assms(1) by (simp add: unat_sub word_le_nat_alt unat_gt_0 Suc_leI)
  moreover have "\<not> bit (x - 1) e" using assms(2) top [OF e(1,2)] by (metis bit_0_eq bit_and_iff bot_apply bot_bool_def)
  ultimately have "unat x = 2 ^ e" using top [of "x - 1"] e by force
  then show ?thesis using e(3) by blast
qed

lemma start_shift_ok:
  assumes "0 < s" "s < (32 :: u32)"
  shows "\<exists>q r. start_shift n s = Inr (Loop s q r) \<and> du q = push_bit (64 - unat s) (du n) \<and> du r = drop_bit (unat s) (du n)"
proof -
  have s: "0 < unat s" "unat s < 32" using assms by (simp_all add: word_less_nat_alt unat_gt_0)
  have c: "unat (32 - s) = 32 - unat s" "32 - s < 32"
    using s by (simp_all add: unat_sub word_le_nat_alt word_less_nat_alt)
  have "32 + (32 - unat s) = 64 - unat s" using s by simp
  then show ?thesis
    using du_shift_left_high [of "32 - unat s" "lo n" "hi n"] du_shift_right [OF s, of "hi n" "lo n"] s c assms(2)
    by (cases n) (simp add: start_shift_def shl32_def shr32_def)
qed


lemma clz_diff:
  assumes "2 ^ ex \<le> unat x" "unat x < 2 ^ Suc ex" "2 ^ ey \<le> unat y" "unat y < 2 ^ Suc ey" "ex < 32" "ey < 32"
  shows "ey \<le> ex \<Longrightarrow> unat (clzsi2 y - clzsi2 x) = ex - ey" "ex < ey \<Longrightarrow> clzsi2 y - clzsi2 x > 31"
    "ey \<noteq> 0 \<Longrightarrow> unat (1 + 32 + clzsi2 y - clzsi2 x) = 33 + ex - ey"
proof -
  have cx: "unat (clzsi2 x) = 31 - ex" and cy: "unat (clzsi2 y) = 31 - ey"
    using clzsi2_bounds assms by blast+
  show "ey \<le> ex \<Longrightarrow> unat (clzsi2 y - clzsi2 x) = ex - ey"
    using cx cy assms(5,6) by (subst unat_sub) (auto simp: word_le_nat_alt)
  have sum: "unat (1 + 32 + clzsi2 y) = 64 - ey" using cy assms(6) by (simp add: unat_word_ariths)
  then show "ey \<noteq> 0 \<Longrightarrow> unat (1 + 32 + clzsi2 y - clzsi2 x) = 33 + ex - ey"
    using cx assms(5,6) by (subst unat_sub) (auto simp: word_le_nat_alt)
  assume lt: "ex < ey"
  have "unat (clzsi2 x - clzsi2 y) = ey - ex"
    using cx cy assms(5,6) lt by (subst unat_sub) (auto simp: word_le_nat_alt)
  moreover have "(unat (clzsi2 y - clzsi2 x) + unat (clzsi2 x - clzsi2 y)) mod 2 ^ 32 = 0"
    using unat_word_ariths(1) [of "clzsi2 y - clzsi2 x" "clzsi2 x - clzsi2 y"] by simp
  ultimately have "31 < unat (clzsi2 y - clzsi2 x)"
    using lt assms(6) by (intro ccontr [of "31 < _"]) simp
  then show "clzsi2 y - clzsi2 x > 31" by (simp add: word_less_nat_alt)
qed

fun start_ok :: "u64 \<Rightarrow> u64 \<Rightarrow> div_start \<Rightarrow> bool" where
  "start_ok a b (Done q r) \<longleftrightarrow> unat q = unat a div unat b \<and> unat r = unat a mod unat b"
| "start_ok a b (Loop sr q r) \<longleftrightarrow> 0 < unat sr \<and> unat sr < 64 \<and> unat a div 2 ^ unat sr < unat b \<and>
     (unat b \<le> 2 ^ 63 \<or> 2 ^ 63 \<le> unat a \<and> unat sr = 1) \<and>
     du q = push_bit (64 - unat sr) a \<and> du r = drop_bit (unat sr) a"

text \<open>Bounds that a loop entry needs, from the top bits of the high words.\<close>

lemma loop_bounds:
  assumes "N < 2 ^ (k + m)" "2 ^ m \<le> (D :: nat)"
  shows "N div 2 ^ k < D"
proof -
  have "N < 2 ^ k * 2 ^ m" using assms(1) by (simp add: power_add)
  also have "\<dots> \<le> D * 2 ^ k" using assms(2) by (simp add: mult.commute)
  finally show ?thesis by (simp add: div_less_iff_less_mult)
qed

lemma du_bounds:
  assumes "2 ^ e \<le> unat (hi n)" "unat (hi n) < 2 ^ Suc e"
  shows "2 ^ (e + 32) \<le> unat (du n)" "unat (du n) < 2 ^ (e + 33)"
proof -
  have "2 ^ e * 2 ^ 32 \<le> unat (hi n) * 2 ^ 32" using assms(1) by (rule mult_le_mono1)
  then show "2 ^ (e + 32) \<le> unat (du n)" by (simp add: unat_du power_add)
  have "(unat (hi n) + 1) * 2 ^ 32 \<le> 2 ^ Suc e * 2 ^ 32" using assms(2) by (intro mult_le_mono1) simp
  then show "unat (du n) < 2 ^ (e + 33)" using u32_lt [of "lo n"] by (simp add: unat_du power_add)
qed

text \<open>Both high words set: the shift by the difference of the top bits enters the loop.\<close>

lemma start_high:
  assumes n: "hi n \<noteq> 0" and d: "hi d \<noteq> 0"
  shows "clzsi2 (hi d) - clzsi2 (hi n) > 31 \<and> unat (du n) < unat (du d) \<or>
    (\<exists>k. unat (clzsi2 (hi d) - clzsi2 (hi n)) = k \<and> k < 32 \<and> unat (du n) div 2 ^ Suc k < unat (du d) \<and>
      (unat (du d) \<le> 2 ^ 63 \<or> 2 ^ 63 \<le> unat (du n) \<and> k = 0) \<and> (k = 31 \<longrightarrow> hi d = 1))"
proof -
  obtain en where en: "2 ^ en \<le> unat (hi n)" "unat (hi n) < 2 ^ Suc en" "en < 32" using top_bit_ex [OF n] .
  obtain ed where ed: "2 ^ ed \<le> unat (hi d)" "unat (hi d) < 2 ^ Suc ed" "ed < 32" using top_bit_ex [OF d] .
  note clz = clz_diff [OF en(1,2) ed(1,2) en(3) ed(3)]
  note N = du_bounds [OF en(1,2)] and D = du_bounds [OF ed(1,2)]
  show ?thesis
  proof (cases "ed \<le> en")
    case False
    then have "(2 :: nat) ^ (en + 33) \<le> 2 ^ (ed + 32)" by (intro power_increasing) auto
    then have "unat (du n) < unat (du d)" using N(2) D(1) by linarith
    then show ?thesis using False clz(2) by simp
  next
    case True
    have "unat (du n) div 2 ^ Suc (en - ed) < unat (du d)"
      using N(2) D(1) True by (intro loop_bounds [of _ _ "ed + 32"]) (auto simp: add.commute)
    moreover have "unat (du d) \<le> 2 ^ 63 \<or> 2 ^ 63 \<le> unat (du n) \<and> en - ed = 0"
    proof (cases "ed = 31")
      case True
      then have "en = 31" using \<open>ed \<le> en\<close> en(3) by simp
      then show ?thesis using N(1) True by simp
    next
      case False
      then have "(2 :: nat) ^ (ed + 33) \<le> 2 ^ 63" using ed(3) by (intro power_increasing) auto
      then show ?thesis using D(2) by linarith
    qed
    moreover have "hi d = 1" if "en - ed = 31"
    proof -
      have "ed = 0" using that en(3) by simp
      then have "unat (hi d) = 1" using ed(1,2) by simp
      then show ?thesis by (rule unat_eq_1)
    qed
    ultimately show ?thesis using clz(1) [OF True] en(3) by auto
  qed
qed


lemma loop_entry:
  assumes "0 < k" "k < 64" "unat sr = k" "unat (du n) div 2 ^ k < unat (du d)"
    "unat (du d) \<le> 2 ^ 63 \<or> 2 ^ 63 \<le> unat (du n) \<and> k = 1"
    "du q = push_bit (64 - k) (du n)" "du r = drop_bit k (du n)"
  shows "start_ok (du n) (du d) (Loop sr q r)"
  using assms by simp

lemma start_KK_ok:
  assumes "hi n \<noteq> 0" "hi d \<noteq> 0"
  shows "\<exists>s. start_KK n d = Inr s \<and> start_ok (du n) (du d) s"
proof -
  let ?sr = "clzsi2 (hi d) - clzsi2 (hi n)"
  consider "?sr > 31" "unat (du n) < unat (du d)" |
    k where "unat ?sr = k" "k < 32" "unat (du n) div 2 ^ Suc k < unat (du d)"
      "unat (du d) \<le> 2 ^ 63 \<or> 2 ^ 63 \<le> unat (du n) \<and> k = 0"
    using start_high [OF assms] by auto
  then show ?thesis
  proof cases
    case 1
    then show ?thesis by (simp add: start_KK_def Let_def)
  next
    case k: 2
    have small: "\<not> ?sr > 31" and sr: "unat (?sr + 1) = Suc k" using k(1,2) by (simp_all add: word_less_nat_alt unat_word_ariths)
    show ?thesis
    proof (cases "k = 31")
      case True
      then have eq: "?sr + 1 = 32" using sr by (simp add: word_eq_iff_unsigned [where ?'a = nat])
      have "start_ok (du n) (du d) (Loop (?sr + 1) \<lparr>lo = 0, hi = lo n\<rparr> \<lparr>lo = hi n, hi = 0\<rparr>)"
        using k sr True du_shift_left_high [of 0 "lo n" "hi n"] du_shift_right_low [of 0 "hi n" "lo n"]
        by (intro loop_entry [of "Suc k"]) auto
      then show ?thesis using small eq by (simp add: start_KK_def Let_def)
    next
      case False
      then have lt: "?sr + 1 < 32" "0 < ?sr + 1" using sr k(2) by (simp_all add: word_less_nat_alt)
      then obtain q r where "start_shift n (?sr + 1) = Inr (Loop (?sr + 1) q r)"
        "du q = push_bit (64 - Suc k) (du n)" "du r = drop_bit (Suc k) (du n)"
        using start_shift_ok [of "?sr + 1" n] sr by auto
      moreover from this have "start_ok (du n) (du d) (Loop (?sr + 1) q r)"
        using k sr by (intro loop_entry [of "Suc k"]) auto
      ultimately show ?thesis using small lt by (auto simp: start_KK_def Let_def)
    qed
  qed
qed

lemma start_K0_ok:
  assumes n: "hi n \<noteq> 0" and d: "hi d \<noteq> 0" "lo d = 0"
  shows "\<exists>s. start_K0 n d = Inr s \<and> start_ok (du n) (du d) s"
proof -
  have D: "unat (du d) = unat (hi d) * 2 ^ 32" using d(2) by (simp add: unat_du)
  have hn: "unat (du n) div 2 ^ 32 = unat (hi n)" "unat (du n) mod 2 ^ 32 = unat (lo n)"
    using u32_lt [of "lo n"] by (simp_all add: unat_du)
  have quot: "unat (du n) div unat (du d) = unat (hi n) div unat (hi d)"
    unfolding D using hn(1) by (simp add: mult.commute [of "unat (hi d)"] div_mult2_eq)
  have rem: "unat (du n) mod unat (du d) = (unat (hi n) mod unat (hi d)) * 2 ^ 32 + unat (lo n)"
    unfolding D using hn mod_mult2_eq [of "unat (du n)" "2 ^ 32" "unat (hi d)"] by (simp add: mult.commute)
  consider "lo n = 0" | "lo n \<noteq> 0" "hi d AND (hi d - 1) = 0" | "lo n \<noteq> 0" "hi d AND (hi d - 1) \<noteq> 0" by blast
  then show ?thesis
  proof cases
    case 1
    then show ?thesis using d quot rem by (simp add: start_K0_def unat_du unat_div_distrib unat_mod_distrib)
  next
    case 2
    obtain e where e: "e < 32" "unat (hi d) = 2 ^ e" using power_of_2 [OF d(1) 2(2)] by blast
    note p = unat_and_pred [OF e(2,1)]
    have "ctzsi2 (hi d) < 32" using p(2) e(1) by (simp add: word_less_nat_alt)
    then show ?thesis
      using 2 d quot rem e(2) p by (simp add: start_K0_def unat_du shr32_def)
  next
    case 3
    have no1: "hi d \<noteq> 1" using 3(2) by auto
    let ?sr = "clzsi2 (hi d) - clzsi2 (hi n)"
    consider "?sr > 31" "unat (du n) < unat (du d)" |
      k where "unat ?sr = k" "k < 32" "unat (du n) div 2 ^ Suc k < unat (du d)"
        "unat (du d) \<le> 2 ^ 63 \<or> 2 ^ 63 \<le> unat (du n) \<and> k = 0" "k \<noteq> 31"
      using start_high [OF n d(1)] no1 by auto
    then show ?thesis
    proof cases
      case 1
      have "?sr > 30" using 1(1) by (simp add: word_less_nat_alt)
      then show ?thesis using 1(2) 3 d by (simp add: start_K0_def Let_def)
    next
      case 2
      have lt: "\<not> ?sr > 30" "?sr + 1 < 32" "0 < ?sr + 1" and sr: "unat (?sr + 1) = Suc k"
        using 2(1,2,5) by (simp_all add: word_less_nat_alt unat_word_ariths)
      then obtain q r where "start_shift n (?sr + 1) = Inr (Loop (?sr + 1) q r)"
        "du q = push_bit (64 - Suc k) (du n)" "du r = drop_bit (Suc k) (du n)"
        using start_shift_ok [of "?sr + 1" n] by auto
      moreover from this have "start_ok (du n) (du d) (Loop (?sr + 1) q r)"
        using 2 sr by (intro loop_entry [of "Suc k"]) auto
      ultimately show ?thesis using lt 3 d by (auto simp: start_K0_def Let_def)
    qed
  qed
qed


text \<open>A divisor below \<open>2 ^ 32\<close> that is a power of two: a shift of the whole dividend.\<close>

lemma start_0K_power:
  assumes d: "hi d = 0" "lo d \<noteq> 0" "lo d AND (lo d - 1) = 0"
  shows "\<exists>s. start_0K n d = Inr s \<and> start_ok (du n) (du d) s"
proof -
  obtain e where e: "e < 32" "unat (lo d) = 2 ^ e" using power_of_2 [OF d(2,3)] by blast
  note p = unat_and_pred [OF e(2,1)]
  have D: "unat (du d) = 2 ^ e" using d(1) e(2) by (simp add: unat_du)
  have "(2 :: nat) ^ e dvd 2 ^ 32" using e(1) by (intro le_imp_power_dvd) simp
  then obtain z :: nat where z: "2 ^ 32 = 2 ^ e * z" by (rule dvdE)
  have rem: "unat (du n) mod unat (du d) = unat (lo n AND (lo d - 1))"
    unfolding D p(1) unat_du [of n] z by (metis mod_mult_self4 mult.left_commute)
  show ?thesis
  proof (cases "lo d = 1")
    case True
    then have "unat (du d) = 1" using d(1) by (simp add: unat_du)
    then show ?thesis using True by (simp add: start_0K_def)
  next
    case False
    then have e0: "0 < e" using e(2) unat_eq_1 [of "lo d"] by (cases e) auto
    let ?c = "ctzsi2 (lo d)"
    have c: "?c < 32" "unat (32 - ?c) = 32 - e" "32 - ?c < 32"
      using p(2) e(1) e0 by (simp_all add: word_less_nat_alt unat_sub word_le_nat_alt)
    have "du \<lparr>lo = push_bit (32 - e) (hi n) OR drop_bit e (lo n), hi = drop_bit e (hi n)\<rparr> = drop_bit e (du n)"
      using du_shift_right [OF e0 e(1), of "hi n" "lo n"] by simp
    then have "unat (du \<lparr>lo = push_bit (32 - e) (hi n) OR drop_bit e (lo n), hi = drop_bit e (hi n)\<rparr>) = unat (du n) div unat (du d)"
      by (simp only: unat_drop D)
    then show ?thesis
      using False d(3) c p(2) rem by (simp add: start_0K_def Let_def shl32_def shr32_def)
  qed
qed

lemma start_0K_ok:
  assumes n: "hi n \<noteq> 0" and d: "hi d = 0" "lo d \<noteq> 0"
  shows "\<exists>s. start_0K n d = Inr s \<and> start_ok (du n) (du d) s"
proof (cases "lo d AND (lo d - 1) = 0")
  case False
  obtain en where en: "2 ^ en \<le> unat (hi n)" "unat (hi n) < 2 ^ Suc en" "en < 32" using top_bit_ex [OF n] .
  obtain ed where ed: "2 ^ ed \<le> unat (lo d)" "unat (lo d) < 2 ^ Suc ed" "ed < 32" using top_bit_ex [OF d(2)] .
  have ed0: "ed \<noteq> 0"
  proof
    assume "ed = 0"
    then have "lo d = 1" using ed(1,2) by (intro unat_eq_1) simp
    then show False using False by simp
  qed
  define sr where "sr = 1 + 32 + clzsi2 (lo d) - clzsi2 (hi n)"
  define k where "k = 33 + en - ed"
  have sr: "unat sr = k" unfolding k_def sr_def using clz_diff(3) [OF en(1,2) ed(1,2) en(3) ed(3) ed0] .
  have k: "1 < k" "k < 64" using en(3) ed(3) ed0 by (auto simp: k_def)
  have D: "unat (du d) = unat (lo d)" using d(1) by (simp add: unat_du)
  have "(2 :: nat) ^ (en + 33) = 2 ^ (k + ed)" using ed(3) by (simp add: k_def)
  then have lt: "unat (du n) div 2 ^ k < unat (du d)"
    using du_bounds(2) [OF en(1,2)] ed(1) D by (intro loop_bounds [of _ _ ed]) auto
  have D63: "unat (du d) \<le> 2 ^ 63" using D u32_lt [of "lo d"] by simp
  note entry = loop_entry [of k sr n d, OF _ k(2) sr lt]
  consider "k = 32" | "k < 32" | "32 < k" by linarith
  then show ?thesis
  proof cases
    case 1
    then have eq: "sr = 32" using sr by (simp add: word_eq_iff_unsigned [where ?'a = nat])
    have "start_ok (du n) (du d) (Loop sr \<lparr>lo = 0, hi = lo n\<rparr> \<lparr>lo = hi n, hi = 0\<rparr>)"
      using k D63 1 du_shift_left_high [of 0 "lo n" "hi n"] du_shift_right_low [of 0 "hi n" "lo n"] by (intro entry) auto
    then show ?thesis
      unfolding start_0K_def Let_def sr_def [symmetric] using False eq by (simp)
  next
    case 2
    then have b: "sr \<noteq> 32" "sr < 32" "0 < sr" using sr k by (auto simp: word_less_nat_alt)
    obtain q r where q: "start_shift n sr = Inr (Loop sr q r)" "du q = push_bit (64 - k) (du n)" "du r = drop_bit k (du n)"
      using start_shift_ok [OF b(3,2), of n] sr by auto
    then have "start_ok (du n) (du d) (Loop sr q r)" using k D63 by (intro entry) auto
    then show ?thesis
      unfolding start_0K_def Let_def sr_def [symmetric] using False b q by (simp)
  next
    case 3
    then have b: "sr \<noteq> 32" "\<not> sr < 32" using sr by (auto simp: word_less_nat_alt)
    have u: "unat (64 - sr) = 64 - k" "unat (sr - 32) = k - 32" "64 - sr < 32" "sr - 32 < 32"
      using sr 3 k by (simp_all add: unat_sub word_le_nat_alt word_less_nat_alt)
    have "du \<lparr>lo = push_bit (64 - k) (lo n), hi = push_bit (64 - k) (hi n) OR drop_bit (k - 32) (lo n)\<rparr> = push_bit (64 - k) (du n)"
      using du_shift_left(2) [of "64 - k" "lo n" 0 "hi n"] 3 k by simp
    moreover have "du \<lparr>lo = drop_bit (k - 32) (hi n), hi = 0\<rparr> = drop_bit k (du n)"
      using du_shift_right_low [of "k - 32" "hi n" "lo n"] 3 k by simp
    ultimately have "start_ok (du n) (du d) (Loop sr
        \<lparr>lo = push_bit (64 - k) (lo n), hi = push_bit (64 - k) (hi n) OR drop_bit (k - 32) (lo n)\<rparr>
        \<lparr>lo = drop_bit (k - 32) (hi n), hi = 0\<rparr>)"
      using k D63 by (intro entry) auto
    then show ?thesis
      unfolding start_0K_def Let_def sr_def [symmetric] using False b u by (simp add: shl32_def shr32_def)
  qed
qed (use start_0K_power d in blast)

lemma div_start_ok:
  assumes "b \<noteq> 0"
  shows "\<exists>s. div_start_of (udw a) (udw b) = Inr s \<and> start_ok a b s"
proof -
  have b: "unat b = unat (hi (udw b)) * 2 ^ 32 + unat (lo (udw b))" and a: "unat a = unat (hi (udw a)) * 2 ^ 32 + unat (lo (udw a))"
    using unat_du [of "udw b"] unat_du [of "udw a"] by simp_all
  have b0: "hi (udw b) \<noteq> 0 \<or> lo (udw b) \<noteq> 0" using b assms by (auto simp: unat_eq_0)
  show ?thesis
  proof (cases "hi (udw a) = 0")
    case True
    have "unat a < unat b" if "hi (udw b) \<noteq> 0"
    proof -
      have "1 * 2 ^ 32 \<le> unat (hi (udw b)) * 2 ^ 32" using that by (intro mult_le_mono1) (simp add: unat_gt_0 Suc_leI)
      then show ?thesis using a b True u32_lt [of "lo (udw a)"] by simp
    qed
    then show ?thesis using True a b b0 by (simp add: div_start_of_def unat_div_distrib unat_mod_distrib)
  next
    case False
    then show ?thesis
      using start_K0_ok [of "udw a" "udw b"] start_0K_ok [of "udw a" "udw b"] start_KK_ok [of "udw a" "udw b"] b0
      by (cases "lo (udw b) = 0"; cases "hi (udw b) = 0") (simp_all add: div_start_of_def)
  qed
qed

lemma udivmoddi4_ok:
  assumes "b \<noteq> 0"
  shows "udivmoddi4 a b = Inr (a div b, a mod b)"
proof -
  obtain s where s: "div_start_of (udw a) (udw b) = Inr s" "start_ok a b s" using div_start_ok [OF assms] by blast
  show ?thesis
  proof (cases s)
    case (Done q r)
    then have "q = a div b" "r = a mod b"
      using s(2) by (simp_all add: word_eq_iff_unsigned [where ?'a = nat] unat_div_distrib unat_mod_distrib)
    then show ?thesis using s Done by (simp add: udivmoddi4_def)
  next
    case (Loop sr q r)
    obtain q' r' c' where l: "udiv_loop (unat sr) (udw b) (q, r, 0) = (q', r', c')" by (cases "udiv_loop (unat sr) (udw b) (q, r, 0)")
    have "push_bit 1 (du q') OR ucast c' = a div b \<and> du r' = a mod b"
      using div_loop_result [OF _ _ _ _ _ _ l, of a] s(2) Loop by simp
    then show ?thesis using s(1) Loop l by (simp add: udivmoddi4_def)
  qed
qed

lemma udivmoddi4_zero: "udivmoddi4 a 0 = Inl Div_error"
  by (simp add: udivmoddi4_def div_start_of_def udw_def start_K0_def)

section \<open>Signed division\<close>

text \<open>\<open>(x ^ s) - s\<close> with the sign mask of \<open>x\<close> is the absolute value, with another mask a conditional negation.\<close>

lemma mask_negate: "(x XOR (if c then - 1 else 0)) - (if c then - 1 else 0) = (if c then - x else (x :: u64))"
  by (cases c) (simp_all add: not_eq_complement)

lemma bit_63: "2 ^ 63 \<le> unat x \<longleftrightarrow> bit (x :: u64) 63"
  using drop_bit_eq_zero_iff_not_bit_last [of x] drop_bit_eq_0 [of 63 x] by (simp add: not_less [symmetric])

lemma sint_u64: "sint (x :: u64) = uint x - (if 2 ^ 63 \<le> unat x then 2 ^ 64 else 0)"
proof -
  have "take_bit 64 (uint x) = uint x" using unsigned_take_bit_eq [of 64 x, where ?'a = int] by (simp add: take_bit_word_eq_self)
  then show ?thesis unfolding bit_63 sint_uint by (simp add: signed_take_bit_eq_take_bit_minus bit_uint_iff)
qed

lemma uint_bounds: "0 \<le> uint (x :: u64)" "uint x < 2 ^ 64" "2 ^ 63 \<le> unat x \<longleftrightarrow> 2 ^ 63 \<le> uint x"
proof -
  show "0 \<le> uint x" "uint x < 2 ^ 64" using uint_range_size [of x] by (simp_all add: word_size)
  have "2 ^ 63 \<le> unat x \<longleftrightarrow> int (2 ^ 63) \<le> int (unat x)" by (simp only: of_nat_le_iff)
  then show "2 ^ 63 \<le> unat x \<longleftrightarrow> 2 ^ 63 \<le> uint x" by simp
qed

lemma sint_sign: "2 ^ 63 \<le> unat (x :: u64) \<longleftrightarrow> sint x < 0"
  using uint_bounds [of x] by (auto simp: sint_u64)

lemma uint_abs: "uint (if 2 ^ 63 \<le> unat x then - x else x :: u64) = \<bar>sint x\<bar>"
  using uint_bounds [of x] by (auto simp: sint_u64 uint_word_ariths zmod_zminus1_eq_if)

lemma sint_zero: "sint (x :: u64) = 0 \<longleftrightarrow> x = 0"
  by (metis signed_eq_0_iff)

text \<open>The absolute value as the code computes it.\<close>

definition mag :: "u64 \<Rightarrow> u64" where
  "mag x = (x XOR signed_drop_bit 63 x) - signed_drop_bit 63 x"

lemma uint_mag: "uint (mag x) = \<bar>sint x\<bar>"
  unfolding mag_def sign_mask mask_negate by (rule uint_abs)

lemma mag_zero: "mag x = 0 \<longleftrightarrow> x = 0"
proof -
  have "mag x = 0 \<longleftrightarrow> uint (mag x) = 0" by (simp only: unsigned_eq_0_iff)
  then show ?thesis by (simp only: uint_mag abs_eq_0 sint_zero)
qed

lemma word_of_int_uint': "word_of_int (uint (x :: u64)) = x" "word_of_int (- uint x) = - x"
  by (simp_all flip: wi_hom_neg)

lemma divdi3_ok: "divdi3 a b = (if b = 0 then Inl Div_error else Inr (word_of_int (sint a sdiv sint b)))"
proof (cases "b = 0")
  case False
  have q: "uint (mag a div mag b) = \<bar>sint a\<bar> div \<bar>sint b\<bar>" by (simp add: uint_div_distrib uint_mag)
  let ?neg = "(2 ^ 63 \<le> unat a) \<noteq> (2 ^ 63 \<le> unat b)"
  have s: "signed_drop_bit 63 a XOR signed_drop_bit 63 b = (if ?neg then - 1 else 0)"
    by (auto simp: sign_mask)
  have "divdi3 a b = Inr (if ?neg then - (mag a div mag b) else mag a div mag b)"
    using udivmoddi4_ok [of "mag b" "mag a"] False mask_negate [of "mag a div mag b" ?neg]
    unfolding divdi3_def Let_def mag_def [symmetric] s by (simp add: mag_zero)
  also have "(if ?neg then - (mag a div mag b) else mag a div mag b) = word_of_int (sint a sdiv sint b)"
  proof (cases "sint a = 0")
    case True
    then have "mag a = 0" by (simp add: mag_zero sint_zero)
    then show ?thesis using True by simp
  next
    case nz: False
    have "sint a sdiv sint b = (if ?neg then - (\<bar>sint a\<bar> div \<bar>sint b\<bar>) else \<bar>sint a\<bar> div \<bar>sint b\<bar>)"
      unfolding sint_sign using nz False by (auto simp: signed_divide_int_def sgn_if sint_zero)
    then show ?thesis using word_of_int_uint' [of "mag a div mag b"] q by simp
  qed
  finally show ?thesis using False by simp
qed (simp add: divdi3_def udivmoddi4_zero Let_def)

lemma moddi3_ok: "moddi3 a b = (if b = 0 then Inl Div_error else Inr (word_of_int (sint a smod sint b)))"
proof (cases "b = 0")
  case False
  have r: "uint (mag a mod mag b) = \<bar>sint a\<bar> mod \<bar>sint b\<bar>" by (simp add: uint_mod_distrib uint_mag)
  have "moddi3 a b = Inr (if 2 ^ 63 \<le> unat a then - (mag a mod mag b) else mag a mod mag b)"
    using udivmoddi4_ok [of "mag b" "mag a"] False mask_negate [of "mag a mod mag b" "2 ^ 63 \<le> unat a"]
    unfolding moddi3_def Let_def mag_def [symmetric] by (simp add: mag_zero sign_mask)
  moreover have "sint a smod sint b = (if 2 ^ 63 \<le> unat a then - (\<bar>sint a\<bar> mod \<bar>sint b\<bar>) else \<bar>sint a\<bar> mod \<bar>sint b\<bar>)"
    unfolding sint_sign by (auto simp: signed_modulo_int_def sgn_if)
  ultimately show ?thesis using word_of_int_uint' [of "mag a mod mag b"] r False by simp
qed (simp add: moddi3_def udivmoddi4_zero Let_def)

lemma divmoddi4_ok:
  "divmoddi4 a b = (if b = 0 then Inl Div_error
     else Inr (word_of_int (sint a sdiv sint b), word_of_int (sint a smod sint b)))"
proof (cases "b = 0")
  case False
  have "word_of_int (sint a smod sint b) = a - word_of_int (sint a sdiv sint b) * b"
  proof -
    have "sint a smod sint b = sint a - (sint a sdiv sint b) * sint b"
      using sdiv_mult_smod_eq [of "sint a" "sint b"] by simp
    then have "word_of_int (sint a smod sint b) = (word_of_int (sint a) - word_of_int (sint a sdiv sint b) * word_of_int (sint b) :: u64)"
      by simp
    then show ?thesis by simp
  qed
  then show ?thesis using False by (simp add: divmoddi4_def divdi3_ok)
qed (simp add: divmoddi4_def divdi3_ok)

section \<open>The routines against division\<close>

text \<open>
  C6. The 64-bit division routine returns, for every dividend and every divisor other than 0, the
  quotient and the remainder of the two unsigned numbers, through every special case and the shift
  and subtract loop, and no branch shifts a word by its width or more; a division by 0 traps.
\<close>

theorem udivmoddi4_correct:
  "udivmoddi4 a b = (if b = 0 then Inl Div_error else Inr (a div b, a mod b)) \<and>
   udivdi3 a b = (if b = 0 then Inl Div_error else Inr (a div b)) \<and>
   umoddi3 a b = (if b = 0 then Inl Div_error else Inr (a mod b))"
  by (simp add: udivdi3_def umoddi3_def udivmoddi4_ok udivmoddi4_zero)

text \<open>
  C7. The signed routines compute the quotient rounded towards zero and the remainder with the sign of
  the dividend, as C defines them, reduced to 64 bits: the one quotient that does not fit,
  \<open>-2^63 / -1\<close>, wraps around.
\<close>

theorem signed_division_correct:
  "divdi3 a b = (if b = 0 then Inl Div_error else Inr (word_of_int (sint a sdiv sint b))) \<and>
   moddi3 a b = (if b = 0 then Inl Div_error else Inr (word_of_int (sint a smod sint b))) \<and>
   divmoddi4 a b = (if b = 0 then Inl Div_error
     else Inr (word_of_int (sint a sdiv sint b), word_of_int (sint a smod sint b)))"
  by (simp only: divdi3_ok moddi3_ok divmoddi4_ok simp_thms)

end
