(* ===== verification/Gdb.thy ===== *)
theory Gdb
  imports Prelude
begin

text \<open>
  The client of the GDB remote protocol that drives the reference emulator in differential testing,
  \<open>tools/qemu-diff/src/protocol.c\<close> and \<open>gdb-host.c\<close>. A connection holds the bytes the peer has still to
  deliver, whose end is end of file, and the bytes written so far. The socket set-up of
  \<open>gdb_begin_inet\<close> and the write errors of the host are outside the model; \<open>err\<close> and \<open>errx\<close>, which
  exit, are panics.
\<close>

section \<open>Hexadecimal digits (protocol.c)\<close>

definition c_isdigit :: "u8 \<Rightarrow> bool" where
  "c_isdigit x \<longleftrightarrow> 48 \<le> x \<and> x \<le> 57"

definition c_isxdigit :: "u8 \<Rightarrow> bool" where
  "c_isxdigit x \<longleftrightarrow> c_isdigit x \<or> (97 \<le> x \<and> x \<le> 102) \<or> (65 \<le> x \<and> x \<le> 70)"

definition c_tolower :: "u8 \<Rightarrow> u8" where
  "c_tolower x = (if 65 \<le> x \<and> x \<le> 90 then x + 32 else x)"

definition hex_nibble :: "u8 \<Rightarrow> u8" where
  "hex_nibble hex = (if c_isdigit hex then hex - 48 else c_tolower hex - 97 + 10)"

definition hex_encode :: "u8 \<Rightarrow> u8" where
  "hex_encode digit = (if digit > 9 then 97 + digit - 10 else 48 + digit)"

definition gdb_decode_hex :: "u8 \<Rightarrow> u8 \<Rightarrow> u16" where
  "gdb_decode_hex msb lsb =
     (if \<not> c_isxdigit msb \<or> \<not> c_isxdigit lsb then 0xFFFF
      else 16 * ucast (hex_nibble msb) + ucast (hex_nibble lsb))"

text \<open>The string ends with a null byte, which is no digit.\<close>

fun gdb_decode_hex_loop :: "u8 list \<Rightarrow> u64 \<Rightarrow> u64 \<Rightarrow> u64" where
  "gdb_decode_hex_loop (a # b # bytes) v weight =
     (if c_isxdigit a \<and> c_isxdigit b then
        gdb_decode_hex_loop bytes (v + weight * ucast (gdb_decode_hex a b)) (weight * (16 * 16))
      else v)"
| "gdb_decode_hex_loop bytes v weight = v"

definition gdb_decode_hex_str :: "u8 list \<Rightarrow> u64" where
  "gdb_decode_hex_str bytes = gdb_decode_hex_loop bytes 0 1"

section \<open>Packets\<close>

record gdb_conn =
  conn_in :: "u8 list"
  conn_out :: "u8 list"
  conn_ack :: bool

definition ascii :: "string \<Rightarrow> u8 list" where
  "ascii s = map of_char s"

text \<open>\<open>gdb_begin\<close> acknowledges any earlier input.\<close>

definition gdb_begin :: "u8 list \<Rightarrow> gdb_conn" where
  "gdb_begin peer = \<lparr>conn_in = peer, conn_out = [0x2b], conn_ack = True\<rparr>"

definition upper_hex :: "u8 \<Rightarrow> u8" where
  "upper_hex d = (if d > 9 then 65 + d - 10 else 48 + d)"

definition checksum :: "u8 list \<Rightarrow> u8" where
  "checksum command = fold (\<lambda>c sum. sum + c) command 0"

text \<open>The packet \<open>$command#XX\<close>, the checksum printed with \<open>%02X\<close>.\<close>

definition send_packet :: "u8 list \<Rightarrow> u8 list" where
  "send_packet command =
     (let sum = checksum command in
      [0x24] @ command @ [0x23, upper_hex (drop_bit 4 sum), upper_hex (sum AND 0xf)])"

text \<open>
  \<open>gdb_send\<close> repeats the packet until the peer sends \<open>+\<close>. At end of file the loop goes on for as long
  as the writes succeed.
\<close>

fun gdb_send_loop :: "u8 list \<Rightarrow> u8 list \<Rightarrow> u8 list \<Rightarrow> (u8 list \<times> u8 list) res" where
  "gdb_send_loop pkt out [] = Inl Diverge"
| "gdb_send_loop pkt out (c # inp) =
     (if c = 0x2b then Inr (inp, out @ pkt) else gdb_send_loop pkt (out @ pkt) inp)"

definition gdb_send :: "u8 list \<Rightarrow> gdb_conn \<Rightarrow> gdb_conn res" where
  "gdb_send command conn =
     (let pkt = send_packet command in
      if \<not> conn_ack conn then Inr (conn\<lparr>conn_out := conn_out conn @ pkt\<rparr>)
      else bindE (gdb_send_loop pkt (conn_out conn) (conn_in conn)) (\<lambda>(inp, out).
             Inr (conn\<lparr>conn_in := inp, conn_out := out\<rparr>)))"

record gdb_packet =
  pk_reply :: "u8 list"
  pk_sum_ok :: bool
  pk_rest :: "u8 list"

text \<open>\<open>fgetc\<close> into a \<open>uint8_t\<close>: end of file becomes 255.\<close>

definition fgetc8 :: "u8 list \<Rightarrow> u8 \<times> u8 list" where
  "fgetc8 inp = (case inp of [] \<Rightarrow> (255, []) | c # cs \<Rightarrow> (c, cs))"

definition rle_count_ok :: "u8 list \<Rightarrow> bool" where
  "rle_count_ok inp = (case inp of [] \<Rightarrow> False | c2 # _ \<Rightarrow> \<not> (c2 < 29 \<or> c2 > 126 \<or> c2 = 0x24 \<or> c2 = 0x23))"

definition put_reply :: "nat \<Rightarrow> u8 list \<Rightarrow> u8 list \<Rightarrow> u8 list res" where
  "put_reply sz reply cs = (if length reply + length cs \<le> sz then Inr (reply @ cs) else Inl Out_of_bounds)"

text \<open>
  The body of the receive loop. \<open>reply\<close> are the \<open>i\<close> bytes stored so far, \<open>sz\<close> the size of the heap
  buffer, and a store outside it is a fault. At the end of the packet a null byte is stored behind the
  \<open>i\<close> bytes, for which a full buffer is grown by one.
\<close>

function recv_loop :: "u8 list \<Rightarrow> nat \<Rightarrow> u8 list \<Rightarrow> u8 \<Rightarrow> bool \<Rightarrow> gdb_packet res" where
  "recv_loop [] sz reply csum escape = Inl (Panic ''recv: Connection closed'')"
| "recv_loop (c # inp) sz reply csum escape =
     (if c = 0x24 then recv_loop inp sz [] 0 False
      else if c = 0x23 then
        let (msb, inp) = fgetc8 inp; (lsb, inp) = fgetc8 inp
        in bindE (put_reply (if length reply = sz then sz + 1 else sz) reply [0]) (\<lambda>_.
             Inr \<lparr>pk_reply = reply, pk_sum_ok = (ucast (csum + c - c) = gdb_decode_hex msb lsb), pk_rest = inp\<rparr>)
      else if c = 0x7d then recv_loop inp sz reply (csum + c) True
      else if c = 0x2a \<and> reply \<noteq> [] \<and> rle_count_ok inp then
        let count = unat (hd inp) - 29;
            sz = (if length reply + count > sz then 2 * sz else sz)
        in bindE (put_reply sz reply (replicate count (last reply))) (\<lambda>reply.
             recv_loop (tl inp) sz reply (csum + c + hd inp) escape)
      else
        let c' = (if escape then c XOR 0x20 else c);
            sz = (if length reply = sz then 2 * sz else sz)
        in bindE (put_reply sz reply [c']) (\<lambda>reply. recv_loop inp sz reply (csum + c) False))"
  by pat_completeness auto
termination
  by (relation "measure (\<lambda>(inp, sz, reply, csum, escape). length inp)") auto

declare recv_loop.simps [simp del]

definition recv_packet :: "u8 list \<Rightarrow> gdb_packet res" where
  "recv_packet inp = recv_loop (drop 1 (dropWhile (\<lambda>c. c \<noteq> 0x24) inp)) 4096 [] 0 False"

lemma fgetc8_len: "length (snd (fgetc8 inp)) \<le> length inp"
  by (cases inp) (auto simp: fgetc8_def)

lemma lt_pred: "a < n - Suc 0 \<Longrightarrow> a < Suc n"
  by arith

lemma recv_loop_shorter: "recv_loop inp sz reply csum escape = Inr p \<Longrightarrow> length (pk_rest p) < length inp"
proof (induction inp sz reply csum escape rule: recv_loop.induct)
  case (2 c inp sz reply csum escape)
  have "length (snd (fgetc8 (snd (fgetc8 inp)))) \<le> length inp"
    using fgetc8_len [of inp] fgetc8_len [of "snd (fgetc8 inp)"] by linarith
  then show ?case
    using 2 by (auto simp: recv_loop.simps(2) Let_def case_prod_unfold bindE_eq_Inr
        split: if_splits intro: le_less_trans less_SucI lt_pred)
qed (simp add: recv_loop.simps)

lemma recv_packet_shorter: "recv_packet inp = Inr p \<Longrightarrow> length (pk_rest p) < length inp"
  using length_dropWhile_le [of "\<lambda>c. c \<noteq> 0x24" inp]
  by (auto simp: recv_packet_def dest!: recv_loop_shorter)

text \<open>
  \<open>gdb_recv\<close> receives packets until the checksum of one is right, and answers each with \<open>+\<close> or
  \<open>-\<close> while acknowledgements are on.
\<close>

function gdb_recv :: "gdb_conn \<Rightarrow> (u8 list \<times> gdb_conn) res" where
  "gdb_recv conn =
     bindE (recv_packet (conn_in conn)) (\<lambda>p.
       let conn' = conn\<lparr>conn_in := pk_rest p\<rparr> in
       if \<not> conn_ack conn then Inr (pk_reply p, conn')
       else if pk_sum_ok p then Inr (pk_reply p, conn'\<lparr>conn_out := conn_out conn @ [0x2b]\<rparr>)
       else gdb_recv (conn'\<lparr>conn_out := conn_out conn @ [0x2d]\<rparr>))"
  by pat_completeness auto
termination
  by (relation "measure (\<lambda>conn. length (conn_in conn))") (auto dest: recv_packet_shorter)

declare gdb_recv.simps [simp del]

text \<open>\<open>strcmp\<close> against a literal reads the reply up to its first null byte.\<close>

definition reply_is :: "string \<Rightarrow> u8 list \<Rightarrow> bool" where
  "reply_is s reply \<longleftrightarrow> takeWhile (\<lambda>x. x \<noteq> 0) reply = ascii s"

definition gdb_start_noack :: "gdb_conn \<Rightarrow> (bool \<times> gdb_conn) res" where
  "gdb_start_noack conn =
     bindE (gdb_send (ascii ''QStartNoAckMode'') conn) (\<lambda>conn.
     bindE (gdb_recv conn) (\<lambda>(reply, conn).
       let ok = length reply = 2 \<and> reply_is ''OK'' reply in
       Inr (ok, if ok then conn\<lparr>conn_ack := False\<rparr> else conn)))"

section \<open>Commands (gdb-host.c)\<close>

text \<open>\<open>%x\<close> and the loops that print bytes as two digits.\<close>

fun hex_digits :: "nat \<Rightarrow> u8 list" where
  "hex_digits n = (if n < 16 then [hex_encode (of_nat n)] else hex_digits (n div 16) @ [hex_encode (of_nat (n mod 16))])"

declare hex_digits.simps [simp del]

definition hex_byte :: "u8 \<Rightarrow> u8 list" where
  "hex_byte b = [hex_encode (drop_bit 4 b), hex_encode (b AND 0xf)]"

definition hex_bytes :: "u8 list \<Rightarrow> u8 list" where
  "hex_bytes bs = concat (map hex_byte bs)"

definition gdb_M_command :: "u32 \<Rightarrow> u8 list \<Rightarrow> u8 list" where
  "gdb_M_command dest src =
     ascii ''M0x'' @ hex_digits (unat dest) @ ascii '','' @ hex_digits (length src) @ ascii '':'' @ hex_bytes src"

definition gdb_memcpy_to_qemu_small :: "u32 \<Rightarrow> u8 list \<Rightarrow> gdb_conn \<Rightarrow> (bool \<times> gdb_conn) res" where
  "gdb_memcpy_to_qemu_small dest src conn =
     bindE (gdb_send (takeWhile (\<lambda>x. x \<noteq> 0) (gdb_M_command dest src)) conn) (\<lambda>conn.
     bindE (gdb_recv conn) (\<lambda>(reply, conn). Inr (reply_is ''OK'' reply, conn)))"

definition mtu :: nat where "mtu = 1500"

function gdb_memcpy_loop :: "u32 \<Rightarrow> u8 list \<Rightarrow> bool \<Rightarrow> gdb_conn \<Rightarrow> (bool \<times> gdb_conn) res" where
  "gdb_memcpy_loop dest src ok conn =
     (if length src > mtu then
        bindE (gdb_memcpy_to_qemu_small dest (take mtu src) conn) (\<lambda>(o1, conn).
          gdb_memcpy_loop (dest + of_nat mtu) (drop mtu src) (ok \<and> o1) conn)
      else
        bindE (gdb_memcpy_to_qemu_small dest src conn) (\<lambda>(o1, conn). Inr (ok \<and> o1, conn)))"
  by pat_completeness auto
termination
  by (relation "measure (\<lambda>(dest, src, ok, conn). length src)") (auto simp: mtu_def)

declare gdb_memcpy_loop.simps [simp del]

definition gdb_memcpy_to_qemu :: "u32 \<Rightarrow> u8 list \<Rightarrow> gdb_conn \<Rightarrow> (bool \<times> gdb_conn) res" where
  "gdb_memcpy_to_qemu dest src conn = gdb_memcpy_loop dest src True conn"

text \<open>
  The union \<open>isa_gdb_regs\<close> has 77 words. \<open>gdb_getregs\<close> cuts the reply into pieces of eight digits
  without looking at its size: past its end and the null byte the buffer was never written.
\<close>

definition NR_GDB_REGS :: nat where "NR_GDB_REGS = 77"

fun getregs_loop :: "nat \<Rightarrow> u8 list \<Rightarrow> u32 list res" where
  "getregs_loop 0 p = Inr []"
| "getregs_loop (Suc n) p =
     (if length p \<le> 8 then Inl Uninit
      else bindE (getregs_loop n (drop 8 p)) (\<lambda>rs. Inr (ucast (gdb_decode_hex_str (take 8 p)) # rs)))"

definition gdb_getregs :: "gdb_conn \<Rightarrow> (u32 list \<times> gdb_conn) res" where
  "gdb_getregs conn =
     bindE (gdb_send (ascii ''g'') conn) (\<lambda>conn.
     bindE (gdb_recv conn) (\<lambda>(reply, conn).
     bindE (getregs_loop NR_GDB_REGS (reply @ [0])) (\<lambda>r. Inr (r, conn))))"

definition regs_bytes :: "u32 list \<Rightarrow> u8 list" where
  "regs_bytes r = concat (map (le_bytes 4) r)"

definition gdb_setregs :: "u32 list \<Rightarrow> gdb_conn \<Rightarrow> (bool \<times> gdb_conn) res" where
  "gdb_setregs r conn =
     bindE (gdb_send (takeWhile (\<lambda>x. x \<noteq> 0) (ascii ''G'' @ hex_bytes (regs_bytes r))) conn) (\<lambda>conn.
     bindE (gdb_recv conn) (\<lambda>(reply, conn). Inr (reply_is ''OK'' reply, conn)))"

definition gdb_si :: "gdb_conn \<Rightarrow> gdb_conn res" where
  "gdb_si conn =
     bindE (gdb_send (ascii ''vCont;s:1'') conn) (\<lambda>conn.
     bindE (gdb_recv conn) (\<lambda>(reply, conn). Inr conn))"

lemma ucast_ucast_u8_u16 [simp]: "ucast (ucast (b :: u8) :: u16) = b"
  by (rule bit_word_eqI) (auto simp: bit_simps)


section \<open>Hexadecimal round trips\<close>

lemma nibble_cases:
  assumes "(d :: u8) < 16"
  shows "d \<in> {0, 1, 2, 3, 4, 5, 6, 7, 8, 9, 10, 11, 12, 13, 14, 15}"
proof -
  have "unat d < 16" using assms by (simp add: word_less_nat_alt)
  then have "unat d \<in> {0, 1, 2, 3, 4, 5, 6, 7, 8, 9, 10, 11, 12, 13, 14, 15}"
    by (simp only: insert_iff empty_iff) arith
  then have "of_nat (unat d) \<in> {0, 1, 2, 3, 4, 5, 6, 7, 8, 9, 10, 11, 12, 13, 14, 15 :: u8}" by (elim insertE) simp_all
  then show ?thesis by simp
qed

lemma nibble_codec:
  assumes "d < 16"
  shows "c_isxdigit (hex_encode d)" "hex_nibble (hex_encode d) = d" "c_isxdigit (upper_hex d)" "hex_nibble (upper_hex d) = d"
    "hex_encode d \<notin> {0, 0x24, 0x23, 0x7d, 0x2a}"
proof -
  have d: "d \<in> {0, 1, 2, 3, 4, 5, 6, 7, 8, 9, 10, 11, 12, 13, 14, 15}" by (rule nibble_cases [OF assms])
  from d show "c_isxdigit (hex_encode d)"
    by (elim insertE) (simp_all add: c_isxdigit_def c_isdigit_def hex_encode_def)
  from d show "c_isxdigit (upper_hex d)"
    by (elim insertE) (simp_all add: c_isxdigit_def c_isdigit_def upper_hex_def)
  from d show "hex_nibble (hex_encode d) = d"
    by (elim insertE) (simp_all add: hex_nibble_def c_isdigit_def c_tolower_def hex_encode_def)
  from d show "hex_nibble (upper_hex d) = d"
    by (elim insertE) (simp_all add: hex_nibble_def c_isdigit_def c_tolower_def upper_hex_def)
  from d show "hex_encode d \<notin> {0, 0x24, 0x23, 0x7d, 0x2a}"
    by (elim insertE) (simp_all add: hex_encode_def)
qed

lemma byte_nibbles: "drop_bit 4 b < (16 :: u8)" "b AND 0xf < (16 :: u8)"
proof -
  have "unat b < 256" using unsigned_less [of b, where ?'a = nat] by simp
  then have "unat (drop_bit 4 b) < 16" by (simp only: unat_drop_bit_eq) (simp add: drop_bit_eq_div)
  then show "drop_bit 4 b < 16" by (simp add: word_less_nat_alt)
  show "b AND 0xf < 16" using unat_and_mask [of b 4] by (simp add: word_less_nat_alt mask_eq_exp_minus_1)
qed

lemma join_nibbles: "16 * ucast (drop_bit 4 b) + ucast (b AND 0xf :: u8) = (ucast b :: u16)"
proof -
  have "push_bit 4 (ucast (drop_bit 4 b)) AND ucast (b AND mask 4) = (0 :: u16)"
    by (rule bit_word_eqI) (auto simp: bit_simps)
  then have "push_bit 4 (ucast (drop_bit 4 b)) + ucast (b AND mask 4) = (push_bit 4 (ucast (drop_bit 4 b)) OR ucast (b AND mask 4) :: u16)"
    by (simp only: disjunctive_add_eq_or)
  also have "\<dots> = ucast b"
    by (rule bit_word_eqI) (auto simp: bit_simps dest: bit_imp_le_length)
  finally show ?thesis by (simp add: push_bit_eq_mult mult.commute mask_eq_exp_minus_1)
qed

lemma decode_hex_byte: "gdb_decode_hex (hex_encode (drop_bit 4 b)) (hex_encode (b AND 0xf)) = ucast b"
  "gdb_decode_hex (upper_hex (drop_bit 4 b)) (upper_hex (b AND 0xf)) = ucast b"
  by (simp_all add: gdb_decode_hex_def nibble_codec byte_nibbles join_nibbles)

section \<open>Packets\<close>

text \<open>Payload bytes that need no escape.\<close>

definition plain :: "u8 list \<Rightarrow> bool" where
  "plain cs \<longleftrightarrow> (\<forall>c\<in>set cs. c \<notin> {0x24, 0x23, 0x7d, 0x2a})"

lemma recv_plain_char:
  assumes "plain [c]" "length reply \<le> sz" "0 < sz"
  shows "\<exists>sz'. length reply + 1 \<le> sz' \<and> sz \<le> sz' \<and>
    recv_loop (c # inp) sz reply s esc = recv_loop inp sz' (reply @ [if esc then c XOR 0x20 else c]) (s + c) False"
proof -
  have "c \<noteq> 0x24" "c \<noteq> 0x23" "c \<noteq> 0x7d" "c \<noteq> 0x2a" using assms(1) by (auto simp: plain_def)
  then show ?thesis using assms(2,3)
    by (intro exI [of _ "if length reply = sz then 2 * sz else sz"])
      (simp add: recv_loop.simps(2) put_reply_def Let_def)
qed

lemma fold_checksum: "fold (\<lambda>c s. s + c) cs s = s + checksum cs"
proof (induction cs arbitrary: s)
  case (Cons c cs)
  have "checksum (c # cs) = c + checksum cs" using Cons.IH [of c] by (simp add: checksum_def)
  then show ?case using Cons.IH [of "s + c"] by simp
qed (simp add: checksum_def)

lemma checksum_simps: "checksum [] = 0" "checksum (c # cs) = c + checksum cs" "checksum (xs @ ys) = checksum xs + checksum ys"
  using fold_checksum [of cs c] fold_checksum [of ys "checksum xs"] by (simp_all add: checksum_def)

lemma recv_plain:
  "plain cs \<Longrightarrow> length reply \<le> sz \<Longrightarrow> 0 < sz \<Longrightarrow>
    \<exists>sz'. length reply + length cs \<le> sz' \<and> sz \<le> sz' \<and>
      recv_loop (cs @ inp) sz reply s False = recv_loop inp sz' (reply @ cs) (s + checksum cs) False"
proof (induction cs arbitrary: sz reply s)
  case (Cons c cs)
  have c: "plain [c]" "plain cs" using Cons.prems(1) by (auto simp: plain_def)
  obtain sz1 where s1: "length reply + 1 \<le> sz1" "sz \<le> sz1"
    "recv_loop (c # cs @ inp) sz reply s False = recv_loop (cs @ inp) sz1 (reply @ [c]) (s + c) False"
    using recv_plain_char [OF c(1) Cons.prems(2,3), of "cs @ inp" s False] by auto
  obtain sz2 where "length (reply @ [c]) + length cs \<le> sz2" "sz1 \<le> sz2"
    "recv_loop (cs @ inp) sz1 (reply @ [c]) (s + c) False = recv_loop inp sz2 ((reply @ [c]) @ cs) (s + c + checksum cs) False"
    using Cons.IH [OF c(2), of "reply @ [c]" sz1 "s + c"] s1 Cons.prems(3) by auto
  then show ?case using s1 by (intro exI [of _ sz2]) (simp add: checksum_simps ac_simps)
qed (auto simp: checksum_simps)

lemma recv_end:
  "length reply \<le> sz \<Longrightarrow> recv_loop (0x23 # m # l # inp) sz reply s esc = Inr \<lparr>pk_reply = reply, pk_sum_ok = (ucast s = gdb_decode_hex m l), pk_rest = inp\<rparr>"
  by (simp add: recv_loop.simps(2) fgetc8_def put_reply_def)

lemma recv_send_packet:
  assumes "plain cs"
  shows "recv_packet (send_packet cs @ inp) = Inr \<lparr>pk_reply = cs, pk_sum_ok = True, pk_rest = inp\<rparr>"
proof -
  let ?tl = "[0x23, upper_hex (drop_bit 4 (checksum cs)), upper_hex (checksum cs AND 0xf)] @ inp"
  obtain sz where "length cs \<le> sz" "recv_loop (cs @ ?tl) 4096 [] 0 False = recv_loop ?tl sz ([] @ cs) (0 + checksum cs) False"
    using recv_plain [OF assms, of "[]" 4096 ?tl 0] by auto
  then show ?thesis by (simp add: recv_packet_def send_packet_def Let_def recv_end decode_hex_byte)
qed

text \<open>The buffer is never overrun: a run adds at most 97 bytes, less than the buffer has.\<close>

lemma recv_loop_in_bounds: "length reply \<le> sz \<Longrightarrow> 97 \<le> sz \<Longrightarrow> recv_loop inp sz reply s esc \<noteq> Inl Out_of_bounds"
proof (induction inp sz reply s esc rule: recv_loop.induct)
  case (2 c inp sz reply s esc)
  have count: "unat (hd inp) - 29 \<le> 97" if "rle_count_ok inp"
    using that by (auto simp: rle_count_ok_def word_less_nat_alt split: list.splits)
  show ?case
    using 2 count by (auto simp: recv_loop.simps(2) Let_def case_prod_unfold put_reply_def bindE_eq_Inl split: if_splits)
qed (simp add: recv_loop.simps)

section \<open>Escapes and run lengths\<close>

text \<open>
  What a peer may send between \<open>$\<close> and \<open>#\<close>: bytes as they are, bytes behind an escape, and the number
  of times the last byte is repeated.
\<close>

datatype item = Lit u8 | Esc u8 | Run nat

fun enc_item :: "item \<Rightarrow> u8 list" where
  "enc_item (Lit c) = [c]"
| "enc_item (Esc c) = [0x7d, c XOR 0x20]"
| "enc_item (Run n) = [0x2a, of_nat (n + 29)]"

fun expand :: "u8 list \<Rightarrow> item list \<Rightarrow> u8 list" where
  "expand out [] = out"
| "expand out (Lit c # is) = expand (out @ [c]) is"
| "expand out (Esc c # is) = expand (out @ [c]) is"
| "expand out (Run n # is) = expand (out @ replicate n (last out)) is"

definition run_ok :: "nat \<Rightarrow> bool" where
  "run_ok n \<longleftrightarrow> n + 29 \<le> 126 \<and> n + 29 \<notin> {0x23, 0x24}"

fun items_ok :: "bool \<Rightarrow> item list \<Rightarrow> bool" where
  "items_ok ne [] = True"
| "items_ok ne (Lit c # is) = (plain [c] \<and> items_ok True is)"
| "items_ok ne (Esc c # is) = (plain [c XOR 0x20] \<and> items_ok True is)"
| "items_ok ne (Run n # is) = (ne \<and> run_ok n \<and> items_ok True is)"

definition encode_items :: "item list \<Rightarrow> u8 list" where
  "encode_items is = concat (map enc_item is)"

lemma u8_xor_twice: "(c XOR d) XOR d = (c :: u8)"
  by (rule bit_word_eqI) (auto simp: bit_simps)

lemma run_count: "run_ok n \<Longrightarrow> rle_count_ok (of_nat (n + 29) # inp) \<and> unat (of_nat (n + 29) :: u8) - 29 = n"
proof -
  assume n: "run_ok n"
  then have u: "unat (of_nat (n + 29) :: u8) = n + 29" by (simp add: run_ok_def unat_of_nat take_bit_nat_eq_self del: of_nat_add)
  then have "(of_nat (n + 29) :: u8) \<noteq> 0x23" "(of_nat (n + 29) :: u8) \<noteq> 0x24"
    using n by (auto simp: run_ok_def del: of_nat_add dest: arg_cong [of _ _ unat])
  then show ?thesis using u n by (simp add: rle_count_ok_def word_less_nat_alt run_ok_def del: of_nat_add)
qed

lemma recv_run:
  assumes "run_ok n" "reply \<noteq> []" "length reply \<le> sz" "97 \<le> sz"
  shows "\<exists>sz'. length reply + n \<le> sz' \<and> sz \<le> sz' \<and>
    recv_loop (0x2a # of_nat (n + 29) # inp) sz reply s esc =
      recv_loop inp sz' (reply @ replicate n (last reply)) (s + 0x2a + of_nat (n + 29)) esc"
proof -
  have "n \<le> 97" using assms(1) by (simp add: run_ok_def)
  then show ?thesis
    using run_count [OF assms(1), of inp] assms(2-4)
    by (intro exI [of _ "if length reply + n > sz then 2 * sz else sz"])
      (simp add: recv_loop.simps(2) put_reply_def Let_def del: of_nat_add)
qed

lemma recv_items:
  "items_ok (reply \<noteq> []) is \<Longrightarrow> length reply \<le> sz \<Longrightarrow> 97 \<le> sz \<Longrightarrow>
    \<exists>sz'. length (expand reply is) \<le> sz' \<and> recv_loop (encode_items is @ inp) sz reply s False =
      recv_loop inp sz' (expand reply is) (s + checksum (encode_items is)) False"
proof (induction "is" arbitrary: sz reply s)
  case Nil
  then show ?case by (auto simp: encode_items_def checksum_simps)
next
  case (Cons i "is")
  have rest: "\<exists>sz'. length (expand reply (i # is)) \<le> sz' \<and> recv_loop (enc_item i @ encode_items is @ inp) sz reply s False =
      recv_loop inp sz' (expand reply (i # is)) (s + checksum (enc_item i @ encode_items is)) False"
    if "recv_loop (enc_item i @ encode_items is @ inp) sz reply s False =
        recv_loop (encode_items is @ inp) sz1 out (s + checksum (enc_item i)) False"
      "items_ok (out \<noteq> []) is" "length out \<le> sz1" "97 \<le> sz1" "expand reply (i # is) = expand out is" for sz1 out
    using Cons.IH [OF that(2-4), of "s + checksum (enc_item i)"] that(1,5) by (simp add: checksum_simps ac_simps)
  show ?case
  proof (cases i)
    case (Lit c)
    obtain sz1 where "length reply + 1 \<le> sz1" "sz \<le> sz1"
      "recv_loop (c # encode_items is @ inp) sz reply s False = recv_loop (encode_items is @ inp) sz1 (reply @ [c]) (s + c) False"
      using recv_plain_char [of c reply sz "encode_items is @ inp" s False] Cons.prems Lit by auto
    then show ?thesis
      using rest [of sz1 "reply @ [c]"] Cons.prems Lit by (simp add: encode_items_def checksum_simps)
  next
    case (Esc c)
    obtain sz1 where "length reply + 1 \<le> sz1" "sz \<le> sz1"
      "recv_loop ((c XOR 0x20) # encode_items is @ inp) sz reply (s + 0x7d) True =
        recv_loop (encode_items is @ inp) sz1 (reply @ [c]) (s + 0x7d + (c XOR 0x20)) False"
      using u8_xor_twice [of c "0x20"] recv_plain_char [of "c XOR 0x20" reply sz "encode_items is @ inp" "s + 0x7d" True] Cons.prems Esc by auto
    then show ?thesis
      using rest [of sz1 "reply @ [c]"] Cons.prems Esc
      by (simp add: encode_items_def checksum_simps recv_loop.simps(2) add.assoc)
  next
    case (Run n)
    obtain sz1 where "length reply + n \<le> sz1" "sz \<le> sz1"
      "recv_loop (0x2a # of_nat (n + 29) # encode_items is @ inp) sz reply s False =
        recv_loop (encode_items is @ inp) sz1 (reply @ replicate n (last reply)) (s + 0x2a + of_nat (n + 29)) False"
      using recv_run [of n reply sz "encode_items is @ inp" s False] Cons.prems Run by auto
    then show ?thesis
      using rest [of sz1 "reply @ replicate n (last reply)"] Cons.prems Run
      by (simp add: encode_items_def checksum_simps add.assoc del: of_nat_add)
  qed
qed

text \<open>The packet around an encoded payload.\<close>

definition frame :: "u8 list \<Rightarrow> u8 \<Rightarrow> u8 list" where
  "frame body cs = [0x24] @ body @ [0x23, upper_hex (drop_bit 4 cs), upper_hex (cs AND 0xf)]"

lemma send_packet_frame: "send_packet cs = frame cs (checksum cs)"
  by (simp add: send_packet_def frame_def Let_def)

lemma recv_frame:
  assumes "items_ok False is"
  shows "recv_packet (frame (encode_items is) cs @ inp) =
    Inr \<lparr>pk_reply = expand [] is, pk_sum_ok = (cs = checksum (encode_items is)), pk_rest = inp\<rparr>"
proof -
  let ?tl = "[0x23, upper_hex (drop_bit 4 cs), upper_hex (cs AND 0xf)] @ inp"
  obtain sz where "length (expand [] is) \<le> sz" "recv_loop (encode_items is @ ?tl) 4096 [] 0 False = recv_loop ?tl sz (expand [] is) (0 + checksum (encode_items is)) False"
    using recv_items [of "[]" "is" 4096 ?tl 0] assms by auto
  moreover have "(ucast (checksum (encode_items is)) = (ucast cs :: u16)) = (cs = checksum (encode_items is))"
    by (metis (no_types, lifting) ucast_ucast_u8_u16)
  ultimately show ?thesis by (simp add: recv_packet_def frame_def recv_end decode_hex_byte)
qed

section \<open>Codecs\<close>

text \<open>
  A prefix codec: \<open>dec\<close> recovers a value that \<open>enc\<close> wrote and the bytes that follow it. Then a
  sequence of encoded values is decoded one after the other and the encoding is uniquely decodable.
\<close>

fun decode_many :: "('b \<Rightarrow> ('a \<times> 'b) option) \<Rightarrow> nat \<Rightarrow> 'b \<Rightarrow> ('a list \<times> 'b) option" where
  "decode_many dec 0 bs = Some ([], bs)"
| "decode_many dec (Suc n) bs =
     (case dec bs of None \<Rightarrow> None
      | Some (x, bs') \<Rightarrow> map_option (\<lambda>(xs, r). (x # xs, r)) (decode_many dec n bs'))"

locale prefix_codec =
  fixes valid :: "'a \<Rightarrow> bool"
    and enc :: "'a \<Rightarrow> u8 list"
    and dec :: "u8 list \<Rightarrow> ('a \<times> u8 list) option"
  assumes dec_enc: "valid x \<Longrightarrow> dec (enc x @ bs) = Some (x, bs)"
begin

lemma decode_concat:
  "\<forall>x\<in>set xs. valid x \<Longrightarrow> decode_many dec (length xs) (concat (map enc xs) @ bs) = Some (xs, bs)"
  by (induction xs) (simp_all add: dec_enc)

lemma prefix_free: "valid x \<Longrightarrow> valid y \<Longrightarrow> enc x @ bs = enc y @ bs' \<Longrightarrow> x = y \<and> bs = bs'"
  using dec_enc [of x bs] dec_enc [of y bs'] by (metis option.inject prod.inject)

lemma concat_inj:
  assumes "\<forall>x\<in>set xs. valid x" "\<forall>y\<in>set ys. valid y" "length xs = length ys"
    "concat (map enc xs) = concat (map enc ys)"
  shows "xs = ys"
  using decode_concat [OF assms(1), of "[]"] decode_concat [OF assms(2), of "[]"] assms(3,4) by simp

end

text \<open>Packets are a codec on plain payloads.\<close>

definition dec_packet :: "u8 list \<Rightarrow> (u8 list \<times> u8 list) option" where
  "dec_packet bs = (case recv_packet bs of Inl f \<Rightarrow> None | Inr p \<Rightarrow> if pk_sum_ok p then Some (pk_reply p, pk_rest p) else None)"

interpretation pk: prefix_codec plain send_packet dec_packet
  by unfold_locales (simp add: dec_packet_def recv_send_packet)

text \<open>The eight digits of a register.\<close>

definition enc_reg :: "u32 \<Rightarrow> u8 list" where
  "enc_reg w = hex_bytes (le_bytes 4 w)"

definition dec_reg :: "u8 list \<Rightarrow> (u32 \<times> u8 list) option" where
  "dec_reg p = (if length p < 8 then None else Some (ucast (gdb_decode_hex_str (take 8 p)), drop 8 p))"

lemma hex_bytes_simps: "hex_bytes [] = []" "hex_bytes (b # bs) = hex_byte b @ hex_bytes bs"
  "hex_bytes (xs @ ys) = hex_bytes xs @ hex_bytes ys" "length (hex_bytes bs) = 2 * length bs"
  by (simp_all add: hex_bytes_def) (induction bs; simp add: hex_byte_def)

lemma ucast_u8_u16_u64 [simp]: "ucast (ucast (b :: u8) :: u16) = (ucast b :: u64)"
  by (rule bit_word_eqI) (auto simp: bit_simps dest: bit_imp_le_length)

lemma decode_hex_bytes: "gdb_decode_hex_loop (hex_bytes bs) v w = v + w * le_word bs"
proof (induction bs arbitrary: v w)
  case (Cons b bs)
  have "push_bit 8 (le_word bs) AND ucast b = (0 :: u64)" by (rule bit_word_eqI) (auto simp: bit_simps dest: bit_imp_le_length)
  then have "(le_word (b # bs) :: u64) = push_bit 8 (le_word bs) + ucast b"
    by (simp add: disjunctive_add_eq_or or.commute)
  then have "v + w * ucast (ucast b :: u16) + w * (16 * 16) * le_word bs = v + w * (le_word (b # bs) :: u64)"
    by (simp add: push_bit_eq_mult ring_distribs ac_simps)
  moreover have "gdb_decode_hex_loop (hex_bytes (b # bs)) v w =
      gdb_decode_hex_loop (hex_bytes bs) (v + w * ucast (ucast b :: u16)) (w * (16 * 16))"
    by (simp add: hex_bytes_simps hex_byte_def nibble_codec byte_nibbles decode_hex_byte del: mult_numeral_1)
  ultimately show ?case using Cons.IH by metis
qed (simp add: hex_bytes_simps)

lemma dec_reg_simps:
  "length p < 8 \<Longrightarrow> dec_reg p = None"
  "length a = 8 \<Longrightarrow> dec_reg (a @ b) = Some (ucast (gdb_decode_hex_str a), b)"
  by (simp_all add: dec_reg_def)

lemma dec_reg_enc: "dec_reg (enc_reg w @ bs) = Some (w, bs)"
proof -
  have len: "length (enc_reg w) = 8" by (simp add: enc_reg_def hex_bytes_simps)
  have "gdb_decode_hex_str (enc_reg w) = le_word (le_bytes 4 w)"
    by (simp add: gdb_decode_hex_str_def enc_reg_def decode_hex_bytes)
  also have "ucast (\<dots> :: u64) = (le_word (le_bytes 4 w) :: u32)"
    by (rule bit_word_eqI) (auto simp: bit_simps bit_le_word)
  finally show ?thesis using len by (simp add: dec_reg_def le_word_le_bytes_full)
qed

interpretation rg: prefix_codec "\<lambda>_. True" enc_reg dec_reg
  by unfold_locales (simp add: dec_reg_enc)

lemma getregs_loop_dec: "getregs_loop n (p @ [z]) = (case decode_many dec_reg n p of None \<Rightarrow> Inl Uninit | Some (rs, r) \<Rightarrow> Inr rs)"
proof (induction n arbitrary: p)
  case (Suc n)
  have "length p < 8 \<or> (\<exists>a b. p = a @ b \<and> length a = 8)" by (metis append_take_drop_id length_take min.absorb2 not_le)
  then show ?case
  proof (elim disjE exE conjE)
    fix a b assume p: "p = a @ b" "length a = 8"
    then show ?thesis using Suc [of b] by (cases "decode_many dec_reg n b") (auto simp: dec_reg_simps)
  qed (simp add: dec_reg_simps)
qed simp

lemma regs_bytes_enc: "hex_bytes (regs_bytes rs) = concat (map enc_reg rs)"
  by (induction rs) (simp_all add: regs_bytes_def enc_reg_def hex_bytes_simps)

lemma getregs_encoded: "length rs = NR_GDB_REGS \<Longrightarrow> getregs_loop NR_GDB_REGS (hex_bytes (regs_bytes rs) @ [0]) = Inr rs"
  using rg.decode_concat [of rs "[]"] by (simp add: getregs_loop_dec regs_bytes_enc)

lemma decode_many_short: "length p < 8 * n \<Longrightarrow> decode_many dec_reg n p = None"
proof (induction n arbitrary: p)
  case (Suc n)
  show ?case
  proof (cases "length p < 8")
    case False
    then have "dec_reg p = Some (ucast (gdb_decode_hex_str (take 8 p)), drop 8 p)" by (simp add: dec_reg_def)
    then show ?thesis using Suc.IH [of "drop 8 p"] Suc.prems False by simp
  qed (simp add: dec_reg_simps)
qed simp

section \<open>Exchanges\<close>

lemma plain_hex_bytes: "plain (hex_bytes bs)" "0 \<notin> set (hex_bytes bs)"
  using nibble_codec(5) [OF byte_nibbles(1)] nibble_codec(5) [OF byte_nibbles(2)]
  by (auto simp: plain_def hex_bytes_def hex_byte_def)

text \<open>A command the peer acknowledges and answers with a plain payload.\<close>

lemma gdb_exchange:
  assumes "conn_ack conn" "conn_in conn = 0x2b # send_packet reply @ rest" "plain reply"
  shows "bindE (gdb_send cmd conn) gdb_recv =
    Inr (reply, conn\<lparr>conn_in := rest, conn_out := conn_out conn @ send_packet cmd @ [0x2b]\<rparr>)"
  using assms by (simp add: gdb_send_def Let_def gdb_recv.simps recv_send_packet)

lemma gdb_exchange_bind:
  assumes "conn_ack conn" "conn_in conn = 0x2b # send_packet reply @ rest" "plain reply"
  shows "bindE (gdb_send cmd conn) (\<lambda>conn. bindE (gdb_recv conn) f) =
    f (reply, conn\<lparr>conn_in := rest, conn_out := conn_out conn @ send_packet cmd @ [0x2b]\<rparr>)"
  using gdb_exchange [OF assms, of cmd] by (simp add: bindE_assoc [symmetric])

lemma ascii_OK: "reply_is ''OK'' (ascii ''OK'')" "plain (ascii ''OK'')"
  by (simp_all add: reply_is_def ascii_def plain_def)

text \<open>The pieces of a block transfer and their addresses.\<close>

function chunks :: "u32 \<Rightarrow> u8 list \<Rightarrow> (u32 \<times> u8 list) list" where
  "chunks dest src = (if length src > mtu then (dest, take mtu src) # chunks (dest + of_nat mtu) (drop mtu src) else [(dest, src)])"
  by pat_completeness auto
termination by (relation "measure (\<lambda>(dest, src). length src)") (auto simp: mtu_def)

declare chunks.simps [simp del]

lemma concat_chunks: "concat (map snd (chunks dest src)) = src"
proof (induction dest src rule: chunks.induct)
  case (1 dest src)
  then show ?case by (simp add: chunks.simps [of dest src])
qed

lemma chunks_bounded: "\<forall>c\<in>set (chunks dest src). length (snd c) \<le> mtu"
proof (induction dest src rule: chunks.induct)
  case (1 dest src)
  then show ?case by (simp add: chunks.simps [of dest src])
qed

lemma chunks_addr: "i < length (chunks dest src) \<Longrightarrow> fst (chunks dest src ! i) = dest + of_nat (i * mtu)"
proof (induction dest src arbitrary: i rule: chunks.induct)
  case (1 dest src)
  show ?case
  proof (cases i)
    case 0
    then show ?thesis by (simp add: chunks.simps [of dest src])
  next
    case (Suc j)
    then have len: "length src > mtu" using 1(2) by (auto simp: chunks.simps [of dest src] split: if_splits)
    then show ?thesis using 1 Suc by (simp add: chunks.simps [of dest src] algebra_simps)
  qed
qed

lemma hex_digits_clean: "0 \<notin> set (hex_digits n)"
proof (induction n rule: hex_digits.induct)
  case (1 n)
  have "hex_encode (of_nat (n mod 16)) \<noteq> 0" for n
    using nibble_codec(5) [of "of_nat (n mod 16)"] by (simp add: word_less_nat_alt unat_of_nat)
  from this [of n] this [of "n mod 16"] show ?case using 1 by (auto simp: hex_digits.simps [of n] split: if_splits)
qed

lemma M_command_clean: "takeWhile (\<lambda>x. x \<noteq> 0) (gdb_M_command dest src) = gdb_M_command dest src"
  using hex_digits_clean plain_hex_bytes(2)
  by (auto simp: gdb_M_command_def ascii_def takeWhile_eq_all_conv)

definition memcpy_dialog :: "(u32 \<times> u8 list) list \<Rightarrow> u8 list" where
  "memcpy_dialog cs = concat (map (\<lambda>(a, bs). send_packet (gdb_M_command a bs) @ [0x2b]) cs)"

definition ok_replies :: "nat \<Rightarrow> u8 list" where
  "ok_replies n = concat (replicate n (0x2b # send_packet (ascii ''OK'')))"

lemma memcpy_small_ok:
  assumes "conn_ack conn" "conn_in conn = ok_replies 1 @ rest"
  shows "gdb_memcpy_to_qemu_small dest src conn =
    Inr (True, conn\<lparr>conn_in := rest, conn_out := conn_out conn @ memcpy_dialog [(dest, src)]\<rparr>)"
proof -
  have "conn_in conn = 0x2b # send_packet (ascii ''OK'') @ rest" using assms(2) by (simp add: ok_replies_def)
  note ex = gdb_exchange_bind [OF assms(1) this ascii_OK(2)]
  show ?thesis
    by (simp only: gdb_memcpy_to_qemu_small_def M_command_clean ex) (simp add: ascii_OK memcpy_dialog_def)
qed

lemma memcpy_loop_ok:
  "conn_ack conn \<Longrightarrow> conn_in conn = ok_replies (length (chunks dest src)) @ rest \<Longrightarrow>
   gdb_memcpy_loop dest src ok conn =
     Inr (ok, conn\<lparr>conn_in := rest, conn_out := conn_out conn @ memcpy_dialog (chunks dest src)\<rparr>)"
proof (induction dest src ok conn rule: gdb_memcpy_loop.induct)
  case (1 dest src ok conn)
  show ?case
  proof (cases "length src > mtu")
    case True
    let ?r = "ok_replies (length (chunks (dest + of_nat mtu) (drop mtu src))) @ rest"
    let ?c = "conn\<lparr>conn_in := ?r, conn_out := conn_out conn @ memcpy_dialog [(dest, take mtu src)]\<rparr>"
    have "conn_in conn = ok_replies 1 @ ?r" using 1(3) True by (simp add: chunks.simps [of dest src] ok_replies_def)
    then have s: "gdb_memcpy_to_qemu_small dest (take mtu src) conn = Inr (True, ?c)"
      using memcpy_small_ok [OF 1(2)] by simp
    have "gdb_memcpy_loop (dest + of_nat mtu) (drop mtu src) (ok \<and> True) ?c =
        Inr (ok \<and> True, ?c\<lparr>conn_in := rest, conn_out := conn_out ?c @ memcpy_dialog (chunks (dest + of_nat mtu) (drop mtu src))\<rparr>)"
      using 1(1) [OF True s refl] 1(2) by simp
    then show ?thesis
      using True s by (simp add: gdb_memcpy_loop.simps [of dest src] chunks.simps [of dest src] memcpy_dialog_def)
  next
    case False
    then show ?thesis
      using memcpy_small_ok [OF 1(2), of rest dest src] 1(3) by (simp add: gdb_memcpy_loop.simps [of dest src] chunks.simps [of dest src])
  qed
qed

section \<open>Properties of the protocol\<close>

lemma recv_packet_junk: "0x24 \<notin> set junk \<Longrightarrow> recv_packet (junk @ frame body cs @ inp) = recv_packet (frame body cs @ inp)"
proof -
  assume "0x24 \<notin> set junk"
  then have "dropWhile (\<lambda>c. c \<noteq> 0x24) (junk @ frame body cs @ inp) = dropWhile (\<lambda>c. c \<noteq> 0x24) (frame body cs @ inp)"
    by (intro dropWhile_append2) auto
  then show ?thesis by (simp add: recv_packet_def)
qed

text \<open>
  C12. The receiver decodes what the protocol allows a peer to send: whatever precedes the start of the
  packet is skipped, escaped bytes and run lengths are expanded, the checksum is accepted exactly if
  it is the sum of the bytes on the wire, and the bytes after the packet are left in the stream.
\<close>

theorem recv_packet_decodes:
  assumes "items_ok False is" "0x24 \<notin> set junk"
  shows "recv_packet (junk @ frame (encode_items is) cs @ inp) =
    Inr \<lparr>pk_reply = expand [] is, pk_sum_ok = (cs = checksum (encode_items is)), pk_rest = inp\<rparr>"
  using recv_packet_junk [OF assms(2), of "encode_items is" cs inp] recv_frame [OF assms(1), of cs inp] by simp

theorem recv_packet_decodes_witness:
  "recv_packet ([0x2b] @ frame (encode_items [Lit 0x30, Run 3, Esc 0x7d]) 0x54 @ [1, 2]) =
     Inr \<lparr>pk_reply = [0x30, 0x30, 0x30, 0x30, 0x7d], pk_sum_ok = True, pk_rest = [1, 2]\<rparr>"
proof -
  have "items_ok False [Lit 0x30, Run 3, Esc 0x7d]" "0x24 \<notin> set [0x2b :: u8]"
    by (simp_all add: plain_def run_ok_def)
  moreover have "replicate 3 x = [x, x, x]" for x :: u8 by (simp add: numeral_3_eq_3)
  ultimately show ?thesis using recv_packet_decodes [of "[Lit 0x30, Run 3, Esc 0x7d]" "[0x2b]" "0x54" "[1, 2]"]
    by (simp add: encode_items_def checksum_def)
qed

text \<open>
  C13. A command the sender wrote, if it needs no escapes, is received unchanged with a right checksum.
\<close>

theorem packet_roundtrip:
  assumes "plain cs"
  shows "recv_packet (send_packet cs @ inp) = Inr \<lparr>pk_reply = cs, pk_sum_ok = True, pk_rest = inp\<rparr>"
  by (rule recv_send_packet [OF assms])

theorem packet_roundtrip_witness:
  "recv_packet (send_packet (ascii ''vCont;s:1'') @ [7]) = Inr \<lparr>pk_reply = ascii ''vCont;s:1'', pk_sum_ok = True, pk_rest = [7]\<rparr>"
  by (rule packet_roundtrip) (simp add: plain_def ascii_def)

text \<open>
  C14. No input of the peer makes the receiver write outside its heap buffer: neither a byte of the
  payload, nor a repeated one, nor the null byte at the end of the packet, which needs the buffer to grow
  when the payload has filled it.
\<close>

theorem recv_packet_in_bounds: "recv_packet inp \<noteq> Inl Out_of_bounds"
  unfolding recv_packet_def by (rule recv_loop_in_bounds) simp_all

text \<open>
  C15. With acknowledgements on, every packet with a wrong checksum is answered with \<open>-\<close>, and the first
  packet with the right one is answered with \<open>+\<close> and returned.
\<close>

theorem gdb_recv_retries:
  assumes "conn_ack conn" "items_ok False good"
    and "\<forall>(is, cs)\<in>set bads. items_ok False is \<and> cs \<noteq> checksum (encode_items is)"
    and "conn_in conn = concat (map (\<lambda>(is, cs). frame (encode_items is) cs) bads) @
      frame (encode_items good) (checksum (encode_items good)) @ inp"
  shows "gdb_recv conn = Inr (expand [] good,
    conn\<lparr>conn_in := inp, conn_out := conn_out conn @ replicate (length bads) 0x2d @ [0x2b]\<rparr>)"
  using assms
proof (induction bads arbitrary: conn)
  case Nil
  then show ?case by (simp add: gdb_recv.simps [of conn] recv_frame)
next
  case (Cons b bads)
  obtain bi cs where b: "b = (bi, cs)" by (cases b)
  let ?inp = "concat (map (\<lambda>(is, cs). frame (encode_items is) cs) bads) @ frame (encode_items good) (checksum (encode_items good)) @ inp"
  have "recv_packet (conn_in conn) = Inr \<lparr>pk_reply = expand [] bi, pk_sum_ok = False, pk_rest = ?inp\<rparr>"
    using Cons.prems(3,4) recv_frame [of bi cs ?inp] b by simp
  then have "gdb_recv conn = gdb_recv (conn\<lparr>conn_in := ?inp, conn_out := conn_out conn @ [0x2d]\<rparr>)"
    using Cons.prems(1) by (simp add: gdb_recv.simps [of conn])
  also have "\<dots> = Inr (expand [] good, conn\<lparr>conn_in := inp, conn_out := (conn_out conn @ [0x2d]) @ replicate (length bads) 0x2d @ [0x2b]\<rparr>)"
    using Cons.IH [of "conn\<lparr>conn_in := ?inp, conn_out := conn_out conn @ [0x2d]\<rparr>"] Cons.prems(1-3) by simp
  finally show ?case by simp
qed

theorem gdb_recv_retries_witness:
  "\<exists>conn. gdb_recv (gdb_begin (frame [0x4f] 0 @ frame [0x4f] 0x4f @ [1])) = Inr ([0x4f], conn) \<and> conn_out conn = [0x2b, 0x2d, 0x2b]"
  using gdb_recv_retries [of "gdb_begin (frame [0x4f] 0 @ frame [0x4f] 0x4f @ [1])" "[Lit 0x4f]" "[([Lit 0x4f], 0)]" "[1]"]
  by (simp add: gdb_begin_def encode_items_def checksum_def plain_def)

text \<open>
  A block copied to the reference arrives whole: against a peer that accepts every command the
  copy succeeds, the commands sent are the \<open>M\<close> commands of consecutive pieces of at most 1500 bytes at
  consecutive addresses, and the pieces together are the block.
\<close>

theorem gdb_memcpy_transfers:
  assumes "conn_ack conn" "conn_in conn = ok_replies (length (chunks dest src)) @ inp"
  shows "gdb_memcpy_to_qemu dest src conn =
      Inr (True, conn\<lparr>conn_in := inp, conn_out := conn_out conn @ memcpy_dialog (chunks dest src)\<rparr>) \<and>
    concat (map snd (chunks dest src)) = src \<and> (\<forall>c\<in>set (chunks dest src). length (snd c) \<le> 1500) \<and>
    map fst (chunks dest src) = map (\<lambda>i. dest + of_nat (i * 1500)) [0..<length (chunks dest src)]"
proof -
  have "map fst (chunks dest src) = map (\<lambda>i. dest + of_nat (i * 1500)) [0..<length (chunks dest src)]"
    by (rule nth_equalityI) (simp_all add: chunks_addr mtu_def)
  then show ?thesis
    using memcpy_loop_ok [OF assms, of True] concat_chunks chunks_bounded by (simp add: gdb_memcpy_to_qemu_def mtu_def)
qed

theorem gdb_memcpy_transfers_witness:
  "\<exists>conn. gdb_memcpy_to_qemu 0x7c00 [0xfa, 0x31] (gdb_begin (ok_replies 1)) = Inr (True, conn) \<and>
     conn_out conn = 0x2b # send_packet (ascii ''M0x7c00,2:fa31'') @ [0x2b]"
proof -
  have c: "chunks 0x7c00 [0xfa, 0x31] = [(0x7c00, [0xfa, 0x31])]" by (simp add: chunks.simps mtu_def)
  have "gdb_M_command 0x7c00 [0xfa, 0x31] = ascii ''M0x7c00,2:fa31''"
    by (simp add: gdb_M_command_def ascii_def hex_digits.simps hex_bytes_def hex_byte_def hex_encode_def)
  then show ?thesis
    using gdb_memcpy_transfers [of "gdb_begin (ok_replies 1)" "0x7c00" "[0xfa, 0x31]" "[]"] c
    by (simp add: gdb_begin_def memcpy_dialog_def)
qed

text \<open>
  Registers survive the wire: when the peer answers the request with the hexadecimal dump the
  client itself would send, the client reads back the same 77 words.
\<close>

theorem gdb_regs_roundtrip:
  assumes "conn_ack conn" "length rs = 77" "conn_in conn = 0x2b # send_packet (hex_bytes (regs_bytes rs)) @ inp"
  shows "gdb_getregs conn = Inr (rs, conn\<lparr>conn_in := inp, conn_out := conn_out conn @ send_packet (ascii ''g'') @ [0x2b]\<rparr>)"
proof -
  note ex = gdb_exchange_bind [OF assms(1,3) plain_hex_bytes(1)]
  show ?thesis using getregs_encoded [of rs] assms(2) by (simp add: gdb_getregs_def ex NR_GDB_REGS_def)
qed

theorem gdb_regs_roundtrip_witness:
  "\<exists>conn. gdb_getregs (gdb_begin (0x2b # send_packet (hex_bytes (regs_bytes (replicate 77 0xdeadbeef))) @ [])) =
     Inr (replicate 77 0xdeadbeef, conn)"
  using gdb_regs_roundtrip [of "gdb_begin (0x2b # send_packet (hex_bytes (regs_bytes (replicate 77 0xdeadbeef))) @ [])"
      "replicate 77 0xdeadbeef" "[]"] by (simp add: gdb_begin_def)

text \<open>
  A reply with fewer than 616 digits, such as the 33 registers of a RISC-V target, makes the client
  read bytes of its buffer that were never written.
\<close>

theorem gdb_getregs_short_reply:
  assumes "conn_ack conn" "plain reply" "length reply < 616" "conn_in conn = 0x2b # send_packet reply @ inp"
  shows "gdb_getregs conn = Inl Uninit"
proof -
  note ex = gdb_exchange_bind [OF assms(1,4,2)]
  have "decode_many dec_reg NR_GDB_REGS reply = None" using assms(3) by (intro decode_many_short) (simp add: NR_GDB_REGS_def)
  then show ?thesis by (simp add: gdb_getregs_def ex getregs_loop_dec)
qed

theorem gdb_getregs_short_reply_witness:
  "gdb_getregs (gdb_begin (0x2b # send_packet (hex_bytes (regs_bytes (replicate 33 0))) @ [])) = Inl Uninit"
  by (rule gdb_getregs_short_reply [where inp = "[]"])
    (simp_all add: gdb_begin_def plain_hex_bytes hex_bytes_simps regs_bytes_def length_concat sum_list_replicate)

end
