(* ===== verification/Difftest.thy ===== *)
theory Difftest
  imports Gdb X86_Exec
begin

text \<open>
  Differential testing. The reference side is \<open>tools/qemu-diff/src/diff-test.c\<close> and
  \<open>isa/x86/init.c\<close>, which drive QEMU through the GDB client; the other side is
  \<open>monitor/difftest/dut.c\<close>, which compares NEMU with a reference after every instruction. The
  reference functions NEMU loads at run time are the arguments \<open>ref_ops\<close> of its definitions. The
  process set-up of \<open>difftest_init\<close> (fork, exec, signals) and the \<open>dlopen\<close> calls are outside.
\<close>

section \<open>Reference side (diff-test.c, isa/x86/init.c)\<close>

definition DIFFTEST_REG_SIZE :: nat where "DIFFTEST_REG_SIZE = 4 * 9"

definition difftest_memcpy_from_dut :: "u32 \<Rightarrow> u8 list \<Rightarrow> gdb_conn \<Rightarrow> gdb_conn res" where
  "difftest_memcpy_from_dut daddr src conn =
     bindE (gdb_memcpy_to_qemu daddr src conn) (\<lambda>(ok, conn).
     bindE (assertE ok) (\<lambda>_. Inr conn))"

text \<open>\<open>memcpy\<close> of the first nine words: the eight registers and \<open>eip\<close>, the layout of \<open>x86_CPU_state\<close>.\<close>

definition difftest_getregs :: "gdb_conn \<Rightarrow> (u32 list \<times> gdb_conn) res" where
  "difftest_getregs conn =
     bindE (gdb_getregs conn) (\<lambda>(qemu_r, conn). Inr (take (DIFFTEST_REG_SIZE div 4) qemu_r, conn))"

definition difftest_setregs :: "u32 list \<Rightarrow> gdb_conn \<Rightarrow> gdb_conn res" where
  "difftest_setregs r conn =
     bindE (gdb_getregs conn) (\<lambda>(qemu_r, conn).
     bindE (gdb_setregs (take (DIFFTEST_REG_SIZE div 4) r @ drop (DIFFTEST_REG_SIZE div 4) qemu_r) conn) (\<lambda>(ok, conn).
       Inr conn))"

fun difftest_exec_n :: "nat \<Rightarrow> gdb_conn \<Rightarrow> gdb_conn res" where
  "difftest_exec_n 0 conn = Inr conn"
| "difftest_exec_n (Suc n) conn = bindE (gdb_si conn) (difftest_exec_n n)"

definition difftest_exec :: "u64 \<Rightarrow> gdb_conn \<Rightarrow> gdb_conn res" where
  "difftest_exec n = difftest_exec_n (unat n)"

definition x86_mbr :: "u8 list" where
  "x86_mbr =
    [0xfa, 0x31, 0xc0, 0x8e, 0xd8, 0x8e, 0xc0, 0x8e, 0xd0, 0x0f, 0x01, 0x16, 0x44, 0x7c,
     0x0f, 0x20, 0xc0, 0x66, 0x83, 0xc8, 0x01, 0x0f, 0x22, 0xc0, 0xea, 0x1d, 0x7c, 0x08, 0x00,
     0x66, 0xb8, 0x10, 0x00, 0x8e, 0xd8, 0x8e, 0xc0, 0x8e, 0xd0, 0xeb, 0xfe, 0x8d, 0x76, 0x00,
     0x00, 0x00, 0x00, 0x00, 0x00, 0x00, 0x00, 0x00,
     0xff, 0xff, 0x00, 0x00, 0x00, 0x9a, 0xcf, 0x00,
     0xff, 0xff, 0x00, 0x00, 0x00, 0x92, 0xcf, 0x00,
     0x17, 0x00, 0x2c, 0x7c, 0x00, 0x00]"

text \<open>In \<open>isa_gdb_regs\<close> of x86 \<open>eip\<close> is word 8 and \<open>cs\<close> word 10.\<close>

definition x86_ref_init_isa :: "gdb_conn \<Rightarrow> gdb_conn res" where
  "x86_ref_init_isa conn =
     bindE (gdb_memcpy_to_qemu 0x7c00 x86_mbr conn) (\<lambda>(ok, conn).
     bindE (assertE ok) (\<lambda>_.
     bindE (gdb_getregs conn) (\<lambda>(r, conn).
     bindE (gdb_setregs (r[8 := 0x7c00, 10 := 0]) conn) (\<lambda>(ok, conn).
     bindE (assertE ok) (\<lambda>_. difftest_exec 20 conn)))))"

text \<open>On riscv32 the program opens the physical memory to supervisor mode; \<open>pc\<close> is word 32.\<close>

definition rv32_initcode :: "u32 list" where
  "rv32_initcode =
    [0xfff00513, 0x01f00593, 0x30251073,
     0x00000697, 0x01468693, 0x30569073, 0x3b051073, 0x3a059073,
     0x000c1637, 0x80060613, 0x30061073,
     0x00000697, 0x01068693, 0x34169073,
     0x30200073,
     0x0000006f, 0x0000006f, 0x0000006f, 0x0000006f]"

definition rv32_ref_init_isa :: "gdb_conn \<Rightarrow> gdb_conn res" where
  "rv32_ref_init_isa conn =
     bindE (gdb_memcpy_to_qemu 0x80000000 (concat (map (le_bytes 4) rv32_initcode)) conn) (\<lambda>(ok, conn).
     bindE (assertE ok) (\<lambda>_.
     bindE (gdb_getregs conn) (\<lambda>(r, conn).
     bindE (gdb_setregs (r[32 := 0x80000000]) conn) (\<lambda>(ok, conn).
     bindE (assertE ok) (\<lambda>_. difftest_exec 20 conn)))))"

definition mips32_ref_init_isa :: "gdb_conn \<Rightarrow> gdb_conn res" where
  "mips32_ref_init_isa conn = Inr conn"

section \<open>NEMU's side (dut.c)\<close>

text \<open>The functions of the reference; each runs on the reference's state.\<close>

record 'r ref_ops =
  ref_memcpy_from_dut :: "u32 \<Rightarrow> u8 list \<Rightarrow> 'r \<Rightarrow> 'r"
  ref_getregs :: "'r \<Rightarrow> x86_CPU_state \<times> 'r"
  ref_setregs :: "x86_CPU_state \<Rightarrow> 'r \<Rightarrow> 'r"
  ref_exec :: "u64 \<Rightarrow> 'r \<Rightarrow> 'r"

record 'r dut =
  is_skip_ref :: bool
  skip_dut_nr_instr :: int
  ref_state :: 'r
  dut_mach :: "u32 machine"

definition difftest_skip_ref :: "'r dut \<Rightarrow> 'r dut" where
  "difftest_skip_ref d = d\<lparr>is_skip_ref := True, skip_dut_nr_instr := 0\<rparr>"

definition difftest_skip_dut :: "'r ref_ops \<Rightarrow> int \<Rightarrow> int \<Rightarrow> 'r dut \<Rightarrow> 'r dut" where
  "difftest_skip_dut ops nr_ref nr_dut d =
     d\<lparr>skip_dut_nr_instr := skip_dut_nr_instr d + nr_dut,
       ref_state := (ref_exec ops 1 ^^ nat nr_ref) (ref_state d)\<rparr>"

text \<open>After the \<open>dlsym\<close> calls, \<open>init_difftest\<close> copies the image and the registers to the reference.\<close>

definition init_difftest :: "'r ref_ops \<Rightarrow> nat \<Rightarrow> 'r dut \<Rightarrow> 'r dut res" where
  "init_difftest ops img_size d =
     bindE (load_bytes PMEM_SIZE (nat (guest_to_host x86_IMAGE_START)) img_size (pmem (mbus (dut_mach d)))) (\<lambda>image.
       Inr (d\<lparr>ref_state := ref_setregs ops (cpu (dut_mach d))
                (ref_memcpy_from_dut ops (x86_IMAGE_START + x86_PMEM_BASE) image (ref_state d))\<rparr>))"

text \<open>\<open>isa_difftest_checkregs\<close> of x86 is a stub that compares nothing and reports a difference.\<close>

definition isa_difftest_checkregs :: "x86_CPU_state \<Rightarrow> u32 \<Rightarrow> x86_CPU_state \<Rightarrow> bool" where
  "isa_difftest_checkregs ref_r p c = False"

definition checkregs :: "x86_CPU_state \<Rightarrow> u32 \<Rightarrow> 'r dut \<Rightarrow> 'r dut" where
  "checkregs ref p d =
     (if \<not> isa_difftest_checkregs ref p (cpu (dut_mach d)) then
        d\<lparr>dut_mach := (dut_mach d)\<lparr>nemu_state := (nemu_state (dut_mach d))\<lparr>nstate := NEMU_ABORT, halt_pc := p\<rparr>\<rparr>\<rparr>
      else d)"

definition difftest_step :: "'r ref_ops \<Rightarrow> u32 \<Rightarrow> u32 \<Rightarrow> 'r dut \<Rightarrow> 'r dut res" where
  "difftest_step ops this_pc next_pc d =
     (if skip_dut_nr_instr d > 0 then
        let (ref_r, s) = ref_getregs ops (ref_state d); d = d\<lparr>ref_state := s\<rparr> in
        if pc ref_r = next_pc then Inr ((checkregs ref_r next_pc d)\<lparr>skip_dut_nr_instr := 0\<rparr>)
        else
          let d = d\<lparr>skip_dut_nr_instr := skip_dut_nr_instr d - 1\<rparr> in
          if skip_dut_nr_instr d = 0 then Inl (Panic ''can not catch up with ref.pc'') else Inr d
      else if is_skip_ref d then
        Inr (d\<lparr>ref_state := ref_setregs ops (cpu (dut_mach d)) (ref_state d), is_skip_ref := False\<rparr>)
      else
        let s = ref_exec ops 1 (ref_state d); (ref_r, s) = ref_getregs ops s
        in Inr (checkregs ref_r this_pc (d\<lparr>ref_state := s\<rparr>)))"

section \<open>The reference side keeps what it does not set\<close>

text \<open>A peer that answers a register request with \<open>q\<close> and accepts the following write.\<close>

definition setregs_replies :: "u32 list \<Rightarrow> u8 list" where
  "setregs_replies q = 0x2b # send_packet (hex_bytes (regs_bytes q)) @ 0x2b # send_packet (ascii ''OK'')"

lemma gdb_setregs_ok:
  assumes "conn_ack conn" "conn_in conn = 0x2b # send_packet (ascii ''OK'') @ inp"
  shows "gdb_setregs r conn = Inr (True, conn\<lparr>conn_in := inp,
    conn_out := conn_out conn @ send_packet (ascii ''G'' @ hex_bytes (regs_bytes r)) @ [0x2b]\<rparr>)"
proof -
  have "takeWhile (\<lambda>x. x \<noteq> 0) (ascii ''G'' @ hex_bytes (regs_bytes r)) = ascii ''G'' @ hex_bytes (regs_bytes r)"
    using plain_hex_bytes(2) [of "regs_bytes r"] by (auto simp: ascii_def takeWhile_eq_all_conv)
  then show ?thesis
    using ascii_OK(1) by (simp only: gdb_setregs_def gdb_exchange_bind [OF assms ascii_OK(2)] prod.case)
qed

lemma gdb_getregs_ok:
  assumes "conn_ack conn" "length q = 77" "conn_in conn = 0x2b # send_packet (hex_bytes (regs_bytes q)) @ inp"
  shows "gdb_getregs conn = Inr (q, conn\<lparr>conn_in := inp, conn_out := conn_out conn @ send_packet (ascii ''g'') @ [0x2b]\<rparr>)"
  using getregs_encoded [of q] assms(2)
  by (simp add: gdb_getregs_def gdb_exchange_bind [OF assms(1,3) plain_hex_bytes(1)] NR_GDB_REGS_def)

text \<open>
  Setting the registers of the reference changes the eight general registers and the program
  counter only: the write sent to QEMU holds NEMU's nine words followed by the other 68 words QEMU
  reported just before.
\<close>

theorem difftest_setregs_frame:
  assumes "conn_ack conn" "length q = 77" "length r = 9" "conn_in conn = setregs_replies q @ inp"
  shows "difftest_setregs r conn = Inr (conn\<lparr>conn_in := inp, conn_out := conn_out conn @
    send_packet (ascii ''g'') @ [0x2b] @ send_packet (ascii ''G'' @ hex_bytes (regs_bytes (r @ drop 9 q))) @ [0x2b]\<rparr>)"
proof -
  let ?c = "conn\<lparr>conn_in := 0x2b # send_packet (ascii ''OK'') @ inp, conn_out := conn_out conn @ send_packet (ascii ''g'') @ [0x2b]\<rparr>"
  have g: "gdb_getregs conn = Inr (q, ?c)"
    using assms(4) by (intro gdb_getregs_ok [OF assms(1,2)]) (simp add: setregs_replies_def)
  have "gdb_setregs (r @ drop 9 q) ?c = Inr (True, ?c\<lparr>conn_in := inp,
      conn_out := conn_out ?c @ send_packet (ascii ''G'' @ hex_bytes (regs_bytes (r @ drop 9 q))) @ [0x2b]\<rparr>)"
    using assms(1) by (intro gdb_setregs_ok) simp_all
  then show ?thesis using g assms(3) by (simp add: difftest_setregs_def DIFFTEST_REG_SIZE_def)
qed

theorem difftest_setregs_frame_witness:
  "\<exists>conn. difftest_setregs (replicate 9 1) (gdb_begin (setregs_replies (replicate 77 2) @ [])) = Inr conn \<and> conn_in conn = []"
  using difftest_setregs_frame [of "gdb_begin (setregs_replies (replicate 77 2) @ [])" "replicate 77 2" "replicate 9 1" "[]"]
  by (simp add: gdb_begin_def)

section \<open>Catching up with the reference\<close>

text \<open>
  The calls of \<open>difftest_step\<close> along a run: before each, NEMU has executed the instruction at
  \<open>this_pc\<close>, which left the machine and the program counter \<open>next_pc\<close>.
\<close>

fun difftest_steps :: "'r ref_ops \<Rightarrow> (u32 machine \<times> u32 \<times> u32) list \<Rightarrow> 'r dut \<Rightarrow> 'r dut res" where
  "difftest_steps ops [] d = Inr d"
| "difftest_steps ops ((m, this_pc, next_pc) # xs) d =
     bindE (difftest_step ops this_pc next_pc (d\<lparr>dut_mach := m\<rparr>)) (difftest_steps ops xs)"

lemma difftest_steps_append: "difftest_steps ops (xs @ ys) d = bindE (difftest_steps ops xs d) (difftest_steps ops ys)"
  by (induction ops xs d rule: difftest_steps.induct) (auto simp: bindE_assoc intro!: bindE_cong)

lemma difftest_waits:
  assumes r: "ref_getregs ops s = (ref, s)"
  shows "ref_state d = s \<Longrightarrow> skip_dut_nr_instr d = int (length xs) + k \<Longrightarrow> 0 < k \<Longrightarrow> pc ref \<notin> (snd \<circ> snd) ` set xs \<Longrightarrow>
    \<exists>m. difftest_steps ops xs d = Inr (d\<lparr>skip_dut_nr_instr := k, dut_mach := m\<rparr>)"
proof (induction xs arbitrary: d)
  case Nil
  then show ?case by (intro exI [of _ "dut_mach d"]) simp
next
  case (Cons x xs)
  obtain m t n where x: "x = (m, t, n)" by (cases x)
  let ?d = "d\<lparr>dut_mach := m, skip_dut_nr_instr := int (length xs) + k\<rparr>"
  have "pc ref \<noteq> n" using Cons.prems(4) x by auto
  then have "difftest_step ops t n (d\<lparr>dut_mach := m\<rparr>) = Inr ?d"
    using Cons.prems(1-3) r by (simp add: difftest_step_def)
  moreover obtain m' where "difftest_steps ops xs ?d = Inr (?d\<lparr>skip_dut_nr_instr := k, dut_mach := m'\<rparr>)"
    using Cons.IH [of ?d] Cons.prems x by auto
  ultimately show ?case using x by (intro exI [of _ m']) simp
qed

text \<open>
  When the reference has run ahead, NEMU is not compared until its program counter reaches that of
  the reference: the comparison then happens once and the waiting ends. If it is not reached within
  the announced number of instructions, the run panics at exactly that instruction.
\<close>

theorem difftest_catches_up:
  assumes "ref_getregs ops (ref_state d) = (ref, ref_state d)" "skip_dut_nr_instr d = int (length xs) + k" "0 < k"
    and "pc ref \<notin> (snd \<circ> snd) ` set xs"
  shows "difftest_steps ops (xs @ [(m, t, np)]) d =
    (if np = pc ref then Inr ((checkregs ref np (d\<lparr>dut_mach := m\<rparr>))\<lparr>skip_dut_nr_instr := 0\<rparr>)
     else if k = 1 then Inl (Panic ''can not catch up with ref.pc'')
     else Inr (d\<lparr>dut_mach := m, skip_dut_nr_instr := k - 1\<rparr>))"
proof -
  obtain m0 where "difftest_steps ops xs d = Inr (d\<lparr>skip_dut_nr_instr := k, dut_mach := m0\<rparr>)"
    using difftest_waits [OF assms(1) refl assms(2-4)] by blast
  then show ?thesis
    using assms(1,3) by (simp add: difftest_steps_append difftest_step_def checkregs_def)
qed

text \<open>A reference that is a second register file, set and read back; its program counter is 4.\<close>

definition copy_ops :: "x86_CPU_state ref_ops" where
  "copy_ops = \<lparr>ref_memcpy_from_dut = (\<lambda>a bs s. s), ref_getregs = (\<lambda>s. (s, s)), ref_setregs = (\<lambda>c s. c), ref_exec = (\<lambda>n s. s)\<rparr>"

definition idle_mach :: "u32 machine" where
  "idle_mach = \<lparr>cpu = \<lparr>gpr = replicate 8 0, pc = 0\<rparr>, mbus = bus_initial (\<lambda>_. (0, 0)),
     nemu_state = \<lparr>nstate = NEMU_RUNNING, halt_pc = 0, halt_ret = 0\<rparr>, log_bytebuf_len = 0\<rparr>"

theorem difftest_catches_up_witness:
  "difftest_steps copy_ops ([(idle_mach, 0, 2)] @ [(idle_mach, 2, 3)])
     \<lparr>is_skip_ref = False, skip_dut_nr_instr = 2, ref_state = \<lparr>gpr = [], pc = 4\<rparr>, dut_mach = idle_mach\<rparr> = Inl (Panic ''can not catch up with ref.pc'')"
  by (subst difftest_catches_up [where ref = "\<lparr>gpr = [], pc = 4\<rparr>" and k = 1]) (simp_all add: copy_ops_def)

text \<open>
  With differential testing on, the first instruction that is compared ends the run with
  \<open>NEMU_ABORT\<close> whatever the reference computes: the register comparison of x86 is a stub that always
  reports a difference.
\<close>

theorem difftest_step_always_aborts:
  assumes "skip_dut_nr_instr d \<le> 0" "\<not> is_skip_ref d"
  shows "\<exists>d'. difftest_step ops this_pc next_pc d = Inr d' \<and> nstate (nemu_state (dut_mach d')) = NEMU_ABORT \<and>
    halt_pc (nemu_state (dut_mach d')) = this_pc"
  using assms by (simp add: difftest_step_def Let_def case_prod_unfold checkregs_def isa_difftest_checkregs_def)

theorem difftest_step_always_aborts_witness:
  "\<exists>d'. difftest_step copy_ops 0x100000 0x100005
     \<lparr>is_skip_ref = False, skip_dut_nr_instr = 0, ref_state = \<lparr>gpr = [], pc = 0x100005\<rparr>, dut_mach = idle_mach\<rparr> = Inr d' \<and>
     nstate (nemu_state (dut_mach d')) = NEMU_ABORT"
  using difftest_step_always_aborts [of "\<lparr>is_skip_ref = False, skip_dut_nr_instr = 0, ref_state = \<lparr>gpr = [], pc = 0x100005\<rparr>, dut_mach = idle_mach\<rparr>"
      copy_ops "0x100000" "0x100005"] by auto

end
