(* ===== verification/Risc.thy ===== *)
theory Risc
  imports Rtl Memory_Safe
begin

text \<open>
  What the fixed-width instruction sets share (\<open>isa/riscv32\<close>, \<open>isa/riscv64\<close>, \<open>isa/mips32\<close>): fields of
  an instruction word, operand helpers, the invalid instruction and one step of the CPU, generic in the
  word width, and the instruction-level semantics the three implementations refine. The interface
  \<open>risc_isa\<close> says that one step of an implementation is the semantics of the instruction its decoder
  reads; what follows from it is proved once and used for each instruction set.
\<close>

named_theorems risc_defs \<open>decode and execution helpers of the RISC instruction sets\<close>

section \<open>Instruction words\<close>

text \<open>An unsigned and a signed bit field of \<open>n\<close> bits that starts at bit \<open>lo\<close>.\<close>

definition ubits :: "nat \<Rightarrow> nat \<Rightarrow> u32 \<Rightarrow> nat" where
  "ubits lo n v = unat (take_bit n (drop_bit lo v))"

definition sbits :: "nat \<Rightarrow> nat \<Rightarrow> u32 \<Rightarrow> int" where
  "sbits lo n v = signed_take_bit (n - 1) (uint (drop_bit lo v))"

lemma ubits_less: "n \<le> 32 \<Longrightarrow> ubits lo n v < 2 ^ n"
  by (simp add: ubits_def unsigned_take_bit_eq)

lemma ubits_reg [simp]: "ubits lo 5 v < 32"
  using ubits_less [of 5 lo v] by simp

lemma bit_sbits: "bit (sbits lo n v) k \<longleftrightarrow> bit v (lo + min (n - 1) k)"
  by (auto simp: sbits_def bit_simps bit_signed_take_bit_iff)

lemma bit_ubits: "bit (ubits lo n v) k \<longleftrightarrow> k < n \<and> bit v (lo + k)"
  by (auto simp: ubits_def bit_simps dest: bit_imp_le_length)

lemmas field_bits = bit_sbits bit_ubits bit_simps min_def

lemma ubits_mask: "ubits lo n v = unat (drop_bit lo v AND mask n)"
  by (simp add: ubits_def take_bit_eq_mask)

lemma ubits_mod: "ubits lo n v = unat v div 2 ^ lo mod 2 ^ n"
proof -
  have "unat v < 2 ^ LENGTH(32)" by (rule unsigned_less)
  then show ?thesis
    unfolding ubits_def unsigned_take_bit_eq unsigned_drop_bit_eq by (simp add: take_bit_eq_mod drop_bit_eq_div)
qed

lemma mask_lits: "(0x1f :: u32) = mask 5" "(0xfffff000 :: u32) = NOT (mask 12)" "(0x7f :: u32) = mask 7"
  by (simp_all add: mask_eq_exp_minus_1)

lemma ubits_and:
  "unat (drop_bit lo v AND 0x1f) = ubits lo 5 v" "unat (drop_bit lo v AND 7) = ubits lo 3 v"
  "v AND 3 = 3 \<longleftrightarrow> ubits 0 2 v = 3"
proof -
  have m: "(7 :: u32) = mask 3" "(3 :: u32) = mask 2" by (simp_all add: mask_eq_exp_minus_1)
  show "unat (drop_bit lo v AND 0x1f) = ubits lo 5 v" "unat (drop_bit lo v AND 7) = ubits lo 3 v"
    unfolding mask_lits m by (simp_all add: ubits_mask)
  have "v AND 3 = 3 \<longleftrightarrow> unat (v AND 3) = unat (3 :: u32)" by (simp only: word_unat_eq_iff)
  also have "\<dots> \<longleftrightarrow> ubits 0 2 v = 3" by (simp add: ubits_mask flip: m(2))
  finally show "v AND 3 = 3 \<longleftrightarrow> ubits 0 2 v = 3" .
qed

section \<open>Decode and execution helpers\<close>

text \<open>
  The ISA part of the decode state is the union \<open>instr\<close>, \<open>None\<close> before the fetch. The register
  operand stores the number in the union cell \<open>op_imm\<close> and the address of the register.
\<close>

type_synonym 'v risc_ctx = "('v, u32 option) ctx"

definition risc_instr :: "'w::len word risc_ctx \<Rightarrow> u32 res" where
  [risc_defs]: "risc_instr c = optE Uninit (isa (ds c))"

definition risc_decode_op_i :: "opnd \<Rightarrow> 'w word \<Rightarrow> 'w::len word risc_ctx \<Rightarrow> 'w word risc_ctx res" where
  [risc_defs]: "risc_decode_op_i op val c =
     Inr (upd_op op (\<lambda>q. q\<lparr>op_type := Some OP_TYPE_IMM, op_imm := Some val\<rparr>) c)"

definition risc_check_reg_index :: "nat \<Rightarrow> nat res" where
  [risc_defs]: "risc_check_reg_index index = bindE (assertE (index < 32)) (\<lambda>_. Inr index)"

definition risc_decode_op_r :: "opnd \<Rightarrow> nat \<Rightarrow> 'w::len word risc_ctx \<Rightarrow> 'w word risc_ctx res" where
  [risc_defs]: "risc_decode_op_r op val c =
     bindE (risc_check_reg_index val) (\<lambda>i.
       Inr (upd_op op (\<lambda>q. q\<lparr>op_type := Some OP_TYPE_REG, op_imm := Some (of_nat val), op_preg := Some (Rgpr i)\<rparr>) c))"

definition risc_set_width :: "nat \<Rightarrow> 'w::len word risc_ctx \<Rightarrow> 'w word risc_ctx res" where
  [risc_defs]: "risc_set_width width c = Inr (if width \<noteq> 0 then c\<lparr>ds := (ds c)\<lparr>dwidth := Some width\<rparr>\<rparr> else c)"

text \<open>The immediate and the register number of an operand are the same union cell.\<close>

definition imm_of :: "opnd \<Rightarrow> ('w::len word, 'i) ctx \<Rightarrow> 'w word res" where
  [risc_defs]: "imm_of op c = optE Uninit (op_imm (get_op op c))"

definition risc_reg_name_ok :: "opnd \<Rightarrow> 'w::len word risc_ctx \<Rightarrow> unit res" where
  "risc_reg_name_ok op c = bindE (imm_of op c) (\<lambda>i. assertE (unat i < 32))"

text \<open>
  Loads and stores: the memory access, the register name and the mnemonic of the log line, which
  exists for the access sizes \<open>ws\<close> only.
\<close>

definition risc_exec_ld :: "u32 \<Rightarrow> nat set \<Rightarrow> 'w::len word risc_ctx \<Rightarrow> 'w word risc_ctx res" where
  "risc_exec_ld base ws c =
     bindE (preg_of Dest c) (\<lambda>d. bindE (preg_of Src1 c) (\<lambda>p. bindE (imm_of Src2 c) (\<lambda>imm.
     bindE (optE Uninit (dwidth (ds c))) (\<lambda>w.
     bindE (rtl_lm base d p imm w c) (\<lambda>c.
     bindE (risc_reg_name_ok Src1 c) (\<lambda>_.
     bindE (assertE (w \<in> ws)) (\<lambda>_. Inr c)))))))"

definition risc_exec_st :: "u32 \<Rightarrow> nat set \<Rightarrow> 'w::len word risc_ctx \<Rightarrow> 'w word risc_ctx res" where
  "risc_exec_st base ws c =
     bindE (preg_of Src1 c) (\<lambda>p. bindE (imm_of Src2 c) (\<lambda>imm. bindE (preg_of Dest c) (\<lambda>q.
     bindE (optE Uninit (dwidth (ds c))) (\<lambda>w.
     bindE (rtl_sm base p imm q w c) (\<lambda>c.
     bindE (risc_reg_name_ok Src1 c) (\<lambda>_.
     bindE (assertE (w \<in> ws)) (\<lambda>_. Inr c)))))))"

text \<open>The invalid instruction refetches eight bytes at \<open>cpu.pc\<close> for its message.\<close>

definition risc_exec_inv :: "u32 \<Rightarrow> 'w::len word risc_ctx \<Rightarrow> 'w word risc_ctx res" where
  "risc_exec_inv base c =
     (let c = c\<lparr>ds := (ds c)\<lparr>seq_pc := pc (cpu (mach c))\<rparr>\<rparr> in
      bindE (instr_fetch base 4 c) (\<lambda>(_, c). bindE (instr_fetch base 4 c) (\<lambda>(_, c).
        rtl_exit NEMU_ABORT (pc (cpu (mach c))) (-1) c)))"

definition risc_exec_nemu_trap :: "nat \<Rightarrow> 'w::len word risc_ctx \<Rightarrow> 'w word risc_ctx res" where
  "risc_exec_nemu_trap r c =
     bindE (risc_check_reg_index r) (\<lambda>i. bindE (rd (Rgpr i) c) (\<lambda>v. rtl_exit NEMU_END (pc (cpu (mach c))) (ucast v) c))"

definition risc_set_instr :: "u32 \<Rightarrow> 'w::len word risc_ctx \<Rightarrow> 'w word risc_ctx" where
  [risc_defs]: "risc_set_instr v c = c\<lparr>ds := (ds c)\<lparr>isa := Some v\<rparr>\<rparr>"

definition risc_reset_zero :: "'w::len word risc_ctx \<Rightarrow> 'w word risc_ctx res" where
  "risc_reset_zero c = bindE (risc_check_reg_index 0) (\<lambda>i. wr (Rgpr i) 0 c)"

definition risc_exec_once ::
  "('w::len word risc_ctx \<Rightarrow> 'w word risc_ctx res) \<Rightarrow> 'w word machine \<Rightarrow> ('w word \<times> 'w word machine) res" where
  "risc_exec_once fetch_decode_exec m =
     bindE (fetch_decode_exec \<lparr>ds = decode_state_init (pc (cpu m)) None None, mach = m\<rparr>) (\<lambda>c.
     bindE (update_pc c) (\<lambda>c.
     bindE (risc_reset_zero c) (\<lambda>c. Inr (seq_pc (ds c), mach c))))"

definition risc_init_isa ::
  "u32 \<Rightarrow> u32 list \<Rightarrow> ('w::len word CPU_state \<Rightarrow> 'w word CPU_state) \<Rightarrow> 'w word machine \<Rightarrow> 'w word machine res" where
  "risc_init_isa start img restart m =
     bindE (store_bytes PMEM_SIZE (nat (guest_to_host start)) (concat (map (le_bytes 4) img)) (pmem (mbus m))) (\<lambda>f.
       Inr (m\<lparr>cpu := restart (cpu m), mbus := (mbus m)\<lparr>pmem := f\<rparr>\<rparr>))"

section \<open>Instruction-level semantics\<close>

text \<open>
  An instruction of the implemented subsets, with its operands taken apart. \<open>RInvalid\<close> is reported
  and ends the run, \<open>RIllegal\<close> fails an assertion of the emulator.
\<close>

datatype 'v rinstr =
    RLui nat 'v
  | RLoad nat nat 'v
  | RStore nat nat 'v
  | RTrap
  | RInvalid
  | RIllegal

fun regs_ok :: "'v rinstr \<Rightarrow> bool" where
  "regs_ok (RLui r v) = (r < 32)"
| "regs_ok (RLoad r p v) = (r < 32 \<and> p < 32)"
| "regs_ok (RStore r p v) = (r < 32 \<and> p < 32)"
| "regs_ok _ = True"

text \<open>
  The end of an instruction: the program counter moves on by \<open>k\<close>, the zero register is cleared and
  \<open>n\<close> more fetched bytes are in the log.
\<close>

definition retire :: "nat \<Rightarrow> nat \<Rightarrow> 'w word list \<Rightarrow> 'w::len word machine \<Rightarrow> ('w word \<times> 'w word machine) res" where
  "retire k n regs m =
     (let p = pc (cpu m) + of_nat k in
      Inr (p, m\<lparr>cpu := \<lparr>gpr = regs[0 := 0], pc = p\<rparr>, log_bytebuf_len := log_bytebuf_len m + 3 * n\<rparr>))"

definition stop_run :: "run_state \<Rightarrow> u32 \<Rightarrow> 'w::len word machine \<Rightarrow> 'w word machine" where
  "stop_run st r m = m\<lparr>nemu_state := \<lparr>nstate = st, halt_pc = pc (cpu m), halt_ret = r\<rparr>\<rparr>"

definition log_room :: "nat \<Rightarrow> 'w::len word machine \<Rightarrow> bool" where
  "log_room n m \<longleftrightarrow> log_bytebuf_len m + 3 * n < LOG_BYTEBUF_SIZE"

fun rinstr_step :: "u32 \<Rightarrow> nat \<Rightarrow> nat \<Rightarrow> 'w::len word rinstr \<Rightarrow> 'w word machine \<Rightarrow> ('w word \<times> 'w word machine) res" where
  "rinstr_step base len tr (RLui r v) m = retire 4 4 ((gpr (cpu m))[r := v]) m"
| "rinstr_step base len tr (RLoad r p off) m =
     bindE (vaddr_read base (gpr (cpu m) ! p + off) len (mbus m)) (\<lambda>(v, b).
       retire 4 4 ((gpr (cpu m))[r := v]) (m\<lparr>mbus := b\<rparr>))"
| "rinstr_step base len tr (RStore r p off) m =
     bindE (vaddr_write base (gpr (cpu m) ! p + off) (gpr (cpu m) ! r) len (mbus m)) (\<lambda>b.
       retire 4 4 (gpr (cpu m)) (m\<lparr>mbus := b\<rparr>))"
| "rinstr_step base len tr RTrap m =
     retire 4 4 (gpr (cpu m)) (stop_run NEMU_END (ucast (gpr (cpu m) ! tr)) m)"
| "rinstr_step base len tr RInvalid m =
     bindE (vaddr_ifetch base (pc (cpu m)) 4 (mbus m)) (\<lambda>(_, b).
     if log_room 8 m then
       bindE (vaddr_ifetch base (pc (cpu m) + 4) 4 b) (\<lambda>(_, b).
         if log_room 12 m then retire 8 12 (gpr (cpu m)) (stop_run NEMU_ABORT (-1) (m\<lparr>mbus := b\<rparr>))
         else Inl Out_of_bounds)
     else Inl Out_of_bounds)"
| "rinstr_step base len tr RIllegal m = Inl Assert_fail"

text \<open>One step of the CPU: fetch, decode, execute.\<close>

definition rinstr_once ::
  "u32 \<Rightarrow> nat \<Rightarrow> nat \<Rightarrow> (u32 \<Rightarrow> 'w::len word rinstr) \<Rightarrow> 'w word machine \<Rightarrow> ('w word \<times> 'w word machine) res" where
  "rinstr_once base len tr dec m =
     bindE (vaddr_ifetch base (pc (cpu m)) 4 (mbus m)) (\<lambda>(v, b).
       if log_room 4 m then rinstr_step base len tr (dec (ucast v)) (m\<lparr>mbus := b\<rparr>) else Inl Out_of_bounds)"

text \<open>
  An instruction word outside the implemented subset: if the step returns, the run has been stopped at
  the instruction, with the registers as they were.
\<close>

lemma rinstr_once_invalid:
  assumes "rinstr_once base len tr dec m = Inr (p, m')" "vaddr_ifetch base (pc (cpu m)) 4 (mbus m) = Inr (v, b)"
    and "dec (ucast v) = RInvalid"
  shows "nemu_state m' = \<lparr>nstate = NEMU_ABORT, halt_pc = pc (cpu m), halt_ret = -1\<rparr> \<and> gpr (cpu m') = (gpr (cpu m))[0 := 0]"
  using assms
  by (auto simp: rinstr_once_def retire_def stop_run_def Let_def bindE_eq_Inr split: if_splits)

section \<open>Refinement\<close>

text \<open>The part of \<open>isa_exec_once\<close> after \<open>fetch_decode_exec\<close>.\<close>

definition risc_commit :: "'w::len word risc_ctx \<Rightarrow> ('w word \<times> 'w word machine) res" where
  "risc_commit c =
     bindE (update_pc c) (\<lambda>c. bindE (risc_reset_zero c) (\<lambda>c. Inr (seq_pc (ds c), mach c)))"

lemma risc_commit_eq:
  "length (gpr (cpu m)) = 32 \<Longrightarrow> \<not> is_jmp d \<Longrightarrow>
     risc_commit \<lparr>ds = d, mach = m\<rparr> = Inr (seq_pc d, m\<lparr>cpu := \<lparr>gpr = (gpr (cpu m))[0 := 0], pc = seq_pc d\<rparr>\<rparr>)"
  by (cases "cpu m") (auto simp: risc_commit_def update_pc_def risc_reset_zero_def risc_check_reg_index_def set_gpr_def)

definition fetched :: "'w::len word machine \<Rightarrow> 'w word risc_ctx" where
  "fetched m = \<lparr>ds = decode_state_init (pc (cpu m) + 4) None None,
                mach = m\<lparr>log_bytebuf_len := log_bytebuf_len m + 12\<rparr>\<rparr>"

lemma instr_fetch_eq:
  "instr_fetch base n \<lparr>ds = d, mach = m\<rparr> =
     bindE (vaddr_ifetch base (seq_pc d) n (mbus m)) (\<lambda>(v, b).
       if log_room n m then
         Inr (ucast v, \<lparr>ds = d\<lparr>seq_pc := seq_pc d + of_nat n\<rparr>,
                        mach = m\<lparr>mbus := b, log_bytebuf_len := log_bytebuf_len m + 3 * n\<rparr>\<rparr>)
       else Inl Out_of_bounds)"
  by (auto simp: instr_fetch_def log_room_def Let_def intro!: bindE_cong)

text \<open>It is enough to compare what happens after the fetch.\<close>

lemma risc_exec_once_refines:
  assumes fde: "\<And>c. fde c = bindE (instr_fetch base 4 c) (\<lambda>(v, c). body v c)"
    and body: "\<And>v m. length (gpr (cpu m)) = 32 \<Longrightarrow> bindE (body v (fetched m)) risc_commit = rinstr_step base len tr (dec v) m"
    and len: "length (gpr (cpu m)) = 32"
  shows "risc_exec_once fde m = rinstr_once base len tr dec m"
proof -
  have "risc_exec_once fde m = bindE (fde \<lparr>ds = decode_state_init (pc (cpu m)) None None, mach = m\<rparr>) risc_commit"
    by (simp add: risc_exec_once_def risc_commit_def [abs_def])
  also have "\<dots> = bindE (vaddr_ifetch base (pc (cpu m)) 4 (mbus m)) (\<lambda>(v, b).
      if log_room 4 m then bindE (body (ucast v) (fetched (m\<lparr>mbus := b\<rparr>))) risc_commit else Inl Out_of_bounds)"
    by (auto simp: fde instr_fetch_eq bindE_assoc fetched_def decode_state_init_def intro!: bindE_cong split: prod.splits)
  also have "\<dots> = rinstr_once base len tr dec m"
    by (auto simp: rinstr_once_def body len intro!: bindE_cong)
  finally show ?thesis .
qed

text \<open>The execution helpers on the decode state their decoders leave.\<close>

lemma unat_of_reg: "p < 32 \<Longrightarrow> 5 \<le> LENGTH('w) \<Longrightarrow> unat (of_nat p :: 'w::len word) = p"
  using power_increasing [of 5 "LENGTH('w)" "2 :: nat"] by (simp add: unat_of_nat)

lemma ld_commit:
  assumes "length (gpr (cpu m)) = 32" "r < 32" "p < 32" "w \<in> ws" "5 \<le> LENGTH('w)" "sp = pc (cpu m) + 4"
  shows "bindE (risc_exec_ld base ws
      \<lparr>ds = \<lparr>opcode = oc, seq_pc = sp, is_jmp = False, jmp_pc = jp,
         src1 = \<lparr>op_type = t1, op_width = w1, op_imm = Some (of_nat p :: 'w::len word), op_preg = Some (Rgpr p), op_val = v1\<rparr>,
         dest = \<lparr>op_type = t2, op_width = w2, op_imm = i2, op_preg = Some (Rgpr r), op_val = v2\<rparr>,
         src2 = \<lparr>op_type = t3, op_width = w3, op_imm = Some off, op_preg = p3, op_val = v3\<rparr>,
         dwidth = Some w, tmp_reg = tr, mbr = mb, isa = i\<rparr>, mach = m\<lparr>log_bytebuf_len := log_bytebuf_len m + 12\<rparr>\<rparr>) risc_commit =
    bindE (vaddr_read base (gpr (cpu m) ! p + off) w (mbus m)) (\<lambda>(v, b). retire 4 4 ((gpr (cpu m))[r := v]) (m\<lparr>mbus := b\<rparr>))"
  using assms unat_of_reg [OF assms(3,5)]
    by (cases "vaddr_read base (gpr (cpu m) ! p + off) w (mbus m)"; cases m; cases "cpu m")
      (auto simp: retire_def Let_def risc_exec_ld_def preg_of_def imm_of_def risc_reg_name_ok_def rtl_lm_def set_mbus_def set_gpr_def
        risc_commit_eq)

lemma st_commit:
  assumes "length (gpr (cpu m)) = 32" "r < 32" "p < 32" "w \<in> ws" "5 \<le> LENGTH('w)" "sp = pc (cpu m) + 4"
  shows "bindE (risc_exec_st base ws
      \<lparr>ds = \<lparr>opcode = oc, seq_pc = sp, is_jmp = False, jmp_pc = jp,
         src1 = \<lparr>op_type = t1, op_width = w1, op_imm = Some (of_nat p :: 'w::len word), op_preg = Some (Rgpr p), op_val = v1\<rparr>,
         dest = \<lparr>op_type = t2, op_width = w2, op_imm = i2, op_preg = Some (Rgpr r), op_val = v2\<rparr>,
         src2 = \<lparr>op_type = t3, op_width = w3, op_imm = Some off, op_preg = p3, op_val = v3\<rparr>,
         dwidth = Some w, tmp_reg = tr, mbr = mb, isa = i\<rparr>, mach = m\<lparr>log_bytebuf_len := log_bytebuf_len m + 12\<rparr>\<rparr>) risc_commit =
    bindE (vaddr_write base (gpr (cpu m) ! p + off) (gpr (cpu m) ! r) w (mbus m)) (\<lambda>b. retire 4 4 (gpr (cpu m)) (m\<lparr>mbus := b\<rparr>))"
  using assms unat_of_reg [OF assms(3,5)]
    by (cases "vaddr_write base (gpr (cpu m) ! p + off) (gpr (cpu m) ! r) w (mbus m)"; cases m; cases "cpu m")
      (auto simp: retire_def Let_def risc_exec_st_def preg_of_def imm_of_def risc_reg_name_ok_def rtl_sm_def set_mbus_def risc_commit_eq)

lemma inv_commit:
  assumes "length (gpr (cpu m)) = 32" "\<not> is_jmp d"
  shows "bindE (risc_exec_inv base \<lparr>ds = d, mach = m\<lparr>log_bytebuf_len := log_bytebuf_len m + 12\<rparr>\<rparr>) risc_commit =
    rinstr_step base len tr RInvalid m"
  using assms
  by (cases m) (auto simp: risc_exec_inv_def instr_fetch_eq log_room_def bindE_assoc rtl_exit_def risc_commit_eq
      retire_def stop_run_def Let_def ac_simps intro!: bindE_cong split: prod.splits)

lemma lui_commit:
  assumes "length (gpr (cpu m)) = 32" "\<not> is_jmp d" "seq_pc d = pc (cpu m) + 4" "r < 32"
  shows "bindE (rtl_li (Rgpr r) v \<lparr>ds = d, mach = m\<lparr>log_bytebuf_len := log_bytebuf_len m + 12\<rparr>\<rparr>) risc_commit =
    retire 4 4 ((gpr (cpu m))[r := v]) m"
  using assms
  by (cases m; cases "cpu m")
    (simp add: rtl_li_def rtl_compute_imm_def c_add_def set_gpr_def risc_commit_eq retire_def Let_def)

lemma trap_commit:
  assumes "length (gpr (cpu m)) = 32" "\<not> is_jmp d" "seq_pc d = pc (cpu m) + 4" "tr < 32"
  shows "bindE (risc_exec_nemu_trap tr \<lparr>ds = d, mach = m\<lparr>log_bytebuf_len := log_bytebuf_len m + 12\<rparr>\<rparr>) risc_commit =
    rinstr_step base len tr RTrap m"
  using assms
  by (cases m) (simp add: risc_exec_nemu_trap_def risc_check_reg_index_def rtl_exit_def risc_commit_eq retire_def stop_run_def Let_def)

section \<open>Interface of an instruction set\<close>

text \<open>
  The loop of \<open>cpu_exec\<close> around one instruction, without devices and watchpoints: the log line is
  printed and emptied, and the loop ends when the run is no longer in state \<open>NEMU_RUNNING\<close>.
\<close>

fun risc_loop :: "('w word machine \<Rightarrow> ('w word \<times> 'w word machine) res) \<Rightarrow> nat \<Rightarrow> 'w::len word machine \<Rightarrow> 'w word machine res" where
  "risc_loop once 0 m = Inr m"
| "risc_loop once (Suc n) m =
     bindE (once m) (\<lambda>(_, m).
       let m = m\<lparr>log_bytebuf_len := 0\<rparr> in
       if nstate (nemu_state m) \<noteq> NEMU_RUNNING then Inr m else risc_loop once n m)"

subsection \<open>An image in memory\<close>

lemma nth_concat_words: "i < length ws \<Longrightarrow> j < n \<Longrightarrow> concat (map (le_bytes n) ws) ! (n * i + j) = le_bytes n (ws ! i) ! j"
  by (induction ws arbitrary: i) (auto simp: nth_append less_Suc_eq_0_disj add.assoc)

lemma length_concat_words: "length (concat (map (le_bytes n) ws)) = n * length ws"
  by (induction ws) auto

text \<open>Word \<open>i\<close> of an image that was copied to physical memory is fetched from its address.\<close>

lemma image_fetch:
  fixes ws :: "u32 list" and a :: "'w::len word"
  assumes "i < length ws" "pmem_valid base a 4" "pmem_pos base a = start + 4 * i" "32 \<le> LENGTH('w)"
    and "pmem b = put_bytes start (concat (map (le_bytes 4) ws)) f"
  shows "vaddr_read base a 4 b = Inr (ucast (ws ! i), b)"
proof -
  have "map (\<lambda>j. pmem b (start + 4 * i + j)) [0..<4] = le_bytes 4 (ws ! i)"
  proof (rule nth_equalityI)
    fix j assume "j < length (map (\<lambda>j. pmem b (start + 4 * i + j)) [0..<4])"
    then have j: "j < 4" by simp
    then have "4 * i + j < length (concat (map (le_bytes 4) ws))"
      using assms(1) by (simp add: length_concat_words)
    then show "map (\<lambda>j. pmem b (start + 4 * i + j)) [0..<4] ! j = le_bytes 4 (ws ! i) ! j"
      using j assms(1,5) put_bytes_same [of "4 * i + j"] by (simp add: nth_concat_words add.assoc)
  qed simp
  then have "vaddr_read base a 4 b = Inr (le_word (le_bytes 4 (ws ! i)), b)"
    using assms(2,3) by (simp add: pmem_read_eq del: map_eq_conv)
  moreover have "(le_word (le_bytes 4 w) :: 'w word) = ucast w" for w :: u32
  proof (rule bit_word_eqI)
    fix k assume k: "k < LENGTH('w)"
    have "bit w k \<Longrightarrow> k < 32" using bit_imp_le_length [of w k] by simp
    moreover have "k div 8 < 4 \<longleftrightarrow> k < 32" by (simp add: div_less_iff_less_mult)
    ultimately show "bit (le_word (le_bytes 4 w) :: 'w word) k \<longleftrightarrow> bit (ucast w :: 'w word) k"
      using k by (auto simp: bit_le_word bit_simps)
  qed
  ultimately show ?thesis by simp
qed

lemma less_4_cases: "i < (4 :: nat) \<Longrightarrow> i = 0 \<or> i = 1 \<or> i = 2 \<or> i = 3"
  by arith

lemmas image_simps = pmem_valid_def pmem_pos_def mem_len_ok_def in_pmem_def PMEM_SIZE_def

text \<open>A machine about to execute the words \<open>ws\<close> at the start of physical memory, all else zero.\<close>

definition risc_boot :: "u32 list \<Rightarrow> 'w::len word machine" where
  "risc_boot ws = \<lparr>cpu = \<lparr>gpr = replicate 32 0, pc = 0x80000000\<rparr>,
     mbus = (bus_initial (\<lambda>_. (0, 0)))\<lparr>pmem := put_bytes 0 (concat (map (le_bytes 4) ws)) (\<lambda>_. 0)\<rparr>,
     nemu_state = \<lparr>nstate = NEMU_RUNNING, halt_pc = 0, halt_ret = 0\<rparr>, log_bytebuf_len = 0\<rparr>"

lemma risc_boot_sel [simp]:
  "length (gpr (cpu (risc_boot ws))) = 32" "nstate (nemu_state (risc_boot ws)) = NEMU_RUNNING"
  "log_bytebuf_len (risc_boot ws) = 0" "pc (cpu (risc_boot ws)) = 0x80000000" "gpr (cpu (risc_boot ws)) = replicate 32 0"
  by (simp_all add: risc_boot_def)

text \<open>
  A run that reads no variable before it is assigned, keeps 32 registers and, after every instruction,
  a zero register that is zero.
\<close>

definition risc_run_ok :: "('w word machine \<Rightarrow> ('w word \<times> 'w word machine) res) \<Rightarrow> nat \<Rightarrow> 'w::len word machine \<Rightarrow> bool" where
  "risc_run_ok once n m \<longleftrightarrow> risc_loop once n m \<noteq> Inl Uninit \<and>
     (\<forall>m'. risc_loop once n m = Inr m' \<longrightarrow> length (gpr (cpu m')) = 32 \<and> (0 < n \<longrightarrow> gpr (cpu m') ! 0 = 0))"

locale risc_isa =
  fixes base :: u32 and len tr :: nat and dec :: "u32 \<Rightarrow> 'w::len word rinstr"
    and once :: "'w word machine \<Rightarrow> ('w word \<times> 'w word machine) res"
  assumes once_ref: "length (gpr (cpu m)) = 32 \<Longrightarrow> once m = rinstr_once base len tr dec m"
    and dec_regs: "regs_ok (dec v)"
begin

lemma step_safe:
  assumes "length (gpr (cpu m)) = 32"
  shows "wpE (\<lambda>(p, m'). length (gpr (cpu m')) = 32 \<and> gpr (cpu m') ! 0 = 0 \<and> pc (cpu m') = p) nu (once m)"
proof -
  have r: "wpE (\<lambda>(p, m'). length (gpr (cpu m')) = 32 \<and> gpr (cpu m') ! 0 = 0 \<and> pc (cpu m') = p) nu (retire k n regs x)"
    if "length regs = 32" for k n regs x
    using that by (auto simp: retire_def Let_def)
  have "wpE (\<lambda>(p, m'). length (gpr (cpu m')) = 32 \<and> gpr (cpu m') ! 0 = 0 \<and> pc (cpu m') = p) nu
      (rinstr_step base len tr i (m\<lparr>mbus := b\<rparr>))" for i b
    using assms by (cases i) (auto simp: stop_run_def intro!: wp_bind_True r split: prod.split)
  then show ?thesis
    unfolding once_ref [OF assms] rinstr_once_def by (intro wp_bind_True) auto
qed

lemma loop_safe:
  assumes "length (gpr (cpu m)) = 32"
  shows "wpE (\<lambda>m'. length (gpr (cpu m')) = 32 \<and> (0 < n \<longrightarrow> gpr (cpu m') ! 0 = 0)) nu (risc_loop once n m)"
  using assms
proof (induction n arbitrary: m)
  case (Suc n)
  show ?case
  proof (cases "once m")
    case (Inl e)
    then show ?thesis using step_safe [OF Suc.prems] by simp
  next
    case (Inr r)
    then obtain p m' where m': "once m = Inr (p, m')" by (cases r) simp
    then have "length (gpr (cpu m')) = 32" "gpr (cpu m') ! 0 = 0" using step_safe [OF Suc.prems] by auto
    then show ?thesis using m' Suc.IH [of "m'\<lparr>log_bytebuf_len := 0\<rparr>"]
      by (cases n) (auto simp: Let_def elim!: wpE_mono)
  qed
qed simp

lemma run_ok: "length (gpr (cpu m)) = 32 \<Longrightarrow> risc_run_ok once n m"
  using loop_safe [of m n] by (auto simp: risc_run_ok_def)

lemma fetch_step:
  "length (gpr (cpu m)) = 32 \<Longrightarrow> log_bytebuf_len m = 0 \<Longrightarrow> vaddr_read base (pc (cpu m)) 4 (mbus m) = Inr (v, mbus m) \<Longrightarrow>
     once m = rinstr_step base len tr (dec (ucast v)) m"
  by (simp add: once_ref rinstr_once_def vaddr_ifetch_eq_read log_room_def LOG_BYTEBUF_SIZE_def)

text \<open>
  The program of the built-in images: set a register to an address below the image, store the zero
  register there, load it back into the result register, trap.
\<close>

lemma image_good_trap:
  assumes len: "length (gpr (cpu m)) = 32" and z: "gpr (cpu m) ! 0 = 0" and log: "log_bytebuf_len m = 0"
    and st: "nstate (nemu_state m) = NEMU_RUNNING"
    and at: "\<And>i. i < 4 \<Longrightarrow> pmem_valid base (pc (cpu m) + of_nat (4 * i)) 4 \<and>
        vaddr_read base (pc (cpu m) + of_nat (4 * i)) 4 (mbus m) = Inr (w i, mbus m) \<and>
        pmem_pos base x + len \<le> pmem_pos base (pc (cpu m) + of_nat (4 * i))"
    and prog: "dec (ucast (w 0)) = RLui t x" "dec (ucast (w 1)) = RStore 0 t 0"
      "dec (ucast (w 2)) = RLoad tr t 0" "dec (ucast (w 3)) = RTrap"
    and t: "0 < t" "t < 32" "0 < tr" "tr < 32" and x: "pmem_valid base x len"
  shows "\<exists>m'. risc_loop once (n + 4) m = Inr m' \<and>
    nemu_state m' = \<lparr>nstate = NEMU_END, halt_pc = pc (cpu m) + 12, halt_ret = 0\<rparr>"
proof -
  obtain b where b: "vaddr_write base x 0 len (mbus m) = Inr b" "vaddr_read base x len b = Inr (0, b)"
    using guest_mem.wr_then_rd [OF x, of 0 "mbus m"] by auto
  have at': "vaddr_read base (pc (cpu m) + of_nat (4 * i)) 4 b = Inr (w i, b)" if "i < 4" for i
    using at [OF that] by (intro guest_mem.rd_wr_other [OF _ x b(1)]) auto
  let ?m = "\<lambda>k g b. \<lparr>cpu = \<lparr>gpr = g, pc = pc (cpu m) + k\<rparr>, mbus = b, nemu_state = nemu_state m, log_bytebuf_len = 0\<rparr>"
  let ?g = "(gpr (cpu m))[t := x, 0 := 0]"
  let ?g' = "?g[tr := 0, 0 := 0]"
  have m: "m = ?m 0 (gpr (cpu m)) (mbus m)" using log by (cases m; cases "cpu m") simp
  have nz: "?g ! t = x" "?g ! 0 = 0" "?g' ! tr = 0" using t len by (auto simp: nth_list_update)
  have 0: "once m = retire 4 4 ((gpr (cpu m))[t := x]) m"
    using fetch_step [OF len log] at [of 0] prog(1) by simp
  have 1: "once (?m 4 ?g (mbus m)) = retire 4 4 ?g (?m 4 ?g b)"
    using fetch_step [of "?m 4 ?g (mbus m)"] at [of 1] prog(2) len nz b(1) by simp
  have 2: "once (?m 8 ?g b) = retire 4 4 (?g[tr := 0]) (?m 8 ?g b)"
    using fetch_step [of "?m 8 ?g b"] at' [of 2] prog(3) len nz b(2) by simp
  have 3: "once (?m 12 ?g' b) = retire 4 4 ?g' (stop_run NEMU_END 0 (?m 12 ?g' b))"
    using fetch_step [of "?m 12 ?g' b"] at' [of 3] prog(4) len nz by simp
  have "risc_loop once (Suc k) m = risc_loop once k (?m 4 ?g (mbus m))" for k
    using 0 st log by (cases m; cases "cpu m") (simp add: retire_def Let_def)
  moreover have "risc_loop once (Suc k) (?m 4 ?g (mbus m)) = risc_loop once k (?m 8 ?g b)" for k
    using 1 st by (simp add: retire_def Let_def add.assoc)
  moreover have "risc_loop once (Suc k) (?m 8 ?g b) = risc_loop once k (?m 12 ?g' b)" for k
    using 2 st by (simp add: retire_def Let_def add.assoc)
  moreover have "\<exists>m'. risc_loop once (Suc k) (?m 12 ?g' b) = Inr m' \<and>
      nemu_state m' = \<lparr>nstate = NEMU_END, halt_pc = pc (cpu m) + 12, halt_ret = 0\<rparr>" for k
    using 3 by (simp add: retire_def stop_run_def Let_def)
  ultimately show ?thesis
    by (simp only: numeral_eq_Suc pred_numeral_simps Num.arith_simps add_Suc_right add_0_right)
qed

text \<open>The same from start-up: the image is copied to memory and the program counter set to it.\<close>

lemma init_good_trap:
  fixes m :: "'w word machine" and x s :: "'w word"
  assumes m: "length (gpr (cpu m)) = 32" "nstate (nemu_state m) = NEMU_RUNNING" "log_bytebuf_len m = 0"
    and ws: "length ws = 4" and restart: "\<And>c. restart c = c\<lparr>pc := s, gpr := (gpr c)[0 := 0]\<rparr>"
    and at: "\<And>i. i < 4 \<Longrightarrow> pmem_valid base (s + of_nat (4 * i)) 4 \<and> pmem_pos base (s + of_nat (4 * i)) = 0x100000 + 4 * i"
    and prog: "dec (ws ! 0) = RLui t x" "dec (ws ! 1) = RStore 0 t 0" "dec (ws ! 2) = RLoad tr t 0" "dec (ws ! 3) = RTrap"
    and t: "0 < t" "t < 32" "0 < tr" "tr < 32"
    and x: "pmem_valid base x len" "pmem_pos base x + len \<le> 0x100000" and w: "32 \<le> LENGTH('w)"
  shows "\<exists>m1. risc_init_isa 0x100000 ws restart m = Inr m1 \<and> (\<forall>k. \<exists>m2. risc_loop once (k + 4) m1 = Inr m2 \<and>
    nemu_state m2 = \<lparr>nstate = NEMU_END, halt_pc = s + 12, halt_ret = 0\<rparr>)"
proof -
  let ?f = "put_bytes 0x100000 (concat (map (le_bytes 4) ws)) (pmem (mbus m))"
  let ?m = "m\<lparr>cpu := restart (cpu m), mbus := (mbus m)\<lparr>pmem := ?f\<rparr>\<rparr>"
  have "0x100000 + length (concat (map (le_bytes 4) ws)) \<le> PMEM_SIZE"
    unfolding length_concat_words ws PMEM_SIZE_def by simp
  then have "risc_init_isa 0x100000 ws restart m = Inr ?m"
    by (simp add: risc_init_isa_def store_bytes_def guest_to_host_def)
  moreover have pc: "pc (cpu ?m) = s" by (simp add: restart)
  moreover have u: "ucast (ucast v :: 'w word) = v" for v :: u32
    using w by (auto intro!: bit_word_eqI simp: bit_simps)
  have "vaddr_read base (s + of_nat (4 * i)) 4 (mbus ?m) = Inr (ucast (ws ! i), mbus ?m)" if "i < 4" for i
    using that at [OF that] ws w
    by (intro image_fetch [where start = "0x100000" and f = "pmem (mbus m)"]) auto
  then have "\<exists>m2. risc_loop once (k + 4) ?m = Inr m2 \<and>
      nemu_state m2 = \<lparr>nstate = NEMU_END, halt_pc = pc (cpu ?m) + 12, halt_ret = 0\<rparr>" for k
    using m t x prog at
    by (intro image_good_trap [where t = t and x = x and w = "\<lambda>i. ucast (ws ! i)"]) (auto simp: restart u)
  ultimately show ?thesis by auto
qed

end

end
