(* ===== verification/Riscv.thy ===== *)
theory Riscv
  imports Risc
begin

text \<open>
  The RISC-V guests (\<open>isa/riscv32\<close> and \<open>isa/riscv64\<close>). Both implement the loads and stores of a full
  word, \<open>lui\<close> and the trap of NEMU; the rest is reported as invalid. The files are the same but for the
  register width, the access size and its \<open>funct3\<close>, and the sign of the immediate of \<open>lui\<close>.
\<close>

section \<open>RISC-V, 32 bits\<close>

type_synonym rv32_ctx = "u32 risc_ctx"

definition rv32_PMEM_BASE :: u32 where "rv32_PMEM_BASE = 0x80000000"
definition rv32_IMAGE_START :: u32 where "rv32_IMAGE_START = 0x100000"

subsection \<open>Decoder (local-include/decode.h)\<close>

definition rv32_decode_I :: "rv32_ctx \<Rightarrow> rv32_ctx res" where
  [risc_defs]: "rv32_decode_I c =
     bindE (risc_instr c) (\<lambda>v.
       seqs [risc_decode_op_r Src1 (ubits 15 5 v), risc_decode_op_i Src2 (word_of_int (sbits 20 12 v)),
             risc_decode_op_r Dest (ubits 7 5 v)] c)"

definition rv32_decode_U :: "rv32_ctx \<Rightarrow> rv32_ctx res" where
  [risc_defs]: "rv32_decode_U c =
     bindE (risc_instr c) (\<lambda>v.
       seqs [risc_decode_op_i Src1 (push_bit 12 (of_nat (ubits 12 20 v))), risc_decode_op_r Dest (ubits 7 5 v)] c)"

definition rv32_decode_S :: "rv32_ctx \<Rightarrow> rv32_ctx res" where
  [risc_defs]: "rv32_decode_S c =
     bindE (risc_instr c) (\<lambda>v.
       let simm = push_bit 5 (word_of_int (sbits 25 7 v)) OR of_nat (ubits 7 5 v) :: u32 in
       seqs [risc_decode_op_r Src1 (ubits 15 5 v), risc_decode_op_i Src2 (simm),
             risc_decode_op_r Dest (ubits 20 5 v)] c)"

subsection \<open>Instructions (exec/)\<close>

definition rv32_exec_inv :: "rv32_ctx \<Rightarrow> rv32_ctx res" where
  [risc_defs]: "rv32_exec_inv = risc_exec_inv rv32_PMEM_BASE"

definition rv32_exec_nemu_trap :: "rv32_ctx \<Rightarrow> rv32_ctx res" where
  [risc_defs]: "rv32_exec_nemu_trap = risc_exec_nemu_trap 10"

definition rv32_exec_lui :: "rv32_ctx \<Rightarrow> rv32_ctx res" where
  [risc_defs]: "rv32_exec_lui c = bindE (preg_of Dest c) (\<lambda>d. bindE (imm_of Src1 c) (\<lambda>imm. rtl_li d imm c))"

definition rv32_exec_ld :: "rv32_ctx \<Rightarrow> rv32_ctx res" where
  [risc_defs]: "rv32_exec_ld = risc_exec_ld rv32_PMEM_BASE {1, 2, 4}"

definition rv32_exec_st :: "rv32_ctx \<Rightarrow> rv32_ctx res" where
  [risc_defs]: "rv32_exec_st = risc_exec_st rv32_PMEM_BASE {1, 2, 4}"

definition rv32_exec_load :: "rv32_ctx \<Rightarrow> rv32_ctx res" where
  [risc_defs]: "rv32_exec_load c =
     bindE (risc_instr c) (\<lambda>v.
       if ubits 12 3 v = 2 then seqs [risc_set_width 4, rv32_exec_ld] c else rv32_exec_inv c)"

definition rv32_exec_store :: "rv32_ctx \<Rightarrow> rv32_ctx res" where
  [risc_defs]: "rv32_exec_store c =
     bindE (risc_instr c) (\<lambda>v.
       if ubits 12 3 v = 2 then seqs [risc_set_width 4, rv32_exec_st] c else rv32_exec_inv c)"

definition rv32_fetch_decode_exec :: "rv32_ctx \<Rightarrow> rv32_ctx res" where
  [risc_defs]: "rv32_fetch_decode_exec c =
     bindE (instr_fetch rv32_PMEM_BASE 4 c) (\<lambda>(v, c).
       let c = risc_set_instr v c; opcode6_2 = ubits 2 5 v in
       bindE (assertE (ubits 0 2 v = 3)) (\<lambda>_.
         if opcode6_2 = 0 then seqs [risc_set_width 0, rv32_decode_I, rv32_exec_load] c
         else if opcode6_2 = 8 then seqs [risc_set_width 0, rv32_decode_S, rv32_exec_store] c
         else if opcode6_2 = 13 then seqs [risc_set_width 0, rv32_decode_U, rv32_exec_lui] c
         else if opcode6_2 = 26 then seqs [risc_set_width 0, rv32_exec_nemu_trap] c
         else rv32_exec_inv c))"

definition rv32_isa_exec_once :: "u32 machine \<Rightarrow> (u32 \<times> u32 machine) res" where
  "rv32_isa_exec_once = risc_exec_once rv32_fetch_decode_exec"

subsection \<open>Start-up (init.c)\<close>

definition rv32_img :: "u32 list" where
  "rv32_img = [0x800002b7, 0x0002a023, 0x0002a503, 0x0000006b]"

definition rv32_restart :: "u32 CPU_state \<Rightarrow> u32 CPU_state" where
  "rv32_restart c = c\<lparr>pc := (rv32_PMEM_BASE + rv32_IMAGE_START), gpr := (gpr c)[0 := 0]\<rparr>"

definition rv32_init_isa :: "u32 machine \<Rightarrow> u32 machine res" where
  "rv32_init_isa = risc_init_isa rv32_IMAGE_START rv32_img rv32_restart"

section \<open>RISC-V, 64 bits\<close>

type_synonym rv64_ctx = "u64 risc_ctx"

definition rv64_PMEM_BASE :: u32 where "rv64_PMEM_BASE = 0x80000000"
definition rv64_IMAGE_START :: u32 where "rv64_IMAGE_START = 0x100000"

subsection \<open>Decoder (local-include/decode.h)\<close>

definition rv64_decode_I :: "rv64_ctx \<Rightarrow> rv64_ctx res" where
  [risc_defs]: "rv64_decode_I c =
     bindE (risc_instr c) (\<lambda>v.
       seqs [risc_decode_op_r Src1 (ubits 15 5 v), risc_decode_op_i Src2 (word_of_int (sbits 20 12 v)),
             risc_decode_op_r Dest (ubits 7 5 v)] c)"

definition rv64_decode_U :: "rv64_ctx \<Rightarrow> rv64_ctx res" where
  [risc_defs]: "rv64_decode_U c =
     bindE (risc_instr c) (\<lambda>v.
       seqs [risc_decode_op_i Src1 (push_bit 12 (word_of_int (sbits 12 20 v))), risc_decode_op_r Dest (ubits 7 5 v)] c)"

definition rv64_decode_S :: "rv64_ctx \<Rightarrow> rv64_ctx res" where
  [risc_defs]: "rv64_decode_S c =
     bindE (risc_instr c) (\<lambda>v.
       let simm = push_bit 5 (word_of_int (sbits 25 7 v)) OR of_nat (ubits 7 5 v) :: u32 in
       seqs [risc_decode_op_r Src1 (ubits 15 5 v), risc_decode_op_i Src2 (scast simm),
             risc_decode_op_r Dest (ubits 20 5 v)] c)"

subsection \<open>Instructions (exec/)\<close>

definition rv64_exec_inv :: "rv64_ctx \<Rightarrow> rv64_ctx res" where
  [risc_defs]: "rv64_exec_inv = risc_exec_inv rv64_PMEM_BASE"

definition rv64_exec_nemu_trap :: "rv64_ctx \<Rightarrow> rv64_ctx res" where
  [risc_defs]: "rv64_exec_nemu_trap = risc_exec_nemu_trap 10"

definition rv64_exec_lui :: "rv64_ctx \<Rightarrow> rv64_ctx res" where
  [risc_defs]: "rv64_exec_lui c = bindE (preg_of Dest c) (\<lambda>d. bindE (imm_of Src1 c) (\<lambda>imm. rtl_li d imm c))"

definition rv64_exec_ld :: "rv64_ctx \<Rightarrow> rv64_ctx res" where
  [risc_defs]: "rv64_exec_ld = risc_exec_ld rv64_PMEM_BASE {1, 2, 4, 8}"

definition rv64_exec_st :: "rv64_ctx \<Rightarrow> rv64_ctx res" where
  [risc_defs]: "rv64_exec_st = risc_exec_st rv64_PMEM_BASE {1, 2, 4, 8}"

definition rv64_exec_load :: "rv64_ctx \<Rightarrow> rv64_ctx res" where
  [risc_defs]: "rv64_exec_load c =
     bindE (risc_instr c) (\<lambda>v.
       if ubits 12 3 v = 3 then seqs [risc_set_width 8, rv64_exec_ld] c else rv64_exec_inv c)"

definition rv64_exec_store :: "rv64_ctx \<Rightarrow> rv64_ctx res" where
  [risc_defs]: "rv64_exec_store c =
     bindE (risc_instr c) (\<lambda>v.
       if ubits 12 3 v = 3 then seqs [risc_set_width 8, rv64_exec_st] c else rv64_exec_inv c)"

definition rv64_fetch_decode_exec :: "rv64_ctx \<Rightarrow> rv64_ctx res" where
  [risc_defs]: "rv64_fetch_decode_exec c =
     bindE (instr_fetch rv64_PMEM_BASE 4 c) (\<lambda>(v, c).
       let c = risc_set_instr v c; opcode6_2 = ubits 2 5 v in
       bindE (assertE (ubits 0 2 v = 3)) (\<lambda>_.
         if opcode6_2 = 0 then seqs [risc_set_width 0, rv64_decode_I, rv64_exec_load] c
         else if opcode6_2 = 8 then seqs [risc_set_width 0, rv64_decode_S, rv64_exec_store] c
         else if opcode6_2 = 13 then seqs [risc_set_width 0, rv64_decode_U, rv64_exec_lui] c
         else if opcode6_2 = 26 then seqs [risc_set_width 0, rv64_exec_nemu_trap] c
         else rv64_exec_inv c))"

definition rv64_isa_exec_once :: "u64 machine \<Rightarrow> (u64 \<times> u64 machine) res" where
  "rv64_isa_exec_once = risc_exec_once rv64_fetch_decode_exec"

subsection \<open>Start-up (init.c)\<close>

definition rv64_img :: "u32 list" where
  "rv64_img = [0x800002b7, 0x0002b023, 0x0002b503, 0x0000006b]"

definition rv64_restart :: "u64 CPU_state \<Rightarrow> u64 CPU_state" where
  "rv64_restart c = c\<lparr>pc := ucast (rv64_PMEM_BASE + rv64_IMAGE_START), gpr := (gpr c)[0 := 0]\<rparr>"

definition rv64_init_isa :: "u64 machine \<Rightarrow> u64 machine res" where
  "rv64_init_isa = risc_init_isa rv64_IMAGE_START rv64_img rv64_restart"

section \<open>The implemented subset\<close>

text \<open>
  The instructions the interpreters implement, with the encodings the RISC-V manual gives them, by masks
  and arithmetic shifts of the instruction word: the opcode is the low seven bits, immediates are
  sign-extended, and \<open>f3\<close> is the \<open>funct3\<close> of a full-word load or store. They are \<open>lui\<close>, one load, one
  store and the trap of NEMU (opcode \<open>0x6b\<close>, which the manual leaves free). \<open>RInvalid\<close> is not a meaning
  the manual gives: it stands for all other instructions, which the interpreters do not implement and
  answer by stopping the run. A word whose low two bits are not set is not a 32-bit instruction and
  fails an assertion.
\<close>

definition riscv_dec :: "nat \<Rightarrow> u32 \<Rightarrow> 'w::len word rinstr" where
  "riscv_dec f3 v =
     (let rd = unat (drop_bit 7 v AND 0x1f); rs1 = unat (drop_bit 15 v AND 0x1f);
          rs2 = unat (drop_bit 20 v AND 0x1f); funct3 = unat (drop_bit 12 v AND 7); op = unat (v AND 0x7f)
      in if v AND 3 \<noteq> 3 then RIllegal
         else if op = 0x03 \<and> funct3 = f3 then RLoad rd rs1 (scast (signed_drop_bit 20 v))
         else if op = 0x23 \<and> funct3 = f3 then
           RStore rs2 rs1 (scast ((signed_drop_bit 20 v AND NOT 0x1f) OR (drop_bit 7 v AND 0x1f)))
         else if op = 0x37 then RLui rd (scast (v AND 0xfffff000))
         else if op = 0x6b then RTrap
         else RInvalid)"

text \<open>The subset once more, as the values of the bits that the manual fixes for each instruction.\<close>

definition riscv_implemented :: "u32 \<Rightarrow> u32 \<Rightarrow> bool" where
  "riscv_implemented f3 v \<longleftrightarrow>
     v AND 0x7f \<in> {0x37, 0x6b} \<or> v AND 0x707f \<in> {push_bit 12 f3 OR 0x03, push_bit 12 f3 OR 0x23}"

lemma funct3_mask:
  assumes "f3 < 8" "op < 0x80"
  shows "v AND 0x707f = push_bit 12 f3 OR op \<longleftrightarrow> drop_bit 12 v AND 7 = f3 \<and> v AND 0x7f = (op :: u32)"
proof -
  have f: "take_bit 3 f3 = f3" "take_bit 7 op = op"
    using assms by (simp_all add: word_unat_eq_iff unsigned_take_bit_eq word_less_nat_alt take_bit_nat_eq_self)
  have m: "v AND 0x707f = push_bit 12 (take_bit 3 (drop_bit 12 v)) OR take_bit 7 v"
  proof -
    have lit: "0x707f = (push_bit 12 (mask 3) OR mask 7 :: u32)" by (simp add: mask_eq_exp_minus_1)
    show ?thesis unfolding lit by (rule bit_word_eqI) (auto simp: bit_simps)
  qed
  have u: "take_bit 3 (drop_bit 12 (push_bit 12 (take_bit 3 x) OR take_bit 7 y)) = take_bit 3 x"
    "take_bit 7 (push_bit 12 (take_bit 3 x) OR take_bit 7 y) = take_bit 7 y" for x y :: u32
    by (rule bit_word_eqI, auto simp: bit_simps)+
  have "v AND 0x707f = push_bit 12 f3 OR op \<longleftrightarrow> take_bit 3 (drop_bit 12 v) = f3 \<and> take_bit 7 v = op"
    unfolding m using u [of "drop_bit 12 v" v] u [of f3 op] f by metis
  then show ?thesis by (simp add: take_bit_eq_mask mask_eq_exp_minus_1)
qed

lemma ucast_ucast_u32_u64: "ucast (ucast (v :: u32) :: u64) = v"
  by (rule bit_word_eqI) (auto simp: bit_simps)

lemma riscv_dec_invalid:
  assumes "f3 < 8" "v AND 3 = 3" "\<not> riscv_implemented f3 v"
  shows "riscv_dec (unat f3) v = RInvalid"
proof -
  have "unat (v AND 0x7f) = k \<longleftrightarrow> v AND 0x7f = of_nat k" if "k < 128" for k
    using that by (auto simp: word_unat_eq_iff unat_of_nat)
  from this [of "0x03"] this [of "0x23"] this [of "0x37"] this [of "0x6b"] show ?thesis
    using assms(2,3) funct3_mask [OF assms(1), of "0x03" v] funct3_mask [OF assms(1), of "0x23" v]
    by (simp add: riscv_dec_def riscv_implemented_def Let_def word_unat_eq_iff [symmetric] del: unsigned_and_eq) blast
qed

subsection \<open>Bit fields and masks agree\<close>

lemma top_bit:
  "11 \<le> n \<Longrightarrow> \<not> 12 \<le> n \<Longrightarrow> n = (11 :: nat)" "6 \<le> n - 5 \<Longrightarrow> \<not> 12 \<le> n \<Longrightarrow> n = (11 :: nat)"
  by arith+

lemma rv_imm_I: "(word_of_int (sbits 20 12 v) :: 'w::len word) = scast (signed_drop_bit 20 v :: u32)"
  by (rule bit_word_eqI) (auto simp: field_bits dest: top_bit)

lemma rv_imm_S:
  "push_bit 5 (word_of_int (sbits 25 7 v)) OR of_nat (ubits 7 5 v) =
     (signed_drop_bit 20 v AND NOT 0x1f) OR (drop_bit 7 v AND (0x1f :: u32))"
  unfolding mask_lits by (rule bit_word_eqI) (auto simp: field_bits dest: top_bit)

lemma rv_imm_U: "push_bit 12 (of_nat (ubits 12 20 v)) = v AND (0xfffff000 :: u32)"
  unfolding mask_lits by (rule bit_word_eqI) (auto simp: field_bits)

lemma rv_imm_U64: "push_bit 12 (word_of_int (sbits 12 20 v)) = (scast (v AND (0xfffff000 :: u32)) :: u64)"
  unfolding mask_lits by (rule bit_word_eqI) (auto simp: field_bits dest: bit_imp_le_length)

lemma rv_opcode:
  assumes "ubits 0 2 v = 3"
  shows "ubits 2 5 v = k \<longleftrightarrow> unat (v AND 0x7f) = 4 * k + 3"
proof -
  have "unat v mod 4 = 3" using assms by (simp add: ubits_mod)
  moreover have "unat (v AND 0x7f) = ubits 0 7 v" unfolding mask_lits by (simp add: ubits_mask)
  moreover have "unat v mod (4 * 32) = 4 * (unat v div 4 mod 32) + unat v mod 4" by (rule mod_mult2_eq)
  ultimately show ?thesis by (simp add: ubits_mod)
qed

lemma riscv_dec_fields:
  "riscv_dec f3 v =
     (if ubits 0 2 v \<noteq> 3 then RIllegal
      else if ubits 2 5 v = 0 \<and> ubits 12 3 v = f3 then RLoad (ubits 7 5 v) (ubits 15 5 v) (word_of_int (sbits 20 12 v))
      else if ubits 2 5 v = 8 \<and> ubits 12 3 v = f3 then
        RStore (ubits 20 5 v) (ubits 15 5 v) (scast (push_bit 5 (word_of_int (sbits 25 7 v)) OR of_nat (ubits 7 5 v) :: u32))
      else if ubits 2 5 v = 13 then RLui (ubits 7 5 v) (scast (v AND 0xfffff000))
      else if ubits 2 5 v = 26 then RTrap
      else RInvalid)"
  using rv_opcode [of v 0] rv_opcode [of v 8] rv_opcode [of v 13] rv_opcode [of v 26]
  by (simp add: riscv_dec_def Let_def ubits_and rv_imm_I rv_imm_S)

section \<open>Refinement\<close>

lemmas riscv_body_simps =
  fetched_def decode_state_init_def operand_uninit_def risc_defs riscv_dec_fields preg_of_def bindE_return
  ld_commit st_commit lui_commit Let_def

lemma rv32_once_ref:
  assumes "length (gpr (cpu m)) = 32"
  shows "rv32_isa_exec_once m = rinstr_once rv32_PMEM_BASE 4 10 (riscv_dec 2) m"
  unfolding rv32_isa_exec_once_def
proof (rule risc_exec_once_refines [OF rv32_fetch_decode_exec_def _ assms])
  fix v and m :: "u32 machine"
  assume "length (gpr (cpu m)) = 32"
  then show "bindE (let c = risc_set_instr v (fetched m); opcode6_2 = ubits 2 5 v in
      bindE (assertE (ubits 0 2 v = 3)) (\<lambda>_.
        if opcode6_2 = 0 then seqs [risc_set_width 0, rv32_decode_I, rv32_exec_load] c
        else if opcode6_2 = 8 then seqs [risc_set_width 0, rv32_decode_S, rv32_exec_store] c
        else if opcode6_2 = 13 then seqs [risc_set_width 0, rv32_decode_U, rv32_exec_lui] c
        else if opcode6_2 = 26 then seqs [risc_set_width 0, rv32_exec_nemu_trap] c
        else rv32_exec_inv c)) risc_commit = rinstr_step rv32_PMEM_BASE 4 10 (riscv_dec 2 v) m"
    by (auto simp: riscv_body_simps rv_imm_U inv_commit [of _ _ _ 4 10] trap_commit [of _ _ _ rv32_PMEM_BASE 4]
        simp del: rinstr_step.simps(4,5))
qed

lemma rv64_once_ref:
  assumes "length (gpr (cpu m)) = 32"
  shows "rv64_isa_exec_once m = rinstr_once rv64_PMEM_BASE 8 10 (riscv_dec 3) m"
  unfolding rv64_isa_exec_once_def
proof (rule risc_exec_once_refines [OF rv64_fetch_decode_exec_def _ assms])
  fix v and m :: "u64 machine"
  assume "length (gpr (cpu m)) = 32"
  then show "bindE (let c = risc_set_instr v (fetched m); opcode6_2 = ubits 2 5 v in
      bindE (assertE (ubits 0 2 v = 3)) (\<lambda>_.
        if opcode6_2 = 0 then seqs [risc_set_width 0, rv64_decode_I, rv64_exec_load] c
        else if opcode6_2 = 8 then seqs [risc_set_width 0, rv64_decode_S, rv64_exec_store] c
        else if opcode6_2 = 13 then seqs [risc_set_width 0, rv64_decode_U, rv64_exec_lui] c
        else if opcode6_2 = 26 then seqs [risc_set_width 0, rv64_exec_nemu_trap] c
        else rv64_exec_inv c)) risc_commit = rinstr_step rv64_PMEM_BASE 8 10 (riscv_dec 3 v) m"
    by (auto simp: riscv_body_simps rv_imm_U64 inv_commit [of _ _ _ 8 10] trap_commit [of _ _ _ rv64_PMEM_BASE 8]
        simp del: rinstr_step.simps(4,5))
qed

lemma rv32_aborts:
  assumes "length (gpr (cpu m)) = 32" "vaddr_ifetch rv32_PMEM_BASE (pc (cpu m)) 4 (mbus m) = Inr (v, b)"
    "v AND 3 = 3" "\<not> riscv_implemented 2 v" "rv32_isa_exec_once m = Inr (p, m')"
  shows "nemu_state m' = \<lparr>nstate = NEMU_ABORT, halt_pc = pc (cpu m), halt_ret = -1\<rparr> \<and> gpr (cpu m') = (gpr (cpu m))[0 := 0]"
proof (rule rinstr_once_invalid [OF _ assms(2)])
  show "rinstr_once rv32_PMEM_BASE 4 10 (riscv_dec 2) m = Inr (p, m')" using assms(5) rv32_once_ref [OF assms(1)] by simp
  show "riscv_dec 2 (ucast v) = (RInvalid :: u32 rinstr)" using riscv_dec_invalid [of 2 v] assms(3,4) by simp
qed

lemma rv64_aborts:
  assumes "length (gpr (cpu m)) = 32" "vaddr_ifetch rv64_PMEM_BASE (pc (cpu m)) 4 (mbus m) = Inr (ucast v, b)"
    "v AND 3 = 3" "\<not> riscv_implemented 3 v" "rv64_isa_exec_once m = Inr (p, m')"
  shows "nemu_state m' = \<lparr>nstate = NEMU_ABORT, halt_pc = pc (cpu m), halt_ret = -1\<rparr> \<and> gpr (cpu m') = (gpr (cpu m))[0 := 0]"
proof (rule rinstr_once_invalid [OF _ assms(2)])
  show "rinstr_once rv64_PMEM_BASE 8 10 (riscv_dec 3) m = Inr (p, m')" using assms(5) rv64_once_ref [OF assms(1)] by simp
  show "riscv_dec 3 (ucast (ucast v :: u64)) = (RInvalid :: u64 rinstr)"
    unfolding ucast_ucast_u32_u64 using riscv_dec_invalid [of 3 v] assms(3,4) by simp
qed

lemma riscv_dec_regs: "regs_ok (riscv_dec f3 v)"
  by (simp add: riscv_dec_fields)

interpretation rv32: risc_isa rv32_PMEM_BASE 4 10 "riscv_dec 2" rv32_isa_exec_once
  by unfold_locales (rule rv32_once_ref riscv_dec_regs, assumption?)+

interpretation rv64: risc_isa rv64_PMEM_BASE 8 10 "riscv_dec 3" rv64_isa_exec_once
  by unfold_locales (rule rv64_once_ref riscv_dec_regs, assumption?)+

section \<open>The built-in images\<close>

lemma rv32_image:
  assumes "length (gpr (cpu m)) = 32" "nstate (nemu_state m) = NEMU_RUNNING" "log_bytebuf_len m = 0"
  shows "\<exists>m1. rv32_init_isa m = Inr m1 \<and> (\<forall>k. \<exists>m2. risc_loop rv32_isa_exec_once (k + 4) m1 = Inr m2 \<and>
    nemu_state m2 = \<lparr>nstate = NEMU_END, halt_pc = 0x8010000c, halt_ret = 0\<rparr>)"
proof -
  have at: "pmem_valid rv32_PMEM_BASE (0x80100000 + of_nat (4 * i) :: u32) 4 \<and>
      pmem_pos rv32_PMEM_BASE (0x80100000 + of_nat (4 * i) :: u32) = 0x100000 + 4 * i" if "i < 4" for i
    using less_4_cases [OF that] by (elim disjE) (simp_all add: image_simps rv32_PMEM_BASE_def)
  show ?thesis
    using rv32.init_good_trap [OF assms _ _ at, of rv32_img rv32_restart 5 "0x80000000"]
    by (simp add: rv32_init_isa_def rv32_IMAGE_START_def rv32_restart_def rv32_img_def riscv_dec_def image_simps rv32_PMEM_BASE_def)
qed

lemma rv64_image:
  assumes "length (gpr (cpu m)) = 32" "nstate (nemu_state m) = NEMU_RUNNING" "log_bytebuf_len m = 0"
  shows "\<exists>m1. rv64_init_isa m = Inr m1 \<and> (\<forall>k. \<exists>m2. risc_loop rv64_isa_exec_once (k + 4) m1 = Inr m2 \<and>
    nemu_state m2 = \<lparr>nstate = NEMU_END, halt_pc = 0x8010000c, halt_ret = 0\<rparr>)"
proof -
  have at: "pmem_valid rv64_PMEM_BASE (0x80100000 + of_nat (4 * i) :: u64) 4 \<and>
      pmem_pos rv64_PMEM_BASE (0x80100000 + of_nat (4 * i) :: u64) = 0x100000 + 4 * i" if "i < 4" for i
    using less_4_cases [OF that] by (elim disjE) (simp_all add: image_simps rv64_PMEM_BASE_def)
  show ?thesis
    using rv64.init_good_trap [OF assms _ _ at, of rv64_img rv64_restart 5 "0xffffffff80000000"]
    by (simp add: rv64_init_isa_def rv64_IMAGE_START_def rv64_restart_def rv64_img_def riscv_dec_def image_simps rv64_PMEM_BASE_def)
qed

section \<open>Properties\<close>

text \<open>
  C16. One step of the RISC-V interpreters, on every memory, device and register content and faults
  included, for the four instructions they implement (\<open>lui\<close>, the load and the store of a full word, and
  the trap of NEMU): the word at the program counter is decoded by the encodings of the manual, the
  64-bit guest sign-extends the immediate of \<open>lui\<close>, loads and stores address memory at register plus
  immediate, and a write to the zero register is lost. All other 32-bit instructions, \<open>addi\<close> among
  them, are not implemented: a step that returns from one has stopped the run with \<open>NEMU_ABORT\<close> at that
  instruction and left the registers as they were.
\<close>

theorem riscv_step_refines:
  assumes "length (gpr (cpu m)) = 32" "length (gpr (cpu n)) = 32"
  shows "rv32_isa_exec_once m = rinstr_once 0x80000000 4 10 (riscv_dec 2) m \<and>
    rv64_isa_exec_once n = rinstr_once 0x80000000 8 10 (riscv_dec 3) n \<and>
    (\<forall>v b p m'. vaddr_ifetch 0x80000000 (pc (cpu m)) 4 (mbus m) = Inr (v, b) \<and>
       v AND 3 = 3 \<and> \<not> riscv_implemented 2 v \<and> rv32_isa_exec_once m = Inr (p, m') \<longrightarrow>
       nemu_state m' = \<lparr>nstate = NEMU_ABORT, halt_pc = pc (cpu m), halt_ret = -1\<rparr> \<and>
       gpr (cpu m') = (gpr (cpu m))[0 := 0]) \<and>
    (\<forall>v b p n'. vaddr_ifetch 0x80000000 (pc (cpu n)) 4 (mbus n) = Inr (ucast v, b) \<and>
       v AND 3 = 3 \<and> \<not> riscv_implemented 3 v \<and> rv64_isa_exec_once n = Inr (p, n') \<longrightarrow>
       nemu_state n' = \<lparr>nstate = NEMU_ABORT, halt_pc = pc (cpu n), halt_ret = -1\<rparr> \<and>
       gpr (cpu n') = (gpr (cpu n))[0 := 0])"
  using rv32_once_ref [OF assms(1)] rv64_once_ref [OF assms(2)] rv32_aborts [OF assms(1)] rv64_aborts [OF assms(2)]
  unfolding rv32_PMEM_BASE_def rv64_PMEM_BASE_def by blast

theorem riscv_step_refines_witness:
  "(\<exists>m. rv32_isa_exec_once (risc_boot [0x123450b7]) = Inr (0x80000004, m) \<and> gpr (cpu m) ! 1 = 0x12345000) \<and>
   (\<exists>m. rv64_isa_exec_once (risc_boot [0x800000b7]) = Inr (0x80000004, m) \<and> gpr (cpu m) ! 1 = 0xffffffff80000000)"
proof -
  have "vaddr_ifetch 0x80000000 (0x80000000 :: u32) 4 (mbus (risc_boot [0x123450b7] :: u32 machine)) =
      Inr (0x123450b7, mbus (risc_boot [0x123450b7] :: u32 machine))"
    "vaddr_ifetch 0x80000000 (0x80000000 :: u64) 4 (mbus (risc_boot [0x800000b7] :: u64 machine)) =
      Inr (0x800000b7, mbus (risc_boot [0x800000b7] :: u64 machine))"
    using image_fetch [of 0 "[0x123450b7]" "0x80000000" "0x80000000 :: u32" 0]
      image_fetch [of 0 "[0x800000b7]" "0x80000000" "0x80000000 :: u64" 0]
    by (simp_all add: vaddr_ifetch_eq_read risc_boot_def image_simps)
  then show ?thesis
    using riscv_step_refines [of "risc_boot [0x123450b7]" "risc_boot [0x800000b7]"]
    by (simp add: rinstr_once_def riscv_dec_def retire_def log_room_def LOG_BYTEBUF_SIZE_def)
qed

end
