(* ===== verification/Mips32.thy ===== *)
theory Mips32
  imports Risc
begin

text \<open>
  The MIPS guest (\<open>isa/mips32\<close>): word load and store, \<open>lui\<close> and the trap of NEMU; every other
  opcode, the whole group \<open>special\<close> included, is reported as invalid.
\<close>

type_synonym mips_ctx = "u32 risc_ctx"

definition mips_PMEM_BASE :: u32 where "mips_PMEM_BASE = 0x80000000"
definition mips_IMAGE_START :: u32 where "mips_IMAGE_START = 0x100000"

section \<open>Decoder (local-include/decode.h)\<close>

definition mips_decode_IU :: "mips_ctx \<Rightarrow> mips_ctx res" where
  [risc_defs]: "mips_decode_IU c =
     bindE (risc_instr c) (\<lambda>v.
       seqs [risc_decode_op_r Src1 (ubits 21 5 v), risc_decode_op_i Src2 (of_nat (ubits 0 16 v)),
             risc_decode_op_r Dest (ubits 16 5 v)] c)"

definition mips_decode_ld :: "mips_ctx \<Rightarrow> mips_ctx res" where
  [risc_defs]: "mips_decode_ld c =
     bindE (risc_instr c) (\<lambda>v.
       seqs [risc_decode_op_r Src1 (ubits 21 5 v), risc_decode_op_i Src2 (word_of_int (sbits 0 16 v)),
             risc_decode_op_r Dest (ubits 16 5 v)] c)"

definition mips_decode_st :: "mips_ctx \<Rightarrow> mips_ctx res" where
  [risc_defs]: "mips_decode_st c =
     bindE (risc_instr c) (\<lambda>v.
       seqs [risc_decode_op_r Src1 (ubits 21 5 v), risc_decode_op_i Src2 (word_of_int (sbits 0 16 v)),
             risc_decode_op_r Dest (ubits 16 5 v)] c)"

section \<open>Instructions (exec/)\<close>

definition mips_exec_inv :: "mips_ctx \<Rightarrow> mips_ctx res" where
  [risc_defs]: "mips_exec_inv = risc_exec_inv mips_PMEM_BASE"

definition mips_exec_nemu_trap :: "mips_ctx \<Rightarrow> mips_ctx res" where
  [risc_defs]: "mips_exec_nemu_trap = risc_exec_nemu_trap 2"

definition mips_exec_lui :: "mips_ctx \<Rightarrow> mips_ctx res" where
  [risc_defs]: "mips_exec_lui c =
     bindE (preg_of Dest c) (\<lambda>d. bindE (imm_of Src2 c) (\<lambda>imm. rtl_li d (push_bit 16 imm) c))"

definition mips_exec_ld :: "mips_ctx \<Rightarrow> mips_ctx res" where
  [risc_defs]: "mips_exec_ld = risc_exec_ld mips_PMEM_BASE {1, 2, 4}"

definition mips_exec_st :: "mips_ctx \<Rightarrow> mips_ctx res" where
  [risc_defs]: "mips_exec_st = risc_exec_st mips_PMEM_BASE {1, 2, 4}"

definition mips_exec_special :: "mips_ctx \<Rightarrow> mips_ctx res" where
  [risc_defs]: "mips_exec_special = mips_exec_inv"

definition mips_fetch_decode_exec :: "mips_ctx \<Rightarrow> mips_ctx res" where
  [risc_defs]: "mips_fetch_decode_exec c =
     bindE (instr_fetch mips_PMEM_BASE 4 c) (\<lambda>(v, c).
       let c = risc_set_instr v c; opcode = ubits 26 6 v in
       if opcode = 0 then seqs [risc_set_width 0, mips_exec_special] c
       else if opcode = 15 then seqs [risc_set_width 0, mips_decode_IU, mips_exec_lui] c
       else if opcode = 35 then seqs [risc_set_width 4, mips_decode_ld, mips_exec_ld] c
       else if opcode = 43 then seqs [risc_set_width 4, mips_decode_st, mips_exec_st] c
       else if opcode = 60 then seqs [risc_set_width 0, mips_exec_nemu_trap] c
       else mips_exec_inv c)"

definition mips_isa_exec_once :: "u32 machine \<Rightarrow> (u32 \<times> u32 machine) res" where
  "mips_isa_exec_once = risc_exec_once mips_fetch_decode_exec"

section \<open>Start-up (init.c)\<close>

definition mips_img :: "u32 list" where
  "mips_img = [0x3c048000, 0xac800000, 0x8c820000, 0xf0000000]"

definition mips_restart :: "u32 CPU_state \<Rightarrow> u32 CPU_state" where
  "mips_restart c = c\<lparr>pc := mips_PMEM_BASE + mips_IMAGE_START, gpr := (gpr c)[0 := 0]\<rparr>"

definition mips_init_isa :: "u32 machine \<Rightarrow> u32 machine res" where
  "mips_init_isa = risc_init_isa mips_IMAGE_START mips_img mips_restart"

section \<open>The implemented subset\<close>

text \<open>
  The instructions the interpreter implements, with the encodings of the MIPS manual: the opcode is the
  high six bits, followed by the register numbers \<open>rs\<close> and \<open>rt\<close> and a 16-bit immediate, which loads and
  stores sign-extend and \<open>lui\<close> shifts to the high half. They are \<open>lui\<close>, \<open>lw\<close>, \<open>sw\<close> and the trap of NEMU
  (opcode \<open>0x3c\<close>). \<open>RInvalid\<close> stands for all other instructions, which the interpreter does not
  implement and answers by stopping the run. The manual's address-error exceptions for unaligned words
  are not in the code either: it makes the access.
\<close>

definition mips_dec :: "u32 \<Rightarrow> u32 rinstr" where
  "mips_dec v =
     (let op = drop_bit 26 v; rs = unat (drop_bit 21 v AND 0x1f); rt = unat (drop_bit 16 v AND 0x1f);
          imm = ucast v :: u16
      in if op = 0x0f then RLui rt (push_bit 16 (ucast imm))
         else if op = 0x23 then RLoad rt rs (scast imm)
         else if op = 0x2b then RStore rt rs (scast imm)
         else if op = 0x3c then RTrap
         else RInvalid)"

text \<open>The subset once more, as the set of its opcodes.\<close>

definition mips_implemented :: "u32 \<Rightarrow> bool" where
  "mips_implemented v \<longleftrightarrow> drop_bit 26 v \<in> {0x0f, 0x23, 0x2b, 0x3c}"

lemma mips_dec_invalid: "\<not> mips_implemented v \<Longrightarrow> mips_dec v = RInvalid"
  by (simp add: mips_dec_def mips_implemented_def Let_def)

lemma mips_opcode: "k < 64 \<Longrightarrow> ubits 26 6 v = k \<longleftrightarrow> drop_bit 26 v = of_nat k"
proof -
  assume k: "k < 64"
  have "ubits 26 6 v = unat (drop_bit 26 v)"
  proof -
    have "take_bit 6 (drop_bit 26 v) = drop_bit 26 v"
      by (rule bit_word_eqI) (auto simp: bit_simps dest: bit_imp_le_length)
    then show ?thesis by (simp add: ubits_def)
  qed
  then show ?thesis using k by (auto simp: unat_of_nat word_unat_eq_iff)
qed

lemma mips_imm: "(word_of_int (sbits 0 16 v) :: u32) = scast (ucast v :: u16)"
    "(of_nat (ubits 0 16 v) :: u32) = ucast (ucast v :: u16)"
  by (rule bit_word_eqI; auto simp: field_bits)+

lemma mips_dec_fields:
  "mips_dec v =
     (if ubits 26 6 v = 15 then RLui (ubits 16 5 v) (push_bit 16 (of_nat (ubits 0 16 v)))
      else if ubits 26 6 v = 35 then RLoad (ubits 16 5 v) (ubits 21 5 v) (word_of_int (sbits 0 16 v))
      else if ubits 26 6 v = 43 then RStore (ubits 16 5 v) (ubits 21 5 v) (word_of_int (sbits 0 16 v))
      else if ubits 26 6 v = 60 then RTrap
      else RInvalid)"
  using mips_opcode [of 15 v] mips_opcode [of 35 v] mips_opcode [of 43 v] mips_opcode [of 60 v]
  by (simp add: mips_dec_def Let_def ubits_and mips_imm)

section \<open>Refinement\<close>

lemma mips_once_ref:
  assumes "length (gpr (cpu m)) = 32"
  shows "mips_isa_exec_once m = rinstr_once mips_PMEM_BASE 4 2 mips_dec m"
  unfolding mips_isa_exec_once_def
proof (rule risc_exec_once_refines [OF mips_fetch_decode_exec_def _ assms])
  fix v and m :: "u32 machine"
  assume "length (gpr (cpu m)) = 32"
  then show "bindE (let c = risc_set_instr v (fetched m); opcode = ubits 26 6 v in
       if opcode = 0 then seqs [risc_set_width 0, mips_exec_special] c
       else if opcode = 15 then seqs [risc_set_width 0, mips_decode_IU, mips_exec_lui] c
       else if opcode = 35 then seqs [risc_set_width 4, mips_decode_ld, mips_exec_ld] c
       else if opcode = 43 then seqs [risc_set_width 4, mips_decode_st, mips_exec_st] c
       else if opcode = 60 then seqs [risc_set_width 0, mips_exec_nemu_trap] c
       else mips_exec_inv c) risc_commit = rinstr_step mips_PMEM_BASE 4 2 (mips_dec v) m"
    by (auto simp: fetched_def decode_state_init_def operand_uninit_def risc_defs mips_dec_fields preg_of_def bindE_return
        ld_commit st_commit lui_commit Let_def inv_commit [of _ _ _ 4 2] trap_commit [of _ _ _ mips_PMEM_BASE 4]
        simp del: rinstr_step.simps(4,5))
qed

lemma mips_aborts:
  assumes "length (gpr (cpu m)) = 32" "vaddr_ifetch mips_PMEM_BASE (pc (cpu m)) 4 (mbus m) = Inr (v, b)"
    "\<not> mips_implemented v" "mips_isa_exec_once m = Inr (p, m')"
  shows "nemu_state m' = \<lparr>nstate = NEMU_ABORT, halt_pc = pc (cpu m), halt_ret = -1\<rparr> \<and> gpr (cpu m') = (gpr (cpu m))[0 := 0]"
proof (rule rinstr_once_invalid [OF _ assms(2)])
  show "rinstr_once mips_PMEM_BASE 4 2 mips_dec m = Inr (p, m')" using assms(4) mips_once_ref [OF assms(1)] by simp
  show "mips_dec (ucast v) = RInvalid" using mips_dec_invalid [OF assms(3)] by simp
qed

interpretation mips: risc_isa mips_PMEM_BASE 4 2 mips_dec mips_isa_exec_once
  by unfold_locales (auto simp: mips_once_ref mips_dec_fields)

section \<open>The built-in image\<close>

lemma mips_image:
  assumes "length (gpr (cpu m)) = 32" "nstate (nemu_state m) = NEMU_RUNNING" "log_bytebuf_len m = 0"
  shows "\<exists>m1. mips_init_isa m = Inr m1 \<and> (\<forall>k. \<exists>m2. risc_loop mips_isa_exec_once (k + 4) m1 = Inr m2 \<and>
    nemu_state m2 = \<lparr>nstate = NEMU_END, halt_pc = 0x8010000c, halt_ret = 0\<rparr>)"
proof -
  have at: "pmem_valid mips_PMEM_BASE (0x80100000 + of_nat (4 * i) :: u32) 4 \<and>
      pmem_pos mips_PMEM_BASE (0x80100000 + of_nat (4 * i) :: u32) = 0x100000 + 4 * i" if "i < 4" for i
    using less_4_cases [OF that] by (elim disjE) (simp_all add: image_simps mips_PMEM_BASE_def)
  show ?thesis
    using mips.init_good_trap [OF assms _ _ at, of mips_img mips_restart 4 "0x80000000"]
    by (simp add: mips_init_isa_def mips_IMAGE_START_def mips_restart_def mips_img_def mips_dec_def image_simps mips_PMEM_BASE_def)
qed

section \<open>Properties\<close>

text \<open>
  C17. One step of the MIPS interpreter, on every memory, device and register content and faults
  included, for the four instructions it implements: \<open>lui\<close> puts the immediate into the high half, \<open>lw\<close>
  and \<open>sw\<close> address memory at register plus sign-extended immediate, aligned or not, the trap ends the
  run with the exit code in register 2, and a write to the zero register is lost. All other
  instructions of the manual are not implemented: a step that returns from one has stopped the run with
  \<open>NEMU_ABORT\<close> at that instruction and left the registers as they were.
\<close>

theorem mips_step_refines:
  assumes "length (gpr (cpu m)) = 32"
  shows "mips_isa_exec_once m = rinstr_once 0x80000000 4 2 mips_dec m \<and>
    (\<forall>v b p m'. vaddr_ifetch 0x80000000 (pc (cpu m)) 4 (mbus m) = Inr (v, b) \<and>
       \<not> mips_implemented v \<and> mips_isa_exec_once m = Inr (p, m') \<longrightarrow>
       nemu_state m' = \<lparr>nstate = NEMU_ABORT, halt_pc = pc (cpu m), halt_ret = -1\<rparr> \<and>
       gpr (cpu m') = (gpr (cpu m))[0 := 0])"
  using mips_once_ref [OF assms] mips_aborts [OF assms] unfolding mips_PMEM_BASE_def by blast

theorem mips_step_refines_witness:
  "\<exists>m. mips_isa_exec_once (risc_boot [0x3c048000]) = Inr (0x80000004, m) \<and> gpr (cpu m) ! 4 = 0x80000000"
proof -
  have "vaddr_ifetch 0x80000000 (0x80000000 :: u32) 4 (mbus (risc_boot [0x3c048000] :: u32 machine)) =
      Inr (0x3c048000, mbus (risc_boot [0x3c048000] :: u32 machine))"
    using image_fetch [of 0 "[0x3c048000]" "0x80000000" "0x80000000 :: u32" 0]
    by (simp add: vaddr_ifetch_eq_read risc_boot_def image_simps)
  then show ?thesis
    using mips_step_refines [of "risc_boot [0x3c048000]"]
    by (simp add: rinstr_once_def mips_dec_def retire_def log_room_def LOG_BYTEBUF_SIZE_def)
qed

end
