(* ===== verification/Vme.thy ===== *)
theory Vme
  imports Prelude
begin

text \<open>
  Virtual memory of AbstractMachine on x86 (\<open>am/src/x86/qemu/vme.c\<close>): page tables in physical memory,
  their walk with allocation on demand, \<open>map\<close>, \<open>protect\<close> and \<open>unprotect\<close>, for the two builds of
  the file (two levels on x86, four on x86-64). Tables are stored in memory and reached through their
  addresses, so that sharing between tables would be visible.

  The page allocator is the caller's: \<open>pg_avail\<close> is the sequence of the addresses \<open>pgalloc\<close> will
  return (an empty sequence or an address 0 is a failure), \<open>pg_freed\<close> the sequence of the pages given to
  \<open>pgfree\<close>. What the code relies on (pages aligned, not in use, not returned twice) is the predicate
  \<open>fresh_pages\<close>, a hypothesis of the theorems.
\<close>

section \<open>Configuration\<close>

record 'v ptinfo =
  pt_mask :: 'v
  pt_shift :: nat
  pt_bits :: nat

record 'v mmu_config =
  ptlevels :: nat
  pgsize :: nat
  pgtables :: "'v ptinfo list"

definition mmu_x86 :: "u32 mmu_config" where
  "mmu_x86 = \<lparr>ptlevels = 2, pgsize = 4096,
     pgtables = [\<lparr>pt_mask = 0x00000000, pt_shift = 0, pt_bits = 0\<rparr>,
                 \<lparr>pt_mask = 0xffc00000, pt_shift = 22, pt_bits = 10\<rparr>,
                 \<lparr>pt_mask = 0x003ff000, pt_shift = 12, pt_bits = 10\<rparr>]\<rparr>"

definition mmu_x86_64 :: "u64 mmu_config" where
  "mmu_x86_64 = \<lparr>ptlevels = 4, pgsize = 4096,
     pgtables = [\<lparr>pt_mask = 0x000000000000, pt_shift = 0, pt_bits = 0\<rparr>,
                 \<lparr>pt_mask = 0xff8000000000, pt_shift = 39, pt_bits = 9\<rparr>,
                 \<lparr>pt_mask = 0x007fc0000000, pt_shift = 30, pt_bits = 9\<rparr>,
                 \<lparr>pt_mask = 0x00003fe00000, pt_shift = 21, pt_bits = 9\<rparr>,
                 \<lparr>pt_mask = 0x0000001ff000, pt_shift = 12, pt_bits = 9\<rparr>]\<rparr>"

record 'v Area =
  a_start :: 'v
  a_end :: 'v

record 'v vm_area =
  va_area :: "'v Area"
  va_kernel :: bool

definition vm_areas_x86 :: "u32 vm_area list" where
  "vm_areas_x86 =
     [\<lparr>va_area = \<lparr>a_start = 0x40000000, a_end = 0x80000000\<rparr>, va_kernel = False\<rparr>,
      \<lparr>va_area = \<lparr>a_start = 0x00000000, a_end = 0x40000000\<rparr>, va_kernel = True\<rparr>,
      \<lparr>va_area = \<lparr>a_start = 0xfd000000, a_end = 0x00000000\<rparr>, va_kernel = True\<rparr>]"

definition vm_areas_x86_64 :: "u64 vm_area list" where
  "vm_areas_x86_64 =
     [\<lparr>va_area = \<lparr>a_start = 0x100000000000, a_end = 0x108000000000\<rparr>, va_kernel = False\<rparr>,
      \<lparr>va_area = \<lparr>a_start = 0x000000000000, a_end = 0x008000000000\<rparr>, va_kernel = True\<rparr>]"

definition PTE_P :: "'w::len word" where "PTE_P = 1"
definition PTE_W :: "'w::len word" where "PTE_W = 2"
definition PTE_U :: "'w::len word" where "PTE_U = 4"

definition MMAP_NONE :: u32 where "MMAP_NONE = 0"
definition MMAP_READ :: u32 where "MMAP_READ = 1"
definition MMAP_WRITE :: u32 where "MMAP_WRITE = 2"

section \<open>State\<close>

text \<open>
  \<open>pte_mem\<close> is the physical memory read and written as words of the pointer size, at their byte
  addresses. An \<open>AddrSpace\<close> is an object of that memory: its field \<open>ptr\<close> is the word at \<open>as_ptr\<close>.
\<close>

record 'v vme =
  pte_mem :: "'v \<Rightarrow> 'v"
  pg_avail :: "'v list"
  pg_freed :: "'v list"
  vme_kpt :: 'v
  vme_cr3 :: 'v
  vme_cr0 :: 'v

record 'v AddrSpace =
  as_pgsize :: nat
  as_area :: "'v Area"
  as_ptr :: 'v

definition pt_entry :: "'w word \<Rightarrow> nat \<Rightarrow> 'w::len word" where
  "pt_entry pt i = pt + of_nat (i * (LENGTH('w) div 8))"

definition present :: "'w::len word \<Rightarrow> bool" where
  "present e \<longleftrightarrow> e AND PTE_P \<noteq> 0"

section \<open>Operations\<close>

definition zero_page :: "nat \<Rightarrow> 'w word \<Rightarrow> ('w word \<Rightarrow> 'w word) \<Rightarrow> 'w::len word \<Rightarrow> 'w word" where
  "zero_page n pg mem = foldl (\<lambda>m i. m(pt_entry pg i := 0)) mem [0..<n]"

definition pgallocz :: "'w::len word mmu_config \<Rightarrow> 'w word vme \<Rightarrow> ('w word \<times> 'w word vme) res" where
  "pgallocz mmu st =
     (case pg_avail st of
        [] \<Rightarrow> Inl (Panic ''cannot allocate page'')
      | pg # pgs \<Rightarrow>
          if pg = 0 then Inl (Panic ''cannot allocate page'')
          else Inr (pg, st\<lparr>pg_avail := pgs, pte_mem := zero_page (pgsize mmu div (LENGTH('w) div 8)) pg (pte_mem st)\<rparr>))"

definition indexof :: "'w::len word \<Rightarrow> 'w word ptinfo \<Rightarrow> nat" where
  "indexof addr info = unat (drop_bit (pt_shift info) (addr AND pt_mask info))"

definition baseof :: "'w::len word mmu_config \<Rightarrow> 'w word \<Rightarrow> 'w word" where
  "baseof mmu addr = addr AND NOT (of_nat (pgsize mmu - 1))"

text \<open>The loop of \<open>ptwalk\<close>; the list holds the levels still to walk.\<close>

fun ptwalk_loop ::
  "'w::len word mmu_config \<Rightarrow> 'w word \<Rightarrow> 'w word \<Rightarrow> 'w word ptinfo list \<Rightarrow> 'w word \<Rightarrow> 'w word vme \<Rightarrow>
   ('w word \<times> 'w word vme) res" where
  "ptwalk_loop mmu addr flags [] cur st = Inl (Panic ''internal error (likely a bug in AM)'')"
| "ptwalk_loop mmu addr flags [info] cur st = Inr (pt_entry cur (indexof addr info), st)"
| "ptwalk_loop mmu addr flags (info # infos) cur st =
     (let a = pt_entry cur (indexof addr info) in
      if \<not> present (pte_mem st a) then
        bindE (pgallocz mmu st) (\<lambda>(next_page, st).
          ptwalk_loop mmu addr flags infos next_page
            (st\<lparr>pte_mem := (pte_mem st)(a := next_page OR PTE_P OR flags)\<rparr>))
      else ptwalk_loop mmu addr flags infos (baseof mmu (pte_mem st a)) st)"

definition mmu_levels :: "'w::len word mmu_config \<Rightarrow> 'w word ptinfo list" where
  "mmu_levels mmu = take (ptlevels mmu + 1) (pgtables mmu)"

definition ptwalk :: "'w::len word mmu_config \<Rightarrow> 'w word AddrSpace \<Rightarrow> 'w word \<Rightarrow> 'w word \<Rightarrow> 'w word vme \<Rightarrow>
    ('w word \<times> 'w word vme) res" where
  "ptwalk mmu as addr flags st = ptwalk_loop mmu addr flags (mmu_levels mmu) (as_ptr as) st"

text \<open>\<open>teardown\<close> from a level on; the table of level 0 is the field of the \<open>AddrSpace\<close> and not freed.\<close>

fun teardown :: "'w::len word mmu_config \<Rightarrow> bool \<Rightarrow> 'w word ptinfo list \<Rightarrow> 'w word \<Rightarrow> 'w word vme \<Rightarrow> 'w word vme" where
  "teardown mmu level0 [] pt st = st"
| "teardown mmu level0 (info # infos) pt st =
     (let st = foldl (\<lambda>st index.
            let e = pte_mem st (pt_entry pt index) in
            if present e \<and> e AND PTE_U \<noteq> 0 then teardown mmu False infos (baseof mmu e) st else st)
          st [0..<2 ^ pt_bits info]
      in if level0 then st else st\<lparr>pg_freed := pg_freed st @ [pt]\<rparr>)"

definition unprotect :: "'w::len word mmu_config \<Rightarrow> 'w word AddrSpace \<Rightarrow> 'w word vme \<Rightarrow> 'w word vme" where
  "unprotect mmu as st = teardown mmu True (mmu_levels mmu) (as_ptr as) st"

definition ROUNDDOWN :: "'w::len word \<Rightarrow> nat \<Rightarrow> 'w word" where
  "ROUNDDOWN a sz = a AND NOT (of_nat (sz - 1))"

definition IN_RANGE :: "'w::len word \<Rightarrow> 'w word Area \<Rightarrow> bool" where
  "IN_RANGE p area \<longleftrightarrow> a_start area \<le> p \<and> p < a_end area"

definition panic_on :: "bool \<Rightarrow> string \<Rightarrow> unit res" where
  "panic_on b s = (if b then Inl (Panic s) else Inr ())"

definition vme_map :: "'w::len word mmu_config \<Rightarrow> 'w word vm_area list \<Rightarrow> 'w word AddrSpace \<Rightarrow> 'w word \<Rightarrow> 'w word \<Rightarrow> u32 \<Rightarrow>
    'w word vme \<Rightarrow> 'w word vme res" where
  "vme_map mmu areas as va pa prot st =
     bindE (panic_on (\<not> IN_RANGE va (va_area (areas ! 0))) ''mapping an invalid address'') (\<lambda>_.
     bindE (panic_on (va \<noteq> ROUNDDOWN va (pgsize mmu) \<or> pa \<noteq> ROUNDDOWN pa (pgsize mmu)) ''non-page-boundary address'') (\<lambda>_.
     bindE (ptwalk mmu as va (PTE_W OR PTE_U) st) (\<lambda>(ptentry, st).
     bindE (if prot = MMAP_NONE then
              bindE (panic_on (\<not> present (pte_mem st ptentry)) ''unmapping a non-mapped page'') (\<lambda>_.
                Inr (st\<lparr>pte_mem := (pte_mem st)(ptentry := 0)\<rparr>))
            else
              bindE (panic_on (present (pte_mem st ptentry)) ''remapping a mapped page'') (\<lambda>_.
                let pte = pa OR PTE_P OR PTE_U OR (if prot AND MMAP_WRITE \<noteq> 0 then PTE_W else 0) in
                Inr (st\<lparr>pte_mem := (pte_mem st)(ptentry := pte)\<rparr>))) (\<lambda>st.
     bindE (ptwalk mmu as va (PTE_W OR PTE_U) st) (\<lambda>(_, st). Inr st)))))"

text \<open>
  The loops \<open>for (cur = start; cur != end; cur += step)\<close> over an area. The comparison is for equality
  and the addition wraps, so an area may end at address 0.
\<close>

partial_function (option) area_loop ::
  "('w::len word \<Rightarrow> 's \<Rightarrow> 's res) \<Rightarrow> 'w word \<Rightarrow> 'w word \<Rightarrow> 'w word \<Rightarrow> 's \<Rightarrow> 's res option" where
  "area_loop f step cur e st =
     (if cur = e then Some (Inr st)
      else case f cur st of Inl x \<Rightarrow> Some (Inl x) | Inr st \<Rightarrow> area_loop f step (cur + step) e st)"

fun for_kernel_areas ::
  "('w::len word \<Rightarrow> 's \<Rightarrow> 's res) \<Rightarrow> 'w word \<Rightarrow> 'w word vm_area list \<Rightarrow> 's \<Rightarrow> 's res" where
  "for_kernel_areas f step [] st = Inr st"
| "for_kernel_areas f step (vma # vmas) st =
     (if va_kernel vma then
        bindE (optE Diverge (area_loop f step (a_start (va_area vma)) (a_end (va_area vma)) st)) (\<lambda>r.
        bindE r (for_kernel_areas f step vmas))
      else for_kernel_areas f step vmas st)"

text \<open>\<open>vme_init\<close> of the 32-bit build maps the kernel areas one to one; \<open>asp\<close> is the address of its local \<open>as.ptr\<close>.\<close>

definition vme_init_x86 :: "nat \<Rightarrow> u32 \<Rightarrow> u32 vme \<Rightarrow> u32 vme res" where
  "vme_init_x86 cpu_current asp st =
     bindE (panic_on (cpu_current \<noteq> 0) ''init VME in non-bootstrap CPU'') (\<lambda>_.
     let as = \<lparr>as_pgsize = 0, as_area = \<lparr>a_start = 0, a_end = 0\<rparr>, as_ptr = asp\<rparr>;
         st = st\<lparr>pte_mem := (pte_mem st)(asp := 0)\<rparr>
     in bindE (for_kernel_areas (\<lambda>cur st.
               bindE (ptwalk mmu_x86 as cur PTE_W st) (\<lambda>(p, st).
                 Inr (st\<lparr>pte_mem := (pte_mem st)(p := cur OR PTE_P OR PTE_W)\<rparr>)))
             (of_nat (pgsize mmu_x86)) vm_areas_x86 st) (\<lambda>st.
        let kpt = baseof mmu_x86 (pte_mem st asp) in
        Inr (st\<lparr>vme_kpt := kpt, vme_cr3 := kpt, vme_cr0 := vme_cr0 st OR 0x80000000\<rparr>)))"

definition vme_init_x86_64 :: "nat \<Rightarrow> u64 vme \<Rightarrow> u64 vme res" where
  "vme_init_x86_64 cpu_current st =
     bindE (panic_on (cpu_current \<noteq> 0) ''init VME in non-bootstrap CPU'') (\<lambda>_.
       Inr (st\<lparr>vme_kpt := 0x1000, vme_cr3 := 0x1000, vme_cr0 := vme_cr0 st OR 0x80000000\<rparr>))"

definition protect :: "'w::len word mmu_config \<Rightarrow> 'w word vm_area list \<Rightarrow> 'w word AddrSpace \<Rightarrow> 'w word vme \<Rightarrow>
    ('w word AddrSpace \<times> 'w word vme) res" where
  "protect mmu areas as st =
     bindE (pgallocz mmu st) (\<lambda>(upt, st).
       let info = pgtables mmu ! 1 in
       bindE (for_kernel_areas (\<lambda>cur st.
                let index = indexof cur info in
                Inr (st\<lparr>pte_mem := (pte_mem st)(pt_entry upt index := pte_mem st (pt_entry (vme_kpt st) index))\<rparr>))
              (push_bit (pt_shift info) 1) areas st) (\<lambda>st.
         Inr (as\<lparr>as_pgsize := pgsize mmu, as_area := va_area (areas ! 0)\<rparr>,
              st\<lparr>pte_mem := (pte_mem st)(as_ptr as := upt OR PTE_P OR PTE_U)\<rparr>)))"

end
