(* ===== verification/Vme_Correct.thy ===== *)
theory Vme_Correct
  imports Vme
begin

text \<open>
  Correctness of the page tables of \<open>Vme\<close>. The specification is the translation of an address by the
  hardware, a walk through the tables; the invariant says that the tables reached from a root form a
  tree in memory. Under it, filling an entry changes the translation of one page and of nothing else.
\<close>

section \<open>Translation and shape of page tables\<close>

text \<open>
  Which entries the translation follows is a parameter: \<open>present\<close> for the kernel, \<open>user_pte\<close> for an
  access in user mode, which needs the user bit at every level.
\<close>

definition user_pte :: "'w::len word \<Rightarrow> bool" where
  "user_pte e \<longleftrightarrow> present e \<and> e AND PTE_U \<noteq> 0"

fun walk :: "'w::len word mmu_config \<Rightarrow> ('w word \<Rightarrow> bool) \<Rightarrow> 'w word ptinfo list \<Rightarrow> ('w word \<Rightarrow> 'w word) \<Rightarrow> 'w word \<Rightarrow> 'w word \<Rightarrow>
    'w word option" where
  "walk mmu Q [] mem pt a = None"
| "walk mmu Q (info # infos) mem pt a =
     (let e = mem (pt_entry pt (indexof a info)) in
      if \<not> Q e then None else if infos = [] then Some e else walk mmu Q infos mem (baseof mmu e) a)"

text \<open>The address of the last entry, if all tables on the way exist.\<close>

fun leaf :: "'w::len word mmu_config \<Rightarrow> ('w word \<Rightarrow> bool) \<Rightarrow> 'w word ptinfo list \<Rightarrow> ('w word \<Rightarrow> 'w word) \<Rightarrow> 'w word \<Rightarrow> 'w word \<Rightarrow>
    'w word option" where
  "leaf mmu Q [] mem pt a = None"
| "leaf mmu Q (info # infos) mem pt a =
     (let p = pt_entry pt (indexof a info) in
      if infos = [] then Some p else if \<not> Q (mem p) then None else leaf mmu Q infos mem (baseof mmu (mem p)) a)"

text \<open>Every present entry on the way of an address is one the translation follows.\<close>

fun path_ok :: "'w::len word mmu_config \<Rightarrow> ('w word \<Rightarrow> bool) \<Rightarrow> 'w word ptinfo list \<Rightarrow> ('w word \<Rightarrow> 'w word) \<Rightarrow> 'w word \<Rightarrow> 'w word \<Rightarrow> bool" where
  "path_ok mmu Q [] mem pt a = True"
| "path_ok mmu Q (info # infos) mem pt a =
     (let e = mem (pt_entry pt (indexof a info)) in
      present e \<longrightarrow> Q e \<and> path_ok mmu Q infos mem (baseof mmu e) a)"

definition own :: "'w::len word ptinfo \<Rightarrow> 'w word \<Rightarrow> 'w word set" where
  "own info pt = pt_entry pt ` {..<2 ^ pt_bits info}"

fun foot :: "'w::len word mmu_config \<Rightarrow> ('w word \<Rightarrow> bool) \<Rightarrow> 'w word ptinfo list \<Rightarrow> ('w word \<Rightarrow> 'w word) \<Rightarrow> 'w word \<Rightarrow> 'w word set" where
  "foot mmu Q [] mem pt = {}"
| "foot mmu Q (info # infos) mem pt =
     own info pt \<union> (\<Union>p \<in> {p \<in> own info pt. Q (mem p)}. foot mmu Q infos mem (baseof mmu (mem p)))"

fun tree_ok :: "'w::len word mmu_config \<Rightarrow> ('w word \<Rightarrow> bool) \<Rightarrow> 'w word ptinfo list \<Rightarrow> ('w word \<Rightarrow> 'w word) \<Rightarrow> 'w word \<Rightarrow> bool" where
  "tree_ok mmu Q [] mem pt = True"
| "tree_ok mmu Q (info # infos) mem pt \<longleftrightarrow>
     (\<forall>p\<in>own info pt. Q (mem p) \<longrightarrow>
        tree_ok mmu Q infos mem (baseof mmu (mem p)) \<and> own info pt \<inter> foot mmu Q infos mem (baseof mmu (mem p)) = {} \<and>
        (\<forall>q\<in>own info pt. Q (mem q) \<and> q \<noteq> p \<longrightarrow>
           foot mmu Q infos mem (baseof mmu (mem p)) \<inter> foot mmu Q infos mem (baseof mmu (mem q)) = {}))"

text \<open>The tables below a table.\<close>

fun subtables :: "'w::len word mmu_config \<Rightarrow> ('w word \<Rightarrow> bool) \<Rightarrow> 'w word ptinfo list \<Rightarrow> ('w word \<Rightarrow> 'w word) \<Rightarrow> 'w word \<Rightarrow> 'w word set" where
  "subtables mmu Q [] mem pt = {}"
| "subtables mmu Q (info # infos) mem pt =
     (if infos = [] then {}
      else \<Union>p \<in> {p \<in> own info pt. Q (mem p)}. insert (baseof mmu (mem p)) (subtables mmu Q infos mem (baseof mmu (mem p))))"

definition page :: "'w::len word mmu_config \<Rightarrow> 'w word \<Rightarrow> 'w word set" where
  "page mmu p = pt_entry p ` {..<pgsize mmu div (LENGTH('w) div 8)}"

definition same_index :: "'w::len word ptinfo list \<Rightarrow> 'w word \<Rightarrow> 'w word \<Rightarrow> bool" where
  "same_index infos a b \<longleftrightarrow> (\<forall>info\<in>set infos. indexof a info = indexof b info)"

text \<open>
  What the code relies on of its allocator: the pages to come are page-aligned and not null, overlap
  neither each other nor the memory in use.
\<close>

fun fresh_pages :: "'w::len word mmu_config \<Rightarrow> 'w word set \<Rightarrow> 'w word list \<Rightarrow> bool" where
  "fresh_pages mmu X [] = True"
| "fresh_pages mmu X (p # ps) \<longleftrightarrow>
     p \<noteq> 0 \<and> baseof mmu p = p \<and> page mmu p \<inter> X = {} \<and> fresh_pages mmu (X \<union> page mmu p) ps"

definition pages :: "'w::len word mmu_config \<Rightarrow> 'w word list \<Rightarrow> 'w word set" where
  "pages mmu ps = (\<Union>p\<in>set ps. page mmu p)"

text \<open>
  What a walk with allocation may do: it takes the pages \<open>used\<close> from the allocator, adds them to the
  tree, writes only to the tree and to them, and changes no translation.
\<close>

definition grown :: "'w::len word mmu_config \<Rightarrow> ('w word \<Rightarrow> bool) \<Rightarrow> 'w word ptinfo list \<Rightarrow> 'w word \<Rightarrow> 'w word vme \<Rightarrow>
    'w word list \<Rightarrow> 'w word vme \<Rightarrow> bool" where
  "grown mmu Q infos cur st used st' \<longleftrightarrow>
     pg_avail st = used @ pg_avail st' \<and> st' = st\<lparr>pg_avail := pg_avail st', pte_mem := pte_mem st'\<rparr> \<and>
     tree_ok mmu Q infos (pte_mem st') cur \<and>
     foot mmu Q infos (pte_mem st) cur \<subseteq> foot mmu Q infos (pte_mem st') cur \<and>
     foot mmu Q infos (pte_mem st') cur \<subseteq> foot mmu Q infos (pte_mem st) cur \<union> pages mmu used \<and>
     (\<forall>a. a \<notin> foot mmu Q infos (pte_mem st) cur \<union> pages mmu used \<longrightarrow> pte_mem st' a = pte_mem st a) \<and>
     subtables mmu Q infos (pte_mem st') cur = subtables mmu Q infos (pte_mem st) cur \<union> set used \<and>
     (\<forall>x. walk mmu Q infos (pte_mem st') cur x = walk mmu Q infos (pte_mem st) cur x) \<and>
     (\<forall>x. path_ok mmu Q infos (pte_mem st) cur x \<longrightarrow> path_ok mmu Q infos (pte_mem st') cur x)"

lemma zero_page_eq: "zero_page n pg mem a = (if a \<in> pt_entry pg ` {..<n} then 0 else mem a)"
  unfolding zero_page_def by (induction n) (auto simp: lessThan_Suc)

lemma pgallocz_Inr:
  "pgallocz mmu st = Inr (pg, st') \<longleftrightarrow> pg \<noteq> 0 \<and> (\<exists>pgs. pg_avail st = pg # pgs \<and>
     st' = st\<lparr>pg_avail := pgs, pte_mem := (\<lambda>a. if a \<in> page mmu pg then 0 else pte_mem st a)\<rparr>)"
  by (auto simp: pgallocz_def page_def zero_page_eq [abs_def] fun_eq_iff split: list.splits)

lemma fresh_pages_disjoint: "fresh_pages mmu X ps \<Longrightarrow> pages mmu ps \<inter> X = {}"
  by (induction ps arbitrary: X) (auto simp: pages_def)

lemma fresh_pages_append:
  "fresh_pages mmu X (ps @ qs) \<longleftrightarrow> fresh_pages mmu X ps \<and> fresh_pages mmu (X \<union> pages mmu ps) qs"
  by (induction ps arbitrary: X) (auto simp: pages_def Un_assoc)

lemma fresh_pages_nonzero: "fresh_pages mmu X ps \<Longrightarrow> 0 \<notin> set ps"
  by (induction ps arbitrary: X) auto

lemma fresh_pages_mono: "fresh_pages mmu X ps \<Longrightarrow> Y \<subseteq> X \<Longrightarrow> fresh_pages mmu Y ps"
proof (induction ps arbitrary: X Y)
  case (Cons p ps)
  then show ?case using Cons.IH [of "X \<union> page mmu p" "Y \<union> page mmu p"] by auto
qed simp

section \<open>Configurations\<close>

locale page_tables =
  fixes mmu :: "'w::len word mmu_config" and Q :: "'w word \<Rightarrow> bool"
  assumes Q_present: "Q e \<Longrightarrow> present e"
    and word_size: "8 \<le> LENGTH('w)" "pgsize mmu \<le> 2 ^ LENGTH('w)"
    and fits: "info \<in> set (mmu_levels mmu) \<Longrightarrow> 2 ^ pt_bits info \<le> pgsize mmu div (LENGTH('w) div 8)"
    and index: "info \<in> set (mmu_levels mmu) \<Longrightarrow> indexof a info < 2 ^ pt_bits info"
begin

lemma index_own: "info \<in> set (mmu_levels mmu) \<Longrightarrow> pt_entry pt (indexof a info) \<in> own info pt"
  using index by (auto simp: own_def)

lemma entry_eq:
  fixes pt :: "'w word"
  assumes "i < pgsize mmu div (LENGTH('w) div 8)" "j < pgsize mmu div (LENGTH('w) div 8)"
  shows "pt_entry pt i = pt_entry pt j \<longleftrightarrow> i = j"
proof -
  let ?n = "LENGTH('w) div 8"
  have n: "0 < ?n" using word_size by (simp add: div_greater_zero_iff)
  have "k * ?n < 2 ^ LENGTH('w)" if "k < pgsize mmu div ?n" for k
  proof -
    have "k * ?n < (pgsize mmu div ?n) * ?n" using that n by (rule mult_strict_right_mono)
    also have "\<dots> \<le> pgsize mmu" by simp
    finally show ?thesis using word_size(2) by simp
  qed
  then show ?thesis using assms n by (simp add: pt_entry_def word_of_nat_eq_iff take_bit_nat_eq_self del: of_nat_mult)
qed

lemma index_eq:
  fixes pt :: "'w word"
  shows "info \<in> set (mmu_levels mmu) \<Longrightarrow> pt_entry pt (indexof a info) = pt_entry pt (indexof b info) \<longleftrightarrow> indexof a info = indexof b info"
  using fits [of info] index [of info a] index [of info b] by (intro entry_eq) linarith+

lemma own_page: "info \<in> set (mmu_levels mmu) \<Longrightarrow> own info p \<subseteq> page mmu p"
  using fits by (fastforce simp: own_def page_def)

text \<open>Memory outside the footprint does not matter.\<close>

lemma frame:
  assumes "\<forall>a\<in>foot mmu Q infos mem pt. mem' a = mem a"
  shows "foot mmu Q infos mem' pt = foot mmu Q infos mem pt \<and> (tree_ok mmu Q infos mem' pt = tree_ok mmu Q infos mem pt) \<and>
    subtables mmu Q infos mem' pt = subtables mmu Q infos mem pt"
  using assms
proof (induction infos arbitrary: pt)
  case (Cons info infos)
  have own: "mem' p = mem p" if "p \<in> own info pt" for p using Cons.prems that by simp
  have sub: "foot mmu Q infos mem' (baseof mmu (mem p)) = foot mmu Q infos mem (baseof mmu (mem p)) \<and>
      tree_ok mmu Q infos mem' (baseof mmu (mem p)) = tree_ok mmu Q infos mem (baseof mmu (mem p)) \<and>
      subtables mmu Q infos mem' (baseof mmu (mem p)) = subtables mmu Q infos mem (baseof mmu (mem p))"
    if "p \<in> own info pt" "Q (mem p)" for p
    using Cons.prems that by (intro Cons.IH) auto
  show ?case using own sub by auto
qed simp

lemma frame_walk:
  assumes "\<forall>a\<in>foot mmu Q infos mem pt. mem' a = mem a" "set infos \<subseteq> set (mmu_levels mmu)"
  shows "walk mmu Q infos mem' pt x = walk mmu Q infos mem pt x \<and> leaf mmu Q infos mem' pt x = leaf mmu Q infos mem pt x"
  using assms
proof (induction infos arbitrary: pt)
  case (Cons info infos)
  let ?p = "pt_entry pt (indexof x info)"
  have p: "?p \<in> own info pt" using Cons.prems(2) by (simp add: index_own)
  then have own: "mem' ?p = mem ?p" using Cons.prems by simp
  have "walk mmu Q infos mem' (baseof mmu (mem ?p)) x = walk mmu Q infos mem (baseof mmu (mem ?p)) x \<and>
      leaf mmu Q infos mem' (baseof mmu (mem ?p)) x = leaf mmu Q infos mem (baseof mmu (mem ?p)) x" if "Q (mem ?p)"
    using Cons.prems that p by (intro Cons.IH) auto
  then show ?case using own by (auto simp: Let_def)
qed simp

lemma frame_path:
  assumes "\<forall>a\<in>foot mmu Q infos mem pt. mem' a = mem a" "set infos \<subseteq> set (mmu_levels mmu)"
  shows "path_ok mmu Q infos mem' pt x = path_ok mmu Q infos mem pt x"
  using assms
proof (induction infos arbitrary: pt)
  case (Cons info infos)
  let ?p = "pt_entry pt (indexof x info)"
  have p: "?p \<in> own info pt" using Cons.prems(2) by (simp add: index_own)
  then have own: "mem' ?p = mem ?p" using Cons.prems by simp
  have "path_ok mmu Q infos mem' (baseof mmu (mem ?p)) x = path_ok mmu Q infos mem (baseof mmu (mem ?p)) x" if "Q (mem ?p)"
    using Cons.prems that p by (intro Cons.IH) auto
  then show ?case using own by (auto simp: Let_def)
qed simp

text \<open>A change below one entry of a table, on its own subtree and on memory nobody used.\<close>

lemma child_update:
  assumes ok: "tree_ok mmu Q (info # infos) mem pt" and lv: "set (info # infos) \<subseteq> set (mmu_levels mmu)"
    and p: "p \<in> own info pt" "Q (mem p)" and c: "c = baseof mmu (mem p)"
    and N: "N \<inter> foot mmu Q (info # infos) mem pt = {}"
    and same: "\<forall>a. a \<notin> foot mmu Q infos mem c \<union> N \<longrightarrow> mem' a = mem a"
    and sub: "tree_ok mmu Q infos mem' c" "foot mmu Q infos mem c \<subseteq> foot mmu Q infos mem' c"
      "foot mmu Q infos mem' c \<subseteq> foot mmu Q infos mem c \<union> N"
  shows "tree_ok mmu Q (info # infos) mem' pt" 
    and "foot mmu Q (info # infos) mem pt \<subseteq> foot mmu Q (info # infos) mem' pt"
    and "foot mmu Q (info # infos) mem' pt \<subseteq> foot mmu Q (info # infos) mem pt \<union> N"
    and "\<forall>q\<in>own info pt. mem' q = mem q"
    and "\<And>q. q \<in> own info pt \<Longrightarrow> Q (mem q) \<Longrightarrow> q \<noteq> p \<Longrightarrow>
      \<forall>a\<in>foot mmu Q infos mem (baseof mmu (mem q)). mem' a = mem a"
proof -
  have disj: "own info pt \<inter> foot mmu Q infos mem c = {}" using ok p c by auto
  show own: "\<forall>q\<in>own info pt. mem' q = mem q" using disj N same by auto
  show oth: "\<forall>a\<in>foot mmu Q infos mem (baseof mmu (mem q)). mem' a = mem a"
    if q: "q \<in> own info pt" "Q (mem q)" "q \<noteq> p" for q
  proof -
    have "foot mmu Q infos mem (baseof mmu (mem q)) \<inter> foot mmu Q infos mem c = {}" using ok p c q by auto
    moreover have "foot mmu Q infos mem (baseof mmu (mem q)) \<inter> N = {}" using N q by auto
    ultimately show ?thesis using same by blast
  qed
  have fr: "foot mmu Q infos mem' (baseof mmu (mem q)) = foot mmu Q infos mem (baseof mmu (mem q)) \<and>
      tree_ok mmu Q infos mem' (baseof mmu (mem q))"
    if "q \<in> own info pt" "Q (mem q)" "q \<noteq> p" for q
    using frame [OF oth [OF that]] ok that by auto
  show "foot mmu Q (info # infos) mem pt \<subseteq> foot mmu Q (info # infos) mem' pt"
    using own fr sub(2) c by fastforce
  show "foot mmu Q (info # infos) mem' pt \<subseteq> foot mmu Q (info # infos) mem pt \<union> N"
    using own fr sub(3) c p by fastforce
  have sub': "foot mmu Q infos mem' (baseof mmu (mem q)) \<subseteq> foot mmu Q infos mem (baseof mmu (mem q)) \<union> (if q = p then N else {})"
    if "q \<in> own info pt" "Q (mem q)" for q
    using fr [OF that] sub(3) c by (cases "q = p") auto
  have N': "own info pt \<inter> N = {}" "foot mmu Q infos mem (baseof mmu (mem q)) \<inter> N = {}"
    if "q \<in> own info pt" "Q (mem q)" for q
    using N that by auto
  have old: "own info pt \<inter> foot mmu Q infos mem (baseof mmu (mem q)) = {}"
    "r \<in> own info pt \<Longrightarrow> Q (mem r) \<Longrightarrow> r \<noteq> q \<Longrightarrow>
       foot mmu Q infos mem (baseof mmu (mem q)) \<inter> foot mmu Q infos mem (baseof mmu (mem r)) = {}"
    if "q \<in> own info pt" "Q (mem q)" for q r
    using ok that by auto
  have "tree_ok mmu Q infos mem' (baseof mmu (mem q)) \<and> own info pt \<inter> foot mmu Q infos mem' (baseof mmu (mem q)) = {} \<and>
      (\<forall>r\<in>own info pt. Q (mem r) \<and> r \<noteq> q \<longrightarrow>
         foot mmu Q infos mem' (baseof mmu (mem q)) \<inter> foot mmu Q infos mem' (baseof mmu (mem r)) = {})"
    if q: "q \<in> own info pt" "Q (mem q)" for q
  proof (intro conjI ballI impI)
    show "tree_ok mmu Q infos mem' (baseof mmu (mem q))" using fr [OF q] sub(1) c by (cases "q = p") auto
    show "own info pt \<inter> foot mmu Q infos mem' (baseof mmu (mem q)) = {}"
      using sub' [OF q] old(1) [OF q] N'(1) [OF q] by (auto split: if_splits)
    fix r assume r: "r \<in> own info pt" "Q (mem r) \<and> r \<noteq> q"
    then show "foot mmu Q infos mem' (baseof mmu (mem q)) \<inter> foot mmu Q infos mem' (baseof mmu (mem r)) = {}"
      using sub' [OF q] sub' [of r] old(2) [OF q, of r] N'(2) [OF q] N'(2) [of r]
      by (cases "q = p"; cases "r = p"; simp; blast)
  qed
  then show "tree_ok mmu Q (info # infos) mem' pt" using own by simp
qed

lemma child_tables:
  assumes "tree_ok mmu Q (info # infos) mem pt" "set (info # infos) \<subseteq> set (mmu_levels mmu)"
    and p: "p \<in> own info pt" "Q (mem p)" and c: "c = baseof mmu (mem p)"
    and "N \<inter> foot mmu Q (info # infos) mem pt = {}" "\<forall>a. a \<notin> foot mmu Q infos mem c \<union> N \<longrightarrow> mem' a = mem a"
    and "tree_ok mmu Q infos mem' c" "foot mmu Q infos mem c \<subseteq> foot mmu Q infos mem' c"
      "foot mmu Q infos mem' c \<subseteq> foot mmu Q infos mem c \<union> N"
    and t: "subtables mmu Q infos mem' c = subtables mmu Q infos mem c \<union> T" and T: "infos = [] \<Longrightarrow> T = {}"
  shows "subtables mmu Q (info # infos) mem' pt = subtables mmu Q (info # infos) mem pt \<union> T"
proof -
  note u = child_update [OF assms(1-10)]
  have "subtables mmu Q infos mem' (baseof mmu (mem q)) = subtables mmu Q infos mem (baseof mmu (mem q)) \<union> (if q = p then T else {})"
    if "q \<in> own info pt" "Q (mem q)" for q
    using frame [OF u(5) [OF that]] t c by (cases "q = p") auto
  then have "(\<Union>q \<in> {q \<in> own info pt. Q (mem q)}. insert (baseof mmu (mem q)) (subtables mmu Q infos mem' (baseof mmu (mem q)))) =
      (\<Union>q \<in> {q \<in> own info pt. Q (mem q)}. insert (baseof mmu (mem q)) (subtables mmu Q infos mem (baseof mmu (mem q)))) \<union> T"
    using p by (auto split: if_splits)
  moreover have "{q \<in> own info pt. Q (mem' q)} = {q \<in> own info pt. Q (mem q)}" using u(4) by auto
  ultimately show ?thesis using u(4) T by simp
qed

lemma child_walk:
  assumes "tree_ok mmu Q (info # infos) mem pt" and lv: "set (info # infos) \<subseteq> set (mmu_levels mmu)"
    and p: "p \<in> own info pt" "Q (mem p)" and c: "c = baseof mmu (mem p)"
    and "N \<inter> foot mmu Q (info # infos) mem pt = {}" "\<forall>a. a \<notin> foot mmu Q infos mem c \<union> N \<longrightarrow> mem' a = mem a"
    and "tree_ok mmu Q infos mem' c" "foot mmu Q infos mem c \<subseteq> foot mmu Q infos mem' c"
      "foot mmu Q infos mem' c \<subseteq> foot mmu Q infos mem c \<union> N"
  shows "walk mmu Q (info # infos) mem' pt x =
      (if pt_entry pt (indexof x info) = p \<and> infos \<noteq> [] then walk mmu Q infos mem' c x else walk mmu Q (info # infos) mem pt x)"
    and "leaf mmu Q (info # infos) mem' pt x =
      (if pt_entry pt (indexof x info) = p \<and> infos \<noteq> [] then leaf mmu Q infos mem' c x else leaf mmu Q (info # infos) mem pt x)"
    and "path_ok mmu Q (info # infos) mem' pt x =
      (if pt_entry pt (indexof x info) = p then path_ok mmu Q infos mem' c x else path_ok mmu Q (info # infos) mem pt x)"
proof -
  note u = child_update [OF assms]
  let ?p = "pt_entry pt (indexof x info)"
  have own: "?p \<in> own info pt" using lv by (simp add: index_own)
  have oth: "\<forall>a\<in>foot mmu Q infos mem (baseof mmu (mem ?p)). mem' a = mem a" if "Q (mem ?p)" "?p \<noteq> p"
    using u(5) [OF own that] .
  have lv': "set infos \<subseteq> set (mmu_levels mmu)" using lv by simp
  note fr = frame_walk [OF oth lv'] frame_path [OF oth lv']
  show "walk mmu Q (info # infos) mem' pt x =
      (if ?p = p \<and> infos \<noteq> [] then walk mmu Q infos mem' c x else walk mmu Q (info # infos) mem pt x)"
    using own u(4) p c fr by (auto simp: Let_def)
  show "leaf mmu Q (info # infos) mem' pt x =
      (if ?p = p \<and> infos \<noteq> [] then leaf mmu Q infos mem' c x else leaf mmu Q (info # infos) mem pt x)"
    using own u(4) p c fr by (auto simp: Let_def)
  show "path_ok mmu Q (info # infos) mem' pt x =
      (if ?p = p then path_ok mmu Q infos mem' c x else path_ok mmu Q (info # infos) mem pt x)"
    using own u(4) p c fr Q_present by (auto simp: Let_def)
qed

lemma not_Q_0: "\<not> Q 0"
  using Q_present [of 0] by (auto simp: present_def)

text \<open>A new table of zeros below an entry that was not present changes no translation.\<close>

lemma insert_table:
  assumes ok: "tree_ok mmu Q (info # ls) mem pt" and lv: "set (info # ls) \<subseteq> set (mmu_levels mmu)" and ls: "ls = info' # infos"
    and p: "p \<in> own info pt" "\<not> present (mem p)" and e: "Q e" "baseof mmu e = pg"
    and pg: "page mmu pg \<inter> foot mmu Q (info # ls) mem pt = {}"
    and z: "\<And>a. mem' a = (if a = p then e else if a \<in> page mmu pg then 0 else mem a)"
  shows "tree_ok mmu Q (info # ls) mem' pt"
    and "foot mmu Q (info # ls) mem' pt = foot mmu Q (info # ls) mem pt \<union> own info' pg"
    and "walk mmu Q (info # ls) mem' pt x = walk mmu Q (info # ls) mem pt x"
    and "path_ok mmu Q (info # ls) mem pt x \<longrightarrow> path_ok mmu Q (info # ls) mem' pt x"
    and "subtables mmu Q (info # ls) mem' pt = subtables mmu Q (info # ls) mem pt \<union> {pg}"
proof -
  have np: "\<not> Q (mem p)" using p(2) Q_present by blast
  have info': "info' \<in> set (mmu_levels mmu)" using lv ls by simp
  have zero: "mem' a = 0" if "a \<in> own info' pg" for a
    using that own_page [OF info', of pg] pg p(1) z by auto
  then have new: "foot mmu Q ls mem' pg = own info' pg" "tree_ok mmu Q ls mem' pg" "subtables mmu Q ls mem' pg = {}"
    using not_Q_0 by (auto simp: ls)
  have newx: "walk mmu Q ls mem' pg x = None" "path_ok mmu Q ls mem' pg x"
    using zero [OF index_own [OF info', of pg x]] not_Q_0 by (simp_all add: ls present_def)
  have old: "own info pt \<inter> foot mmu Q ls mem (baseof mmu (mem q)) = {}"
      "foot mmu Q ls mem (baseof mmu (mem q)) \<inter> page mmu pg = {}"
    if "q \<in> own info pt" "Q (mem q)" for q
    using ok pg that by auto
  have own: "mem' q = mem q" if "q \<in> own info pt" "q \<noteq> p" for q
    using that pg z by auto
  have oth: "\<forall>a\<in>foot mmu Q ls mem (baseof mmu (mem q)). mem' a = mem a" if "q \<in> own info pt" "Q (mem q)" for q
    using old [OF that] p(1) z by auto
  note fr = frame [OF oth]
  have q: "Q (mem' q) \<longleftrightarrow> q = p \<or> Q (mem q)" if "q \<in> own info pt" for q
    using own [OF that] z [of p] e by (cases "q = p") auto
  have b: "foot mmu Q ls mem' (baseof mmu (mem' q)) = (if q = p then own info' pg else foot mmu Q ls mem (baseof mmu (mem q)))"
      "tree_ok mmu Q ls mem' (baseof mmu (mem' q))"
      "subtables mmu Q ls mem' (baseof mmu (mem' q)) = (if q = p then {} else subtables mmu Q ls mem (baseof mmu (mem q)))"
    if "q \<in> own info pt" "Q (mem' q)" for q
    using q [OF that(1)] that fr [OF that(1)] own [OF that(1)] new z [of p] e ok by (cases "q = p"; auto)+
  show "foot mmu Q (info # ls) mem' pt = foot mmu Q (info # ls) mem pt \<union> own info' pg"
    using q b(1) p(1) np by (fastforce split: if_splits)
  let ?A = "{r \<in> own info pt. Q (mem r)}" and ?t = "\<lambda>m r. insert (baseof mmu (m r)) (subtables mmu Q ls m (baseof mmu (m r)))"
  have "{r \<in> own info pt. Q (mem' r)} = insert p ?A" using q p(1) by auto
  moreover have "baseof mmu (mem' p) = pg" using z [of p] e(2) by simp
  moreover have "?t mem' r = ?t mem r" if "r \<in> ?A" for r using b(3) [of r] q [of r] own [of r] that np by auto
  ultimately have "(\<Union>r \<in> {r \<in> own info pt. Q (mem' r)}. ?t mem' r) = (\<Union>r\<in>?A. ?t mem r) \<union> {pg}" using new(3) by simp
  then show "subtables mmu Q (info # ls) mem' pt = subtables mmu Q (info # ls) mem pt \<union> {pg}"
    using ls by simp
  have o: "own info' pg \<inter> own info pt = {}" using own_page [OF info', of pg] pg by auto
  show "tree_ok mmu Q (info # ls) mem' pt"
  proof -
    have "own info pt \<inter> foot mmu Q ls mem' (baseof mmu (mem' r)) = {}" if "r \<in> own info pt" "Q (mem' r)" for r
      using b(1) [OF that] old(1) [of r] q [OF that(1)] that o by auto
    moreover have "foot mmu Q ls mem' (baseof mmu (mem' r)) \<inter> foot mmu Q ls mem' (baseof mmu (mem' s)) = {}"
      if r: "r \<in> own info pt" "Q (mem' r)" and s: "s \<in> own info pt" "Q (mem' s)" and sr: "s \<noteq> r" for r s
    proof -
      have "foot mmu Q ls mem (baseof mmu (mem r)) \<inter> foot mmu Q ls mem (baseof mmu (mem s)) = {}" if "r \<noteq> p" "s \<noteq> p"
        using that ok r s sr q by auto
      moreover have "foot mmu Q ls mem (baseof mmu (mem t)) \<inter> own info' pg = {}" if "t \<in> own info pt" "Q (mem' t)" "t \<noteq> p" for t
        using that old(2) [of t] q [of t] own_page [OF info', of pg] by blast
      ultimately show ?thesis using b(1) [OF r] b(1) [OF s] r s sr by (cases "r = p"; cases "s = p"; simp; blast)
    qed
    ultimately show ?thesis using b(2) by auto
  qed
  let ?x = "pt_entry pt (indexof x info)"
  have x: "?x \<in> own info pt" using lv by (simp add: index_own)
  have "set ls \<subseteq> set (mmu_levels mmu)" using lv by simp
  note fx = frame_walk [OF oth [OF x] this, of x] frame_path [OF oth [OF x] this, of x]
  show "walk mmu Q (info # ls) mem' pt x = walk mmu Q (info # ls) mem pt x"
    using own [OF x] fx newx np z [of p] e ls by (cases "?x = p") (auto simp: Let_def)
  show "path_ok mmu Q (info # ls) mem pt x \<longrightarrow> path_ok mmu Q (info # ls) mem' pt x"
    using own [OF x] fx newx np z [of p] e by (cases "?x = p") (auto simp: Let_def)
qed

lemma grown_child:
  assumes ok: "tree_ok mmu Q (info # ls) (pte_mem st) pt" and lv: "set (info # ls) \<subseteq> set (mmu_levels mmu)" and ls: "ls \<noteq> []"
    and p: "p = pt_entry pt (indexof addr info)" "Q (pte_mem st p)" and c: "c = baseof mmu (pte_mem st p)"
    and N: "pages mmu used \<inter> foot mmu Q (info # ls) (pte_mem st) pt = {}"
    and sub: "grown mmu Q ls c st used st'" "leaf mmu Q ls (pte_mem st') c addr = Some ep"
  shows "grown mmu Q (info # ls) pt st used st' \<and> leaf mmu Q (info # ls) (pte_mem st') pt addr = Some ep"
proof -
  have own: "p \<in> own info pt" using lv p(1) by (simp add: index_own)
  note sub' = sub(1) [unfolded grown_def]
  have u: "\<forall>a. a \<notin> foot mmu Q ls (pte_mem st) c \<union> pages mmu used \<longrightarrow> pte_mem st' a = pte_mem st a"
    "tree_ok mmu Q ls (pte_mem st') c" "foot mmu Q ls (pte_mem st) c \<subseteq> foot mmu Q ls (pte_mem st') c"
    "foot mmu Q ls (pte_mem st') c \<subseteq> foot mmu Q ls (pte_mem st) c \<union> pages mmu used"
    using sub' by blast+
  note cu = child_update [OF ok lv own p(2) c N u] and cw = child_walk [OF ok lv own p(2) c N u]
  have f: "foot mmu Q ls (pte_mem st) c \<subseteq> foot mmu Q (info # ls) (pte_mem st) pt" using own p(2) c by auto
  have "walk mmu Q (info # ls) (pte_mem st') pt x = walk mmu Q (info # ls) (pte_mem st) pt x" for x
    using cw(1) [of x] sub' ls p(2) c by (auto simp: Let_def)
  moreover have "path_ok mmu Q (info # ls) (pte_mem st) pt x \<longrightarrow> path_ok mmu Q (info # ls) (pte_mem st') pt x" for x
    using cw(3) [of x] sub' Q_present [OF p(2)] c by (auto simp: Let_def)
  moreover have "leaf mmu Q (info # ls) (pte_mem st') pt addr = Some ep"
    using cw(2) [of addr] ls p(1) sub(2) by simp
  moreover have "subtables mmu Q ls (pte_mem st') c = subtables mmu Q ls (pte_mem st) c \<union> set used" using sub' by blast
  from child_tables [OF ok lv own p(2) c N u this] ls
  have "subtables mmu Q (info # ls) (pte_mem st') pt = subtables mmu Q (info # ls) (pte_mem st) pt \<union> set used" by blast
  ultimately show ?thesis
    using cu(1-3) u(1) f sub' unfolding grown_def by blast
qed

lemma grown_trans:
  assumes g: "grown mmu Q infos cur st2 used st'"
    and av: "pg_avail st = pg # pg_avail st2" and st2: "st2 = st\<lparr>pg_avail := pg_avail st2, pte_mem := pte_mem st2\<rparr>"
    and f: "foot mmu Q infos (pte_mem st2) cur = foot mmu Q infos (pte_mem st) cur \<union> T" "T \<subseteq> page mmu pg"
    and mem2: "\<And>a. pte_mem st2 a = (if a = p then e else if a \<in> page mmu pg then 0 else pte_mem st a)"
    and p: "p \<in> foot mmu Q infos (pte_mem st) cur"
    and w: "\<And>x. walk mmu Q infos (pte_mem st2) cur x = walk mmu Q infos (pte_mem st) cur x"
      "\<And>x. path_ok mmu Q infos (pte_mem st) cur x \<longrightarrow> path_ok mmu Q infos (pte_mem st2) cur x"
    and t: "subtables mmu Q infos (pte_mem st2) cur = subtables mmu Q infos (pte_mem st) cur \<union> {pg}"
  shows "grown mmu Q infos cur st (pg # used) st'"
proof -
  note g' = g [unfolded grown_def]
  have pu: "pages mmu (pg # used) = page mmu pg \<union> pages mmu used" by (simp add: pages_def)
  have "pte_mem st' a = pte_mem st a" if "a \<notin> foot mmu Q infos (pte_mem st) cur \<union> pages mmu (pg # used)" for a
  proof -
    have "pte_mem st' a = pte_mem st2 a" using that g' f pu by blast
    then show ?thesis using mem2 [of a] that p pu by auto
  qed
  moreover have "st' = st\<lparr>pg_avail := pg_avail st', pte_mem := pte_mem st'\<rparr>"
  proof -
    have "st' = st2\<lparr>pg_avail := pg_avail st', pte_mem := pte_mem st'\<rparr>" using g' by blast
    also have "\<dots> = st\<lparr>pg_avail := pg_avail st', pte_mem := pte_mem st'\<rparr>" by (subst st2) simp
    finally show ?thesis .
  qed
  moreover have "foot mmu Q infos (pte_mem st) cur \<subseteq> foot mmu Q infos (pte_mem st') cur"
    "foot mmu Q infos (pte_mem st') cur \<subseteq> foot mmu Q infos (pte_mem st) cur \<union> pages mmu (pg # used)"
    using g' f pu by blast+
  ultimately show ?thesis
    using g' w av t unfolding grown_def by simp
qed

lemma ptwalk_loop_ok:
  assumes "ptwalk_loop mmu addr flags infos cur st = Inr (ep, st')" "infos \<noteq> []" "set infos \<subseteq> set (mmu_levels mmu)"
    and "tree_ok mmu Q infos (pte_mem st) cur" "path_ok mmu Q infos (pte_mem st) cur addr"
    and "fresh_pages mmu F (pg_avail st)" "foot mmu Q infos (pte_mem st) cur \<subseteq> F"
    and flags: "\<And>pg. baseof mmu pg = pg \<Longrightarrow> Q (pg OR PTE_P OR flags) \<and> baseof mmu (pg OR PTE_P OR flags) = pg"
  shows "\<exists>used. grown mmu Q infos cur st used st' \<and> leaf mmu Q infos (pte_mem st') cur addr = Some ep"
  using assms(1-7)
proof (induction infos arbitrary: cur st F)
  case (Cons info ls)
  show ?case
  proof (cases ls)
    case Nil
    then show ?thesis using Cons.prems by (auto simp: grown_def pages_def Let_def intro!: exI [of _ "[]"])
  next
    case (Cons info' infos)
    let ?p = "pt_entry cur (indexof addr info)"
    have lv: "set ls \<subseteq> set (mmu_levels mmu)" "info \<in> set (mmu_levels mmu)" using Cons.prems(3) by auto
    have own: "?p \<in> own info cur" using lv(2) by (rule index_own)
    show ?thesis
    proof (cases "present (pte_mem st ?p)")
      case True
      then have Q: "Q (pte_mem st ?p)" and path: "path_ok mmu Q ls (pte_mem st) (baseof mmu (pte_mem st ?p)) addr"
        using Cons.prems(5) by (auto simp: Let_def)
      have sub: "foot mmu Q ls (pte_mem st) (baseof mmu (pte_mem st ?p)) \<subseteq> F" "tree_ok mmu Q ls (pte_mem st) (baseof mmu (pte_mem st ?p))"
        using Cons.prems(4,7) own Q by auto
      have "ptwalk_loop mmu addr flags ls (baseof mmu (pte_mem st ?p)) st = Inr (ep, st')"
        using Cons.prems(1) True Cons by (simp add: Let_def)
      from Cons.IH [OF this _ lv(1) sub(2) path Cons.prems(6) sub(1)] Cons
      obtain used where g: "grown mmu Q ls (baseof mmu (pte_mem st ?p)) st used st'"
        "leaf mmu Q ls (pte_mem st') (baseof mmu (pte_mem st ?p)) addr = Some ep" by auto
      have "pages mmu used \<inter> F = {}"
        using fresh_pages_append [of mmu F used "pg_avail st'"] fresh_pages_disjoint [of mmu F used] Cons.prems(6) g(1)
        by (simp add: grown_def)
      then have "pages mmu used \<inter> foot mmu Q (info # ls) (pte_mem st) cur = {}" using Cons.prems(7) by blast
      from grown_child [OF Cons.prems(4,3) _ refl Q refl this g] Cons show ?thesis by blast
    next
      case False
      let ?e = "\<lambda>pg. pg OR PTE_P OR flags"
      obtain pg st1 where alloc: "pgallocz mmu st = Inr (pg, st1)"
        and rest: "ptwalk_loop mmu addr flags ls pg (st1\<lparr>pte_mem := (pte_mem st1)(?p := ?e pg)\<rparr>) = Inr (ep, st')"
        using Cons.prems(1) False Cons by (auto simp: Let_def bindE_eq_Inr)
      define st2 where "st2 = st1\<lparr>pte_mem := (pte_mem st1)(?p := ?e pg)\<rparr>"
      have av: "pg_avail st = pg # pg_avail st2" and st2: "st2 = st\<lparr>pg_avail := pg_avail st2, pte_mem := pte_mem st2\<rparr>"
        and mem2: "pte_mem st2 a = (if a = ?p then ?e pg else if a \<in> page mmu pg then 0 else pte_mem st a)" for a
        using alloc unfolding st2_def by (auto simp: pgallocz_Inr)
      have fr: "page mmu pg \<inter> F = {}" "fresh_pages mmu (F \<union> page mmu pg) (pg_avail st2)" and al: "baseof mmu pg = pg"
        using Cons.prems(6) av by auto
      have e: "Q (?e pg)" "baseof mmu (?e pg) = pg" using flags [OF al] by auto
      have pf: "page mmu pg \<inter> foot mmu Q (info # ls) (pte_mem st) cur = {}" using fr(1) Cons.prems(7) by blast
      note ins = insert_table [OF Cons.prems(4,3) Cons own False e pf mem2]
      have Q: "Q (pte_mem st2 ?p)" "baseof mmu (pte_mem st2 ?p) = pg" using mem2 e by auto
      have path: "path_ok mmu Q ls (pte_mem st2) pg addr"
        using mp [OF ins(4) Cons.prems(5)] Q Q_present [OF Q(1)] by (simp add: Let_def)
      have tree: "tree_ok mmu Q ls (pte_mem st2) pg" using ins(1) own Q by auto
      have o: "own info' pg \<subseteq> page mmu pg" using own_page [of info'] lv(1) Cons by simp
      have sub: "foot mmu Q ls (pte_mem st2) pg \<subseteq> foot mmu Q (info # ls) (pte_mem st2) cur" using own Q by auto
      then have F: "foot mmu Q ls (pte_mem st2) pg \<subseteq> F \<union> page mmu pg" using ins(2) Cons.prems(7) o by blast
      from Cons.IH [OF rest [folded st2_def] _ lv(1) tree path fr(2) F] Cons
      obtain used where g: "grown mmu Q ls pg st2 used st'" "leaf mmu Q ls (pte_mem st') pg addr = Some ep" by auto
      have "pages mmu used \<inter> (F \<union> page mmu pg) = {}"
        using fresh_pages_append [of mmu _ used "pg_avail st'"] fresh_pages_disjoint [of mmu _ used] fr(2) g(1)
        by (simp add: grown_def)
      then have "pages mmu used \<inter> foot mmu Q (info # ls) (pte_mem st2) cur = {}" using ins(2) Cons.prems(7) o by blast
      from grown_child [OF ins(1) Cons.prems(3) _ refl Q(1) Q(2) [symmetric] this g] Cons
      have g': "grown mmu Q (info # ls) cur st2 used st'" "leaf mmu Q (info # ls) (pte_mem st') cur addr = Some ep" by auto
      have "grown mmu Q (info # ls) cur st (pg # used) st'"
        using own by (intro grown_trans [OF g'(1) av st2 ins(2) o mem2 _ ins(3-5)]) simp
      then show ?thesis using g'(2) by blast
    qed
  qed
qed simp

text \<open>Once the tables exist, a walk allocates nothing and returns the last entry.\<close>

lemma ptwalk_loop_leaf: "leaf mmu Q infos (pte_mem st) cur a = Some ep \<Longrightarrow> ptwalk_loop mmu a flags infos cur st = Inr (ep, st)"
proof (induction infos arbitrary: cur)
  case (Cons info ls)
  then show ?case by (cases ls) (auto simp: Let_def split: if_splits dest: Q_present)
qed simp

lemma ptwalk_loop_returns:
  "infos \<noteq> [] \<Longrightarrow> length infos \<le> Suc (length (pg_avail st)) \<Longrightarrow> 0 \<notin> set (pg_avail st) \<Longrightarrow>
     \<exists>r. ptwalk_loop mmu a flags infos cur st = Inr r"
proof (induction infos arbitrary: cur st)
  case (Cons info ls)
  show ?case
  proof (cases ls)
    case ls: (Cons info' infos)
    then obtain pg pgs where "pg_avail st = pg # pgs" using Cons.prems(2) by (cases "pg_avail st") auto
    then show ?thesis using Cons.prems Cons.IH ls by (auto simp: Let_def pgallocz_def)
  qed simp
qed simp

lemma leaf_walk:
  "leaf mmu Q infos mem cur a = Some ep \<Longrightarrow> walk mmu Q infos mem cur a = (if Q (mem ep) then Some (mem ep) else None)"
  by (induction infos arbitrary: cur) (auto simp: Let_def split: if_splits)

lemma leaf_path:
  "leaf mmu Q infos mem cur a = Some ep \<Longrightarrow> path_ok mmu Q infos mem cur a \<longleftrightarrow> (present (mem ep) \<longrightarrow> Q (mem ep))"
  by (induction infos arbitrary: cur) (auto simp: Let_def split: if_splits dest: Q_present)

lemma leaf_foot: "leaf mmu Q infos mem cur a = Some ep \<Longrightarrow> set infos \<subseteq> set (mmu_levels mmu) \<Longrightarrow> ep \<in> foot mmu Q infos mem cur"
proof (induction infos arbitrary: cur)
  case (Cons info ls)
  have "pt_entry cur (indexof a info) \<in> own info cur" using Cons.prems(2) by (simp add: index_own)
  then show ?case using Cons by (auto simp: Let_def split: if_splits)
qed simp

lemma leaf_set:
  assumes "leaf mmu Q infos mem cur a = Some ep" "tree_ok mmu Q infos mem cur" "set infos \<subseteq> set (mmu_levels mmu)"
  shows "leaf mmu Q infos (mem(ep := v)) cur a = Some ep"
  using assms
proof (induction infos arbitrary: cur)
  case (Cons info ls)
  let ?p = "pt_entry cur (indexof a info)"
  have own: "?p \<in> own info cur" using Cons.prems(3) by (auto intro: index_own)
  show ?case
  proof (cases "ls = []")
    case False
    then have Q: "Q (mem ?p)" and l: "leaf mmu Q ls mem (baseof mmu (mem ?p)) a = Some ep"
      using Cons.prems(1) by (auto simp: Let_def split: if_splits)
    have "ep \<in> foot mmu Q ls mem (baseof mmu (mem ?p))" using leaf_foot [OF l] Cons.prems(3) by simp
    then have "?p \<noteq> ep" using Cons.prems(2) own Q by auto
    then show ?thesis using Cons.IH [OF l] Cons.prems(2,3) own Q False by (auto simp: Let_def)
  qed (use Cons.prems in simp)
qed simp

text \<open>Writing the last entry of an address changes the translation of the addresses with the same indices only.\<close>

lemma set_leaf:
  assumes "leaf mmu Q infos mem cur a = Some ep" "tree_ok mmu Q infos mem cur" "set infos \<subseteq> set (mmu_levels mmu)"
  shows "tree_ok mmu Q infos (mem(ep := v)) cur \<and> foot mmu Q infos (mem(ep := v)) cur = foot mmu Q infos mem cur \<and>
    walk mmu Q infos (mem(ep := v)) cur x =
      (if same_index infos x a then (if Q v then Some v else None) else walk mmu Q infos mem cur x) \<and>
    path_ok mmu Q infos (mem(ep := v)) cur x =
      (if same_index infos x a then present v \<longrightarrow> Q v else path_ok mmu Q infos mem cur x) \<and>
    subtables mmu Q infos (mem(ep := v)) cur = subtables mmu Q infos mem cur"
  using assms
proof (induction infos arbitrary: cur)
  case (Cons info ls)
  let ?p = "pt_entry cur (indexof a info)" and ?q = "pt_entry cur (indexof x info)"
  have lv: "info \<in> set (mmu_levels mmu)" "set ls \<subseteq> set (mmu_levels mmu)" using Cons.prems(3) by auto
  have own: "?p \<in> own info cur" "?q \<in> own info cur" using lv(1) by (auto intro: index_own)
  have qp: "?q = ?p \<longleftrightarrow> indexof x info = indexof a info" using lv(1) by (rule index_eq)
  show ?case
  proof (cases "ls = []")
    case True
    then show ?thesis using Cons.prems(1) qp own by (auto simp: Let_def same_index_def)
  next
    case False
    let ?c = "baseof mmu (mem ?p)"
    have Q: "Q (mem ?p)" and l: "leaf mmu Q ls mem ?c a = Some ep"
      using Cons.prems(1) False by (auto simp: Let_def split: if_splits)
    have t: "tree_ok mmu Q ls mem ?c" using Cons.prems(2) own Q by auto
    note IH = Cons.IH [OF l t lv(2)]
    have ep: "ep \<in> foot mmu Q ls mem ?c" using leaf_foot [OF l lv(2)] .
    have IH': "tree_ok mmu Q ls (mem(ep := v)) ?c" "foot mmu Q ls (mem(ep := v)) ?c = foot mmu Q ls mem ?c"
      using IH by blast+
    have u: "\<forall>b. b \<notin> foot mmu Q ls mem ?c \<union> {} \<longrightarrow> (mem(ep := v)) b = mem b"
      "tree_ok mmu Q ls (mem(ep := v)) ?c" "foot mmu Q ls mem ?c \<subseteq> foot mmu Q ls (mem(ep := v)) ?c"
      "foot mmu Q ls (mem(ep := v)) ?c \<subseteq> foot mmu Q ls mem ?c \<union> {}"
      unfolding IH'(2) using IH'(1) ep by (auto simp del: foot.simps tree_ok.simps)
    note cu = child_update [OF Cons.prems(2,3) own(1) Q refl _ u] and cw = child_walk [OF Cons.prems(2,3) own(1) Q refl _ u, of x]
    have si: "same_index (info # ls) x a \<longleftrightarrow> ?q = ?p \<and> same_index ls x a" using qp by (auto simp: same_index_def)
    have "foot mmu Q (info # ls) (mem(ep := v)) cur = foot mmu Q (info # ls) mem cur" using cu(2,3) by blast
    moreover have "?q = ?p \<Longrightarrow> walk mmu Q (info # ls) mem cur x = walk mmu Q ls mem ?c x \<and>
        path_ok mmu Q (info # ls) mem cur x = path_ok mmu Q ls mem ?c x"
      using Q Q_present [OF Q] False by (simp add: Let_def)
    moreover have "subtables mmu Q ls (mem(ep := v)) ?c = subtables mmu Q ls mem ?c \<union> {}" unfolding Un_empty_right using IH by blast
    from child_tables [OF Cons.prems(2,3) own(1) Q refl _ u this]
    have "subtables mmu Q (info # ls) (mem(ep := v)) cur = subtables mmu Q (info # ls) mem cur" by simp
    moreover obtain m' where m': "m' = mem(ep := v)" by blast
    ultimately show ?thesis using cu(1) cw(1,3) IH si False unfolding m' [symmetric]
      by (cases "?q = ?p") (simp_all del: walk.simps path_ok.simps tree_ok.simps foot.simps subtables.simps)
  qed
qed simp

end

section \<open>User address spaces\<close>

definition translate :: "'w::len word mmu_config \<Rightarrow> 'w word AddrSpace \<Rightarrow> 'w word vme \<Rightarrow> 'w word \<Rightarrow> 'w word option" where
  "translate mmu as st x = walk mmu user_pte (mmu_levels mmu) (pte_mem st) (as_ptr as) x"

definition as_foot :: "'w::len word mmu_config \<Rightarrow> 'w word AddrSpace \<Rightarrow> 'w word vme \<Rightarrow> 'w word set" where
  "as_foot mmu as st = foot mmu user_pte (mmu_levels mmu) (pte_mem st) (as_ptr as)"

definition as_tables :: "'w::len word mmu_config \<Rightarrow> 'w word AddrSpace \<Rightarrow> 'w word vme \<Rightarrow> 'w word set" where
  "as_tables mmu as st = subtables mmu user_pte (mmu_levels mmu) (pte_mem st) (as_ptr as)"

abbreviation uvm_area :: "'w::len word vm_area list \<Rightarrow> 'w word Area" where
  "uvm_area areas \<equiv> va_area (areas ! 0)"

text \<open>
  The invariant of an address space: its user tables form a tree, the allocator does not own them, and
  the entries on the way of a user address carry the user bit.
\<close>

definition vm_ok :: "'w::len word mmu_config \<Rightarrow> 'w word vm_area list \<Rightarrow> 'w word AddrSpace \<Rightarrow> 'w word vme \<Rightarrow> bool" where
  "vm_ok mmu areas as st \<longleftrightarrow> tree_ok mmu user_pte (mmu_levels mmu) (pte_mem st) (as_ptr as) \<and>
     fresh_pages mmu (as_foot mmu as st) (pg_avail st) \<and>
     (\<forall>x. IN_RANGE x (uvm_area areas) \<longrightarrow> path_ok mmu user_pte (mmu_levels mmu) (pte_mem st) (as_ptr as) x)"

definition pte_of :: "'w::len word \<Rightarrow> u32 \<Rightarrow> 'w word" where
  "pte_of pa prot = pa OR PTE_P OR PTE_U OR (if prot AND MMAP_WRITE \<noteq> 0 then PTE_W else 0)"

text \<open>What a successful \<open>map\<close> does to an address space.\<close>

definition mapped :: "'w::len word mmu_config \<Rightarrow> 'w word vm_area list \<Rightarrow> 'w word AddrSpace \<Rightarrow> 'w word \<Rightarrow> 'w word option \<Rightarrow>
    'w word vme \<Rightarrow> 'w word vme \<Rightarrow> bool" where
  "mapped mmu areas as va e st st' \<longleftrightarrow> vm_ok mmu areas as st' \<and>
     (\<forall>x. IN_RANGE x (uvm_area areas) \<longrightarrow> translate mmu as st' x = (if baseof mmu x = va then e else translate mmu as st x)) \<and>
     pg_freed st' = pg_freed st \<and>
     (\<exists>used. pg_avail st = used @ pg_avail st' \<and> as_tables mmu as st' = as_tables mmu as st \<union> set used \<and>
        (\<forall>a. a \<notin> as_foot mmu as st \<union> pages mmu used \<longrightarrow> pte_mem st' a = pte_mem st a))"

locale user_tables = page_tables mmu user_pte for mmu :: "'w::len word mmu_config" +
  fixes areas :: "'w word vm_area list"
  assumes low: "baseof mmu 7 = 0" and large: "3 < LENGTH('w)"
    and page_index: "IN_RANGE x (uvm_area areas) \<Longrightarrow> IN_RANGE y (uvm_area areas) \<Longrightarrow>
      same_index (mmu_levels mmu) x y \<longleftrightarrow> baseof mmu x = baseof mmu y"
    and levels: "mmu_levels mmu \<noteq> []"
begin

lemma baseof_or: "baseof mmu (x OR y) = baseof mmu x OR baseof mmu y"
  by (simp add: baseof_def bit.conj_disj_distrib2)

lemma flag_bits: "(x OR PTE_P OR y) AND PTE_P = (PTE_P :: 'w word)" "(x OR PTE_P OR PTE_W OR PTE_U) AND PTE_U = (PTE_U :: 'w word)"
    "(x OR PTE_P OR PTE_U OR y) AND PTE_U = (PTE_U :: 'w word)"
  by (rule bit_word_eqI; auto simp: bit_simps)+

lemma flags_nz: "(PTE_P :: 'w word) \<noteq> 0" "(PTE_U :: 'w word) \<noteq> 0"
proof -
  have "(2 :: 'w word) ^ 2 \<noteq> 0" using large by (simp only: exp_eq_zero_iff)
  then show "(PTE_P :: 'w word) \<noteq> 0" "(PTE_U :: 'w word) \<noteq> 0" by (simp_all add: PTE_P_def PTE_U_def)
qed

lemma table_pte:
  assumes "baseof mmu pg = pg"
  shows "user_pte (pg OR PTE_P OR (PTE_W OR PTE_U)) \<and> baseof mmu (pg OR PTE_P OR (PTE_W OR PTE_U)) = pg"
proof -
  have "PTE_P OR (PTE_W OR PTE_U) = (7 :: 'w word)" by (simp add: PTE_P_def PTE_W_def PTE_U_def)
  then have "baseof mmu (pg OR PTE_P OR (PTE_W OR PTE_U)) = pg" using assms low by (simp add: or.assoc baseof_or)
  then show ?thesis using flag_bits(1,2) flags_nz by (simp add: user_pte_def present_def)
qed

lemma user_pte_flags: "user_pte (x OR PTE_P OR PTE_U OR y :: 'w word)"
  by (simp add: user_pte_def present_def flag_bits flags_nz)

lemma user_pte_of: "user_pte (pte_of pa prot :: 'w word)"
  unfolding pte_of_def by (rule user_pte_flags)

lemma ptwalk_user:
  assumes ok: "vm_ok mmu areas as st" and va: "IN_RANGE va (uvm_area areas)" and w: "ptwalk mmu as va (PTE_W OR PTE_U) st = Inr (ep, st')"
  shows "\<exists>used. grown mmu user_pte (mmu_levels mmu) (as_ptr as) st used st' \<and> leaf mmu user_pte (mmu_levels mmu) (pte_mem st') (as_ptr as) va = Some ep"
  using ok va w by (intro ptwalk_loop_ok [where flags = "PTE_W OR PTE_U"])
    (auto simp: vm_ok_def as_foot_def ptwalk_def levels dest: table_pte)

text \<open>Setting the entry that a walk has found.\<close>

lemma set_pte:
  assumes ok: "vm_ok mmu areas as st" and va: "IN_RANGE va (uvm_area areas)" "baseof mmu va = va"
    and g: "grown mmu user_pte (mmu_levels mmu) (as_ptr as) st used st'"
    and l: "leaf mmu user_pte (mmu_levels mmu) (pte_mem st') (as_ptr as) va = Some ep" and v: "present v \<longrightarrow> user_pte v"
  shows "mapped mmu areas as va (if user_pte v then Some v else None) st (st'\<lparr>pte_mem := (pte_mem st')(ep := v)\<rparr>)"
proof -
  let ?w = "walk mmu user_pte (mmu_levels mmu)" and ?f = "foot mmu user_pte (mmu_levels mmu)" and ?a = "as_ptr as"
  note g' = g [unfolded grown_def]
  have t: "tree_ok mmu user_pte (mmu_levels mmu) (pte_mem st') ?a" using g' by blast
  note sl = set_leaf [OF l t order_refl, of v]
  have f: "?f ((pte_mem st')(ep := v)) ?a = ?f (pte_mem st') ?a" using sl by blast
  have ep: "ep \<in> ?f (pte_mem st') ?a" using leaf_foot [OF l] by simp
  have fr: "fresh_pages mmu (?f (pte_mem st) ?a) (used @ pg_avail st')" using ok g' by (simp add: vm_ok_def as_foot_def)
  then have "fresh_pages mmu (?f (pte_mem st') ?a) (pg_avail st')"
    using g' by (auto simp: fresh_pages_append intro: fresh_pages_mono)
  moreover have "path_ok mmu user_pte (mmu_levels mmu) ((pte_mem st')(ep := v)) ?a x" if "IN_RANGE x (uvm_area areas)" for x
  proof -
    have "path_ok mmu user_pte (mmu_levels mmu) (pte_mem st') ?a x" using g' ok that by (auto simp: vm_ok_def)
    then show ?thesis using sl [of x] v by simp
  qed
  ultimately have "vm_ok mmu areas as (st'\<lparr>pte_mem := (pte_mem st')(ep := v)\<rparr>)"
    using sl f by (simp add: vm_ok_def as_foot_def)
  moreover have "translate mmu as (st'\<lparr>pte_mem := (pte_mem st')(ep := v)\<rparr>) x =
      (if baseof mmu x = va then if user_pte v then Some v else None else translate mmu as st x)"
    if "IN_RANGE x (uvm_area areas)" for x
  proof -
    have "same_index (mmu_levels mmu) x va \<longleftrightarrow> baseof mmu x = va" using page_index [OF that va(1)] va(2) by simp
    then show ?thesis using sl [of x] g' by (simp add: translate_def)
  qed
  moreover have "((pte_mem st')(ep := v)) a = pte_mem st a" if "a \<notin> as_foot mmu as st \<union> pages mmu used" for a
  proof -
    have "a \<notin> ?f (pte_mem st') ?a" using that g' by (auto simp: as_foot_def)
    then have "a \<noteq> ep" using ep by blast
    then show ?thesis using that g' by (simp add: as_foot_def)
  qed
  moreover have "as_tables mmu as (st'\<lparr>pte_mem := (pte_mem st')(ep := v)\<rparr>) = as_tables mmu as st \<union> set used"
    using sl g' by (simp add: as_tables_def)
  moreover have "pg_freed st' = pg_freed st"
  proof -
    have "st' = st\<lparr>pg_avail := pg_avail st', pte_mem := pte_mem st'\<rparr>" using g' by blast
    then have "pg_freed st' = pg_freed (st\<lparr>pg_avail := pg_avail st', pte_mem := pte_mem st'\<rparr>)" by (rule arg_cong)
    then show ?thesis by simp
  qed
  ultimately show ?thesis using g' by (auto simp: mapped_def)
qed

text \<open>\<open>map\<close>, once the walk has returned.\<close>

lemma vme_map_walked:
  assumes ok: "vm_ok mmu areas as st" and va: "IN_RANGE va (uvm_area areas)" "baseof mmu va = va" and pa: "baseof mmu pa = pa"
    and w: "ptwalk mmu as va (PTE_W OR PTE_U) st = Inr (ep, st1)"
  shows "if prot = MMAP_NONE then
      (if translate mmu as st va = None then vme_map mmu areas as va pa prot st = Inl (Panic ''unmapping a non-mapped page'')
       else \<exists>st'. vme_map mmu areas as va pa prot st = Inr st' \<and> mapped mmu areas as va None st st')
    else
      (if translate mmu as st va \<noteq> None then vme_map mmu areas as va pa prot st = Inl (Panic ''remapping a mapped page'')
       else \<exists>st'. vme_map mmu areas as va pa prot st = Inr st' \<and> mapped mmu areas as va (Some (pte_of pa prot)) st st')"
proof -
  obtain used where g: "grown mmu user_pte (mmu_levels mmu) (as_ptr as) st used st1"
    and l: "leaf mmu user_pte (mmu_levels mmu) (pte_mem st1) (as_ptr as) va = Some ep"
    using ptwalk_user [OF ok va(1) w] by blast
  have t: "tree_ok mmu user_pte (mmu_levels mmu) (pte_mem st1) (as_ptr as)"
    and p: "path_ok mmu user_pte (mmu_levels mmu) (pte_mem st1) (as_ptr as) va"
    and wk: "walk mmu user_pte (mmu_levels mmu) (pte_mem st1) (as_ptr as) va = translate mmu as st va"
    using g ok va(1) by (auto simp: grown_def vm_ok_def translate_def)
  have tr: "present (pte_mem st1 ep) \<longleftrightarrow> translate mmu as st va \<noteq> None"
    using leaf_walk [OF l] leaf_path [OF l] p wk by (auto simp: user_pte_def)
  have again: "ptwalk mmu as va (PTE_W OR PTE_U) (st1\<lparr>pte_mem := (pte_mem st1)(ep := v)\<rparr>) =
      Inr (ep, st1\<lparr>pte_mem := (pte_mem st1)(ep := v)\<rparr>)" for v
    unfolding ptwalk_def using leaf_set [OF l t] by (intro ptwalk_loop_leaf) simp
  have "mapped mmu areas as va None st (st1\<lparr>pte_mem := (pte_mem st1)(ep := 0)\<rparr>)"
    "mapped mmu areas as va (Some (pte_of pa prot)) st (st1\<lparr>pte_mem := (pte_mem st1)(ep := pte_of pa prot)\<rparr>)"
    using set_pte [OF ok va g l, of 0] set_pte [OF ok va g l, of "pte_of pa prot"] user_pte_of
    by (simp_all add: user_pte_def present_def)
  then show ?thesis
    using w tr again va pa
    by (auto simp: vme_map_def panic_on_def ROUNDDOWN_def baseof_def pte_of_def Let_def)
qed

lemma vme_map_cases:
  assumes ok: "vm_ok mmu areas as st" and va: "IN_RANGE va (uvm_area areas)" "baseof mmu va = va" and pa: "baseof mmu pa = pa"
    and enough: "length (mmu_levels mmu) \<le> Suc (length (pg_avail st))"
  shows "if prot = MMAP_NONE then
      (if translate mmu as st va = None then vme_map mmu areas as va pa prot st = Inl (Panic ''unmapping a non-mapped page'')
       else \<exists>st'. vme_map mmu areas as va pa prot st = Inr st' \<and> mapped mmu areas as va None st st')
    else
      (if translate mmu as st va \<noteq> None then vme_map mmu areas as va pa prot st = Inl (Panic ''remapping a mapped page'')
       else \<exists>st'. vme_map mmu areas as va pa prot st = Inr st' \<and> mapped mmu areas as va (Some (pte_of pa prot)) st st')"
proof -
  have "0 \<notin> set (pg_avail st)" using ok fresh_pages_nonzero by (auto simp: vm_ok_def)
  then obtain ep st1 where "ptwalk mmu as va (PTE_W OR PTE_U) st = Inr (ep, st1)"
    using ptwalk_loop_returns [OF levels enough] unfolding ptwalk_def by fast
  from vme_map_walked [OF ok va pa this] show ?thesis .
qed

lemma vme_map_Inr:
  assumes ok: "vm_ok mmu areas as st" and r: "vme_map mmu areas as va pa prot st = Inr st'"
  shows "\<exists>e. mapped mmu areas as va e st st'"
proof -
  obtain ep st1 where w: "ptwalk mmu as va (PTE_W OR PTE_U) st = Inr (ep, st1)"
    and va: "IN_RANGE va (uvm_area areas)" "baseof mmu va = va" "baseof mmu pa = pa"
    using r by (fastforce simp: vme_map_def bindE_eq_Inr panic_on_def ROUNDDOWN_def baseof_def split: if_splits)
  from vme_map_walked [OF ok va w, of prot] r show ?thesis by (auto split: if_splits)
qed

end

section \<open>The two configurations\<close>

text \<open>The index of a level is a field of the address.\<close>

lemma index_field:
  assumes "pt_mask info = push_bit s (mask n)" "pt_shift info = s"
  shows "indexof a info = unat (take_bit n (drop_bit s (a :: 'w::len word)))"
proof -
  have "drop_bit s (a AND push_bit s (mask n)) = take_bit n (drop_bit s a)"
    by (rule bit_word_eqI) (auto simp: bit_simps dest: bit_imp_le_length)
  then show ?thesis using assms by (simp add: indexof_def)
qed

lemma index_field_less:
  assumes "pt_mask info = push_bit s (mask n)" "pt_shift info = s" "pt_bits info = n"
  shows "indexof (a :: 'w::len word) info < 2 ^ pt_bits info"
  using assms by (simp add: index_field unsigned_take_bit_eq)

lemma field_eq:
  assumes "pt_mask info = push_bit s (mask n)" "pt_shift info = s"
  shows "indexof (x :: 'w::len word) info = indexof y info \<longleftrightarrow> (\<forall>k. s \<le> k \<and> k < s + n \<longrightarrow> bit x k = bit y k)"
proof -
  have "indexof x info = indexof y info \<longleftrightarrow> take_bit n (drop_bit s x) = take_bit n (drop_bit s y)"
    by (simp add: index_field [OF assms] word_unat_eq_iff)
  also have "\<dots> \<longleftrightarrow> (\<forall>k<n. bit x (s + k) = bit y (s + k))"
    by (auto simp: bit_eq_iff bit_simps) (metis add_lessD1 add.commute bit_imp_le_length)+
  also have "\<dots> \<longleftrightarrow> (\<forall>k. s \<le> k \<and> k < s + n \<longrightarrow> bit x k = bit y k)"
    by (auto simp: le_iff_add)
  finally show ?thesis .
qed

lemma baseof_eq:
  assumes "of_nat (pgsize mmu - 1) = (mask 12 :: 'w::len word)"
  shows "baseof mmu x = baseof mmu (y :: 'w word) \<longleftrightarrow> (\<forall>k\<ge>12. bit x k = bit y k)"
  using assms by (auto simp: baseof_def bit_eq_iff bit_simps dest: bit_imp_le_length)

lemma x86_fields:
  "info \<in> set (mmu_levels mmu_x86) \<Longrightarrow> pt_mask info = push_bit (pt_shift info) (mask (pt_bits info))"
  by (auto simp: mmu_levels_def mmu_x86_def mask_eq_exp_minus_1)

lemma x86_64_fields:
  "info \<in> set (mmu_levels mmu_x86_64) \<Longrightarrow> pt_mask info = push_bit (pt_shift info) (mask (pt_bits info))"
  by (auto simp: mmu_levels_def mmu_x86_64_def mask_eq_exp_minus_1)

lemma same_index_bits:
  assumes "\<And>info. info \<in> set infos \<Longrightarrow> pt_mask info = push_bit (pt_shift info) (mask (pt_bits info))"
  shows "same_index infos x (y :: 'w::len word) \<longleftrightarrow>
    (\<forall>info\<in>set infos. \<forall>k. pt_shift info \<le> k \<and> k < pt_shift info + pt_bits info \<longrightarrow> bit x k = bit y k)"
  unfolding same_index_def using field_eq [OF assms refl] by (intro ball_cong) auto

lemma all_between_join:
  fixes a b c :: nat
  assumes "a \<le> b" "b \<le> c"
  shows "(\<forall>k. b \<le> k \<and> k < c \<longrightarrow> P k) \<and> (\<forall>k. a \<le> k \<and> k < b \<longrightarrow> P k) \<longleftrightarrow> (\<forall>k. a \<le> k \<and> k < c \<longrightarrow> P k)"
proof -
  have "a \<le> k \<and> k < c \<longleftrightarrow> (b \<le> k \<and> k < c) \<or> (a \<le> k \<and> k < b)" for k using assms by linarith
  then show ?thesis by blast
qed

lemma all_between_top:
  assumes "\<And>k. c \<le> k \<Longrightarrow> P k"
  shows "(\<forall>k. a \<le> k \<and> k < c \<longrightarrow> P k) \<longleftrightarrow> (\<forall>k\<ge>a. P (k :: nat))"
  using assms by (meson not_le)

lemma x86_same_index: "same_index (mmu_levels mmu_x86) x y \<longleftrightarrow> baseof mmu_x86 x = baseof mmu_x86 y"
proof -
  have b: "bit w k \<Longrightarrow> k < 32" for w :: u32 and k by (drule bit_imp_le_length) simp
  have "same_index (mmu_levels mmu_x86) x y \<longleftrightarrow>
      (\<forall>k. 22 \<le> k \<and> k < 32 \<longrightarrow> bit x k = bit y k) \<and> (\<forall>k. 12 \<le> k \<and> k < 22 \<longrightarrow> bit x k = bit y k)"
    by (subst same_index_bits, erule x86_fields) (simp add: mmu_levels_def mmu_x86_def)
  also have "\<dots> \<longleftrightarrow> (\<forall>k\<ge>12. bit x k = bit y k)"
    using b [of x] b [of y] all_between_join [of 12 22 32 "\<lambda>k. bit x k = bit y k"]
      all_between_top [of 32 "\<lambda>k. bit x k = bit y k" 12] by (simp add: not_less [symmetric]) blast
  also have "\<dots> \<longleftrightarrow> baseof mmu_x86 x = baseof mmu_x86 y"
    by (rule baseof_eq [symmetric]) (simp add: mmu_x86_def mask_eq_exp_minus_1)
  finally show ?thesis .
qed

lemma x86_64_same_index:
  assumes "IN_RANGE x (uvm_area vm_areas_x86_64)" "IN_RANGE y (uvm_area vm_areas_x86_64)"
  shows "same_index (mmu_levels mmu_x86_64) x y \<longleftrightarrow> baseof mmu_x86_64 x = baseof mmu_x86_64 y"
proof -
  have b: "k < 48" if "IN_RANGE w (uvm_area vm_areas_x86_64)" "bit w k" for w k
  proof -
    have "w < 0x108000000000" using that(1) by (simp add: IN_RANGE_def vm_areas_x86_64_def)
    then have "uint w < 2 ^ 48" by (simp add: word_less_def)
    then have "take_bit 48 (uint w) = uint w" by (simp add: take_bit_int_eq_self)
    moreover have "bit (uint w) k" using that(2) bit_imp_le_length [of w k] by (simp add: bit_uint_iff)
    ultimately show ?thesis by (metis bit_take_bit_iff)
  qed
  let ?P = "\<lambda>k. bit x k = bit y k"
  have j: "(\<forall>k. 21 \<le> k \<and> k < 30 \<longrightarrow> ?P k) \<and> (\<forall>k. 12 \<le> k \<and> k < 21 \<longrightarrow> ?P k) \<longleftrightarrow> (\<forall>k. 12 \<le> k \<and> k < 30 \<longrightarrow> ?P k)"
    "(\<forall>k. 30 \<le> k \<and> k < 39 \<longrightarrow> ?P k) \<and> (\<forall>k. 12 \<le> k \<and> k < 30 \<longrightarrow> ?P k) \<longleftrightarrow> (\<forall>k. 12 \<le> k \<and> k < 39 \<longrightarrow> ?P k)"
    "(\<forall>k. 39 \<le> k \<and> k < 48 \<longrightarrow> ?P k) \<and> (\<forall>k. 12 \<le> k \<and> k < 39 \<longrightarrow> ?P k) \<longleftrightarrow> (\<forall>k. 12 \<le> k \<and> k < 48 \<longrightarrow> ?P k)"
    by (rule all_between_join; simp)+
  have top: "(\<forall>k. 12 \<le> k \<and> k < 48 \<longrightarrow> ?P k) \<longleftrightarrow> (\<forall>k\<ge>12. ?P k)"
    using b [OF assms(1)] b [OF assms(2)] by (intro all_between_top) (meson not_le)
  have "same_index (mmu_levels mmu_x86_64) x y \<longleftrightarrow>
      (\<forall>k. 39 \<le> k \<and> k < 48 \<longrightarrow> bit x k = bit y k) \<and> (\<forall>k. 30 \<le> k \<and> k < 39 \<longrightarrow> bit x k = bit y k) \<and>
      (\<forall>k. 21 \<le> k \<and> k < 30 \<longrightarrow> bit x k = bit y k) \<and> (\<forall>k. 12 \<le> k \<and> k < 21 \<longrightarrow> bit x k = bit y k)"
    by (subst same_index_bits, erule x86_64_fields) (simp add: mmu_levels_def mmu_x86_64_def)
  also have "\<dots> \<longleftrightarrow> (\<forall>k\<ge>12. bit x k = bit y k)"
    by (simp only: j top)
  also have "\<dots> \<longleftrightarrow> baseof mmu_x86_64 x = baseof mmu_x86_64 y"
    by (rule baseof_eq [symmetric]) (simp add: mmu_x86_64_def mask_eq_exp_minus_1)
  finally show ?thesis .
qed

interpretation x86_vm: user_tables mmu_x86 vm_areas_x86
proof
  show "info \<in> set (mmu_levels mmu_x86) \<Longrightarrow> indexof a info < 2 ^ pt_bits info" for info a
    using index_field_less [OF x86_fields] by simp
qed (simp_all add: x86_same_index, auto simp: user_pte_def mmu_levels_def mmu_x86_def baseof_def)

interpretation x86_64_vm: user_tables mmu_x86_64 vm_areas_x86_64
proof
  show "info \<in> set (mmu_levels mmu_x86_64) \<Longrightarrow> indexof a info < 2 ^ pt_bits info" for info a
    using index_field_less [OF x86_64_fields] by simp
qed (simp_all add: x86_64_same_index, auto simp: user_pte_def mmu_levels_def mmu_x86_64_def baseof_def)

end
