(* ===== verification/Vme_Space.thy ===== *)
theory Vme_Space
  imports Vme_Correct "HOL-Library.Multiset"
begin

text \<open>
  The life of an address space: \<open>protect\<close> creates it with the kernel mappings and no user page,
  \<open>map\<close> fills it, \<open>unprotect\<close> gives its tables back. The pages given back are exactly the
  pages taken.
\<close>

section \<open>Tearing down\<close>

fun freed_tables :: "'w::len word mmu_config \<Rightarrow> bool \<Rightarrow> 'w word ptinfo list \<Rightarrow> ('w word \<Rightarrow> 'w word) \<Rightarrow> 'w word \<Rightarrow> 'w word list" where
  "freed_tables mmu level0 [] mem pt = []"
| "freed_tables mmu level0 (info # infos) mem pt =
     concat (map (\<lambda>i. let e = mem (pt_entry pt i) in
         if user_pte e then freed_tables mmu False infos mem (baseof mmu e) else []) [0..<2 ^ pt_bits info]) @
     (if level0 then [] else [pt])"

lemma teardown_eq: "teardown mmu level0 infos pt st = st\<lparr>pg_freed := pg_freed st @ freed_tables mmu level0 infos (pte_mem st) pt\<rparr>"
proof (induction infos arbitrary: level0 pt st)
  case (Cons info infos)
  let ?f = "\<lambda>st i. let e = pte_mem st (pt_entry pt i) in
      if present e \<and> e AND PTE_U \<noteq> 0 then teardown mmu False infos (baseof mmu e) st else st"
  let ?g = "\<lambda>i. let e = pte_mem st (pt_entry pt i) in
      if user_pte e then freed_tables mmu False infos (pte_mem st) (baseof mmu e) else []"
  have "foldl ?f (st\<lparr>pg_freed := fs\<rparr>) xs = st\<lparr>pg_freed := fs @ concat (map ?g xs)\<rparr>" for fs xs
    by (induction xs arbitrary: fs) (auto simp: Cons.IH Let_def user_pte_def)
  from this [of "pg_freed st"] show ?case by (simp add: Let_def)
qed simp

lemma pt_entry_0 [simp]: "pt_entry pt 0 = pt"
  by (simp add: pt_entry_def)

lemma own_self: "pt \<in> own info pt"
  unfolding own_def by (rule image_eqI [of _ _ 0]) simp_all

lemma subtables_foot:
  "infos \<noteq> [] \<Longrightarrow> insert pt (subtables mmu Q infos mem pt) \<subseteq> foot mmu Q infos mem pt"
proof (induction infos arbitrary: pt)
  case (Cons info infos)
  show ?case
  proof (cases "infos = []")
    case False
    then show ?thesis using Cons.IH own_self [of pt info] by fastforce
  qed (simp add: own_self)
qed simp

lemma distinct_concat_map:
  assumes "distinct xs" "\<And>x. x \<in> set xs \<Longrightarrow> distinct (f x)"
    "\<And>x y. x \<in> set xs \<Longrightarrow> y \<in> set xs \<Longrightarrow> x \<noteq> y \<Longrightarrow> set (f x) \<inter> set (f y) = {}"
  shows "distinct (concat (map f xs))"
  using assms by (induction xs) auto

context page_tables
begin

lemma set_freed_tables:
  "set (freed_tables mmu level0 infos mem pt) =
     (if infos = [] then {} else (if level0 then {} else {pt}) \<union> subtables mmu user_pte infos mem pt)"
proof (induction infos arbitrary: level0 pt)
  case (Cons info infos)
  then show ?case by (auto simp: Let_def own_def split: if_splits)
qed simp

lemma distinct_freed_tables:
  assumes "tree_ok mmu user_pte infos mem pt" "set infos \<subseteq> set (mmu_levels mmu)"
  shows "distinct (freed_tables mmu level0 infos mem pt)"
  using assms
proof (induction infos arbitrary: level0 pt)
  case (Cons info infos)
  let ?g = "\<lambda>i. let e = mem (pt_entry pt i) in if user_pte e then freed_tables mmu False infos mem (baseof mmu e) else []"
  have own: "pt_entry pt i \<in> own info pt" if "i < 2 ^ pt_bits info" for i using that by (auto simp: own_def)
  have sub: "set (?g i) \<subseteq> (if user_pte (mem (pt_entry pt i)) then foot mmu user_pte infos mem (baseof mmu (mem (pt_entry pt i))) else {})" for i
    using subtables_foot [of infos] by (auto simp: Let_def set_freed_tables split: if_splits)
  have inj: "pt_entry pt i = pt_entry pt j \<longleftrightarrow> i = j" if "i < 2 ^ pt_bits info" "j < 2 ^ pt_bits info" for i j
    using that fits [of info] Cons.prems(2) by (intro entry_eq) auto
  have "distinct (concat (map ?g [0..<2 ^ pt_bits info]))"
  proof (rule distinct_concat_map)
    show "distinct (?g i)" if "i \<in> set [0..<2 ^ pt_bits info]" for i
      using that Cons own by (auto simp: Let_def)
    show "set (?g i) \<inter> set (?g j) = {}" if "i \<in> set [0..<2 ^ pt_bits info]" "j \<in> set [0..<2 ^ pt_bits info]" "i \<noteq> j" for i j
    proof -
      have "foot mmu user_pte infos mem (baseof mmu (mem (pt_entry pt i))) \<inter> foot mmu user_pte infos mem (baseof mmu (mem (pt_entry pt j))) = {}"
        if "user_pte (mem (pt_entry pt i))" "user_pte (mem (pt_entry pt j))"
        using Cons.prems(1) own inj that \<open>i \<in> _\<close> \<open>j \<in> _\<close> \<open>i \<noteq> j\<close> by auto
      then show ?thesis using sub [of i] sub [of j] by (auto split: if_splits)
    qed
  qed simp
  moreover have "pt \<notin> set (?g i)" if "i < 2 ^ pt_bits info" for i
  proof -
    have "pt \<notin> foot mmu user_pte infos mem (baseof mmu (mem (pt_entry pt i)))" if "user_pte (mem (pt_entry pt i))"
      using Cons.prems(1) own [OF \<open>i < _\<close>] own_self [of pt info] that by auto
    then show ?thesis using sub [of i] by (auto split: if_splits)
  qed
  ultimately show ?case by (auto simp: Let_def)
qed simp

end

section \<open>Sequences of mappings\<close>

fun vme_maps :: "'w::len word mmu_config \<Rightarrow> 'w word vm_area list \<Rightarrow> 'w word AddrSpace \<Rightarrow> ('w word \<times> 'w word \<times> u32) list \<Rightarrow>
    'w word vme \<Rightarrow> 'w word vme res" where
  "vme_maps mmu areas as [] st = Inr st"
| "vme_maps mmu areas as ((va, pa, prot) # ops) st = bindE (vme_map mmu areas as va pa prot st) (vme_maps mmu areas as ops)"

context user_tables
begin

lemma vme_maps_tables:
  assumes "vme_maps mmu areas as ops st = Inr st'" "vm_ok mmu areas as st"
  shows "vm_ok mmu areas as st' \<and> pg_freed st' = pg_freed st \<and>
    (\<exists>used. pg_avail st = used @ pg_avail st' \<and> as_tables mmu as st' = as_tables mmu as st \<union> set used)"
  using assms
proof (induction ops arbitrary: st)
  case (Cons op ops)
  obtain va pa prot st1 where m: "vme_map mmu areas as va pa prot st = Inr st1" and r: "vme_maps mmu areas as ops st1 = Inr st'"
    using Cons.prems(1) by (cases op) (auto simp: bindE_eq_Inr)
  obtain e where e: "mapped mmu areas as va e st st1" using vme_map_Inr [OF Cons.prems(2) m] by blast
  then have "vm_ok mmu areas as st1" by (simp add: mapped_def)
  from Cons.IH [OF r this] e show ?case by (fastforce simp: mapped_def)
qed auto

lemma unprotect_frees:
  assumes "vm_ok mmu areas as st"
  shows "\<exists>ts. unprotect mmu as st = st\<lparr>pg_freed := pg_freed st @ ts\<rparr> \<and> distinct ts \<and> set ts = as_tables mmu as st"
  using assms levels unfolding unprotect_def teardown_eq
  by (intro exI conjI [OF refl]) (auto simp: vm_ok_def as_tables_def set_freed_tables intro: distinct_freed_tables)

lemma fresh_pages_distinct: "fresh_pages mmu X ps \<Longrightarrow> distinct ps \<and> set ps \<inter> X = {}"
proof (induction ps arbitrary: X)
  case (Cons p ps)
  obtain info where "info \<in> set (mmu_levels mmu)" using levels by (cases "mmu_levels mmu") auto
  then have "p \<in> page mmu p" using own_page own_self by blast
  then show ?case using Cons.IH [of "X \<union> page mmu p"] Cons.prems by auto
qed simp

end

section \<open>Creating an address space\<close>

definition cursors :: "'w::len word \<Rightarrow> 'w word \<Rightarrow> nat \<Rightarrow> 'w word list" where
  "cursors cur step n = map (\<lambda>k. cur + of_nat k * step) [0..<n]"

lemma cursors_Suc: "cursors cur step (Suc n) = cur # cursors (cur + step) step n"
proof -
  have "map (\<lambda>k. cur + of_nat k * step) [Suc 0..<Suc n] = map (\<lambda>k. cur + step + of_nat k * step) [0..<n]"
    by (simp add: map_Suc_upt [symmetric] algebra_simps del: upt_Suc)
  then show ?thesis by (simp add: cursors_def upt_conv_Cons del: upt_Suc)
qed

lemma area_loop_run:
  assumes "e = cur + of_nat n * step" "\<And>k. k < n \<Longrightarrow> cur + of_nat k * step \<noteq> (e :: 'w::len word)"
  shows "area_loop f step cur e st = Some (seqs (map f (cursors cur step n)) st)"
  using assms
proof (induction n arbitrary: cur st)
  case 0
  then show ?case by (simp add: area_loop.simps cursors_def)
next
  case (Suc n)
  have "area_loop f step (cur + step) e s = Some (seqs (map f (cursors (cur + step) step n)) s)" for s
    using Suc.prems(1) Suc.prems(2) [of "Suc _"] by (intro Suc.IH) (auto simp: algebra_simps)
  then show ?case
    using Suc.prems(2) [of 0] by (subst area_loop.simps) (auto simp: cursors_Suc split: sum.splits)
qed

lemma area_loop_seqs:
  assumes "n * unat step < 2 ^ LENGTH('w)" "0 < unat step" "e = cur + of_nat n * step"
  shows "area_loop f (step :: 'w::len word) cur e st = Some (seqs (map f (cursors cur step n)) st)"
proof (rule area_loop_run [OF assms(3)])
  fix k assume "k < n"
  then have k: "k * unat step < n * unat step" using assms(2) by simp
  then have "unat (of_nat (k * unat step) :: 'w word) \<noteq> unat (of_nat (n * unat step) :: 'w word)"
    using assms(1) order.strict_trans [OF k assms(1)] by (simp add: unat_of_nat del: of_nat_mult)
  then show "cur + of_nat k * step \<noteq> e" using assms(3) by auto
qed

lemma seqs_Inr: "(\<And>c s. f c s = Inr (g c s)) \<Longrightarrow> seqs (map f cs) st = Inr (fold g cs st)"
  by (induction cs arbitrary: st) simp_all

definition copy_entry :: "'w::len word \<Rightarrow> 'w word ptinfo \<Rightarrow> 'w word \<Rightarrow> 'w word vme \<Rightarrow> 'w word vme" where
  "copy_entry up info cur st =
     (let index = indexof cur info in
      st\<lparr>pte_mem := (pte_mem st)(pt_entry up index := pte_mem st (pt_entry (vme_kpt st) index))\<rparr>)"

text \<open>
  A space with user and kernel part: the kernel areas are the addresses \<open>kcur\<close>, one per entry of the
  first table, and no user address shares one of these entries.
\<close>

locale user_space = user_tables mmu areas for mmu :: "'w::len word mmu_config" and areas +
  fixes l0 l1 :: "'w word ptinfo" and ls :: "'w word ptinfo list" and kcur :: "'w word list"
  assumes lv: "mmu_levels mmu = l0 # l1 # ls" "ls \<noteq> []" "pgtables mmu ! 1 = l1" and l0: "pt_bits l0 = 0"
    and kernel: "for_kernel_areas f (push_bit (pt_shift l1) 1) areas (st :: 'w word vme) = seqs (map f kcur) st"
    and user_kernel: "IN_RANGE x (uvm_area areas) \<Longrightarrow> c \<in> set kcur \<Longrightarrow> indexof x l1 \<noteq> indexof c l1"
begin

lemma l1_lv: "l1 \<in> set (mmu_levels mmu)"
  using lv by simp

lemma copy_entries:
  assumes "own l1 up \<inter> own l1 (vme_kpt st) = {}"
  shows "fold (copy_entry up l1) cs st = st\<lparr>pte_mem := pte_mem (fold (copy_entry up l1) cs st)\<rparr> \<and>
    (\<forall>c\<in>set cs. pte_mem (fold (copy_entry up l1) cs st) (pt_entry up (indexof c l1)) = pte_mem st (pt_entry (vme_kpt st) (indexof c l1))) \<and>
    (\<forall>a. (\<forall>c\<in>set cs. a \<noteq> pt_entry up (indexof c l1)) \<longrightarrow> pte_mem (fold (copy_entry up l1) cs st) a = pte_mem st a)"
  using assms
proof (induction cs arbitrary: st)
  case (Cons c cs)
  let ?s = "copy_entry up l1 c st"
  have s: "vme_kpt ?s = vme_kpt st" "?s = st\<lparr>pte_mem := pte_mem ?s\<rparr>" by (simp_all add: copy_entry_def Let_def)
  have k: "pte_mem ?s (pt_entry (vme_kpt st) (indexof x l1)) = pte_mem st (pt_entry (vme_kpt st) (indexof x l1))" for x
    using Cons.prems index_own [OF l1_lv, of up c] index_own [OF l1_lv, of "vme_kpt st" x]
    by (auto simp: copy_entry_def Let_def)
  have IH: "fold (copy_entry up l1) cs ?s = ?s\<lparr>pte_mem := pte_mem (fold (copy_entry up l1) cs ?s)\<rparr>"
    "\<And>c. c \<in> set cs \<Longrightarrow> pte_mem (fold (copy_entry up l1) cs ?s) (pt_entry up (indexof c l1)) = pte_mem st (pt_entry (vme_kpt st) (indexof c l1))"
    "\<And>a. (\<forall>c\<in>set cs. a \<noteq> pt_entry up (indexof c l1)) \<Longrightarrow> pte_mem (fold (copy_entry up l1) cs ?s) a = pte_mem ?s a"
    using Cons.IH [of ?s] Cons.prems s(1) k by auto
  have "pte_mem (fold (copy_entry up l1) cs ?s) (pt_entry up (indexof c l1)) = pte_mem st (pt_entry (vme_kpt st) (indexof c l1))"
  proof (cases "\<exists>d\<in>set cs. pt_entry up (indexof c l1) = pt_entry up (indexof d l1)")
    case True
    then show ?thesis using IH(2) index_eq [OF l1_lv] by metis
  next
    case False
    then show ?thesis using IH(3) [of "pt_entry up (indexof c l1)"] by (simp add: copy_entry_def Let_def)
  qed
  moreover have "fold (copy_entry up l1) cs ?s = st\<lparr>pte_mem := pte_mem (fold (copy_entry up l1) cs ?s)\<rparr>"
    by (subst IH(1), subst s(2)) simp
  moreover have "pte_mem ?s a = pte_mem st a" if "a \<noteq> pt_entry up (indexof c l1)" for a
    using that by (simp add: copy_entry_def Let_def)
  ultimately show ?case using IH(2,3) by auto
qed simp

lemma own_l0: "own l0 (p :: 'w word) = {p}"
  by (simp add: own_def l0 lessThan_Suc)

lemma index_l0: "pt_entry (p :: 'w word) (indexof x l0) = p"
  using index_own [of l0 p x] lv(1) by (simp add: own_l0)

text \<open>A space of one table without user entries.\<close>

lemma empty_space:
  assumes e: "user_pte (mem p)" "baseof mmu (mem p) = pg" and p: "p \<notin> own l1 pg" and none: "\<forall>a\<in>own l1 pg. \<not> user_pte (mem a)"
  shows "foot mmu user_pte (mmu_levels mmu) mem p = insert p (own l1 pg)" "tree_ok mmu user_pte (mmu_levels mmu) mem p"
    "subtables mmu user_pte (mmu_levels mmu) mem p = {pg}" "walk mmu user_pte (mmu_levels mmu) mem p x = None"
    "path_ok mmu user_pte (mmu_levels mmu) mem p x \<longleftrightarrow> \<not> present (mem (pt_entry pg (indexof x l1)))"
proof -
  have no: "{a \<in> own l1 pg. user_pte (mem a)} = {}" "\<not> user_pte (mem (pt_entry pg (indexof x l1)))"
    using none index_own [OF l1_lv, of pg x] by auto
  show "foot mmu user_pte (mmu_levels mmu) mem p = insert p (own l1 pg)"
    using e no by (auto simp: lv(1) own_l0)
  show "tree_ok mmu user_pte (mmu_levels mmu) mem p"
    using e none p by (auto simp: lv(1) own_l0)
  show "subtables mmu user_pte (mmu_levels mmu) mem p = {pg}"
    using e none by (auto simp: lv(1) own_l0)
  show "walk mmu user_pte (mmu_levels mmu) mem p x = None"
    using e no(2) by (simp add: lv(1) index_l0)
  show "path_ok mmu user_pte (mmu_levels mmu) mem p x \<longleftrightarrow> \<not> present (mem (pt_entry pg (indexof x l1)))"
    using e no(2) Q_present by (auto simp: lv(1) index_l0 Let_def)
qed

lemma root_pte:
  assumes "baseof mmu pg = pg"
  shows "user_pte (pg OR PTE_P OR PTE_U)" "baseof mmu (pg OR PTE_P OR PTE_U) = pg"
proof -
  show "user_pte (pg OR PTE_P OR PTE_U)" using user_pte_flags [of pg 0] by simp
  have "baseof mmu 5 = baseof mmu (5 AND 7)" by simp
  also have "\<dots> = 5 AND baseof mmu 7" unfolding baseof_def by (rule and.assoc)
  finally have "baseof mmu (PTE_P OR PTE_U) = 0" using low by (simp add: PTE_P_def PTE_U_def)
  then show "baseof mmu (pg OR PTE_P OR PTE_U) = pg" using assms by (simp add: or.assoc baseof_or)
qed

text \<open>What \<open>protect\<close> returns: a space with the kernel entries, an empty user part and one table.\<close>

lemma protect_ok:
  assumes av: "pg_avail st = pg # pgs"
    and fresh: "fresh_pages mmu (insert (as_ptr as) (own l1 (vme_kpt st))) (pg_avail st)"
    and kern: "\<forall>p\<in>own l1 (vme_kpt st). \<not> user_pte (pte_mem st p)"
  shows "\<exists>as' st'. protect mmu areas as st = Inr (as', st') \<and> as_ptr as' = as_ptr as \<and> pg_avail st' = pgs \<and> pg_freed st' = pg_freed st \<and>
    vm_ok mmu areas as' st' \<and> as_tables mmu as' st' = {pg} \<and> (\<forall>x. translate mmu as' st' x = None) \<and>
    pte_mem st' (as_ptr as) = pg OR PTE_P OR PTE_U \<and> baseof mmu (pg OR PTE_P OR PTE_U) = pg \<and>
    (\<forall>c\<in>set kcur. pte_mem st' (pt_entry pg (indexof c l1)) = pte_mem st (pt_entry (vme_kpt st) (indexof c l1))) \<and>
    (\<forall>a\<in>own l1 pg. (\<forall>c\<in>set kcur. a \<noteq> pt_entry pg (indexof c l1)) \<longrightarrow> pte_mem st' a = 0) \<and>
    (\<forall>a. a \<notin> insert (as_ptr as) (page mmu pg) \<longrightarrow> pte_mem st' a = pte_mem st a)"
proof -
  let ?K = "own l1 (vme_kpt st)" and ?e = "pg OR PTE_P OR PTE_U"
  let ?st0 = "st\<lparr>pg_avail := pgs, pte_mem := (\<lambda>a. if a \<in> page mmu pg then 0 else pte_mem st a)\<rparr>"
  define st1 where "st1 = fold (copy_entry pg l1) kcur ?st0"
  have pg: "pg \<noteq> 0" "baseof mmu pg = pg" "page mmu pg \<inter> insert (as_ptr as) ?K = {}"
    and fr: "fresh_pages mmu (insert (as_ptr as) ?K \<union> page mmu pg) pgs" using fresh av by auto
  have own: "own l1 pg \<subseteq> page mmu pg" using own_page [OF l1_lv] .
  have "own l1 pg \<inter> own l1 (vme_kpt ?st0) = {}" using own pg(3) by auto
  note ce = copy_entries [OF this, of kcur, folded st1_def]
  have c: "st1 = ?st0\<lparr>pte_mem := pte_mem st1\<rparr>"
    "\<And>c. c \<in> set kcur \<Longrightarrow> pte_mem st1 (pt_entry pg (indexof c l1)) = pte_mem ?st0 (pt_entry (vme_kpt st) (indexof c l1))"
    "\<And>a. (\<forall>c\<in>set kcur. a \<noteq> pt_entry pg (indexof c l1)) \<Longrightarrow> pte_mem st1 a = pte_mem ?st0 a"
    using ce by auto
  have k: "pte_mem st1 (pt_entry pg (indexof c l1)) = pte_mem st (pt_entry (vme_kpt st) (indexof c l1))" if "c \<in> set kcur" for c
    using c(2) [OF that] pg(3) index_own [OF l1_lv, of "vme_kpt st" c] by auto
  let ?as = "as\<lparr>as_pgsize := pgsize mmu, as_area := va_area (areas ! 0)\<rparr>"
  obtain mem where mem: "(pte_mem st1)(as_ptr as := ?e) = mem" by blast
  then have mem_eq: "mem a = (if a = as_ptr as then ?e else pte_mem st1 a)" for a by auto
  have st1: "pg_avail st1 = pgs" "pg_freed st1 = pg_freed st" by (subst c(1), simp)+
  have run: "protect mmu areas as st = Inr (?as, st1\<lparr>pte_mem := mem\<rparr>)"
    using av pg(1) kernel [of _ ?st0] seqs_Inr [OF refl, of "copy_entry pg l1" kcur ?st0]
    unfolding protect_def mem [symmetric] st1_def by (auto simp: pgallocz_Inr [THEN iffD2] lv(3) [unfolded One_nat_def] copy_entry_def [abs_def] Let_def)
  have e: "user_pte (mem (as_ptr as))" "baseof mmu (mem (as_ptr as)) = pg" using root_pte [OF pg(2)] by (simp_all add: mem_eq)
  have new: "mem a = 0" if "a \<in> own l1 pg" "\<forall>c\<in>set kcur. a \<noteq> pt_entry pg (indexof c l1)" for a
    using that c(3) [OF that(2)] own pg(3) by (auto simp: mem_eq)
  have old: "mem (pt_entry pg (indexof c l1)) = pte_mem st (pt_entry (vme_kpt st) (indexof c l1))" if "c \<in> set kcur" for c
    using k [OF that] own pg(3) index_own [OF l1_lv, of pg c] by (auto simp: mem_eq)
  have "\<not> user_pte (mem a)" if "a \<in> own l1 pg" for a
  proof (cases "\<exists>c\<in>set kcur. a = pt_entry pg (indexof c l1)")
    case True
    then show ?thesis using old kern index_own [OF l1_lv, of "vme_kpt st"] by metis
  next
    case False
    then have "mem a = 0" using new [OF that] by blast
    then show ?thesis by (simp only: not_Q_0 not_False_eq_True)
  qed
  then have none: "\<forall>a\<in>own l1 pg. \<not> user_pte (mem a)" by blast
  have notin: "as_ptr as \<notin> own l1 pg" using own pg(3) by auto
  note es = empty_space [OF e notin none]
  have path: "path_ok mmu user_pte (mmu_levels mmu) mem (as_ptr as) x" if "IN_RANGE x (uvm_area areas)" for x
  proof -
    have "mem (pt_entry pg (indexof x l1)) = 0"
      using new index_own [OF l1_lv, of pg x] user_kernel [OF that] index_eq [OF l1_lv] by blast
    then show ?thesis unfolding es(5) by (simp add: present_def)
  qed
  have "fresh_pages mmu (insert (as_ptr as) (own l1 pg)) pgs" using fr own by (rule_tac fresh_pages_mono) auto
  then have "vm_ok mmu areas ?as (st1\<lparr>pte_mem := mem\<rparr>)"
    unfolding vm_ok_def as_foot_def using es(1,2) path st1 by simp
  moreover have "mem a = pte_mem st a" if "a \<notin> insert (as_ptr as) (page mmu pg)" for a
    using that c(3) [of a] own index_own [OF l1_lv, of pg] by (auto simp: mem_eq)
  ultimately show ?thesis
    using run es(3,4) old new st1 e root_pte [OF pg(2)] mem_eq [of "as_ptr as"] by (auto simp: as_tables_def translate_def)
qed

text \<open>Whatever is mapped in between, a space gives back exactly the pages taken since it was created.\<close>

lemma protect_unprotect:
  assumes fresh: "fresh_pages mmu (insert (as_ptr as) (own l1 (vme_kpt st))) (pg_avail st)"
    and kern: "\<forall>p\<in>own l1 (vme_kpt st). \<not> user_pte (pte_mem st p)"
    and p: "protect mmu areas as st = Inr (as', st1)" and m: "vme_maps mmu areas as' ops st1 = Inr st2"
  shows "\<exists>used. pg_avail st = used @ pg_avail st2 \<and> mset (pg_freed (unprotect mmu as' st2)) = mset (pg_freed st) + mset used"
proof -
  obtain pg pgs where av: "pg_avail st = pg # pgs"
    using p by (cases "pg_avail st") (auto simp: protect_def pgallocz_def)
  have s1: "pg_avail st1 = pgs" "pg_freed st1 = pg_freed st" "vm_ok mmu areas as' st1" "as_tables mmu as' st1 = {pg}"
    using protect_ok [OF av fresh kern] p by auto
  obtain used where u: "pgs = used @ pg_avail st2" "as_tables mmu as' st2 = {pg} \<union> set used"
    and s2: "vm_ok mmu areas as' st2" "pg_freed st2 = pg_freed st"
    using vme_maps_tables [OF m s1(3)] s1 by auto
  obtain ts where ts: "unprotect mmu as' st2 = st2\<lparr>pg_freed := pg_freed st2 @ ts\<rparr>" "distinct ts" "set ts = {pg} \<union> set used"
    using unprotect_frees [OF s2(1)] u(2) by auto
  have "distinct (pg # used)" using fresh_pages_distinct [OF fresh] av u(1) by auto
  then have "mset ts = mset (pg # used)" using ts(2,3) by (subst set_eq_iff_mset_eq_distinct [symmetric]) auto
  then show ?thesis using ts(1) s2(2) av u(1) by (intro exI [of _ "pg # used"]) auto
qed

end

section \<open>The two configurations\<close>

abbreviation l1_x86 :: "u32 ptinfo" where
  "l1_x86 \<equiv> pgtables mmu_x86 ! 1"

abbreviation l1_x86_64 :: "u64 ptinfo" where
  "l1_x86_64 \<equiv> pgtables mmu_x86_64 ! 1"

definition kcur_x86 :: "u32 list" where
  "kcur_x86 = cursors 0 0x400000 256 @ cursors 0xfd000000 0x400000 12"

lemma for_kernel_Nil: "for_kernel_areas f step [] = Inr"
  by (rule ext) simp

lemma index_div:
  assumes "pt_mask info = push_bit s (mask n)" "pt_shift info = s"
  shows "indexof (a :: 'w::len word) info = unat a div 2 ^ s mod 2 ^ n"
proof -
  have "indexof a info = take_bit n (drop_bit s (unat a))"
    unfolding index_field [OF assms] by (simp add: unsigned_take_bit_eq unsigned_drop_bit_eq take_bit_nat_eq_self)
  then show ?thesis by (simp only: take_bit_eq_mod drop_bit_eq_div)
qed

lemma index_l1_x86: "indexof a l1_x86 = unat a div 2 ^ 22"
proof -
  have "indexof a l1_x86 = unat a div 2 ^ 22 mod 2 ^ 10"
    by (rule index_div) (simp_all add: mmu_x86_def mask_eq_exp_minus_1)
  moreover have "unat a div 2 ^ 22 < 2 ^ 10" using unsigned_less [of a, where ?'a = nat] by (simp add: div_less_iff_less_mult)
  ultimately show ?thesis by simp
qed

lemma index_l1_x86_64: "indexof a l1_x86_64 = unat a div 2 ^ 39 mod 2 ^ 9"
  by (rule index_div) (simp_all add: mmu_x86_64_def mask_eq_exp_minus_1)

lemma kernel_cursor_x86:
  assumes "c \<in> set kcur_x86"
  shows "unat c < 0x40000000 \<or> 0xfd000000 \<le> unat c"
proof -
  consider k where "c = of_nat k * 0x400000" "k < 256" | k where "c = 0xfd000000 + of_nat k * 0x400000" "k < 12"
    using assms by (auto simp: kcur_x86_def cursors_def)
  then show ?thesis
  proof cases
    case 1
    then have "c = of_nat (k * 0x400000)" by simp
    then have "unat c = k * 0x400000 mod 2 ^ 32" by (simp only: unat_of_nat len_bit0) simp
    then show ?thesis using 1(2) by simp
  next
    case 2
    then have "c = of_nat (0xfd000000 + k * 0x400000)" by simp
    then have "unat c = (0xfd000000 + k * 0x400000) mod 2 ^ 32" by (simp only: unat_of_nat len_bit0) simp
    then show ?thesis using 2(2) by simp
  qed
qed

interpretation x86_space: user_space mmu_x86 vm_areas_x86 "pgtables mmu_x86 ! 0" l1_x86 "[pgtables mmu_x86 ! 2]" kcur_x86
proof
  fix f :: "u32 \<Rightarrow> u32 vme \<Rightarrow> u32 vme res" and st
  have "area_loop f 0x400000 0 0x40000000 s = Some (seqs (map f (cursors 0 0x400000 256)) s)"
    "area_loop f 0x400000 0xfd000000 0 s = Some (seqs (map f (cursors 0xfd000000 0x400000 12)) s)" for s
    by (rule area_loop_seqs; simp)+
  then show "for_kernel_areas f (push_bit (pt_shift l1_x86) 1) vm_areas_x86 st = seqs (map f kcur_x86) st"
    by (auto simp: mmu_x86_def vm_areas_x86_def kcur_x86_def seqs_append for_kernel_Nil bindE_return intro!: bindE_cong)
  fix x c assume "IN_RANGE x (uvm_area vm_areas_x86)" "c \<in> set kcur_x86"
  then show "indexof x l1_x86 \<noteq> indexof c l1_x86"
    using kernel_cursor_x86 [of c] div_le_mono [of "0x40000000" "unat x" "2 ^ 22"] less_mult_imp_div_less [of "unat c" 256 "2 ^ 22"]
    unfolding index_l1_x86 by (auto simp: IN_RANGE_def vm_areas_x86_def word_le_nat_alt word_less_nat_alt)
qed (simp_all add: mmu_levels_def mmu_x86_def)

interpretation x86_64_space: user_space mmu_x86_64 vm_areas_x86_64 "pgtables mmu_x86_64 ! 0" l1_x86_64 "tl (tl (pgtables mmu_x86_64))" "[0]"
proof
  fix f :: "u64 \<Rightarrow> u64 vme \<Rightarrow> u64 vme res" and st
  have "area_loop f 0x8000000000 0 0x8000000000 st = Some (seqs (map f (cursors 0 0x8000000000 1)) st)"
    by (rule area_loop_seqs; simp)
  then show "for_kernel_areas f (push_bit (pt_shift l1_x86_64) 1) vm_areas_x86_64 st = seqs (map f [0]) st"
    by (simp add: mmu_x86_64_def vm_areas_x86_64_def cursors_def for_kernel_Nil bindE_return)
  fix x c :: u64 assume "IN_RANGE x (uvm_area vm_areas_x86_64)" "c \<in> set [0]"
  then show "indexof x l1_x86_64 \<noteq> indexof c l1_x86_64"
    unfolding index_l1_x86_64 by (auto simp: IN_RANGE_def vm_areas_x86_64_def word_le_nat_alt word_less_nat_alt)
qed (simp_all add: mmu_levels_def mmu_x86_64_def)

end
