(* ===== verification/Vme_Init.thy ===== *)
theory Vme_Init
  imports Vme_Space
begin

text \<open>
  Start of the virtual memory on x86: \<open>vme_init\<close> maps the kernel areas one to one, and a user space
  created afterwards translates the kernel addresses as the kernel does and the user addresses as the
  calls of \<open>map\<close> say. Here the translation is the one of the hardware in supervisor mode, which follows
  every present entry.
\<close>

section \<open>Translation in supervisor mode\<close>

lemma foot_mono: "(\<And>e. Q e \<Longrightarrow> R e) \<Longrightarrow> foot mmu Q infos mem pt \<subseteq> foot mmu R infos mem pt"
proof (induction infos arbitrary: pt)
  case (Cons info infos)
  have "(\<Union>p\<in>{p \<in> own info pt. Q (mem p)}. foot mmu Q infos mem (baseof mmu (mem p))) \<subseteq>
      (\<Union>p\<in>{p \<in> own info pt. R (mem p)}. foot mmu R infos mem (baseof mmu (mem p)))"
    using Cons by (intro UN_mono) auto
  then show ?case by auto
qed simp

lemma tree_ok_mono:
  assumes QR: "\<And>e. Q e \<Longrightarrow> R e" and "tree_ok mmu R infos mem pt"
  shows "tree_ok mmu Q infos mem pt"
  using assms(2)
proof (induction infos arbitrary: pt)
  case (Cons info infos)
  note m = foot_mono [of Q R, OF QR]
  have "own info pt \<inter> foot mmu Q infos mem (baseof mmu (mem p)) = {} \<and>
      (\<forall>q\<in>own info pt. Q (mem q) \<and> q \<noteq> p \<longrightarrow> foot mmu Q infos mem (baseof mmu (mem p)) \<inter> foot mmu Q infos mem (baseof mmu (mem q)) = {})"
    if p: "p \<in> own info pt" "Q (mem p)" for p
  proof (intro conjI ballI impI)
    have "own info pt \<inter> foot mmu R infos mem (baseof mmu (mem p)) = {}" using Cons.prems QR p by simp
    then show "own info pt \<inter> foot mmu Q infos mem (baseof mmu (mem p)) = {}"
      using m [of mmu infos mem "baseof mmu (mem p)"] by blast
    fix q assume q: "q \<in> own info pt" "Q (mem q) \<and> q \<noteq> p"
    then have "foot mmu R infos mem (baseof mmu (mem p)) \<inter> foot mmu R infos mem (baseof mmu (mem q)) = {}"
      using Cons.prems QR p by simp
    then show "foot mmu Q infos mem (baseof mmu (mem p)) \<inter> foot mmu Q infos mem (baseof mmu (mem q)) = {}"
      using m [of mmu infos mem "baseof mmu (mem p)"] m [of mmu infos mem "baseof mmu (mem q)"] by blast
  qed
  then show ?case using Cons.prems Cons.IH QR by simp
qed simp

lemma path_present: "path_ok mmu present infos mem pt x"
  by (induction infos arbitrary: pt) (simp_all add: Let_def)

sublocale user_tables \<subseteq> every: page_tables mmu present
  using word_size fits index by unfold_locales

context user_tables
begin

lemma map_every:
  assumes r: "vme_map mmu areas as va pa prot st = Inr st'"
    and ok: "tree_ok mmu present (mmu_levels mmu) (pte_mem st) (as_ptr as)"
    and fresh: "fresh_pages mmu (foot mmu present (mmu_levels mmu) (pte_mem st) (as_ptr as)) (pg_avail st)"
  shows "tree_ok mmu present (mmu_levels mmu) (pte_mem st') (as_ptr as)"
    "fresh_pages mmu (foot mmu present (mmu_levels mmu) (pte_mem st') (as_ptr as)) (pg_avail st')"
    "IN_RANGE va (uvm_area areas)" "baseof mmu va = va"
    "walk mmu present (mmu_levels mmu) (pte_mem st') (as_ptr as) x =
      (if same_index (mmu_levels mmu) x va then if prot = MMAP_NONE then None else Some (pte_of pa prot)
       else walk mmu present (mmu_levels mmu) (pte_mem st) (as_ptr as) x)"
proof -
  let ?L = "mmu_levels mmu" and ?a = "as_ptr as" and ?v = "if prot = MMAP_NONE then 0 else pte_of pa prot"
  obtain ep st1 where w: "ptwalk mmu as va (PTE_W OR PTE_U) st = Inr (ep, st1)"
    and s1: "ptwalk mmu as va (PTE_W OR PTE_U) (st1\<lparr>pte_mem := (pte_mem st1)(ep := ?v)\<rparr>) = Inr z \<Longrightarrow> st' = snd z"
    and va: "IN_RANGE va (uvm_area areas)" "baseof mmu va = va" for z
    using r by (fastforce simp: vme_map_def bindE_eq_Inr panic_on_def ROUNDDOWN_def baseof_def pte_of_def Let_def split: if_splits)
  then show "IN_RANGE va (uvm_area areas)" "baseof mmu va = va" by blast+
  have fl: "present (pg OR PTE_P OR (PTE_W OR PTE_U)) \<and> baseof mmu (pg OR PTE_P OR (PTE_W OR PTE_U)) = pg" if "baseof mmu pg = pg" for pg
    using table_pte [OF that] by (simp add: user_pte_def)
  have p: "path_ok mmu present ?L (pte_mem st) ?a va" by (rule path_present)
  obtain used where g: "grown mmu present ?L ?a st used st1" and l: "leaf mmu present ?L (pte_mem st1) ?a va = Some ep"
    using every.ptwalk_loop_ok [OF w [unfolded ptwalk_def] levels order_refl ok p fresh order_refl fl] by blast
  note g' = g [unfolded grown_def]
  have t: "tree_ok mmu present ?L (pte_mem st1) ?a" using g' by blast
  have st': "st' = st1\<lparr>pte_mem := (pte_mem st1)(ep := ?v)\<rparr>"
    using s1 [of "(ep, st1\<lparr>pte_mem := (pte_mem st1)(ep := ?v)\<rparr>)"] every.leaf_set [OF l t order_refl, of ?v]
    by (simp add: ptwalk_def every.ptwalk_loop_leaf)
  note sl = every.set_leaf [OF l t order_refl, of ?v]
  have v: "present ?v \<longleftrightarrow> prot \<noteq> MMAP_NONE" using user_pte_of [of pa prot] by (simp add: user_pte_def present_def)
  show "tree_ok mmu present ?L (pte_mem st') ?a" using sl unfolding st' by simp
  show "walk mmu present ?L (pte_mem st') ?a x =
      (if same_index ?L x va then if prot = MMAP_NONE then None else Some (pte_of pa prot) else walk mmu present ?L (pte_mem st) ?a x)"
    using sl [of x] v g' unfolding st' by auto
  have "fresh_pages mmu (foot mmu present ?L (pte_mem st) ?a) (used @ pg_avail st1)" using fresh g' by metis
  then show "fresh_pages mmu (foot mmu present ?L (pte_mem st') ?a) (pg_avail st')"
    using sl g' unfolding st' by (auto simp: fresh_pages_append intro: fresh_pages_mono)
qed

end

context user_space
begin

text \<open>The kernel part of a table that shares the tables below the kernel's entries.\<close>

lemma shared_tables:
  assumes kt: "tree_ok mmu present (l1 # ls) mem kpt"
    and same: "\<forall>a\<in>foot mmu present (l1 # ls) mem kpt. mem' a = mem a"
    and pg: "own l1 pg \<inter> foot mmu present (l1 # ls) mem kpt = {}"
    and copy: "\<forall>c\<in>set kcur. mem' (pt_entry pg (indexof c l1)) = mem (pt_entry kpt (indexof c l1))"
    and zero: "\<forall>a\<in>own l1 pg. (\<forall>c\<in>set kcur. a \<noteq> pt_entry pg (indexof c l1)) \<longrightarrow> mem' a = 0"
  shows "tree_ok mmu present (l1 # ls) mem' pg"
    "foot mmu present (l1 # ls) mem' pg \<subseteq> own l1 pg \<union> foot mmu present (l1 # ls) mem kpt"
    "walk mmu present (l1 # ls) mem' pg x =
      (if \<exists>c\<in>set kcur. indexof x l1 = indexof c l1 then walk mmu present (l1 # ls) mem kpt x else None)"
proof -
  let ?F = "\<lambda>m a. foot mmu present ls m (baseof mmu (m a))"
  have key: "\<exists>c\<in>set kcur. a = pt_entry pg (indexof c l1)" if "a \<in> own l1 pg" "present (mem' a)" for a
    using zero that every.not_Q_0 by metis
  have sub: "?F mem (pt_entry kpt (indexof c l1)) \<subseteq> foot mmu present (l1 # ls) mem kpt"
    if "present (mem (pt_entry kpt (indexof c l1)))" for c
    using that index_own [OF l1_lv, of kpt c] by auto
  have fr: "?F mem' (pt_entry pg (indexof c l1)) = ?F mem (pt_entry kpt (indexof c l1))"
      "tree_ok mmu present ls mem' (baseof mmu (mem' (pt_entry pg (indexof c l1))))"
      "walk mmu present ls mem' (baseof mmu (mem' (pt_entry pg (indexof c l1)))) x =
       walk mmu present ls mem (baseof mmu (mem (pt_entry kpt (indexof c l1)))) x"
    if c: "c \<in> set kcur" "present (mem' (pt_entry pg (indexof c l1)))" for c
  proof -
    have e: "mem' (pt_entry pg (indexof c l1)) = mem (pt_entry kpt (indexof c l1))" using copy c(1) by blast
    then have "\<forall>a\<in>?F mem (pt_entry kpt (indexof c l1)). mem' a = mem a" using same sub [of c] c(2) by auto
    note f = every.frame [OF this] every.frame_walk [OF this]
    have "tree_ok mmu present ls mem (baseof mmu (mem (pt_entry kpt (indexof c l1))))"
      using kt c(2) e index_own [OF l1_lv, of kpt c] by simp
    then show "?F mem' (pt_entry pg (indexof c l1)) = ?F mem (pt_entry kpt (indexof c l1))"
      "tree_ok mmu present ls mem' (baseof mmu (mem' (pt_entry pg (indexof c l1))))"
      "walk mmu present ls mem' (baseof mmu (mem' (pt_entry pg (indexof c l1)))) x =
       walk mmu present ls mem (baseof mmu (mem (pt_entry kpt (indexof c l1)))) x"
      using f e lv(1) by auto
  qed
  have disj: "?F mem (pt_entry kpt (indexof c l1)) \<inter> ?F mem (pt_entry kpt (indexof d l1)) = {}"
    if "present (mem (pt_entry kpt (indexof c l1)))" "present (mem (pt_entry kpt (indexof d l1)))" "indexof c l1 \<noteq> indexof d l1" for c d
    using kt that index_own [OF l1_lv, of kpt] index_eq [OF l1_lv, of kpt c d] by simp
  have copy': "present (mem' (pt_entry pg (indexof c l1))) \<longleftrightarrow> present (mem (pt_entry kpt (indexof c l1)))" if "c \<in> set kcur" for c
    using copy that by simp
  show "foot mmu present (l1 # ls) mem' pg \<subseteq> own l1 pg \<union> foot mmu present (l1 # ls) mem kpt"
    using key fr(1) sub copy' by (simp, blast)
  show "tree_ok mmu present (l1 # ls) mem' pg"
    unfolding tree_ok.simps
  proof (intro ballI impI conjI)
    fix a assume a: "a \<in> own l1 pg" "present (mem' a)"
    then obtain c where c: "c \<in> set kcur" "a = pt_entry pg (indexof c l1)" using key by blast
    show "tree_ok mmu present ls mem' (baseof mmu (mem' a))" using fr(2) [OF c(1)] a(2) c(2) by blast
    show "own l1 pg \<inter> ?F mem' a = {}" using fr(1) [OF c(1)] sub [of c] copy' [OF c(1)] a(2) c(2) pg by blast
    fix b assume b: "b \<in> own l1 pg" "present (mem' b) \<and> b \<noteq> a"
    then obtain d where d: "d \<in> set kcur" "b = pt_entry pg (indexof d l1)" using key by blast
    then have "indexof c l1 \<noteq> indexof d l1" using b(2) c(2) by auto
    then show "?F mem' a \<inter> ?F mem' b = {}"
      using disj [of c d] fr(1) [OF c(1)] fr(1) [OF d(1)] copy' [OF c(1)] copy' [OF d(1)] a(2) b(2) c(2) d(2) by simp
  qed
  show "walk mmu present (l1 # ls) mem' pg x =
      (if \<exists>c\<in>set kcur. indexof x l1 = indexof c l1 then walk mmu present (l1 # ls) mem kpt x else None)"
  proof (cases "\<exists>c\<in>set kcur. indexof x l1 = indexof c l1")
    case True
    then obtain c where c: "c \<in> set kcur" "indexof x l1 = indexof c l1" by blast
    then have "mem' (pt_entry pg (indexof x l1)) = mem (pt_entry kpt (indexof x l1))" using copy by simp
    then show ?thesis using True fr(3) [OF c(1)] c(2) lv(2) by (simp add: Let_def)
  next
    case False
    then have "mem' (pt_entry pg (indexof x l1)) = 0" using zero index_own [OF l1_lv, of pg x] index_eq [OF l1_lv, of pg x] by blast
    then show ?thesis using False every.not_Q_0 by (simp add: Let_def)
  qed
qed

lemma protect_every:
  fixes as :: "'w word AddrSpace" and st :: "'w word vme"
  defines "K \<equiv> foot mmu present (l1 # ls) (pte_mem st) (vme_kpt st)"
  assumes p: "protect mmu areas as st = Inr (as', st')"
    and kt: "tree_ok mmu present (l1 # ls) (pte_mem st) (vme_kpt st)" and sep: "as_ptr as \<notin> K"
    and fresh: "fresh_pages mmu (insert (as_ptr as) K) (pg_avail st)"
    and kern: "\<forall>p\<in>own l1 (vme_kpt st). \<not> user_pte (pte_mem st p)"
  shows "as_ptr as' = as_ptr as" "tree_ok mmu present (mmu_levels mmu) (pte_mem st') (as_ptr as')"
    "fresh_pages mmu (foot mmu present (mmu_levels mmu) (pte_mem st') (as_ptr as')) (pg_avail st')"
    "walk mmu present (mmu_levels mmu) (pte_mem st') (as_ptr as') x =
      (if \<exists>c\<in>set kcur. indexof x l1 = indexof c l1 then walk mmu present (l1 # ls) (pte_mem st) (vme_kpt st) x else None)"
proof -
  obtain pg pgs where av: "pg_avail st = pg # pgs"
    using p by (cases "pg_avail st") (auto simp: protect_def pgallocz_def)
  have own: "own l1 pg \<subseteq> page mmu pg" "own l1 (vme_kpt st) \<subseteq> K" using own_page [OF l1_lv] by (auto simp: K_def)
  have pg: "baseof mmu pg = pg" "page mmu pg \<inter> insert (as_ptr as) K = {}" "fresh_pages mmu (insert (as_ptr as) K \<union> page mmu pg) pgs"
    using fresh av by auto
  have "fresh_pages mmu (insert (as_ptr as) (own l1 (vme_kpt st))) (pg_avail st)"
    using fresh own(2) by (auto intro: fresh_pages_mono)
  from protect_ok [OF av this kern] p have s: "as_ptr as' = as_ptr as" "pg_avail st' = pgs" "pte_mem st' (as_ptr as) = pg OR PTE_P OR PTE_U"
    "\<forall>c\<in>set kcur. pte_mem st' (pt_entry pg (indexof c l1)) = pte_mem st (pt_entry (vme_kpt st) (indexof c l1))"
    "\<forall>a\<in>own l1 pg. (\<forall>c\<in>set kcur. a \<noteq> pt_entry pg (indexof c l1)) \<longrightarrow> pte_mem st' a = 0"
    "\<forall>a. a \<notin> insert (as_ptr as) (page mmu pg) \<longrightarrow> pte_mem st' a = pte_mem st a" by auto
  have e: "present (pte_mem st' (as_ptr as))" "baseof mmu (pte_mem st' (as_ptr as)) = pg"
    using root_pte [OF pg(1)] s(3) by (simp_all add: user_pte_def)
  have "\<forall>a\<in>K. pte_mem st' a = pte_mem st a"
  proof
    fix a assume "a \<in> K"
    then have "a \<notin> insert (as_ptr as) (page mmu pg)" using pg(2) sep by auto
    then show "pte_mem st' a = pte_mem st a" using s(6) by blast
  qed
  moreover have "own l1 pg \<inter> K = {}" using pg(2) own(1) by blast
  ultimately have "\<forall>a\<in>foot mmu present (l1 # ls) (pte_mem st) (vme_kpt st). pte_mem st' a = pte_mem st a"
    "own l1 pg \<inter> foot mmu present (l1 # ls) (pte_mem st) (vme_kpt st) = {}" unfolding K_def by this+
  note sh = shared_tables [OF kt this s(4,5), folded K_def]
  have f: "foot mmu present (mmu_levels mmu) (pte_mem st') (as_ptr as) = insert (as_ptr as) (foot mmu present (l1 # ls) (pte_mem st') pg)"
    using e by (simp add: lv(1) own_l0)
  have "as_ptr as \<notin> foot mmu present (l1 # ls) (pte_mem st') pg" using sh(2) sep pg(2) own(1) by blast
  then show "tree_ok mmu present (mmu_levels mmu) (pte_mem st') (as_ptr as')"
    using e sh(1) unfolding s(1) lv(1) by (subst tree_ok.simps) (simp add: own_l0 del: tree_ok.simps foot.simps)
  have "foot mmu present (mmu_levels mmu) (pte_mem st') (as_ptr as) \<subseteq> insert (as_ptr as) K \<union> page mmu pg"
    unfolding f using sh(2) own(1) by blast
  then show "fresh_pages mmu (foot mmu present (mmu_levels mmu) (pte_mem st') (as_ptr as')) (pg_avail st')"
    using pg(3) s(1,2) by (auto intro: fresh_pages_mono)
  show "walk mmu present (mmu_levels mmu) (pte_mem st') (as_ptr as') x =
      (if \<exists>c\<in>set kcur. indexof x l1 = indexof c l1 then walk mmu present (l1 # ls) (pte_mem st) (vme_kpt st) x else None)"
    unfolding s(1) sh(3) [symmetric] lv(1) using e by (subst walk.simps) (simp add: index_l0 del: walk.simps)
qed (use p in \<open>auto simp: protect_def bindE_eq_Inr Let_def\<close>)

end

section \<open>Mapping the kernel areas\<close>

definition kernel_pte :: "'w::len word \<Rightarrow> bool" where
  "kernel_pte e \<longleftrightarrow> present e \<and> e AND PTE_U = 0"

definition kernel_address :: "u32 \<Rightarrow> bool" where
  "kernel_address x \<longleftrightarrow> x < 0x40000000 \<or> 0xfd000000 \<le> x"

definition id_pte :: "u32 \<Rightarrow> u32" where
  "id_pte a = a OR PTE_P OR PTE_W"

interpretation kern: page_tables mmu_x86 kernel_pte
  using x86_vm.word_size x86_vm.fits x86_vm.index by unfold_locales (auto simp: kernel_pte_def)

abbreviation Lx :: "u32 ptinfo list" where
  "Lx \<equiv> mmu_levels mmu_x86"

text \<open>The body of the loop of \<open>vme_init\<close>, for the local \<open>AddrSpace\<close> whose field \<open>ptr\<close> is at \<open>asp\<close>.\<close>

definition boot_space :: "u32 \<Rightarrow> u32 AddrSpace" where
  "boot_space asp = \<lparr>as_pgsize = 0, as_area = \<lparr>a_start = 0, a_end = 0\<rparr>, as_ptr = asp\<rparr>"

definition kmap :: "u32 \<Rightarrow> u32 \<Rightarrow> u32 vme \<Rightarrow> u32 vme res" where
  "kmap asp cur st = bindE (ptwalk mmu_x86 (boot_space asp) cur PTE_W st) (\<lambda>(p, st).
     Inr (st\<lparr>pte_mem := (pte_mem st)(p := cur OR PTE_P OR PTE_W)\<rparr>))"

text \<open>The state in the loop: the pages \<open>S\<close> are mapped to themselves and nothing else is; \<open>X\<close> is memory in use elsewhere.\<close>

definition kinit :: "u32 set \<Rightarrow> u32 \<Rightarrow> u32 vme \<Rightarrow> u32 set \<Rightarrow> u32 vme \<Rightarrow> bool" where
  "kinit X asp st0 S st \<longleftrightarrow>
     tree_ok mmu_x86 present Lx (pte_mem st) asp \<and>
     fresh_pages mmu_x86 (X \<union> foot mmu_x86 present Lx (pte_mem st) asp) (pg_avail st) \<and>
     X \<inter> foot mmu_x86 present Lx (pte_mem st) asp = {} \<and> pg_freed st = pg_freed st0 \<and> vme_cr0 st = vme_cr0 st0 \<and>
     (\<exists>used. pg_avail st0 = used @ pg_avail st \<and> subtables mmu_x86 present Lx (pte_mem st) asp = set used) \<and>
     (\<forall>x. path_ok mmu_x86 kernel_pte Lx (pte_mem st) asp x) \<and>
     (\<forall>x. walk mmu_x86 present Lx (pte_mem st) asp x =
        (if baseof mmu_x86 x \<in> S then Some (id_pte (baseof mmu_x86 x)) else None))"

lemma kernel_flags:
  assumes "baseof mmu_x86 pg = pg"
  shows "kernel_pte (pg OR PTE_P OR PTE_W)" "baseof mmu_x86 (pg OR PTE_P OR PTE_W) = pg"
proof -
  have b: "baseof mmu_x86 (PTE_P OR PTE_W) = 0" by (simp add: baseof_def mmu_x86_def PTE_P_def PTE_W_def)
  show e: "baseof mmu_x86 (pg OR PTE_P OR PTE_W) = pg" using assms b by (simp add: or.assoc x86_vm.baseof_or)
  have "pg AND 4 = 0"
  proof -
    have "baseof mmu_x86 pg AND 4 = pg AND (NOT 4095 AND 4)" unfolding baseof_def mmu_x86_def by (simp add: and.assoc)
    then show ?thesis using assms by simp
  qed
  then show "kernel_pte (pg OR PTE_P OR PTE_W)"
    using x86_vm.flag_bits(1) [of pg PTE_W] x86_vm.flags_nz
    by (simp add: kernel_pte_def present_def PTE_U_def PTE_P_def PTE_W_def bit.conj_disj_distrib2)
qed

lemma kmap_step:
  assumes k: "kinit X asp st0 S st" and c: "baseof mmu_x86 cur = cur" and enough: "2 \<le> length (pg_avail st)"
  shows "\<exists>st'. kmap asp cur st = Inr st' \<and> kinit X asp st0 (insert cur S) st'"
proof -
  note k' = k [unfolded kinit_def]
  have ok: "tree_ok mmu_x86 present Lx (pte_mem st) asp" and kp: "path_ok mmu_x86 kernel_pte Lx (pte_mem st) asp x"
    and fresh: "fresh_pages mmu_x86 (X \<union> foot mmu_x86 present Lx (pte_mem st) asp) (pg_avail st)" for x
    using k' by blast+
  have kQ: "kernel_pte e \<Longrightarrow> present e" for e :: u32 by (simp add: kernel_pte_def)
  have three: "length Lx = 3" "Lx \<noteq> []" by (simp_all add: mmu_levels_def mmu_x86_def)
  obtain ep st1 where w: "ptwalk_loop mmu_x86 cur PTE_W Lx asp st = Inr (ep, st1)"
    using x86_vm.ptwalk_loop_returns [of Lx st cur PTE_W asp] three enough fresh_pages_nonzero [OF fresh] by fastforce
  have fl: "kernel_pte (pg OR PTE_P OR PTE_W) \<and> baseof mmu_x86 (pg OR PTE_P OR PTE_W) = pg"
    "present (pg OR PTE_P OR PTE_W) \<and> baseof mmu_x86 (pg OR PTE_P OR PTE_W) = pg" if "baseof mmu_x86 pg = pg" for pg
    using kernel_flags [OF that] kQ by blast+
  have "\<exists>used. grown mmu_x86 present Lx asp st used st1 \<and> leaf mmu_x86 present Lx (pte_mem st1) asp cur = Some ep"
    by (rule x86_vm.every.ptwalk_loop_ok [OF w three(2) order_refl ok path_present fresh Un_upper2]) (rule fl(2))
  then obtain used where g: "grown mmu_x86 present Lx asp st used st1" and l: "leaf mmu_x86 present Lx (pte_mem st1) asp cur = Some ep"
    by blast
  have "foot mmu_x86 kernel_pte Lx (pte_mem st) asp \<subseteq> X \<union> foot mmu_x86 present Lx (pte_mem st) asp"
    by (rule le_supI2) (rule foot_mono, erule kQ)
  moreover have "tree_ok mmu_x86 kernel_pte Lx (pte_mem st) asp" by (rule tree_ok_mono [OF _ ok]) (erule kQ)
  ultimately have "\<exists>used. grown mmu_x86 kernel_pte Lx asp st used st1 \<and> leaf mmu_x86 kernel_pte Lx (pte_mem st1) asp cur = Some ep"
    by (intro kern.ptwalk_loop_ok [OF w three(2) order_refl _ kp fresh] fl(1))
  then obtain used' where gk: "grown mmu_x86 kernel_pte Lx asp st used' st1" and lk: "leaf mmu_x86 kernel_pte Lx (pte_mem st1) asp cur = Some ep"
    by blast
  note g' = g [unfolded grown_def] and gk' = gk [unfolded grown_def]
  let ?v = "id_pte cur"
  obtain mem where mem: "mem = (pte_mem st1)(ep := ?v)" by blast
  have t: "tree_ok mmu_x86 present Lx (pte_mem st1) asp" and tk: "tree_ok mmu_x86 kernel_pte Lx (pte_mem st1) asp" using g' gk' by blast+
  have v: "kernel_pte ?v" "present ?v" using fl [OF c] by (simp_all add: id_pte_def)
  note sl = x86_vm.every.set_leaf [OF l t order_refl, of ?v, folded mem, unfolded x86_same_index c]
  note slk = kern.set_leaf [OF lk tk order_refl, of ?v, folded mem, unfolded x86_same_index c]
  have run: "kmap asp cur st = Inr (st1\<lparr>pte_mem := mem\<rparr>)"
    using w by (simp add: kmap_def ptwalk_def boot_space_def mem id_pte_def)
  have foot: "foot mmu_x86 present Lx mem asp \<subseteq> foot mmu_x86 present Lx (pte_mem st) asp \<union> pages mmu_x86 used"
    using sl g' by auto
  have fresh': "fresh_pages mmu_x86 (X \<union> foot mmu_x86 present Lx (pte_mem st) asp) (used @ pg_avail st1)" using fresh g' by metis
  then have "fresh_pages mmu_x86 (X \<union> foot mmu_x86 present Lx mem asp) (pg_avail st1)"
    "X \<inter> foot mmu_x86 present Lx mem asp = {}"
    using foot k' fresh_pages_disjoint [of mmu_x86 _ used] by (fastforce simp: fresh_pages_append intro: fresh_pages_mono)+
  moreover have "pg_freed st1 = pg_freed st0" "vme_cr0 st1 = vme_cr0 st0"
  proof -
    have "st1 = st\<lparr>pg_avail := pg_avail st1, pte_mem := pte_mem st1\<rparr>" using g' by blast
    then show "pg_freed st1 = pg_freed st0" "vme_cr0 st1 = vme_cr0 st0" using k' by (metis vme.select_convs vme.surjective vme.update_convs)+
  qed
  moreover have "\<exists>us. pg_avail st0 = us @ pg_avail st1 \<and> subtables mmu_x86 present Lx mem asp = set us"
  proof -
    obtain us where "pg_avail st0 = us @ pg_avail st" "subtables mmu_x86 present Lx (pte_mem st) asp = set us" using k' by blast
    then have "pg_avail st0 = (us @ used) @ pg_avail st1 \<and> subtables mmu_x86 present Lx mem asp = set (us @ used)" using g' sl by simp
    then show ?thesis by blast
  qed
  moreover have "path_ok mmu_x86 kernel_pte Lx mem asp x" for x
    using slk [of x] v gk' kp by simp
  moreover have "walk mmu_x86 present Lx mem asp x = (if baseof mmu_x86 x \<in> insert cur S then Some (id_pte (baseof mmu_x86 x)) else None)" for x
    using sl [of x] v g' k' by simp
  moreover have "tree_ok mmu_x86 present Lx mem asp" using sl by blast
  ultimately have "kinit X asp st0 (insert cur S) (st1\<lparr>pte_mem := mem\<rparr>)" unfolding kinit_def by auto
  then show ?thesis using run by blast
qed

text \<open>The tables of one space are at most 1025, so 1027 pages are enough.\<close>

lemma subtables_bound: "card (subtables mmu_x86 present Lx mem asp) \<le> 1025"
proof -
  let ?l0 = "pgtables mmu_x86 ! 0" and ?l2 = "pgtables mmu_x86 ! 2" and ?b = "\<lambda>q. baseof mmu_x86 (mem q)"
  have L: "Lx = [?l0, l1_x86, ?l2]" by (simp add: mmu_levels_def mmu_x86_def)
  have own: "finite (own l1_x86 p)" "card (own l1_x86 p) \<le> 1024" for p
    unfolding own_def using card_image_le [of "{..<2 ^ pt_bits l1_x86}" "pt_entry p"] by (simp_all add: mmu_x86_def)
  have "subtables mmu_x86 present Lx mem asp \<subseteq> insert (?b asp) (?b ` own l1_x86 (?b asp))"
    unfolding L by (auto simp: x86_space.own_l0)
  then have "card (subtables mmu_x86 present Lx mem asp) \<le> card (insert (?b asp) (?b ` own l1_x86 (?b asp)))"
    using own(1) by (intro card_mono) auto
  also have "\<dots> \<le> Suc (card (?b ` own l1_x86 (?b asp)))" by (rule card_insert_le_m1) simp_all
  also have "\<dots> \<le> 1025" using card_image_le [OF own(1), of ?b "?b asp"] own(2) [of "?b asp"] by linarith
  finally show ?thesis .
qed

lemma kinit_enough:
  assumes "kinit X asp st0 S st" "distinct (pg_avail st0)" "1027 \<le> length (pg_avail st0)"
  shows "2 \<le> length (pg_avail st)"
proof -
  obtain used where u: "pg_avail st0 = used @ pg_avail st" "subtables mmu_x86 present Lx (pte_mem st) asp = set used"
    using assms(1) by (auto simp: kinit_def)
  then have "length used \<le> 1025"
    using subtables_bound [of "pte_mem st" asp] assms(2) distinct_card [of used] by simp
  then show ?thesis using u(1) assms(3) by simp
qed

lemma kmap_loop:
  assumes "kinit X asp st0 S st" "\<forall>c\<in>set cs. baseof mmu_x86 c = c" "distinct (pg_avail st0)" "1027 \<le> length (pg_avail st0)"
  shows "\<exists>st'. seqs (map (kmap asp) cs) st = Inr st' \<and> kinit X asp st0 (S \<union> set cs) st'"
  using assms
proof (induction cs arbitrary: S st)
  case (Cons c cs)
  obtain st1 where s1: "kmap asp c st = Inr st1" "kinit X asp st0 (insert c S) st1"
    using kmap_step [OF Cons.prems(1) _ kinit_enough [OF Cons.prems(1,3,4)]] Cons.prems(2) by auto
  from Cons.IH [OF s1(2) _ Cons.prems(3,4)] Cons.prems(2) s1(1) show ?case by auto
qed auto

text \<open>The pages that \<open>vme_init\<close> goes through are those of the kernel addresses.\<close>

definition boot_pages :: "u32 list" where
  "boot_pages = cursors 0 4096 262144 @ cursors 0xfd000000 4096 12288"

lemma baseof_div:
  assumes "of_nat (pgsize mmu - 1) = (mask 12 :: 'w::len word)"
  shows "unat (baseof mmu (x :: 'w word)) = unat x div 4096 * 4096"
  using assms unat_and_not_mask [of x 12] by (simp add: baseof_def)

lemma baseof_x86: "unat (baseof mmu_x86 x) = unat x div 4096 * 4096"
  by (rule baseof_div) (simp add: mmu_x86_def mask_eq_exp_minus_1)

lemma baseof_x86_64: "unat (baseof mmu_x86_64 x) = unat x div 4096 * 4096"
  by (rule baseof_div) (simp add: mmu_x86_64_def mask_eq_exp_minus_1)

lemma cursors_pages:
  assumes "b + n * 4096 \<le> 2 ^ 32"
  shows "c \<in> set (cursors (of_nat b) 4096 n) \<longleftrightarrow> (\<exists>k<n. unat (c :: u32) = b + k * 4096)"
proof -
  have "of_nat b + of_nat k * 4096 = c \<longleftrightarrow> unat c = b + k * 4096" if "k < n" for k
  proof -
    have "b + k * 4096 < 2 ^ 32" using assms that by simp
    then have "unat (of_nat (b + k * 4096) :: u32) = b + k * 4096" by (simp only: unat_of_nat len_bit0) simp
    then show ?thesis by (auto simp: word_unat_eq_iff)
  qed
  moreover have "c \<in> set (cursors (of_nat b) 4096 n) \<longleftrightarrow> (\<exists>k<n. of_nat b + of_nat k * 4096 = c)" by (auto simp: cursors_def)
  ultimately show ?thesis by blast
qed

lemma boot_pages_iff: "c \<in> set boot_pages \<longleftrightarrow> (\<exists>k<262144. unat c = k * 4096) \<or> (\<exists>k<12288. unat c = 0xfd000000 + k * 4096)"
  using cursors_pages [of 0 262144 c] cursors_pages [of "0xfd000000" 12288 c] by (simp add: boot_pages_def)

lemma boot_pages_kernel: "baseof mmu_x86 x \<in> set boot_pages \<longleftrightarrow> kernel_address x"
proof -
  have u: "unat x < 2 ^ 32" using unsigned_less [of x, where ?'a = nat] by simp
  have "(\<exists>k<262144. unat x div 4096 * 4096 = k * 4096) \<longleftrightarrow> unat x div 4096 < 262144" by auto
  moreover have "(\<exists>k<12288. unat x div 4096 * 4096 = 0xfd000000 + k * 4096) \<longleftrightarrow> 0xfd000 \<le> unat x div 4096"
  proof
    assume "0xfd000 \<le> unat x div 4096"
    then show "\<exists>k<12288. unat x div 4096 * 4096 = 0xfd000000 + k * 4096"
      using u by (intro exI [of _ "unat x div 4096 - 0xfd000"]) auto
  qed auto
  ultimately show ?thesis
    unfolding boot_pages_iff baseof_x86 kernel_address_def word_less_nat_alt word_le_nat_alt by (simp add: div_less_iff_less_mult less_eq_div_iff_mult_less_eq)
qed

lemma boot_pages_aligned: "c \<in> set boot_pages \<Longrightarrow> baseof mmu_x86 c = c"
  unfolding boot_pages_iff word_unat_eq_iff baseof_x86 by auto

lemma boot_areas:
  "for_kernel_areas f (of_nat (pgsize mmu_x86)) vm_areas_x86 st = seqs (map f boot_pages) st"
proof -
  have "area_loop f 4096 0 0x40000000 s = Some (seqs (map f (cursors 0 4096 262144)) s)"
    "area_loop f 4096 0xfd000000 0 s = Some (seqs (map f (cursors 0xfd000000 4096 12288)) s)" for s
    by (rule area_loop_seqs; simp)+
  then show ?thesis
    by (auto simp: mmu_x86_def vm_areas_x86_def boot_pages_def seqs_append for_kernel_Nil bindE_return intro!: bindE_cong)
qed

text \<open>After \<open>vme_init\<close> the kernel addresses, and only they, are mapped, each to itself.\<close>

lemma vme_init_maps:
  assumes fresh: "fresh_pages mmu_x86 (insert asp X) (pg_avail st)" "1027 \<le> length (pg_avail st)" "asp \<notin> X"
  defines "L \<equiv> [l1_x86, pgtables mmu_x86 ! 2]"
  shows "\<exists>st'. vme_init_x86 0 asp st = Inr st' \<and> vme_cr3 st' = vme_kpt st' \<and> vme_cr0 st' = vme_cr0 st OR 0x80000000 \<and>
    tree_ok mmu_x86 present L (pte_mem st') (vme_kpt st') \<and> X \<inter> foot mmu_x86 present L (pte_mem st') (vme_kpt st') = {} \<and>
    fresh_pages mmu_x86 (X \<union> foot mmu_x86 present L (pte_mem st') (vme_kpt st')) (pg_avail st') \<and>
    pg_avail st' \<noteq> [] \<and> (\<forall>p\<in>own l1_x86 (vme_kpt st'). \<not> user_pte (pte_mem st' p)) \<and>
    (\<forall>x. walk mmu_x86 present L (pte_mem st') (vme_kpt st') x =
       (if kernel_address x then Some (id_pte (baseof mmu_x86 x)) else None))"
proof -
  let ?l0 = "pgtables mmu_x86 ! 0" and ?st0 = "st\<lparr>pte_mem := (pte_mem st)(asp := 0)\<rparr>"
  have Lx: "Lx = ?l0 # L" by (simp add: L_def mmu_levels_def mmu_x86_def)
  have e0: "\<not> present (pte_mem ?st0 asp)" by (simp add: present_def)
  have "kinit X asp ?st0 {} ?st0"
    using fresh e0 unfolding kinit_def Lx by (auto simp: x86_space.own_l0 x86_space.index_l0 L_def)
  moreover have d: "distinct (pg_avail ?st0)" using x86_vm.fresh_pages_distinct [OF fresh(1)] by simp
  ultimately obtain s where run: "seqs (map (kmap asp) boot_pages) ?st0 = Inr s" and k: "kinit X asp ?st0 (set boot_pages) s"
    using kmap_loop [of X asp ?st0 "{}" ?st0 boot_pages] boot_pages_aligned fresh(2) by auto
  let ?kpt = "baseof mmu_x86 (pte_mem s asp)"
  have wk: "walk mmu_x86 present Lx (pte_mem s) asp x = (if kernel_address x then Some (id_pte (baseof mmu_x86 x)) else None)" for x
    using k by (simp add: kinit_def boot_pages_kernel)
  have "walk mmu_x86 present Lx (pte_mem s) asp 0 \<noteq> None" by (simp add: wk kernel_address_def)
  then have e: "present (pte_mem s asp)" unfolding Lx by (auto simp: x86_space.index_l0 Let_def split: if_splits)
  have w: "walk mmu_x86 present Lx (pte_mem s) asp x = walk mmu_x86 present L (pte_mem s) ?kpt x" for x
    unfolding Lx using e by (subst walk.simps) (simp add: x86_space.index_l0 L_def del: walk.simps)
  have f: "foot mmu_x86 present Lx (pte_mem s) asp = insert asp (foot mmu_x86 present L (pte_mem s) ?kpt)"
    unfolding Lx using e by (auto simp: x86_space.own_l0)
  have t: "tree_ok mmu_x86 present L (pte_mem s) ?kpt"
    using e k unfolding Lx kinit_def by (simp add: x86_space.own_l0)
  have user: "\<not> user_pte (pte_mem s p)" if "p \<in> own l1_x86 ?kpt" for p
  proof -
    obtain i where i: "i < 1024" "p = pt_entry ?kpt i" using \<open>p \<in> own l1_x86 ?kpt\<close> by (auto simp: own_def mmu_x86_def)
    have "unat (of_nat (i * 2 ^ 22) :: u32) = i * 2 ^ 22" using i(1) by (simp only: unat_of_nat len_bit0) simp
    then have x: "indexof (of_nat (i * 2 ^ 22)) l1_x86 = i" unfolding index_l1_x86 by simp
    have "path_ok mmu_x86 kernel_pte Lx (pte_mem s) asp (of_nat (i * 2 ^ 22))" using k by (simp add: kinit_def)
    then have "present (pte_mem s p) \<longrightarrow> kernel_pte (pte_mem s p)"
      unfolding Lx L_def using e x i(2) by (simp add: x86_space.index_l0 Let_def del: of_nat_mult)
    then show ?thesis by (auto simp: user_pte_def kernel_pte_def)
  qed
  have "vme_init_x86 0 asp st = Inr (s\<lparr>vme_kpt := ?kpt, vme_cr3 := ?kpt, vme_cr0 := vme_cr0 s OR 0x80000000\<rparr>)"
    using run unfolding vme_init_x86_def panic_on_def boot_areas kmap_def [abs_def] boot_space_def by (simp add: Let_def)
  moreover have "vme_cr0 s = vme_cr0 st" using k by (simp add: kinit_def)
  moreover have "fresh_pages mmu_x86 (X \<union> foot mmu_x86 present L (pte_mem s) ?kpt) (pg_avail s)"
    "X \<inter> foot mmu_x86 present L (pte_mem s) ?kpt = {}"
    using k f unfolding kinit_def by (auto intro: fresh_pages_mono)
  moreover have "pg_avail s \<noteq> []" using kinit_enough [OF k d] fresh(2) by auto
  ultimately show ?thesis using t user wk w by auto
qed

section \<open>A user space\<close>

text \<open>The abstract space: a partial map from pages to entries.\<close>

definition map_spec :: "u32 \<times> u32 \<times> u32 \<Rightarrow> (u32 \<rightharpoonup> u32) \<Rightarrow> (u32 \<rightharpoonup> u32)" where
  "map_spec = (\<lambda>(va, pa, prot) m. if prot = MMAP_NONE then m(va := None) else m(va \<mapsto> pte_of pa prot))"

lemma user_page:
  assumes "IN_RANGE (baseof mmu_x86 x) (uvm_area vm_areas_x86)"
  shows "\<not> kernel_address x"
proof -
  have "0x40000000 \<le> unat x div 4096 * 4096" "unat x div 4096 * 4096 < 0x80000000"
    using assms by (simp_all add: IN_RANGE_def vm_areas_x86_def word_le_nat_alt word_less_nat_alt baseof_x86)
  then have "0x40000000 \<le> unat x" "unat x < 0xfd000000" by linarith+
  then show ?thesis by (simp add: kernel_address_def word_le_nat_alt word_less_nat_alt)
qed

lemma kernel_index: "kernel_address x \<Longrightarrow> \<exists>c\<in>set kcur_x86. indexof x l1_x86 = indexof c l1_x86"
proof -
  let ?q = "unat x div 2 ^ 22"
  assume "kernel_address x"
  then have k: "unat x < 0x40000000 \<or> 0xfd000000 \<le> unat x" by (simp add: kernel_address_def word_le_nat_alt word_less_nat_alt)
  have u: "unat x < 2 ^ 32" using unsigned_less [of x, where ?'a = nat] by simp
  have "unat (of_nat (?q * 2 ^ 22) :: u32) = ?q * 2 ^ 22" using u by (simp add: unat_of_nat del: of_nat_mult)
  then have "indexof x l1_x86 = indexof (of_nat (?q * 2 ^ 22)) l1_x86" unfolding index_l1_x86 by simp
  moreover have "of_nat (?q * 2 ^ 22) \<in> set kcur_x86"
  proof (cases "unat x < 0x40000000")
    case True
    then have "?q < 256" by (simp add: div_less_iff_less_mult)
    then have "of_nat (?q * 2 ^ 22) \<in> set (cursors 0 0x400000 256 :: u32 list)"
      unfolding cursors_def set_map by (intro image_eqI [of _ _ ?q]) simp_all
    then show ?thesis by (simp add: kcur_x86_def)
  next
    case False
    then have q: "1012 \<le> ?q" "?q - 1012 < 12" using k u by (simp_all add: less_eq_div_iff_mult_less_eq div_less_iff_less_mult less_diff_conv2)
    then have "?q * 2 ^ 22 = 0xfd000000 + (?q - 1012) * 0x400000" by simp
    then have "of_nat (?q * 2 ^ 22) = 0xfd000000 + of_nat (?q - 1012) * (0x400000 :: u32)"
      by (simp only: of_nat_add of_nat_mult of_nat_numeral)
    then have "of_nat (?q * 2 ^ 22) \<in> set (cursors 0xfd000000 0x400000 12 :: u32 list)"
      unfolding cursors_def set_map using q(2) by (intro image_eqI [of _ _ "?q - 1012"]) simp_all
    then show ?thesis by (simp add: kcur_x86_def)
  qed
  ultimately show ?thesis by blast
qed

lemma maps_every:
  assumes "vme_maps mmu_x86 vm_areas_x86 as ops st = Inr st'" "tree_ok mmu_x86 present Lx (pte_mem st) (as_ptr as)"
    "fresh_pages mmu_x86 (foot mmu_x86 present Lx (pte_mem st) (as_ptr as)) (pg_avail st)"
    "\<And>x. walk mmu_x86 present Lx (pte_mem st) (as_ptr as) x =
       (if kernel_address x then Some (id_pte (baseof mmu_x86 x)) else m (baseof mmu_x86 x))"
  shows "walk mmu_x86 present Lx (pte_mem st') (as_ptr as) x =
    (if kernel_address x then Some (id_pte (baseof mmu_x86 x)) else fold map_spec ops m (baseof mmu_x86 x))"
  using assms
proof (induction ops arbitrary: st m)
  case (Cons op ops)
  obtain va pa prot s1 where op: "op = (va, pa, prot)" and s1: "vme_map mmu_x86 vm_areas_x86 as va pa prot st = Inr s1"
    and r: "vme_maps mmu_x86 vm_areas_x86 as ops s1 = Inr st'"
    using Cons.prems(1) by (cases op) (auto simp: bindE_eq_Inr)
  note me = x86_vm.map_every [OF s1 Cons.prems(2,3)]
  have "walk mmu_x86 present Lx (pte_mem s1) (as_ptr as) y =
      (if kernel_address y then Some (id_pte (baseof mmu_x86 y)) else map_spec op m (baseof mmu_x86 y))" for y
    using me(3-4) me(5) [of y] Cons.prems(4) [of y] user_page [of y] unfolding x86_same_index op by (auto simp: map_spec_def)
  from Cons.IH [OF r me(1,2) this] show ?case by simp
qed auto

text \<open>Memory as the allocator hands it out.\<close>

lemma page_base:
  assumes mmu: "pgsize mmu = 4096" and len: "12 < LENGTH('w)" and p: "baseof mmu p = p" and a: "a \<in> page mmu (p :: 'w::len word)"
  shows "baseof mmu a = p"
proof -
  have m: "of_nat (pgsize mmu - 1) = (mask 12 :: 'w word)" using mmu by (simp add: mask_eq_exp_minus_1)
  let ?n = "LENGTH('w) div 8"
  obtain i where i: "i < 4096 div ?n" "a = p + of_nat (i * ?n)" using a mmu by (auto simp: page_def pt_entry_def)
  have n: "i * ?n < 4096"
  proof -
    have "0 < ?n" using len by (simp add: div_greater_zero_iff)
    then have "i * ?n < (4096 div ?n) * ?n" using i(1) by simp
    also have "\<dots> \<le> 4096" by simp
    finally show ?thesis .
  qed
  have pd: "unat p = unat p div 4096 * 4096" using baseof_div [OF m, of p] p by simp
  have "unat p + i * ?n < 2 ^ LENGTH('w)"
  proof -
    have 4: "(4096 :: nat) dvd 2 ^ LENGTH('w)" using le_imp_power_dvd [of 12 "LENGTH('w)" "2 :: nat"] len by simp
    then obtain k where k: "2 ^ LENGTH('w) = 4096 * (k :: nat)" by (elim dvdE)
    have "unat p < 4096 * k" using unsigned_less [of p, where ?'a = nat] k by simp
    then have "unat p div 4096 < k" by (simp add: div_less_iff_less_mult mult.commute)
    then have "unat p div 4096 * 4096 + 4096 \<le> 4096 * k" by simp
    then show ?thesis using pd n k by linarith
  qed
  then have "unat a = unat p + i * ?n"
    unfolding i(2) unat_word_ariths(1) unat_of_nat using n by simp
  moreover have "(q * 4096 + r) div 4096 = q" if "r < 4096" for q r :: nat using that by simp
  ultimately have "unat a div 4096 = unat p div 4096" using pd n by metis
  then show ?thesis using baseof_div [OF m, of a] pd by (simp add: word_unat_eq_iff)
qed

lemma fresh_pagesI:
  assumes mmu: "pgsize mmu = 4096" and len: "12 < LENGTH('w)"
    and "\<forall>p\<in>set ps. p \<noteq> 0 \<and> baseof mmu p = p" "distinct ps" "\<forall>a\<in>X. baseof mmu a \<notin> set ps"
  shows "fresh_pages mmu X (ps :: 'w::len word list)"
  using assms(3-)
proof (induction ps arbitrary: X)
  case (Cons p ps)
  have b: "\<forall>a\<in>page mmu p. baseof mmu a = p" using Cons.prems(1) by (auto intro: page_base [OF mmu len])
  have "fresh_pages mmu (X \<union> page mmu p) ps"
  proof (rule Cons.IH)
    show "\<forall>a\<in>X \<union> page mmu p. baseof mmu a \<notin> set ps" using b Cons.prems(2,3) by (metis Un_iff distinct.simps(2) list.set_intros(2))
  qed (use Cons.prems in simp_all)
  moreover have "page mmu p \<inter> X = {}" using b Cons.prems(3) by fastforce
  ultimately show ?case using Cons.prems(1) by simp
qed simp

definition frames :: "nat \<Rightarrow> nat \<Rightarrow> 'w::len word list" where
  "frames n k = map (\<lambda>i. of_nat (i * 4096)) [n..<k]"

lemma fresh_frames:
  assumes mmu: "pgsize mmu = 4096" and len: "12 < LENGTH('w)" and k: "k * 4096 \<le> 2 ^ LENGTH('w)" and n: "0 < n"
    and X: "\<forall>a\<in>X. unat (a :: 'w::len word) < n * 4096"
  shows "fresh_pages mmu X (frames n k)"
proof (rule fresh_pagesI [OF mmu len])
  have m: "of_nat (pgsize mmu - 1) = (mask 12 :: 'w word)" using mmu by (simp add: mask_eq_exp_minus_1)
  have u: "unat (of_nat (i * 4096) :: 'w word) = i * 4096" if "i < k" for i
  proof -
    have "i * 4096 < k * 4096" using that by simp
    then show ?thesis using k by (simp add: unat_of_nat del: of_nat_mult)
  qed
  have u': "n * 4096 \<le> unat p \<and> unat p = unat p div 4096 * 4096" if "p \<in> set (frames n k :: 'w word list)" for p
    using that u by (auto simp: frames_def simp del: of_nat_mult)
  show "\<forall>p\<in>set (frames n k :: 'w word list). p \<noteq> 0 \<and> baseof mmu p = p"
    using u' n baseof_div [OF m] by (fastforce simp: word_unat_eq_iff)
  show "distinct (frames n k :: 'w word list)"
    using u unfolding frames_def by (auto simp: distinct_map inj_on_def simp del: of_nat_mult) (metis mult_right_cancel zero_neq_numeral)
  show "\<forall>a\<in>X. baseof mmu a \<notin> set (frames n k)"
  proof
    fix a assume "a \<in> X"
    then have "unat (baseof mmu a) < n * 4096" using X baseof_div [OF m, of a] by (metis le_less_trans div_times_less_eq_dividend)
    then show "baseof mmu a \<notin> set (frames n k)" using u' [of "baseof mmu a"] by auto
  qed
qed

definition blank_vme :: "'w::len word list \<Rightarrow> 'w word vme" where
  "blank_vme ps = \<lparr>pte_mem = (\<lambda>_. 0), pg_avail = ps, pg_freed = [], vme_kpt = 0x1000, vme_cr3 = 0, vme_cr0 = 0\<rparr>"

definition space_at :: "'w::len word \<Rightarrow> 'w word AddrSpace" where
  "space_at a = \<lparr>as_pgsize = 0, as_area = \<lparr>a_start = 0, a_end = 0\<rparr>, as_ptr = a\<rparr>"

context user_tables
begin

lemma blank_ok:
  assumes "fresh_pages mmu (as_foot mmu as (blank_vme ps)) ps"
  shows "vm_ok mmu areas as (blank_vme ps)"
proof -
  have np: "\<not> present (0 :: 'w word)" "\<not> user_pte (0 :: 'w word)" by (simp_all add: user_pte_def present_def)
  have "tree_ok mmu user_pte infos (\<lambda>_. 0) pt" "path_ok mmu user_pte infos (\<lambda>_. 0) pt x" for infos pt x
    using np by (cases infos; simp add: Let_def)+
  then show ?thesis using assms by (simp add: vm_ok_def blank_vme_def)
qed

end

section \<open>Properties\<close>

text \<open>
  \<open>map\<close> on the four levels of x86-64, on every input. Outside the user area and off a page boundary it
  panics; unmapping what is not mapped and mapping what is mapped panic; otherwise it returns, the page
  of \<open>va\<close> is then translated to the entry for \<open>pa\<close> and \<open>prot\<close> (or not at all, for \<open>MMAP_NONE\<close>), every
  other user page is translated as before, the tables form a tree again, only the tables of the space and new pages are
  written, and the pages taken from the allocator are the new tables. Four pages are enough.
\<close>

theorem vme_map_translates:
  assumes "vm_ok mmu_x86_64 vm_areas_x86_64 as st" "4 \<le> length (pg_avail st)"
  shows "if \<not> IN_RANGE va (va_area (vm_areas_x86_64 ! 0)) then
      vme_map mmu_x86_64 vm_areas_x86_64 as va pa prot st = Inl (Panic ''mapping an invalid address'')
    else if baseof mmu_x86_64 va \<noteq> va \<or> baseof mmu_x86_64 pa \<noteq> pa then
      vme_map mmu_x86_64 vm_areas_x86_64 as va pa prot st = Inl (Panic ''non-page-boundary address'')
    else if prot = MMAP_NONE then
      (if translate mmu_x86_64 as st va = None then vme_map mmu_x86_64 vm_areas_x86_64 as va pa prot st = Inl (Panic ''unmapping a non-mapped page'')
       else \<exists>st'. vme_map mmu_x86_64 vm_areas_x86_64 as va pa prot st = Inr st' \<and> mapped mmu_x86_64 vm_areas_x86_64 as va None st st')
    else
      (if translate mmu_x86_64 as st va \<noteq> None then vme_map mmu_x86_64 vm_areas_x86_64 as va pa prot st = Inl (Panic ''remapping a mapped page'')
       else \<exists>st'. vme_map mmu_x86_64 vm_areas_x86_64 as va pa prot st = Inr st' \<and>
         mapped mmu_x86_64 vm_areas_x86_64 as va (Some (pte_of pa prot)) st st')"
proof -
  have "length (mmu_levels mmu_x86_64) \<le> Suc (length (pg_avail st))" using assms(2) by (simp add: mmu_levels_def mmu_x86_64_def)
  note c = x86_64_vm.vme_map_cases [OF assms(1) _ _ _ this]
  have "vme_map mmu_x86_64 vm_areas_x86_64 as va pa prot st = Inl (Panic ''mapping an invalid address'')"
    if "\<not> IN_RANGE va (va_area (vm_areas_x86_64 ! 0))"
    using that by (simp add: vme_map_def panic_on_def)
  moreover have "vme_map mmu_x86_64 vm_areas_x86_64 as va pa prot st = Inl (Panic ''non-page-boundary address'')"
    if "IN_RANGE va (va_area (vm_areas_x86_64 ! 0))" "baseof mmu_x86_64 va \<noteq> va \<or> baseof mmu_x86_64 pa \<noteq> pa"
    using that by (auto simp: vme_map_def panic_on_def ROUNDDOWN_def baseof_def)
  moreover note c [of va pa prot]
  ultimately show ?thesis
    by (cases "IN_RANGE va (va_area (vm_areas_x86_64 ! 0)) \<and> baseof mmu_x86_64 va = va \<and> baseof mmu_x86_64 pa = pa")
      (simp split del: if_split, auto)
qed

lemma blank_x86_64: "vm_ok mmu_x86_64 vm_areas_x86_64 (space_at 0x100) (blank_vme (frames 2 9))"
proof (rule x86_64_vm.blank_ok)
  have "as_foot mmu_x86_64 (space_at 0x100) (blank_vme (frames 2 9)) = {0x100}"
    by (auto simp: as_foot_def space_at_def blank_vme_def x86_64_space.lv(1) x86_64_space.own_l0 user_pte_def present_def)
  then show "fresh_pages mmu_x86_64 (as_foot mmu_x86_64 (space_at 0x100) (blank_vme (frames 2 9))) (frames 2 9)"
    by (intro fresh_frames) (simp_all add: mmu_x86_64_def)
qed

theorem vme_map_translates_witness:
  "\<exists>st'. vme_map mmu_x86_64 vm_areas_x86_64 (space_at 0x100) 0x100000003000 0x7000 MMAP_WRITE (blank_vme (frames 2 9)) = Inr st' \<and>
     mapped mmu_x86_64 vm_areas_x86_64 (space_at 0x100) 0x100000003000 (Some 0x7007) (blank_vme (frames 2 9)) st'"
proof -
  have "4 \<le> length (pg_avail (blank_vme (frames 2 9) :: u64 vme))" by (simp add: blank_vme_def frames_def)
  moreover have "translate mmu_x86_64 (space_at 0x100) (blank_vme (frames 2 9)) 0x100000003000 = None"
    by (simp add: translate_def x86_64_space.lv(1) Let_def blank_vme_def user_pte_def present_def)
  moreover have "IN_RANGE 0x100000003000 (va_area (vm_areas_x86_64 ! 0))" by (simp add: IN_RANGE_def vm_areas_x86_64_def)
  moreover have "baseof mmu_x86_64 0x100000003000 = 0x100000003000" "baseof mmu_x86_64 0x7000 = 0x7000"
    by (simp_all add: baseof_def mmu_x86_64_def)
  moreover have "pte_of 0x7000 MMAP_WRITE = (0x7007 :: u64)" "MMAP_WRITE \<noteq> MMAP_NONE"
    by (simp_all add: pte_of_def MMAP_WRITE_def MMAP_NONE_def PTE_P_def PTE_U_def PTE_W_def)
  ultimately show ?thesis
    using vme_map_translates [OF blank_x86_64, of "0x100000003000" "0x7000" MMAP_WRITE] by simp
qed

text \<open>
  C21. The pages of an address space on x86-64: after \<open>protect\<close>, any sequence of \<open>map\<close> and unmap calls, and
  \<open>unprotect\<close>, the pages given to \<open>pgfree\<close> are exactly the pages taken from \<open>pgalloc\<close> since, each given
  back once; the tables of the kernel, shared by the space, are not among them.
\<close>

theorem space_life_cycle:
  assumes "fresh_pages mmu_x86_64 (insert (as_ptr as) (own (pgtables mmu_x86_64 ! 1) (vme_kpt st))) (pg_avail st)"
    and "\<forall>p\<in>own (pgtables mmu_x86_64 ! 1) (vme_kpt st). \<not> user_pte (pte_mem st p)"
    and "protect mmu_x86_64 vm_areas_x86_64 as st = Inr (as', st1)"
    and "vme_maps mmu_x86_64 vm_areas_x86_64 as' ops st1 = Inr st2"
  shows "\<exists>used. pg_avail st = used @ pg_avail st2 \<and>
    mset (pg_freed (unprotect mmu_x86_64 as' st2)) = mset (pg_freed st) + mset used"
  using x86_64_space.protect_unprotect [OF assms] .

lemma blank_kernel_x86_64:
  "fresh_pages mmu_x86_64 (insert 0x100 (own (pgtables mmu_x86_64 ! 1) 0x1000)) (frames 2 9)"
proof (rule fresh_frames)
  have "unat a < 2 * 4096" if "a \<in> own (pgtables mmu_x86_64 ! 1) 0x1000" for a
  proof -
    have a: "a \<in> page mmu_x86_64 0x1000" using that x86_64_vm.own_page [OF x86_64_space.l1_lv] by blast
    have "baseof mmu_x86_64 a = 0x1000"
      by (rule page_base [OF _ _ _ a]) (simp_all add: mmu_x86_64_def baseof_def)
    then have "unat a div 4096 * 4096 = 4096" using baseof_x86_64 [of a] by simp
    then show ?thesis by simp
  qed
  then show "\<forall>a\<in>insert 0x100 (own (pgtables mmu_x86_64 ! 1) 0x1000). unat a < 2 * 4096" by simp
qed (simp_all add: mmu_x86_64_def)

theorem space_life_cycle_witness:
  "\<exists>as' st1 st2 used. protect mmu_x86_64 vm_areas_x86_64 (space_at 0x100) (blank_vme (frames 2 9)) = Inr (as', st1) \<and>
     vme_maps mmu_x86_64 vm_areas_x86_64 as' [(0x100000003000, 0x7000, MMAP_WRITE)] st1 = Inr st2 \<and>
     frames 2 9 = used @ pg_avail st2 \<and> mset (pg_freed (unprotect mmu_x86_64 as' st2)) = mset used"
proof -
  let ?st = "blank_vme (frames 2 9) :: u64 vme" and ?as = "space_at 0x100 :: u64 AddrSpace"
  have f: "fresh_pages mmu_x86_64 (insert (as_ptr ?as) (own (pgtables mmu_x86_64 ! 1) (vme_kpt ?st))) (pg_avail ?st)"
    using blank_kernel_x86_64 by (simp add: blank_vme_def space_at_def)
  have n: "\<forall>p\<in>own (pgtables mmu_x86_64 ! 1) (vme_kpt ?st). \<not> user_pte (pte_mem ?st p)"
    by (simp add: blank_vme_def user_pte_def present_def)
  have av: "pg_avail ?st = 0x2000 # frames 3 9" "length (frames 3 9 :: u64 list) = 6"
    by (simp_all add: blank_vme_def frames_def)
  obtain as' st1 where p: "protect mmu_x86_64 vm_areas_x86_64 ?as ?st = Inr (as', st1)"
    and s1: "pg_avail st1 = frames 3 9" "vm_ok mmu_x86_64 vm_areas_x86_64 as' st1" "\<forall>x. translate mmu_x86_64 as' st1 x = None"
    using x86_64_space.protect_ok [OF av(1) f n] by blast
  have "\<exists>st2. vme_map mmu_x86_64 vm_areas_x86_64 as' 0x100000003000 0x7000 MMAP_WRITE st1 = Inr st2"
  proof -
    have "length (mmu_levels mmu_x86_64) \<le> Suc (length (pg_avail st1))" using s1(1) av(2) by (simp add: mmu_levels_def mmu_x86_64_def)
    moreover have "IN_RANGE 0x100000003000 (va_area (vm_areas_x86_64 ! 0))" by (simp add: IN_RANGE_def vm_areas_x86_64_def)
    moreover have "baseof mmu_x86_64 0x100000003000 = 0x100000003000" "baseof mmu_x86_64 0x7000 = 0x7000"
      by (simp_all add: baseof_def mmu_x86_64_def)
    ultimately show ?thesis
      using x86_64_vm.vme_map_cases [OF s1(2), of "0x100000003000" "0x7000" MMAP_WRITE] s1(3) by (auto simp: MMAP_WRITE_def MMAP_NONE_def)
  qed
  then obtain st2 where m: "vme_maps mmu_x86_64 vm_areas_x86_64 as' [(0x100000003000, 0x7000, MMAP_WRITE)] st1 = Inr st2" by auto
  show ?thesis using space_life_cycle [OF f n p m] p m by (auto simp: blank_vme_def)
qed

text \<open>
  C20. Virtual memory on x86 from the start: \<open>vme_init\<close> returns, a space made by \<open>protect\<close> afterwards exists,
  and after any calls of \<open>map\<close> that succeed on it the hardware translates every kernel address to itself
  (writable, not accessible to the user) and every other address as the abstract map from pages to entries
  that the calls describe. 1027 pages are enough to start.
\<close>

theorem user_space_refines:
  assumes "fresh_pages mmu_x86 {asp, as_ptr as} (pg_avail st)" "1027 \<le> length (pg_avail st)" "asp \<noteq> as_ptr as"
  shows "\<exists>st1 as' st2. vme_init_x86 0 asp st = Inr st1 \<and> protect mmu_x86 vm_areas_x86 as st1 = Inr (as', st2) \<and>
    vme_cr3 st1 = vme_kpt st1 \<and> vme_cr0 st1 = vme_cr0 st OR 0x80000000 \<and>
    (\<forall>ops st3 x. vme_maps mmu_x86 vm_areas_x86 as' ops st2 = Inr st3 \<longrightarrow>
       walk mmu_x86 present (mmu_levels mmu_x86) (pte_mem st3) (as_ptr as') x =
         (if kernel_address x then Some (id_pte (baseof mmu_x86 x)) else fold map_spec ops Map.empty (baseof mmu_x86 x)))"
proof -
  let ?L = "[l1_x86, pgtables mmu_x86 ! 2]"
  have "fresh_pages mmu_x86 (insert asp {as_ptr as}) (pg_avail st)" "asp \<notin> {as_ptr as}" using assms by simp_all
  from vme_init_maps [OF this(1) assms(2) this(2)]
  obtain st1 where s1: "vme_init_x86 0 asp st = Inr st1" "vme_cr3 st1 = vme_kpt st1" "vme_cr0 st1 = vme_cr0 st OR 0x80000000"
    "tree_ok mmu_x86 present ?L (pte_mem st1) (vme_kpt st1)" "{as_ptr as} \<inter> foot mmu_x86 present ?L (pte_mem st1) (vme_kpt st1) = {}"
    and fr: "fresh_pages mmu_x86 ({as_ptr as} \<union> foot mmu_x86 present ?L (pte_mem st1) (vme_kpt st1)) (pg_avail st1)"
    and av: "pg_avail st1 \<noteq> []" and user: "\<forall>p\<in>own l1_x86 (vme_kpt st1). \<not> user_pte (pte_mem st1 p)"
    and wk: "\<And>x. walk mmu_x86 present ?L (pte_mem st1) (vme_kpt st1) x = (if kernel_address x then Some (id_pte (baseof mmu_x86 x)) else None)"
    by blast
  obtain pg pgs where pg: "pg_avail st1 = pg # pgs" using av by (cases "pg_avail st1") auto
  have "fresh_pages mmu_x86 (insert (as_ptr as) (own l1_x86 (vme_kpt st1))) (pg_avail st1)"
    using fr by (rule fresh_pages_mono) auto
  from x86_space.protect_ok [OF pg this user] obtain as' st2 where p: "protect mmu_x86 vm_areas_x86 as st1 = Inr (as', st2)" by blast
  have sep: "as_ptr as \<notin> foot mmu_x86 present ?L (pte_mem st1) (vme_kpt st1)"
    and fr': "fresh_pages mmu_x86 (insert (as_ptr as) (foot mmu_x86 present ?L (pte_mem st1) (vme_kpt st1))) (pg_avail st1)"
    using s1(5) fr by auto
  note pe = x86_space.protect_every [OF p s1(4) sep fr' user]
  have "walk mmu_x86 present Lx (pte_mem st2) (as_ptr as') x = (if kernel_address x then Some (id_pte (baseof mmu_x86 x)) else Map.empty (baseof mmu_x86 x))" for x
    using pe(4) [of x] wk [of x] kernel_index [of x] by auto
  from maps_every [OF _ pe(2,3) this] show ?thesis using s1(1-3) p by blast
qed

theorem user_space_refines_witness:
  "\<exists>st1 as' st2. vme_init_x86 0 0x100 (blank_vme (frames 2 1029)) = Inr st1 \<and>
     protect mmu_x86 vm_areas_x86 (space_at 0x104) st1 = Inr (as', st2) \<and>
     walk mmu_x86 present (mmu_levels mmu_x86) (pte_mem st2) (as_ptr as') 0x123456 = Some 0x123003 \<and>
     walk mmu_x86 present (mmu_levels mmu_x86) (pte_mem st2) (as_ptr as') 0x40000000 = None"
proof -
  have "fresh_pages mmu_x86 {0x100, as_ptr (space_at 0x104)} (pg_avail (blank_vme (frames 2 1029)))"
    unfolding blank_vme_def space_at_def by (simp, intro fresh_frames) (simp_all add: mmu_x86_def)
  moreover have "1027 \<le> length (pg_avail (blank_vme (frames 2 1029) :: u32 vme))" by (simp add: blank_vme_def frames_def)
  moreover have "0x100 \<noteq> as_ptr (space_at 0x104 :: u32 AddrSpace)" by (simp add: space_at_def)
  moreover have "kernel_address 0x123456" "\<not> kernel_address 0x40000000" "id_pte (baseof mmu_x86 0x123456) = 0x123003"
    by (simp_all add: kernel_address_def id_pte_def baseof_def mmu_x86_def PTE_P_def PTE_W_def)
  ultimately obtain st1 as' st2 where "vme_init_x86 0 0x100 (blank_vme (frames 2 1029)) = Inr st1"
      "protect mmu_x86 vm_areas_x86 (space_at 0x104) st1 = Inr (as', st2)"
    and w: "\<And>ops st3 x. vme_maps mmu_x86 vm_areas_x86 as' ops st2 = Inr st3 \<Longrightarrow>
      walk mmu_x86 present (mmu_levels mmu_x86) (pte_mem st3) (as_ptr as') x =
        (if kernel_address x then Some (id_pte (baseof mmu_x86 x)) else fold map_spec ops Map.empty (baseof mmu_x86 x))"
    using user_space_refines [of "0x100" "space_at 0x104" "blank_vme (frames 2 1029)"] by blast
  moreover note w [OF vme_maps.simps(1), of "0x123456"] w [OF vme_maps.simps(1), of "0x40000000"]
  ultimately show ?thesis
    using \<open>kernel_address 0x123456\<close> \<open>\<not> kernel_address 0x40000000\<close> \<open>id_pte _ = _\<close> by (simp del: walk.simps)
qed

end
