(* ===== verification/Ata.thy ===== *)
theory Ata
  imports Prelude
begin

text \<open>
  Port I/O of AbstractMachine on x86 (\<open>am/src/x86.h\<close>) and the transfer of one disk sector, which the
  boot loader (\<open>boot/main.c\<close>) and the I/O extension (\<open>ioe.c\<close>) write out with the same port accesses.

  The machine behind the ports, the memory-mapped registers and the time-stamp counter is a parameter: a
  record of functions on its state. What the code
  relies on of the disk is the locale \<open>ata_drive\<close>: the registers and the data port of an ATA drive in
  28-bit LBA mode, for commands of one sector, and that the drive becomes ready after finitely many
  reads of its status.
\<close>

section \<open>Ports\<close>

record 'd ports =
  port_in :: "nat \<Rightarrow> u16 \<Rightarrow> 'd \<Rightarrow> u32 \<times> 'd"
  port_out :: "nat \<Rightarrow> u16 \<Rightarrow> u32 \<Rightarrow> 'd \<Rightarrow> 'd"
  mmio_in :: "u32 \<Rightarrow> 'd \<Rightarrow> u32 \<times> 'd"
  mmio_out :: "u32 \<Rightarrow> u32 \<Rightarrow> 'd \<Rightarrow> 'd"
  tsc :: "'d \<Rightarrow> u64 \<times> 'd"

definition inb :: "'d ports \<Rightarrow> u32 \<Rightarrow> 'd \<Rightarrow> u8 \<times> 'd" where
  "inb io port d = (let (v, d) = port_in io 1 (ucast port) d in (ucast v, d))"

definition inl :: "'d ports \<Rightarrow> u32 \<Rightarrow> 'd \<Rightarrow> u32 \<times> 'd" where
  "inl io port d = port_in io 4 (ucast port) d"

definition outb :: "'d ports \<Rightarrow> u32 \<Rightarrow> u8 \<Rightarrow> 'd \<Rightarrow> 'd" where
  "outb io port data d = port_out io 1 (ucast port) (ucast data) d"

definition outw :: "'d ports \<Rightarrow> u32 \<Rightarrow> u16 \<Rightarrow> 'd \<Rightarrow> 'd" where
  "outw io port data d = port_out io 2 (ucast port) (ucast data) d"

definition outl :: "'d ports \<Rightarrow> u32 \<Rightarrow> u32 \<Rightarrow> 'd \<Rightarrow> 'd" where
  "outl io port data d = port_out io 4 (ucast port) data d"

section \<open>Memory of the machine\<close>

type_synonym mem32 = "u32 \<Rightarrow> u8"

fun mem_put :: "mem32 \<Rightarrow> u32 \<Rightarrow> u8 list \<Rightarrow> mem32" where
  "mem_put m a [] = m"
| "mem_put m a (b # bs) = mem_put (m(a := b)) (a + 1) bs"

definition mem_get :: "mem32 \<Rightarrow> u32 \<Rightarrow> nat \<Rightarrow> u8 list" where
  "mem_get m a n = map (\<lambda>i. m (a + of_nat i)) [0..<n]"

definition store32 :: "mem32 \<Rightarrow> u32 \<Rightarrow> u32 \<Rightarrow> mem32" where
  "store32 m a w = mem_put m a (le_bytes 4 w)"

definition load32 :: "mem32 \<Rightarrow> u32 \<Rightarrow> u32" where
  "load32 m a = le_word (mem_get m a 4)"

definition load16 :: "mem32 \<Rightarrow> u32 \<Rightarrow> u16" where
  "load16 m a = le_word (mem_get m a 2)"

lemma word_diff_Suc: "x \<noteq> a \<Longrightarrow> unat (x - a) = Suc (unat (x - (a + 1)))" for x a :: "'w::len word"
  using unatSuc [of "x - (a + 1)"] by simp

lemma mem_put_eq:
  "length bs \<le> 2 ^ 32 \<Longrightarrow> mem_put m a bs x = (if unat (x - a) < length bs then bs ! unat (x - a) else m x)"
proof (induction bs arbitrary: m a)
  case (Cons b bs)
  show ?case
  proof (cases "x = a")
    case True
    have "x - (a + 1) = - 1" using True by simp
    then have "unat (x - (a + 1)) = 2 ^ 32 - 1" by (simp only: unsigned_minus_1_eq_mask) (simp add: mask_eq_exp_minus_1)
    then show ?thesis using Cons True by simp
  next
    case False
    then show ?thesis using Cons word_diff_Suc [OF False] by simp
  qed
qed simp

lemma mem_put_range:
  assumes "unat a + length bs \<le> 2 ^ 32"
  shows "mem_put m a bs x = (if unat a \<le> unat x \<and> unat x < unat a + length bs then bs ! (unat x - unat a) else m x)"
proof (cases "unat a \<le> unat x")
  case True
  then have "unat (x - a) = unat x - unat a" by (simp add: unat_sub_if')
  then show ?thesis using True assms mem_put_eq [of bs m a x] by auto
next
  case False
  then have "unat (x - a) = unat x + 2 ^ 32 - unat a" by (simp add: unat_sub_if')
  then have "\<not> unat (x - a) < length bs" using False assms by linarith
  then show ?thesis using False assms mem_put_eq [of bs m a x] by auto
qed

lemma mem_put_append: "mem_put m a (bs @ cs) = mem_put (mem_put m a bs) (a + of_nat (length bs)) cs"
  by (induction bs arbitrary: m a) (simp_all add: add.assoc)

lemma length_mem_get [simp]: "length (mem_get m a n) = n"
  by (simp add: mem_get_def)

lemma mem_get_put: "length bs \<le> 2 ^ 32 \<Longrightarrow> mem_get (mem_put m a bs) a (length bs) = bs"
  by (rule nth_equalityI) (auto simp: mem_get_def mem_put_eq unat_of_nat)

definition words_bytes :: "u32 list \<Rightarrow> u8 list" where
  "words_bytes ws = concat (map (le_bytes 4) ws)"

lemma length_words_bytes [simp]: "length (words_bytes ws) = 4 * length ws"
  by (induction ws) (simp_all add: words_bytes_def)

lemma nth_words_bytes:
  "j < length ws \<Longrightarrow> i < 4 \<Longrightarrow> words_bytes ws ! (4 * j + i) = ucast (drop_bit (8 * i) (ws ! j))"
proof (induction ws arbitrary: j)
  case (Cons w ws)
  then show ?case by (cases j) (auto simp: words_bytes_def nth_append)
qed simp

lemma load32_put:
  assumes "unat a + 4 * length ws \<le> 2 ^ 32" "j < length ws" "unat b = unat a + 4 * j"
  shows "load32 (mem_put m a (words_bytes ws)) b = ws ! j"
proof -
  have "mem_get (mem_put m a (words_bytes ws)) b 4 = le_bytes 4 (ws ! j)"
  proof (rule nth_equalityI)
    fix i assume "i < length (mem_get (mem_put m a (words_bytes ws)) b 4)"
    then have i: "i < 4" by simp
    have "4 * j + i < 4 * length ws" using assms(2) i by linarith
    then have "unat (b + of_nat i) = unat a + (4 * j + i)" using assms i by (simp add: unat_word_ariths(1) unat_of_nat)
    then show "mem_get (mem_put m a (words_bytes ws)) b 4 ! i = le_bytes 4 (ws ! j) ! i"
      using i assms \<open>4 * j + i < _\<close> by (simp add: mem_get_def mem_put_range nth_words_bytes)
  qed simp
  then show ?thesis by (simp add: load32_def le_word_le_bytes_full)
qed

lemma load32_frame:
  assumes "\<And>i. i < 4 \<Longrightarrow> m' (b + of_nat i) = m (b + of_nat i)"
  shows "load32 m' b = load32 m b"
proof -
  have "mem_get m' b 4 = mem_get m b 4" using assms by (simp add: mem_get_def)
  then show ?thesis by (simp add: load32_def)
qed

lemma load32_put_other:
  assumes "unat a + length bs \<le> 2 ^ 32" "unat b + 4 \<le> 2 ^ 32" "unat b + 4 \<le> unat a \<or> unat a + length bs \<le> unat b"
  shows "load32 (mem_put m a bs) b = load32 m b"
proof (rule load32_frame)
  fix i :: nat assume i: "i < 4"
  then have "unat (b + of_nat i) = unat b + i" using assms(2) by (simp add: unat_word_ariths(1) unat_of_nat)
  then show "mem_put m a bs (b + of_nat i) = m (b + of_nat i)" using i assms by (auto simp: mem_put_range)
qed

section \<open>Transfer of a sector\<close>

partial_function (option) wait_loop :: "'d ports \<Rightarrow> 'd \<Rightarrow> 'd option" where
  "wait_loop io d = (let (s, d) = inb io 0x1f7 d in if s AND 0xc0 \<noteq> 0x40 then wait_loop io d else Some d)"

definition wait_disk :: "'d ports \<Rightarrow> 'd \<Rightarrow> 'd res" where
  "wait_disk io d = optE Diverge (wait_loop io d)"

definition disk_command :: "'d ports \<Rightarrow> u8 \<Rightarrow> u32 \<Rightarrow> 'd \<Rightarrow> 'd" where
  "disk_command io cmd sect d =
     outb io 0x1f7 cmd
       (outb io 0x1f6 (ucast (drop_bit 24 sect) OR 0xe0)
         (outb io 0x1f5 (ucast (drop_bit 16 sect))
           (outb io 0x1f4 (ucast (drop_bit 8 sect))
             (outb io 0x1f3 (ucast sect) (outb io 0x1f2 1 d)))))"

fun read_words :: "'d ports \<Rightarrow> nat \<Rightarrow> u32 \<Rightarrow> mem32 \<times> 'd \<Rightarrow> mem32 \<times> 'd" where
  "read_words io 0 ptr s = s"
| "read_words io (Suc n) ptr (m, d) = (let (w, d) = inl io 0x1f0 d in read_words io n (ptr + 4) (store32 m ptr w, d))"

fun write_words :: "'d ports \<Rightarrow> nat \<Rightarrow> u32 \<Rightarrow> mem32 \<Rightarrow> 'd \<Rightarrow> 'd" where
  "write_words io 0 ptr m d = d"
| "write_words io (Suc n) ptr m d = write_words io n (ptr + 4) m (outl io 0x1f0 (load32 m ptr) d)"

section \<open>The drive\<close>

datatype ata_phase = Idle | Reading "u32 list" | Writing nat "u32 list"

record ata =
  a_count :: u8
  a_lba0 :: u8
  a_lba1 :: u8
  a_lba2 :: u8
  a_dev :: u8
  a_phase :: ata_phase
  a_sectors :: "nat \<Rightarrow> u32 list"

definition ata_lba :: "ata \<Rightarrow> nat" where
  "ata_lba a = unat (a_lba0 a) + 2 ^ 8 * unat (a_lba1 a) + 2 ^ 16 * unat (a_lba2 a) + 2 ^ 24 * unat (a_dev a AND 0x0f)"

definition ata_command :: "u8 \<Rightarrow> ata \<Rightarrow> ata" where
  "ata_command c a =
     a\<lparr>a_phase :=
       (if a_count a = 1 \<and> a_dev a AND 0xf0 = 0xe0 \<and> c = 0x20 then Reading (a_sectors a (ata_lba a))
        else if a_count a = 1 \<and> a_dev a AND 0xf0 = 0xe0 \<and> c = 0x30 then Writing (ata_lba a) []
        else Idle)\<rparr>"

definition ata_out :: "u16 \<Rightarrow> u8 \<Rightarrow> ata \<Rightarrow> ata" where
  "ata_out p v a =
     (if p = 0x1f2 then a\<lparr>a_count := v\<rparr> else if p = 0x1f3 then a\<lparr>a_lba0 := v\<rparr>
      else if p = 0x1f4 then a\<lparr>a_lba1 := v\<rparr> else if p = 0x1f5 then a\<lparr>a_lba2 := v\<rparr>
      else if p = 0x1f6 then a\<lparr>a_dev := v\<rparr> else if p = 0x1f7 then ata_command v a else a)"

fun ata_pop :: "u32 list \<Rightarrow> ata_phase" where
  "ata_pop [] = Idle"
| "ata_pop ws = Reading ws"

definition ata_data :: "u32 \<Rightarrow> ata \<Rightarrow> ata" where
  "ata_data v a =
     (case a_phase a of
        Writing n ws \<Rightarrow>
          if length ws = 127 then a\<lparr>a_phase := Idle, a_sectors := (a_sectors a)(n := ws @ [v])\<rparr>
          else a\<lparr>a_phase := Writing n (ws @ [v])\<rparr>
      | _ \<Rightarrow> a)"

lemma byte_of: "unat (ucast (drop_bit k (w :: u32)) :: u8) = unat w div 2 ^ k mod 2 ^ 8"
proof -
  have "unat (ucast (drop_bit k w) :: u8) = take_bit 8 (drop_bit k (take_bit 32 (unat w)))"
    by (simp add: unsigned_ucast_eq unsigned_drop_bit_eq)
  moreover have "take_bit 32 (unat w) = unat w" using unsigned_less [of w, where ?'a = nat] by (simp add: take_bit_nat_eq_self)
  ultimately show ?thesis by (simp only: take_bit_eq_mod drop_bit_eq_div)
qed

lemma nat_bytes: "n mod 2 ^ 8 + 2 ^ 8 * (n div 2 ^ 8 mod 2 ^ 8) + 2 ^ 16 * (n div 2 ^ 16 mod 2 ^ 8) + 2 ^ 24 * (n div 2 ^ 24) = (n :: nat)"
proof -
  define a b where "a = n div 2 ^ 8" and "b = a div 2 ^ 8"
  have "n div 2 ^ 16 = b" "n div 2 ^ 24 = b div 2 ^ 8" by (simp_all add: a_def b_def div_mult2_eq [symmetric])
  moreover have "n = n mod 2 ^ 8 + 2 ^ 8 * a" "a = a mod 2 ^ 8 + 2 ^ 8 * b" "b = b mod 2 ^ 8 + 2 ^ 8 * (b div 2 ^ 8)"
    unfolding a_def b_def by simp_all
  moreover have "r + 2 ^ 8 * s + 2 ^ 16 * t + 2 ^ 24 * c = n"
    if "n = r + 2 ^ 8 * a" "a = s + 2 ^ 8 * b" "b = t + 2 ^ 8 * c" for r s t c :: nat
    using that by simp
  ultimately show ?thesis unfolding a_def [symmetric] by presburger
qed

lemma lba_bytes:
  assumes "unat (sect :: u32) < 2 ^ 28"
  shows "unat (ucast sect :: u8) + 2 ^ 8 * unat (ucast (drop_bit 8 sect) :: u8) + 2 ^ 16 * unat (ucast (drop_bit 16 sect) :: u8) +
      2 ^ 24 * unat ((ucast (drop_bit 24 sect) OR 0xe0) AND 0x0f :: u8) = unat sect"
    "(ucast (drop_bit 24 sect) OR 0xe0) AND (0xf0 :: u8) = 0xe0"
proof -
  let ?b = "ucast (drop_bit 24 sect) :: u8"
  have b: "unat ?b = unat sect div 2 ^ 24" using assms byte_of [of 24 sect] by simp
  then have "unat ?b < 2 ^ 4" using assms by simp
  then have "unat (take_bit 4 ?b) = unat ?b" by (simp add: unsigned_take_bit_eq take_bit_nat_eq_self)
  then have t: "?b AND 0x0f = ?b" using take_bit_eq_mask [of 4 ?b] by (simp add: mask_eq_exp_minus_1 word_unat_eq_iff)
  then have "(?b OR 0xe0) AND 0x0f = ?b" by (simp add: bit.conj_disj_distrib2)
  then show "unat (ucast sect :: u8) + 2 ^ 8 * unat (ucast (drop_bit 8 sect) :: u8) + 2 ^ 16 * unat (ucast (drop_bit 16 sect) :: u8) +
      2 ^ 24 * unat ((?b OR 0xe0) AND 0x0f) = unat sect"
    using b byte_of [of 0 sect] byte_of [of 8 sect] byte_of [of 16 sect] nat_bytes [of "unat sect"] by simp
  have "?b AND 0xf0 = (?b AND 0x0f) AND 0xf0" using t by simp
  also have "\<dots> = 0" by (simp only: and.assoc) simp
  finally show "(?b OR 0xe0) AND 0xf0 = 0xe0" by (simp add: bit.conj_disj_distrib2)
qed

text \<open>
  \<open>polls d\<close> is the number of status reads until the drive is ready. While it is ready its registers take
  the values written and the data port moves the words of the sector one by one; a command or the end of
  a sector may make it busy.
\<close>

locale ata_drive =
  fixes io :: "'d ports" and view :: "'d \<Rightarrow> ata" and polls :: "'d \<Rightarrow> nat"
  assumes status_ready: "polls d = 0 \<Longrightarrow> port_in io 1 0x1f7 d = (v, d') \<Longrightarrow>
      ucast v AND (0xc0 :: u8) = 0x40 \<and> view d' = view d \<and> polls d' = 0"
    and status_busy: "polls d = Suc n \<Longrightarrow> port_in io 1 0x1f7 d = (v, d') \<Longrightarrow>
      ucast v AND (0xc0 :: u8) \<noteq> 0x40 \<and> view d' = view d \<and> polls d' = n"
    and register: "polls d = 0 \<Longrightarrow> p \<in> {0x1f2, 0x1f3, 0x1f4, 0x1f5, 0x1f6} \<Longrightarrow>
      view (port_out io 1 p v d) = ata_out p (ucast v) (view d) \<and> polls (port_out io 1 p v d) = 0"
    and command: "polls d = 0 \<Longrightarrow> view (port_out io 1 0x1f7 v d) = ata_out 0x1f7 (ucast v) (view d)"
    and data_in: "polls d = 0 \<Longrightarrow> a_phase (view d) = Reading (w # ws) \<Longrightarrow>
      \<exists>d'. port_in io 4 0x1f0 d = (w, d') \<and> view d' = (view d)\<lparr>a_phase := ata_pop ws\<rparr> \<and> (ws \<noteq> [] \<longrightarrow> polls d' = 0)"
    and data_out: "polls d = 0 \<Longrightarrow> a_phase (view d) = Writing n ws \<Longrightarrow>
      view (port_out io 4 0x1f0 w d) = ata_data w (view d) \<and> (length ws < 127 \<longrightarrow> polls (port_out io 4 0x1f0 w d) = 0)"
begin

lemma wait_disk_ok: "\<exists>d'. wait_disk io d = Inr d' \<and> view d' = view d \<and> polls d' = 0"
proof -
  have "\<exists>d'. wait_loop io d = Some d' \<and> view d' = view d \<and> polls d' = 0"
  proof (induction "polls d" arbitrary: d)
    case 0
    obtain v d' where p: "port_in io 1 0x1f7 d = (v, d')" by fastforce
    from status_ready [OF 0 [symmetric] p] show ?case by (subst wait_loop.simps) (simp add: inb_def p [simplified])
  next
    case (Suc n)
    obtain v d' where p: "port_in io 1 0x1f7 d = (v, d')" by fastforce
    from status_busy [OF Suc(2) [symmetric] p] Suc(1) [of d'] show ?case
      by (subst wait_loop.simps) (simp add: inb_def p [simplified])
  qed
  then show ?thesis by (auto simp: wait_disk_def)
qed

lemma disk_command_ok:
  assumes "polls d = 0" "unat sect < 2 ^ 28"
  shows "a_sectors (view (disk_command io cmd sect d)) = a_sectors (view d) \<and>
    a_phase (view (disk_command io cmd sect d)) =
      (if cmd = 0x20 then Reading (a_sectors (view d) (unat sect)) else if cmd = 0x30 then Writing (unat sect) [] else Idle)"
proof -
  note reg = register [OF _ insertI1] register [OF _ insertI2 [OF insertI1]] register [OF _ insertI2 [OF insertI2 [OF insertI1]]]
    register [OF _ insertI2 [OF insertI2 [OF insertI2 [OF insertI1]]]] register [OF _ insertI2 [OF insertI2 [OF insertI2 [OF insertI2 [OF insertI1]]]]]
  show ?thesis using assms(1) lba_bytes [OF assms(2)]
    by (simp add: disk_command_def outb_def reg [simplified] command [simplified] ata_out_def ata_command_def ata_lba_def)
qed

lemma read_words_ok:
  assumes "polls d = 0" "a_phase (view d) = Reading ws" "length ws = Suc n"
  shows "\<exists>d'. read_words io (Suc n) ptr (m, d) = (mem_put m ptr (words_bytes ws), d') \<and> view d' = (view d)\<lparr>a_phase := Idle\<rparr>"
  using assms
proof (induction n arbitrary: ws ptr m d)
  case 0
  then obtain w where "ws = [w]" by (auto simp: length_Suc_conv)
  then show ?case using data_in [OF 0(1), of w "[]"] 0(2) by (auto simp: inl_def words_bytes_def store32_def)
next
  case (Suc n)
  then obtain w ws' where ws: "ws = w # ws'" "length ws' = Suc n" by (auto simp: length_Suc_conv)
  then obtain d1 where d1: "port_in io 4 0x1f0 d = (w, d1)" "view d1 = (view d)\<lparr>a_phase := ata_pop ws'\<rparr>" "polls d1 = 0"
    using data_in [OF Suc.prems(1), of w ws'] Suc.prems(2) by auto
  have "a_phase (view d1) = Reading ws'" using d1(2) ws(2) by (cases ws') auto
  from Suc.IH [OF d1(3) this ws(2), of "ptr + 4" "store32 m ptr w"]
  obtain d' where "read_words io (Suc n) (ptr + 4) (store32 m ptr w, d1) = (mem_put (store32 m ptr w) (ptr + 4) (words_bytes ws'), d')"
    "view d' = (view d)\<lparr>a_phase := Idle\<rparr>" using d1(2) by auto
  moreover have "mem_put m ptr (words_bytes ws) = mem_put (store32 m ptr w) (ptr + 4) (words_bytes ws')"
    by (simp add: ws(1) words_bytes_def store32_def mem_put_append)
  ultimately show ?case using d1(1) by (subst read_words.simps) (simp add: inl_def del: read_words.simps)
qed

lemma write_words_ok:
  assumes "polls d = 0" "a_phase (view d) = Writing k ws" "length ws + Suc n = 128"
  shows "view (write_words io (Suc n) ptr m d) =
    (view d)\<lparr>a_phase := Idle, a_sectors := (a_sectors (view d))(k := ws @ map (\<lambda>i. load32 m (ptr + of_nat (4 * i))) [0..<Suc n])\<rparr>"
  using assms
proof (induction n arbitrary: ws ptr d)
  case 0
  then show ?case using data_out [OF 0(1,2)] by (simp add: outl_def ata_data_def fun_upd_def)
next
  case (Suc n)
  let ?w = "load32 m ptr" and ?g = "\<lambda>p i. load32 m (p + of_nat (4 * i))"
  let ?d = "port_out io 4 0x1f0 ?w d"
  have d1: "view ?d = (view d)\<lparr>a_phase := Writing k (ws @ [?w])\<rparr>" "polls ?d = 0"
    using data_out [OF Suc.prems(1,2), of ?w] Suc.prems(2,3) by (auto simp: ata_data_def)
  have "map (?g (ptr + 4)) [0..<Suc n] = map (?g ptr) (map Suc [0..<Suc n])"
    by (simp add: algebra_simps del: upt_Suc)
  also have "\<dots> = map (?g ptr) [Suc 0..<Suc (Suc n)]" by (simp add: map_Suc_upt del: upt_Suc)
  finally have "?w # map (?g (ptr + 4)) [0..<Suc n] = map (?g ptr) [0..<Suc (Suc n)]"
    by (simp add: upt_conv_Cons del: upt_Suc)
  then show ?case
    using Suc.IH [OF d1(2), of "ws @ [?w]" "ptr + 4"] d1(1) Suc.prems(3)
    by (subst write_words.simps) (simp add: outl_def fun_upd_def del: upt_Suc write_words.simps)
qed

end

section \<open>Contents of the disk\<close>

definition disk_byte :: "(nat \<Rightarrow> u32 list) \<Rightarrow> nat \<Rightarrow> u8" where
  "disk_byte secs k = words_bytes (secs (k div 512)) ! (k mod 512)"

definition sectors_bytes :: "(nat \<Rightarrow> u32 list) \<Rightarrow> nat \<Rightarrow> nat \<Rightarrow> u8 list" where
  "sectors_bytes secs s n = concat (map (\<lambda>k. words_bytes (secs (s + k))) [0..<n])"

definition disk_ok :: "(nat \<Rightarrow> u32 list) \<Rightarrow> bool" where
  "disk_ok secs \<longleftrightarrow> (\<forall>n. length (secs n) = 128)"

lemma length_sectors_bytes [simp]: "disk_ok secs \<Longrightarrow> length (sectors_bytes secs s n) = 512 * n"
  by (induction n) (simp_all add: sectors_bytes_def disk_ok_def)

lemma nth_sectors_bytes:
  assumes "disk_ok secs" "i < 512 * n"
  shows "sectors_bytes secs s n ! i = disk_byte secs (512 * s + i)"
  using assms(2)
proof (induction n)
  case (Suc n)
  have l: "length (sectors_bytes secs s n) = 512 * n" using assms(1) by simp
  have c: "sectors_bytes secs s (Suc n) = sectors_bytes secs s n @ words_bytes (secs (s + n))" by (simp add: sectors_bytes_def)
  show ?case
  proof (cases "i < 512 * n")
    case True
    then show ?thesis using Suc.IH c l by (simp add: nth_append)
  next
    case False
    then obtain r where r: "i = 512 * n + r" "r < 512" using Suc.prems by (metis add_less_cancel_left le_Suc_ex mult_Suc_right not_less add.commute)
    then have "(512 * s + i) div 512 = s + n" "(512 * s + i) mod 512 = r" by simp_all
    then show ?thesis using r c l by (simp add: nth_append disk_byte_def)
  qed
qed simp

lemma sectors_bytes_Suc: "sectors_bytes secs s (Suc n) = words_bytes (secs s) @ sectors_bytes secs (Suc s) n"
proof -
  have "map (\<lambda>k. words_bytes (secs (s + k))) [Suc 0..<Suc n] = map (\<lambda>k. words_bytes (secs (Suc s + k))) [0..<n]"
    by (simp add: map_Suc_upt [symmetric] del: upt_Suc)
  then show ?thesis by (simp add: sectors_bytes_def upt_conv_Cons del: upt_Suc)
qed

section \<open>A drive\<close>

text \<open>A drive that behaves so, which stays busy for some status reads after each command.\<close>

record drive =
  drv_ata :: ata
  drv_busy :: nat

definition drive_in :: "nat \<Rightarrow> u16 \<Rightarrow> drive \<Rightarrow> u32 \<times> drive" where
  "drive_in n p d =
     (if n = 1 \<and> p = 0x1f7 then
        (case drv_busy d of 0 \<Rightarrow> (0x40, d) | Suc k \<Rightarrow> (0x80, d\<lparr>drv_busy := k\<rparr>))
      else if n = 4 \<and> p = 0x1f0 then
        (case a_phase (drv_ata d) of
           Reading (w # ws) \<Rightarrow> (w, d\<lparr>drv_ata := (drv_ata d)\<lparr>a_phase := ata_pop ws\<rparr>\<rparr>)
         | _ \<Rightarrow> (0, d))
      else (0, d))"

definition drive_out :: "nat \<Rightarrow> u16 \<Rightarrow> u32 \<Rightarrow> drive \<Rightarrow> drive" where
  "drive_out n p v d =
     (if n = 1 then d\<lparr>drv_ata := ata_out p (ucast v) (drv_ata d), drv_busy := (if p = 0x1f7 then 3 else drv_busy d)\<rparr>
      else if n = 4 \<and> p = 0x1f0 then d\<lparr>drv_ata := ata_data v (drv_ata d)\<rparr> else d)"

definition drive_ports :: "drive ports" where
  "drive_ports = \<lparr>port_in = drive_in, port_out = drive_out, mmio_in = (\<lambda>_ d. (0, d)), mmio_out = (\<lambda>_ _ d. d), tsc = (\<lambda>d. (0, d))\<rparr>"

definition blank_drive :: drive where
  "blank_drive = \<lparr>drv_ata = \<lparr>a_count = 0, a_lba0 = 0, a_lba1 = 0, a_lba2 = 0, a_dev = 0, a_phase = Idle,
     a_sectors = (\<lambda>_. replicate 128 0)\<rparr>, drv_busy = 2\<rparr>"

interpretation drv: ata_drive drive_ports drv_ata drv_busy
  by unfold_locales (auto simp: drive_ports_def drive_in_def drive_out_def ata_out_def split: nat.splits)

end
