(* ===== verification/Boot.thy ===== *)
theory Boot
  imports Ata "HOL-Library.Signed_Division"
begin

text \<open>
  The boot loader of AbstractMachine on x86 (\<open>am/src/x86/qemu/boot/main.c\<close>): it copies the argument
  string and the ELF header from the disk, loads the segments of the program header table, clears the
  memory behind them and returns the address it jumps to. The ELF structures are read from the memory
  they were copied to, at the offsets of the ELF standard, at every use.
\<close>

section \<open>Loader\<close>

definition SECTSIZE :: nat where "SECTSIZE = 512"
definition ARGSIZE :: nat where "ARGSIZE = 1024"
definition BOOTREC_ADDR :: u32 where "BOOTREC_ADDR = 0x07000"
definition MAINARG_ADDR :: u32 where "MAINARG_ADDR = 0x10000"
definition EM_X86_64 :: u16 where "EM_X86_64 = 62"

definition read_disk :: "'d ports \<Rightarrow> u32 \<Rightarrow> u32 \<Rightarrow> mem32 \<times> 'd \<Rightarrow> (mem32 \<times> 'd) res" where
  "read_disk io buf sect = (\<lambda>(m, d).
     bindE (wait_disk io d) (\<lambda>d.
     bindE (wait_disk io (disk_command io 0x20 sect d)) (\<lambda>d.
     Inr (read_words io (SECTSIZE div 4) buf (m, d)))))"

partial_function (option) copy_loop ::
  "'d ports \<Rightarrow> u32 \<Rightarrow> u32 \<Rightarrow> u32 \<Rightarrow> mem32 \<times> 'd \<Rightarrow> (mem32 \<times> 'd) res option" where
  "copy_loop io cur ed sect s =
     (if cur < ed then
        (case read_disk io cur sect s of
           Inl e \<Rightarrow> Some (Inl e)
         | Inr s \<Rightarrow> copy_loop io (cur + of_nat SECTSIZE) ed (sect + 1) s)
      else Some (Inr s))"

definition copy_from_disk :: "'d ports \<Rightarrow> u32 \<Rightarrow> u32 \<Rightarrow> u32 \<Rightarrow> mem32 \<times> 'd \<Rightarrow> (mem32 \<times> 'd) res" where
  "copy_from_disk io buf nbytes disk_offset s =
     (let cur = buf AND NOT (of_nat (SECTSIZE - 1));
          ed = buf + nbytes;
          sect = of_int (sint disk_offset sdiv int SECTSIZE) + of_nat (ARGSIZE div SECTSIZE) + 1
      in bindE (optE Diverge (copy_loop io cur ed sect s)) (\<lambda>r. r))"

partial_function (option) zero_loop :: "u32 \<Rightarrow> u32 \<Rightarrow> u32 \<Rightarrow> mem32 \<Rightarrow> mem32 option" where
  "zero_loop i memsz bss m = (if i = memsz then Some m else zero_loop (i + 1) memsz (bss + 1) (m(bss := 0)))"

definition load_program :: "'d ports \<Rightarrow> u32 \<Rightarrow> u32 \<Rightarrow> u32 \<Rightarrow> u32 \<Rightarrow> mem32 \<times> 'd \<Rightarrow> (mem32 \<times> 'd) res" where
  "load_program io filesz memsz paddr offset s =
     bindE (copy_from_disk io paddr filesz offset s) (\<lambda>(m, d).
     bindE (optE Diverge (zero_loop filesz memsz (paddr + filesz) m)) (\<lambda>m. Inr (m, d)))"

text \<open>
  \<open>load_elf32\<close> and \<open>load_elf64\<close> have the same body over different structure types; the offsets of the
  fields they use (of which the 64-bit ones are truncated to 32 bits) are the layout of the types.
\<close>

record elf_layout =
  e_phoff :: u32
  e_phnum :: u32
  ph_size :: u32
  p_filesz :: u32
  p_memsz :: u32
  p_paddr :: u32
  p_offset :: u32

definition Elf32 :: elf_layout where
  "Elf32 = \<lparr>e_phoff = 28, e_phnum = 44, ph_size = 32, p_filesz = 16, p_memsz = 20, p_paddr = 12, p_offset = 4\<rparr>"

definition Elf64 :: elf_layout where
  "Elf64 = \<lparr>e_phoff = 32, e_phnum = 56, ph_size = 56, p_filesz = 32, p_memsz = 40, p_paddr = 24, p_offset = 8\<rparr>"

partial_function (option) load_elf_loop ::
  "elf_layout \<Rightarrow> 'd ports \<Rightarrow> u32 \<Rightarrow> nat \<Rightarrow> u32 \<Rightarrow> mem32 \<times> 'd \<Rightarrow> (mem32 \<times> 'd) res option" where
  "load_elf_loop L io elf i ph s =
     (if i < unat (load16 (fst s) (elf + e_phnum L)) then
        (case load_program io (load32 (fst s) (ph + p_filesz L)) (load32 (fst s) (ph + p_memsz L))
                (load32 (fst s) (ph + p_paddr L)) (load32 (fst s) (ph + p_offset L)) s of
           Inl e \<Rightarrow> Some (Inl e)
         | Inr s \<Rightarrow> load_elf_loop L io elf (i + 1) (ph + ph_size L) s)
      else Some (Inr s))"

definition load_elf :: "elf_layout \<Rightarrow> 'd ports \<Rightarrow> u32 \<Rightarrow> mem32 \<times> 'd \<Rightarrow> (mem32 \<times> 'd) res" where
  "load_elf L io elf s =
     bindE (optE Diverge (load_elf_loop L io elf 0 (elf + load32 (fst s) (elf + e_phoff L)) s)) (\<lambda>r. r)"

definition load_elf64 :: "'d ports \<Rightarrow> u32 \<Rightarrow> mem32 \<times> 'd \<Rightarrow> (mem32 \<times> 'd) res" where
  "load_elf64 = load_elf Elf64"

definition load_elf32 :: "'d ports \<Rightarrow> u32 \<Rightarrow> mem32 \<times> 'd \<Rightarrow> (mem32 \<times> 'd) res" where
  "load_elf32 = load_elf Elf32"

definition load_kernel :: "'d ports \<Rightarrow> mem32 \<times> 'd \<Rightarrow> (u32 \<times> mem32 \<times> 'd) res" where
  "load_kernel io s =
     (let elf = 0x8000 in
      bindE (if load32 (fst s) (BOOTREC_ADDR + 4) = 0 then
               bindE (copy_from_disk io MAINARG_ADDR 1024 (- 1024) s) (\<lambda>s.
               bindE (copy_from_disk io elf 4096 0 s) (\<lambda>s.
               if load16 (fst s) (elf + 18) = EM_X86_64 then load_elf64 io elf s else load_elf32 io elf s))
             else Inr s) (\<lambda>s.
      Inr (load32 (fst s) (elf + 24), s)))"

section \<open>Copying\<close>

text \<open>Clearing always ends: the counter wraps.\<close>

lemma zero_loop_eq: "zero_loop i memsz bss m = Some (mem_put m bss (replicate (unat (memsz - i)) 0))"
proof (induction "unat (memsz - i)" arbitrary: i bss m)
  case 0
  then have "i = memsz" by (simp add: unat_eq_0)
  then show ?case by (simp add: zero_loop.simps)
next
  case (Suc n)
  then have ne: "memsz \<noteq> i" by auto
  from word_diff_Suc [OF this] Suc show ?case by (subst zero_loop.simps) auto
qed

lemma round_sector: "unat (a AND NOT (of_nat (SECTSIZE - 1)) :: u32) = unat a div 512 * 512"
  using unat_and_not_mask [of a 9] by (simp add: SECTSIZE_def mask_eq_exp_minus_1)

lemma first_sector:
  assumes "unat (off :: u32) < 2 ^ 31"
  shows "unat (of_int (sint off sdiv int SECTSIZE) + of_nat (ARGSIZE div SECTSIZE) + 1 :: u32) = unat off div 512 + 3"
proof -
  have "uint off < 2 ^ 31" using assms of_nat_less_iff [of "unat off" "2 ^ 31", where ?'a = int] by simp
  then have "signed_take_bit 31 (uint off) = uint off"
    by (intro signed_take_bit_int_eq_self) (auto intro: order_trans [of _ 0])
  then have "sint off = int (unat off)" by (simp add: sint_uint)
  then have "sint off sdiv int SECTSIZE = int (unat off div 512)"
    by (auto simp: SECTSIZE_def signed_divide_int_def zdiv_int sgn_if)
  then have "of_int (sint off sdiv int SECTSIZE) + of_nat (ARGSIZE div SECTSIZE) + 1 = (of_nat (unat off div 512 + 3) :: u32)"
    by (simp add: ARGSIZE_def SECTSIZE_def)
  moreover have "unat off div 512 + 3 < 2 ^ 32" using assms by simp
  ultimately show ?thesis by (simp only: unat_of_nat len_bit0) simp
qed

text \<open>The fields of the headers as the file has them, and what loading a segment means.\<close>

definition file32 :: "(nat \<Rightarrow> u32 list) \<Rightarrow> nat \<Rightarrow> u32" where
  "file32 secs a = le_word (map (\<lambda>i. disk_byte secs (1536 + a + i)) [0..<4])"

definition file16 :: "(nat \<Rightarrow> u32 list) \<Rightarrow> nat \<Rightarrow> u16" where
  "file16 secs a = le_word (map (\<lambda>i. disk_byte secs (1536 + a + i)) [0..<2])"

record segment =
  sg_filesz :: u32
  sg_memsz :: u32
  sg_paddr :: u32
  sg_offset :: u32

definition phdr_at :: "elf_layout \<Rightarrow> (nat \<Rightarrow> u32 list) \<Rightarrow> nat \<Rightarrow> nat" where
  "phdr_at L secs k = unat (file32 secs (unat (e_phoff L))) + unat (ph_size L) * k"

definition segment_of :: "elf_layout \<Rightarrow> (nat \<Rightarrow> u32 list) \<Rightarrow> nat \<Rightarrow> segment" where
  "segment_of L secs k =
     (let ph = phdr_at L secs k in
      \<lparr>sg_filesz = file32 secs (ph + unat (p_filesz L)), sg_memsz = file32 secs (ph + unat (p_memsz L)),
       sg_paddr = file32 secs (ph + unat (p_paddr L)), sg_offset = file32 secs (ph + unat (p_offset L))\<rparr>)"

definition seg_lo :: "segment \<Rightarrow> nat" where "seg_lo sg = unat (sg_paddr sg) div 512 * 512"
definition seg_hi :: "segment \<Rightarrow> nat" where "seg_hi sg = unat (sg_paddr sg) + unat (sg_memsz sg) + 511"

text \<open>A segment the loader can handle: aligned like the file, above the arguments, inside the address space.\<close>

definition segment_ok :: "segment \<Rightarrow> bool" where
  "segment_ok sg \<longleftrightarrow> unat (sg_filesz sg) \<le> unat (sg_memsz sg) \<and> unat (sg_offset sg) + unat (sg_filesz sg) < 2 ^ 31 \<and>
     seg_hi sg + 1 < 2 ^ 32 \<and> unat (sg_paddr sg) mod 512 = unat (sg_offset sg) mod 512 \<and> 0x10400 \<le> seg_lo sg"

definition segment_loaded :: "(nat \<Rightarrow> u32 list) \<Rightarrow> segment \<Rightarrow> mem32 \<Rightarrow> bool" where
  "segment_loaded secs sg m \<longleftrightarrow>
     (\<forall>i<unat (sg_filesz sg). m (sg_paddr sg + of_nat i) = disk_byte secs (1536 + unat (sg_offset sg) + i)) \<and>
     (\<forall>i. unat (sg_filesz sg) \<le> i \<and> i < unat (sg_memsz sg) \<longrightarrow> m (sg_paddr sg + of_nat i) = 0)"

definition file_layout :: "(nat \<Rightarrow> u32 list) \<Rightarrow> elf_layout" where
  "file_layout secs = (if file16 secs 18 = EM_X86_64 then Elf64 else Elf32)"

definition image_ok :: "elf_layout \<Rightarrow> (nat \<Rightarrow> u32 list) \<Rightarrow> bool" where
  "image_ok L secs \<longleftrightarrow> (let n = unat (file16 secs (unat (e_phnum L))) in
     phdr_at L secs n \<le> 4096 \<and> (\<forall>k<n. segment_ok (segment_of L secs k)) \<and>
     (\<forall>k<n. \<forall>l<k. seg_hi (segment_of L secs k) \<le> seg_lo (segment_of L secs l) \<or>
        seg_hi (segment_of L secs l) \<le> seg_lo (segment_of L secs k)))"

definition header_in :: "(nat \<Rightarrow> u32 list) \<Rightarrow> mem32 \<Rightarrow> bool" where
  "header_in secs m \<longleftrightarrow> (\<forall>j<4096. m (0x8000 + of_nat j) = disk_byte secs (1536 + j))"

lemma header_fields:
  assumes "header_in secs m"
  shows "a + 4 \<le> 4096 \<Longrightarrow> load32 m (0x8000 + of_nat a) = file32 secs a"
    "a + 2 \<le> 4096 \<Longrightarrow> load16 m (0x8000 + of_nat a) = file16 secs a"
proof -
  have "m (0x8000 + of_nat a + of_nat i) = disk_byte secs (1536 + a + i)" if "a + i < 4096" for i
    using assms that by (metis (no_types, lifting) header_in_def add.assoc of_nat_add)
  then show "a + 4 \<le> 4096 \<Longrightarrow> load32 m (0x8000 + of_nat a) = file32 secs a"
    "a + 2 \<le> 4096 \<Longrightarrow> load16 m (0x8000 + of_nat a) = file16 secs a"
    by (auto simp: load32_def load16_def file32_def file16_def mem_get_def intro!: arg_cong [where f = le_word])
qed

lemma phdr_at_Suc: "phdr_at L secs (Suc i) = phdr_at L secs i + unat (ph_size L)"
  by (simp add: phdr_at_def)

lemma phdr_at_mono: "i \<le> j \<Longrightarrow> phdr_at L secs i \<le> phdr_at L secs j"
  by (simp add: phdr_at_def)

lemma header_segment:
  assumes h: "header_in secs m" and L: "L \<in> {Elf32, Elf64}" and b: "phdr_at L secs (Suc i) \<le> 4096"
  defines "ph \<equiv> 0x8000 + of_nat (phdr_at L secs i)"
  shows "load32 m (ph + p_filesz L) = sg_filesz (segment_of L secs i)" "load32 m (ph + p_memsz L) = sg_memsz (segment_of L secs i)"
    "load32 m (ph + p_paddr L) = sg_paddr (segment_of L secs i)" "load32 m (ph + p_offset L) = sg_offset (segment_of L secs i)"
proof -
  have "load32 m (ph + f) = file32 secs (phdr_at L secs i + unat f)" if "unat f + 4 \<le> unat (ph_size L)" for f
  proof -
    have "phdr_at L secs i + unat f + 4 \<le> 4096" using b that unfolding phdr_at_Suc by simp
    from header_fields(1) [OF h this] show ?thesis by (simp add: ph_def add.assoc)
  qed
  moreover have "unat f + 4 \<le> unat (ph_size L)" if "f \<in> {p_filesz L, p_memsz L, p_paddr L, p_offset L}" for f
    using L that by (auto simp: Elf32_def Elf64_def)
  ultimately show "load32 m (ph + p_filesz L) = sg_filesz (segment_of L secs i)" "load32 m (ph + p_memsz L) = sg_memsz (segment_of L secs i)"
    "load32 m (ph + p_paddr L) = sg_paddr (segment_of L secs i)" "load32 m (ph + p_offset L) = sg_offset (segment_of L secs i)"
    by (simp_all add: segment_of_def Let_def)
qed

lemma header_phnum: "header_in secs m \<Longrightarrow> L \<in> {Elf32, Elf64} \<Longrightarrow> load16 m (0x8000 + e_phnum L) = file16 secs (unat (e_phnum L))"
  using header_fields(2) [of secs m "unat (e_phnum L)"] by (auto simp: Elf32_def Elf64_def)

lemma header_frame:
  assumes "header_in secs m" "\<And>x. unat x < 0x10400 \<Longrightarrow> m' x = m x"
  shows "header_in secs m'"
  unfolding header_in_def
proof (intro allI impI)
  fix j :: nat assume j: "j < 4096"
  then have "unat (0x8000 + of_nat j :: u32) = 0x8000 + j" by (simp add: unat_word_ariths(1) unat_of_nat)
  then show "m' (0x8000 + of_nat j) = disk_byte secs (1536 + j)" using assms j by (simp add: header_in_def)
qed

lemma loaded_frame:
  assumes "segment_loaded secs sg m" "segment_ok sg" "\<And>x. seg_lo sg \<le> unat x \<Longrightarrow> unat x < seg_hi sg \<Longrightarrow> m' x = m x"
  shows "segment_loaded secs sg m'"
proof -
  have "m' (sg_paddr sg + of_nat i) = m (sg_paddr sg + of_nat i)" if "i < unat (sg_memsz sg)" for i
  proof (rule assms(3))
    have "unat (sg_paddr sg + of_nat i) = unat (sg_paddr sg) + i"
      using that assms(2) by (simp add: segment_ok_def seg_hi_def unat_word_ariths(1) unat_of_nat)
    then show "seg_lo sg \<le> unat (sg_paddr sg + of_nat i)" "unat (sg_paddr sg + of_nat i) < seg_hi sg"
      using that by (simp_all add: seg_lo_def seg_hi_def trans_le_add1)
  qed
  then show ?thesis using assms(1,2) by (simp add: segment_loaded_def segment_ok_def)
qed

context ata_drive
begin

lemma read_disk_ok:
  assumes "unat sect < 2 ^ 28" "disk_ok (a_sectors (view d))"
  shows "\<exists>d'. read_disk io buf sect (m, d) = Inr (mem_put m buf (words_bytes (a_sectors (view d) (unat sect))), d') \<and>
    a_sectors (view d') = a_sectors (view d)"
proof -
  obtain d1 where d1: "wait_disk io d = Inr d1" "view d1 = view d" "polls d1 = 0" using wait_disk_ok by blast
  let ?d2 = "disk_command io 0x20 sect d1" and ?ws = "a_sectors (view d) (unat sect)"
  have c: "a_sectors (view ?d2) = a_sectors (view d)" "a_phase (view ?d2) = Reading ?ws"
    using disk_command_ok [OF d1(3) assms(1), of "0x20"] d1(2) by simp_all
  obtain d3 where d3: "wait_disk io ?d2 = Inr d3" "view d3 = view ?d2" "polls d3 = 0" using wait_disk_ok by blast
  have "length ?ws = Suc 127" using assms(2) by (simp add: disk_ok_def)
  from read_words_ok [OF d3(3) _ this, of buf m] c(2) d3(2) obtain d' where
    "read_words io 128 buf (m, d3) = (mem_put m buf (words_bytes ?ws), d')" "view d' = (view d3)\<lparr>a_phase := Idle\<rparr>" by auto
  then show ?thesis using d1(1) d3 c(1) by (simp add: read_disk_def SECTSIZE_def)
qed

lemma copy_loop_ok:
  assumes "unat ed \<le> unat cur + 512 * n" "n > 0 \<longrightarrow> unat cur + 512 * (n - 1) < unat ed" "unat cur + 512 * n < 2 ^ 32"
    "unat sect + n \<le> 2 ^ 28" "disk_ok (a_sectors (view d))"
  shows "\<exists>d'. copy_loop io cur ed sect (m, d) = Some (Inr (mem_put m cur (sectors_bytes (a_sectors (view d)) (unat sect) n), d')) \<and>
    a_sectors (view d') = a_sectors (view d)"
  using assms
proof (induction n arbitrary: cur sect m d)
  case 0
  then have "\<not> cur < ed" by (simp add: word_less_nat_alt)
  then show ?case by (subst copy_loop.simps) (auto simp: sectors_bytes_def)
next
  case (Suc n)
  have lt: "cur < ed" using Suc.prems(2) by (simp add: word_less_nat_alt)
  obtain d1 where d1: "read_disk io cur sect (m, d) = Inr (mem_put m cur (words_bytes (a_sectors (view d) (unat sect))), d1)"
    "a_sectors (view d1) = a_sectors (view d)" using read_disk_ok [of sect d cur m] Suc.prems(4,5) by auto
  have cur: "unat (cur + of_nat SECTSIZE) = unat cur + 512"
  proof -
    have "unat cur + 512 < 2 ^ 32" using Suc.prems(3) by simp
    then show ?thesis by (simp add: SECTSIZE_def unat_word_ariths(1))
  qed
  have sect: "unat (sect + 1) = Suc (unat sect)"
  proof -
    have "unat sect + 1 < 2 ^ 32" using Suc.prems(4) by simp
    then show ?thesis by (simp add: unat_word_ariths(1))
  qed
  have "\<exists>d'. copy_loop io (cur + of_nat SECTSIZE) ed (sect + 1) (mem_put m cur (words_bytes (a_sectors (view d) (unat sect))), d1) =
      Some (Inr (mem_put (mem_put m cur (words_bytes (a_sectors (view d) (unat sect)))) (cur + of_nat SECTSIZE)
        (sectors_bytes (a_sectors (view d1)) (unat (sect + 1)) n), d')) \<and> a_sectors (view d') = a_sectors (view d1)"
    using Suc.prems d1(2) by (intro Suc.IH) (auto simp: cur sect)
  then show ?case
    using lt d1 sect Suc.prems(5) by (subst copy_loop.simps) (auto simp: sectors_bytes_Suc mem_put_append disk_ok_def SECTSIZE_def)
qed

text \<open>A copy brings whole sectors to memory; in front and behind it the memory stays.\<close>

lemma copy_sectors:
  assumes disk: "disk_ok (a_sectors (view d))" and fits: "unat buf + unat n + 512 < 2 ^ 32"
    and sect: "unat (of_int (sint off sdiv int SECTSIZE) + of_nat (ARGSIZE div SECTSIZE) + 1 :: u32) = s" "s + unat n div 512 + 2 < 2 ^ 28"
  shows "\<exists>m' d'. copy_from_disk io buf n off (m, d) = Inr (m', d') \<and> a_sectors (view d') = a_sectors (view d) \<and>
    (\<forall>i<unat n. m' (buf + of_nat i) = disk_byte (a_sectors (view d)) (512 * s + unat buf mod 512 + i)) \<and>
    (\<forall>x. unat x < unat buf div 512 * 512 \<or> unat buf + unat n + 511 \<le> unat x \<longrightarrow> m' x = m x)"
proof -
  let ?cur = "buf AND NOT (of_nat (SECTSIZE - 1))" and ?secs = "a_sectors (view d)"
  let ?sect = "of_int (sint off sdiv int SECTSIZE) + of_nat (ARGSIZE div SECTSIZE) + 1 :: u32"
  define b where "b = unat buf div 512 * 512"
  define k where "k = (unat buf + unat n - b + 511) div 512"
  have cur: "unat ?cur = b" unfolding b_def by (rule round_sector)
  have ed: "unat (buf + n) = unat buf + unat n" using fits by (simp add: unat_word_ariths(1))
  have b: "b \<le> unat buf" "unat buf = b + unat buf mod 512" "unat buf mod 512 < 512" unfolding b_def by simp_all
  define q where "q = unat buf + unat n - b"
  have q: "512 * k \<le> q + 511" "q + 511 < 512 * k + 512" "unat buf + unat n = b + q" using b unfolding k_def q_def by simp_all
  then have k: "unat buf + unat n \<le> b + 512 * k" "k > 0 \<longrightarrow> b + 512 * (k - 1) < unat buf + unat n" "b + 512 * k \<le> unat buf + unat n + 511"
    by (simp_all, cases k, simp_all)
  have few: "s + k \<le> 2 ^ 28"
  proof -
    have "512 * k < unat n + 1023" using q b by linarith
    moreover have "unat n < 512 * (unat n div 512) + 512" by simp
    ultimately have "512 * k < 512 * (unat n div 512 + 3)" by simp
    then show ?thesis using sect(2) by simp
  qed
  obtain d' where run: "copy_loop io ?cur (buf + n) ?sect (m, d) = Some (Inr (mem_put m ?cur (sectors_bytes ?secs s k), d'))"
    "a_sectors (view d') = ?secs"
    using copy_loop_ok [of "buf + n" ?cur k ?sect d m] k few disk fits unfolding cur sect ed by auto
  let ?m = "mem_put m ?cur (sectors_bytes ?secs s k)"
  have m: "?m x = (if b \<le> unat x \<and> unat x < b + 512 * k then disk_byte ?secs (512 * s + (unat x - b)) else m x)" for x
    using mem_put_range [of ?cur "sectors_bytes ?secs s k" m x] nth_sectors_bytes [OF disk] disk fits k(3)
    unfolding cur by auto
  have "?m (buf + of_nat i) = disk_byte ?secs (512 * s + unat buf mod 512 + i)" if "i < unat n" for i
  proof -
    have "unat (buf + of_nat i) = unat buf + i" using that fits by (simp add: unat_word_ariths(1) unat_of_nat)
    moreover have "512 * s + (unat buf + i - b) = 512 * s + unat buf mod 512 + i" using b by linarith
    ultimately show ?thesis using m [of "buf + of_nat i"] that k(1) b(1) by (simp del: diff_add_assoc)
  qed
  moreover have "?m x = m x" if "unat x < unat buf div 512 * 512 \<or> unat buf + unat n + 511 \<le> unat x" for x
    using that k(3) m [of x] unfolding b_def by auto
  moreover have "copy_from_disk io buf n off (m, d) = Inr (?m, d')"
    using run(1) by (simp add: copy_from_disk_def Let_def)
  ultimately show ?thesis using run(2) by blast
qed

text \<open>The file starts behind the boot sector and the arguments.\<close>

lemma copy_from_disk_ok:
  assumes "disk_ok (a_sectors (view d))" "unat off + unat n < 2 ^ 31" "unat buf + unat n + 512 < 2 ^ 32"
    and al: "unat buf mod 512 = unat off mod 512"
  shows "\<exists>m' d'. copy_from_disk io buf n off (m, d) = Inr (m', d') \<and> a_sectors (view d') = a_sectors (view d) \<and>
    (\<forall>i<unat n. m' (buf + of_nat i) = disk_byte (a_sectors (view d)) (1536 + unat off + i)) \<and>
    (\<forall>x. unat x < unat buf div 512 * 512 \<or> unat buf + unat n + 511 \<le> unat x \<longrightarrow> m' x = m x)"
proof -
  have s: "unat off div 512 + 3 + unat n div 512 + 2 < 2 ^ 28"
    using div_le_mono [of "unat off" "2 ^ 31" 512] div_le_mono [of "unat n" "2 ^ 31" 512] assms(2) by simp
  have e: "512 * (unat off div 512 + 3) + unat buf mod 512 = 1536 + unat off" unfolding al by simp
  have "unat off < 2 ^ 31" using assms(2) by simp
  from copy_sectors [OF assms(1,3) first_sector [OF this] s, of m] show ?thesis unfolding e .
qed

lemma load_program_ok:
  assumes "disk_ok (a_sectors (view d))" "unat filesz \<le> unat memsz" "unat off + unat filesz < 2 ^ 31"
    "unat paddr + unat memsz + 512 < 2 ^ 32" "unat paddr mod 512 = unat off mod 512"
  shows "\<exists>m' d'. load_program io filesz memsz paddr off (m, d) = Inr (m', d') \<and> a_sectors (view d') = a_sectors (view d) \<and>
    (\<forall>i<unat filesz. m' (paddr + of_nat i) = disk_byte (a_sectors (view d)) (1536 + unat off + i)) \<and>
    (\<forall>i. unat filesz \<le> i \<and> i < unat memsz \<longrightarrow> m' (paddr + of_nat i) = 0) \<and>
    (\<forall>x. unat x < unat paddr div 512 * 512 \<or> unat paddr + unat memsz + 511 \<le> unat x \<longrightarrow> m' x = m x)"
proof -
  obtain m1 d' where c: "copy_from_disk io paddr filesz off (m, d) = Inr (m1, d')" "a_sectors (view d') = a_sectors (view d)"
    "\<And>i. i < unat filesz \<Longrightarrow> m1 (paddr + of_nat i) = disk_byte (a_sectors (view d)) (1536 + unat off + i)"
    "\<And>x. unat x < unat paddr div 512 * 512 \<or> unat paddr + unat filesz + 511 \<le> unat x \<Longrightarrow> m1 x = m x"
    using copy_from_disk_ok [of d off filesz paddr m] assms by auto
  let ?bss = "replicate (unat (memsz - filesz)) 0" and ?m = "mem_put m1 (paddr + filesz) (replicate (unat (memsz - filesz)) 0)"
  have u: "unat (memsz - filesz) = unat memsz - unat filesz" "unat (paddr + filesz) = unat paddr + unat filesz"
    using assms(2,4) by (simp_all add: unat_sub_if' unat_word_ariths(1))
  have m: "?m x = (if unat paddr + unat filesz \<le> unat x \<and> unat x < unat paddr + unat memsz then 0 else m1 x)" for x
    using mem_put_range [of "paddr + filesz" ?bss m1 x] assms(2,4) unfolding u by auto
  have p: "unat (paddr + of_nat i) = unat paddr + i" if "i < unat memsz" for i
    using that assms(4) by (simp add: unat_word_ariths(1) unat_of_nat)
  have "load_program io filesz memsz paddr off (m, d) = Inr (?m, d')"
    using c(1) by (simp add: load_program_def zero_loop_eq)
  moreover have "?m (paddr + of_nat i) = disk_byte (a_sectors (view d)) (1536 + unat off + i)" if "i < unat filesz" for i
    using that c(3) [OF that] m p [of i] assms(2) by simp
  moreover have "?m (paddr + of_nat i) = 0" if "unat filesz \<le> i" "i < unat memsz" for i
    using that m p [of i] by simp
  moreover have "?m x = m x" if "unat x < unat paddr div 512 * 512 \<or> unat paddr + unat memsz + 511 \<le> unat x" for x
    using that c(4) [of x] m [of x] assms(2) by auto
  ultimately show ?thesis using c(2) by blast
qed

lemma load_segment:
  assumes "disk_ok (a_sectors (view d))" "segment_ok sg"
  shows "\<exists>m' d'. load_program io (sg_filesz sg) (sg_memsz sg) (sg_paddr sg) (sg_offset sg) (m, d) = Inr (m', d') \<and>
    a_sectors (view d') = a_sectors (view d) \<and> segment_loaded (a_sectors (view d)) sg m' \<and>
    (\<forall>x. unat x < seg_lo sg \<or> seg_hi sg \<le> unat x \<longrightarrow> m' x = m x)"
  using load_program_ok [OF assms(1), of "sg_filesz sg" "sg_memsz sg" "sg_offset sg" "sg_paddr sg" m] assms(2)
  by (simp add: segment_ok_def segment_loaded_def seg_lo_def seg_hi_def)

lemma load_elf_loop_ok:
  assumes "image_ok L (a_sectors (view d))" "disk_ok (a_sectors (view d))" "header_in (a_sectors (view d)) m"
    and L: "L \<in> {Elf32, Elf64}" and n: "n = unat (file16 (a_sectors (view d)) (unat (e_phnum L)))"
    and "i \<le> n" "\<forall>k<i. segment_loaded (a_sectors (view d)) (segment_of L (a_sectors (view d)) k) m"
  shows "\<exists>m' d'. load_elf_loop L io 0x8000 i (0x8000 + of_nat (phdr_at L (a_sectors (view d)) i)) (m, d) = Some (Inr (m', d')) \<and>
    a_sectors (view d') = a_sectors (view d) \<and> header_in (a_sectors (view d)) m' \<and>
    (\<forall>k<n. segment_loaded (a_sectors (view d)) (segment_of L (a_sectors (view d)) k) m') \<and>
    (\<forall>x. unat x < 0x10400 \<longrightarrow> m' x = m x)"
  using assms(1-3,5-7)
proof (induction "n - i" arbitrary: i m d)
  case 0
  then have "i = n" by simp
  then show ?case using 0 header_phnum [OF 0(4) L] by (subst load_elf_loop.simps) auto
next
  case (Suc r)
  let ?secs = "a_sectors (view d)" and ?sg = "segment_of L (a_sectors (view d)) i"
  have i: "i < n" using Suc(2) by simp
  have im: "phdr_at L ?secs n \<le> 4096" "segment_ok ?sg" "\<And>k. k < i \<Longrightarrow> segment_ok (segment_of L ?secs k)"
    "\<And>k. k < i \<Longrightarrow> seg_hi ?sg \<le> seg_lo (segment_of L ?secs k) \<or> seg_hi (segment_of L ?secs k) \<le> seg_lo ?sg"
    using Suc.prems(1,4) i by (auto simp: image_ok_def Let_def)
  have "phdr_at L ?secs (Suc i) \<le> 4096" using phdr_at_mono [of "Suc i" n L ?secs] i im(1) by simp
  note f = header_segment [OF Suc.prems(3) L this]
  obtain m1 d1 where r: "load_program io (sg_filesz ?sg) (sg_memsz ?sg) (sg_paddr ?sg) (sg_offset ?sg) (m, d) = Inr (m1, d1)"
    "a_sectors (view d1) = ?secs" "segment_loaded ?secs ?sg m1" "\<And>x. unat x < seg_lo ?sg \<or> seg_hi ?sg \<le> unat x \<Longrightarrow> m1 x = m x"
    using load_segment [OF Suc.prems(2) im(2), of m] by blast
  have low: "m1 x = m x" if "unat x < 0x10400" for x using r(4) [of x] im(2) that by (simp add: segment_ok_def)
  have "segment_loaded ?secs (segment_of L ?secs k) m1" if "k < Suc i" for k
  proof (cases "k = i")
    case False
    then have k: "k < i" using that by simp
    show ?thesis
      using Suc.prems(6) k im(3) [OF k] im(4) [OF k] r(4) by (intro loaded_frame [of _ _ m m1]) (auto intro!: r(4))
  qed (use r(3) in simp)
  moreover have "header_in ?secs m1" using header_frame [OF Suc.prems(3) low] .
  moreover have ph: "0x8000 + of_nat (phdr_at L ?secs i) + ph_size L = (0x8000 + of_nat (phdr_at L ?secs (Suc i)) :: u32)"
    by (simp add: phdr_at_Suc)
  moreover have "r = n - Suc i" using Suc.hyps(2) by simp
  ultimately have "\<exists>m' d'. load_elf_loop L io 0x8000 (Suc i) (0x8000 + of_nat (phdr_at L ?secs i) + ph_size L) (m1, d1) = Some (Inr (m', d')) \<and>
      a_sectors (view d') = ?secs \<and> header_in ?secs m' \<and> (\<forall>k<n. segment_loaded ?secs (segment_of L ?secs k) m') \<and>
      (\<forall>x. unat x < 0x10400 \<longrightarrow> m' x = m1 x)"
    unfolding ph using Suc.hyps(1) [of "Suc i" d1 m1] Suc.prems(1,2,4) r(2) i by simp
  then show ?case
    using i f r(1) low header_phnum [OF Suc.prems(3) L] Suc.prems(4) by (subst load_elf_loop.simps) auto
qed

lemma load_kernel_ok:
  assumes disk: "disk_ok (a_sectors (view d))" and boot: "load32 m (BOOTREC_ADDR + 4) = 0"
    and im: "image_ok (file_layout (a_sectors (view d))) (a_sectors (view d))"
  shows "\<exists>m' d'. load_kernel io (m, d) = Inr (file32 (a_sectors (view d)) 24, m', d') \<and>
    (\<forall>k<unat (file16 (a_sectors (view d)) (unat (e_phnum (file_layout (a_sectors (view d)))))).
       segment_loaded (a_sectors (view d)) (segment_of (file_layout (a_sectors (view d))) (a_sectors (view d)) k) m') \<and>
    (\<forall>i<1024. m' (MAINARG_ADDR + of_nat i) = disk_byte (a_sectors (view d)) (512 + i))"
proof -
  let ?secs = "a_sectors (view d)" and ?L = "file_layout (a_sectors (view d))"
  have "unat (of_int (sint (- 1024 :: u32) sdiv int SECTSIZE) + of_nat (ARGSIZE div SECTSIZE) + 1 :: u32) = 1"
    by (simp add: SECTSIZE_def ARGSIZE_def signed_divide_int_def)
  from copy_sectors [OF disk _ this, of MAINARG_ADDR 1024 m] obtain m1 d1
    where c1: "copy_from_disk io MAINARG_ADDR 1024 (- 1024) (m, d) = Inr (m1, d1)" "a_sectors (view d1) = ?secs"
      "\<And>i. i < 1024 \<Longrightarrow> m1 (MAINARG_ADDR + of_nat i) = disk_byte ?secs (512 + i)"
    by (auto simp: MAINARG_ADDR_def)
  from copy_from_disk_ok [of d1 0 4096 "0x8000" m1] disk c1(2) obtain m2 d2
    where c2: "copy_from_disk io 0x8000 4096 0 (m1, d1) = Inr (m2, d2)" "a_sectors (view d2) = ?secs" "header_in ?secs m2"
      "\<And>x. 0x91ff \<le> unat x \<Longrightarrow> m2 x = m1 x"
    by (auto simp: header_in_def)
  have L: "?L \<in> {Elf32, Elf64}" by (simp add: file_layout_def)
  have "load32 m2 (0x8000 + e_phoff ?L) = file32 ?secs (unat (e_phoff ?L))"
    using header_fields(1) [OF c2(3), of "unat (e_phoff ?L)"] L by (auto simp: Elf32_def Elf64_def)
  then have ph: "load32 m2 (0x8000 + e_phoff ?L) = of_nat (phdr_at ?L ?secs 0)" by (simp add: phdr_at_def)
  have mach: "load16 m2 0x8012 = file16 ?secs 18" using header_fields(2) [OF c2(3), of 18] by simp
  obtain m3 d3 where c3: "load_elf_loop ?L io 0x8000 0 (0x8000 + of_nat (phdr_at ?L ?secs 0)) (m2, d2) = Some (Inr (m3, d3))"
    "header_in ?secs m3" "\<forall>k<unat (file16 ?secs (unat (e_phnum ?L))). segment_loaded ?secs (segment_of ?L ?secs k) m3"
    "\<And>x. unat x < 0x10400 \<Longrightarrow> m3 x = m2 x"
    using load_elf_loop_ok [of ?L d2 m2 _ 0] im disk c2(2,3) L by fastforce
  have "load_kernel io (m, d) = Inr (load32 m3 0x8018, m3, d3)"
    using boot c1(1) c2(1) c3(1) ph mach
    by (simp add: load_kernel_def Let_def load_elf32_def load_elf64_def load_elf_def file_layout_def split: if_splits)
  moreover have "load32 m3 0x8018 = file32 ?secs 24" using header_fields(1) [OF c3(2), of 24] by simp
  moreover have "m3 (MAINARG_ADDR + of_nat i) = disk_byte ?secs (512 + i)" if "i < 1024" for i
  proof -
    have "unat (MAINARG_ADDR + of_nat i) = 0x10000 + i" using that by (simp add: MAINARG_ADDR_def unat_word_ariths(1) unat_of_nat)
    then show ?thesis using that c1(3) c2(4) c3(4) by simp
  qed
  ultimately show ?thesis using c3(3) by auto
qed

end

section \<open>Property\<close>

text \<open>
  C22. On a drive with an ELF image whose segments are aligned like the file, lie above the arguments and do not
  overlap, \<open>load_kernel\<close> returns the entry point of the file; every segment of its program header table is
  in memory at its physical address, the part of it that is not in the file is cleared, and the
  argument string is at its address. This holds for 32-bit and for 64-bit images.
\<close>

theorem load_kernel_loads:
  assumes "ata_drive io view polls" "disk_ok (a_sectors (view d))" "load32 m (BOOTREC_ADDR + 4) = 0"
    "image_ok (file_layout (a_sectors (view d))) (a_sectors (view d))"
  shows "\<exists>m' d'. load_kernel io (m, d) = Inr (file32 (a_sectors (view d)) 24, m', d') \<and>
    (\<forall>k<unat (file16 (a_sectors (view d)) (unat (e_phnum (file_layout (a_sectors (view d)))))).
       segment_loaded (a_sectors (view d)) (segment_of (file_layout (a_sectors (view d))) (a_sectors (view d)) k) m') \<and>
    (\<forall>i<1024. m' (MAINARG_ADDR + of_nat i) = disk_byte (a_sectors (view d)) (512 + i))"
  by (rule ata_drive.load_kernel_ok [OF assms])

lemma file_bytes:
  assumes "length (secs 3) = 128" "j < 128" "i < 4"
  shows "disk_byte secs (1536 + (4 * j + i)) = ucast (drop_bit (8 * i) (secs 3 ! j))"
proof -
  have "(1536 + (4 * j + i)) div 512 = 3" using assms(2,3) by simp
  moreover from this have "(1536 + (4 * j + i)) mod 512 = 4 * j + i" unfolding modulo_nat_def by simp
  ultimately show ?thesis using assms by (simp add: disk_byte_def nth_words_bytes)
qed

lemma file32_word:
  assumes "length (secs 3) = 128" "j < 128"
  shows "file32 secs (4 * j) = secs 3 ! j"
proof -
  have "map (\<lambda>i. disk_byte secs (1536 + 4 * j + i)) [0..<4] = le_bytes 4 (secs 3 ! j)"
    using file_bytes [of secs j, OF assms] by (simp add: le_bytes_def add.assoc)
  then show ?thesis by (simp add: file32_def le_word_le_bytes_full)
qed

lemma file16_word:
  assumes "length (secs 3) = 128" "j < 128" "i = 0 \<or> i = 2"
  shows "file16 secs (4 * j + i) = ucast (drop_bit (8 * i) (secs 3 ! j))"
proof -
  have "map (\<lambda>k. disk_byte secs (1536 + (4 * j + i) + k)) [0..<2] = le_bytes 2 (drop_bit (8 * i) (secs 3 ! j))"
  proof (rule nth_equalityI)
    fix k assume "k < length (map (\<lambda>k. disk_byte secs (1536 + (4 * j + i) + k)) [0..<2])"
    then have k: "k < 2" by simp
    then have "disk_byte secs (1536 + (4 * j + (i + k))) = ucast (drop_bit (8 * (i + k)) (secs 3 ! j))"
      using assms by (intro file_bytes) auto
    then show "map (\<lambda>k. disk_byte secs (1536 + (4 * j + i) + k)) [0..<2] ! k = le_bytes 2 (drop_bit (8 * i) (secs 3 ! j)) ! k"
      using k by (simp add: drop_bit_drop_bit distrib_left ac_simps)
  qed simp
  then have "file16 secs (4 * j + i) = le_word (le_bytes 2 (drop_bit (8 * i) (secs 3 ! j)))" by (simp add: file16_def)
  also have "\<dots> = ucast (drop_bit (8 * i) (secs 3 ! j))"
    by (rule bit_word_eqI) (auto simp: bit_le_word bit_simps add.commute)
  finally show ?thesis .
qed

text \<open>A drive with an image of one segment, the rest of the disk being zero.\<close>

definition sample_header :: "nat \<Rightarrow> u32" where
  "sample_header j = (if j = 4 then 0x00030002 else if j = 6 then 0x100000 else if j = 7 then 52 else if j = 11 then 1
     else if j = 14 then 0x1000 else if j = 16 then 0x100000 else if j = 17 then 512 else if j = 18 then 1024 else 0)"

definition sample_disk :: "nat \<Rightarrow> u32 list" where
  "sample_disk n = map (\<lambda>j. if n = 3 then sample_header j else 0) [0..<128]"

definition sample_drive :: drive where
  "sample_drive = \<lparr>drv_ata = \<lparr>a_count = 0, a_lba0 = 0, a_lba1 = 0, a_lba2 = 0, a_dev = 0, a_phase = Idle, a_sectors = sample_disk\<rparr>, drv_busy = 2\<rparr>"

lemma sample_fields: "j < 128 \<Longrightarrow> file32 sample_disk (4 * j) = sample_header j"
    "j < 128 \<Longrightarrow> i = 0 \<or> i = 2 \<Longrightarrow> file16 sample_disk (4 * j + i) = ucast (drop_bit (8 * i) (sample_header j))"
  by (simp_all add: file32_word file16_word sample_disk_def)

lemma sample_image: "file_layout sample_disk = Elf32" "unat (file16 sample_disk (unat (e_phnum Elf32))) = 1"
    "image_ok (file_layout sample_disk) sample_disk"
    "segment_of Elf32 sample_disk 0 = \<lparr>sg_filesz = 512, sg_memsz = 1024, sg_paddr = 0x100000, sg_offset = 0x1000\<rparr>"
proof -
  have "file16 sample_disk 18 = 3" using sample_fields(2) [of 4 2] by (simp add: sample_header_def)
  then show L: "file_layout sample_disk = Elf32" by (simp add: file_layout_def EM_X86_64_def)
  have "file16 sample_disk 44 = 1" using sample_fields(2) [of 11 0] by (simp add: sample_header_def)
  then show n: "unat (file16 sample_disk (unat (e_phnum Elf32))) = 1" by (simp add: Elf32_def)
  have ph: "phdr_at Elf32 sample_disk k = 52 + 32 * k" for k
    using sample_fields(1) [of 7] by (simp add: phdr_at_def Elf32_def sample_header_def)
  show sg: "segment_of Elf32 sample_disk 0 = \<lparr>sg_filesz = 512, sg_memsz = 1024, sg_paddr = 0x100000, sg_offset = 0x1000\<rparr>"
    using ph [of 0] sample_fields(1) [of 14] sample_fields(1) [of 16] sample_fields(1) [of 17] sample_fields(1) [of 18]
    by (simp add: segment_of_def Let_def Elf32_def sample_header_def)
  have "segment_ok (segment_of Elf32 sample_disk 0)"
    unfolding sg by (simp add: segment_ok_def seg_hi_def seg_lo_def)
  then show "image_ok (file_layout sample_disk) sample_disk"
    unfolding L image_ok_def n Let_def using ph by simp
qed

theorem load_kernel_loads_witness:
  "\<exists>m' d'. load_kernel drive_ports (\<lambda>_. 0, sample_drive) = Inr (0x100000, m', d') \<and> m' 0x100200 = 0"
proof -
  have s: "a_sectors (drv_ata sample_drive) = sample_disk" by (simp add: sample_drive_def)
  have "disk_ok sample_disk" by (simp add: disk_ok_def sample_disk_def)
  moreover have "load32 (\<lambda>_. 0) (BOOTREC_ADDR + 4) = 0" by (simp add: load32_def mem_get_def eval_nat_numeral)
  moreover have "file32 sample_disk 24 = 0x100000" using sample_fields(1) [of 6] by (simp add: sample_header_def)
  ultimately obtain m' d' where r: "load_kernel drive_ports (\<lambda>_. 0, sample_drive) = Inr (0x100000, m', d')"
    and l: "\<forall>k<1. segment_loaded sample_disk (segment_of Elf32 sample_disk k) m'"
    using load_kernel_loads [of drive_ports drv_ata drv_busy sample_drive "\<lambda>_. 0", unfolded s] drv.ata_drive_axioms sample_image by auto
  from l have "\<forall>i. 512 \<le> i \<and> i < 1024 \<longrightarrow> m' (0x100000 + of_nat i) = 0" by (simp add: sample_image(4) segment_loaded_def)
  from spec [OF this, of 512] have "m' (0x100000 + of_nat 512) = 0" by simp
  then show ?thesis using r by simp
qed

end
