(* ===== verification/Ioe.thy ===== *)
theory Ioe
  imports Ata
begin

text \<open>
  The I/O extension of AbstractMachine on x86 (\<open>am/src/x86/qemu/ioe.c\<close>), 32-bit build: the serial
  line, the clock, the keyboard, the frame buffer with its canvas tree, the disk, the table of device
  registers, and the interrupt controllers. Handlers get the address of a structure in memory, at whose
  offsets they read and write, so the layouts of \<open>amdev.h\<close> are part of the model.

  A C \<open>int\<close> is an integer. The sums and products of coordinates that drawing makes may leave its range,
  which C does not define: each of them goes through \<open>c_int\<close>, which is the fault \<open>Int_overflow\<close> then.
  The other \<open>int\<close> values (dates, key codes, sizes) are too small to overflow.
\<close>

definition c_int :: "int \<Rightarrow> int res" where
  "c_int v = (if - (2 ^ 31) \<le> v \<and> v < 2 ^ 31 then Inr v else Inl Int_overflow)"

section \<open>State\<close>

record rtc_date =
  rtc_year :: int
  rtc_month :: int
  rtc_day :: int
  rtc_hour :: int
  rtc_minute :: int
  rtc_second :: int

text \<open>\<open>vmem_at\<close> and \<open>vbuf_at\<close> are the addresses of the static arrays, \<open>lapic_at\<close> the pointer \<open>__am_lapic\<close>.\<close>

record 'd ioe =
  i_mem :: mem32
  i_dev :: 'd
  boot_date :: rtc_date
  freq_mhz :: u32
  uptsc :: u64
  display_w :: u16
  display_h :: u16
  fb_at :: u32
  vmem_at :: u32
  vbuf_at :: u32
  vbuf_head :: u32
  lapic_at :: u32
  ioapic_at :: u32
  lut_full :: bool

definition set_bool :: "u32 \<Rightarrow> bool \<Rightarrow> 'd ioe \<Rightarrow> 'd ioe" where
  "set_bool a b st = st\<lparr>i_mem := (i_mem st)(a := if b then 1 else 0)\<rparr>"

definition set_int :: "u32 \<Rightarrow> int \<Rightarrow> 'd ioe \<Rightarrow> 'd ioe" where
  "set_int a v st = st\<lparr>i_mem := store32 (i_mem st) a (of_int v)\<rparr>"

definition get_int :: "u32 \<Rightarrow> 'd ioe \<Rightarrow> int" where
  "get_int a st = sint (load32 (i_mem st) a)"

definition dev_out :: "('d \<Rightarrow> 'd) \<Rightarrow> 'd ioe \<Rightarrow> 'd ioe" where
  "dev_out f st = st\<lparr>i_dev := f (i_dev st)\<rparr>"

definition dev_in :: "('d \<Rightarrow> 'a \<times> 'd) \<Rightarrow> 'd ioe \<Rightarrow> 'a \<times> 'd ioe" where
  "dev_in f st = (let (v, d) = f (i_dev st) in (v, st\<lparr>i_dev := d\<rparr>))"

section \<open>Serial line\<close>

definition COM1 :: u32 where "COM1 = 0x3f8"

definition uart_init :: "'d ports \<Rightarrow> 'd ioe \<Rightarrow> 'd ioe" where
  "uart_init io st =
     (let st = dev_out (outb io (COM1 + 2) 0) st;
          st = dev_out (outb io (COM1 + 3) 0x80) st;
          st = dev_out (outb io (COM1 + 0) (of_nat (115200 div 9600))) st;
          st = dev_out (outb io (COM1 + 1) 0) st;
          st = dev_out (outb io (COM1 + 3) 0x03) st;
          st = dev_out (outb io (COM1 + 4) 0) st;
          st = dev_out (outb io (COM1 + 1) 0x01) st;
          (_, st) = dev_in (inb io (COM1 + 2)) st;
          (_, st) = dev_in (inb io (COM1 + 0)) st
      in st)"

definition uart_config :: "u32 \<Rightarrow> 'd ioe \<Rightarrow> 'd ioe res" where
  "uart_config cfg st = Inr (set_bool cfg True st)"

definition uart_tx :: "'d ports \<Rightarrow> u32 \<Rightarrow> 'd ioe \<Rightarrow> 'd ioe res" where
  "uart_tx io send st = Inr (dev_out (outb io COM1 (i_mem st send)) st)"

definition uart_rx :: "'d ports \<Rightarrow> u32 \<Rightarrow> 'd ioe \<Rightarrow> 'd ioe res" where
  "uart_rx io recv st =
     (let (s, st) = dev_in (inb io (COM1 + 5)) st;
          (v, st) = (if s AND 0x1 \<noteq> 0 then dev_in (inb io COM1) st else (- 1, st))
      in Inr (st\<lparr>i_mem := (i_mem st)(recv := v)\<rparr>))"

section \<open>Clock\<close>

definition bcd :: "u8 \<Rightarrow> int" where
  "bcd ret = uint (ret AND 0xf) + uint (drop_bit 4 ret) * 10"

definition read_rtc :: "'d ports \<Rightarrow> u8 \<Rightarrow> 'd \<Rightarrow> int \<times> 'd" where
  "read_rtc io reg d = (let (ret, d) = inb io 0x71 (outb io 0x70 reg d) in (bcd ret, d))"

definition read_rtc_async :: "'d ports \<Rightarrow> 'd \<Rightarrow> rtc_date \<times> 'd" where
  "read_rtc_async io d =
     (let (s, d) = read_rtc io 0 d; (mi, d) = read_rtc io 2 d; (h, d) = read_rtc io 4 d;
          (da, d) = read_rtc io 7 d; (mo, d) = read_rtc io 8 d; (y, d) = read_rtc io 9 d
      in (\<lparr>rtc_year = y + 2000, rtc_month = mo, rtc_day = da, rtc_hour = h, rtc_minute = mi, rtc_second = s\<rparr>, d))"

partial_function (option) wait_sec :: "'d ports \<Rightarrow> 'd \<Rightarrow> (rtc_date \<times> 'd) option" where
  "wait_sec io d =
     (let (t0, d) = read_rtc_async io d; (t1, d) = read_rtc_async io d
      in if rtc_second t0 \<noteq> rtc_second t1 then Some (t1, d) else wait_sec io d)"

partial_function (option) estimate_freq :: "'d ports \<Rightarrow> 'd \<Rightarrow> (u32 \<times> 'd) option" where
  "estimate_freq io d =
     (case wait_sec io d of
        None \<Rightarrow> None
      | Some (rtc1, d) \<Rightarrow>
          (let (tsc1, d) = tsc io d; t1 = of_int (rtc_minute rtc1 * 60 + rtc_second rtc1) :: u64
           in case wait_sec io d of
                None \<Rightarrow> None
              | Some (rtc2, d) \<Rightarrow>
                  (let (tsc2, d) = tsc io d; t2 = of_int (rtc_minute rtc2 * 60 + rtc_second rtc2)
                   in if t1 \<ge> t2 then estimate_freq io d
                      else Some (ucast (drop_bit 20 (tsc2 - tsc1) div (t2 - t1)), d))))"

partial_function (option) timer_rtc_loop :: "'d ports \<Rightarrow> 'd \<Rightarrow> (rtc_date \<times> 'd) option" where
  "timer_rtc_loop io d =
     (let (rtc, d) = read_rtc_async io d; (tmp, d) = read_rtc io 0 d
      in if tmp \<noteq> rtc_second rtc then timer_rtc_loop io d else Some (rtc, d))"

definition store_date :: "u32 \<Rightarrow> rtc_date \<Rightarrow> 'd ioe \<Rightarrow> 'd ioe" where
  "store_date a t st =
     set_int (a + 20) (rtc_second t) (set_int (a + 16) (rtc_minute t) (set_int (a + 12) (rtc_hour t)
       (set_int (a + 8) (rtc_day t) (set_int (a + 4) (rtc_month t) (set_int a (rtc_year t) st)))))"

definition timer_rtc :: "'d ports \<Rightarrow> u32 \<Rightarrow> 'd ioe \<Rightarrow> 'd ioe res" where
  "timer_rtc io rtc st =
     bindE (optE Diverge (timer_rtc_loop io (i_dev st))) (\<lambda>(t, d). Inr (store_date rtc t (st\<lparr>i_dev := d\<rparr>)))"

definition timer_init :: "'d ports \<Rightarrow> 'd ioe \<Rightarrow> 'd ioe res" where
  "timer_init io st =
     bindE (optE Diverge (estimate_freq io (i_dev st))) (\<lambda>(f, d).
     bindE (optE Diverge (timer_rtc_loop io d)) (\<lambda>(t, d).
       let (c, d) = tsc io d in Inr (st\<lparr>freq_mhz := f, boot_date := t, uptsc := c, i_dev := d\<rparr>)))"

definition timer_config :: "u32 \<Rightarrow> 'd ioe \<Rightarrow> 'd ioe res" where
  "timer_config cfg st = Inr (set_bool cfg True (set_bool (cfg + 1) True st))"

definition timer_uptime :: "'d ports \<Rightarrow> u32 \<Rightarrow> 'd ioe \<Rightarrow> 'd ioe res" where
  "timer_uptime io up st =
     (let (c, st) = dev_in (tsc io) st in
      if freq_mhz st = 0 then Inl Div_error
      else Inr (st\<lparr>i_mem := mem_put (i_mem st) up (le_bytes 8 ((c - uptsc st) div ucast (freq_mhz st)))\<rparr>))"

section \<open>Keyboard\<close>

text \<open>The keys in the order of \<open>AM_KEYS\<close>; the code of the \<open>i\<close>-th is \<open>i + 1\<close>, 0 is \<open>AM_KEY_NONE\<close>.\<close>

definition AM_KEYS :: "string list" where
  "AM_KEYS =
    [''ESCAPE'', ''F1'', ''F2'', ''F3'', ''F4'', ''F5'', ''F6'', ''F7'', ''F8'', ''F9'', ''F10'', ''F11'', ''F12'',
     ''GRAVE'', ''1'', ''2'', ''3'', ''4'', ''5'', ''6'', ''7'', ''8'', ''9'', ''0'', ''MINUS'', ''EQUALS'', ''BACKSPACE'',
     ''TAB'', ''Q'', ''W'', ''E'', ''R'', ''T'', ''Y'', ''U'', ''I'', ''O'', ''P'', ''LEFTBRACKET'', ''RIGHTBRACKET'', ''BACKSLASH'',
     ''CAPSLOCK'', ''A'', ''S'', ''D'', ''F'', ''G'', ''H'', ''J'', ''K'', ''L'', ''SEMICOLON'', ''APOSTROPHE'', ''RETURN'',
     ''LSHIFT'', ''Z'', ''X'', ''C'', ''V'', ''B'', ''N'', ''M'', ''COMMA'', ''PERIOD'', ''SLASH'', ''RSHIFT'',
     ''LCTRL'', ''APPLICATION'', ''LALT'', ''SPACE'', ''RALT'', ''RCTRL'',
     ''UP'', ''DOWN'', ''LEFT'', ''RIGHT'', ''INSERT'', ''DELETE'', ''HOME'', ''END'', ''PAGEUP'', ''PAGEDOWN'']"

fun key_index :: "nat \<Rightarrow> string \<Rightarrow> string list \<Rightarrow> nat" where
  "key_index n k [] = 0"
| "key_index n k (x # xs) = (if k = x then n else key_index (Suc n) k xs)"

definition AM_KEY :: "string \<Rightarrow> nat" where
  "AM_KEY k = key_index 1 k AM_KEYS"

text \<open>The designated initialisers of \<open>keylut\<close> in their order; for a repeated index the last one counts.\<close>

definition keylut_init :: "(nat \<times> string) list" where
  "keylut_init =
    [(0x01, ''ESCAPE''), (0x02, ''1''), (0x03, ''2''), (0x04, ''3''), (0x05, ''4''), (0x06, ''5''), (0x07, ''6''),
     (0x08, ''7''), (0x09, ''8''), (0x0a, ''9''), (0x0b, ''0''), (0x0c, ''MINUS''), (0x0d, ''EQUALS''),
     (0x0e, ''BACKSPACE''), (0x0f, ''TAB''), (0x10, ''Q''), (0x11, ''W''), (0x12, ''E''), (0x13, ''R''),
     (0x14, ''T''), (0x15, ''Y''), (0x16, ''U''), (0x17, ''I''), (0x18, ''O''), (0x19, ''P''), (0x1a, ''LEFTBRACKET''),
     (0x1b, ''RIGHTBRACKET''), (0x1c, ''RETURN''), (0x1d, ''LCTRL''), (0x1e, ''A''), (0x1f, ''S''),
     (0x20, ''D''), (0x21, ''F''), (0x22, ''G''), (0x23, ''H''), (0x24, ''J''), (0x25, ''K''), (0x26, ''L''),
     (0x27, ''SEMICOLON''), (0x28, ''APOSTROPHE''), (0x29, ''GRAVE''), (0x2a, ''LSHIFT''), (0x2b, ''BACKSLASH''),
     (0x2c, ''Z''), (0x2d, ''X''), (0x2e, ''C''), (0x2f, ''V''), (0x30, ''B''), (0x31, ''N''), (0x32, ''M''),
     (0x33, ''COMMA''), (0x34, ''PERIOD''), (0x35, ''SLASH''), (0x36, ''RSHIFT''), (0x38, ''LALT''), (0x38, ''RALT''),
     (0x39, ''SPACE''), (0x3a, ''CAPSLOCK''), (0x3b, ''F1''), (0x3c, ''F2''), (0x3d, ''F3''), (0x3e, ''F4''),
     (0x3f, ''F5''), (0x40, ''F6''), (0x41, ''F7''), (0x42, ''F8''), (0x43, ''F9''), (0x44, ''F10''), (0x48, ''INSERT''),
     (0x4b, ''HOME''), (0x4d, ''END''), (0x50, ''DELETE''), (0x57, ''F11''), (0x58, ''F12''), (0x5b, ''APPLICATION'')]"

definition keylut :: "nat \<Rightarrow> nat" where
  "keylut code = (case map_of (rev keylut_init) code of None \<Rightarrow> 0 | Some k \<Rightarrow> AM_KEY k)"

definition input_config :: "u32 \<Rightarrow> 'd ioe \<Rightarrow> 'd ioe res" where
  "input_config cfg st = Inr (set_bool cfg True st)"

definition input_keybrd :: "'d ports \<Rightarrow> u32 \<Rightarrow> 'd ioe \<Rightarrow> 'd ioe res" where
  "input_keybrd io ev st =
     (let (s, st) = dev_in (inb io 0x64) st in
      if s AND 0x1 \<noteq> 0 then
        let (c, st) = dev_in (inb io 0x60) st; code = unat c
        in Inr (set_int (ev + 4) (int (keylut (unat (c AND 0x7f)))) (set_bool ev (code < 128) st))
      else Inr (set_int (ev + 4) 0 (set_bool ev False st)))"

section \<open>Frame buffer and canvas tree\<close>

definition VMEM_SIZE :: nat where "VMEM_SIZE = 512 * 1024"
definition AM_GPU_TEXTURE :: u16 where "AM_GPU_TEXTURE = 1"
definition AM_GPU_SUBTREE :: u16 where "AM_GPU_SUBTREE = 2"
definition AM_GPU_NULL :: u32 where "AM_GPU_NULL = 0xffffffff"

definition pix_R :: "u32 \<Rightarrow> u8" where "pix_R p = ucast (drop_bit 16 p)"
definition pix_G :: "u32 \<Rightarrow> u8" where "pix_G p = ucast (drop_bit 8 p)"
definition pix_B :: "u32 \<Rightarrow> u8" where "pix_B p = ucast p"

text \<open>A \<open>struct pixel\<close> is the three bytes blue, green, red; \<open>px_at\<close> is the address of an element of an array of them.\<close>

definition px_at :: "u32 \<Rightarrow> int \<Rightarrow> u32" where
  "px_at px i = px + of_int (3 * i)"

definition pixel_bytes :: "u32 \<Rightarrow> u8 list" where
  "pixel_bytes p = [pix_B p, pix_G p, pix_R p]"

definition to_host :: "u32 \<Rightarrow> 'd ioe \<Rightarrow> u32" where
  "to_host p st = (if p = AM_GPU_NULL then 0 else vmem_at st + p)"

definition gpu_init :: "'d ioe \<Rightarrow> 'd ioe" where
  "gpu_init st =
     (let info = 0x00004000 in
      st\<lparr>display_w := load16 (i_mem st) (info + 18), display_h := load16 (i_mem st) (info + 20),
         fb_at := load32 (i_mem st) (info + 40)\<rparr>)"

definition gpu_config :: "u32 \<Rightarrow> 'd ioe \<Rightarrow> 'd ioe res" where
  "gpu_config cfg st =
     Inr (set_int (cfg + 12) (int VMEM_SIZE) (set_int (cfg + 8) (uint (display_h st)) (set_int (cfg + 4) (uint (display_w st))
       (set_bool (cfg + 1) False (set_bool cfg True st)))))"

fun fbdraw_row :: "nat \<Rightarrow> u32 \<Rightarrow> u32 \<Rightarrow> mem32 \<Rightarrow> mem32" where
  "fbdraw_row 0 px pixels m = m"
| "fbdraw_row (Suc n) px pixels m = fbdraw_row n (px + 3) (pixels + 4) (mem_put m px (pixel_bytes (load32 m pixels)))"

fun fbdraw_rows :: "nat \<Rightarrow> int \<Rightarrow> int \<Rightarrow> int \<Rightarrow> int \<Rightarrow> int \<Rightarrow> int \<Rightarrow> int \<Rightarrow> u32 \<Rightarrow> u32 \<Rightarrow> mem32 \<Rightarrow> mem32 res" where
  "fbdraw_rows 0 x y w W H len j fb pixels m = Inr m"
| "fbdraw_rows (Suc n) x y w W H len j fb pixels m =
     bindE (c_int (y + j)) (\<lambda>Y.
     bindE (if Y < H then
              bindE (c_int (Y * W)) (\<lambda>r. bindE (c_int (x + r)) (\<lambda>k.
                Inr (fbdraw_row (nat len) (px_at fb k) pixels m)))
            else Inr m) (\<lambda>m.
     fbdraw_rows n x y w W H len (j + 1) fb (pixels + of_int (4 * w)) m))"

definition gpu_fbdraw :: "u32 \<Rightarrow> 'd ioe \<Rightarrow> 'd ioe res" where
  "gpu_fbdraw draw st =
     (let x = get_int draw st; y = get_int (draw + 4) st; pixels = load32 (i_mem st) (draw + 8);
          w = get_int (draw + 12) st; h = get_int (draw + 16) st;
          W = uint (display_w st); H = uint (display_h st)
      in bindE (c_int (x + w)) (\<lambda>e.
         bindE (if e \<ge> W then c_int (W - x) else Inr w) (\<lambda>len.
         bindE (fbdraw_rows (nat h) x y w W H len 0 (fb_at st) pixels (i_mem st)) (\<lambda>m.
         Inr (st\<lparr>i_mem := m\<rparr>)))))"

definition gpu_status :: "u32 \<Rightarrow> 'd ioe \<Rightarrow> 'd ioe res" where
  "gpu_status stat st = Inr (set_bool stat True st)"

fun copy_bytes :: "nat \<Rightarrow> u32 \<Rightarrow> u32 \<Rightarrow> mem32 \<Rightarrow> mem32" where
  "copy_bytes 0 dst src m = m"
| "copy_bytes (Suc n) dst src m = copy_bytes n (dst + 1) (src + 1) (m(dst := m src))"

definition gpu_memcpy :: "u32 \<Rightarrow> 'd ioe \<Rightarrow> 'd ioe res" where
  "gpu_memcpy params st =
     (let src = load32 (i_mem st) (params + 4); dst = to_host (load32 (i_mem st) params) st
      in Inr (st\<lparr>i_mem := copy_bytes (nat (get_int (params + 8) st)) dst src (i_mem st)\<rparr>))"

definition vbuf_alloc :: "int \<Rightarrow> 'd ioe \<Rightarrow> (u32 \<times> 'd ioe) res" where
  "vbuf_alloc n st =
     (let ret = vbuf_head st; hd' = vbuf_head st + of_int n in
      if hd' > vbuf_at st + of_nat VMEM_SIZE then Inl (Panic ''no memory'')
      else Inr (ret, st\<lparr>vbuf_head := hd', i_mem := mem_put (i_mem st) ret (replicate (nat n) 0)\<rparr>))"

text \<open>
  \<open>render\<close> allocates \<open>w * h * sizeof(struct pixel)\<close> bytes, a \<open>size_t\<close> that is passed as an \<open>int\<close>.
  \<open>render\<close> and its loop over the children, which end only if the tree in memory is one; \<open>W\<close> is the
  width of the parent canvas. A canvas is a packed structure.
\<close>

fun draw_canvas :: "(nat \<times> nat) list \<Rightarrow> int \<Rightarrow> int \<Rightarrow> int \<Rightarrow> int \<Rightarrow> int \<Rightarrow> int \<Rightarrow> int \<Rightarrow> u32 \<Rightarrow> u32 \<Rightarrow> mem32 \<Rightarrow> mem32 res" where
  "draw_canvas [] W w h x1 y1 w1 h1 px px_local m = Inr m"
| "draw_canvas ((i, j) # ijs) W w h x1 y1 w1 h1 px px_local m =
     (let x = x1 + int i; y = y1 + int j in
      bindE (c_int (W * y)) (\<lambda>r. bindE (c_int (r + x)) (\<lambda>k.
      bindE (c_int (int j * h)) (\<lambda>jh. bindE (c_int (w * (jh div h1))) (\<lambda>row.
      bindE (c_int (int i * w)) (\<lambda>iw. bindE (c_int (row + iw div w1)) (\<lambda>l.
      draw_canvas ijs W w h x1 y1 w1 h1 px px_local (mem_put m (px_at px k) (mem_get m (px_at px_local l) 3)))))))))"

datatype render_task = Canvas u32 int u32 | Children u32 int u32

partial_function (option) render :: "render_task \<Rightarrow> 'd ioe \<Rightarrow> 'd ioe res option" where
  "render t st =
     (case t of
        Children ch W px \<Rightarrow>
          if ch = 0 then Some (Inr st)
          else Option.bind (render (Canvas ch W px) st) (\<lambda>r. case r of
                  Inl e \<Rightarrow> Some (Inl e)
                | Inr st \<Rightarrow> render (Children (to_host (load32 (i_mem st) (ch + 14)) st) W px) st)
      | Canvas cv W px \<Rightarrow>
          (let u16_at = \<lambda>o'. uint (load16 (i_mem st) (cv + o'));
               x1 = u16_at 6; y1 = u16_at 8; w1 = u16_at 10; h1 = u16_at 12;
               grid = List.product [0..<nat w1] [0..<nat h1]
           in if load16 (i_mem st) cv = AM_GPU_TEXTURE then
                let w = u16_at 18; h = u16_at 20; px_local = to_host (load32 (i_mem st) (cv + 22)) st
                in Some (bindE (draw_canvas grid W w h x1 y1 w1 h1 px px_local (i_mem st)) (\<lambda>m. Inr (st\<lparr>i_mem := m\<rparr>)))
              else if load16 (i_mem st) cv = AM_GPU_SUBTREE then
                let w = u16_at 2; h = u16_at 4
                in (case bindE (c_int (w * h)) (\<lambda>n. vbuf_alloc (sint (of_int (n * 3) :: u32)) st) of
                      Inl e \<Rightarrow> Some (Inl e)
                    | Inr (px_local, st) \<Rightarrow>
                        Option.bind (render (Children (to_host (load32 (i_mem st) (cv + 18)) st) w px_local) st) (\<lambda>r. case r of
                           Inl e \<Rightarrow> Some (Inl e)
                         | Inr st \<Rightarrow>
                             Some (bindE (draw_canvas grid W w h x1 y1 w1 h1 px px_local (i_mem st)) (\<lambda>m. Inr (st\<lparr>i_mem := m\<rparr>)))))
              else Some (Inl (Panic ''invalid node''))))"

definition gpu_render :: "u32 \<Rightarrow> 'd ioe \<Rightarrow> 'd ioe res" where
  "gpu_render ren st =
     (let st = st\<lparr>vbuf_head := vbuf_at st\<rparr> in
      bindE (optE Diverge (render (Canvas (to_host (load32 (i_mem st) ren) st) (uint (display_w st)) (fb_at st)) st)) (\<lambda>r. r))"

section \<open>Disk\<close>

definition BLKSZ :: nat where "BLKSZ = 512"
definition DISKSZ :: nat where "DISKSZ = 64 * 2 ^ 20"

definition disk_config :: "u32 \<Rightarrow> 'd ioe \<Rightarrow> 'd ioe res" where
  "disk_config cfg st = Inr (set_int (cfg + 8) (int (DISKSZ div BLKSZ)) (set_int (cfg + 4) (int BLKSZ) (set_bool cfg True st)))"

definition disk_status :: "u32 \<Rightarrow> 'd ioe \<Rightarrow> 'd ioe res" where
  "disk_status status st = Inr (set_bool status True st)"

text \<open>
  \<open>bio->write\<close> is read from memory twice in every round, once for the command and once for the
  direction of the transfer, so a buffer that covers it may change it.
\<close>

fun blkio_loop :: "'d ports \<Rightarrow> u32 \<Rightarrow> nat \<Rightarrow> u32 \<Rightarrow> u32 \<Rightarrow> mem32 \<times> 'd \<Rightarrow> (mem32 \<times> 'd) res" where
  "blkio_loop io bio 0 blkno ptr s = Inr s"
| "blkio_loop io bio (Suc remain) blkno ptr (m, d) =
     bindE (wait_disk io d) (\<lambda>d.
     bindE (wait_disk io (disk_command io (if m bio \<noteq> 0 then 0x30 else 0x20) blkno d)) (\<lambda>d.
       let s = (if m bio \<noteq> 0 then (m, write_words io (BLKSZ div 4) ptr m d) else read_words io (BLKSZ div 4) ptr (m, d))
       in blkio_loop io bio remain (blkno + 1) (ptr + of_nat BLKSZ) s))"

definition disk_blkio :: "'d ports \<Rightarrow> u32 \<Rightarrow> 'd ioe \<Rightarrow> 'd ioe res" where
  "disk_blkio io bio st =
     (let buf = load32 (i_mem st) (bio + 4);
          blkno = load32 (i_mem st) (bio + 8); remain = load32 (i_mem st) (bio + 12)
      in bindE (blkio_loop io bio (unat remain) blkno buf (i_mem st, i_dev st)) (\<lambda>(m, d).
         Inr (st\<lparr>i_mem := m, i_dev := d\<rparr>)))"

section \<open>Device registers\<close>

definition audio_config :: "u32 \<Rightarrow> 'd ioe \<Rightarrow> 'd ioe res" where
  "audio_config cfg st = Inr (set_bool cfg False st)"

definition net_config :: "u32 \<Rightarrow> 'd ioe \<Rightarrow> 'd ioe res" where
  "net_config cfg st = Inr (set_bool cfg False st)"

definition ioe_fail :: "u32 \<Rightarrow> 'd ioe \<Rightarrow> 'd ioe res" where
  "ioe_fail buf st = Inl (Panic ''access nonexist register'')"

definition lut :: "'d ports \<Rightarrow> nat \<Rightarrow> (u32 \<Rightarrow> 'd ioe \<Rightarrow> 'd ioe res) option" where
  "lut io reg =
     map_of [(1, uart_config), (2, uart_tx io), (3, uart_rx io), (4, timer_config), (5, timer_rtc io), (6, timer_uptime io),
       (7, input_config), (8, input_keybrd io), (9, gpu_config), (11, gpu_fbdraw), (10, gpu_status), (12, gpu_memcpy),
       (13, gpu_render), (14, audio_config), (18, disk_config), (19, disk_status), (20, disk_blkio io), (21, net_config)] reg"

definition ioe_call :: "'d ports \<Rightarrow> nat \<Rightarrow> u32 \<Rightarrow> 'd ioe \<Rightarrow> 'd ioe res" where
  "ioe_call io reg buf st =
     (if reg \<ge> 128 then Inl Out_of_bounds
      else case lut io reg of
             Some h \<Rightarrow> h buf st
           | None \<Rightarrow> if lut_full st then ioe_fail buf st else Inl Null_deref)"

definition ioe_read :: "'d ports \<Rightarrow> nat \<Rightarrow> u32 \<Rightarrow> 'd ioe \<Rightarrow> 'd ioe res" where
  "ioe_read = ioe_call"

definition ioe_write :: "'d ports \<Rightarrow> nat \<Rightarrow> u32 \<Rightarrow> 'd ioe \<Rightarrow> 'd ioe res" where
  "ioe_write = ioe_call"

section \<open>Interrupt controllers\<close>

text \<open>The registers of the local APIC are words behind the pointer \<open>__am_lapic\<close>, named by their index.\<close>

definition T_IRQ0 :: nat where "T_IRQ0 = 32"
definition IRQ_TIMER :: nat where "IRQ_TIMER = 0"
definition IRQ_KBD :: nat where "IRQ_KBD = 1"
definition IRQ_COM1 :: nat where "IRQ_COM1 = 4"
definition IRQ_ERROR :: nat where "IRQ_ERROR = 19"
definition IRQ_SPURIOUS :: nat where "IRQ_SPURIOUS = 31"

definition lapic_ID :: nat where "lapic_ID = 0x0020 div 4"
definition lapic_VER :: nat where "lapic_VER = 0x0030 div 4"
definition lapic_TPR :: nat where "lapic_TPR = 0x0080 div 4"
definition lapic_EOI :: nat where "lapic_EOI = 0x00B0 div 4"
definition lapic_SVR :: nat where "lapic_SVR = 0x00F0 div 4"
definition lapic_ESR :: nat where "lapic_ESR = 0x0280 div 4"
definition lapic_ICRLO :: nat where "lapic_ICRLO = 0x0300 div 4"
definition lapic_ICRHI :: nat where "lapic_ICRHI = 0x0310 div 4"
definition lapic_TIMER :: nat where "lapic_TIMER = 0x0320 div 4"
definition lapic_PCINT :: nat where "lapic_PCINT = 0x0340 div 4"
definition lapic_LINT0 :: nat where "lapic_LINT0 = 0x0350 div 4"
definition lapic_LINT1 :: nat where "lapic_LINT1 = 0x0360 div 4"
definition lapic_ERROR :: nat where "lapic_ERROR = 0x0370 div 4"
definition lapic_TICR :: nat where "lapic_TICR = 0x0380 div 4"
definition lapic_TDCR :: nat where "lapic_TDCR = 0x03E0 div 4"

definition lapic_read :: "'d ports \<Rightarrow> nat \<Rightarrow> 'd ioe \<Rightarrow> u32 \<times> 'd ioe" where
  "lapic_read io index st = dev_in (mmio_in io (lapic_at st + of_nat (4 * index))) st"

definition lapicw :: "'d ports \<Rightarrow> nat \<Rightarrow> u32 \<Rightarrow> 'd ioe \<Rightarrow> 'd ioe" where
  "lapicw io index v st =
     (let st = dev_out (mmio_out io (lapic_at st + of_nat (4 * index)) v) st;
          (_, st) = lapic_read io lapic_ID st
      in st)"

partial_function (option) lapic_wait :: "'d ports \<Rightarrow> 'd ioe \<Rightarrow> 'd ioe option" where
  "lapic_wait io st =
     (let (v, st) = lapic_read io lapic_ICRLO st in if v AND 0x1000 \<noteq> 0 then lapic_wait io st else Some st)"

definition am_percpu_initlapic :: "'d ports \<Rightarrow> 'd ioe \<Rightarrow> 'd ioe res" where
  "am_percpu_initlapic io st =
     (let st = lapicw io lapic_SVR (0x100 OR of_nat (T_IRQ0 + IRQ_SPURIOUS)) st;
          st = lapicw io lapic_TDCR 0xB st;
          st = lapicw io lapic_TIMER (0x20000 OR of_nat (T_IRQ0 + IRQ_TIMER)) st;
          st = lapicw io lapic_TICR 10000000 st;
          st = lapicw io lapic_LINT0 0x10000 st;
          st = lapicw io lapic_LINT1 0x10000 st;
          (v, st) = lapic_read io lapic_VER st;
          st = (if drop_bit 16 v AND 0xFF \<ge> 4 then lapicw io lapic_PCINT 0x10000 st else st);
          st = lapicw io lapic_ERROR (of_nat (T_IRQ0 + IRQ_ERROR)) st;
          st = lapicw io lapic_ESR 0 st;
          st = lapicw io lapic_ESR 0 st;
          st = lapicw io lapic_EOI 0 st;
          st = lapicw io lapic_ICRHI 0 st;
          st = lapicw io lapic_ICRLO (0x80000 OR 0x500 OR 0x8000) st
      in bindE (optE Diverge (lapic_wait io st)) (\<lambda>st. Inr (lapicw io lapic_TPR 0 st)))"

definition am_lapic_eoi :: "'d ports \<Rightarrow> 'd ioe \<Rightarrow> 'd ioe" where
  "am_lapic_eoi io st = (if lapic_at st \<noteq> 0 then lapicw io lapic_EOI 0 st else st)"

definition am_lapic_bootap :: "'d ports \<Rightarrow> u32 \<Rightarrow> u32 \<Rightarrow> 'd ioe \<Rightarrow> 'd ioe" where
  "am_lapic_bootap io apicid addr st =
     (let st = dev_out (outb io 0x70 0xF) st;
          st = dev_out (outb io 0x71 0x0A) st;
          wrv = 0x40 * 2 ^ 4 OR 0x67;
          st = st\<lparr>i_mem := mem_put (i_mem st) wrv (le_bytes 2 (0 :: u16))\<rparr>;
          st = st\<lparr>i_mem := mem_put (i_mem st) (wrv + 2) (le_bytes 2 (ucast (drop_bit 4 addr) :: u16))\<rparr>;
          st = lapicw io lapic_ICRHI (push_bit 24 apicid) st;
          st = lapicw io lapic_ICRLO (0x500 OR 0x8000 OR 0x4000) st;
          st = lapicw io lapic_ICRLO (0x500 OR 0x8000) st
      in foldl (\<lambda>st _. lapicw io lapic_ICRLO (0x600 OR drop_bit 12 addr) (lapicw io lapic_ICRHI (push_bit 24 apicid) st))
           st [0..<2::nat])"

definition IOAPIC_ADDR :: u32 where "IOAPIC_ADDR = 0xFEC00000"
definition REG_TABLE :: nat where "REG_TABLE = 0x10"

definition ioapicread :: "'d ports \<Rightarrow> nat \<Rightarrow> 'd ioe \<Rightarrow> u32 \<times> 'd ioe" where
  "ioapicread io reg st = dev_in (mmio_in io (ioapic_at st + 16)) (dev_out (mmio_out io (ioapic_at st) (of_nat reg)) st)"

definition ioapicwrite :: "'d ports \<Rightarrow> nat \<Rightarrow> u32 \<Rightarrow> 'd ioe \<Rightarrow> 'd ioe" where
  "ioapicwrite io reg data st =
     dev_out (mmio_out io (ioapic_at st + 16) data) (dev_out (mmio_out io (ioapic_at st) (of_nat reg)) st)"

definition am_ioapic_init :: "'d ports \<Rightarrow> 'd ioe \<Rightarrow> 'd ioe" where
  "am_ioapic_init io st =
     (let st = st\<lparr>ioapic_at := IOAPIC_ADDR\<rparr>;
          (v, st) = ioapicread io 0x01 st;
          maxintr = unat (drop_bit 16 v AND 0xFF)
      in foldl (\<lambda>st i. ioapicwrite io (REG_TABLE + 2 * i + 1) 0
                 (ioapicwrite io (REG_TABLE + 2 * i) (0x10000 OR of_nat (T_IRQ0 + i)) st)) st [0..<Suc maxintr])"

definition am_ioapic_enable :: "'d ports \<Rightarrow> nat \<Rightarrow> u32 \<Rightarrow> 'd ioe \<Rightarrow> 'd ioe" where
  "am_ioapic_enable io irq cpunum st =
     ioapicwrite io (REG_TABLE + 2 * irq + 1) (push_bit 24 cpunum) (ioapicwrite io (REG_TABLE + 2 * irq) (of_nat (T_IRQ0 + irq)) st)"

definition cpu_current :: "'d ports \<Rightarrow> 'd ioe \<Rightarrow> u32 \<times> 'd ioe" where
  "cpu_current io st = (let (v, st) = lapic_read io 8 st in (drop_bit 24 v, st))"

definition ioe_init :: "'d ports \<Rightarrow> 'd ioe \<Rightarrow> 'd ioe res" where
  "ioe_init io st =
     (let (c, st) = cpu_current io st in
      if c \<noteq> 0 then Inl (Panic ''init IOE in non-bootstrap CPU'')
      else bindE (timer_init io (uart_init io (st\<lparr>lut_full := True\<rparr>))) (\<lambda>st. Inr (gpu_init st)))"

end
