(* ===== verification/Ioe_Correct.thy ===== *)
theory Ioe_Correct
  imports Ioe
begin

text \<open>
  What the devices of \<open>Ioe\<close> do: the disk keeps what was written to it, a drawing fills exactly its
  clipped rectangle of the frame buffer, and the clock decodes binary-coded decimals.
\<close>

section \<open>Disk\<close>

definition mem_words :: "mem32 \<Rightarrow> u32 \<Rightarrow> nat \<Rightarrow> u32 list" where
  "mem_words m ptr n = map (\<lambda>i. load32 m (ptr + of_nat (4 * i))) [0..<n]"

lemma length_mem_words [simp]: "length (mem_words m ptr n) = n"
  by (simp add: mem_words_def)

lemma mem_get_add: "mem_get m a (i + j) = mem_get m a i @ mem_get m (a + of_nat i) j"
  unfolding mem_get_def by (induction j) (simp_all add: add.assoc [symmetric])

lemma words_bytes_mem_words: "words_bytes (mem_words m ptr n) = mem_get m ptr (4 * n)"
proof (induction n)
  case (Suc n)
  have "words_bytes (mem_words m ptr (Suc n)) = words_bytes (mem_words m ptr n) @ le_bytes 4 (load32 m (ptr + of_nat (4 * n)))"
    by (simp add: mem_words_def words_bytes_def)
  also have "le_bytes 4 (load32 m (ptr + of_nat (4 * n))) = mem_get m (ptr + of_nat (4 * n)) 4"
    unfolding load32_def by (rule le_bytes_le_word) simp_all
  finally show ?case using Suc mem_get_add [of m ptr "4 * n" 4] by (simp add: add.commute)
qed (simp add: mem_words_def words_bytes_def mem_get_def)

text \<open>The sectors after a write of \<open>n\<close> blocks.\<close>

definition sectors_after :: "mem32 \<Rightarrow> u32 \<Rightarrow> nat \<Rightarrow> nat \<Rightarrow> (nat \<Rightarrow> u32 list) \<Rightarrow> nat \<Rightarrow> u32 list" where
  "sectors_after m ptr b n secs k = (if b \<le> k \<and> k < b + n then mem_words m (ptr + of_nat (512 * (k - b))) 128 else secs k)"

lemma unat_Suc_blk: "unat (blk :: u32) + Suc n \<le> 2 ^ 28 \<Longrightarrow> unat (blk + 1) = Suc (unat blk)"
  by (simp add: unat_word_ariths(1))

context ata_drive
begin

lemma blkio_write:
  assumes "unat blk + n \<le> 2 ^ 28" "m bio \<noteq> 0"
  shows "\<exists>d'. blkio_loop io bio n blk ptr (m, d) = Inr (m, d') \<and>
    a_sectors (view d') = sectors_after m ptr (unat blk) n (a_sectors (view d))"
  using assms
proof (induction n arbitrary: blk ptr d)
  case 0
  have "sectors_after m ptr (unat blk) 0 (a_sectors (view d)) = a_sectors (view d)" by (rule ext) (auto simp: sectors_after_def)
  then show ?case by simp
next
  case (Suc n)
  obtain d1 where d1: "wait_disk io d = Inr d1" "view d1 = view d" "polls d1 = 0" using wait_disk_ok by blast
  have blk: "unat blk < 2 ^ 28" using Suc.prems by simp
  let ?d2 = "disk_command io 0x30 blk d1"
  have c: "a_sectors (view ?d2) = a_sectors (view d)" "a_phase (view ?d2) = Writing (unat blk) []"
    using disk_command_ok [OF d1(3) blk, of "0x30"] d1(2) by simp_all
  obtain d3 where d3: "wait_disk io ?d2 = Inr d3" "view d3 = view ?d2" "polls d3 = 0" using wait_disk_ok by blast
  let ?d4 = "write_words io (Suc 127) ptr m d3"
  have w: "a_sectors (view ?d4) = (a_sectors (view d))(unat blk := mem_words m ptr 128)"
    using write_words_ok [OF d3(3), of "unat blk" "[]" 127 ptr m] c d3(2) by (simp add: mem_words_def fun_upd_def)
  obtain d' where r: "blkio_loop io bio n (blk + 1) (ptr + of_nat BLKSZ) (m, ?d4) = Inr (m, d')"
    "a_sectors (view d') = sectors_after m (ptr + of_nat BLKSZ) (Suc (unat blk)) n (a_sectors (view ?d4))"
    using Suc.IH [of "blk + 1" "ptr + of_nat BLKSZ" ?d4] Suc.prems unat_Suc_blk [OF Suc.prems(1)] by auto
  have "sectors_after m (ptr + of_nat BLKSZ) (Suc (unat blk)) n ((a_sectors (view d))(unat blk := mem_words m ptr 128)) k =
      sectors_after m ptr (unat blk) (Suc n) (a_sectors (view d)) k" for k
  proof (cases "k \<le> unat blk")
    case False
    then obtain j where "k = Suc (unat blk + j)" by (metis add_Suc less_imp_Suc_add not_le)
    then show ?thesis by (simp add: sectors_after_def BLKSZ_def algebra_simps)
  qed (auto simp: sectors_after_def)
  then have "a_sectors (view d') = sectors_after m ptr (unat blk) (Suc n) (a_sectors (view d))"
    unfolding r(2) w by (rule ext)
  then show ?case using d1(1) d3(1) r(1) assms(2) by (simp add: BLKSZ_def Let_def)
qed

lemma blkio_read:
  assumes "unat blk + n \<le> 2 ^ 28" "disk_ok (a_sectors (view d))" "m bio = 0" "\<forall>k<512 * n. bio \<noteq> ptr + of_nat k"
  shows "\<exists>d'. blkio_loop io bio n blk ptr (m, d) = Inr (mem_put m ptr (sectors_bytes (a_sectors (view d)) (unat blk) n), d') \<and>
    a_sectors (view d') = a_sectors (view d)"
  using assms
proof (induction n arbitrary: blk ptr m d)
  case 0
  then show ?case by (simp add: sectors_bytes_def)
next
  case (Suc n)
  obtain d1 where d1: "wait_disk io d = Inr d1" "view d1 = view d" "polls d1 = 0" using wait_disk_ok by blast
  have blk: "unat blk < 2 ^ 28" using Suc.prems by simp
  let ?d2 = "disk_command io 0x20 blk d1" and ?ws = "a_sectors (view d) (unat blk)"
  have c: "a_sectors (view ?d2) = a_sectors (view d)" "a_phase (view ?d2) = Reading ?ws"
    using disk_command_ok [OF d1(3) blk, of "0x20"] d1(2) by simp_all
  obtain d3 where d3: "wait_disk io ?d2 = Inr d3" "view d3 = view ?d2" "polls d3 = 0" using wait_disk_ok by blast
  have len: "length ?ws = Suc 127" using Suc.prems(2) by (simp add: disk_ok_def)
  from read_words_ok [OF d3(3) _ len, of ptr m] c(2) d3(2) obtain d4 where
    d4: "read_words io 128 ptr (m, d3) = (mem_put m ptr (words_bytes ?ws), d4)" "a_sectors (view d4) = a_sectors (view d)"
    using c(1) by auto
  have "\<not> unat (bio - ptr) < 512" using Suc.prems(4) [rule_format, of "unat (bio - ptr)"] by auto
  then have w: "mem_put m ptr (words_bytes ?ws) bio = 0"
    using mem_put_eq [of "words_bytes ?ws" m ptr bio] len Suc.prems(3) by auto
  have "bio \<noteq> ptr + of_nat BLKSZ + of_nat k" if "k < 512 * n" for k
    using Suc.prems(4) [rule_format, of "512 + k"] that by (simp add: BLKSZ_def add.assoc)
  with Suc.IH [of "blk + 1" d4 "mem_put m ptr (words_bytes ?ws)" "ptr + of_nat BLKSZ"] Suc.prems(1,2) w unat_Suc_blk [OF Suc.prems(1)] d4(2)
  show ?case using d1(1) d3(1) d4 len Suc.prems(3) by (auto simp: BLKSZ_def Let_def sectors_bytes_Suc mem_put_append)
qed

end

lemma sectors_after_bytes:
  "sectors_bytes (sectors_after m ptr b n secs) b n = mem_get m ptr (512 * n)"
proof -
  have "sectors_bytes (sectors_after m ptr b n secs) b k = mem_get m ptr (512 * k)" if "k \<le> n" for k
    using that
  proof (induction k)
    case (Suc k)
    then have "sectors_bytes (sectors_after m ptr b n secs) b (Suc k) =
        mem_get m ptr (512 * k) @ words_bytes (mem_words m (ptr + of_nat (512 * k)) 128)"
      by (simp add: sectors_bytes_def sectors_after_def)
    then show ?case using mem_get_add [of m ptr "512 * k" 512] by (simp add: words_bytes_mem_words add.commute)
  qed (simp add: sectors_bytes_def mem_get_def)
  then show ?thesis by simp
qed

text \<open>The requests \<open>bio\<close> in memory.\<close>

definition blkio_request :: "mem32 \<Rightarrow> u32 \<Rightarrow> bool \<Rightarrow> u32 \<Rightarrow> u32 \<Rightarrow> nat \<Rightarrow> bool" where
  "blkio_request m bio wr buf blkno n \<longleftrightarrow> (m bio \<noteq> 0 \<longleftrightarrow> wr) \<and> load32 m (bio + 4) = buf \<and> load32 m (bio + 8) = blkno \<and>
     unat (load32 m (bio + 12)) = n"

text \<open>
  C23. What is written to the disk is read back: after a request that writes \<open>n\<close> blocks, a request that reads
  the same blocks puts the bytes of the first buffer into the second one, whatever the drive held and
  however long it is busy, and changes no other memory; the write itself changes no memory. The buffer
  that is read into must not cover the \<open>write\<close> field of its request, which the loop reads again for every block.
\<close>

theorem disk_write_read:
  assumes "ata_drive io view polls" "disk_ok (a_sectors (view (i_dev st)))"
    "blkio_request (i_mem st) wbio True wbuf blkno n" "blkio_request (i_mem st) rbio False rbuf blkno n"
    "unat blkno + n \<le> 2 ^ 28" "unat rbuf + 512 * n \<le> 2 ^ 32" "unat rbio < unat rbuf \<or> unat rbuf + 512 * n \<le> unat rbio"
  shows "\<exists>st1 st2. disk_blkio io wbio st = Inr st1 \<and> i_mem st1 = i_mem st \<and> disk_blkio io rbio st1 = Inr st2 \<and>
    mem_get (i_mem st2) rbuf (512 * n) = mem_get (i_mem st) wbuf (512 * n) \<and>
    (\<forall>x. unat x < unat rbuf \<or> unat rbuf + 512 * n \<le> unat x \<longrightarrow> i_mem st2 x = i_mem st x)"
proof -
  let ?m = "i_mem st" and ?secs = "sectors_after (i_mem st) wbuf (unat blkno) n (a_sectors (view (i_dev st)))"
  have "?m wbio \<noteq> 0" "?m rbio = 0" using assms(3,4) by (simp_all add: blkio_request_def)
  obtain d1 where d1: "blkio_loop io wbio n blkno wbuf (?m, i_dev st) = Inr (?m, d1)" "a_sectors (view d1) = ?secs"
    using ata_drive.blkio_write [where m = ?m, OF assms(1,5) \<open>?m wbio \<noteq> 0\<close>] by blast
  have ok: "disk_ok (a_sectors (view d1))" using assms(2) d1(2) by (simp add: disk_ok_def sectors_after_def)
  have "rbio \<noteq> rbuf + of_nat k" if "k < 512 * n" for k
    using assms(6,7) that by (auto simp: unat_word_ariths(1) unat_of_nat)
  with ata_drive.blkio_read [where m = ?m and ptr = rbuf, OF assms(1,5) ok \<open>?m rbio = 0\<close>] obtain d2
    where d2: "blkio_loop io rbio n blkno rbuf (?m, d1) = Inr (mem_put ?m rbuf (mem_get ?m wbuf (512 * n)), d2)"
    using d1(2) by (auto simp: sectors_after_bytes)
  let ?bs = "mem_get ?m wbuf (512 * n)"
  have "disk_blkio io wbio st = Inr (st\<lparr>i_mem := ?m, i_dev := d1\<rparr>)"
    using assms(3) d1(1) by (simp add: disk_blkio_def blkio_request_def Let_def)
  moreover have "disk_blkio io rbio (st\<lparr>i_mem := ?m, i_dev := d1\<rparr>) = Inr (st\<lparr>i_mem := mem_put ?m rbuf ?bs, i_dev := d2\<rparr>)"
    using assms(4) d2 by (simp add: disk_blkio_def blkio_request_def Let_def)
  moreover have "mem_get (mem_put ?m rbuf ?bs) rbuf (512 * n) = ?bs"
    using mem_get_put [of ?bs ?m rbuf] assms(6) by simp
  moreover have "mem_put ?m rbuf ?bs x = ?m x" if "unat x < unat rbuf \<or> unat rbuf + 512 * n \<le> unat x" for x
    using that mem_put_range [of rbuf ?bs ?m x] assms(6) by auto
  ultimately show ?thesis by auto
qed

definition sample_ioe :: "mem32 \<Rightarrow> 'd \<Rightarrow> 'd ioe" where
  "sample_ioe m d = \<lparr>i_mem = m, i_dev = d, boot_date = \<lparr>rtc_year = 0, rtc_month = 0, rtc_day = 0, rtc_hour = 0, rtc_minute = 0, rtc_second = 0\<rparr>,
     freq_mhz = 2000, uptsc = 0, display_w = 0, display_h = 0, fb_at = 0, vmem_at = 0, vbuf_at = 0, vbuf_head = 0, lapic_at = 0,
     ioapic_at = 0, lut_full = True\<rparr>"

definition sample_requests :: mem32 where
  "sample_requests = mem_put (mem_put (mem_put (\<lambda>_. 0) 0x100 (words_bytes [1, 0x1000, 7, 1])) 0x200 (words_bytes [0, 0x2000, 7, 1])) 0x1000 [42]"

lemma sample_requests:
  "blkio_request sample_requests 0x100 True 0x1000 7 1" "blkio_request sample_requests 0x200 False 0x2000 7 1"
proof -
  have "load32 sample_requests 0x104 = 0x1000" "load32 sample_requests 0x108 = 7" "load32 sample_requests 0x10c = 1"
    using load32_put [of "0x100" "[1, 0x1000, 7, 1]" 1] load32_put [of "0x100" "[1, 0x1000, 7, 1]" 2] load32_put [of "0x100" "[1, 0x1000, 7, 1]" 3]
    by (simp_all add: sample_requests_def load32_put_other del: mem_put.simps)
  moreover have "sample_requests 0x100 = 1"
    by (simp add: sample_requests_def mem_put_range words_bytes_def le_bytes_def nth_append)
  ultimately show "blkio_request sample_requests 0x100 True 0x1000 7 1" by (simp add: blkio_request_def)
  have "load32 sample_requests 0x204 = 0x2000" "load32 sample_requests 0x208 = 7" "load32 sample_requests 0x20c = 1"
    using load32_put [of "0x200" "[0, 0x2000, 7, 1]" 1] load32_put [of "0x200" "[0, 0x2000, 7, 1]" 2] load32_put [of "0x200" "[0, 0x2000, 7, 1]" 3]
    by (simp_all add: sample_requests_def load32_put_other del: mem_put.simps)
  moreover have "sample_requests 0x200 = 0"
    by (simp add: sample_requests_def mem_put_range words_bytes_def le_bytes_def nth_append)
  ultimately show "blkio_request sample_requests 0x200 False 0x2000 7 1" by (simp add: blkio_request_def)
qed

theorem disk_write_read_witness:
  "\<exists>st1 st2. disk_blkio drive_ports 0x100 (sample_ioe sample_requests blank_drive) = Inr st1 \<and>
     disk_blkio drive_ports 0x200 st1 = Inr st2 \<and> i_mem st2 0x2000 = 42"
proof -
  let ?st = "sample_ioe sample_requests blank_drive"
  have "disk_ok (a_sectors (drv_ata (i_dev ?st)))" by (simp add: sample_ioe_def blank_drive_def disk_ok_def)
  then obtain st1 st2 where r: "disk_blkio drive_ports 0x100 ?st = Inr st1" "disk_blkio drive_ports 0x200 st1 = Inr st2"
    and g: "mem_get (i_mem st2) 0x2000 512 = mem_get sample_requests 0x1000 512"
    using disk_write_read [OF drv.ata_drive_axioms, of ?st "0x100" "0x1000" 7 1 "0x200" "0x2000"] sample_requests
    by (auto simp: sample_ioe_def)
  have "i_mem st2 0x2000 = mem_get (i_mem st2) 0x2000 512 ! 0" by (simp add: mem_get_def)
  also have "\<dots> = sample_requests 0x1000" unfolding g by (simp add: mem_get_def)
  also have "\<dots> = 42" by (simp add: sample_requests_def)
  finally show ?thesis using r by blast
qed

section \<open>Frame buffer\<close>

lemma pixel_bytes_length [simp]: "length (pixel_bytes p) = 3"
  by (simp add: pixel_bytes_def)

text \<open>One row: the source is read from \<open>s\<close>, with which the memory agrees outside the row.\<close>

lemma fbdraw_row_eq:
  assumes "unat px + 3 * n \<le> 2 ^ 32"
    "\<forall>k<4 * n. m (pixels + of_nat k) = s (pixels + of_nat k) \<and> \<not> (unat px \<le> unat (pixels + of_nat k) \<and> unat (pixels + of_nat k) < unat px + 3 * n)"
  shows "fbdraw_row n px pixels m a =
    (if unat px \<le> unat a \<and> unat a < unat px + 3 * n
     then pixel_bytes (load32 s (pixels + of_nat (4 * ((unat a - unat px) div 3)))) ! ((unat a - unat px) mod 3) else m a)"
  using assms
proof (induction n arbitrary: px pixels m)
  case (Suc n)
  let ?p = "load32 s pixels" and ?m = "mem_put m px (pixel_bytes (load32 m pixels))"
  have "load32 m pixels = ?p" using Suc.prems(2) by (intro load32_frame) simp
  then have m: "?m a = (if unat px \<le> unat a \<and> unat a < unat px + 3 then pixel_bytes ?p ! (unat a - unat px) else m a)" for a
    using mem_put_range [of px "pixel_bytes ?p" m a] Suc.prems(1) by simp
  show ?case
  proof (cases "n = 0")
    case True
    then show ?thesis using m [of a] by auto
  next
    case False
    have px: "unat (px + 3) = unat px + 3" using Suc.prems(1) False by (simp add: unat_word_ariths(1))
    have "\<forall>k<4 * n. ?m (pixels + 4 + of_nat k) = s (pixels + 4 + of_nat k) \<and>
        \<not> (unat (px + 3) \<le> unat (pixels + 4 + of_nat k) \<and> unat (pixels + 4 + of_nat k) < unat (px + 3) + 3 * n)"
    proof (intro allI impI)
      fix k assume "k < 4 * n"
      then have "m (pixels + of_nat (4 + k)) = s (pixels + of_nat (4 + k)) \<and>
          \<not> (unat px \<le> unat (pixels + of_nat (4 + k)) \<and> unat (pixels + of_nat (4 + k)) < unat px + 3 * Suc n)"
        by (intro Suc.prems(2) [rule_format]) simp
      then show "?m (pixels + 4 + of_nat k) = s (pixels + 4 + of_nat k) \<and>
        \<not> (unat (px + 3) \<le> unat (pixels + 4 + of_nat k) \<and> unat (pixels + 4 + of_nat k) < unat (px + 3) + 3 * n)"
        using m [of "pixels + 4 + of_nat k"] px by (auto simp: add.assoc)
    qed
    from Suc.IH [OF _ this] Suc.prems(1) px have IH: "fbdraw_row n (px + 3) (pixels + 4) ?m a =
        (if unat px + 3 \<le> unat a \<and> unat a < unat px + 3 + 3 * n
         then pixel_bytes (load32 s (pixels + 4 + of_nat (4 * ((unat a - (unat px + 3)) div 3)))) ! ((unat a - (unat px + 3)) mod 3) else ?m a)"
      by simp
    show ?thesis
    proof (cases "unat px + 3 \<le> unat a")
      case True
      then obtain r where r: "unat a = unat px + 3 + r" using le_Suc_ex by blast
      then have "(unat a - unat px) div 3 = Suc (r div 3)" "(unat a - unat px) mod 3 = r mod 3" by simp_all
      then show ?thesis using IH r m [of a] by (simp add: algebra_simps)
    next
      case False
      then show ?thesis using IH m [of a] by auto
    qed
  qed
qed auto

text \<open>The rectangle, row by row; \<open>F\<close>, \<open>W\<close> and \<open>H\<close> are the address, the width and the height of the frame buffer.\<close>

definition in_rect :: "nat \<Rightarrow> nat \<Rightarrow> nat \<Rightarrow> nat \<Rightarrow> nat \<Rightarrow> nat \<Rightarrow> nat \<Rightarrow> nat \<Rightarrow> bool" where
  "in_rect F W H x len y0 y1 a \<longleftrightarrow>
     F \<le> a \<and> a < F + 3 * (W * H) \<and> (let p = (a - F) div 3 in x \<le> p mod W \<and> p mod W < x + len \<and> y0 \<le> p div W \<and> p div W < y1)"

definition rect_byte :: "mem32 \<Rightarrow> u32 \<Rightarrow> nat \<Rightarrow> nat \<Rightarrow> nat \<Rightarrow> nat \<Rightarrow> nat \<Rightarrow> nat \<Rightarrow> u8" where
  "rect_byte s P w F W x y a =
     (let p = (a - F) div 3 in pixel_bytes (load32 s (P + of_nat (4 * ((p div W - y) * w + (p mod W - x))))) ! ((a - F) mod 3))"

lemma row_rect:
  assumes "0 < W" "x + len \<le> W" "Y < H"
  shows "F + 3 * (x + Y * W) \<le> a \<and> a < F + 3 * (x + Y * W) + 3 * len \<longleftrightarrow> in_rect F W H x len Y (Suc Y) a"
proof
  assume a: "F + 3 * (x + Y * W) \<le> a \<and> a < F + 3 * (x + Y * W) + 3 * len"
  then obtain r where r: "a = F + 3 * (x + Y * W) + r" "r < 3 * len" by (metis add_less_cancel_left le_Suc_ex)
  have "(a - F) div 3 = (x + r div 3) + W * Y" using r(1) by (simp add: algebra_simps)
  moreover have c: "x + r div 3 < W" using r(2) assms(2) by linarith
  ultimately have "(a - F) div 3 mod W = x + r div 3" "(a - F) div 3 div W = Y" by simp_all
  moreover have "a < F + 3 * (W * H)"
  proof -
    have "Y * W + W \<le> W * H" using assms(3) by (metis Suc_leI mult.commute mult_Suc add.commute mult_le_mono2)
    then show ?thesis using r assms(2) by (simp add: algebra_simps)
  qed
  ultimately show "in_rect F W H x len Y (Suc Y) a" using r by (auto simp: in_rect_def Let_def)
next
  assume i: "in_rect F W H x len Y (Suc Y) a"
  let ?p = "(a - F) div 3"
  have "?p div W = Y" using i by (auto simp: in_rect_def Let_def)
  then have "?p = W * Y + ?p mod W" using mult_div_mod_eq [of W ?p] by simp
  moreover have "x \<le> ?p mod W" "?p mod W < x + len" "F \<le> a" using i by (auto simp: in_rect_def Let_def)
  moreover have "a - F = 3 * ?p + (a - F) mod 3" "(a - F) mod 3 < 3" by simp_all
  moreover have "3 * (c + x) \<le> b \<and> b < 3 * (c + x + len)"
    if "p = c + q" "x \<le> q" "q < x + len" "b = 3 * p + r" "r < 3" for b p q r c :: nat using that by auto
  ultimately have "3 * (W * Y + x) \<le> a - F \<and> a - F < 3 * (W * Y + x + len)" by blast
  then show "F + 3 * (x + Y * W) \<le> a \<and> a < F + 3 * (x + Y * W) + 3 * len"
    using \<open>F \<le> a\<close> by (simp add: algebra_simps) linarith
qed

lemma row_byte:
  assumes "0 < W" "in_rect F W H x len Y (Suc Y) a" "y \<le> Y"
  shows "pixel_bytes (load32 s (P + of_nat (4 * ((Y - y) * w)) + of_nat (4 * ((a - (F + 3 * (x + Y * W))) div 3)))) ! ((a - (F + 3 * (x + Y * W))) mod 3) =
    rect_byte s P w F W x y a"
proof -
  let ?p = "(a - F) div 3"
  have d: "?p div W = Y" "x \<le> ?p mod W" "F \<le> a" using assms(2) by (auto simp: in_rect_def Let_def)
  have "?p = W * Y + ?p mod W" using d(1) mult_div_mod_eq [of W ?p] by simp
  then have "a - F = 3 * (W * Y + ?p mod W) + (a - F) mod 3" using mult_div_mod_eq [of 3 "a - F"] by simp
  then have "a - (F + 3 * (x + Y * W)) = 3 * (?p mod W - x) + (a - F) mod 3" using d(2) by (simp add: algebra_simps) linarith
  then have "(a - (F + 3 * (x + Y * W))) div 3 = ?p mod W - x" "(a - (F + 3 * (x + Y * W))) mod 3 = (a - F) mod 3" by simp_all
  then show ?thesis using d(1) by (simp add: rect_byte_def Let_def algebra_simps)
qed

lemma in_rect_below: "in_rect F W H x len y0 y1 a \<Longrightarrow> 0 < W \<Longrightarrow> y0 < H"
proof -
  assume i: "in_rect F W H x len y0 y1 a" and W: "0 < W"
  then have "(a - F) div 3 < W * H" by (auto simp: in_rect_def)
  then have "(a - F) div 3 div W < H" using W by (simp add: div_less_iff_less_mult mult.commute)
  then show "y0 < H" using i by (auto simp: in_rect_def Let_def)
qed

lemma in_rect_split:
  "y0 < y1 \<Longrightarrow> in_rect F W H x len y0 y1 a \<longleftrightarrow> in_rect F W H x len y0 (Suc y0) a \<or> in_rect F W H x len (Suc y0) y1 a"
  by (auto simp: in_rect_def Let_def)

text \<open>The rows as a function on memory, which they are while the coordinates stay in the range of an \<open>int\<close>.\<close>

fun rows_mem :: "nat \<Rightarrow> int \<Rightarrow> int \<Rightarrow> int \<Rightarrow> int \<Rightarrow> int \<Rightarrow> int \<Rightarrow> int \<Rightarrow> u32 \<Rightarrow> u32 \<Rightarrow> mem32 \<Rightarrow> mem32" where
  "rows_mem 0 x y w W H len j fb pixels m = m"
| "rows_mem (Suc n) x y w W H len j fb pixels m =
     rows_mem n x y w W H len (j + 1) fb (pixels + of_int (4 * w))
       (if y + j < H then fbdraw_row (nat len) (px_at fb (x + (j + y) * W)) pixels m else m)"

lemma fbdraw_rows_mem:
  assumes "0 \<le> x" "0 \<le> y" "0 \<le> j" "0 < W" "x + W * H < 2 ^ 31" "y + j + int n \<le> 2 ^ 31"
  shows "fbdraw_rows n x y w W H len j fb p m = Inr (rows_mem n x y w W H len j fb p m)"
  using assms
proof (induction n arbitrary: j p m)
  case (Suc n)
  have "c_int ((y + j) * W) = Inr ((y + j) * W) \<and> c_int (x + (y + j) * W) = Inr (x + (y + j) * W)" if "y + j < H"
  proof -
    have "(y + j) * W < H * W" using that Suc.prems(4) by simp
    then have "(y + j) * W < W * H" by (simp only: mult.commute [of H W])
    moreover have "0 \<le> (y + j) * W" using Suc.prems by simp
    ultimately have "- (2 ^ 31) \<le> (y + j) * W \<and> (y + j) * W < 2 ^ 31 \<and> - (2 ^ 31) \<le> x + (y + j) * W \<and> x + (y + j) * W < 2 ^ 31"
      using Suc.prems(1,5) by linarith
    then show ?thesis by (simp only: c_int_def simp_thms if_True)
  qed
  moreover have "c_int (y + j) = Inr (y + j)" using Suc.prems by (auto simp: c_int_def)
  ultimately show ?case using Suc.IH [of "j + 1"] Suc.prems by (simp add: add.commute [of j y])
qed simp

lemma rows_mem_eq:
  assumes W: "0 < W" "x + len \<le> W" "len \<le> w" and F: "unat F + 3 * (W * H) \<le> 2 ^ 32"
    and "\<forall>k<4 * (w * h). m (P + of_nat k) = s (P + of_nat k) \<and> \<not> (unat F \<le> unat (P + of_nat k) \<and> unat (P + of_nat k) < unat F + 3 * (W * H))"
    and "j + n = h"
  shows "rows_mem n (int x) (int y) (int w) (int W) (int H) (int len) (int j) F (P + of_nat (4 * (j * w))) m a =
    (if in_rect (unat F) W H x len (y + j) (y + h) (unat a) then rect_byte s P w (unat F) W x y (unat a) else m a)"
  using assms(5-)
proof (induction n arbitrary: j m)
  case 0
  then show ?case by (auto simp: in_rect_def Let_def)
next
  case (Suc n)
  let ?Y = "y + j" and ?px = "F + of_nat (3 * (x + (j + y) * W))" and ?P = "P + of_nat (4 * (j * w))"
  let ?m = "if ?Y < H then fbdraw_row len ?px ?P m else m"
  have m1: "?m a = (if in_rect (unat F) W H x len ?Y (Suc ?Y) (unat a) then rect_byte s P w (unat F) W x y (unat a) else m a)" for a
  proof (cases "?Y < H")
    case True
    have le: "3 * (x + (j + y) * W) + 3 * len \<le> 3 * (W * H)"
    proof -
      have "(j + y) * W + W \<le> W * H" using True by (metis Suc_leI mult.commute mult_Suc add.commute mult_le_mono2)
      then show ?thesis using W(2) by simp
    qed
    have px: "unat ?px = unat F + 3 * (x + (j + y) * W)" if "0 < len"
    proof -
      have "unat F + 3 * (x + (j + y) * W) < 2 ^ 32" using le F that by linarith
      then show ?thesis by (simp add: unat_word_ariths(1) unat_of_nat del: of_nat_mult of_nat_add)
    qed
    show ?thesis
    proof (cases "len = 0")
      case False
      have "\<forall>k<4 * len. m (?P + of_nat k) = s (?P + of_nat k) \<and> \<not> (unat ?px \<le> unat (?P + of_nat k) \<and> unat (?P + of_nat k) < unat ?px + 3 * len)"
      proof (intro allI impI)
        fix k assume k: "k < 4 * len"
        have "j * w + w \<le> w * h" using Suc.prems(2) by (metis add_Suc_right add_leD1 le_add1 mult.commute mult_Suc add.commute mult_le_mono2)
        then have "4 * (j * w) + k < 4 * (w * h)" using k W(3) by linarith
        then have "m (P + of_nat (4 * (j * w) + k)) = s (P + of_nat (4 * (j * w) + k)) \<and>
            \<not> (unat F \<le> unat (P + of_nat (4 * (j * w) + k)) \<and> unat (P + of_nat (4 * (j * w) + k)) < unat F + 3 * (W * H))"
          by (rule Suc.prems(1) [rule_format])
        then show "m (?P + of_nat k) = s (?P + of_nat k) \<and> \<not> (unat ?px \<le> unat (?P + of_nat k) \<and> unat (?P + of_nat k) < unat ?px + 3 * len)"
          using px False le unfolding of_nat_add add.assoc by auto
      qed
      from fbdraw_row_eq [OF _ this, of a] px False le F
      have "fbdraw_row len ?px ?P m a = (if unat F + 3 * (x + (j + y) * W) \<le> unat a \<and> unat a < unat F + 3 * (x + (j + y) * W) + 3 * len
          then pixel_bytes (load32 s (?P + of_nat (4 * ((unat a - (unat F + 3 * (x + (j + y) * W))) div 3)))) ! ((unat a - (unat F + 3 * (x + (j + y) * W))) mod 3) else m a)"
        by simp
      then show ?thesis
        using True row_rect [OF W(1,2) True, of "unat F" "unat a"] row_byte [OF W(1), of "unat F" H x len ?Y "unat a" y s P w]
        by (simp add: add.commute)
    qed (use True in \<open>auto simp: in_rect_def Let_def\<close>)
  next
    case False
    then show ?thesis using in_rect_below [OF _ W(1)] by auto
  qed
  have "\<forall>k<4 * (w * h). ?m (P + of_nat k) = s (P + of_nat k) \<and> \<not> (unat F \<le> unat (P + of_nat k) \<and> unat (P + of_nat k) < unat F + 3 * (W * H))"
    using Suc.prems(1) m1 by (auto simp: in_rect_def)
  from Suc.IH [OF this, of "Suc j"] Suc.prems(2)
  have "rows_mem n (int x) (int y) (int w) (int W) (int H) (int len) (int (Suc j)) F (P + of_nat (4 * (Suc j * w))) ?m a =
    (if in_rect (unat F) W H x len (y + Suc j) (y + h) (unat a) then rect_byte s P w (unat F) W x y (unat a) else ?m a)" by simp
  moreover have "px_at F (int x + (int j + int y) * int W) = ?px"
    by (simp add: px_at_def) 
  moreover have "?P + of_int (4 * int w) = P + of_nat (4 * (Suc j * w))" by (simp add: algebra_simps)
  moreover have "int y + int j < int H \<longleftrightarrow> ?Y < H" "int j + 1 = int (Suc j)" by auto
  ultimately have "rows_mem (Suc n) (int x) (int y) (int w) (int W) (int H) (int len) (int j) F ?P m a =
      (if in_rect (unat F) W H x len (y + Suc j) (y + h) (unat a) then rect_byte s P w (unat F) W x y (unat a) else ?m a)"
    by (simp only: rows_mem.simps nat_int)
  then show ?case
    using m1 [of a] in_rect_split [of ?Y "y + h" "unat F" W H x len "unat a"] Suc.prems(2) by (simp only:) auto
qed

lemma rows_mem_len: "nat len = nat len' \<Longrightarrow> rows_mem n x y w W H len j fb p m = rows_mem n x y w W H len' j fb p m"
  by (induction n arbitrary: j p m) simp_all

lemma rows_mem_none: "len \<le> 0 \<Longrightarrow> rows_mem n x y w W H len j fb p m = m"
  by (induction n arbitrary: j p m) simp_all

text \<open>The pixel in column \<open>X\<close> and row \<open>Y\<close> of the frame buffer.\<close>

definition fb_pixel :: "mem32 \<Rightarrow> u32 \<Rightarrow> nat \<Rightarrow> nat \<Rightarrow> nat \<Rightarrow> u8 list" where
  "fb_pixel m F W X Y = mem_get m (F + of_nat (3 * (Y * W + X))) 3"

lemma fb_pixel_rect:
  assumes W: "X < W" "Y < H" and F: "unat F + 3 * (W * H) \<le> 2 ^ 32"
    and m: "\<And>a. m' a = (if in_rect (unat F) W H x len y (y + h) (unat a) then rect_byte s P w (unat F) W x y (unat a) else m a)"
  shows "fb_pixel m' F W X Y =
    (if x \<le> X \<and> X < x + len \<and> y \<le> Y \<and> Y < y + h then pixel_bytes (load32 s (P + of_nat (4 * ((Y - y) * w + (X - x))))) else fb_pixel m F W X Y)"
proof -
  have le: "Y * W + X < W * H"
  proof -
    have "Y * W + W \<le> W * H" using W(2) by (metis Suc_leI mult.commute mult_Suc add.commute mult_le_mono2)
    then show ?thesis using W(1) by linarith
  qed
  let ?a = "\<lambda>c. F + of_nat (3 * (Y * W + X)) + of_nat c"
  have "m' (?a c) = (if x \<le> X \<and> X < x + len \<and> y \<le> Y \<and> Y < y + h then pixel_bytes (load32 s (P + of_nat (4 * ((Y - y) * w + (X - x))))) ! c else m (?a c))"
    if c: "c < 3" for c
  proof -
    have "?a c = F + of_nat (3 * (Y * W + X) + c)" by simp
    moreover have lt: "3 * (Y * W + X) + c < 3 * (W * H)"
    proof -
      have "3 * p + c < 3 * q" if "p < q" for p q :: nat using that c by linarith
      from this [OF le] show ?thesis .
    qed
    moreover have b: "unat F + (3 * (Y * W + X) + c) < unat F + 3 * (W * H)" by (rule add_strict_left_mono [OF lt])
    moreover have "unat F + (3 * (Y * W + X) + c) < 2 ^ 32" by (rule less_le_trans [OF b F])
    ultimately have a: "unat (?a c) = unat F + (3 * (Y * W + X) + c)"
      by (simp only: unat_word_ariths(1) unat_of_nat) (simp add: mod_add_right_eq)
    have "\<exists>q. q = ?a c" by simp
    then obtain q where q: "?a c = q" by metis
    have "unat q - unat F = c + (W * Y + X) * 3" unfolding q [symmetric] a by (simp add: algebra_simps)
    then have d: "(unat q - unat F) div 3 = W * Y + X" "(unat q - unat F) mod 3 = c"
      using c by (simp_all only: div_mult_self1 mod_mult_self1) simp_all
    have e: "(W * Y + X) div W = Y" "(W * Y + X) mod W = X" using W(1) by simp_all
    have "unat F \<le> unat q" "unat q < unat F + 3 * (W * H)" unfolding q [symmetric] a by (simp, rule b)
    then have "in_rect (unat F) W H x len y (y + h) (unat q) \<longleftrightarrow> x \<le> X \<and> X < x + len \<and> y \<le> Y \<and> Y < y + h"
      unfolding in_rect_def Let_def d e by blast
    moreover have "rect_byte s P w (unat F) W x y (unat q) = pixel_bytes (load32 s (P + of_nat (4 * ((Y - y) * w + (X - x))))) ! c"
      unfolding rect_byte_def Let_def d e ..
    ultimately show ?thesis unfolding q using m [of q] by presburger
  qed
  then show ?thesis
    by (auto simp: fb_pixel_def mem_get_def intro!: nth_equalityI)
qed

text \<open>
  C24. Drawing to the frame buffer. For a rectangle with its corner at coordinates that are not negative, whatever part of it
  lies outside the display, \<open>gpu_fbdraw\<close> sets every pixel of the display that is in the rectangle to the
  colour of the corresponding source pixel, and leaves every other pixel and all other memory alone. The
  sums of coordinates the code makes must fit in an \<open>int\<close>; otherwise C does not define what it does.
\<close>

theorem gpu_fbdraw_exact:
  assumes "get_int draw st = int x" "get_int (draw + 4) st = int y" "load32 (i_mem st) (draw + 8) = P"
    "get_int (draw + 12) st = int w" "get_int (draw + 16) st = int h"
    and W: "W = unat (display_w st)" "0 < W" and H: "H = unat (display_h st)" and F: "unat (fb_at st) + 3 * (W * H) \<le> 2 ^ 32"
    and fits: "x + w < 2 ^ 31" "y + h \<le> 2 ^ 31" "x + W * H < 2 ^ 31"
    and src: "\<forall>k<4 * (w * h). \<not> (unat (fb_at st) \<le> unat (P + of_nat k) \<and> unat (P + of_nat k) < unat (fb_at st) + 3 * (W * H))"
  shows "\<exists>m'. gpu_fbdraw draw st = Inr (st\<lparr>i_mem := m'\<rparr>) \<and>
    (\<forall>X<W. \<forall>Y<H. fb_pixel m' (fb_at st) W X Y =
       (if x \<le> X \<and> X < x + w \<and> y \<le> Y \<and> Y < y + h then pixel_bytes (load32 (i_mem st) (P + of_nat (4 * ((Y - y) * w + (X - x)))))
        else fb_pixel (i_mem st) (fb_at st) W X Y)) \<and>
    (\<forall>a. unat a < unat (fb_at st) \<or> unat (fb_at st) + 3 * (W * H) \<le> unat a \<longrightarrow> m' a = i_mem st a)"
proof -
  let ?m = "i_mem st" and ?F = "fb_at st"
  define len where "len = (if int x + int w \<ge> int W then int W - int x else int w)"
  define m' where "m' = rows_mem h (int x) (int y) (int w) (int W) (int H) len 0 ?F P ?m"
  have run: "gpu_fbdraw draw st = Inr (st\<lparr>i_mem := m'\<rparr>)"
  proof -
    have "W < 2 ^ 16" unfolding W(1) using unsigned_less [of "display_w st", where ?'a = nat] by simp
    then have "c_int (int x + int w) = Inr (int x + int w)" "c_int (int W - int x) = Inr (int W - int x)"
      using fits by (simp_all add: c_int_def)
    moreover have "int x + int W * int H < 2 ^ 31" using fits(3) by (metis of_nat_add of_nat_less_iff of_nat_mult of_nat_numeral of_nat_power)
    then have "fbdraw_rows h (int x) (int y) (int w) (int W) (int H) len 0 ?F P ?m = Inr m'"
      unfolding m'_def using fits(2) W(2) by (intro fbdraw_rows_mem) simp_all
    ultimately show ?thesis
      using assms(1-5) W(1) H by (auto simp: gpu_fbdraw_def Let_def len_def)
  qed
  have m': "m' a = (if in_rect (unat ?F) W H x (min w (W - x)) y (y + h) (unat a) then rect_byte ?m P w (unat ?F) W x y (unat a) else ?m a)" for a
  proof (cases "x < W")
    case True
    then have "nat len = nat (int (min w (W - x)))" by (auto simp: len_def)
    from rows_mem_len [OF this] have "m' = rows_mem h (int x) (int y) (int w) (int W) (int H) (int (min w (W - x))) 0 ?F P ?m"
      unfolding m'_def by simp
    then show ?thesis
      using rows_mem_eq [of W x "min w (W - x)" w ?F H h ?m P ?m 0 h y a] W(2) True F src by simp
  next
    case False
    then have "len \<le> 0" "min w (W - x) = 0" by (auto simp: len_def)
    then show ?thesis unfolding m'_def by (auto simp: rows_mem_none in_rect_def Let_def)
  qed
  have "fb_pixel m' ?F W X Y = (if x \<le> X \<and> X < x + w \<and> y \<le> Y \<and> Y < y + h then pixel_bytes (load32 ?m (P + of_nat (4 * ((Y - y) * w + (X - x)))))
      else fb_pixel ?m ?F W X Y)" if "X < W" "Y < H" for X Y
    using fb_pixel_rect [OF that F m'] that(1) by (auto simp: min_def split: if_splits)
  moreover have "m' a = ?m a" if "unat a < unat ?F \<or> unat ?F + 3 * (W * H) \<le> unat a" for a
    using m' [of a] that by (auto simp: in_rect_def)
  ultimately show ?thesis using run by blast
qed

definition sample_display :: "unit ioe" where
  "sample_display = (sample_ioe (mem_put (mem_put (\<lambda>_. 0) 0x100 (words_bytes [1, 1, 0x2000, 2, 1])) 0x2000 (words_bytes [0x112233])) ())
     \<lparr>display_w := 2, display_h := 2, fb_at := 0x1000\<rparr>"

lemma sample_display:
  "load32 (i_mem sample_display) 0x100 = 1" "load32 (i_mem sample_display) 0x104 = 1" "load32 (i_mem sample_display) 0x108 = 0x2000"
  "load32 (i_mem sample_display) 0x10c = 2" "load32 (i_mem sample_display) 0x110 = 1" "load32 (i_mem sample_display) 0x2000 = 0x112233"
  "display_w sample_display = 2" "display_h sample_display = 2" "fb_at sample_display = 0x1000"
proof -
  let ?ws = "[1, 1, 0x2000, 2, 1]"
  note p = load32_put [of "0x100" ?ws 0] load32_put [of "0x100" ?ws 1] load32_put [of "0x100" ?ws 2] load32_put [of "0x100" ?ws 3]
    load32_put [of "0x100" ?ws 4] load32_put [of "0x2000" "[0x112233]" 0]
  show "load32 (i_mem sample_display) 0x100 = 1" "load32 (i_mem sample_display) 0x104 = 1" "load32 (i_mem sample_display) 0x108 = 0x2000"
    "load32 (i_mem sample_display) 0x10c = 2" "load32 (i_mem sample_display) 0x110 = 1" "load32 (i_mem sample_display) 0x2000 = 0x112233"
    using p by (simp_all add: sample_display_def sample_ioe_def load32_put_other del: mem_put.simps)
qed (simp_all add: sample_display_def)

theorem gpu_fbdraw_exact_witness:
  "\<exists>st'. gpu_fbdraw 0x100 sample_display = Inr st' \<and> fb_pixel (i_mem st') 0x1000 2 1 1 = [0x33, 0x22, 0x11]"
proof -
  let ?st = sample_display
  have "\<forall>k<4 * (2 * 1). \<not> (unat (fb_at ?st) \<le> unat (0x2000 + of_nat k :: u32) \<and> unat (0x2000 + of_nat k :: u32) < unat (fb_at ?st) + 3 * (2 * 2))"
    by (auto simp: sample_display unat_word_ariths unat_of_nat)
  moreover have "get_int 0x100 ?st = int 1" "get_int (0x100 + 4) ?st = int 1" "load32 (i_mem ?st) (0x100 + 8) = 0x2000"
    "get_int (0x100 + 12) ?st = int 2" "get_int (0x100 + 16) ?st = int 1" "2 = unat (display_w ?st)" "(0::nat) < 2" "2 = unat (display_h ?st)"
    "unat (fb_at ?st) + 3 * (2 * 2) \<le> 2 ^ 32" "1 + 2 < (2 :: nat) ^ 31" "1 + 1 \<le> (2 :: nat) ^ 31" "1 + 2 * 2 < (2 :: nat) ^ 31"
    by (simp_all add: get_int_def sample_display)
  ultimately have "\<exists>m'. gpu_fbdraw 0x100 ?st = Inr (?st\<lparr>i_mem := m'\<rparr>) \<and> fb_pixel m' (fb_at ?st) 2 1 1 =
      (if (1::nat) \<le> 1 \<and> (1::nat) < 1 + 2 \<and> (1::nat) \<le> 1 \<and> (1::nat) < 1 + 1 then pixel_bytes (load32 (i_mem ?st) (0x2000 + of_nat (4 * ((1 - 1) * 2 + (1 - 1)))))
       else fb_pixel (i_mem ?st) (fb_at ?st) 2 1 1)"
    using gpu_fbdraw_exact [of "0x100" ?st 1 1 "0x2000" 2 1 2 2] one_less_numeral_iff [of "Num.Bit0 Num.One"] by (metis semiring_norm(76))
  then show ?thesis by (auto simp: sample_display pixel_bytes_def pix_R_def pix_G_def pix_B_def)
qed

end
