(* ===== verification/Cte.thy ===== *)
theory Cte
  imports Ioe Vme
begin

text \<open>
  The context extension of AbstractMachine on x86 (\<open>am/src/x86/qemu/cte.c\<close>), 32-bit build: descriptors
  and gates (\<open>am/src/x86.h\<close>), the entry and exit code of \<open>trap32.S\<close>, event dispatch, and the initial
  contexts of kernel threads and user processes (\<open>ucontext\<close> of \<open>vme.c\<close>), with the per-processor set-up of \<open>trm.c\<close>.

  The processor itself is modelled as far as this code relies on it: what it pushes when an interrupt
  arrives, the privilege check of a software interrupt, and \<open>iret\<close>. Addresses of functions and variables, which the linker chooses, are
  fields of a record. Stack below the frame of a trap, which the compiled C code uses for itself,
  is not part of the model.
\<close>

section \<open>Constants\<close>

definition DPL_KERN :: nat where "DPL_KERN = 0x0"
definition DPL_USER :: nat where "DPL_USER = 0x3"
definition STA_X :: nat where "STA_X = 0x8"
definition STA_W :: nat where "STA_W = 0x2"
definition STA_R :: nat where "STA_R = 0x2"
definition STS_T32A :: nat where "STS_T32A = 0x9"
definition STS_IG :: nat where "STS_IG = 0xe"
definition STS_TG :: nat where "STS_TG = 0xf"
definition FL_IF :: u32 where "FL_IF = 0x200"

definition NR_SEG :: nat where "NR_SEG = 6"
definition SEG_KCODE :: nat where "SEG_KCODE = 1"
definition SEG_KDATA :: nat where "SEG_KDATA = 2"
definition SEG_UCODE :: nat where "SEG_UCODE = 3"
definition SEG_UDATA :: nat where "SEG_UDATA = 4"
definition SEG_TSS :: nat where "SEG_TSS = 5"
definition NR_IRQ :: nat where "NR_IRQ = 256"
definition MAX_CPU :: nat where "MAX_CPU = 8"

definition KSEL :: "nat \<Rightarrow> u32" where "KSEL seg = push_bit 3 (of_nat seg) OR of_nat DPL_KERN"
definition USEL :: "nat \<Rightarrow> u32" where "USEL seg = push_bit 3 (of_nat seg) OR of_nat DPL_USER"

definition EX_DE :: u32 where "EX_DE = 0"
definition EX_UD :: u32 where "EX_UD = 6"
definition EX_NM :: u32 where "EX_NM = 7"
definition EX_DF :: u32 where "EX_DF = 8"
definition EX_TS :: u32 where "EX_TS = 10"
definition EX_NP :: u32 where "EX_NP = 11"
definition EX_SS :: u32 where "EX_SS = 12"
definition EX_GP :: u32 where "EX_GP = 13"
definition EX_PF :: u32 where "EX_PF = 14"
definition EX_SYSCALL :: u32 where "EX_SYSCALL = 0x80"
definition EX_YIELD :: u32 where "EX_YIELD = 0x81"

text \<open>The list \<open>IRQS\<close>: vector, privilege level, and whether the processor pushes an error code.\<close>

definition IRQS :: "(nat \<times> nat \<times> bool) list" where
  "IRQS =
     [(0, DPL_KERN, False), (1, DPL_KERN, False), (2, DPL_KERN, False), (3, DPL_KERN, False), (4, DPL_KERN, False),
      (5, DPL_KERN, False), (6, DPL_KERN, False), (7, DPL_KERN, False), (8, DPL_KERN, True), (9, DPL_KERN, False),
      (10, DPL_KERN, True), (11, DPL_KERN, True), (12, DPL_KERN, True), (13, DPL_KERN, True), (14, DPL_KERN, True),
      (15, DPL_KERN, False), (16, DPL_KERN, False), (19, DPL_KERN, False), (31, DPL_KERN, False),
      (32, DPL_KERN, False), (33, DPL_KERN, False), (34, DPL_KERN, False), (35, DPL_KERN, False), (36, DPL_KERN, False),
      (37, DPL_KERN, False), (38, DPL_KERN, False), (39, DPL_KERN, False), (40, DPL_KERN, False), (41, DPL_KERN, False),
      (42, DPL_KERN, False), (43, DPL_KERN, False), (44, DPL_KERN, False), (45, DPL_KERN, False), (46, DPL_KERN, False),
      (47, DPL_KERN, False), (128, DPL_USER, False), (129, DPL_USER, False)]"

section \<open>Descriptors\<close>

text \<open>Bit-fields are words of their width: an initialiser is cut to the field.\<close>

record SegDesc =
  lim_15_0 :: "16 word"
  base_15_0 :: "16 word"
  base_23_16 :: "8 word"
  sd_type :: "4 word"
  sd_s :: "1 word"
  sd_dpl :: "2 word"
  sd_p :: "1 word"
  lim_19_16 :: "4 word"
  sd_avl :: "1 word"
  sd_l :: "1 word"
  sd_db :: "1 word"
  sd_g :: "1 word"
  base_31_24 :: "8 word"

record GateDesc32 =
  off_15_0 :: "16 word"
  gd_cs :: "16 word"
  gd_args :: "5 word"
  gd_rsv1 :: "3 word"
  gd_type :: "4 word"
  gd_s :: "1 word"
  gd_dpl :: "2 word"
  gd_p :: "1 word"
  off_31_16 :: "16 word"

definition SEG16 :: "nat \<Rightarrow> u32 \<Rightarrow> u32 \<Rightarrow> nat \<Rightarrow> SegDesc" where
  "SEG16 type base lim dpl =
     \<lparr>lim_15_0 = ucast (lim AND 0xffff), base_15_0 = ucast (base AND 0xffff), base_23_16 = ucast (drop_bit 16 base AND 0xff),
      sd_type = of_nat type, sd_s = 0, sd_dpl = of_nat dpl, sd_p = 1, lim_19_16 = ucast (drop_bit 16 lim),
      sd_avl = 0, sd_l = 0, sd_db = 1, sd_g = 0, base_31_24 = ucast (drop_bit 24 base)\<rparr>"

definition SEG32 :: "nat \<Rightarrow> u32 \<Rightarrow> u32 \<Rightarrow> nat \<Rightarrow> SegDesc" where
  "SEG32 type base lim dpl =
     \<lparr>lim_15_0 = ucast (drop_bit 12 lim AND 0xffff), base_15_0 = ucast (base AND 0xffff), base_23_16 = ucast (drop_bit 16 base AND 0xff),
      sd_type = of_nat type, sd_s = 1, sd_dpl = of_nat dpl, sd_p = 1, lim_19_16 = ucast (drop_bit 28 lim),
      sd_avl = 0, sd_l = 0, sd_db = 1, sd_g = 1, base_31_24 = ucast (drop_bit 24 base)\<rparr>"

definition GATE32 :: "nat \<Rightarrow> u32 \<Rightarrow> u32 \<Rightarrow> nat \<Rightarrow> GateDesc32" where
  "GATE32 type cs entry dpl =
     \<lparr>off_15_0 = ucast (entry AND 0xffff), gd_cs = ucast cs, gd_args = 0, gd_rsv1 = 0, gd_type = of_nat type, gd_s = 0,
      gd_dpl = of_nat dpl, gd_p = 1, off_31_16 = ucast (drop_bit 16 entry)\<rparr>"

text \<open>How the processor reads a descriptor.\<close>

definition seg_base :: "SegDesc \<Rightarrow> u32" where
  "seg_base d = push_bit 24 (ucast (base_31_24 d)) OR push_bit 16 (ucast (base_23_16 d)) OR ucast (base_15_0 d)"

definition seg_limit :: "SegDesc \<Rightarrow> u32" where
  "seg_limit d =
     (let lim = push_bit 16 (ucast (lim_19_16 d)) OR ucast (lim_15_0 d) in if sd_g d = 1 then push_bit 12 lim OR 0xfff else lim)"

definition gate_off :: "GateDesc32 \<Rightarrow> u32" where
  "gate_off g = push_bit 16 (ucast (off_31_16 g)) OR ucast (off_15_0 g)"

section \<open>State\<close>

record TSS32 =
  tss_esp0 :: u32
  tss_ss0 :: u32

record cpu_local =
  cl_gdt :: "SegDesc list"
  cl_tss :: TSS32

text \<open>The registers of one processor, with the operands of the last \<open>lgdt\<close>, \<open>lidt\<close> and \<open>ltr\<close>.\<close>

record regs32 =
  eax :: u32
  ebx :: u32
  ecx :: u32
  edx :: u32
  esi :: u32
  edi :: u32
  ebp :: u32
  esp :: u32
  eip :: u32
  eflags :: u32
  cs_reg :: u16
  ds_reg :: u16
  es_reg :: u16
  ss_reg :: u16
  cr2 :: u32
  cr3 :: u32
  gdtr :: "u32 \<times> u16"
  idtr :: "u32 \<times> u16"
  tr :: u16

text \<open>Addresses of symbols.\<close>

record symbols =
  s_irq :: "nat \<Rightarrow> u32"
  s_irqall :: u32
  s_kcontext_start :: u32
  s_panic_on_return :: u32
  s_idt :: u32
  s_cpuinfo :: u32
  s_end :: u32
  s_call_main :: u32
  s_othercpu_entry :: u32

record 'd mach =
  m_regs :: regs32
  m_io :: "'d ioe"
  m_cpuinfo :: "cpu_local list"
  m_idt :: "GateDesc32 list"
  user_handler :: u32
  m_ncpu :: nat
  m_heap :: "u32 Area"

datatype event_kind = EVENT_NULL | EVENT_YIELD | EVENT_SYSCALL | EVENT_PAGEFAULT | EVENT_ERROR | EVENT_IRQ_TIMER | EVENT_IRQ_IODEV

record Event =
  event :: event_kind
  cause :: u32
  ref :: u32
  msg :: string

record Context =
  c_cr3 :: u32
  c_ds :: u32
  c_eax :: u32
  c_ebx :: u32
  c_ecx :: u32
  c_edx :: u32
  c_esp0 :: u32
  c_esi :: u32
  c_edi :: u32
  c_ebp :: u32
  c_eip :: u32
  c_cs :: u32
  c_eflags :: u32
  c_esp :: u32
  c_ss3 :: u32

definition sizeof_Context :: u32 where "sizeof_Context = 60"

text \<open>A context in memory, and an assignment of a whole context.\<close>

definition ctx_at :: "mem32 \<Rightarrow> u32 \<Rightarrow> Context" where
  "ctx_at m a =
     \<lparr>c_cr3 = load32 m a, c_ds = load32 m (a + 4), c_eax = load32 m (a + 8), c_ebx = load32 m (a + 12), c_ecx = load32 m (a + 16),
      c_edx = load32 m (a + 20), c_esp0 = load32 m (a + 24), c_esi = load32 m (a + 28), c_edi = load32 m (a + 32),
      c_ebp = load32 m (a + 36), c_eip = load32 m (a + 40), c_cs = load32 m (a + 44), c_eflags = load32 m (a + 48),
      c_esp = load32 m (a + 52), c_ss3 = load32 m (a + 56)\<rparr>"

definition put_ctx :: "mem32 \<Rightarrow> u32 \<Rightarrow> Context \<Rightarrow> mem32" where
  "put_ctx m a c = mem_put m a (words_bytes
     [c_cr3 c, c_ds c, c_eax c, c_ebx c, c_ecx c, c_edx c, c_esp0 c, c_esi c, c_edi c, c_ebp c, c_eip c, c_cs c, c_eflags c, c_esp c, c_ss3 c])"

text \<open>The index \<open>cpu_current()\<close> into \<open>__am_cpuinfo\<close>, which the macro \<open>CPU\<close> reads at each use.\<close>

definition this_cpu :: "'d ports \<Rightarrow> 'd mach \<Rightarrow> (nat \<times> 'd mach) res" where
  "this_cpu io M =
     (let (c, st) = cpu_current io (m_io M) in
      if unat c < length (m_cpuinfo M) then Inr (unat c, M\<lparr>m_io := st\<rparr>) else Inl Out_of_bounds)"

definition set_mem :: "mem32 \<Rightarrow> 'd mach \<Rightarrow> 'd mach" where
  "set_mem m M = M\<lparr>m_io := (m_io M)\<lparr>i_mem := m\<rparr>\<rparr>"

definition set_tss :: "nat \<Rightarrow> (TSS32 \<Rightarrow> TSS32) \<Rightarrow> 'd mach \<Rightarrow> 'd mach" where
  "set_tss c f M = M\<lparr>m_cpuinfo := (m_cpuinfo M)[c := (m_cpuinfo M ! c)\<lparr>cl_tss := f (cl_tss (m_cpuinfo M ! c))\<rparr>]\<rparr>"

abbreviation mem_of :: "'d mach \<Rightarrow> mem32" where
  "mem_of M \<equiv> i_mem (m_io M)"

section \<open>Entry and exit of a trap\<close>

text \<open>\<open>trap32.S\<close>, on the registers and the memory.\<close>

fun push32 :: "u32 \<Rightarrow> regs32 \<times> mem32 \<Rightarrow> regs32 \<times> mem32" where
  "push32 v (r, m) = (r\<lparr>esp := esp r - 4\<rparr>, store32 m (esp r - 4) v)"

fun pop32 :: "(u32 \<Rightarrow> regs32 \<Rightarrow> regs32) \<Rightarrow> regs32 \<times> mem32 \<Rightarrow> regs32 \<times> mem32" where
  "pop32 f (r, m) = (f (load32 m (esp r)) (r\<lparr>esp := esp r + 4\<rparr>), m)"

fun set_regs :: "(regs32 \<Rightarrow> regs32) \<Rightarrow> regs32 \<times> mem32 \<Rightarrow> regs32 \<times> mem32" where
  "set_regs f (r, m) = (f r, m)"

definition CPL :: "regs32 \<Rightarrow> u16" where
  "CPL r = cs_reg r AND 3"

text \<open>
  The processor on an interrupt: coming from user mode, it takes the kernel stack from the task state
  segment and pushes the user stack; then it pushes flags, code segment, program counter and, for some
  exceptions, an error code. A trap gate leaves the interrupt flag alone.
\<close>

definition hw_interrupt :: "TSS32 \<Rightarrow> GateDesc32 \<Rightarrow> u32 option \<Rightarrow> regs32 \<times> mem32 \<Rightarrow> regs32 \<times> mem32" where
  "hw_interrupt tss g err s =
     (let r0 = fst s;
          s = (if CPL r0 \<noteq> 0 then push32 (esp r0) (push32 (ucast (ss_reg r0)) (set_regs (\<lambda>r. r\<lparr>ss_reg := ucast (tss_ss0 tss), esp := tss_esp0 tss\<rparr>) s)) else s);
          s = push32 (eip r0) (push32 (ucast (cs_reg r0)) (push32 (eflags r0) s));
          s = (case err of None \<Rightarrow> s | Some e \<Rightarrow> push32 e s)
      in set_regs (\<lambda>r. r\<lparr>cs_reg := gd_cs g, eip := gate_off g\<rparr>) s)"

definition hw_iret :: "regs32 \<times> mem32 \<Rightarrow> regs32 \<times> mem32" where
  "hw_iret s =
     (let cpl = CPL (fst s);
          s = pop32 (\<lambda>v r. r\<lparr>eip := v\<rparr>) s;
          s = pop32 (\<lambda>v r. r\<lparr>cs_reg := ucast v\<rparr>) s;
          s = pop32 (\<lambda>v r. r\<lparr>eflags := v\<rparr>) s
      in if CPL (fst s) > cpl
         then (let (r, m) = s in (r\<lparr>esp := load32 m (esp r), ss_reg := ucast (load32 m (esp r + 4))\<rparr>, m))
         else s)"

definition cli :: "regs32 \<Rightarrow> regs32" where
  "cli r = r\<lparr>eflags := eflags r AND NOT FL_IF\<rparr>"

definition sti :: "regs32 \<Rightarrow> regs32" where
  "sti r = r\<lparr>eflags := eflags r OR FL_IF\<rparr>"

definition trap :: "regs32 \<times> mem32 \<Rightarrow> regs32 \<times> mem32" where
  "trap s =
     (let s = set_regs cli s;
          s = set_regs (\<lambda>r. r\<lparr>esp := esp r - 20\<rparr>) s;
          s = push32 (ebp (fst s)) s;
          s = push32 (edi (fst s)) s;
          s = push32 (esi (fst s)) s;
          s = push32 0 s;
          s = push32 (edx (fst s)) s;
          s = push32 (ecx (fst s)) s;
          s = push32 (ebx (fst s)) s;
          s = push32 (eax (fst s)) s;
          s = set_regs (\<lambda>r. r\<lparr>eax := (eax r AND 0xffff0000) OR ucast (ds_reg r)\<rparr>) s;
          s = push32 (eax (fst s)) s;
          s = push32 0 s
      in set_regs (\<lambda>r. r\<lparr>eax := (eax r AND 0xffff0000) OR KSEL SEG_KDATA, ds_reg := ucast (KSEL SEG_KDATA),
           es_reg := ucast (KSEL SEG_KDATA), ss_reg := ucast (KSEL SEG_KDATA)\<rparr>) s)"

text \<open>The stubs: \<open>__am_irq<id>\<close> pushes a zero where the processor pushed no error code; \<open>__am_irqall\<close> stands for every other vector.\<close>

definition am_irq :: "nat \<Rightarrow> bool \<Rightarrow> regs32 \<times> mem32 \<Rightarrow> regs32 \<times> mem32" where
  "am_irq n err s =
     (let s = set_regs cli s;
          s = (if err then s else push32 0 s)
      in trap (push32 (of_nat n) s))"

definition am_irqall :: "regs32 \<times> mem32 \<Rightarrow> regs32 \<times> mem32" where
  "am_irqall s = trap (push32 (- 1) (push32 0 (set_regs cli s)))"

text \<open>The code at an address that is the entry of a stub.\<close>

definition run_stub :: "symbols \<Rightarrow> u32 \<Rightarrow> regs32 \<times> mem32 \<Rightarrow> (regs32 \<times> mem32) res" where
  "run_stub ld off s =
     (case find (\<lambda>(n, dpl, err). s_irq ld n = off) IRQS of
        Some (n, dpl, err) \<Rightarrow> Inr (am_irq n err s)
      | None \<Rightarrow> if off = s_irqall ld then Inr (am_irqall s) else Inl Out_of_bounds)"

text \<open>The six words of the interrupted frame, copied from the top down; the register they pass through is popped afterwards.\<close>

fun copy_down :: "nat \<Rightarrow> u32 \<Rightarrow> u32 \<Rightarrow> mem32 \<Rightarrow> mem32" where
  "copy_down 0 s t m = m"
| "copy_down (Suc k) s t m = copy_down k s t (store32 m (t + of_nat (4 * k)) (load32 m (s + of_nat (4 * k))))"

definition kernel_iret :: "regs32 \<times> mem32 \<Rightarrow> regs32 \<times> mem32" where
  "kernel_iret s =
     (let s = set_regs (\<lambda>r. r\<lparr>ebp := esp r\<rparr>) s;
          s = set_regs (\<lambda>r. r\<lparr>edi := load32 (snd s) (ebp r + 24)\<rparr>) s;
          (r, m) = s;
          m = copy_down 6 (ebp r) (edi r - 24) m;
          s = (r\<lparr>esp := edi r - 24\<rparr>, m);
          s = pop32 (\<lambda>v r. r\<lparr>esi := v\<rparr>) s;
          s = pop32 (\<lambda>v r. r\<lparr>edi := v\<rparr>) s;
          s = pop32 (\<lambda>v r. r\<lparr>ebp := v\<rparr>) s
      in hw_iret s)"

definition user_iret :: "regs32 \<times> mem32 \<Rightarrow> regs32 \<times> mem32" where
  "user_iret s =
     (let s = pop32 (\<lambda>v r. r\<lparr>esi := v\<rparr>) s;
          s = pop32 (\<lambda>v r. r\<lparr>edi := v\<rparr>) s;
          s = pop32 (\<lambda>v r. r\<lparr>ebp := v\<rparr>) s
      in hw_iret s)"

definition am_iret :: "u32 \<Rightarrow> regs32 \<times> mem32 \<Rightarrow> regs32 \<times> mem32" where
  "am_iret ctx s =
     (let s = set_regs (\<lambda>r. r\<lparr>eax := ctx, esp := ctx + 4\<rparr>) s;
          s = pop32 (\<lambda>v r. r\<lparr>eax := v\<rparr>) s;
          s = set_regs (\<lambda>r. r\<lparr>ds_reg := ucast (eax r), es_reg := ucast (eax r)\<rparr>) s;
          kernel = (load16 (snd s) (esp (fst s) + 36) = ucast (KSEL SEG_KCODE));
          s = pop32 (\<lambda>v r. r\<lparr>eax := v\<rparr>) s;
          s = pop32 (\<lambda>v r. r\<lparr>ebx := v\<rparr>) s;
          s = pop32 (\<lambda>v r. r\<lparr>ecx := v\<rparr>) s;
          s = pop32 (\<lambda>v r. r\<lparr>edx := v\<rparr>) s;
          s = set_regs (\<lambda>r. r\<lparr>esp := esp r + 4\<rparr>) s
      in if kernel then kernel_iret s else user_iret s)"

definition amkcontext_start :: "symbols \<Rightarrow> regs32 \<times> mem32 \<Rightarrow> regs32 \<times> mem32" where
  "amkcontext_start ld s =
     (let s = push32 (eax (fst s)) s;
          s = push32 (s_panic_on_return ld) s
      in set_regs (\<lambda>r. r\<lparr>eip := ebx r\<rparr>) s)"

section \<open>Event dispatch\<close>

text \<open>The \<open>switch\<close> of \<open>__am_irq_handle\<close>.\<close>

definition irq_event :: "u32 \<Rightarrow> u32 \<Rightarrow> u32 \<Rightarrow> Event" where
  "irq_event irq errcode bad_addr =
     (let ev = \<lparr>event = EVENT_NULL, cause = 0, ref = 0, msg = ''(no message)''\<rparr> in
      if irq = of_nat T_IRQ0 + 0 then ev\<lparr>msg := ''timer interrupt (lapic)'', event := EVENT_IRQ_TIMER\<rparr>
      else if irq = of_nat T_IRQ0 + 1 then ev\<lparr>msg := ''I/O device IRQ1 (keyboard)'', event := EVENT_IRQ_IODEV\<rparr>
      else if irq = of_nat T_IRQ0 + 4 then ev\<lparr>msg := ''I/O device IRQ4 (COM1)'', event := EVENT_IRQ_IODEV\<rparr>
      else if irq = EX_SYSCALL then ev\<lparr>msg := ''int $0x80 system call'', event := EVENT_SYSCALL\<rparr>
      else if irq = EX_YIELD then ev\<lparr>msg := ''int $0x81 yield'', event := EVENT_YIELD\<rparr>
      else if irq = EX_DE then ev\<lparr>msg := ''DE #0 divide by zero'', event := EVENT_ERROR\<rparr>
      else if irq = EX_UD then ev\<lparr>msg := ''UD #6 invalid opcode'', event := EVENT_ERROR\<rparr>
      else if irq = EX_NM then ev\<lparr>msg := ''NM #7 coprocessor error'', event := EVENT_ERROR\<rparr>
      else if irq = EX_DF then ev\<lparr>msg := ''DF #8 double fault'', event := EVENT_ERROR\<rparr>
      else if irq = EX_TS then ev\<lparr>msg := ''TS #10 invalid TSS'', event := EVENT_ERROR\<rparr>
      else if irq = EX_NP then ev\<lparr>msg := ''NP #11 segment/gate not present'', event := EVENT_ERROR\<rparr>
      else if irq = EX_SS then ev\<lparr>msg := ''SS #12 stack fault'', event := EVENT_ERROR\<rparr>
      else if irq = EX_GP then ev\<lparr>msg := ''GP #13, general protection fault'', event := EVENT_ERROR\<rparr>
      else if irq = EX_PF then
        (let ev = ev\<lparr>msg := ''PF #14, page fault, @cause: PROT_XXX'', event := EVENT_PAGEFAULT\<rparr>;
             ev = (if errcode AND 0x1 \<noteq> 0 then ev\<lparr>cause := cause ev OR MMAP_NONE\<rparr> else ev);
             ev = (if errcode AND 0x2 \<noteq> 0 then ev\<lparr>cause := cause ev OR MMAP_WRITE\<rparr> else ev\<lparr>cause := cause ev OR MMAP_READ\<rparr>)
         in ev\<lparr>ref := bad_addr\<rparr>)
      else ev\<lparr>msg := ''unrecognized interrupt/exception'', event := EVENT_ERROR, cause := errcode\<rparr>)"

text \<open>The end of \<open>__am_irq_handle\<close>: the processor continues with the context \<open>ret_ctx\<close>.\<close>

definition irq_return :: "'d ports \<Rightarrow> u32 \<Rightarrow> 'd mach \<Rightarrow> 'd mach res" where
  "irq_return io ret_ctx M =
     bindE (panic_on (ret_ctx = 0) ''returning to NULL context'') (\<lambda>_.
     bindE (if load32 (mem_of M) ret_ctx \<noteq> 0 then
              let M = M\<lparr>m_regs := (m_regs M)\<lparr>cr3 := load32 (mem_of M) ret_ctx\<rparr>\<rparr> in
              bindE (this_cpu io M) (\<lambda>(c, M).
              let M = set_tss c (\<lambda>t. t\<lparr>tss_ss0 := KSEL SEG_KDATA\<rparr>) M in
              bindE (this_cpu io M) (\<lambda>(c, M).
              Inr (set_tss c (\<lambda>t. t\<lparr>tss_esp0 := load32 (mem_of M) (ret_ctx + 24)\<rparr>) M)))
            else Inr M) (\<lambda>M.
     let (r, m) = am_iret ret_ctx (m_regs M, mem_of M)
     in Inr (set_mem m (M\<lparr>m_regs := r\<rparr>))))"

text \<open>
  \<open>tf\<close> is the address of the frame: the saved context, then \<open>irq\<close>, \<open>errcode\<close>, \<open>eip\<close>, \<open>cs\<close>, \<open>eflags\<close>, \<open>esp\<close> and
  \<open>ss\<close>. \<open>call h\<close> is the handler whose address is \<open>h\<close>: from an event and a context it computes the
  context to continue with.
\<close>

definition save_pc :: "u32 \<Rightarrow> mem32 \<Rightarrow> mem32" where
  "save_pc tf m =
     (let saved_ctx = tf;
          m = store32 m (saved_ctx + 40) (load32 m (tf + 68));
          m = store32 m (saved_ctx + 44) (load32 m (tf + 72))
      in store32 m (saved_ctx + 48) (load32 m (tf + 76)))"

definition save_stacks :: "u32 \<Rightarrow> u32 \<Rightarrow> u32 \<Rightarrow> mem32 \<Rightarrow> mem32" where
  "save_stacks tf esp0 pdir m =
     (let saved_ctx = tf;
          m = store32 m (saved_ctx + 24) esp0;
          m = store32 m (saved_ctx + 56) (USEL SEG_UDATA);
          m = store32 m (saved_ctx + 52) (if load32 m (tf + 72) AND of_nat DPL_USER \<noteq> 0 then load32 m (tf + 80) else tf + 88 - 8)
      in store32 m saved_ctx pdir)"

definition am_irq_handle :: "'d ports \<Rightarrow> (u32 \<Rightarrow> Event \<Rightarrow> u32 \<Rightarrow> 'd ioe \<Rightarrow> u32 \<times> 'd ioe) \<Rightarrow> u32 \<Rightarrow> 'd mach \<Rightarrow> 'd mach res" where
  "am_irq_handle io call tf M =
     bindE (this_cpu io (set_mem (save_pc tf (mem_of M)) M)) (\<lambda>(c, M).
     let st = (m_io M)\<lparr>i_mem := save_stacks tf (tss_esp0 (cl_tss (m_cpuinfo M ! c))) (cr3 (m_regs M)) (mem_of M)\<rparr>;
         irq = load32 (i_mem st) (tf + 60);
         ev = irq_event irq (load32 (i_mem st) (tf + 64)) (cr2 (m_regs M));
         st = (if of_nat T_IRQ0 + 0 \<le> irq \<and> irq < of_nat T_IRQ0 + 32 then am_lapic_eoi io st else st)
     in if user_handler M = 0 then Inl Null_deref
        else let (ret_ctx, st) = call (user_handler M) ev tf st in irq_return io ret_ctx (M\<lparr>m_io := st\<rparr>))"

text \<open>An interrupt on processor \<open>cpu\<close>, from its arrival to the return to the context the handler chose.\<close>

definition interrupt :: "'d ports \<Rightarrow> (u32 \<Rightarrow> Event \<Rightarrow> u32 \<Rightarrow> 'd ioe \<Rightarrow> u32 \<times> 'd ioe) \<Rightarrow> symbols \<Rightarrow> nat \<Rightarrow> nat \<Rightarrow> u32 option \<Rightarrow> 'd mach \<Rightarrow> 'd mach res" where
  "interrupt io call ld cpu v err M =
     (if v < length (m_idt M) then
        let g = m_idt M ! v in
        bindE (run_stub ld (gate_off g) (hw_interrupt (cl_tss (m_cpuinfo M ! cpu)) g err (m_regs M, mem_of M))) (\<lambda>(r, m).
        am_irq_handle io call (esp r) (set_mem m (M\<lparr>m_regs := r\<rparr>)))
      else Inl Out_of_bounds)"

text \<open>
  The instruction \<open>int n\<close>, as the macro \<open>interrupt(id)\<close> issues it: a program of lower privilege than the
  gate gets a general protection fault instead.
\<close>

definition int_vector :: "GateDesc32 list \<Rightarrow> regs32 \<Rightarrow> nat \<Rightarrow> nat \<times> u32 option" where
  "int_vector gates r n = (if unat (CPL r) \<le> unat (gd_dpl (gates ! n)) then (n, None) else (13, Some (of_nat (8 * n + 2))))"

definition soft_int :: "'d ports \<Rightarrow> (u32 \<Rightarrow> Event \<Rightarrow> u32 \<Rightarrow> 'd ioe \<Rightarrow> u32 \<times> 'd ioe) \<Rightarrow> symbols \<Rightarrow> nat \<Rightarrow> nat \<Rightarrow> 'd mach \<Rightarrow> 'd mach res" where
  "soft_int io call ld cpu n M = (let (v, err) = int_vector (m_idt M) (m_regs M) n in interrupt io call ld cpu v err M)"

section \<open>Operations\<close>

definition IDT_ENTRY :: "symbols \<Rightarrow> GateDesc32 list \<Rightarrow> nat \<times> nat \<times> bool \<Rightarrow> GateDesc32 list" where
  "IDT_ENTRY ld gates = (\<lambda>(n, dpl, err). gates[n := GATE32 STS_TG (KSEL SEG_KCODE) (s_irq ld n) dpl])"

definition cte_idt :: "symbols \<Rightarrow> GateDesc32 list" where
  "cte_idt ld = foldl (IDT_ENTRY ld) (replicate NR_IRQ (GATE32 STS_TG (KSEL SEG_KCODE) (s_irqall ld) DPL_KERN)) IRQS"

definition cte_init :: "'d ports \<Rightarrow> symbols \<Rightarrow> u32 \<Rightarrow> 'd mach \<Rightarrow> 'd mach res" where
  "cte_init io ld handler M =
     (let (c, st) = cpu_current io (m_io M) in
      bindE (panic_on (c \<noteq> 0) ''init CTE in non-bootstrap CPU'') (\<lambda>_.
      bindE (panic_on (handler = 0) ''no interrupt handler'') (\<lambda>_.
      Inr (M\<lparr>m_io := st, m_idt := cte_idt ld, user_handler := handler\<rparr>))))"

definition yield :: "'d ports \<Rightarrow> (u32 \<Rightarrow> Event \<Rightarrow> u32 \<Rightarrow> 'd ioe \<Rightarrow> u32 \<times> 'd ioe) \<Rightarrow> symbols \<Rightarrow> nat \<Rightarrow> 'd mach \<Rightarrow> 'd mach res" where
  "yield io call ld cpu M = soft_int io call ld cpu 0x81 M"

definition ienabled :: "'d mach \<Rightarrow> bool" where
  "ienabled M \<longleftrightarrow> eflags (m_regs M) AND FL_IF \<noteq> 0"

definition iset :: "bool \<Rightarrow> 'd mach \<Rightarrow> 'd mach" where
  "iset enable M = M\<lparr>m_regs := (if enable then sti else cli) (m_regs M)\<rparr>"

definition am_panic_on_return :: "unit res" where
  "am_panic_on_return = Inl (Panic ''kernel context returns'')"

definition zero_ctx :: Context where
  "zero_ctx = \<lparr>c_cr3 = 0, c_ds = 0, c_eax = 0, c_ebx = 0, c_ecx = 0, c_edx = 0, c_esp0 = 0, c_esi = 0, c_edi = 0, c_ebp = 0,
     c_eip = 0, c_cs = 0, c_eflags = 0, c_esp = 0, c_ss3 = 0\<rparr>"

definition kcontext :: "symbols \<Rightarrow> u32 Area \<Rightarrow> u32 \<Rightarrow> u32 \<Rightarrow> mem32 \<Rightarrow> u32 \<times> mem32" where
  "kcontext ld kstack entry arg m =
     (let ctx = a_end kstack - sizeof_Context;
          c = zero_ctx\<lparr>c_ds := KSEL SEG_KDATA, c_cs := KSEL SEG_KCODE, c_eip := s_kcontext_start ld, c_eflags := FL_IF, c_esp := a_end kstack\<rparr>;
          c = c\<lparr>c_eax := arg, c_ebx := entry\<rparr>
      in (ctx, put_ctx m ctx c))"

text \<open>\<open>as\<close> is the address of an \<open>AddrSpace\<close>, whose field \<open>ptr\<close> is at offset 12.\<close>

definition ucontext :: "u32 \<Rightarrow> u32 Area \<Rightarrow> u32 \<Rightarrow> mem32 \<Rightarrow> u32 \<times> mem32" where
  "ucontext as kstack entry m =
     (let ctx = a_end kstack - sizeof_Context;
          c = zero_ctx\<lparr>c_cs := USEL SEG_UCODE, c_ds := USEL SEG_UDATA, c_ss3 := USEL SEG_UDATA, c_eip := entry, c_eflags := FL_IF,
                c_esp := a_end (va_area (vm_areas_x86 ! 0)), c_esp0 := a_end kstack\<rparr>;
          m = put_ctx m ctx c
      in (ctx, store32 m ctx (load32 m (as + 12))))"

definition am_percpu_initirq :: "'d ports \<Rightarrow> symbols \<Rightarrow> 'd mach \<Rightarrow> 'd mach" where
  "am_percpu_initirq io ld M =
     (let st = am_ioapic_enable io IRQ_KBD 0 (m_io M);
          st = am_ioapic_enable io IRQ_COM1 0 st
      in M\<lparr>m_io := st, m_regs := (m_regs M)\<lparr>idtr := (s_idt ld, of_nat (8 * NR_IRQ))\<rparr>\<rparr>)"

end
