(* ===== verification/Trm.thy ===== *)
theory Trm
  imports Cte Boot
begin

text \<open>
  Start of the machine (\<open>am/src/x86/qemu/trm.c\<close>) and the multiprocessor extension (\<open>mpe.c\<close>), 32-bit build: discovery of
  the heap and of the processors, descriptor tables, \<open>_start_c\<close>, \<open>halt\<close>, and the hand-over from the boot
  processor to the others.
\<close>

section \<open>Start\<close>

definition ROUNDUP :: "u32 \<Rightarrow> u32 \<Rightarrow> u32" where
  "ROUNDUP a sz = (a + sz - 1) AND NOT (sz - 1)"

definition am_heap_init :: "'d ports \<Rightarrow> symbols \<Rightarrow> 'd ioe \<Rightarrow> u32 Area \<times> 'd ioe" where
  "am_heap_init io ld st =
     (let st = dev_out (outb io 0x70 0x34) st;
          (lo, st) = dev_in (inb io 0x71) st;
          st = dev_out (outb io 0x70 0x35) st;
          (hi, st) = dev_in (inb io 0x71) st;
          hi = (ucast hi :: u32) + 1
      in (\<lparr>a_start = ROUNDUP (s_end ld) (2 ^ 20), a_end = push_bit 16 (ucast lo OR push_bit 8 hi)\<rparr>, st))"

text \<open>The search for the signature \<open>_MP_\<close>, over the \<open>n\<close> addresses from \<open>a\<close> on.\<close>

fun find_mp :: "nat \<Rightarrow> u32 \<Rightarrow> mem32 \<Rightarrow> u32 option" where
  "find_mp 0 a m = None"
| "find_mp (Suc n) a m = (if load32 m a = 0x5f504d5f then Some a else find_mp n (a + 1) m)"

text \<open>The entries of the configuration table: 20 bytes for a processor, 8 bytes for anything else.\<close>

partial_function (option) mp_entries :: "mem32 \<Rightarrow> u32 \<Rightarrow> u32 \<Rightarrow> nat \<Rightarrow> nat res option" where
  "mp_entries m ed ptr ncpu =
     (if ptr < ed then
        if m ptr = 0 then
          if Suc ncpu > MAX_CPU then Some (Inl (Panic ''cannot support > MAX_CPU processors''))
          else mp_entries m ed (ptr + 12 + 8) (Suc ncpu)
        else mp_entries m ed (ptr + 8) ncpu
      else Some (Inr ncpu))"

definition am_lapic_init :: "'d mach \<Rightarrow> 'd mach res" where
  "am_lapic_init M =
     (case find_mp (0xffffff - 0xf0000) 0xf0000 (mem_of M) of
        None \<Rightarrow> Inl (Panic ''internal error (likely a bug in AM)'')
      | Some st \<Rightarrow>
          let conf = load32 (mem_of M) (st + 4);
              M = M\<lparr>m_io := (m_io M)\<lparr>lapic_at := load32 (mem_of M) (conf + 36)\<rparr>\<rparr>;
              ed = conf + ucast (load16 (mem_of M) (conf + 4))
          in bindE (case mp_entries (mem_of M) ed (conf + 44) (m_ncpu M) of None \<Rightarrow> Inl Diverge | Some r \<Rightarrow> r) (\<lambda>n.
             Inr (M\<lparr>m_ncpu := n\<rparr>)))"

text \<open>Sizes and offsets of \<open>struct cpu_local\<close>: \<open>uvm\<close>, six descriptors, the task state segment and the stack.\<close>

definition sizeof_cpu_local :: nat where "sizeof_cpu_local = 4 + 6 * 8 + 104 + 8192"

definition gdt_at :: "symbols \<Rightarrow> nat \<Rightarrow> u32" where
  "gdt_at ld c = s_cpuinfo ld + of_nat (sizeof_cpu_local * c + 4)"

definition tss_at :: "symbols \<Rightarrow> nat \<Rightarrow> u32" where
  "tss_at ld c = s_cpuinfo ld + of_nat (sizeof_cpu_local * c + 52)"

definition stack_top :: "symbols \<Rightarrow> nat \<Rightarrow> u32" where
  "stack_top ld c = s_cpuinfo ld + of_nat (sizeof_cpu_local * c + 156) + 8192"

definition am_percpu_initgdt :: "'d ports \<Rightarrow> symbols \<Rightarrow> 'd mach \<Rightarrow> 'd mach res" where
  "am_percpu_initgdt io ld M =
     bindE (this_cpu io M) (\<lambda>(c, M).
     bindE (this_cpu io M) (\<lambda>(c', M).
     let gdt = cl_gdt (m_cpuinfo M ! c);
         gdt = gdt[SEG_KCODE := SEG32 (STA_X OR STA_R) 0 0xffffffff DPL_KERN];
         gdt = gdt[SEG_KDATA := SEG32 STA_W 0 0xffffffff DPL_KERN];
         gdt = gdt[SEG_UCODE := SEG32 (STA_X OR STA_R) 0 0xffffffff DPL_USER];
         gdt = gdt[SEG_UDATA := SEG32 STA_W 0 0xffffffff DPL_USER];
         gdt = gdt[SEG_TSS := SEG16 STS_T32A (tss_at ld c') (104 - 1) DPL_KERN]
     in Inr (M\<lparr>m_cpuinfo := (m_cpuinfo M)[c := (m_cpuinfo M ! c)\<lparr>cl_gdt := gdt\<rparr>],
               m_regs := (m_regs M)\<lparr>gdtr := (gdt_at ld c, of_nat (8 * NR_SEG)), tr := ucast (KSEL SEG_TSS)\<rparr>\<rparr>)))"

definition am_percpu_init :: "'d ports \<Rightarrow> symbols \<Rightarrow> 'd mach \<Rightarrow> 'd mach res" where
  "am_percpu_init io ld M =
     bindE (am_percpu_initgdt io ld M) (\<lambda>M.
     bindE (am_percpu_initlapic io (m_io M)) (\<lambda>st.
     Inr (am_percpu_initirq io ld (M\<lparr>m_io := st\<rparr>))))"

definition am_bootcpu_init :: "'d ports \<Rightarrow> symbols \<Rightarrow> 'd mach \<Rightarrow> 'd mach res" where
  "am_bootcpu_init io ld M =
     (let (h, st) = am_heap_init io ld (m_io M) in
      bindE (am_lapic_init (M\<lparr>m_io := st, m_heap := h\<rparr>)) (\<lambda>M.
      am_percpu_init io ld (M\<lparr>m_io := am_ioapic_init io (m_io M)\<rparr>)))"

definition stack_switch_call :: "u32 \<Rightarrow> u32 \<Rightarrow> u32 \<Rightarrow> 'd mach \<Rightarrow> 'd mach" where
  "stack_switch_call sp entry arg M =
     set_mem (store32 (mem_of M) (sp - 8 + 4) arg) (M\<lparr>m_regs := (m_regs M)\<lparr>ebx := sp - 8, edx := entry, eax := arg, esp := sp - 8, eip := entry\<rparr>\<rparr>)"

definition am_othercpu_entry :: "'d ports \<Rightarrow> symbols \<Rightarrow> 'd mach \<Rightarrow> 'd mach res" where
  "am_othercpu_entry io ld M =
     bindE (this_cpu io M) (\<lambda>(c, M). Inr (stack_switch_call (stack_top ld c) (s_othercpu_entry ld) 0 M))"

definition start_c :: "'d ports \<Rightarrow> symbols \<Rightarrow> u32 \<Rightarrow> 'd mach \<Rightarrow> 'd mach res" where
  "start_c io ld args M =
     (if load32 (mem_of M) (BOOTREC_ADDR + 4) \<noteq> 0 then am_othercpu_entry io ld M
      else bindE (am_bootcpu_init io ld M) (\<lambda>M.
           bindE (this_cpu io M) (\<lambda>(c, M). Inr (stack_switch_call (stack_top ld c) (s_call_main ld) args M))))"

section \<open>Stop\<close>

definition putch :: "'d ports \<Rightarrow> u8 \<Rightarrow> 'd ioe \<Rightarrow> 'd ioe" where
  "putch io ch st = dev_out (outb io COM1 ch) st"

definition stop_cpu :: "'d ports \<Rightarrow> 'd ioe \<Rightarrow> nat \<Rightarrow> 'd ioe" where
  "stop_cpu io st c =
     (let (me, st) = cpu_current io st in if of_nat c \<noteq> me then am_lapic_bootap io (of_nat c) BOOTREC_ADDR st else st)"

definition am_stop_the_world :: "'d ports \<Rightarrow> 'd mach \<Rightarrow> 'd mach" where
  "am_stop_the_world io M =
     (let M = set_mem (store32 (mem_of M) BOOTREC_ADDR 0x0000feeb) M
      in M\<lparr>m_io := foldl (stop_cpu io) (m_io M) [0..<m_ncpu M]\<rparr>)"

definition halt_hex :: string where "halt_hex = ''0123456789abcdef''"

definition halt_fmt :: string where "halt_fmt = ''CPU #$ Halt (40).'' @ [CHR 0x0A]"

definition ascii :: "char \<Rightarrow> u8" where "ascii ch = of_char ch"

fun halt_print :: "'d ports \<Rightarrow> u32 \<Rightarrow> string \<Rightarrow> 'd ioe \<Rightarrow> 'd ioe res" where
  "halt_print io code [] st = Inr st"
| "halt_print io code (ch # p) st =
     (if ch = CHR ''$'' then
        let (c, st) = cpu_current io st in
        if unat c < length halt_hex then halt_print io code p (putch io (ascii (halt_hex ! unat c)) st)
        else if unat c = length halt_hex then halt_print io code p (putch io 0 st) else Inl Out_of_bounds
      else if ch = CHR ''0'' \<or> ch = CHR ''4'' then
        let k = (if ch = CHR ''4'' then 4 else 0)
        in halt_print io code p (putch io (ascii (halt_hex ! unat (signed_drop_bit k code AND 0xf))) st)
      else halt_print io code p (putch io (ascii ch) st))"

text \<open>The state in which \<open>halt\<close> stays for ever.\<close>

definition halt :: "'d ports \<Rightarrow> u32 \<Rightarrow> 'd mach \<Rightarrow> 'd mach res" where
  "halt io code M =
     (let M = am_stop_the_world io (M\<lparr>m_regs := cli (m_regs M)\<rparr>)
      in bindE (halt_print io code halt_fmt (m_io M)) (\<lambda>st. Inr (M\<lparr>m_io := dev_out (outw io 0x604 0x2000) st\<rparr>)))"

definition call_main :: "'d ports \<Rightarrow> (u32 \<Rightarrow> 'd mach \<Rightarrow> (u32 \<times> 'd mach) res) \<Rightarrow> u32 \<Rightarrow> 'd mach \<Rightarrow> 'd mach res" where
  "call_main io main args M = bindE (main args M) (\<lambda>(r, M). halt io r M)"

section \<open>Multiprocessor extension\<close>

text \<open>
  What \<open>mpe_init\<close> on the boot processor and \<open>othercpu_entry\<close> on the others do between two accesses to shared memory.
  A step of the boot processor is one round of its loop up to the start-up interrupt, one \<open>xchg\<close> of its wait,
  or the call of the entry; a processor that was started runs \<open>_start_c\<close> and the per-processor initialisation,
  then announces itself with \<open>xchg\<close> and calls the entry.
\<close>

datatype boot_pc = Mpe_init u32 | Boot_loop nat | Boot_wait nat | Boot_user u32

datatype ap_pc = Ap_off | Ap_started | Ap_ready | Ap_announced | Ap_user u32 | Ap_lost

record mpe =
  boot_at :: boot_pc
  ap_at :: "nat \<Rightarrow> ap_pc"
  ap_ready :: int
  user_entry :: u32
  rec_jmp_code :: u32
  rec_is_ap :: int

definition xchg :: "int \<Rightarrow> mpe \<Rightarrow> int \<times> mpe" where
  "xchg v s = (ap_ready s, s\<lparr>ap_ready := v\<rparr>)"

fun boot_step_at :: "boot_pc \<Rightarrow> nat \<Rightarrow> mpe \<Rightarrow> mpe option" where
  "boot_step_at (Mpe_init entry) ncpu s = Some (s\<lparr>user_entry := entry, rec_jmp_code := 0x000bfde9, boot_at := Boot_loop 1\<rparr>)"
| "boot_step_at (Boot_loop cpu) ncpu s =
     (if cpu < ncpu then Some (s\<lparr>rec_is_ap := 1, ap_at := (ap_at s)(cpu := Ap_started), boot_at := Boot_wait cpu\<rparr>)
      else Some (s\<lparr>boot_at := Boot_user (user_entry s)\<rparr>))"
| "boot_step_at (Boot_wait cpu) ncpu s =
     (let (v, s) = xchg 0 s in Some (if v \<noteq> 1 then s else s\<lparr>boot_at := Boot_loop (cpu + 1)\<rparr>))"
| "boot_step_at (Boot_user entry) ncpu s = None"

definition boot_step :: "nat \<Rightarrow> mpe \<Rightarrow> mpe option" where
  "boot_step ncpu s = boot_step_at (boot_at s) ncpu s"

text \<open>A processor that finds the boot record of a boot processor would initialise the machine again.\<close>

fun ap_step_at :: "ap_pc \<Rightarrow> nat \<Rightarrow> mpe \<Rightarrow> mpe option" where
  "ap_step_at Ap_off cpu s = None"
| "ap_step_at Ap_started cpu s = Some (s\<lparr>ap_at := (ap_at s)(cpu := if rec_is_ap s \<noteq> 0 then Ap_ready else Ap_lost)\<rparr>)"
| "ap_step_at Ap_ready cpu s = (let (v, s) = xchg 1 s in Some (s\<lparr>ap_at := (ap_at s)(cpu := Ap_announced)\<rparr>))"
| "ap_step_at Ap_announced cpu s = Some (s\<lparr>ap_at := (ap_at s)(cpu := Ap_user (user_entry s))\<rparr>)"
| "ap_step_at (Ap_user entry) cpu s = None"
| "ap_step_at Ap_lost cpu s = None"

definition ap_step :: "nat \<Rightarrow> mpe \<Rightarrow> mpe option" where
  "ap_step cpu s = ap_step_at (ap_at s cpu) cpu s"

inductive mpe_step :: "nat \<Rightarrow> mpe \<Rightarrow> mpe \<Rightarrow> bool" for ncpu where
  Boot: "boot_step ncpu s = Some s' \<Longrightarrow> mpe_step ncpu s s'"
| Ap: "ap_step cpu s = Some s' \<Longrightarrow> mpe_step ncpu s s'"

inductive mpe_reach :: "nat \<Rightarrow> mpe \<Rightarrow> mpe \<Rightarrow> bool" for ncpu where
  Refl: "mpe_reach ncpu s s"
| Step: "mpe_reach ncpu s t \<Longrightarrow> mpe_step ncpu t u \<Longrightarrow> mpe_reach ncpu s u"

inductive_cases mpe_stepE: "mpe_step ncpu s s'"

definition mpe_start :: "u32 \<Rightarrow> mpe" where
  "mpe_start entry = \<lparr>boot_at = Mpe_init entry, ap_at = (\<lambda>_. Ap_off), ap_ready = 0, user_entry = 0, rec_jmp_code = 0, rec_is_ap = 0\<rparr>"

definition cpu_count :: "'d mach \<Rightarrow> nat" where
  "cpu_count M = m_ncpu M"

end
