(* ===== verification/Cte_Correct.thy ===== *)
theory Cte_Correct
  imports Cte Ioe_Correct
begin

text \<open>
  Interrupts and context switches: the frame the processor, the stubs and \<open>trap\<close> build, what the handler sees of
  it, and the registers with which \<open>__am_iret\<close> continues. The reasoning on memory is on words at offsets of
  one base address (\<open>frame_simps\<close>) and on the bytes outside a range (\<open>outside\<close>).
\<close>

section \<open>Words of a frame\<close>

lemma load_store_same [simp]: "load32 (store32 m a v) a = v"
  using mem_get_put [of "le_bytes 4 v" m a] by (simp add: load32_def store32_def le_word_le_bytes_full)

lemma store32_byte: "store32 m a v x = (if x - a < 4 then le_bytes 4 v ! unat (x - a) else m x)"
  unfolding store32_def by (subst mem_put_eq) (auto simp: word_less_nat_alt)

lemma load_store_other: "4 \<le> b - a \<Longrightarrow> 4 \<le> a - b \<Longrightarrow> load32 (store32 m a v) b = load32 m b"
proof (rule load32_frame)
  fix i :: nat assume b: "4 \<le> b - a" "4 \<le> a - b" and i: "i < 4"
  have "unat (b - a) + 4 \<le> 2 ^ 32" if "4 \<le> b - a" "4 \<le> a - b" for a b :: u32
    using that unsigned_less [of a, where ?'a = nat] unsigned_less [of b, where ?'a = nat]
    by (auto simp: word_le_nat_alt unat_sub_if' split: if_splits)
  from this [OF b] have "unat (b - a + of_nat i) = unat (b - a) + i" using i by (simp add: unat_word_ariths(1) unat_of_nat)
  then have "\<not> (b - a) + of_nat i < 4" using b(1) by (simp add: word_less_nat_alt word_le_nat_alt)
  then have "\<not> b + of_nat i - a < 4" by (simp only: diff_add_eq not_less)
  then show "store32 m a v (b + of_nat i) = m (b + of_nat i)" by (simp add: store32_byte)
qed

lemma load16_load32: "load16 m a = ucast (load32 m a)"
  by (rule bit_word_eqI) (auto simp: load16_def load32_def mem_get_def bit_le_word bit_simps nth_append)

text \<open>Addresses are offsets of one base; the two directions of a distance decide whether two words overlap.\<close>

lemma off_simps: "(B :: u32) + numeral a - numeral b = B + (numeral a - numeral b)"
  "B + numeral a + numeral b = B + (numeral a + numeral b)" "B - (B + k) = - k"
  by simp_all

lemmas frame_simps = load_store_other off_simps

lemma load32_put_off:
  assumes "j < length ws" "length ws < 2 ^ 28"
  shows "load32 (mem_put m a (words_bytes ws)) (a + of_nat (4 * j)) = ws ! j"
proof -
  have "mem_get (mem_put m a (words_bytes ws)) (a + of_nat (4 * j)) 4 = le_bytes 4 (ws ! j)"
  proof (rule nth_equalityI)
    fix i assume "i < length (mem_get (mem_put m a (words_bytes ws)) (a + of_nat (4 * j)) 4)"
    then have i: "i < 4" by simp
    have lt: "4 * j + i < 4 * length ws" using assms(1) i by linarith
    have "a + of_nat (4 * j) + of_nat i - a = of_nat (4 * j + i)" by simp
    moreover have "unat (of_nat (4 * j + i) :: u32) = 4 * j + i" using lt assms(2) by (simp add: unat_of_nat del: of_nat_add of_nat_mult)
    ultimately have "unat (a + of_nat (4 * j) + of_nat i - a) = 4 * j + i" by (simp only:)
    then show "mem_get (mem_put m a (words_bytes ws)) (a + of_nat (4 * j)) 4 ! i = le_bytes 4 (ws ! j) ! i"
      using i lt assms by (simp only: mem_get_def) (simp add: mem_put_eq nth_words_bytes)
  qed simp
  then show ?thesis by (simp add: load32_def le_word_le_bytes_full)
qed

definition outside :: "u32 \<Rightarrow> u32 \<Rightarrow> mem32 \<Rightarrow> mem32 \<Rightarrow> bool" where
  "outside B n m m' \<longleftrightarrow> (\<forall>x. n \<le> x - B \<longrightarrow> m' x = m x)"

lemma outside_refl [simp]: "outside B n m m"
  by (simp add: outside_def)

lemma outside_trans: "outside B n m m' \<Longrightarrow> outside B n m' m'' \<Longrightarrow> outside B n m m''"
  by (simp add: outside_def)

lemma outside_mono: "n \<le> n' \<Longrightarrow> outside B n m m' \<Longrightarrow> outside B n' m m'"
  unfolding outside_def by (meson order_trans)

lemma outside_sub:
  assumes "outside (B + k) n m m'" "unat k + unat n \<le> unat N"
  shows "outside B N m m'"
proof -
  have "n \<le> x - (B + k)" if x: "N \<le> x - B" for x
  proof -
    have l: "unat k + unat n \<le> unat (x - B)" using x assms(2) by (simp add: word_le_nat_alt)
    then have "unat ((x - B) - k) = unat (x - B) - unat k" by (simp only: unat_sub_if') simp
    then have "n \<le> (x - B) - k" using l by (simp add: word_le_nat_alt)
    then show ?thesis by (simp only: diff_diff_eq)
  qed
  then show ?thesis using assms(1) by (simp add: outside_def)
qed

lemma outside_store:
  assumes "k + 4 \<le> n" "k \<le> k + 4" and m: "outside B n m0 m"
  shows "outside B n m0 (store32 m (B + k) v)"
proof -
  have k: "unat (k + 4) = unat k + 4"
    using assms(2) unsigned_less [of k, where ?'a = nat] by (auto simp: word_le_nat_alt unat_word_ariths(1) mod_if split: if_splits)
  have "\<not> x - (B + k) < 4" if x: "n \<le> x - B" for x
  proof -
    have "unat (k + 4) \<le> unat (x - B)" using order_trans [OF assms(1) x] by (simp only: word_le_nat_alt)
    then have "unat k + 4 \<le> unat (x - B)" by (simp only: k)
    then have "unat ((x - B) - k) = unat (x - B) - unat k" by (simp only: unat_sub_if') simp
    then have "\<not> (x - B) - k < 4" using \<open>unat k + 4 \<le> _\<close> by (simp add: word_less_nat_alt)
    then show ?thesis by (simp only: diff_diff_eq not_less)
  qed
  then show ?thesis using m by (auto simp: outside_def store32_byte)
qed

lemmas outside_stores = outside_store outside_store [of 0, simplified]

section \<open>Entry\<close>

text \<open>A stub: the error code when the processor pushed none, the vector, and the common part.\<close>

definition stub_frame :: "u32 \<Rightarrow> bool \<Rightarrow> regs32 \<times> mem32 \<Rightarrow> regs32 \<times> mem32" where
  "stub_frame irq e s = trap (push32 irq (if e then set_regs cli s else push32 0 (set_regs cli s)))"

lemma stubs: "am_irq n e s = stub_frame (of_nat n) e s" "am_irqall s = stub_frame (- 1) False s"
  by (simp_all add: am_irq_def am_irqall_def stub_frame_def Let_def)

definition frame_base :: "TSS32 \<Rightarrow> regs32 \<Rightarrow> u32" where
  "frame_base tss r = (if CPL r \<noteq> 0 then tss_esp0 tss - 88 else esp r - 80)"

definition frame_size :: "regs32 \<Rightarrow> u32" where
  "frame_size r = (if CPL r \<noteq> 0 then 88 else 80)"

text \<open>What the frame at \<open>B\<close> records of the interrupted registers.\<close>

definition frame_of :: "u32 \<Rightarrow> regs32 \<Rightarrow> u32 \<Rightarrow> u32 \<Rightarrow> mem32 \<Rightarrow> bool" where
  "frame_of B r irq errcode m \<longleftrightarrow>
     load32 m (B + 4) = (eax r AND 0xffff0000) OR ucast (ds_reg r) \<and> load32 m (B + 8) = eax r \<and> load32 m (B + 12) = ebx r \<and>
     load32 m (B + 16) = ecx r \<and> load32 m (B + 20) = edx r \<and> load32 m (B + 28) = esi r \<and> load32 m (B + 32) = edi r \<and>
     load32 m (B + 36) = ebp r \<and> load32 m (B + 60) = irq \<and> load32 m (B + 64) = errcode \<and> load32 m (B + 68) = eip r \<and>
     load32 m (B + 72) = ucast (cs_reg r) \<and> load32 m (B + 76) = eflags r \<and>
     (if CPL r \<noteq> 0 then load32 m (B + 80) = esp r \<and> load32 m (B + 84) = ucast (ss_reg r) else B + 80 = esp r)"

definition errcode_of :: "u32 option \<Rightarrow> u32" where
  "errcode_of err = (case err of None \<Rightarrow> 0 | Some e \<Rightarrow> e)"

text \<open>The frame built by the processor, a stub and \<open>trap\<close>, from kernel and from user mode.\<close>

lemma entry_frame:
  assumes s: "stub_frame irq e (hw_interrupt tss g err (r, m)) = (r', m')" and e: "e \<longleftrightarrow> err \<noteq> None"
  defines "B \<equiv> frame_base tss r"
  shows "frame_of B r irq (errcode_of err) m' \<and> outside B (frame_size r) m m' \<and> esp r' = B \<and> cs_reg r' = gd_cs g \<and>
    cr2 r' = cr2 r \<and> cr3 r' = cr3 r \<and> gdtr r' = gdtr r \<and> idtr r' = idtr r \<and> tr r' = tr r \<and> ss_reg r' = ucast (KSEL SEG_KDATA)"
proof (cases "CPL r = 0")
  case True
  then have "esp r = B + 80" by (simp add: B_def frame_base_def)
  then show ?thesis
    using s e True
    by (cases err) (auto simp: stub_frame_def trap_def hw_interrupt_def Let_def cli_def frame_simps frame_of_def outside_stores frame_size_def errcode_of_def)
next
  case False
  then have "tss_esp0 tss = B + 88" by (simp add: B_def frame_base_def)
  then show ?thesis
    using s e False
    by (cases err) (auto simp: stub_frame_def trap_def hw_interrupt_def Let_def cli_def frame_simps frame_of_def outside_stores frame_size_def errcode_of_def)
qed

section \<open>Exit\<close>

lemma unat_of_quad: "4 * n < 2 ^ 32 \<Longrightarrow> unat (of_nat (4 * n) :: u32) = 4 * n"
  by (simp add: unat_of_nat del: of_nat_mult)

lemma copy_down_other:
  assumes "4 * n \<le> unat (x - t)"
  shows "copy_down n s t m x = m x"
  using assms
proof (induction n arbitrary: m)
  case (Suc n)
  have "unat (of_nat (4 * n) :: u32) = 4 * n"
    using Suc.prems unsigned_less [of "x - t", where ?'a = nat] by (intro unat_of_quad) simp
  then have "unat (x - t - of_nat (4 * n)) = unat (x - t) - 4 * n" using Suc.prems by (simp only: unat_sub_if') simp
  then have "\<not> x - t - of_nat (4 * n) < 4" using Suc.prems by (simp add: word_less_nat_alt)
  then have "\<not> x - (t + of_nat (4 * n)) < 4" by (simp only: diff_diff_eq not_less)
  then show ?case using Suc by (simp add: store32_byte)
qed simp

text \<open>The copy may overlap its source from above, as it runs from the top down.\<close>

lemma copy_down_load:
  assumes "unat (t - s) + 4 * N \<le> 2 ^ 32" "n \<le> N" "N < 2 ^ 28" "k < n"
  shows "load32 (copy_down n s t m) (t + of_nat (4 * k)) = load32 m (s + of_nat (4 * k))"
  using assms(2,4)
proof (induction n arbitrary: m)
  case (Suc n)
  let ?m = "store32 m (t + of_nat (4 * n)) (load32 m (s + of_nat (4 * n)))"
  show ?case
  proof (cases "k = n")
    case True
    have "load32 (copy_down n s t ?m) (t + of_nat (4 * n)) = load32 ?m (t + of_nat (4 * n))"
    proof (rule load32_frame)
      fix i :: nat assume "i < 4"
      then have "unat (t + of_nat (4 * n) + of_nat i - t) = 4 * n + i"
        using Suc.prems(1) assms(3) by (simp add: unat_word_ariths(1,2) unat_of_nat)
      then show "copy_down n s t ?m (t + of_nat (4 * n) + of_nat i) = ?m (t + of_nat (4 * n) + of_nat i)"
        by (intro copy_down_other) linarith
    qed
    then show ?thesis using True by simp
  next
    case False
    then have k: "k < n" using Suc.prems by simp
    have "of_nat (4 * n) = of_nat (4 * (n - k)) + (of_nat (4 * k) :: u32)" using k by (simp flip: of_nat_add)
    then have d: "t + of_nat (4 * n) - (s + of_nat (4 * k)) = (t - s) + of_nat (4 * (n - k))" by (simp add: algebra_simps)
    have u: "unat (t - s + of_nat (4 * (n - k))) = unat (t - s) + 4 * (n - k)"
    proof -
      have "unat (of_nat (4 * (n - k)) :: u32) = 4 * (n - k)" using Suc.prems(1) assms(3) by (intro unat_of_quad) simp
      moreover have "unat (t - s) + 4 * (n - k) < 2 ^ 32" using assms(1,3) Suc.prems k by linarith
      ultimately show ?thesis by (simp only: unat_word_ariths(1)) simp
    qed
    have "4 \<le> t + of_nat (4 * n) - (s + of_nat (4 * k))" unfolding d using u k by (simp add: word_le_nat_alt)
    moreover have "4 \<le> s + of_nat (4 * k) - (t + of_nat (4 * n))"
    proof -
      have "4 \<le> - y" if "4 \<le> unat y" "unat y \<le> 2 ^ 32 - 4" for y :: u32
        using that unat_sub_if' [of 0 y] by (simp add: word_le_nat_alt split: if_splits)
      from this [of "t - s + of_nat (4 * (n - k))"] have "4 \<le> - (t - s + of_nat (4 * (n - k)))"
        using u k assms(1,3) Suc.prems by linarith
      then show ?thesis unfolding d [symmetric] by simp
    qed
    ultimately have "load32 ?m (s + of_nat (4 * k)) = load32 m (s + of_nat (4 * k))" by (intro load_store_other)
    then show ?thesis using Suc.IH [of ?m] Suc.prems(1) k by simp
  qed
qed simp

text \<open>The processor after \<open>__am_iret\<close> to a context; \<open>es\<close> gets the selector of \<open>ds\<close>.\<close>

definition resumed :: "Context \<Rightarrow> regs32 \<Rightarrow> regs32" where
  "resumed c r = r\<lparr>eax := c_eax c, ebx := c_ebx c, ecx := c_ecx c, edx := c_edx c, esi := c_esi c, edi := c_edi c, ebp := c_ebp c,
     esp := c_esp c, eip := c_eip c, eflags := c_eflags c, cs_reg := ucast (c_cs c), ds_reg := ucast (c_ds c), es_reg := ucast (c_ds c),
     ss_reg := (if ucast (c_cs c) AND (3 :: u16) \<noteq> 0 then ucast (c_ss3 c) else ss_reg r)\<rparr>"

text \<open>
  A context to which \<open>__am_iret\<close> can return: a user context, or a kernel context whose stack pointer does
  not lie so close above the saved words that the copy of the frame would overwrite them first.
\<close>

definition returnable :: "u32 \<Rightarrow> Context \<Rightarrow> bool" where
  "returnable a c \<longleftrightarrow> (ucast (c_cs c) :: u16) = ucast (USEL SEG_UCODE) \<or>
     (ucast (c_cs c) :: u16) = ucast (KSEL SEG_KCODE) \<and> unat (c_esp c - 24 - (a + 28)) + 24 \<le> 2 ^ 32"

lemma selectors:
  "KSEL SEG_KCODE = 8" "KSEL SEG_KDATA = 16" "USEL SEG_UCODE = 27" "USEL SEG_UDATA = 35" "KSEL SEG_TSS = 40"
  by (simp_all add: KSEL_def USEL_def SEG_KCODE_def SEG_KDATA_def SEG_UCODE_def SEG_UDATA_def SEG_TSS_def DPL_KERN_def DPL_USER_def)

definition touched :: "Context \<Rightarrow> mem32 \<Rightarrow> mem32 \<Rightarrow> bool" where
  "touched c m m' \<longleftrightarrow> (if (ucast (c_cs c) :: u16) = ucast (USEL SEG_UCODE) then m' = m else outside (c_esp c - 24) 24 m m')"

lemma am_iret_resumes:
  assumes c: "c = ctx_at m a" "returnable a c" and r: "CPL r = 0"
  shows "\<exists>m'. am_iret a (r, m) = (resumed c r, m') \<and> touched c m m'"
proof (cases "(ucast (c_cs c) :: u16) = ucast (KSEL SEG_KCODE)")
  case True
  then have k: "ucast (load32 m (a + 44)) = (8 :: u16)" and cp: "unat (c_esp c - 24 - (a + 28)) + 4 * 6 \<le> 2 ^ 32"
    using c by (auto simp: ctx_at_def selectors returnable_def)
  let ?t = "c_esp c - 24" and ?m = "copy_down 6 (a + 28) (c_esp c - 24) m"
  have l: "load32 ?m ?t = c_esi c" "load32 ?m (?t + 4) = c_edi c" "load32 ?m (?t + 8) = c_ebp c" "load32 ?m (?t + 12) = c_eip c"
    "load32 ?m (?t + 16) = c_cs c" "load32 ?m (?t + 20) = c_eflags c"
    using copy_down_load [OF cp, of 6 0 m] copy_down_load [OF cp, of 6 1 m] copy_down_load [OF cp, of 6 2 m] copy_down_load [OF cp, of 6 3 m]
      copy_down_load [OF cp, of 6 4 m] copy_down_load [OF cp, of 6 5 m]
    by (simp_all add: c(1) ctx_at_def off_simps)
  have "copy_down 6 (a + 28) ?t m x = m x" if "24 \<le> x - ?t" for x
    using that by (intro copy_down_other) (simp add: word_le_nat_alt)
  then have o: "outside ?t 24 m ?m" by (simp add: outside_def)
  have "am_iret a (r, m) = (resumed c r, ?m)"
    using l k c(1) r
    by (simp add: am_iret_def Let_def off_simps load16_load32 selectors kernel_iret_def hw_iret_def CPL_def resumed_def ctx_at_def)
  then show ?thesis using o True by (simp add: touched_def selectors)
next
  case False
  then have k: "ucast (load32 m (a + 44)) = (27 :: u16)" "ucast (c_cs c) = (27 :: u16)"
    using c by (auto simp: ctx_at_def selectors returnable_def)
  have "am_iret a (r, m) = (resumed c r, m)"
    using k c(1) r
    by (simp add: am_iret_def Let_def off_simps load16_load32 selectors user_iret_def hw_iret_def CPL_def resumed_def ctx_at_def)
  then show ?thesis using k by (simp add: touched_def selectors)
qed

section \<open>Dispatch\<close>

text \<open>What a handler sees of the interrupted registers; the upper half of \<open>ds\<close> is what \<open>eax\<close> held.\<close>

definition saved_ctx :: "TSS32 \<Rightarrow> regs32 \<Rightarrow> Context" where
  "saved_ctx tss r =
     \<lparr>c_cr3 = cr3 r, c_ds = (eax r AND 0xffff0000) OR ucast (ds_reg r), c_eax = eax r, c_ebx = ebx r, c_ecx = ecx r, c_edx = edx r,
      c_esp0 = tss_esp0 tss, c_esi = esi r, c_edi = edi r, c_ebp = ebp r, c_eip = eip r, c_cs = ucast (cs_reg r), c_eflags = eflags r,
      c_esp = esp r, c_ss3 = USEL SEG_UDATA\<rparr>"

definition switch_cr3 :: "Context \<Rightarrow> regs32 \<Rightarrow> regs32" where
  "switch_cr3 c r = (if c_cr3 c \<noteq> 0 then r\<lparr>cr3 := c_cr3 c\<rparr> else r)"

definition switch_tss :: "Context \<Rightarrow> TSS32 \<Rightarrow> TSS32" where
  "switch_tss c t = (if c_cr3 c \<noteq> 0 then t\<lparr>tss_ss0 := KSEL SEG_KDATA, tss_esp0 := c_esp0 c\<rparr> else t)"

lemma eoi_dev: "\<exists>d. am_lapic_eoi io st = st\<lparr>i_dev := d\<rparr>"
proof (cases "lapic_at st = 0")
  case True
  then have "am_lapic_eoi io st = st\<lparr>i_dev := i_dev st\<rparr>" by (simp add: am_lapic_eoi_def)
  then show ?thesis by blast
next
  case False
  then show ?thesis by (simp add: am_lapic_eoi_def lapicw_def lapic_read_def dev_in_def dev_out_def Let_def split: prod.splits) blast
qed

lemma user_bit: "ucast (x :: u16) AND (3 :: u32) = 0 \<longleftrightarrow> x AND 3 = 0"
proof -
  have "ucast x AND (3 :: u32) = ucast (x AND 3)" by (rule bit_word_eqI) (auto simp: bit_simps dest: bit_imp_le_length)
  moreover have "ucast (ucast y :: u32) = y" for y :: u16 by (rule bit_word_eqI) (auto simp: bit_simps)
  ultimately show ?thesis by (metis ucast_0)
qed

text \<open>Returning to the context that was interrupted.\<close>

definition well_segmented :: "regs32 \<Rightarrow> bool" where
  "well_segmented r \<longleftrightarrow> es_reg r = ds_reg r \<and>
     (cs_reg r = ucast (KSEL SEG_KCODE) \<and> ss_reg r = ucast (KSEL SEG_KDATA) \<or> cs_reg r = ucast (USEL SEG_UCODE) \<and> ss_reg r = ucast (USEL SEG_UDATA))"

lemma low_half: "ucast ((x AND 0xffff0000) OR ucast y :: u32) = (y :: u16)"
proof -
  have e: "(0xffff0000 :: u32) = push_bit 16 (mask 16)" by (simp add: mask_eq_exp_minus_1 push_bit_eq_mult)
  have "\<not> bit (0xffff0000 :: u32) n" if "n < 16" for n using that unfolding e by (simp only: bit_push_bit_iff) simp
  then show ?thesis by (intro bit_word_eqI) (auto simp: bit_simps)
qed

lemma resumed_saved:
  assumes "well_segmented r" "CPL r' = 0" "cr2 r' = cr2 r" "cr3 r' = cr3 r" "gdtr r' = gdtr r" "idtr r' = idtr r" "tr r' = tr r" "ss_reg r' = ucast (KSEL SEG_KDATA)"
  shows "resumed (saved_ctx tss r) (switch_cr3 (saved_ctx tss r) r') = r"
proof -
  have "ucast (ucast (cs_reg r) :: u32) = cs_reg r" by (rule bit_word_eqI) (auto simp: bit_simps)
  then show ?thesis
    using assms by (intro regs32.equality) (auto simp: resumed_def saved_ctx_def switch_cr3_def low_half well_segmented_def selectors)
qed

lemma saved_returnable:
  assumes "well_segmented r"
  shows "returnable (frame_base tss r) (saved_ctx tss r)"
proof -
  have c: "ucast (ucast (cs_reg r) :: u32) = cs_reg r" by (rule bit_word_eqI) (auto simp: bit_simps)
  show ?thesis
  proof (cases "cs_reg r = ucast (USEL SEG_UCODE)")
    case False
    then have k: "cs_reg r = ucast (KSEL SEG_KCODE)" using assms by (auto simp: well_segmented_def)
    then have "CPL r = 0" by (simp add: CPL_def selectors)
    then have "esp r = frame_base tss r + 80" by (simp add: frame_base_def)
    then show ?thesis using k c by (simp add: returnable_def saved_ctx_def)
  qed (use c in \<open>simp add: returnable_def saved_ctx_def\<close>)
qed

lemma touched_saved:
  assumes "well_segmented r" "touched (saved_ctx tss r) m m'"
  shows "outside (frame_base tss r) (frame_size r) m m'"
proof (cases "cs_reg r = ucast (USEL SEG_UCODE)")
  case True
  then show ?thesis using assms(2) by (simp add: touched_def saved_ctx_def selectors)
next
  case False
  then have k: "cs_reg r = 8" using assms(1) by (auto simp: well_segmented_def selectors)
  then have c: "CPL r = 0" by (simp add: CPL_def)
  have e: "esp r - 24 = frame_base tss r + 56" using c by (simp add: frame_base_def)
  have "outside (esp r - 24) 24 m m'" using assms(2) k by (simp add: touched_def saved_ctx_def selectors)
  then have "outside (frame_base tss r) 80 m m'" unfolding e by (rule outside_sub) simp
  then show ?thesis using c by (simp add: frame_size_def)
qed

section \<open>Gates\<close>

lemma gate_off_GATE32 [simp]: "gate_off (GATE32 t c e dpl) = e"
proof -
  have "(0xffff :: u32) = mask 16" by (simp add: mask_eq_exp_minus_1)
  then have "e AND 0xffff = take_bit 16 e" by (simp only: take_bit_eq_mask)
  then show ?thesis
    unfolding gate_off_def GATE32_def by (simp, intro bit_word_eqI) (auto simp: bit_simps not_less)
qed

lemma gate_fields [simp]: "gd_cs (GATE32 t c e dpl) = ucast c" "gd_dpl (GATE32 t c e dpl) = of_nat dpl"
  by (simp_all add: GATE32_def)

text \<open>A table filled from the list \<open>IRQS\<close>, as the macro \<open>IRQS(IDT_ENTRY)\<close> does.\<close>

lemma idt_entries:
  assumes "distinct (map fst xs)" "\<forall>x\<in>set xs. fst x < length gates"
  shows "length (foldl (\<lambda>g (n, dpl, err). g[n := F n dpl]) gates xs) = length gates \<and>
    (\<forall>v. foldl (\<lambda>g (n, dpl, err). g[n := F n dpl]) gates xs ! v =
       (case map_of xs v of Some (dpl, err) \<Rightarrow> F v dpl | None \<Rightarrow> gates ! v))"
  using assms
proof (induction xs arbitrary: gates)
  case (Cons x xs)
  obtain n dpl err where x: "x = (n, dpl, err)" by (cases x)
  have "map_of xs n = None" using Cons.prems(1) x by (auto simp: map_of_eq_None_iff)
  then show ?case
    using Cons.IH [of "gates[n := F n dpl]"] Cons.prems x by (auto simp: nth_list_update split: option.splits)
qed simp

lemma IRQS_distinct: "distinct (map fst IRQS)"
  by (simp add: IRQS_def)

lemma IRQS_bound: "\<forall>x\<in>set IRQS. fst x < NR_IRQ"
  by (simp add: IRQS_def NR_IRQ_def)

lemma IRQS_cases:
  assumes "map_of IRQS v = Some (dpl, err)"
  shows "(err \<longleftrightarrow> v \<in> {8, 10, 11, 12, 13, 14}) \<and> dpl = (if v \<in> {128, 129} then DPL_USER else DPL_KERN) \<and> v < NR_IRQ"
proof -
  have "\<forall>(n, dpl, err) \<in> set IRQS. (err \<longleftrightarrow> n \<in> {8, 10, 11, 12, 13, 14}) \<and> dpl = (if n \<in> {128, 129} then DPL_USER else DPL_KERN) \<and> n < NR_IRQ"
    by (simp add: IRQS_def NR_IRQ_def)
  then show ?thesis using map_of_SomeD [OF assms] by fastforce
qed

text \<open>The gate of a vector, and the number its stub puts into the frame.\<close>

definition stub_number :: "nat \<Rightarrow> u32" where
  "stub_number v = (if v \<in> fst ` set IRQS then of_nat v else - 1)"

lemma irq_table:
  assumes "v < NR_IRQ"
  shows "foldl (\<lambda>g (n, dpl, err). g[n := F n dpl]) (replicate NR_IRQ G) IRQS ! v =
    (if v \<in> fst ` set IRQS then F v (if v \<in> {128, 129} then DPL_USER else DPL_KERN) else G)"
proof -
  have *: "foldl (\<lambda>g (n, dpl, err). g[n := F n dpl]) (replicate NR_IRQ G) IRQS ! v =
      (case map_of IRQS v of Some (dpl, err) \<Rightarrow> F v dpl | None \<Rightarrow> replicate NR_IRQ G ! v)"
    using idt_entries [of IRQS "replicate NR_IRQ G" F] IRQS_distinct IRQS_bound by simp
  show ?thesis
  proof (cases "map_of IRQS v")
    case None
    then have "v \<notin> fst ` set IRQS" by (simp add: map_of_eq_None_iff)
    then show ?thesis using None * assms by simp
  next
    case (Some x)
    then have "v \<in> fst ` set IRQS" by (metis map_of_eq_None_iff option.distinct(1))
    then show ?thesis using Some * IRQS_cases [of v "fst x" "snd x"] by (simp add: split_beta)
  qed
qed

lemma irq_table_length: "length (foldl (\<lambda>g (n, dpl, err). g[n := F n dpl]) (replicate NR_IRQ G) IRQS) = NR_IRQ"
  using idt_entries [of IRQS "replicate NR_IRQ G" F] IRQS_distinct IRQS_bound by simp

lemma cte_idt_fold:
  "cte_idt ld = foldl (\<lambda>g (n, dpl, err). g[n := GATE32 STS_TG (KSEL SEG_KCODE) (s_irq ld n) dpl])
     (replicate NR_IRQ (GATE32 STS_TG (KSEL SEG_KCODE) (s_irqall ld) DPL_KERN)) IRQS"
  unfolding cte_idt_def IDT_ENTRY_def ..

lemma cte_idt_nth:
  assumes "v < NR_IRQ"
  shows "cte_idt ld ! v = GATE32 STS_TG (KSEL SEG_KCODE) (if v \<in> fst ` set IRQS then s_irq ld v else s_irqall ld)
     (if v \<in> {128, 129} then DPL_USER else DPL_KERN)"
proof -
  have "v \<notin> fst ` set IRQS \<Longrightarrow> v \<notin> {128, 129}" by (auto simp: IRQS_def)
  then show ?thesis unfolding cte_idt_fold irq_table [OF assms] by auto
qed

lemma length_cte_idt: "length (cte_idt ld) = NR_IRQ"
  unfolding cte_idt_fold by (rule irq_table_length)

text \<open>The linker gives different functions different addresses.\<close>

definition symbols_ok :: "symbols \<Rightarrow> bool" where
  "symbols_ok ld \<longleftrightarrow> inj_on (s_irq ld) (fst ` set IRQS) \<and> s_irqall ld \<notin> s_irq ld ` fst ` set IRQS"

lemma find_symbol:
  assumes "inj_on f (fst ` set xs)" "distinct (map fst xs)" "v \<in> fst ` set xs"
  shows "find (\<lambda>(n, dpl, err). f n = f v) xs = Some (v, the (map_of xs v))"
  using assms
proof (induction xs)
  case (Cons x xs)
  then show ?case
    by (cases x) (auto simp: inj_on_def split_beta)
qed simp

definition with_errcode :: "nat \<Rightarrow> bool" where
  "with_errcode v \<longleftrightarrow> v \<in> {8, 10, 11, 12, 13, 14}"

lemma run_stub_ok:
  assumes "symbols_ok ld" "v < NR_IRQ"
  shows "run_stub ld (gate_off (cte_idt ld ! v)) s = Inr (stub_frame (stub_number v) (with_errcode v) s)"
proof (cases "v \<in> fst ` set IRQS")
  case True
  then obtain dpl e where m: "map_of IRQS v = Some (dpl, e)" by (metis map_of_eq_None_iff not_None_eq surj_pair)
  then show ?thesis
    using True assms find_symbol [of "s_irq ld" IRQS v] IRQS_distinct IRQS_cases [OF m]
    by (simp add: run_stub_def cte_idt_nth symbols_ok_def stubs stub_number_def with_errcode_def)
next
  case False
  have "find (\<lambda>(n, dpl, err). s_irq ld n = s_irqall ld) IRQS = None"
    using assms(1) by (force simp: find_None_iff symbols_ok_def image_iff)
  moreover have "\<not> with_errcode v" using False by (auto simp: with_errcode_def IRQS_def)
  ultimately show ?thesis using False assms by (simp add: run_stub_def cte_idt_nth stubs stub_number_def)
qed

text \<open>The law of the local APIC on which \<open>cpu_current\<close> rests: its identification register holds the number of the processor.\<close>

locale local_apic =
  fixes io :: "'d ports" and lapic :: u32 and cpu :: nat
  assumes apic_id: "drop_bit 24 (fst (mmio_in io (lapic + 0x20) d)) = of_nat cpu"
    and cpu_lt: "cpu < MAX_CPU"
begin

lemma this_cpu_ok:
  assumes "lapic_at (m_io M) = lapic" "length (m_cpuinfo M) = MAX_CPU"
  shows "\<exists>d. this_cpu io M = Inr (cpu, M\<lparr>m_io := (m_io M)\<lparr>i_dev := d\<rparr>\<rparr>)"
proof -
  obtain v d where v: "mmio_in io (lapic + 0x20) (i_dev (m_io M)) = (v, d)" by fastforce
  then have "drop_bit 24 v = of_nat cpu" using apic_id [of "i_dev (m_io M)"] by simp
  moreover have "unat (of_nat cpu :: u32) = cpu" using cpu_lt by (simp add: MAX_CPU_def unat_of_nat)
  ultimately show ?thesis
    using v assms cpu_lt by (auto simp: this_cpu_def cpu_current_def lapic_read_def dev_in_def)
qed

lemma irq_return_ok:
  assumes "a \<noteq> 0" and c: "c = ctx_at (mem_of M) a" "returnable a c" and r: "CPL (m_regs M) = 0"
    and M: "lapic_at (m_io M) = lapic" "length (m_cpuinfo M) = MAX_CPU"
  shows "\<exists>d m'. irq_return io a M = Inr (set_tss cpu (switch_tss c)
      (M\<lparr>m_regs := resumed c (switch_cr3 c (m_regs M)), m_io := (m_io M)\<lparr>i_mem := m', i_dev := d\<rparr>\<rparr>)) \<and> touched c (mem_of M) m'"
proof -
  let ?r = "switch_cr3 c (m_regs M)"
  have r': "CPL ?r = 0" using r by (simp add: switch_cr3_def CPL_def)
  from am_iret_resumes [OF c r'] obtain m' where m': "am_iret a (?r, mem_of M) = (resumed c ?r, m')" "touched c (mem_of M) m'" by blast
  show ?thesis
  proof (cases "c_cr3 c = 0")
    case True
    then have "irq_return io a M = Inr (set_mem m' (M\<lparr>m_regs := resumed c ?r\<rparr>))"
      using assms(1) m'(1) c(1) by (simp add: irq_return_def panic_on_def ctx_at_def switch_cr3_def)
    moreover have "set_mem m' (M\<lparr>m_regs := resumed c ?r\<rparr>) = set_tss cpu (switch_tss c)
      (M\<lparr>m_regs := resumed c ?r, m_io := (m_io M)\<lparr>i_mem := m', i_dev := i_dev (m_io M)\<rparr>\<rparr>)"
      using True by (simp add: set_mem_def set_tss_def switch_tss_def)
    ultimately have "irq_return io a M = Inr (set_tss cpu (switch_tss c)
      (M\<lparr>m_regs := resumed c ?r, m_io := (m_io M)\<lparr>i_mem := m', i_dev := i_dev (m_io M)\<rparr>\<rparr>))" by (simp only:)
    then show ?thesis using m'(2) by blast
  next
    case False
    let ?M = "M\<lparr>m_regs := ?r\<rparr>"
    from this_cpu_ok [of ?M] M obtain d where d: "this_cpu io ?M = Inr (cpu, ?M\<lparr>m_io := (m_io M)\<lparr>i_dev := d\<rparr>\<rparr>)" by auto
    let ?M1 = "set_tss cpu (\<lambda>t. t\<lparr>tss_ss0 := KSEL SEG_KDATA\<rparr>) (?M\<lparr>m_io := (m_io M)\<lparr>i_dev := d\<rparr>\<rparr>)"
    from this_cpu_ok [of ?M1] M obtain d' where d': "this_cpu io ?M1 = Inr (cpu, ?M1\<lparr>m_io := (m_io M)\<lparr>i_dev := d'\<rparr>\<rparr>)"
      by (auto simp: set_tss_def)
    have "irq_return io a M = Inr (set_tss cpu (switch_tss c)
      (M\<lparr>m_regs := resumed c ?r, m_io := (m_io M)\<lparr>i_mem := m', i_dev := d'\<rparr>\<rparr>))"
    proof -
      have l: "load32 (mem_of M) a = c_cr3 c" "load32 (mem_of M) (a + 24) = c_esp0 c" using c(1) by (simp_all add: ctx_at_def)
      have "irq_return io a M = Inr (set_mem m' ((set_tss cpu (\<lambda>t. t\<lparr>tss_esp0 := c_esp0 c\<rparr>) (?M1\<lparr>m_io := (m_io M)\<lparr>i_dev := d'\<rparr>\<rparr>))\<lparr>m_regs := resumed c ?r\<rparr>))"
        using False assms(1) m'(1) d d' by (simp add: irq_return_def panic_on_def l switch_cr3_def) (simp add: set_tss_def l)
      then show ?thesis
        using False M(2) cpu_lt by (auto simp: set_mem_def set_tss_def switch_tss_def intro!: mach.equality)
    qed
    then show ?thesis using m'(2) by blast
  qed
qed

lemma irq_handle_calls:
  assumes f: "frame_of B r irq errcode (mem_of M)" and r: "cr2 (m_regs M) = cr2 r" "cr3 (m_regs M) = cr3 r" and h: "user_handler M \<noteq> 0"
    and M: "lapic_at (m_io M) = lapic" "length (m_cpuinfo M) = MAX_CPU"
  shows "\<exists>m d. let st = (m_io M)\<lparr>i_mem := m, i_dev := d\<rparr> in
    am_irq_handle io call B M = (case call (user_handler M) (irq_event irq errcode (cr2 r)) B st of (ret, st) \<Rightarrow> irq_return io ret (M\<lparr>m_io := st\<rparr>)) \<and>
    ctx_at m B = saved_ctx (cl_tss (m_cpuinfo M ! cpu)) r \<and> outside B 60 (mem_of M) m"
proof -
  let ?esp0 = "tss_esp0 (cl_tss (m_cpuinfo M ! cpu))"
  define m1 where "m1 = store32 (store32 (store32 (mem_of M) (B + 40) (eip r)) (B + 44) (ucast (cs_reg r))) (B + 48) (eflags r)"
  define m where "m = store32 (store32 (store32 (store32 m1 (B + 24) ?esp0) (B + 56) (USEL SEG_UDATA)) (B + 52) (esp r)) B (cr3 r)"
  have m1: "save_pc B (mem_of M) = m1" using f unfolding save_pc_def m1_def by (simp add: Let_def frame_simps frame_of_def)
  have l1: "load32 m1 (B + 72) = ucast (cs_reg r)" "load32 m1 (B + 80) = load32 (mem_of M) (B + 80)"
    using f unfolding m1_def by (simp_all add: frame_simps frame_of_def)
  have "CPL r = 0 \<longleftrightarrow> ucast (cs_reg r) AND (3 :: u32) = 0" unfolding user_bit by (simp add: CPL_def)
  then have m: "save_stacks B ?esp0 (cr3 r) m1 = m"
    using f unfolding m_def save_stacks_def by (cases "CPL r = 0") (simp_all add: Let_def DPL_USER_def frame_simps l1 frame_of_def)
  have l: "load32 m (B + 60) = irq" "load32 m (B + 64) = errcode" using f unfolding m_def m1_def by (simp_all add: frame_simps frame_of_def)
  from this_cpu_ok [of "set_mem m1 M"] M obtain d
    where d: "this_cpu io (set_mem m1 M) = Inr (cpu, M\<lparr>m_io := (m_io M)\<lparr>i_mem := m1, i_dev := d\<rparr>\<rparr>)"
    by (auto simp: set_mem_def)
  let ?st = "(m_io M)\<lparr>i_mem := m1, i_dev := d, i_mem := m\<rparr>"
  obtain d' where d': "am_lapic_eoi io ?st = ?st\<lparr>i_dev := d'\<rparr>" using eoi_dev [of io ?st] by auto
  define st where "st = (if 32 \<le> irq \<and> irq < 64 then ?st\<lparr>i_dev := d'\<rparr> else ?st)"
  have "am_irq_handle io call B M = (case call (user_handler M) (irq_event irq errcode (cr2 r)) B st of (ret, st) \<Rightarrow> irq_return io ret (M\<lparr>m_io := st\<rparr>))"
    unfolding am_irq_handle_def m1 d using h d' by (cases "32 \<le> irq \<and> irq < 64") (simp_all add: r m l Let_def T_IRQ0_def st_def, blast)
  moreover have "ctx_at m B = saved_ctx (cl_tss (m_cpuinfo M ! cpu)) r"
    using f unfolding m_def m1_def by (simp add: ctx_at_def saved_ctx_def frame_of_def frame_simps)
  moreover have "outside B 60 (mem_of M) m"
    unfolding m_def m1_def by (simp add: outside_stores)
  moreover have "\<exists>d. st = (m_io M)\<lparr>i_mem := m, i_dev := d\<rparr>"
  proof -
    have "?st = (m_io M)\<lparr>i_mem := m, i_dev := d\<rparr>" by (rule ioe.equality) simp_all
    then have "st = (m_io M)\<lparr>i_mem := m, i_dev := d'\<rparr> \<or> st = (m_io M)\<lparr>i_mem := m, i_dev := d\<rparr>" unfolding st_def by auto
    then show ?thesis by blast
  qed
  ultimately show ?thesis unfolding Let_def by metis
qed

text \<open>From the arrival of an interrupt to the call of the handler.\<close>

lemma interrupt_calls:
  assumes M: "lapic_at (m_io M) = lapic" "length (m_cpuinfo M) = MAX_CPU" "m_idt M = cte_idt ld" "user_handler M \<noteq> 0"
    and ld: "symbols_ok ld" and v: "v < NR_IRQ" "err \<noteq> None \<longleftrightarrow> with_errcode v"
  defines "B \<equiv> frame_base (cl_tss (m_cpuinfo M ! cpu)) (m_regs M)" and "r \<equiv> m_regs M"
  shows "\<exists>m d r'. let st = (m_io M)\<lparr>i_mem := m, i_dev := d\<rparr> in
    interrupt io call ld cpu v err M =
      (case call (user_handler M) (irq_event (stub_number v) (errcode_of err) (cr2 r)) B st of (ret, st) \<Rightarrow> irq_return io ret (M\<lparr>m_regs := r', m_io := st\<rparr>)) \<and>
    ctx_at m B = saved_ctx (cl_tss (m_cpuinfo M ! cpu)) r \<and> outside B (frame_size r) (mem_of M) m \<and>
    CPL r' = 0 \<and> cr2 r' = cr2 r \<and> cr3 r' = cr3 r \<and> gdtr r' = gdtr r \<and> idtr r' = idtr r \<and> tr r' = tr r \<and> ss_reg r' = ucast (KSEL SEG_KDATA)"
proof -
  let ?tss = "cl_tss (m_cpuinfo M ! cpu)"
  obtain r' m1 where s: "stub_frame (stub_number v) (with_errcode v) (hw_interrupt ?tss (cte_idt ld ! v) err (m_regs M, mem_of M)) = (r', m1)"
    by fastforce
  have f: "frame_of B r (stub_number v) (errcode_of err) m1 \<and> outside B (frame_size r) (mem_of M) m1 \<and> esp r' = B \<and> cs_reg r' = gd_cs (cte_idt ld ! v) \<and>
    cr2 r' = cr2 r \<and> cr3 r' = cr3 r \<and> gdtr r' = gdtr r \<and> idtr r' = idtr r \<and> tr r' = tr r \<and> ss_reg r' = ucast (KSEL SEG_KDATA)"
    unfolding B_def r_def by (rule entry_frame [OF s]) (use v in auto)
  let ?M = "set_mem m1 (M\<lparr>m_regs := r'\<rparr>)"
  have "interrupt io call ld cpu v err M = am_irq_handle io call B ?M"
    using v(1) M(3) f by (simp add: interrupt_def length_cte_idt run_stub_ok [OF ld v(1)] s)
  moreover have "\<exists>m d. let st = (m_io ?M)\<lparr>i_mem := m, i_dev := d\<rparr> in
    am_irq_handle io call B ?M = (case call (user_handler ?M) (irq_event (stub_number v) (errcode_of err) (cr2 r)) B st of (ret, st) \<Rightarrow> irq_return io ret (?M\<lparr>m_io := st\<rparr>)) \<and>
    ctx_at m B = saved_ctx (cl_tss (m_cpuinfo ?M ! cpu)) r \<and> outside B 60 (mem_of ?M) m"
    by (rule irq_handle_calls) (use f M in \<open>simp_all add: set_mem_def\<close>)
  moreover have "CPL r' = 0" using f v(1) by (simp add: CPL_def cte_idt_nth selectors)
  moreover have "outside B (frame_size r) (mem_of M) m" if "outside B 60 m1 m" for m
  proof -
    have "outside B (frame_size r) m1 m" using outside_mono [OF _ that] by (simp add: frame_size_def)
    then show ?thesis using f outside_trans by blast
  qed
  ultimately show ?thesis using f by (fastforce simp: Let_def set_mem_def)
qed

text \<open>A whole interrupt whose handler returns the context \<open>a\<close>.\<close>

lemma interrupt_resumes:
  assumes M: "lapic_at (m_io M) = lapic" "length (m_cpuinfo M) = MAX_CPU" "m_idt M = cte_idt ld" "user_handler M \<noteq> 0"
    and ld: "symbols_ok ld" and v: "v < NR_IRQ" "err \<noteq> None \<longleftrightarrow> with_errcode v"
    and ws: "well_segmented (m_regs M)" and B: "frame_base tss (m_regs M) \<noteq> 0" and tss: "tss = cl_tss (m_cpuinfo M ! cpu)" "tss_ss0 tss = KSEL SEG_KDATA"
    and call: "\<And>ev a st. call (user_handler M) ev a st = (a, st)"
  shows "\<exists>m d. interrupt io call ld cpu v err M = Inr (M\<lparr>m_io := (m_io M)\<lparr>i_mem := m, i_dev := d\<rparr>\<rparr>) \<and>
    outside (frame_base tss (m_regs M)) (frame_size (m_regs M)) (mem_of M) m"
proof -
  let ?r = "m_regs M" and ?c = "saved_ctx tss (m_regs M)" and ?B = "frame_base tss (m_regs M)"
  from interrupt_calls [OF M ld v, of call] obtain m d r' where
    i: "interrupt io call ld cpu v err M = irq_return io ?B (M\<lparr>m_regs := r', m_io := (m_io M)\<lparr>i_mem := m, i_dev := d\<rparr>\<rparr>)"
    and c: "ctx_at m ?B = ?c" and o: "outside ?B (frame_size ?r) (mem_of M) m"
    and r': "CPL r' = 0" "cr2 r' = cr2 ?r" "cr3 r' = cr3 ?r" "gdtr r' = gdtr ?r" "idtr r' = idtr ?r" "tr r' = tr ?r" "ss_reg r' = ucast (KSEL SEG_KDATA)"
    by (auto simp: call Let_def tss(1) [symmetric])
  let ?M = "M\<lparr>m_regs := r', m_io := (m_io M)\<lparr>i_mem := m, i_dev := d\<rparr>\<rparr>"
  have "\<exists>d' m'. irq_return io ?B ?M = Inr (set_tss cpu (switch_tss ?c)
      (?M\<lparr>m_regs := resumed ?c (switch_cr3 ?c (m_regs ?M)), m_io := (m_io ?M)\<lparr>i_mem := m', i_dev := d'\<rparr>\<rparr>)) \<and> touched ?c (mem_of ?M) m'"
    by (rule irq_return_ok [OF B _ saved_returnable [OF ws]]) (use c r' M in simp_all)
  then obtain d' m' where ret: "irq_return io ?B ?M = Inr (set_tss cpu (switch_tss ?c) (M\<lparr>m_regs := ?r, m_io := (m_io M)\<lparr>i_mem := m', i_dev := d'\<rparr>\<rparr>))"
    and t: "touched ?c m m'"
    using resumed_saved [OF ws r', of tss] by auto
  have "switch_tss ?c tss = tss" by (rule TSS32.equality) (simp_all add: switch_tss_def saved_ctx_def tss(2))
  then have "set_tss cpu (switch_tss ?c) (M\<lparr>m_regs := ?r, m_io := (m_io M)\<lparr>i_mem := m', i_dev := d'\<rparr>\<rparr>) = M\<lparr>m_io := (m_io M)\<lparr>i_mem := m', i_dev := d'\<rparr>\<rparr>"
    by (intro mach.equality) (simp_all add: set_tss_def tss(1))
  moreover have "outside ?B (frame_size ?r) (mem_of M) m'"
  proof -
    have "outside ?B (frame_size ?r) m m'" using touched_saved [OF ws t] .
    then show ?thesis using o outside_trans by blast
  qed
  ultimately show ?thesis using i ret by auto
qed

lemma interrupt_switches:
  assumes M: "lapic_at (m_io M) = lapic" "length (m_cpuinfo M) = MAX_CPU" "m_idt M = cte_idt ld" "user_handler M \<noteq> 0"
    and ld: "symbols_ok ld" and v: "v < NR_IRQ" "err \<noteq> None \<longleftrightarrow> with_errcode v"
  shows "\<exists>m d. let tss = cl_tss (m_cpuinfo M ! cpu); B = frame_base tss (m_regs M); ev = irq_event (stub_number v) (errcode_of err) (cr2 (m_regs M));
      (a, st) = call (user_handler M) ev B ((m_io M)\<lparr>i_mem := m, i_dev := d\<rparr>); c = ctx_at (i_mem st) a in
    ctx_at m B = saved_ctx tss (m_regs M) \<and>
    (if a = 0 then interrupt io call ld cpu v err M = Inl (Panic ''returning to NULL context'')
     else lapic_at st = lapic_at (m_io M) \<and> returnable a c \<longrightarrow>
       (\<exists>M' r. interrupt io call ld cpu v err M = Inr M' \<and> m_regs M' = resumed c (switch_cr3 c r) \<and> cr3 r = cr3 (m_regs M) \<and> ss_reg r = ucast (KSEL SEG_KDATA) \<and>
          cl_tss (m_cpuinfo M' ! cpu) = switch_tss c tss \<and> touched c (i_mem st) (mem_of M')))"
proof -
  let ?tss = "cl_tss (m_cpuinfo M ! cpu)" and ?r = "m_regs M"
  let ?B = "frame_base ?tss ?r" and ?ev = "irq_event (stub_number v) (errcode_of err) (cr2 ?r)"
  from interrupt_calls [OF M ld v, of call] obtain m d r' where
    i: "interrupt io call ld cpu v err M = (case call (user_handler M) ?ev ?B ((m_io M)\<lparr>i_mem := m, i_dev := d\<rparr>) of (ret, st) \<Rightarrow> irq_return io ret (M\<lparr>m_regs := r', m_io := st\<rparr>))"
    and c: "ctx_at m ?B = saved_ctx ?tss ?r" and r': "CPL r' = 0" "cr3 r' = cr3 ?r" "ss_reg r' = ucast (KSEL SEG_KDATA)"
    by (auto simp: Let_def)
  obtain a st where a: "call (user_handler M) ?ev ?B ((m_io M)\<lparr>i_mem := m, i_dev := d\<rparr>) = (a, st)" by fastforce
  let ?M = "M\<lparr>m_regs := r', m_io := st\<rparr>" and ?c = "ctx_at (i_mem st) a"
  have "\<exists>M' r. interrupt io call ld cpu v err M = Inr M' \<and> m_regs M' = resumed ?c (switch_cr3 ?c r) \<and> cr3 r = cr3 ?r \<and> ss_reg r = ucast (KSEL SEG_KDATA) \<and>
      cl_tss (m_cpuinfo M' ! cpu) = switch_tss ?c ?tss \<and> touched ?c (i_mem st) (mem_of M')"
    if "a \<noteq> 0" "lapic_at st = lapic_at (m_io M)" "returnable a ?c"
  proof -
    have "\<exists>d m'. irq_return io a ?M = Inr (set_tss cpu (switch_tss ?c)
      (?M\<lparr>m_regs := resumed ?c (switch_cr3 ?c (m_regs ?M)), m_io := (m_io ?M)\<lparr>i_mem := m', i_dev := d\<rparr>\<rparr>)) \<and> touched ?c (mem_of ?M) m'"
      by (rule irq_return_ok) (use that r' M in simp_all)
    then obtain d m' where ret: "irq_return io a ?M = Inr (set_tss cpu (switch_tss ?c)
      (?M\<lparr>m_regs := resumed ?c (switch_cr3 ?c r'), m_io := st\<lparr>i_mem := m', i_dev := d\<rparr>\<rparr>))" and t: "touched ?c (i_mem st) m'" by auto
    let ?M' = "set_tss cpu (switch_tss ?c) (?M\<lparr>m_regs := resumed ?c (switch_cr3 ?c r'), m_io := st\<lparr>i_mem := m', i_dev := d\<rparr>\<rparr>)"
    have "interrupt io call ld cpu v err M = Inr ?M'" using i a ret by simp
    moreover have "m_regs ?M' = resumed ?c (switch_cr3 ?c r')" "mem_of ?M' = m'" "cl_tss (m_cpuinfo ?M' ! cpu) = switch_tss ?c ?tss"
      using M(2) cpu_lt by (simp_all add: set_tss_def)
    ultimately show ?thesis using t r'(2,3) by metis
  qed
  moreover have "interrupt io call ld cpu v err M = Inl (Panic ''returning to NULL context'')" if "a = 0"
    using i a that by (simp add: irq_return_def panic_on_def)
  ultimately show ?thesis using c a by (auto simp: Let_def intro!: exI [of _ m] exI [of _ d])
qed

end

lemma ctx_at_put: "ctx_at (put_ctx m a c) a = c"
proof -
  let ?ws = "[c_cr3 c, c_ds c, c_eax c, c_ebx c, c_ecx c, c_edx c, c_esp0 c, c_esi c, c_edi c, c_ebp c, c_eip c, c_cs c, c_eflags c, c_esp c, c_ss3 c]"
  have w: "load32 (mem_put m a (words_bytes ws)) (a + of_nat (4 * j)) = ws ! j" if "j < length ws" "length ws < 100" for j ws
    using that by (intro load32_put_off) simp_all
  show ?thesis
    using w [of 0 ?ws] w [of 1 ?ws] w [of 2 ?ws] w [of 3 ?ws] w [of 4 ?ws] w [of 5 ?ws] w [of 6 ?ws] w [of 7 ?ws] w [of 8 ?ws] w [of 9 ?ws]
      w [of 10 ?ws] w [of 11 ?ws] w [of 12 ?ws] w [of 13 ?ws] w [of 14 ?ws]
    by (simp add: ctx_at_def put_ctx_def)
qed

lemma outside_load:
  assumes "outside B n m m'" "n \<le> a - B" "4 \<le> B - a"
  shows "load32 m' a = load32 m a"
proof (rule load32_frame)
  fix i :: nat assume i: "i < 4"
  have "unat (a - B) + 4 \<le> 2 ^ 32"
    using assms(3) unsigned_less [of a, where ?'a = nat] unsigned_less [of B, where ?'a = nat]
    by (auto simp: word_le_nat_alt unat_sub_if' split: if_splits)
  then have "unat (a - B + of_nat i) = unat (a - B) + i" using i by (simp add: unat_word_ariths(1) unat_of_nat)
  then have "n \<le> (a - B) + of_nat i" using assms(2) by (simp add: word_le_nat_alt)
  then have "n \<le> a + of_nat i - B" by (simp only: diff_add_eq)
  then show "m' (a + of_nat i) = m (a + of_nat i)" using assms(1) by (simp add: outside_def)
qed

lemma outside_put_ctx: "outside a 60 m (put_ctx m a c)"
  by (auto simp: outside_def put_ctx_def mem_put_eq word_le_nat_alt)

section \<open>A machine\<close>

text \<open>A local APIC that answers with the number of its processor, and a machine in user or kernel mode.\<close>

definition apic_ports :: "u32 \<Rightarrow> nat \<Rightarrow> unit ports" where
  "apic_ports lapic cpu =
     \<lparr>port_in = \<lambda>n p d. (0, d), port_out = \<lambda>n p v d. d, mmio_in = \<lambda>a d. (if a = lapic + 0x20 then push_bit 24 (of_nat cpu) else 0, d),
      mmio_out = \<lambda>a v d. d, tsc = \<lambda>d. (0, d)\<rparr>"

definition sample_symbols :: symbols where
  "sample_symbols = \<lparr>s_irq = \<lambda>n. 0x100000 + of_nat n, s_irqall = 0x200000, s_kcontext_start = 0x300000, s_panic_on_return = 0x400000,
     s_idt = 0x500000, s_cpuinfo = 0x600000, s_end = 0x700000, s_call_main = 0x800000, s_othercpu_entry = 0x900000\<rparr>"

lemma sample_symbols_ok: "symbols_ok sample_symbols"
proof -
  have "n < 256" if "n \<in> fst ` set IRQS" for n using that by (auto simp: IRQS_def)
  moreover have "unat (0x100000 + of_nat n :: u32) = 0x100000 + n" if "n < 256" for n using that by (simp add: unat_word_ariths(1) unat_of_nat)
  ultimately have u: "unat (s_irq sample_symbols n) = 0x100000 + n \<and> n < 256" if "n \<in> fst ` set IRQS" for n using that by (simp add: sample_symbols_def)
  have "inj_on (s_irq sample_symbols) (fst ` set IRQS)" using u by (metis add_left_cancel inj_onI)
  moreover have "s_irqall sample_symbols \<notin> s_irq sample_symbols ` fst ` set IRQS"
  proof
    assume "s_irqall sample_symbols \<in> s_irq sample_symbols ` fst ` set IRQS"
    then obtain n where n: "n \<in> fst ` set IRQS" "s_irqall sample_symbols = s_irq sample_symbols n" by blast
    then have "unat (s_irqall sample_symbols) = 0x100000 + n \<and> n < 256" using u [OF n(1)] by simp
    then show False by (auto simp: sample_symbols_def)
  qed
  ultimately show ?thesis by (simp add: symbols_ok_def)
qed

definition sample_regs :: "u32 \<Rightarrow> u32 \<Rightarrow> regs32" where
  "sample_regs code data = \<lparr>eax = 1, ebx = 2, ecx = 3, edx = 4, esi = 5, edi = 6, ebp = 7, esp = 0x8000, eip = 0x1234, eflags = FL_IF,
     cs_reg = ucast code, ds_reg = ucast data, es_reg = ucast data, ss_reg = ucast data, cr2 = 0, cr3 = 0x1000, gdtr = (0, 0), idtr = (0, 0), tr = 0\<rparr>"

definition sample_mach :: "u32 \<Rightarrow> u32 \<Rightarrow> mem32 \<Rightarrow> unit mach" where
  "sample_mach code data m = \<lparr>m_regs = sample_regs code data, m_io = (sample_ioe m ())\<lparr>lapic_at := 0xFEE00000\<rparr>,
     m_cpuinfo = replicate MAX_CPU \<lparr>cl_gdt = [], cl_tss = \<lparr>tss_esp0 = 0x9000, tss_ss0 = KSEL SEG_KDATA\<rparr>\<rparr>,
     m_idt = cte_idt sample_symbols, user_handler = 0x2000, m_ncpu = 1, m_heap = \<lparr>a_start = 0, a_end = 0\<rparr>\<rparr>"

abbreviation sample_user :: "unit mach" where
  "sample_user \<equiv> sample_mach (USEL SEG_UCODE) (USEL SEG_UDATA) (\<lambda>_. 0)"

interpretation apic: local_apic "apic_ports 0xFEE00000 0" "0xFEE00000" "0"
  by unfold_locales (simp_all add: apic_ports_def MAX_CPU_def)

lemma sample_mach_simps [simp]:
  "lapic_at (m_io (sample_mach a b m)) = 0xFEE00000" "length (m_cpuinfo (sample_mach a b m)) = MAX_CPU" "m_idt (sample_mach a b m) = cte_idt sample_symbols"
  "user_handler (sample_mach a b m) = 0x2000" "m_regs (sample_mach a b m) = sample_regs a b" "mem_of (sample_mach a b m) = m"
  "cl_tss (m_cpuinfo (sample_mach a b m) ! 0) = \<lparr>tss_esp0 = 0x9000, tss_ss0 = KSEL SEG_KDATA\<rparr>"
  by (simp_all add: sample_mach_def sample_ioe_def MAX_CPU_def)

section \<open>Properties\<close>

text \<open>
  C25. Interrupts are transparent. When an interrupt or exception arrives at kernel or user code and the handler
  returns the context it was given, every register of the interrupted program, flags, stack pointer, segments and
  page table included, is as before, and no memory has changed but the frame on the kernel stack.
\<close>

theorem interrupt_transparent:
  assumes "local_apic io (lapic_at (m_io M)) cpu" "length (m_cpuinfo M) = MAX_CPU" "m_idt M = cte_idt ld" "user_handler M \<noteq> 0" "symbols_ok ld"
    and "v < NR_IRQ" "err \<noteq> None \<longleftrightarrow> with_errcode v" "well_segmented (m_regs M)"
    and "tss = cl_tss (m_cpuinfo M ! cpu)" "tss_ss0 tss = KSEL SEG_KDATA" "frame_base tss (m_regs M) \<noteq> 0"
    and "\<And>ev a st. call (user_handler M) ev a st = (a, st)"
  shows "\<exists>m d. interrupt io call ld cpu v err M = Inr (M\<lparr>m_io := (m_io M)\<lparr>i_mem := m, i_dev := d\<rparr>\<rparr>) \<and>
    (\<forall>x. frame_size (m_regs M) \<le> x - frame_base tss (m_regs M) \<longrightarrow> m x = mem_of M x)"
  unfolding outside_def [symmetric]
  by (rule local_apic.interrupt_resumes [OF assms(1) refl assms(2-8,11,9,10)]) (rule assms(12))

theorem interrupt_transparent_witness:
  "\<exists>m d. interrupt (apic_ports 0xFEE00000 0) (\<lambda>h ev a st. (a, st)) sample_symbols 0 0x80 None sample_user =
     Inr (sample_user\<lparr>m_io := (m_io sample_user)\<lparr>i_mem := m, i_dev := d\<rparr>\<rparr>)"
proof -
  have "well_segmented (m_regs sample_user)" by (simp add: well_segmented_def sample_regs_def)
  then show ?thesis
    using interrupt_transparent [of "apic_ports 0xFEE00000 0" sample_user 0 sample_symbols "0x80" None "cl_tss (m_cpuinfo sample_user ! 0)" "\<lambda>h ev a st. (a, st)"]
      apic.local_apic_axioms sample_symbols_ok
    by (auto simp: NR_IRQ_def with_errcode_def frame_base_def CPL_def sample_regs_def selectors)
qed

text \<open>
  C26. Context switch. The handler gets the event that \<open>__am_irq_handle\<close> assigns to the vector and a context that holds
  exactly the interrupted registers. It is a panic to return no context; with any other context the processor
  continues exactly there, with its registers, page table and kernel stack.
\<close>

theorem context_switch:
  assumes "local_apic io (lapic_at (m_io M)) cpu" "length (m_cpuinfo M) = MAX_CPU" "m_idt M = cte_idt ld" "user_handler M \<noteq> 0" "symbols_ok ld"
    and "v < NR_IRQ" "err \<noteq> None \<longleftrightarrow> with_errcode v"
  shows "\<exists>m d. let tss = cl_tss (m_cpuinfo M ! cpu); B = frame_base tss (m_regs M); ev = irq_event (stub_number v) (errcode_of err) (cr2 (m_regs M));
      (a, st) = call (user_handler M) ev B ((m_io M)\<lparr>i_mem := m, i_dev := d\<rparr>); c = ctx_at (i_mem st) a in
    ctx_at m B = saved_ctx tss (m_regs M) \<and>
    (if a = 0 then interrupt io call ld cpu v err M = Inl (Panic ''returning to NULL context'')
     else lapic_at st = lapic_at (m_io M) \<and> returnable a c \<longrightarrow>
       (\<exists>M' r. interrupt io call ld cpu v err M = Inr M' \<and> m_regs M' = resumed c (switch_cr3 c r) \<and> cr3 r = cr3 (m_regs M) \<and> ss_reg r = ucast (KSEL SEG_KDATA) \<and>
          cl_tss (m_cpuinfo M' ! cpu) = switch_tss c tss \<and> touched c (i_mem st) (mem_of M')))"
  by (rule local_apic.interrupt_switches [OF assms(1) refl assms(2-7)])

theorem context_switch_witness:
  "interrupt (apic_ports 0xFEE00000 0) (\<lambda>h ev a st. (if event ev = EVENT_SYSCALL then 0 else a, st)) sample_symbols 0 0x80 None sample_user =
     Inl (Panic ''returning to NULL context'')"
proof -
  have "event (irq_event (stub_number 0x80) (errcode_of None) (cr2 (m_regs sample_user))) = EVENT_SYSCALL"
    by (simp add: stub_number_def IRQS_def irq_event_def Let_def T_IRQ0_def EX_SYSCALL_def)
  then show ?thesis
    using context_switch [of "apic_ports 0xFEE00000 0" sample_user 0 sample_symbols "0x80" None "\<lambda>h ev a st. (if event ev = EVENT_SYSCALL then 0 else a, st)"]
      apic.local_apic_axioms sample_symbols_ok
    by (simp add: NR_IRQ_def with_errcode_def Let_def)
qed

text \<open>
  C27. A new kernel thread. Switching to the context \<open>kcontext\<close> built, with the code of \<open>__amkcontext_start\<close> run, leaves the
  processor in kernel mode with interrupts on, at \<open>entry\<close>, with \<open>arg\<close> as its argument and a return address that
  panics; the initial frame of the thread overlaps the context on the same stack without harm.
\<close>

theorem kcontext_starts:
  assumes "local_apic io (lapic_at (m_io M)) cpu" "length (m_cpuinfo M) = MAX_CPU" "CPL (m_regs M) = 0" "a_end kstack \<noteq> sizeof_Context"
    and "kcontext ld kstack entry arg m = (ctx, mem_of M)"
  shows "\<exists>M' r m'. irq_return io ctx M = Inr M' \<and> eip (m_regs M') = s_kcontext_start ld \<and> cr3 (m_regs M') = cr3 (m_regs M) \<and>
    amkcontext_start ld (m_regs M', mem_of M') = (r, m') \<and> eip r = entry \<and> esp r = a_end kstack - 8 \<and> load32 m' (esp r) = s_panic_on_return ld \<and>
    load32 m' (esp r + 4) = arg \<and> eflags r = FL_IF \<and> cs_reg r = ucast (KSEL SEG_KCODE) \<and> ds_reg r = ucast (KSEL SEG_KDATA) \<and>
    (\<forall>x. sizeof_Context \<le> x - ctx \<longrightarrow> m' x = m x)"
proof -
  let ?E = "a_end kstack"
  define c where "c = zero_ctx\<lparr>c_ds := KSEL SEG_KDATA, c_cs := KSEL SEG_KCODE, c_eip := s_kcontext_start ld, c_eflags := FL_IF, c_esp := ?E, c_eax := arg, c_ebx := entry\<rparr>"
  have ctx: "ctx = ?E - 60" "mem_of M = put_ctx m ctx c" using assms(5) by (auto simp: kcontext_def Let_def c_def sizeof_Context_def)
  have at: "c = ctx_at (mem_of M) ctx" unfolding ctx(2) by (rule ctx_at_put [symmetric])
  have "returnable ctx c" by (simp add: returnable_def c_def ctx(1))
  from local_apic.irq_return_ok [OF assms(1) _ at this assms(3) refl assms(2)] assms(4)
  obtain d m1 where r: "irq_return io ctx M = Inr (set_tss cpu (switch_tss c)
      (M\<lparr>m_regs := resumed c (switch_cr3 c (m_regs M)), m_io := (m_io M)\<lparr>i_mem := m1, i_dev := d\<rparr>\<rparr>))" and t: "touched c (mem_of M) m1"
    by (auto simp: ctx(1) sizeof_Context_def)
  have e: "?E - 24 = ctx + 36" by (simp add: ctx(1))
  have "outside (?E - 24) 24 (mem_of M) m1" using t by (simp add: touched_def c_def selectors)
  then have "outside ctx 60 (mem_of M) m1" unfolding e by (rule outside_sub) simp
  then have o: "outside ctx 60 m m1" using outside_put_ctx outside_trans unfolding ctx(2) by blast
  let ?M = "set_tss cpu (switch_tss c) (M\<lparr>m_regs := resumed c (switch_cr3 c (m_regs M)), m_io := (m_io M)\<lparr>i_mem := m1, i_dev := d\<rparr>\<rparr>)"
  let ?m = "store32 (store32 m1 (ctx + 56) arg) (ctx + 52) (s_panic_on_return ld)"
  have M: "m_regs ?M = resumed c (switch_cr3 c (m_regs M))" "mem_of ?M = m1" by (simp_all add: set_tss_def)
  have E: "?E = ctx + 60" by (simp add: ctx(1))
  obtain r' where r': "amkcontext_start ld (m_regs ?M, mem_of ?M) = (r', ?m)" "eip r' = entry" "esp r' = ctx + 52" "eflags r' = FL_IF"
    "cs_reg r' = ucast (KSEL SEG_KCODE)" "ds_reg r' = ucast (KSEL SEG_KDATA)"
    unfolding M by (simp add: amkcontext_start_def resumed_def c_def E off_simps)
  have "load32 ?m (ctx + 52) = s_panic_on_return ld" "load32 ?m (ctx + 52 + 4) = arg" by (simp_all add: frame_simps)
  moreover have "outside ctx 60 m ?m" using o by (simp add: outside_stores)
  moreover have "eip (m_regs ?M) = s_kcontext_start ld" "cr3 (m_regs ?M) = cr3 (m_regs M)"
    unfolding M by (simp_all add: resumed_def c_def switch_cr3_def zero_ctx_def)
  ultimately show ?thesis
    using r r' unfolding outside_def sizeof_Context_def E by (intro exI [of _ ?M] exI [of _ r'] exI [of _ ?m]) (simp add: off_simps)
qed

theorem kcontext_starts_witness:
  "\<exists>M'. irq_return (apic_ports 0xFEE00000 0) 0x4fc4 (sample_mach (KSEL SEG_KCODE) (KSEL SEG_KDATA)
     (snd (kcontext sample_symbols \<lparr>a_start = 0x4000, a_end = 0x5000\<rparr> 0x2222 42 (\<lambda>_. 0)))) = Inr M' \<and> eip (m_regs M') = 0x300000"
proof -
  let ?k = "kcontext sample_symbols \<lparr>a_start = 0x4000, a_end = 0x5000\<rparr> 0x2222 42 (\<lambda>_. 0)"
  have "?k = (0x4fc4, snd ?k)" by (simp add: kcontext_def Let_def sizeof_Context_def)
  then show ?thesis
    using kcontext_starts [of "apic_ports 0xFEE00000 0" "sample_mach (KSEL SEG_KCODE) (KSEL SEG_KDATA) (snd ?k)" 0 "\<lparr>a_start = 0x4000, a_end = 0x5000\<rparr>"
        sample_symbols "0x2222" 42 "\<lambda>_. 0" "0x4fc4"] apic.local_apic_axioms
    by (auto simp: sizeof_Context_def CPL_def sample_regs_def selectors sample_symbols_def)
qed

text \<open>
  A new user process. Switching to the context \<open>ucontext\<close> built enters user mode at \<open>entry\<close> with interrupts on, at the top
  of the user area, in the page table of the address space, with every general register zero; the next
  trap uses the kernel stack the context was built on.
\<close>

theorem ucontext_starts:
  assumes "local_apic io (lapic_at (m_io M)) cpu" "length (m_cpuinfo M) = MAX_CPU" "CPL (m_regs M) = 0" "a_end kstack \<noteq> sizeof_Context"
    and "ucontext as kstack entry m = (ctx, mem_of M)" "sizeof_Context \<le> as + 12 - ctx" "4 \<le> ctx - (as + 12)" "load32 m (as + 12) \<noteq> 0"
  shows "\<exists>d r. irq_return io ctx M = Inr (set_tss cpu (\<lambda>t. t\<lparr>tss_ss0 := KSEL SEG_KDATA, tss_esp0 := a_end kstack\<rparr>)
      (M\<lparr>m_regs := r, m_io := (m_io M)\<lparr>i_dev := d\<rparr>\<rparr>)) \<and> eip r = entry \<and> esp r = a_end (va_area (vm_areas_x86 ! 0)) \<and> eflags r = FL_IF \<and>
    cr3 r = load32 m (as + 12) \<and> cs_reg r = ucast (USEL SEG_UCODE) \<and> {ds_reg r, es_reg r, ss_reg r} = {ucast (USEL SEG_UDATA)} \<and>
    {eax r, ebx r, ecx r, edx r, esi r, edi r, ebp r} = {0} \<and> (\<forall>x. sizeof_Context \<le> x - ctx \<longrightarrow> mem_of M x = m x)"
proof -
  define c0 where "c0 = zero_ctx\<lparr>c_cs := USEL SEG_UCODE, c_ds := USEL SEG_UDATA, c_ss3 := USEL SEG_UDATA, c_eip := entry, c_eflags := FL_IF,
    c_esp := a_end (va_area (vm_areas_x86 ! 0)), c_esp0 := a_end kstack\<rparr>"
  define c where "c = c0\<lparr>c_cr3 := load32 m (as + 12)\<rparr>"
  have ctx: "ctx = a_end kstack - 60" "mem_of M = store32 (put_ctx m ctx c0) ctx (load32 (put_ctx m ctx c0) (as + 12))"
    using assms(5) by (auto simp: ucontext_def Let_def c0_def sizeof_Context_def)
  have "load32 (put_ctx m ctx c0) (as + 12) = load32 m (as + 12)"
    using outside_load [OF outside_put_ctx, of "as + 12" ctx m c0] assms(6,7) by (simp add: sizeof_Context_def)
  then have mem: "mem_of M = store32 (put_ctx m ctx c0) ctx (load32 m (as + 12))" using ctx(2) by simp
  have at: "c = ctx_at (mem_of M) ctx"
    using ctx_at_put [of m ctx c0] unfolding mem c_def by (simp add: ctx_at_def frame_simps) (metis Context.update_convs(1))
  have "returnable ctx c" by (simp add: returnable_def c_def c0_def)
  from local_apic.irq_return_ok [OF assms(1) _ at this assms(3) refl assms(2)] assms(4)
  obtain d m1 where r: "irq_return io ctx M = Inr (set_tss cpu (switch_tss c)
      (M\<lparr>m_regs := resumed c (switch_cr3 c (m_regs M)), m_io := (m_io M)\<lparr>i_mem := m1, i_dev := d\<rparr>\<rparr>))" and t: "touched c (mem_of M) m1"
    by (auto simp: ctx(1) sizeof_Context_def)
  have m1: "m1 = mem_of M" using t by (simp add: touched_def c_def c0_def)
  have "switch_tss c = (\<lambda>t. t\<lparr>tss_ss0 := KSEL SEG_KDATA, tss_esp0 := a_end kstack\<rparr>)"
    using assms(8) by (simp add: switch_tss_def c_def c0_def fun_eq_iff)
  moreover have "outside ctx 60 m (mem_of M)" unfolding mem by (simp add: outside_stores outside_put_ctx)
  moreover have "(m_io M)\<lparr>i_mem := m1, i_dev := d\<rparr> = (m_io M)\<lparr>i_dev := d\<rparr>" using m1 by simp
  ultimately show ?thesis
    using r assms(8) unfolding sizeof_Context_def outside_def
    by (intro exI [of _ d] exI [of _ "resumed c (switch_cr3 c (m_regs M))"])
       (simp add: resumed_def switch_cr3_def c_def c0_def zero_ctx_def selectors)
qed

theorem ucontext_starts_witness:
  "\<exists>M'. irq_return (apic_ports 0xFEE00000 0) 0x4fc4 (sample_mach (KSEL SEG_KCODE) (KSEL SEG_KDATA)
     (snd (ucontext 0x7000 \<lparr>a_start = 0x4000, a_end = 0x5000\<rparr> 0x2222 (store32 (\<lambda>_. 0) 0x700c 0x3000)))) = Inr M' \<and>
     eip (m_regs M') = 0x2222 \<and> cr3 (m_regs M') = 0x3000"
proof -
  let ?m = "store32 (\<lambda>_. 0) 0x700c 0x3000"
  let ?k = "ucontext 0x7000 \<lparr>a_start = 0x4000, a_end = 0x5000\<rparr> 0x2222 ?m"
  have "?k = (0x4fc4, snd ?k)" by (simp add: ucontext_def Let_def sizeof_Context_def)
  then show ?thesis
    using ucontext_starts [of "apic_ports 0xFEE00000 0" "sample_mach (KSEL SEG_KCODE) (KSEL SEG_KDATA) (snd ?k)" 0 "\<lparr>a_start = 0x4000, a_end = 0x5000\<rparr>"
        "0x7000" "0x2222" ?m "0x4fc4"] apic.local_apic_axioms
    by (auto simp: sizeof_Context_def CPL_def sample_regs_def selectors set_tss_def)
qed

text \<open>Every vector is an event of its own kind; the page-fault cause does not depend on the presence bit of the error code.\<close>

lemma page_fault_cause:
  "irq_event EX_PF errcode a = \<lparr>event = EVENT_PAGEFAULT, cause = (if errcode AND 2 \<noteq> 0 then MMAP_WRITE else MMAP_READ), ref = a,
     msg = ''PF #14, page fault, @cause: PROT_XXX''\<rparr>"
  by (simp add: irq_event_def Let_def EX_PF_def EX_SYSCALL_def EX_YIELD_def EX_DE_def EX_UD_def EX_NM_def EX_DF_def EX_TS_def EX_NP_def EX_SS_def EX_GP_def
      T_IRQ0_def MMAP_NONE_def)

text \<open>
  C28. Only system calls and yields can be raised by user programs: \<open>int n\<close> in user mode is taken as vector \<open>n\<close>, without an
  error code, for 0x80 (\<open>EVENT_SYSCALL\<close>) and 0x81 (\<open>EVENT_YIELD\<close>) alone. For every other vector, those of devices and exceptions
  among them, it is vector 13, the general protection fault, with the error code that names the refused gate (\<open>8 n + 2\<close>), and the
  handler gets \<open>EVENT_ERROR\<close> with the message of that fault.
\<close>

theorem user_int_events:
  assumes "m_idt M = cte_idt ld" "CPL (m_regs M) = 3" "n < NR_IRQ"
  shows "\<exists>v err. soft_int io call ld cpu n M = interrupt io call ld cpu v err M \<and> v < NR_IRQ \<and> (err \<noteq> None \<longleftrightarrow> with_errcode v) \<and>
    (v, err) = (if n = 0x80 \<or> n = 0x81 then (n, None) else (13, Some (of_nat (8 * n + 2)))) \<and>
    (n \<noteq> 0x80 \<and> n \<noteq> 0x81 \<longrightarrow> msg (irq_event (stub_number v) (errcode_of err) a) = ''GP #13, general protection fault'') \<and>
    event (irq_event (stub_number v) (errcode_of err) a) = (if n = 0x80 then EVENT_SYSCALL else if n = 0x81 then EVENT_YIELD else EVENT_ERROR)"
proof -
  have u: "unat (CPL (m_regs M)) = 3" using assms(2) by simp
  have g: "unat (gd_dpl (cte_idt ld ! n)) = (if n \<in> {128, 129} then 3 else 0)"
    using assms(3) by (simp add: cte_idt_nth DPL_USER_def DPL_KERN_def)
  have s: "stub_number 13 = 13" "stub_number 128 = 128" "stub_number 129 = 129" by (simp_all add: stub_number_def IRQS_def)
  note ev = irq_event_def Let_def EX_SYSCALL_def EX_YIELD_def EX_DE_def EX_UD_def EX_NM_def EX_DF_def EX_TS_def EX_NP_def EX_SS_def EX_GP_def T_IRQ0_def
  show ?thesis
  proof (cases "n \<in> {128, 129}")
    case True
    then have "soft_int io call ld cpu n M = interrupt io call ld cpu n None M" using assms(1) u g by (auto simp: soft_int_def int_vector_def)
    moreover have "event (irq_event (stub_number n) (errcode_of None) a) = (if n = 0x80 then EVENT_SYSCALL else if n = 0x81 then EVENT_YIELD else EVENT_ERROR)"
      using True by (auto simp: s ev)
    ultimately show ?thesis using True assms(3) by (intro exI [of _ n] exI [of _ None]) (auto simp: with_errcode_def)
  next
    case False
    then have "soft_int io call ld cpu n M = interrupt io call ld cpu 13 (Some (of_nat (8 * n + 2))) M"
      using assms(1) u g by (auto simp: soft_int_def int_vector_def)
    moreover have "event (irq_event (stub_number 13) e a) = EVENT_ERROR \<and>
        msg (irq_event (stub_number 13) e a) = ''GP #13, general protection fault''" for e by (simp add: s ev)
    ultimately show ?thesis using False by (intro exI [of _ 13] exI [of _ "Some (of_nat (8 * n + 2))"]) (auto simp: with_errcode_def NR_IRQ_def)
  qed
qed

theorem user_int_events_witness:
  "\<exists>v err. soft_int (apic_ports 0xFEE00000 0) (\<lambda>h ev a st. (a, st)) sample_symbols 0 0x20 sample_user =
     interrupt (apic_ports 0xFEE00000 0) (\<lambda>h ev a st. (a, st)) sample_symbols 0 v err sample_user \<and>
     v = 13 \<and> err = Some 0x102 \<and> event (irq_event (stub_number v) (errcode_of err) 0) = EVENT_ERROR"
  using user_int_events [of sample_user sample_symbols "0x20" "apic_ports 0xFEE00000 0" "\<lambda>h ev a st. (a, st)" 0 0]
  by (force simp: NR_IRQ_def CPL_def sample_regs_def selectors)

end
