(* ===== verification/Trm_Correct.thy ===== *)
theory Trm_Correct
  imports Trm Cte_Correct
begin

text \<open>
  The start of the machine: the hand-over to the other processors as a state machine with its invariant and
  progress measure, the descriptor tables of a processor, and the discovery of the processors.
\<close>

section \<open>Hand-over to the other processors\<close>

definition ap_done :: "u32 \<Rightarrow> ap_pc \<Rightarrow> bool" where
  "ap_done entry p \<longleftrightarrow> p = Ap_announced \<or> p = Ap_user entry"

definition others :: "u32 \<Rightarrow> nat \<Rightarrow> nat \<Rightarrow> mpe \<Rightarrow> bool" where
  "others entry i j s \<longleftrightarrow> (\<forall>c. 1 \<le> c \<and> c < i \<longrightarrow> ap_done entry (ap_at s c)) \<and> (\<forall>c. c = 0 \<or> j \<le> c \<longrightarrow> ap_at s c = Ap_off)"

text \<open>The processors below the one being started run, those above are off, and \<open>ap_ready\<close> is the answer of that one.\<close>

fun mpe_inv_at :: "boot_pc \<Rightarrow> nat \<Rightarrow> u32 \<Rightarrow> mpe \<Rightarrow> bool" where
  "mpe_inv_at (Mpe_init e) ncpu entry s \<longleftrightarrow> e = entry \<and> ap_ready s = 0 \<and> others entry 1 1 s"
| "mpe_inv_at (Boot_loop k) ncpu entry s \<longleftrightarrow> 1 \<le> k \<and> (k \<le> ncpu \<or> k = 1) \<and> user_entry s = entry \<and> ap_ready s = 0 \<and> others entry k k s"
| "mpe_inv_at (Boot_wait k) ncpu entry s \<longleftrightarrow> 1 \<le> k \<and> k < ncpu \<and> user_entry s = entry \<and> rec_is_ap s = 1 \<and> others entry k (Suc k) s \<and>
     (ap_ready s = 0 \<and> ap_at s k \<in> {Ap_started, Ap_ready} \<or> ap_ready s = 1 \<and> ap_done entry (ap_at s k))"
| "mpe_inv_at (Boot_user e) ncpu entry s \<longleftrightarrow> e = entry \<and> user_entry s = entry \<and> ap_ready s = 0 \<and> others entry ncpu (max 1 ncpu) s"

definition mpe_inv :: "nat \<Rightarrow> u32 \<Rightarrow> mpe \<Rightarrow> bool" where
  "mpe_inv ncpu entry s \<longleftrightarrow> mpe_inv_at (boot_at s) ncpu entry s"

lemma boot_step_inv:
  assumes "mpe_inv ncpu entry s" "boot_step ncpu s = Some s'"
  shows "mpe_inv ncpu entry s'"
  using assms
  by (cases "boot_at s")
     (auto simp: mpe_inv_def boot_step_def xchg_def Let_def others_def ap_done_def less_Suc_eq not_less max_def split: if_splits)

lemma ap_step_cases:
  assumes "ap_step c s = Some s'"
  obtains "ap_at s c = Ap_started" "s' = s\<lparr>ap_at := (ap_at s)(c := if rec_is_ap s \<noteq> 0 then Ap_ready else Ap_lost)\<rparr>"
  | "ap_at s c = Ap_ready" "s' = s\<lparr>ap_ready := 1, ap_at := (ap_at s)(c := Ap_announced)\<rparr>"
  | "ap_at s c = Ap_announced" "s' = s\<lparr>ap_at := (ap_at s)(c := Ap_user (user_entry s))\<rparr>"
  using assms by (cases "ap_at s c") (auto simp: ap_step_def xchg_def Let_def)

lemma othersD: "others entry i j s \<Longrightarrow> ap_at s c = Ap_off \<or> ap_done entry (ap_at s c) \<or> 1 \<le> c \<and> i \<le> c \<and> c < j"
  unfolding others_def by (metis One_nat_def Suc_leI le_eq_less_or_eq not_gr_zero not_less)

lemma others_upd: "others entry i j s \<Longrightarrow> ap_done entry p \<Longrightarrow> ap_at s c \<noteq> Ap_off \<Longrightarrow> ap_at s' = (ap_at s)(c := p) \<Longrightarrow> others entry i j s'"
  by (auto simp: others_def)

text \<open>A processor on its way is the one the boot processor waits for.\<close>

lemma underway_waited:
  assumes "mpe_inv ncpu entry s" "ap_at s c \<in> {Ap_started, Ap_ready}"
  shows "boot_at s = Boot_wait c"
  using assms othersD [of entry _ _ s c]
  by (cases "boot_at s") (fastforce simp: mpe_inv_def ap_done_def)+

lemma not_lost: "mpe_inv ncpu entry s \<Longrightarrow> ap_at s c \<noteq> Ap_lost"
  using othersD [of entry _ _ s c]
  by (cases "boot_at s") (fastforce simp: mpe_inv_def ap_done_def le_less_Suc_eq)+

lemma off_above: "mpe_inv ncpu entry s \<Longrightarrow> ncpu \<le> c \<Longrightarrow> ap_at s c = Ap_off"
  by (cases "boot_at s"; cases "c = 0") (auto simp: mpe_inv_def others_def)

lemma ap_step_inv:
  assumes i: "mpe_inv ncpu entry s" and "ap_step c s = Some s'"
  shows "mpe_inv ncpu entry s'"
  using assms(2)
proof (cases rule: ap_step_cases)
  case 1
  then show ?thesis using i underway_waited [OF i, of c] by (auto simp: mpe_inv_def others_def ap_done_def)
next
  case 2
  then show ?thesis using i underway_waited [OF i, of c] by (auto simp: mpe_inv_def others_def ap_done_def)
next
  case 3
  have "user_entry s = entry" using i 3 by (cases "boot_at s"; cases "c = 0") (auto simp: mpe_inv_def ap_done_def others_def)
  then have "ap_done entry (Ap_user (user_entry s))" by (simp add: ap_done_def)
  from others_upd [OF _ this, of _ _ s c s'] show ?thesis
    using i 3 by (cases "boot_at s") (auto simp: mpe_inv_def ap_done_def)
qed

lemma reach_inv: "mpe_reach ncpu (mpe_start entry) s \<Longrightarrow> mpe_inv ncpu entry s"
proof (induction "mpe_start entry" s rule: mpe_reach.induct)
  case Refl
  show ?case by (simp add: mpe_inv_def mpe_start_def others_def)
next
  case (Step t u)
  then show ?case by (blast elim: mpe_stepE intro: boot_step_inv ap_step_inv)
qed

text \<open>Progress: what is left to do.\<close>

fun boot_rank :: "nat \<Rightarrow> boot_pc \<Rightarrow> nat" where
  "boot_rank ncpu (Mpe_init e) = 2 * ncpu + 2"
| "boot_rank ncpu (Boot_loop k) = 2 * (ncpu - k) + 1"
| "boot_rank ncpu (Boot_wait k) = 2 * (ncpu - k)"
| "boot_rank ncpu (Boot_user e) = 0"

fun ap_rank :: "ap_pc \<Rightarrow> nat" where
  "ap_rank Ap_off = 4"
| "ap_rank Ap_started = 3"
| "ap_rank Ap_ready = 2"
| "ap_rank Ap_announced = 1"
| "ap_rank (Ap_user e) = 0"
| "ap_rank Ap_lost = 0"

definition mpe_rank :: "nat \<Rightarrow> mpe \<Rightarrow> nat" where
  "mpe_rank ncpu s = boot_rank ncpu (boot_at s) + (\<Sum>c<ncpu. ap_rank (ap_at s c))"

lemma rank_upd:
  fixes c ncpu :: nat
  assumes "c < ncpu"
  shows "(\<Sum>x<ncpu. ap_rank ((f(c := p)) x)) + ap_rank (f c) = (\<Sum>x<ncpu. ap_rank (f x)) + ap_rank p"
proof -
  have "(\<Sum>x<ncpu. ap_rank (g x)) = ap_rank (g c) + (\<Sum>x\<in>{..<ncpu} - {c}. ap_rank (g x))" for g
    using assms by (intro sum.remove) auto
  from this [of "f(c := p)"] this [of f] show ?thesis by simp
qed

definition mpe_done :: "nat \<Rightarrow> u32 \<Rightarrow> mpe \<Rightarrow> bool" where
  "mpe_done ncpu entry s \<longleftrightarrow> boot_at s = Boot_user entry \<and> (\<forall>c. 1 \<le> c \<and> c < ncpu \<longrightarrow> ap_at s c = Ap_user entry)"

lemma boot_step_rank:
  assumes "mpe_inv ncpu entry s" "boot_step ncpu s = Some s'"
  shows "s' = s \<or> mpe_rank ncpu s' < mpe_rank ncpu s"
proof (cases "boot_at s")
  case (Boot_loop k)
  show ?thesis
  proof (cases "k < ncpu")
    case True
    then have "ap_at s k = Ap_off" "s' = s\<lparr>rec_is_ap := 1, ap_at := (ap_at s)(k := Ap_started), boot_at := Boot_wait k\<rparr>"
      using assms Boot_loop by (auto simp: mpe_inv_def others_def boot_step_def)
    then show ?thesis using rank_upd [OF True, of "ap_at s" Ap_started] Boot_loop by (simp add: mpe_rank_def)
  qed (use assms Boot_loop in \<open>auto simp: boot_step_def mpe_rank_def\<close>)
qed (use assms in \<open>auto simp: mpe_inv_def boot_step_def mpe_rank_def xchg_def split: if_splits\<close>)

lemma ap_step_rank:
  assumes "mpe_inv ncpu entry s" "ap_step c s = Some s'"
  shows "mpe_rank ncpu s' < mpe_rank ncpu s"
proof -
  have "ap_at s c \<noteq> Ap_off" using assms(2) by (auto simp: ap_step_def)
  then have c: "c < ncpu" using off_above [OF assms(1)] not_less by blast
  have l: "ap_at s' c \<noteq> Ap_lost" using not_lost [OF ap_step_inv [OF assms]] .
  show ?thesis
    using assms(2)
  proof (cases rule: ap_step_cases)
    case 1
    then show ?thesis using l rank_upd [OF c, of "ap_at s" Ap_ready] by (auto simp: mpe_rank_def split: if_splits)
  next
    case 2
    then show ?thesis using rank_upd [OF c, of "ap_at s" Ap_announced] by (simp add: mpe_rank_def)
  next
    case 3
    then show ?thesis using rank_upd [OF c, of "ap_at s" "Ap_user (user_entry s)"] by (simp add: mpe_rank_def)
  qed
qed

lemma mpe_not_stuck:
  assumes i: "mpe_inv ncpu entry s" and d: "\<not> mpe_done ncpu entry s"
  shows "\<exists>s'. mpe_step ncpu s s' \<and> mpe_rank ncpu s' < mpe_rank ncpu s"
proof (cases "\<exists>c. ap_at s c \<in> {Ap_started, Ap_ready, Ap_announced}")
  case True
  then obtain c where "ap_at s c \<in> {Ap_started, Ap_ready, Ap_announced}" by blast
  then have "\<exists>s'. ap_step c s = Some s'" by (auto simp: ap_step_def xchg_def)
  then show ?thesis using ap_step_rank [OF i] mpe_step.Ap by blast
next
  case False
  have "\<exists>s'. boot_step ncpu s = Some s' \<and> boot_at s' \<noteq> boot_at s"
  proof (cases "boot_at s")
    case (Boot_wait k)
    then have "ap_ready s = 1" using i False by (auto simp: mpe_inv_def)
    then show ?thesis using Boot_wait by (simp add: boot_step_def xchg_def)
  next
    case (Boot_user e)
    then have "mpe_done ncpu entry s" using i False by (auto simp: mpe_inv_def mpe_done_def others_def ap_done_def)
    then show ?thesis using d by simp
  qed (auto simp: boot_step_def)
  then obtain s' where "boot_step ncpu s = Some s'" "s' \<noteq> s" by auto
  then show ?thesis using boot_step_rank [OF i] mpe_step.Boot by blast
qed

text \<open>
  C29. Start of the other processors, safety. However the steps of the processors interleave, at most one processor is
  being initialised at a time and the boot processor waits for exactly that one; none of them takes itself
  for the boot processor; a processor that runs the program does so from the entry given to \<open>mpe_init\<close>, and the
  boot processor enters it only after every other one has announced itself.
\<close>

theorem mpe_hand_over:
  assumes "mpe_reach ncpu (mpe_start entry) s"
  shows "(\<forall>c. ap_at s c \<in> {Ap_started, Ap_ready} \<longrightarrow> boot_at s = Boot_wait c) \<and> (\<forall>c. ap_at s c \<noteq> Ap_lost) \<and>
    (\<forall>c e. ap_at s c = Ap_user e \<longrightarrow> e = entry) \<and>
    (\<forall>e. boot_at s = Boot_user e \<longrightarrow> e = entry \<and> (\<forall>c. 1 \<le> c \<and> c < ncpu \<longrightarrow> ap_at s c \<in> {Ap_announced, Ap_user entry}))"
proof -
  have i: "mpe_inv ncpu entry s" by (rule reach_inv [OF assms])
  have "e = entry" if "ap_at s c = Ap_user e" for c e
    using i that othersD [of entry _ _ s c] by (cases "boot_at s") (fastforce simp: mpe_inv_def ap_done_def le_less_Suc_eq)+
  moreover have "e = entry \<and> (\<forall>c. 1 \<le> c \<and> c < ncpu \<longrightarrow> ap_at s c \<in> {Ap_announced, Ap_user entry})" if "boot_at s = Boot_user e" for e
    using i that by (auto simp: mpe_inv_def others_def ap_done_def)
  ultimately show ?thesis using underway_waited [OF i] not_lost [OF i] by blast
qed

text \<open>
  C30. Start of the other processors, termination. From every reachable state, each step either is an idle round of the wait,
  which changes nothing, or decreases \<open>mpe_rank\<close>, and as long as some processor has not entered the program some
  step does decrease it: with every processor getting its turns, all of them enter it.
\<close>

theorem mpe_terminates:
  assumes "mpe_reach ncpu (mpe_start entry) s"
  shows "(\<forall>s'. mpe_step ncpu s s' \<longrightarrow> s' = s \<or> mpe_rank ncpu s' < mpe_rank ncpu s) \<and>
    (mpe_done ncpu entry s \<or> (\<exists>s'. mpe_step ncpu s s' \<and> mpe_rank ncpu s' < mpe_rank ncpu s))"
proof -
  have i: "mpe_inv ncpu entry s" by (rule reach_inv [OF assms])
  then show ?thesis using mpe_not_stuck boot_step_rank ap_step_rank by (blast elim: mpe_stepE)
qed

theorem mpe_hand_over_witness:
  "\<exists>s. mpe_reach 2 (mpe_start 7) s \<and> ap_at s 1 = Ap_started \<and> boot_at s = Boot_wait 1"
proof -
  let ?s1 = "the (boot_step 2 (mpe_start 7))"
  let ?s2 = "the (boot_step 2 ?s1)"
  have "boot_step 2 (mpe_start 7) = Some ?s1" "boot_step 2 ?s1 = Some ?s2" by (simp_all add: boot_step_def mpe_start_def)
  then have r: "mpe_reach 2 (mpe_start 7) ?s2" by (meson mpe_reach.intros mpe_step.Boot)
  moreover have "ap_at ?s2 1 = Ap_started" by (simp add: boot_step_def mpe_start_def)
  ultimately show ?thesis using mpe_hand_over [OF r] by blast
qed

theorem mpe_terminates_witness:
  "\<exists>s'. mpe_step 2 (mpe_start 7) s' \<and> mpe_rank 2 s' < mpe_rank 2 (mpe_start 7)"
  using mpe_terminates [of 2 7 "mpe_start 7", OF mpe_reach.Refl] by (simp add: mpe_done_def mpe_start_def)

section \<open>Descriptors\<close>

lemma low_byte: "(x :: u32) AND 0xff = take_bit 8 x" and low_word: "(x :: u32) AND 0xffff = take_bit 16 x"
proof -
  have "(0xff :: u32) = mask 8" "(0xffff :: u32) = mask 16" by (simp_all add: mask_eq_exp_minus_1)
  then show "x AND 0xff = take_bit 8 x" "x AND 0xffff = take_bit 16 x" by (simp_all only: take_bit_eq_mask)
qed

lemma join_base:
  "push_bit 24 (ucast (ucast (drop_bit 24 b) :: 8 word)) OR push_bit 16 (ucast (ucast (take_bit 8 (drop_bit 16 b)) :: 8 word)) OR
     ucast (ucast (take_bit 16 b) :: 16 word) = (b :: u32)"
proof (rule bit_word_eqI)
  fix n assume "n < LENGTH(32)"
  then consider "n < 16" | "16 \<le> n" "n < 24" | "24 \<le> n" "n < 32" by fastforce
  then show "bit (push_bit 24 (ucast (ucast (drop_bit 24 b) :: 8 word) :: u32) OR push_bit 16 (ucast (ucast (take_bit 8 (drop_bit 16 b)) :: 8 word)) OR
     ucast (ucast (take_bit 16 b) :: 16 word)) n = bit b n"
    by cases (auto simp: bit_simps)
qed

lemma seg_base_eq: "seg_base (SEG16 t b l d) = b" "seg_base (SEG32 t b l d) = b"
  using join_base [of b] by (simp_all add: seg_base_def SEG16_def SEG32_def low_byte low_word)

lemma seg_limits: "seg_limit (SEG16 t b 103 d) = 103" "seg_limit (SEG32 t b 0xffffffff d) = 0xffffffff"
  by (simp_all add: seg_limit_def SEG16_def SEG32_def)

text \<open>The descriptors a processor is given.\<close>

definition flat_segment :: "nat \<Rightarrow> nat \<Rightarrow> SegDesc \<Rightarrow> bool" where
  "flat_segment type dpl d \<longleftrightarrow> seg_base d = 0 \<and> seg_limit d = 0xffffffff \<and> sd_type d = of_nat type \<and> sd_s d = 1 \<and> sd_dpl d = of_nat dpl \<and>
     sd_p d = 1 \<and> sd_db d = 1 \<and> sd_l d = 0"

context local_apic
begin

lemma initgdt_run:
  assumes M: "lapic_at (m_io M) = lapic" "length (m_cpuinfo M) = MAX_CPU"
  shows "\<exists>d. am_percpu_initgdt io ld M = Inr (M\<lparr>m_io := (m_io M)\<lparr>i_dev := d\<rparr>, m_cpuinfo := (m_cpuinfo M)[cpu := (m_cpuinfo M ! cpu)\<lparr>cl_gdt :=
      (cl_gdt (m_cpuinfo M ! cpu))[1 := SEG32 (STA_X OR STA_R) 0 0xffffffff DPL_KERN, 2 := SEG32 STA_W 0 0xffffffff DPL_KERN,
        3 := SEG32 (STA_X OR STA_R) 0 0xffffffff DPL_USER, 4 := SEG32 STA_W 0 0xffffffff DPL_USER, 5 := SEG16 STS_T32A (tss_at ld cpu) 103 DPL_KERN]\<rparr>],
      m_regs := (m_regs M)\<lparr>gdtr := (gdt_at ld cpu, 48), tr := ucast (KSEL SEG_TSS)\<rparr>\<rparr>)"
proof -
  from this_cpu_ok [OF M] obtain d where d: "this_cpu io M = Inr (cpu, M\<lparr>m_io := (m_io M)\<lparr>i_dev := d\<rparr>\<rparr>)" by blast
  from this_cpu_ok [of "M\<lparr>m_io := (m_io M)\<lparr>i_dev := d\<rparr>\<rparr>"] M obtain d'
    where "this_cpu io (M\<lparr>m_io := (m_io M)\<lparr>i_dev := d\<rparr>\<rparr>) = Inr (cpu, M\<lparr>m_io := (m_io M)\<lparr>i_dev := d'\<rparr>\<rparr>)" by auto
  then have "am_percpu_initgdt io ld M = Inr (M\<lparr>m_io := (m_io M)\<lparr>i_dev := d'\<rparr>, m_cpuinfo := (m_cpuinfo M)[cpu := (m_cpuinfo M ! cpu)\<lparr>cl_gdt :=
      (cl_gdt (m_cpuinfo M ! cpu))[1 := SEG32 (STA_X OR STA_R) 0 0xffffffff DPL_KERN, 2 := SEG32 STA_W 0 0xffffffff DPL_KERN,
        3 := SEG32 (STA_X OR STA_R) 0 0xffffffff DPL_USER, 4 := SEG32 STA_W 0 0xffffffff DPL_USER, 5 := SEG16 STS_T32A (tss_at ld cpu) 103 DPL_KERN]\<rparr>],
      m_regs := (m_regs M)\<lparr>gdtr := (gdt_at ld cpu, 48), tr := ucast (KSEL SEG_TSS)\<rparr>\<rparr>)"
    using d by (simp add: am_percpu_initgdt_def Let_def NR_SEG_def SEG_KCODE_def SEG_KDATA_def SEG_UCODE_def SEG_UDATA_def SEG_TSS_def)
  then show ?thesis by blast
qed

end

text \<open>
  Descriptor tables. The per-processor initialisation gives the processor flat 4 GiB code and data segments for kernel and
  user mode, each with its privilege level, and a task state segment at the address of its own \<open>tss\<close>; it loads both
  tables, leaves the tables of the other processors alone, and keeps the state otherwise.
\<close>

theorem initgdt_flat:
  assumes "local_apic io (lapic_at (m_io M)) cpu" "length (m_cpuinfo M) = MAX_CPU" "length (cl_gdt (m_cpuinfo M ! cpu)) = NR_SEG"
  shows "\<exists>M' gdt. am_percpu_initgdt io ld M = Inr M' \<and> gdt = cl_gdt (m_cpuinfo M' ! cpu) \<and>
    flat_segment 0xA 0 (gdt ! SEG_KCODE) \<and> flat_segment 0x2 0 (gdt ! SEG_KDATA) \<and> flat_segment 0xA 3 (gdt ! SEG_UCODE) \<and> flat_segment 0x2 3 (gdt ! SEG_UDATA) \<and>
    seg_base (gdt ! SEG_TSS) = tss_at ld cpu \<and> seg_limit (gdt ! SEG_TSS) = 103 \<and> sd_s (gdt ! SEG_TSS) = 0 \<and> sd_type (gdt ! SEG_TSS) = 9 \<and>
    gdtr (m_regs M') = (gdt_at ld cpu, 48) \<and> tr (m_regs M') = ucast (KSEL SEG_TSS) \<and> (\<forall>c. c \<noteq> cpu \<longrightarrow> m_cpuinfo M' ! c = m_cpuinfo M ! c) \<and>
    cl_tss (m_cpuinfo M' ! cpu) = cl_tss (m_cpuinfo M ! cpu) \<and> mem_of M' = mem_of M \<and> m_idt M' = m_idt M"
proof -
  have c: "cpu < length (m_cpuinfo M)" using local_apic.cpu_lt [OF assms(1)] assms(2) by simp
  note seg = SEG_KCODE_def SEG_KDATA_def SEG_UCODE_def SEG_UDATA_def SEG_TSS_def
  have l: "length (cl_gdt (m_cpuinfo M ! cpu)) = 6" using assms(3) by (simp add: NR_SEG_def)
  from local_apic.initgdt_run [OF assms(1) refl assms(2), of ld] obtain d where "am_percpu_initgdt io ld M = Inr (M\<lparr>m_io := (m_io M)\<lparr>i_dev := d\<rparr>, m_cpuinfo := (m_cpuinfo M)[cpu := (m_cpuinfo M ! cpu)\<lparr>cl_gdt :=
      (cl_gdt (m_cpuinfo M ! cpu))[1 := SEG32 (STA_X OR STA_R) 0 0xffffffff DPL_KERN, 2 := SEG32 STA_W 0 0xffffffff DPL_KERN,
        3 := SEG32 (STA_X OR STA_R) 0 0xffffffff DPL_USER, 4 := SEG32 STA_W 0 0xffffffff DPL_USER, 5 := SEG16 STS_T32A (tss_at ld cpu) 103 DPL_KERN]\<rparr>],
      m_regs := (m_regs M)\<lparr>gdtr := (gdt_at ld cpu, 48), tr := ucast (KSEL SEG_TSS)\<rparr>\<rparr>)" by blast
  moreover have "flat_segment 0xA 0 (SEG32 (STA_X OR STA_R) 0 0xffffffff DPL_KERN)" "flat_segment 0x2 0 (SEG32 STA_W 0 0xffffffff DPL_KERN)"
    "flat_segment 0xA 3 (SEG32 (STA_X OR STA_R) 0 0xffffffff DPL_USER)" "flat_segment 0x2 3 (SEG32 STA_W 0 0xffffffff DPL_USER)"
    by (simp_all add: flat_segment_def seg_base_eq seg_limits) (simp_all add: SEG32_def STA_X_def STA_R_def STA_W_def DPL_KERN_def DPL_USER_def)
  moreover have "sd_s (SEG16 STS_T32A b l DPL_KERN) = 0" "sd_type (SEG16 STS_T32A b l DPL_KERN) = 9" for b l
    by (simp_all add: SEG16_def STS_T32A_def)
  ultimately show ?thesis using c l by (auto simp: seg seg_base_eq seg_limits)
qed

theorem initgdt_flat_witness:
  "\<exists>M'. am_percpu_initgdt (apic_ports 0xFEE00000 0) sample_symbols (sample_user\<lparr>m_cpuinfo := replicate 8 \<lparr>cl_gdt = replicate 6 (SEG16 0 0 0 0),
     cl_tss = \<lparr>tss_esp0 = 0, tss_ss0 = 0\<rparr>\<rparr>\<rparr>) = Inr M' \<and> tr (m_regs M') = 40"
  using initgdt_flat [of "apic_ports 0xFEE00000 0" "sample_user\<lparr>m_cpuinfo := replicate 8 \<lparr>cl_gdt = replicate 6 (SEG16 0 0 0 0),
     cl_tss = \<lparr>tss_esp0 = 0, tss_ss0 = 0\<rparr>\<rparr>\<rparr>" 0 sample_symbols] apic.local_apic_axioms
  by (auto simp: MAX_CPU_def NR_SEG_def selectors)

section \<open>Discovery of the processors\<close>

lemma find_mp_first:
  "k < n \<Longrightarrow> load32 m (a + of_nat k) = 0x5f504d5f \<Longrightarrow> \<forall>j<k. load32 m (a + of_nat j) \<noteq> 0x5f504d5f \<Longrightarrow> find_mp n a m = Some (a + of_nat k)"
proof (induction n arbitrary: a k)
  case (Suc n)
  show ?case
  proof (cases k)
    case 0
    then show ?thesis using Suc.prems by simp
  next
    case (Suc k')
    have "load32 m a \<noteq> 0x5f504d5f" using Suc.prems(3) Suc by (auto dest: spec [of _ 0])
    moreover have "\<forall>j<k'. load32 m (a + 1 + of_nat j) \<noteq> 0x5f504d5f"
      using Suc.prems(3) Suc by (auto simp: add.assoc dest: spec [of _ "Suc j" for j])
    moreover have "a + 1 + of_nat k' = a + of_nat k" using Suc by simp
    ultimately show ?thesis using Suc.IH [of k' "a + 1"] Suc.prems(1,2) Suc by (simp add: add.assoc)
  qed
qed simp

lemma find_mp_none: "\<forall>j<n. load32 m (a + of_nat j) \<noteq> 0x5f504d5f \<Longrightarrow> find_mp n a m = None"
proof (induction n arbitrary: a)
  case (Suc n)
  have "load32 m a \<noteq> 0x5f504d5f" using Suc.prems by (auto dest: spec [of _ 0])
  moreover have "\<forall>j<n. load32 m (a + 1 + of_nat j) \<noteq> 0x5f504d5f"
    using Suc.prems by (auto simp: add.assoc dest: spec [of _ "Suc j" for j])
  ultimately show ?case using Suc.IH by simp
qed simp

text \<open>A table of entries, \<open>True\<close> for a processor.\<close>

fun mp_table :: "mem32 \<Rightarrow> u32 \<Rightarrow> bool list \<Rightarrow> bool" where
  "mp_table m a [] = True"
| "mp_table m a (e # es) \<longleftrightarrow> (m a = 0 \<longleftrightarrow> e) \<and> mp_table m (a + (if e then 20 else 8)) es"

definition mp_size :: "bool list \<Rightarrow> nat" where
  "mp_size es = sum_list (map (\<lambda>e. if e then 20 else 8) es)"

lemma mp_entries_count:
  "mp_table m a es \<Longrightarrow> unat a + mp_size es < 2 ^ 32 \<Longrightarrow> n \<le> MAX_CPU \<Longrightarrow> mp_entries m (a + of_nat (mp_size es)) a n =
     Some (if n + count_list es True \<le> MAX_CPU then Inr (n + count_list es True) else Inl (Panic ''cannot support > MAX_CPU processors''))"
proof (induction es arbitrary: a n)
  case Nil
  then show ?case by (subst mp_entries.simps) (simp add: mp_size_def)
next
  case (Cons e es)
  let ?k = "if e then 20 else 8 :: nat"
  have s: "mp_size (e # es) = ?k + mp_size es" by (simp add: mp_size_def)
  have lt: "a < a + of_nat (mp_size (e # es))"
    using Cons.prems(2) s by (simp add: word_less_nat_alt unat_word_ariths(1) unat_of_nat del: of_nat_add split: if_splits)
  have a: "unat (a + of_nat ?k) = unat a + ?k" using Cons.prems(2) s by (simp add: unat_word_ariths(1) split: if_splits)
  have ed: "a + of_nat (mp_size (e # es)) = a + of_nat ?k + of_nat (mp_size es)" unfolding s by simp
  have t: "mp_table m (a + of_nat ?k) es" "(m a = 0) = e" using Cons.prems(1) by (simp_all split: if_splits)
  note IH = Cons.IH [OF t(1), unfolded a]
  show ?case
  proof (cases e)
    case True
    then show ?thesis
      using lt t(2) IH [of "Suc n"] Cons.prems(2,3) s ed by (subst mp_entries.simps) (auto simp: add.assoc)
  next
    case False
    then show ?thesis
      using lt t(2) IH [of n] Cons.prems(2,3) s ed by (subst mp_entries.simps) (auto simp: add.assoc)
  qed
qed

text \<open>
  Discovery of the processors. From the first signature \<open>_MP_\<close> of the search range, \<open>__am_lapic_init\<close> finds the
  configuration table, takes the address of the local APIC from it and counts exactly its processor entries, whatever
  other entries lie between them; more than eight processors are a panic, and so is a machine without a signature.
\<close>

theorem lapic_init_counts:
  assumes "m_ncpu M = 0"
  shows "((\<forall>j<0xffffff - 0xf0000. load32 (mem_of M) (0xf0000 + of_nat j) \<noteq> 0x5f504d5f) \<longrightarrow> am_lapic_init M = Inl (Panic ''internal error (likely a bug in AM)'')) \<and>
    (\<forall>k conf es. k < 0xffffff - 0xf0000 \<and> load32 (mem_of M) (0xf0000 + of_nat k) = 0x5f504d5f \<and> (\<forall>j<k. load32 (mem_of M) (0xf0000 + of_nat j) \<noteq> 0x5f504d5f) \<and>
       conf = load32 (mem_of M) (0xf0000 + of_nat k + 4) \<and> mp_table (mem_of M) (conf + 44) es \<and>
       unat (load16 (mem_of M) (conf + 4)) = 44 + mp_size es \<and> unat conf + 44 + mp_size es < 2 ^ 32 \<longrightarrow>
     am_lapic_init M = (if count_list es True \<le> MAX_CPU
       then Inr (M\<lparr>m_io := (m_io M)\<lparr>lapic_at := load32 (mem_of M) (conf + 36)\<rparr>, m_ncpu := count_list es True\<rparr>)
       else Inl (Panic ''cannot support > MAX_CPU processors'')))"
proof (intro conjI impI allI, goal_cases)
  case 1
  then show ?case using find_mp_none [of "0xffffff - 0xf0000"] by (simp add: am_lapic_init_def)
next
  case (2 k conf es)
  then have f: "find_mp (0xffffff - 0xf0000) 0xf0000 (mem_of M) = Some (0xf0000 + of_nat k)" by (intro find_mp_first) auto
  have t: "mp_table (mem_of M) (conf + 44) es" and len: "unat (load16 (mem_of M) (conf + 4)) = 44 + mp_size es" and lt: "unat conf + 44 + mp_size es < 2 ^ 32" using 2 by blast+
  have "ucast (load16 (mem_of M) (conf + 4)) = (of_nat (44 + mp_size es) :: u32)" unfolding len [symmetric] by simp
  then have ed: "conf + ucast (load16 (mem_of M) (conf + 4)) = conf + 44 + of_nat (mp_size es)" by simp
  have "unat (conf + 44) = unat conf + 44" using lt by (simp add: unat_word_ariths(1))
  then have "mp_entries (mem_of M) (conf + ucast (load16 (mem_of M) (conf + 4))) (conf + 44) 0 =
      Some (if 0 + count_list es True \<le> MAX_CPU then Inr (0 + count_list es True) else Inl (Panic ''cannot support > MAX_CPU processors''))"
    unfolding ed using t lt by (intro mp_entries_count) simp_all
  then show ?case using f 2 assms by (simp add: am_lapic_init_def Let_def)
qed

definition sample_mp_memory :: mem32 where
  "sample_mp_memory = mem_put (mem_put (\<lambda>_. 1) 0xf0000 (words_bytes [0x5f504d5f, 0x2000])) 0x2000
     (words_bytes [0, 72, 0, 0, 0, 0, 0, 0, 0, 0xFEE00000, 0, 0, 0, 0, 0, 0, 2, 0])"

theorem lapic_init_counts_witness:
  "\<exists>M'. am_lapic_init (sample_mach 0 0 sample_mp_memory\<lparr>m_ncpu := 0\<rparr>) = Inr M' \<and> m_ncpu M' = 1 \<and> lapic_at (m_io M') = 0xFEE00000"
proof -
  let ?M = "sample_mach 0 0 sample_mp_memory\<lparr>m_ncpu := 0\<rparr>" and ?m = sample_mp_memory
  let ?ws = "[0, 72, 0, 0, 0, 0, 0, 0, 0, 0xFEE00000, 0, 0, 0, 0, 0, 0, 2, 0] :: u32 list"
  have l: "load32 ?m 0xf0000 = 0x5f504d5f" "load32 ?m 0xf0004 = 0x2000" "load32 ?m 0x2004 = 72" "load32 ?m 0x2024 = 0xFEE00000"
    unfolding sample_mp_memory_def
    using load32_put [of "0xf0000" "[0x5f504d5f, 0x2000]" 0 "0xf0000"] load32_put [of "0xf0000" "[0x5f504d5f, 0x2000]" 1 "0xf0004"]
      load32_put [of "0x2000" ?ws 1 "0x2004"] load32_put [of "0x2000" ?ws 9 "0x2024"]
    by (simp_all add: load32_put_other del: mem_put.simps)
  have b: "?m 0x202c = 0" "?m 0x2040 = 2"
    unfolding sample_mp_memory_def by (simp_all add: mem_put_range words_bytes_def le_bytes_def nth_append del: mem_put.simps)
  have "am_lapic_init ?M = (if count_list [True, False] True \<le> MAX_CPU
      then Inr (?M\<lparr>m_io := (m_io ?M)\<lparr>lapic_at := load32 (mem_of ?M) (0x2000 + 36)\<rparr>, m_ncpu := count_list [True, False] True\<rparr>)
      else Inl (Panic ''cannot support > MAX_CPU processors''))"
    by (rule lapic_init_counts [of ?M, THEN conjunct2, rule_format, of 0]) (simp_all add: l b load16_load32 mp_size_def)
  then show ?thesis by (simp add: MAX_CPU_def l)
qed

end
