(* ===== verification/Native.thy ===== *)
theory Native
  imports Cte
begin

text \<open>
  AbstractMachine on a Linux host (\<open>am/src/native\<close>): address spaces as lists of page mappings that \<open>__am_switch\<close> installs
  with \<open>mmap\<close> (\<open>vme.c\<close>, \<open>platform.c\<close>), and events delivered as signals (\<open>cte.c\<close>).

  The host is a parameter: which \<open>mmap\<close> and \<open>munmap\<close> calls succeed, the addresses the linker chose and the size of a
  \<open>ucontext_t\<close>. What a signal saves beside the registers named here is a value of type \<open>'u\<close>, which the code only copies.
\<close>

section \<open>State\<close>

record PageMap =
  pm_va :: u64
  pm_pa :: u64
  pm_next :: u64
  pm_prot :: u32
  pm_is_mapped :: bool

record NAddrSpace =
  na_ptr :: u64
  na_pgsize :: u64
  na_area :: "u64 Area"

record nevent =
  nev_event :: event_kind
  nev_cause :: u64
  nev_ref :: u64

record 'u uctx =
  g_rip :: u64
  g_rsp :: u64
  g_rax :: u64
  g_rdi :: u64
  g_rsi :: u64
  g_sigmask :: "nat set"
  g_rest :: 'u

record 'u ncontext =
  nc_ksp :: u64
  nc_vm_head :: u64
  nc_uc :: "'u uctx"

text \<open>
  \<open>n_page\<close> is the memory of pages used as \<open>PageMap\<close>, \<open>n_ctx\<close> the memory of contexts, \<open>n_avail\<close> what \<open>pgalloc\<close> will return,
  \<open>n_host\<close> the pages of user space the host has mapped: their offset in the memory object and their protection.
\<close>

record 'u native =
  n_page :: "u64 \<Rightarrow> PageMap"
  n_ctx :: "u64 \<Rightarrow> 'u ncontext"
  n_avail :: "u64 list"
  n_enable :: bool
  n_vm_head :: u64
  n_ksp :: u64
  n_ev :: nevent
  n_host :: "u64 \<rightharpoonup> u64 \<times> u32"
  n_handler :: u64

record 'u host =
  h_mmap_ok :: "u64 \<Rightarrow> u64 \<Rightarrow> bool"
  h_munmap_ok :: "u64 \<Rightarrow> bool"
  h_pgsize :: u64
  h_pmem :: u64
  h_text :: "u64 Area"
  h_sigprocmask :: u64
  h_sizeof_ctx :: u64
  h_irq_handle :: u64
  h_kcontext_start :: u64
  h_uc_example :: "'u uctx"
  h_call :: "u64 \<Rightarrow> nevent \<Rightarrow> u64 \<Rightarrow> 'u native \<Rightarrow> u64 \<times> 'u native"

definition USER_SPACE :: "u64 Area" where
  "USER_SPACE = \<lparr>a_start = 0x40000000, a_end = 0xc0000000\<rparr>"

section \<open>Host mappings\<close>

definition PROT_READ :: u32 where "PROT_READ = 1"
definition PROT_WRITE :: u32 where "PROT_WRITE = 2"
definition PROT_EXEC :: u32 where "PROT_EXEC = 4"

definition mmap_prot :: "u32 \<Rightarrow> u32" where
  "mmap_prot prot =
     (let p = (if prot AND MMAP_READ \<noteq> 0 then PROT_READ OR PROT_EXEC else 0)
      in if prot AND MMAP_WRITE \<noteq> 0 then p OR PROT_WRITE else p)"

definition am_pmem_map :: "'u host \<Rightarrow> u64 \<Rightarrow> u64 \<Rightarrow> u32 \<Rightarrow> 'u native \<Rightarrow> 'u native res" where
  "am_pmem_map h va pa prot st =
     bindE (assertE (h_mmap_ok h va (pa - h_pmem h))) (\<lambda>_. Inr (st\<lparr>n_host := (n_host st)(va \<mapsto> (pa - h_pmem h, mmap_prot prot))\<rparr>))"

definition am_pmem_unmap :: "'u host \<Rightarrow> u64 \<Rightarrow> 'u native \<Rightarrow> 'u native res" where
  "am_pmem_unmap h va st = bindE (assertE (h_munmap_ok h va)) (\<lambda>_. Inr (st\<lparr>n_host := (n_host st)(va := None)\<rparr>))"

section \<open>Address spaces\<close>

definition npgalloc :: "'u native \<Rightarrow> u64 \<times> 'u native" where
  "npgalloc st = (case n_avail st of [] \<Rightarrow> (0, st) | p # ps \<Rightarrow> (p, st\<lparr>n_avail := ps\<rparr>))"

definition native_vme_init :: "'u native \<Rightarrow> 'u native" where
  "native_vme_init st = st\<lparr>n_enable := True\<rparr>"

definition native_protect :: "'u host \<Rightarrow> 'u native \<Rightarrow> NAddrSpace \<times> 'u native" where
  "native_protect h st =
     (let (p, st) = npgalloc st in (\<lparr>na_ptr = p, na_pgsize = h_pgsize h, na_area = USER_SPACE\<rparr>, st))"

definition native_unprotect :: "NAddrSpace \<Rightarrow> 'u native \<Rightarrow> 'u native" where
  "native_unprotect as st = st"

definition set_mapped :: "u64 \<Rightarrow> bool \<Rightarrow> 'u native \<Rightarrow> 'u native" where
  "set_mapped p b st = st\<lparr>n_page := (n_page st)(p := (n_page st p)\<lparr>pm_is_mapped := b\<rparr>)\<rparr>"

partial_function (option) unmap_all :: "'u host \<Rightarrow> u64 \<Rightarrow> 'u native \<Rightarrow> 'u native res option" where
  "unmap_all h pp st =
     (if pp = 0 then Some (Inr st)
      else if pm_is_mapped (n_page st pp) then
        case am_pmem_unmap h (pm_va (n_page st pp)) st of
          Inl e \<Rightarrow> Some (Inl e)
        | Inr st \<Rightarrow> unmap_all h (pm_next (n_page st pp)) (set_mapped pp False st)
      else unmap_all h (pm_next (n_page st pp)) st)"

partial_function (option) map_all :: "'u host \<Rightarrow> u64 \<Rightarrow> 'u native \<Rightarrow> 'u native res option" where
  "map_all h pp st =
     (if pp = 0 then Some (Inr st)
      else case bindE (assertE (IN_RANGE (pm_va (n_page st pp)) USER_SPACE)) (\<lambda>_.
             am_pmem_map h (pm_va (n_page st pp)) (pm_pa (n_page st pp)) (pm_prot (n_page st pp)) st) of
        Inl e \<Rightarrow> Some (Inl e)
      | Inr st \<Rightarrow> map_all h (pm_next (n_page st pp)) (set_mapped pp True st))"

definition loopE :: "'a res option \<Rightarrow> 'a res" where
  "loopE r = (case r of None \<Rightarrow> Inl Diverge | Some x \<Rightarrow> x)"

definition native_switch :: "'u host \<Rightarrow> u64 \<Rightarrow> 'u native \<Rightarrow> 'u native res" where
  "native_switch h vm_head st =
     (if \<not> n_enable st then Inr st
      else if vm_head = n_vm_head st then Inr st
      else
        bindE (if n_vm_head st \<noteq> 0 then loopE (unmap_all h (pm_next (n_page st (n_vm_head st))) st) else Inr st) (\<lambda>st.
        bindE (if vm_head \<noteq> 0 then loopE (map_all h (pm_next (n_page st vm_head)) st) else Inr st) (\<lambda>st.
        Inr (st\<lparr>n_vm_head := vm_head\<rparr>))))"

partial_function (option) find_page :: "(u64 \<Rightarrow> PageMap) \<Rightarrow> u64 \<Rightarrow> u64 \<Rightarrow> u64 option" where
  "find_page pages va pp = (if pp = 0 then Some 0 else if pm_va (pages pp) = va then Some pp else find_page pages va (pm_next (pages pp)))"

definition native_map :: "'u host \<Rightarrow> NAddrSpace option \<Rightarrow> u64 \<Rightarrow> u64 \<Rightarrow> u32 \<Rightarrow> 'u native \<Rightarrow> 'u native res" where
  "native_map h as va pa prot st =
     bindE (assertE (IN_RANGE va USER_SPACE)) (\<lambda>_.
     bindE (assertE (va mod h_pgsize h = 0)) (\<lambda>_.
     bindE (assertE (pa mod h_pgsize h = 0)) (\<lambda>_.
     bindE (assertE (as \<noteq> None)) (\<lambda>_.
     let vm_head = na_ptr (the as) in
     bindE (assertE (vm_head \<noteq> 0)) (\<lambda>_.
     bindE (optE Diverge (find_page (n_page st) va (pm_next (n_page st vm_head)))) (\<lambda>pp.
     let (pp, st) = (if pp = 0 then npgalloc st else (pp, st)) in
     if pp = 0 then Inl Null_deref else
     let st = st\<lparr>n_page := (n_page st)(pp := \<lparr>pm_va = va, pm_pa = pa, pm_next = pm_next (n_page st vm_head), pm_prot = prot, pm_is_mapped = False\<rparr>)\<rparr>;
         st = st\<lparr>n_page := (n_page st)(vm_head := (n_page st vm_head)\<lparr>pm_next := pp\<rparr>)\<rparr>
     in if vm_head = n_vm_head st then
          bindE (am_pmem_map h (pm_va (n_page st pp)) (pm_pa (n_page st pp)) (pm_prot (n_page st pp)) st) (\<lambda>st. Inr (set_mapped pp True st))
        else Inr st))))))"

definition am_in_userspace :: "u64 \<Rightarrow> 'u native \<Rightarrow> bool" where
  "am_in_userspace addr st \<longleftrightarrow> n_enable st \<and> n_vm_head st \<noteq> 0 \<and> IN_RANGE addr USER_SPACE"

section \<open>Signals\<close>

definition SIGUSR1 :: nat where "SIGUSR1 = 10"
definition SIGSEGV :: nat where "SIGSEGV = 11"
definition SIGVTALRM :: nat where "SIGVTALRM = 26"
definition SEGV_MAPERR :: nat where "SEGV_MAPERR = 1"
definition SEGV_ACCERR :: nat where "SEGV_ACCERR = 2"

definition intr_sigmask :: "nat set" where "intr_sigmask = {SIGVTALRM, SIGUSR1}"

definition YIELD_INSTR_LEN :: u64 where "YIELD_INSTR_LEN = 7"
definition SYSCALL_INSTR_LEN :: u64 where "SYSCALL_INSTR_LEN = YIELD_INSTR_LEN"

text \<open>\<open>setup_stack\<close>: the context on the kernel stack, and the registers with which the signal handler returns.\<close>

definition signal_safe :: "'u host \<Rightarrow> u64 \<Rightarrow> bool \<Rightarrow> bool" where
  "signal_safe h rip trap_from_user \<longleftrightarrow> IN_RANGE rip (h_text h) \<or> trap_from_user \<or> rip = h_sigprocmask h + 13"

definition setup_stack :: "'u host \<Rightarrow> event_kind \<Rightarrow> 'u uctx \<Rightarrow> 'u native \<Rightarrow> 'u uctx \<times> 'u native" where
  "setup_stack h ev uc st =
     (let rip = g_rip uc;
          trap_from_user = am_in_userspace rip st
      in if (ev = EVENT_IRQ_IODEV \<or> ev = EVENT_IRQ_TIMER) \<and> \<not> signal_safe h rip trap_from_user then (uc, st)
      else
      let rip = (if ev = EVENT_SYSCALL then rip + SYSCALL_INSTR_LEN else if ev = EVENT_YIELD then rip + YIELD_INSTR_LEN else rip);
          uc = uc\<lparr>g_rip := rip\<rparr>;
          rsp = (if trap_from_user then n_ksp st else g_rsp uc);
          rsp = rsp - h_sizeof_ctx h;
          rsp = (if (rsp + 8) mod 16 \<noteq> 0 then rsp - 8 else rsp);
          c = rsp;
          st = st\<lparr>n_ctx := (n_ctx st)(c := (n_ctx st c)\<lparr>nc_uc := uc\<rparr>)\<rparr>
      in (uc\<lparr>g_sigmask := intr_sigmask, g_rdi := c, g_rip := h_irq_handle h, g_rsp := c\<rparr>, st))"

definition native_iret :: "'u uctx \<Rightarrow> 'u native \<Rightarrow> 'u uctx \<times> 'u native" where
  "native_iret uc st = (let c = n_ctx st (g_rax uc) in (nc_uc c, st\<lparr>n_ksp := nc_ksp c\<rparr>))"

text \<open>The event of a signal; \<open>None\<close> for the call that restores a context.\<close>

definition signal_event :: "nat \<Rightarrow> nat \<Rightarrow> u64 \<Rightarrow> 'u native \<Rightarrow> nevent option res" where
  "signal_event sig si_code si_addr st =
     (let ev = \<lparr>nev_event = EVENT_ERROR, nev_cause = 0, nev_ref = 0\<rparr> in
      bindE (if sig = SIGUSR1 then Inr (Some (ev\<lparr>nev_event := EVENT_IRQ_IODEV\<rparr>))
        else if sig = SIGVTALRM then Inr (Some (ev\<lparr>nev_event := EVENT_IRQ_TIMER\<rparr>))
        else if sig = SIGSEGV then
          if si_code = SEGV_ACCERR \<and> si_addr = 0x100010 then Inr None
          else
          let ev = (if si_code = SEGV_ACCERR \<and> si_addr = 0x100000 then ev\<lparr>nev_event := EVENT_SYSCALL\<rparr>
                    else if si_code = SEGV_ACCERR \<and> si_addr = 0x100008 then ev\<lparr>nev_event := EVENT_YIELD\<rparr> else ev)
          in if am_in_userspace si_addr st then
               bindE (assertE (nev_event ev = EVENT_ERROR)) (\<lambda>_.
               let ev = ev\<lparr>nev_event := EVENT_PAGEFAULT\<rparr> in
               bindE (if si_code = SEGV_MAPERR then Inr (ev\<lparr>nev_cause := ucast MMAP_READ\<rparr>)
                      else if si_code = SEGV_ACCERR then Inr (ev\<lparr>nev_cause := ucast MMAP_WRITE\<rparr>) else Inl Assert_fail) (\<lambda>ev.
               Inr (Some (ev\<lparr>nev_ref := si_addr\<rparr>))))
             else Inr (Some ev)
        else Inl Assert_fail) (\<lambda>r.
      case r of None \<Rightarrow> Inr None | Some ev \<Rightarrow> bindE (assertE (nev_event ev \<noteq> EVENT_ERROR)) (\<lambda>_. Inr (Some ev))))"

definition sig_handler :: "'u host \<Rightarrow> nat \<Rightarrow> nat \<Rightarrow> u64 \<Rightarrow> 'u uctx \<Rightarrow> 'u native \<Rightarrow> ('u uctx \<times> 'u native) res" where
  "sig_handler h sig si_code si_addr uc st =
     bindE (signal_event sig si_code si_addr st) (\<lambda>r.
     case r of
       None \<Rightarrow> Inr (native_iret uc (st\<lparr>n_ev := \<lparr>nev_event = EVENT_ERROR, nev_cause = 0, nev_ref = 0\<rparr>\<rparr>))
     | Some ev \<Rightarrow> Inr (setup_stack h (nev_event ev) uc (st\<lparr>n_ev := ev\<rparr>)))"

text \<open>
  \<open>irq_handle\<close>, which runs on the registers \<open>setup_stack\<close> left, up to the call of address 0x100010 with the context in
  \<open>rax\<close>; the host delivers that call as an access error there.
\<close>

definition irq_handle :: "'u host \<Rightarrow> 'u uctx \<Rightarrow> 'u native \<Rightarrow> ('u uctx \<times> 'u native) res" where
  "irq_handle h uc st =
     (let c = g_rdi uc;
          st = st\<lparr>n_ctx := (n_ctx st)(c := (n_ctx st c)\<lparr>nc_vm_head := n_vm_head st, nc_ksp := n_ksp st\<rparr>)\<rparr>
      in if n_handler st = 0 then Inl Null_deref else
      let (c, st) = h_call h (n_handler st) (n_ev st) c st in
      bindE (assertE (c \<noteq> 0)) (\<lambda>_.
      bindE (native_switch h (nc_vm_head (n_ctx st c)) st) (\<lambda>st.
      Inr (uc\<lparr>g_rax := c\<rparr>, st))))"

text \<open>A signal that arrives at the registers \<open>uc\<close>, from the handler to the registers with which the host resumes.\<close>

definition deliver :: "'u host \<Rightarrow> nat \<Rightarrow> nat \<Rightarrow> u64 \<Rightarrow> 'u uctx \<Rightarrow> 'u native \<Rightarrow> ('u uctx \<times> 'u native) res" where
  "deliver h sig si_code si_addr uc st =
     bindE (sig_handler h sig si_code si_addr uc st) (\<lambda>(uc, st).
     if g_rip uc = h_irq_handle h then
       bindE (irq_handle h uc st) (\<lambda>(uc, st). sig_handler h SIGSEGV SEGV_ACCERR 0x100010 uc st)
     else Inr (uc, st))"

definition native_cte_init :: "u64 \<Rightarrow> 'u native \<Rightarrow> 'u native" where
  "native_cte_init handler st = st\<lparr>n_handler := handler\<rparr>"

definition native_kcontext :: "'u host \<Rightarrow> u64 Area \<Rightarrow> u64 \<Rightarrow> u64 \<Rightarrow> 'u native \<Rightarrow> u64 \<times> 'u native" where
  "native_kcontext h kstack entry arg st =
     (let c = a_end kstack - h_sizeof_ctx h;
          uc = (h_uc_example h)\<lparr>g_rip := h_kcontext_start h, g_rsp := a_end kstack, g_sigmask := {}, g_rdi := arg, g_rsi := entry\<rparr>
      in (c, st\<lparr>n_ctx := (n_ctx st)(c := (n_ctx st c)\<lparr>nc_uc := uc, nc_vm_head := 0\<rparr>)\<rparr>))"

definition native_ucontext :: "'u host \<Rightarrow> NAddrSpace \<Rightarrow> u64 Area \<Rightarrow> u64 \<Rightarrow> 'u native \<Rightarrow> u64 \<times> 'u native" where
  "native_ucontext h as kstack entry st =
     (let c = a_end kstack - h_sizeof_ctx h;
          uc = (h_uc_example h)\<lparr>g_rip := entry, g_rsp := a_end USER_SPACE, g_sigmask := {}\<rparr>
      in (c, st\<lparr>n_ctx := (n_ctx st)(c := (n_ctx st c)\<lparr>nc_uc := uc, nc_vm_head := na_ptr as, nc_ksp := a_end kstack\<rparr>)\<rparr>))"

definition native_ienabled :: "nat set \<Rightarrow> bool" where
  "native_ienabled sigmask \<longleftrightarrow> SIGVTALRM \<notin> sigmask"

definition native_iset :: "bool \<Rightarrow> nat set \<Rightarrow> nat set" where
  "native_iset enable sigmask = (if enable then sigmask - intr_sigmask else sigmask \<union> intr_sigmask)"

end
