(* ===== verification/Native_Correct.thy ===== *)
theory Native_Correct
  imports Native
begin

text \<open>
  The address spaces of the Linux host as partial functions: the host's mappings refine the current space and a switch ends, if
  heads are handed out clear; mapping a page twice does not end. Signals that the handler answers with the context it got are transparent.
\<close>

section \<open>Lists of page mappings\<close>

fun chain :: "(u64 \<Rightarrow> PageMap) \<Rightarrow> u64 \<Rightarrow> u64 list \<Rightarrow> bool" where
  "chain f p [] \<longleftrightarrow> p = 0"
| "chain f p (x # xs) \<longleftrightarrow> p = x \<and> x \<noteq> 0 \<and> chain f (pm_next (f x)) xs"

definition entry_of :: "'u host \<Rightarrow> PageMap \<Rightarrow> u64 \<times> u64 \<times> u32" where
  "entry_of h pm = (pm_va pm, pm_pa pm - h_pmem h, mmap_prot (pm_prot pm))"

definition space_of :: "'u host \<Rightarrow> (u64 \<Rightarrow> PageMap) \<Rightarrow> u64 list \<Rightarrow> u64 \<rightharpoonup> u64 \<times> u32" where
  "space_of h f xs = map_of (map (\<lambda>x. entry_of h (f x)) xs)"

definition mark :: "u64 set \<Rightarrow> bool \<Rightarrow> (u64 \<Rightarrow> PageMap) \<Rightarrow> u64 \<Rightarrow> PageMap" where
  "mark X b f = (\<lambda>x. if x \<in> X then (f x)\<lparr>pm_is_mapped := b\<rparr> else f x)"

lemma mark_simps [simp]:
  "pm_next (mark X b f x) = pm_next (f x)" "pm_va (mark X b f x) = pm_va (f x)" "pm_pa (mark X b f x) = pm_pa (f x)"
  "pm_prot (mark X b f x) = pm_prot (f x)" "pm_is_mapped (mark X b f x) = (if x \<in> X then b else pm_is_mapped (f x))"
  "mark {} b f = f"
  by (auto simp: mark_def)

lemma mark_entry [simp]: "entry_of h (mark X b f x) = entry_of h (f x)"
  by (simp add: entry_of_def)

lemma mark_space [simp]: "space_of h (mark X b f) xs = space_of h f xs"
  by (simp add: space_of_def)

lemma chain_cong: "(\<And>x. x \<in> set xs \<Longrightarrow> pm_next (f x) = pm_next (g x)) \<Longrightarrow> chain f p xs = chain g p xs"
  by (induction xs arbitrary: p) auto

lemma chain_mark [simp]: "chain (mark X b f) p xs = chain f p xs"
  by (rule chain_cong) simp

lemma chain_nonzero: "chain f p xs \<Longrightarrow> 0 \<notin> set xs"
  by (induction xs arbitrary: p) auto

lemma set_mapped_mark: "set_mapped p b st = st\<lparr>n_page := mark {p} b (n_page st)\<rparr>"
  by (auto simp: set_mapped_def mark_def fun_eq_iff)

lemma mark_mark [simp]: "mark X b (mark Y b f) = mark (X \<union> Y) b f"
  by (auto simp: mark_def fun_eq_iff)

lemma space_of_simps: "space_of h f [] = Map.empty"
  "space_of h f (x # xs) = (space_of h f xs)(pm_va (f x) \<mapsto> (pm_pa (f x) - h_pmem h, mmap_prot (pm_prot (f x))))"
  by (simp_all add: space_of_def entry_of_def)

lemma dom_space_of: "dom (space_of h f xs) = (\<lambda>x. pm_va (f x)) ` set xs"
  by (simp add: space_of_def dom_map_of_conv_image_fst image_image entry_of_def)

lemma space_of_cong: "(\<And>x. x \<in> set xs \<Longrightarrow> entry_of h (f x) = entry_of h (g x)) \<Longrightarrow> space_of h f xs = space_of h g xs"
  unfolding space_of_def by (metis (no_types, lifting) map_cong)

lemma find_page_chain:
  assumes "chain f p xs"
  shows "find_page f va p = Some (case find (\<lambda>x. pm_va (f x) = va) xs of None \<Rightarrow> 0 | Some x \<Rightarrow> x)"
  using assms by (induction xs arbitrary: p) (auto simp: find_page.simps)

lemma find_page_absent:
  assumes "chain f p xs" "va \<notin> (\<lambda>x. pm_va (f x)) ` set xs"
  shows "find_page f va p = Some 0"
proof -
  have "find (\<lambda>x. pm_va (f x) = va) xs = None"
    using assms(2) by (auto simp: find_None_iff)
  then show ?thesis
    using find_page_chain [OF assms(1)] by simp
qed

definition hide :: "'a set \<Rightarrow> ('a \<rightharpoonup> 'b) \<Rightarrow> 'a \<rightharpoonup> 'b" where
  "hide V m = (\<lambda>v. if v \<in> V then None else m v)"

lemma hide_simps: "hide {} m = m" "hide V (m(a := None)) = hide (insert a V) m" "dom m \<subseteq> V \<Longrightarrow> hide V m = Map.empty"
  by (auto simp: hide_def fun_eq_iff dom_def subset_iff)

lemma unmap_all_chain:
  assumes "chain (n_page st) p xs" "distinct xs" "\<forall>x\<in>set xs. pm_is_mapped (n_page st x)"
  shows "unmap_all h p st = Some (if \<forall>x\<in>set xs. h_munmap_ok h (pm_va (n_page st x))
    then Inr (st\<lparr>n_page := mark (set xs) False (n_page st), n_host := hide ((\<lambda>x. pm_va (n_page st x)) ` set xs) (n_host st)\<rparr>)
    else Inl Assert_fail)"
  using assms
proof (induction xs arbitrary: p st)
  case Nil
  then show ?case by (simp add: unmap_all.simps hide_simps)
next
  case (Cons x xs)
  define st1 where "st1 = set_mapped x False (st\<lparr>n_host := (n_host st)(pm_va (n_page st x) := None)\<rparr>)"
  have pg: "n_page st1 = mark {x} False (n_page st)" "n_host st1 = (n_host st)(pm_va (n_page st x) := None)"
    by (simp_all add: st1_def set_mapped_mark)
  have "chain (n_page st1) (pm_next (n_page st x)) xs" "\<forall>y\<in>set xs. pm_is_mapped (n_page st1 y)"
    using Cons.prems by (auto simp: pg)
  then have *: "unmap_all h (pm_next (n_page st x)) st1 = Some (if \<forall>y\<in>set xs. h_munmap_ok h (pm_va (n_page st y))
    then Inr (st1\<lparr>n_page := mark (set xs) False (n_page st1), n_host := hide ((\<lambda>y. pm_va (n_page st1 y)) ` set xs) (n_host st1)\<rparr>)
    else Inl Assert_fail)"
    using Cons.IH [of st1] Cons.prems by (simp add: pg)
  have st1: "st1\<lparr>n_page := A, n_host := B\<rparr> = st\<lparr>n_page := A, n_host := B\<rparr>" for A B
    by (simp add: st1_def set_mapped_def)
  show ?case
    using Cons.prems * unfolding unmap_all.simps [of h p st]
    by (auto simp: am_pmem_unmap_def assertE_def st1_def [symmetric] st1 pg hide_simps)
qed

lemma map_all_chain:
  assumes "chain (n_page st) p xs" "distinct xs" "distinct (map (\<lambda>x. pm_va (n_page st x)) xs)"
    "\<forall>x\<in>set xs. IN_RANGE (pm_va (n_page st x)) USER_SPACE"
  shows "map_all h p st = Some (if \<forall>x\<in>set xs. h_mmap_ok h (pm_va (n_page st x)) (pm_pa (n_page st x) - h_pmem h)
    then Inr (st\<lparr>n_page := mark (set xs) True (n_page st), n_host := n_host st ++ space_of h (n_page st) xs\<rparr>)
    else Inl Assert_fail)"
  using assms
proof (induction xs arbitrary: p st)
  case Nil
  then show ?case by (simp add: map_all.simps space_of_simps)
next
  case (Cons x xs)
  define e where "e = (pm_pa (n_page st x) - h_pmem h, mmap_prot (pm_prot (n_page st x)))"
  define st1 where "st1 = set_mapped x True (st\<lparr>n_host := (n_host st)(pm_va (n_page st x) \<mapsto> e)\<rparr>)"
  have pg: "n_page st1 = mark {x} True (n_page st)" "n_host st1 = (n_host st)(pm_va (n_page st x) \<mapsto> e)"
    by (simp_all add: st1_def set_mapped_mark)
  have *: "map_all h (pm_next (n_page st x)) st1 = Some (if \<forall>y\<in>set xs. h_mmap_ok h (pm_va (n_page st y)) (pm_pa (n_page st y) - h_pmem h)
    then Inr (st1\<lparr>n_page := mark (set xs) True (n_page st1), n_host := n_host st1 ++ space_of h (n_page st) xs\<rparr>)
    else Inl Assert_fail)"
    using Cons.IH [of st1 "pm_next (n_page st x)"] Cons.prems by (simp add: pg)
  have st1: "st1\<lparr>n_page := A, n_host := B\<rparr> = st\<lparr>n_page := A, n_host := B\<rparr>" for A B
    by (simp add: st1_def set_mapped_def)
  have "pm_va (n_page st x) \<notin> dom (space_of h (n_page st) xs)"
    using Cons.prems by (auto simp: dom_space_of)
  then have "(n_host st)(pm_va (n_page st x) \<mapsto> e) ++ space_of h (n_page st) xs = n_host st ++ space_of h (n_page st) (x # xs)"
    by (simp add: space_of_simps map_add_upd_left e_def)
  then show ?case
    using Cons.prems * unfolding map_all.simps [of h p st]
    by (auto simp: am_pmem_map_def assertE_def e_def [symmetric] st1_def [symmetric] st1 pg)
qed


section \<open>The mappings of the host are those of the current space\<close>

text \<open>
  An address space is a partial function from pages to their place in the memory object and their protection. The operations
  of the interface, on the address spaces \<open>A\<close> by their head: \<open>protect\<close> makes an empty space, \<open>map\<close> of a page not yet mapped
  adds it, a switch changes nothing but the current head. Two conditions on their use are premises here, because the code needs
  them and does not see to them: the page that the user's allocator hands out for a head has a null \<open>next\<close> field (it is not
  cleared by \<open>protect\<close>; \<open>native_dirty_head\<close> below shows what happens otherwise), and no page is mapped twice in a space
  (\<open>native_remap_cycle\<close>). Pages handed out for list nodes may hold anything.
\<close>

type_synonym spaces = "u64 \<rightharpoonup> u64 \<rightharpoonup> u64 \<times> u32"

inductive native_step :: "'u host \<Rightarrow> spaces \<times> 'u native \<Rightarrow> spaces \<times> 'u native \<Rightarrow> bool" for h where
  protect: "n_avail st \<noteq> [] \<Longrightarrow> native_protect h st = (as, st') \<Longrightarrow> pm_next (n_page st' (na_ptr as)) = 0 \<Longrightarrow>
    native_step h (A, st) (A(na_ptr as \<mapsto> Map.empty), st')"
| map: "A (na_ptr as) = Some m \<Longrightarrow> m va = None \<Longrightarrow> n_avail st \<noteq> [] \<Longrightarrow> native_map h (Some as) va pa prot st = Inr st' \<Longrightarrow>
    native_step h (A, st) (A(na_ptr as \<mapsto> m(va \<mapsto> (pa - h_pmem h, mmap_prot prot))), st')"
| switch: "vm_head = 0 \<or> A vm_head \<noteq> None \<Longrightarrow> native_switch h vm_head st = Inr st' \<Longrightarrow> native_step h (A, st) (A, st')"

definition native_boot :: "'u native \<Rightarrow> bool" where
  "native_boot st \<longleftrightarrow> n_enable st \<and> n_vm_head st = 0 \<and> n_host st = Map.empty \<and> distinct (n_avail st) \<and> 0 \<notin> set (n_avail st)"

inductive native_reach :: "'u host \<Rightarrow> spaces \<times> 'u native \<Rightarrow> bool" for h where
  boot: "native_boot st \<Longrightarrow> native_reach h (Map.empty, st)"
| step: "native_reach h s \<Longrightarrow> native_step h s s' \<Longrightarrow> native_reach h s'"

definition space_ok :: "'u host \<Rightarrow> 'u native \<Rightarrow> u64 \<Rightarrow> u64 list \<Rightarrow> (u64 \<rightharpoonup> u64 \<times> u32) \<Rightarrow> bool" where
  "space_ok h st p xs m \<longleftrightarrow> chain (n_page st) (pm_next (n_page st p)) xs \<and> distinct xs \<and> distinct (map (\<lambda>x. pm_va (n_page st x)) xs) \<and>
     (\<forall>x\<in>set xs. IN_RANGE (pm_va (n_page st x)) USER_SPACE) \<and> m = space_of h (n_page st) xs"

definition pages_ok :: "(u64 \<Rightarrow> u64 list) \<Rightarrow> spaces \<Rightarrow> 'u native \<Rightarrow> bool" where
  "pages_ok N A st \<longleftrightarrow> distinct (n_avail st) \<and> 0 \<notin> set (n_avail st) \<and> 0 \<notin> dom A \<and>
     (\<forall>p\<in>dom A. p \<notin> set (n_avail st) \<and> set (N p) \<inter> (dom A \<union> set (n_avail st)) = {} \<and> (\<forall>q\<in>dom A. p \<noteq> q \<longrightarrow> set (N p) \<inter> set (N q) = {}))"

definition native_inv :: "'u host \<Rightarrow> (u64 \<Rightarrow> u64 list) \<Rightarrow> spaces \<Rightarrow> 'u native \<Rightarrow> bool" where
  "native_inv h N A st \<longleftrightarrow> n_enable st \<and> pages_ok N A st \<and> (\<forall>p m. A p = Some m \<longrightarrow> space_ok h st p (N p) m) \<and>
     (n_vm_head st = 0 \<or> n_vm_head st \<in> dom A) \<and> n_host st = (case A (n_vm_head st) of None \<Rightarrow> Map.empty | Some m \<Rightarrow> m) \<and>
     (n_vm_head st \<noteq> 0 \<longrightarrow> (\<forall>x\<in>set (N (n_vm_head st)). pm_is_mapped (n_page st x)))"

lemma space_ok_mark: "space_ok h (st\<lparr>n_page := mark X b (n_page st)\<rparr>) p xs m = space_ok h st p xs m"
  by (simp add: space_ok_def)

lemma space_ok_page: "n_page st' = n_page st \<Longrightarrow> space_ok h st' p xs m = space_ok h st p xs m"
  by (simp add: space_ok_def)

lemma native_inv_boot: "native_boot st \<Longrightarrow> native_inv h (\<lambda>_. []) Map.empty st"
  by (auto simp: native_boot_def native_inv_def pages_ok_def)

lemma native_inv_protect:
  assumes "native_inv h N A st" "n_avail st \<noteq> []" "native_protect h st = (as, st')" "pm_next (n_page st' (na_ptr as)) = 0"
  shows "native_inv h (N(na_ptr as := [])) (A(na_ptr as \<mapsto> Map.empty)) st'"
proof -
  obtain p ps where av: "n_avail st = p # ps"
    using assms(2) by (cases "n_avail st") auto
  have st': "na_ptr as = p" "st' = st\<lparr>n_avail := ps\<rparr>"
    using assms(3) by (auto simp: native_protect_def npgalloc_def av)
  have "p \<noteq> 0" "p \<notin> dom A" "pm_next (n_page st p) = 0" "p \<noteq> n_vm_head st"
    using assms(1,4) by (auto simp: native_inv_def pages_ok_def av st')
  moreover have "pages_ok (N(p := [])) (A(p \<mapsto> Map.empty)) st'"
    using assms(1) unfolding native_inv_def pages_ok_def av st' by auto
  ultimately show ?thesis
    using assms(1) by (auto simp: native_inv_def st' space_ok_def space_of_simps)
qed


definition host_ok :: "'u host \<Rightarrow> bool" where
  "host_ok h \<longleftrightarrow> (\<forall>va off. h_mmap_ok h va off) \<and> (\<forall>va. h_munmap_ok h va)"

lemma native_inv_current:
  assumes "native_inv h N A st" "n_vm_head st \<noteq> 0"
  obtains m where "A (n_vm_head st) = Some m" "space_ok h st (n_vm_head st) (N (n_vm_head st)) m" "n_host st = m"
    "\<forall>x\<in>set (N (n_vm_head st)). pm_is_mapped (n_page st x)"
  using assms by (auto simp: native_inv_def)

lemma native_inv_zero: "native_inv h N A st \<Longrightarrow> A 0 = None"
  by (auto simp: native_inv_def pages_ok_def)

lemma native_inv_heads: "native_inv h N A st \<Longrightarrow> q \<in> dom A \<Longrightarrow> q \<noteq> 0 \<and> q \<notin> set (N q)"
  unfolding native_inv_def pages_ok_def by blast

lemma leave_space:
  assumes "native_inv h N A st"
  defines "r \<equiv> if n_vm_head st \<noteq> 0 then loopE (unmap_all h (pm_next (n_page st (n_vm_head st))) st) else Inr st"
  shows "r = Inl Assert_fail \<and> \<not> host_ok h \<or> (\<exists>X. r = Inr (st\<lparr>n_page := mark X False (n_page st), n_host := Map.empty\<rparr>))"
proof (cases "n_vm_head st = 0")
  case True
  then have "n_host st = Map.empty"
    using assms(1) native_inv_zero [OF assms(1)] by (simp add: native_inv_def)
  then have "st\<lparr>n_page := mark {} False (n_page st), n_host := Map.empty\<rparr> = st"
    by (intro native.equality) simp_all
  then show ?thesis using True unfolding r_def by metis
next
  case False
  obtain m where m: "space_ok h st (n_vm_head st) (N (n_vm_head st)) m" "n_host st = m"
    "\<forall>x\<in>set (N (n_vm_head st)). pm_is_mapped (n_page st x)"
    using native_inv_current [OF assms(1) False] by metis
  then have "hide ((\<lambda>x. pm_va (n_page st x)) ` set (N (n_vm_head st))) (n_host st) = Map.empty"
    by (simp add: space_ok_def hide_simps dom_space_of)
  then show ?thesis
    using m(1) unmap_all_chain [OF _ _ m(3), of "pm_next (n_page st (n_vm_head st))" h] False
    by (auto simp: r_def space_ok_def loopE_def host_ok_def)
qed

lemma enter_space:
  assumes "space_ok h st vm_head (N vm_head) m" "n_host st = Map.empty"
  defines "r \<equiv> loopE (map_all h (pm_next (n_page st vm_head)) st)"
  shows "r = Inl Assert_fail \<and> \<not> host_ok h \<or> r = Inr (st\<lparr>n_page := mark (set (N vm_head)) True (n_page st), n_host := m\<rparr>)"
  using assms(1,2) map_all_chain [of st "pm_next (n_page st vm_head)" "N vm_head" h]
  by (auto simp: r_def space_ok_def loopE_def host_ok_def)

lemma native_inv_enter:
  assumes "native_inv h N A st" "A vm_head = Some m"
  shows "native_inv h N A (st\<lparr>n_page := mark (set (N vm_head)) True (mark X False (n_page st)), n_host := m, n_vm_head := vm_head\<rparr>)"
  using assms by (auto simp: native_inv_def pages_ok_def space_ok_def)

lemma native_inv_leave:
  assumes "native_inv h N A st"
  shows "native_inv h N A (st\<lparr>n_page := mark X False (n_page st), n_host := Map.empty, n_vm_head := 0\<rparr>)"
  using assms native_inv_zero [OF assms] by (auto simp: native_inv_def pages_ok_def space_ok_def)

lemma native_switch_cases:
  assumes inv: "native_inv h N A st" and A: "vm_head = 0 \<or> A vm_head \<noteq> None"
  shows "native_switch h vm_head st = Inl Assert_fail \<and> \<not> host_ok h \<or>
    (\<exists>st'. native_switch h vm_head st = Inr st' \<and> native_inv h N A st' \<and> n_vm_head st' = vm_head)"
proof -
  have en: "n_enable st" using inv by (simp add: native_inv_def)
  show ?thesis
  proof (cases "vm_head = n_vm_head st")
    case True
    then show ?thesis using inv by (auto simp: native_switch_def)
  next
    case ne: False
    define L where "L = (if n_vm_head st \<noteq> 0 then loopE (unmap_all h (pm_next (n_page st (n_vm_head st))) st) else Inr st)"
    have sw: "native_switch h vm_head st = bindE L (\<lambda>st.
        bindE (if vm_head \<noteq> 0 then loopE (map_all h (pm_next (n_page st vm_head)) st) else Inr st) (\<lambda>st. Inr (st\<lparr>n_vm_head := vm_head\<rparr>)))"
      using en ne by (simp add: native_switch_def L_def)
    from leave_space [OF inv]
    consider "L = Inl Assert_fail" "\<not> host_ok h" | X where "L = Inr (st\<lparr>n_page := mark X False (n_page st), n_host := Map.empty\<rparr>)"
      unfolding L_def [symmetric] by blast
    then show ?thesis
    proof cases
      case 1
      then show ?thesis by (simp add: sw)
    next
      case (2 X)
      let ?st = "st\<lparr>n_page := mark X False (n_page st), n_host := Map.empty\<rparr>"
      show ?thesis
      proof (cases "vm_head = 0")
        case True
        then show ?thesis
          using 2 native_inv_leave [OF inv, of X] unfolding sw by simp
      next
        case False
        then obtain m where m: "A vm_head = Some m" using A by blast
        then have "space_ok h ?st vm_head (N vm_head) m"
          using inv by (simp add: native_inv_def space_ok_def)
        then have "loopE (map_all h (pm_next (n_page ?st vm_head)) ?st) = Inl Assert_fail \<and> \<not> host_ok h \<or>
            loopE (map_all h (pm_next (n_page ?st vm_head)) ?st) =
            Inr (?st\<lparr>n_page := mark (set (N vm_head)) True (n_page ?st), n_host := m\<rparr>)"
          using enter_space [of h ?st vm_head N m] by simp
        then show ?thesis
          using 2 False native_inv_enter [OF inv m, of X] unfolding sw by auto
      qed
    qed
  qed
qed


lemma native_map_new:
  fixes pa :: u64 and prot :: u32
  assumes "A (na_ptr as) = Some m" "m va = None" "n_avail st = p # ps" "native_inv h N A st"
  defines "q \<equiv> na_ptr as"
  defines "pg \<equiv> (n_page st)(p := \<lparr>pm_va = va, pm_pa = pa, pm_next = pm_next (n_page st q), pm_prot = prot, pm_is_mapped = q = n_vm_head st\<rparr>,
    q := (n_page st q)\<lparr>pm_next := p\<rparr>)"
  defines "host \<equiv> if q = n_vm_head st then (n_host st)(va \<mapsto> (pa - h_pmem h, mmap_prot prot)) else n_host st"
  shows "native_map h (Some as) va pa prot st =
    (if IN_RANGE va USER_SPACE \<and> va mod h_pgsize h = 0 \<and> pa mod h_pgsize h = 0 \<and> (q = n_vm_head st \<longrightarrow> h_mmap_ok h va (pa - h_pmem h))
     then Inr (st\<lparr>n_avail := ps, n_page := pg, n_host := host\<rparr>) else Inl Assert_fail)"
proof -
  have q: "q \<noteq> 0" "p \<noteq> q" "p \<noteq> 0"
    using assms(1,3,4) by (auto simp: native_inv_def pages_ok_def q_def)
  have ok: "space_ok h st q (N q) m"
    using assms(1,4) by (simp add: native_inv_def q_def)
  then have "va \<notin> dom (space_of h (n_page st) (N q))"
    using assms(2) by (auto simp: space_ok_def)
  then have "find_page (n_page st) va (pm_next (n_page st q)) = Some 0"
    using ok find_page_absent [of "n_page st" "pm_next (n_page st q)" "N q" va] by (simp add: space_ok_def dom_space_of)
  then show ?thesis
    using q assms(3)
    by (auto simp: native_map_def assertE_def Let_def npgalloc_def q_def [symmetric] am_pmem_map_def set_mapped_def pg_def host_def
        intro!: native.equality)
qed


lemma native_inv_map:
  fixes pa :: u64 and prot :: u32
  assumes A: "A q = Some m" "m va = None" and av: "n_avail st = p # ps" and inv: "native_inv h N A st" and va: "IN_RANGE va USER_SPACE"
  defines "pg \<equiv> (n_page st)(p := \<lparr>pm_va = va, pm_pa = pa, pm_next = pm_next (n_page st q), pm_prot = prot, pm_is_mapped = q = n_vm_head st\<rparr>,
    q := (n_page st q)\<lparr>pm_next := p\<rparr>)"
  defines "e \<equiv> (pa - h_pmem h, mmap_prot prot)"
  defines "host \<equiv> if q = n_vm_head st then (n_host st)(va \<mapsto> e) else n_host st"
  shows "native_inv h (N(q := p # N q)) (A(q \<mapsto> m(va \<mapsto> e))) (st\<lparr>n_avail := ps, n_page := pg, n_host := host\<rparr>)" (is "native_inv h ?N ?A ?st")
proof -
  have q: "q \<noteq> 0" "p \<noteq> q" "p \<noteq> 0" "p \<notin> dom A" "q \<in> dom A" "p \<noteq> n_vm_head st"
    using A(1) av inv by (auto simp: native_inv_def pages_ok_def)
  have new: "p \<notin> set (N x)" "q \<notin> set (N x)" if "x \<in> dom A" for x
    using that q(5) av inv by (auto simp: native_inv_def pages_ok_def)
  have same: "pg x = n_page st x" if "x \<noteq> p" "x \<noteq> q" for x
    using that by (simp add: pg_def)
  have old: "n_page ?st y = n_page st y" if "y \<in> set (N x)" "x \<in> dom A" for x y
    using that new [OF that(2)] by (auto simp: pg_def)
  have ok: "space_ok h ?st x (N x) m'" if "A x = Some m'" "x \<noteq> q" for x m'
  proof -
    have x: "x \<in> dom A" using that(1) by blast
    have "space_ok h st x (N x) m'"
      using that inv by (auto simp: native_inv_def)
    moreover have "n_page ?st x = n_page st x"
      using that q(4) by (auto simp: pg_def)
    moreover have "chain (n_page ?st) r (N x) = chain (n_page st) r (N x)" for r
      by (rule chain_cong) (simp only: old [OF _ x])
    ultimately show ?thesis
      using old [OF _ x] unfolding space_ok_def by (auto cong: map_cong intro!: space_of_cong)
  qed
  have okq: "space_ok h st q (N q) m"
    using A(1) inv by (auto simp: native_inv_def)
  have "chain (n_page ?st) r (N q) = chain (n_page st) r (N q)" for r
    by (rule chain_cong) (simp only: old [OF _ q(5)])
  moreover have "space_of h (n_page ?st) (N q) = m"
    using okq old [OF _ q(5)] unfolding space_ok_def by (auto intro!: space_of_cong)
  moreover have "va \<notin> (\<lambda>x. pm_va (n_page st x)) ` set (N q)"
    using okq A(2) dom_space_of [of h "n_page st" "N q"] by (auto simp: space_ok_def)
  ultimately have "space_ok h ?st q (p # N q) (m(va \<mapsto> e))"
    using okq new q va old [OF _ q(5)] unfolding space_ok_def by (auto simp: space_of_simps pg_def e_def cong: map_cong)
  then have "\<forall>x m'. ?A x = Some m' \<longrightarrow> space_ok h ?st x (?N x) m'"
    using ok by simp
  moreover have "pages_ok ?N ?A ?st"
    using inv q new same unfolding native_inv_def pages_ok_def av by (auto simp: pg_def)
  moreover have "n_host ?st = (case ?A (n_vm_head ?st) of None \<Rightarrow> Map.empty | Some m \<Rightarrow> m)"
    using inv A(1) by (auto simp: native_inv_def host_def)
  moreover have "\<forall>x\<in>set (?N (n_vm_head ?st)). pm_is_mapped (n_page ?st x)" if "n_vm_head ?st \<noteq> 0"
  proof -
    have cur: "n_vm_head st \<in> dom A" "\<forall>x\<in>set (N (n_vm_head st)). pm_is_mapped (n_page st x)"
      using that inv by (auto simp: native_inv_def)
    then have "\<forall>x\<in>set (N (n_vm_head st)). pm_is_mapped (n_page ?st x)"
      using old by metis
    then show ?thesis using q(2) by (auto simp: pg_def)
  qed
  moreover have "n_enable ?st" "n_vm_head ?st = 0 \<or> n_vm_head ?st \<in> dom ?A"
    using inv by (auto simp: native_inv_def)
  ultimately show ?thesis
    unfolding native_inv_def by blast
qed


lemma native_step_inv:
  assumes "native_step h (A, st) (A', st')" "native_inv h N A st"
  shows "\<exists>N. native_inv h N A' st'"
  using assms(1)
proof cases
  case (protect as)
  then show ?thesis
    using native_inv_protect [OF assms(2)] by blast
next
  case (map as m va pa prot)
  then obtain p ps where av: "n_avail st = p # ps" by (cases "n_avail st") auto
  then show ?thesis
    using map native_map_new [OF map(2,3) av assms(2), of pa prot] native_inv_map [OF map(2,3) av assms(2), of pa prot]
    by (auto split: if_splits)
next
  case (switch vm_head)
  then show ?thesis
    using native_switch_cases [OF assms(2) switch(2)] by auto
qed

lemma native_reach_inv: "native_reach h s \<Longrightarrow> \<exists>N. native_inv h N (fst s) (snd s)"
proof (induction rule: native_reach.induct)
  case (boot st)
  then show ?case using native_inv_boot by auto
next
  case (step s s')
  then show ?case
    using native_step_inv [of h "fst s" "snd s" "fst s'" "snd s'"] by auto
qed

text \<open>
  What the code does with a head page that is not clear: the new space is not empty. Its first switch follows the stale link,
  and stops at an assertion if the address there is not a user address.
\<close>

lemma native_dirty_head:
  assumes "native_protect h st = (as, st1)" "n_enable st" "n_vm_head st = 0" "na_ptr as \<noteq> 0"
    and "pm_next (n_page st (na_ptr as)) = q" "q \<noteq> 0" "\<not> IN_RANGE (pm_va (n_page st q)) USER_SPACE"
  shows "native_switch h (na_ptr as) st1 = Inl Assert_fail"
proof -
  have st1: "n_page st1 = n_page st" "n_enable st1" "n_vm_head st1 = 0"
    using assms(1-3) by (auto simp: native_protect_def npgalloc_def split: list.splits)
  have "map_all h q st1 = Some (Inl Assert_fail)"
    using assms(6,7) st1(1) by (subst map_all.simps) (simp add: assertE_def)
  then show ?thesis using assms(4,5) st1 by (simp add: native_switch_def loopE_def)
qed

text \<open>
  C31. On every sequence of \<open>protect\<close> with a head page that the allocator hands out clear, \<open>map\<close> of pages not yet mapped in
  their space and context switches, the pages the host has mapped are exactly those of the current address space, each at its
  physical page with the protection asked for; with no current space nothing is mapped. A switch to any space that was made
  always ends, and fails only when the host refuses a mapping.
\<close>

theorem native_host_exact:
  assumes "native_reach h (A, st)"
  shows "n_host st = (case A (n_vm_head st) of None \<Rightarrow> Map.empty | Some m \<Rightarrow> m) \<and>
    (\<forall>vm_head. vm_head = 0 \<or> A vm_head \<noteq> None \<longrightarrow>
      (\<exists>st'. native_switch h vm_head st = Inr st' \<and> n_vm_head st' = vm_head \<and>
         n_host st' = (case A vm_head of None \<Rightarrow> Map.empty | Some m \<Rightarrow> m)) \<or>
      native_switch h vm_head st = Inl Assert_fail \<and> \<not> host_ok h)"
proof -
  obtain N where inv: "native_inv h N A st"
    using native_reach_inv [OF assms] by auto
  have host: "n_host s = (case A (n_vm_head s) of None \<Rightarrow> Map.empty | Some m \<Rightarrow> m)" if "native_inv h N A s" for s
    using that by (simp add: native_inv_def)
  have "(\<exists>st'. native_switch h vm_head st = Inr st' \<and> n_vm_head st' = vm_head \<and>
         n_host st' = (case A vm_head of None \<Rightarrow> Map.empty | Some m \<Rightarrow> m)) \<or>
      native_switch h vm_head st = Inl Assert_fail \<and> \<not> host_ok h" if "vm_head = 0 \<or> A vm_head \<noteq> None" for vm_head
    using native_switch_cases [OF inv that] host by auto
  then show ?thesis using host [OF inv] by simp
qed

section \<open>Mapping a page again\<close>

text \<open>A set of nodes that the links do not leave: no search that misses its pages and no walk from it ends.\<close>

definition closed :: "(u64 \<Rightarrow> PageMap) \<Rightarrow> u64 set \<Rightarrow> bool" where
  "closed f C \<longleftrightarrow> 0 \<notin> C \<and> (\<forall>x\<in>C. pm_next (f x) \<in> C)"

lemma closed_mark [simp]: "closed (mark X b f) C = closed f C"
  by (simp add: closed_def)

lemma closedD: "closed f C \<Longrightarrow> p \<in> C \<Longrightarrow> pm_next (f p) \<in> C" "closed f C \<Longrightarrow> 0 \<notin> C"
  by (simp_all add: closed_def)

lemma host_ok_munmap: "host_ok h \<Longrightarrow> am_pmem_unmap h va st = Inr (st\<lparr>n_host := (n_host st)(va := None)\<rparr>)"
  by (simp add: host_ok_def am_pmem_unmap_def)

lemma find_page_closed:
  assumes "closed f C" "p \<in> C" "va \<notin> (\<lambda>x. pm_va (f x)) ` C"
  shows "find_page f va p = None"
proof (rule ccontr)
  assume "find_page f va p \<noteq> None"
  then obtain r where "find_page f va p = Some r" by blast
  then have "f = f \<longrightarrow> va = va \<longrightarrow> p \<notin> C"
    by (rule find_page.raw_induct [of "\<lambda>f' va' p r. f' = f \<longrightarrow> va' = va \<longrightarrow> p \<notin> C", rotated])
      (use assms(1,3) in \<open>auto simp: closed_def split: if_splits\<close>)
  then show False using assms(2) by simp
qed

lemma unmap_all_closed_step:
  assumes IH: "\<And>h p st r. u h p st = Some r \<Longrightarrow> host_ok h \<longrightarrow> closed (n_page st) C \<longrightarrow> p \<notin> C"
    and r: "(if p = 0 then Some (Inr st) else if pm_is_mapped (n_page st p) then
        case am_pmem_unmap h (pm_va (n_page st p)) st of Inl e \<Rightarrow> Some (Inl e)
        | Inr st \<Rightarrow> u h (pm_next (n_page st p)) (set_mapped p False st)
      else u h (pm_next (n_page st p)) st) = Some r"
  shows "host_ok h \<longrightarrow> closed (n_page st) C \<longrightarrow> p \<notin> C"
proof (intro impI notI)
  assume h: "host_ok h" and C: "closed (n_page st) C" "p \<in> C"
  have "p \<noteq> 0" "pm_next (n_page st p) \<in> C" using closedD [OF C(1)] C(2) by auto
  then show False
    using r h C(1) IH [of h "pm_next (n_page st p)" st r]
      IH [of h "pm_next (n_page st p)" "set_mapped p False (st\<lparr>n_host := (n_host st)(pm_va (n_page st p) := None)\<rparr>)" r]
    by (simp add: host_ok_munmap set_mapped_mark split: if_splits)
qed

lemma unmap_all_closed:
  assumes "closed (n_page st) C" "p \<in> C" "host_ok h"
  shows "unmap_all h p st = None"
proof (rule ccontr)
  assume "unmap_all h p st \<noteq> None"
  then obtain r where "unmap_all h p st = Some r" by blast
  then have "host_ok h \<longrightarrow> closed (n_page st) C \<longrightarrow> p \<notin> C"
    by (rule unmap_all.raw_induct [of "\<lambda>h p st r. host_ok h \<longrightarrow> closed (n_page st) C \<longrightarrow> p \<notin> C", rotated])
      (use unmap_all_closed_step in blast)
  then show False using assms by simp
qed

lemma chain_start: "chain f p (xs @ x # ys) \<Longrightarrow> p \<in> insert x (set xs)"
  by (cases xs) auto

lemma chain_next: "chain f p (xs @ x # ys) \<Longrightarrow> y \<in> set xs \<Longrightarrow> pm_next (f y) \<in> insert x (set xs)"
  by (induction xs arbitrary: p) (auto dest: chain_start)

lemma chain_closed:
  assumes "chain f p (xs @ x # ys)" "\<And>y. y \<in> set xs \<Longrightarrow> pm_next (g y) = pm_next (f y)" "pm_next (g x) = p"
  shows "closed g (insert x (set xs))"
  using chain_next [OF assms(1)] chain_start [OF assms(1)] chain_nonzero [OF assms(1)] assms(2,3) by (auto simp: closed_def)

text \<open>\<open>map\<close> of a page that is mapped already: the node is linked after the head again.\<close>

lemma native_map_old:
  fixes pa :: u64 and prot :: u32
  assumes inv: "native_inv h N A st" and A: "A (na_ptr as) = Some m" and N: "N (na_ptr as) = xs @ x # ys" and va: "pm_va (n_page st x) = va"
    and ok: "IN_RANGE va USER_SPACE" "va mod h_pgsize h = 0" "pa mod h_pgsize h = 0" "host_ok h"
  defines "q \<equiv> na_ptr as"
  shows "\<exists>st'. native_map h (Some as) va pa prot st = Inr st' \<and> n_vm_head st' = n_vm_head st \<and> n_enable st' = n_enable st \<and>
    pm_next (n_page st' q) = x \<and> closed (n_page st') (insert x (set xs)) \<and> (\<lambda>x. pm_va (n_page st' x)) ` insert x (set xs) \<subseteq> dom m"
proof -
  have q: "q \<noteq> 0" "q \<notin> set (xs @ x # ys)"
    using native_inv_heads [OF inv, of q] A N by (auto simp: q_def)
  have "space_ok h st q (xs @ x # ys) m"
    using inv A N unfolding native_inv_def q_def by metis
  then have sp: "chain (n_page st) (pm_next (n_page st q)) (xs @ x # ys)" "distinct (map (\<lambda>x. pm_va (n_page st x)) (xs @ x # ys))"
    "m = space_of h (n_page st) (xs @ x # ys)"
    unfolding space_ok_def by blast+
  have "find (\<lambda>x. pm_va (n_page st x) = va) (xs @ x # ys) = Some x"
    using sp(2) va by (induction xs) auto
  then have f: "find_page (n_page st) va (pm_next (n_page st q)) = Some x"
    using find_page_chain [OF sp(1)] by simp
  have x: "x \<noteq> 0" "x \<noteq> q" "x \<notin> set xs" "q \<notin> set xs"
    using chain_nonzero [OF sp(1)] q sp(2) by (auto simp: image_iff)
  define pg where "pg = (n_page st)(x := \<lparr>pm_va = va, pm_pa = pa, pm_next = pm_next (n_page st q), pm_prot = prot, pm_is_mapped = q = n_vm_head st\<rparr>,
    q := (n_page st q)\<lparr>pm_next := x\<rparr>)"
  have "\<exists>st'. native_map h (Some as) va pa prot st = Inr st' \<and> n_vm_head st' = n_vm_head st \<and> n_enable st' = n_enable st \<and> n_page st' = pg"
    using f x ok q(1)
    by (auto simp: native_map_def Let_def q_def [symmetric] am_pmem_map_def host_ok_def set_mapped_def pg_def)
  moreover have "closed pg (insert x (set xs))"
    using x by (intro chain_closed [OF sp(1)]) (auto simp: pg_def)
  moreover have "(\<lambda>x. pm_va (pg x)) ` insert x (set xs) \<subseteq> dom m"
    using x va by (auto simp: sp(3) dom_space_of pg_def)
  moreover have "pm_next (pg q) = x" by (simp add: pg_def)
  ultimately show ?thesis by blast
qed

text \<open>
  C32. Mapping a page of the current space again (to change its protection, say) links its node into a cycle: that call
  succeeds, and afterwards neither a \<open>map\<close> of a new page in the space nor a switch to another space ever returns.
\<close>

theorem native_remap_cycle:
  assumes "native_reach h (A, st)" "host_ok h" "na_ptr as = n_vm_head st" "A (na_ptr as) = Some m" "m va \<noteq> None"
    "va mod h_pgsize h = 0" "pa mod h_pgsize h = 0"
  shows "\<exists>st'. native_map h (Some as) va pa prot st = Inr st' \<and>
    (\<forall>v. v \<noteq> na_ptr as \<longrightarrow> native_switch h v st' = Inl Diverge) \<and>
    (\<forall>va' pa' prot'. m va' = None \<and> IN_RANGE va' USER_SPACE \<and> va' mod h_pgsize h = 0 \<and> pa' mod h_pgsize h = 0 \<longrightarrow>
       native_map h (Some as) va' pa' prot' st' = Inl Diverge)"
proof -
  obtain N where inv: "native_inv h N A st"
    using native_reach_inv [OF assms(1)] by auto
  then have ok: "space_ok h st (na_ptr as) (N (na_ptr as)) m" and q: "na_ptr as \<noteq> 0" and en: "n_enable st"
    using assms(4) by (auto simp: native_inv_def pages_ok_def)
  have "va \<in> dom (space_of h (n_page st) (N (na_ptr as)))"
    using assms(5) ok by (auto simp: space_ok_def)
  then obtain x where x: "x \<in> set (N (na_ptr as))" "pm_va (n_page st x) = va"
    unfolding dom_space_of by blast
  then obtain xs ys where N: "N (na_ptr as) = xs @ x # ys" by (meson split_list)
  have "IN_RANGE va USER_SPACE" using ok x by (auto simp: space_ok_def)
  from native_map_old [OF inv assms(4) N x(2) this assms(6,7,2), of prot] obtain st' where
    st': "native_map h (Some as) va pa prot st = Inr st'" "n_vm_head st' = n_vm_head st" "n_enable st' = n_enable st"
    "pm_next (n_page st' (na_ptr as)) = x" "closed (n_page st') (insert x (set xs))"
    "(\<lambda>x. pm_va (n_page st' x)) ` insert x (set xs) \<subseteq> dom m" by blast
  have "native_switch h v st' = Inl Diverge" if "v \<noteq> na_ptr as" for v
    using that st' en q assms(3) unmap_all_closed [OF st'(5) _ assms(2), of x] by (simp add: native_switch_def loopE_def)
  moreover have "native_map h (Some as) va' pa' prot' st' = Inl Diverge"
    if "m va' = None" "IN_RANGE va' USER_SPACE" "va' mod h_pgsize h = 0" "pa' mod h_pgsize h = 0" for va' pa' prot'
  proof -
    have "find_page (n_page st') va' x = None"
      using that(1) st'(6) by (intro find_page_closed [OF st'(5)]) auto
    then show ?thesis using that q st'(4) by (simp add: native_map_def)
  qed
  ultimately show ?thesis using st'(1) by (intro exI [of _ st']) simp
qed

section \<open>Signals\<close>

definition resume_at :: "event_kind \<Rightarrow> 'u uctx \<Rightarrow> 'u uctx" where
  "resume_at k uc = (if k = EVENT_SYSCALL \<or> k = EVENT_YIELD then uc\<lparr>g_rip := g_rip uc + 7\<rparr> else uc)"

definition signal_frame :: "'u host \<Rightarrow> 'u uctx \<Rightarrow> 'u native \<Rightarrow> u64" where
  "signal_frame h uc st =
     (let rsp = (if am_in_userspace (g_rip uc) st then n_ksp st else g_rsp uc) - h_sizeof_ctx h in if (rsp + 8) mod 16 \<noteq> 0 then rsp - 8 else rsp)"

lemma native_switch_same: "v = n_vm_head st \<Longrightarrow> native_switch h v st = Inr st"
  by (simp add: native_switch_def)

lemma sig_restore:
  "sig_handler h SIGSEGV SEGV_ACCERR 0x100010 uc st =
    Inr (native_iret uc (st\<lparr>n_ev := \<lparr>nev_event = EVENT_ERROR, nev_cause = 0, nev_ref = 0\<rparr>\<rparr>))"
  by (simp add: sig_handler_def signal_event_def SIGSEGV_def SIGUSR1_def SIGVTALRM_def)

lemma setup_stack_taken:
  assumes "\<not> ((k = EVENT_IRQ_IODEV \<or> k = EVENT_IRQ_TIMER) \<and> \<not> signal_safe h (g_rip uc) (am_in_userspace (g_rip uc) st))"
  shows "setup_stack h k uc st =
    ((resume_at k uc)\<lparr>g_sigmask := intr_sigmask, g_rdi := signal_frame h uc st, g_rip := h_irq_handle h, g_rsp := signal_frame h uc st\<rparr>,
     st\<lparr>n_ctx := (n_ctx st)(signal_frame h uc st := (n_ctx st (signal_frame h uc st))\<lparr>nc_uc := resume_at k uc\<rparr>)\<rparr>)"
proof -
  have uc: "uc\<lparr>g_rip := if k = EVENT_SYSCALL then g_rip uc + SYSCALL_INSTR_LEN else if k = EVENT_YIELD then g_rip uc + YIELD_INSTR_LEN else g_rip uc\<rparr>
      = resume_at k uc"
    by (simp add: resume_at_def SYSCALL_INSTR_LEN_def YIELD_INSTR_LEN_def)
  have "g_rsp (resume_at k uc) = g_rsp uc" by (simp add: resume_at_def)
  then show ?thesis
    using assms unfolding setup_stack_def Let_def uc signal_frame_def by (simp only: if_False simp_thms)
qed

text \<open>
  C33. A signal is transparent: when the handler returns the context it was given and leaves the machine alone, delivering the
  signal (from the signal handler over \<open>irq_handle\<close> to the restoring call) resumes the interrupted registers and mask, past
  the seven bytes of the call for a yield or a system call, and changes neither the address space nor the kernel stack. A
  timer or device interrupt that arrives in library code is dropped without a trace but the recorded event.
\<close>

theorem native_signal_transparent:
  assumes ev: "signal_event sig si_code si_addr st = Inr (Some ev)"
    and hd: "n_handler st \<noteq> 0" "\<And>c s. h_call h (n_handler st) ev c s = (c, s)"
    and c: "g_rdi (fst (setup_stack h (nev_event ev) uc st)) \<noteq> 0" "g_rip uc \<noteq> h_irq_handle h"
  shows "\<exists>st'. deliver h sig si_code si_addr uc st = Inr (if nev_event ev = EVENT_SYSCALL \<or> nev_event ev = EVENT_YIELD then uc\<lparr>g_rip := g_rip uc + 7\<rparr> else uc, st') \<and>
    st'\<lparr>n_ev := n_ev st, n_ctx := n_ctx st\<rparr> = st \<and>
    (nev_event ev \<in> {EVENT_IRQ_IODEV, EVENT_IRQ_TIMER} \<and> \<not> signal_safe h (g_rip uc) (am_in_userspace (g_rip uc) st) \<longrightarrow> n_ctx st' = n_ctx st)"
proof -
  define uc1 where "uc1 = (if nev_event ev = EVENT_SYSCALL \<or> nev_event ev = EVENT_YIELD then uc\<lparr>g_rip := g_rip uc + 7\<rparr> else uc)"
  have us: "am_in_userspace a (st\<lparr>n_ev := ev\<rparr>) = am_in_userspace a st" for a
    by (simp add: am_in_userspace_def)
  show ?thesis
  proof (cases "(nev_event ev = EVENT_IRQ_IODEV \<or> nev_event ev = EVENT_IRQ_TIMER) \<and> \<not> signal_safe h (g_rip uc) (am_in_userspace (g_rip uc) st)")
    case True
    then have "deliver h sig si_code si_addr uc st = Inr (uc1, st\<lparr>n_ev := ev\<rparr>)"
      using ev c(2) by (auto simp: deliver_def sig_handler_def setup_stack_def us uc1_def)
    then show ?thesis unfolding uc1_def by auto
  next
    case False
    define r where "r = g_rdi (fst (setup_stack h (nev_event ev) uc st))"
    have r: "setup_stack h (nev_event ev) uc (st\<lparr>n_ev := ev\<rparr>) =
      (uc1\<lparr>g_sigmask := intr_sigmask, g_rdi := r, g_rip := h_irq_handle h, g_rsp := r\<rparr>,
       st\<lparr>n_ev := ev, n_ctx := (n_ctx st)(r := (n_ctx st r)\<lparr>nc_uc := uc1\<rparr>)\<rparr>)" "r \<noteq> 0"
      using setup_stack_taken [OF False] setup_stack_taken [of "nev_event ev" h uc "st\<lparr>n_ev := ev\<rparr>"] False c(1)
      by (simp_all add: r_def uc1_def resume_at_def us signal_frame_def)
    have "deliver h sig si_code si_addr uc st = Inr (uc1, st\<lparr>n_ev := \<lparr>nev_event = EVENT_ERROR, nev_cause = 0, nev_ref = 0\<rparr>,
       n_ctx := (n_ctx st)(r := (n_ctx st r)\<lparr>nc_uc := uc1, nc_vm_head := n_vm_head st, nc_ksp := n_ksp st\<rparr>)\<rparr>)"
      using ev hd r(2)
      by (simp add: deliver_def sig_handler_def [of h sig] r(1) irq_handle_def sig_restore native_iret_def native_switch_same)
    then show ?thesis using False unfolding uc1_def by auto
  qed
qed


section \<open>Examples\<close>

definition ex_uc :: "unit uctx" where
  "ex_uc = \<lparr>g_rip = 0x40001000, g_rsp = 0x50000000, g_rax = 0, g_rdi = 1, g_rsi = 2, g_sigmask = {}, g_rest = ()\<rparr>"

definition ex_host :: "unit host" where
  "ex_host = \<lparr>h_mmap_ok = \<lambda>_ _. True, h_munmap_ok = \<lambda>_. True, h_pgsize = 4096, h_pmem = 0x1000000, h_text = \<lparr>a_start = 0, a_end = 0\<rparr>,
     h_sigprocmask = 0, h_sizeof_ctx = 1096, h_irq_handle = 0x5000, h_kcontext_start = 0x6000, h_uc_example = ex_uc,
     h_call = \<lambda>_ _ c s. (c, s)\<rparr>"

definition ex_native :: "unit native" where
  "ex_native = \<lparr>n_page = \<lambda>_. \<lparr>pm_va = 0, pm_pa = 0, pm_next = 0, pm_prot = 0, pm_is_mapped = False\<rparr>,
     n_ctx = \<lambda>_. \<lparr>nc_ksp = 0, nc_vm_head = 0, nc_uc = ex_uc\<rparr>, n_avail = [0x1000000, 0x1001000, 0x1002000], n_enable = True,
     n_vm_head = 0, n_ksp = 0x1100000, n_ev = \<lparr>nev_event = EVENT_NULL, nev_cause = 0, nev_ref = 0\<rparr>, n_host = Map.empty, n_handler = 0x7000\<rparr>"

definition ex_space :: NAddrSpace where
  "ex_space = \<lparr>na_ptr = 0x1000000, na_pgsize = 4096, na_area = USER_SPACE\<rparr>"

lemma ex_reach:
  "\<exists>st. native_reach ex_host ([0x1000000 \<mapsto> [0x40000000 \<mapsto> (0x8000, PROT_READ OR PROT_EXEC)]], st) \<and> n_vm_head st = 0x1000000"
proof -
  let ?st1 = "ex_native\<lparr>n_avail := [0x1001000, 0x1002000]\<rparr>"
  have "native_reach ex_host (Map.empty, ex_native)"
    by (rule boot) (simp add: native_boot_def ex_native_def)
  moreover have "native_step ex_host (Map.empty, ex_native) (Map.empty(na_ptr ex_space \<mapsto> Map.empty), ?st1)"
    by (rule protect) (simp_all add: native_protect_def npgalloc_def ex_native_def ex_host_def ex_space_def)
  ultimately have 1: "native_reach ex_host ([0x1000000 \<mapsto> Map.empty], ?st1)"
    using native_reach.step by (fastforce simp: ex_space_def)
  obtain st2 where 2: "native_map ex_host (Some ex_space) 0x40000000 0x1008000 1 ?st1 = Inr st2" "n_vm_head st2 = 0"
    by (simp add: native_map_def ex_host_def ex_space_def ex_native_def IN_RANGE_def USER_SPACE_def find_page.simps npgalloc_def)
  have "native_step ex_host ([0x1000000 \<mapsto> Map.empty], ?st1)
      ([0x1000000 \<mapsto> Map.empty, na_ptr ex_space \<mapsto> Map.empty(0x40000000 \<mapsto> (0x1008000 - h_pmem ex_host, mmap_prot 1))], st2)"
    by (rule map [OF _ _ _ 2(1)]) (simp_all add: ex_space_def ex_native_def)
  then have 3: "native_reach ex_host ([0x1000000 \<mapsto> [0x40000000 \<mapsto> (0x8000, PROT_READ OR PROT_EXEC)]], st2)"
    using native_reach.step [OF 1] by (simp add: ex_space_def ex_host_def mmap_prot_def MMAP_READ_def MMAP_WRITE_def)
  obtain N where "native_inv ex_host N [0x1000000 \<mapsto> [0x40000000 \<mapsto> (0x8000, PROT_READ OR PROT_EXEC)]] st2"
    using native_reach_inv [OF 3] by auto
  from native_switch_cases [OF this, of "0x1000000"] obtain st3 where
    "native_switch ex_host 0x1000000 st2 = Inr st3" "n_vm_head st3 = 0x1000000"
    by (auto simp: host_ok_def ex_host_def)
  then show ?thesis
    using native_reach.step [OF 3 switch [of "0x1000000"]] by auto
qed


theorem native_host_exact_witness:
  "\<exists>st. native_reach ex_host ([0x1000000 \<mapsto> [0x40000000 \<mapsto> (0x8000, PROT_READ OR PROT_EXEC)]], st) \<and>
    n_host st = [0x40000000 \<mapsto> (0x8000, PROT_READ OR PROT_EXEC)]"
proof -
  obtain st where st: "native_reach ex_host ([0x1000000 \<mapsto> [0x40000000 \<mapsto> (0x8000, PROT_READ OR PROT_EXEC)]], st)" "n_vm_head st = 0x1000000"
    using ex_reach by blast
  show ?thesis
    using native_host_exact [OF st(1)] st by auto
qed

theorem native_remap_cycle_witness:
  "\<exists>st st'. native_map ex_host (Some ex_space) 0x40000000 0x1008000 3 st = Inr st' \<and> native_switch ex_host 0 st' = Inl Diverge"
proof -
  obtain st where st: "native_reach ex_host ([0x1000000 \<mapsto> [0x40000000 \<mapsto> (0x8000, PROT_READ OR PROT_EXEC)]], st)" "n_vm_head st = 0x1000000"
    using ex_reach by blast
  have h: "host_ok ex_host" "h_pgsize ex_host = 4096" "na_ptr ex_space = n_vm_head st" "na_ptr ex_space \<noteq> 0"
    using st(2) by (simp_all add: host_ok_def ex_host_def ex_space_def)
  obtain st' where "native_map ex_host (Some ex_space) 0x40000000 0x1008000 3 st = Inr st'"
    "\<forall>v. v \<noteq> na_ptr ex_space \<longrightarrow> native_switch ex_host v st' = Inl Diverge"
    using native_remap_cycle [OF st(1) h(1,3), of _ "0x40000000" "0x1008000" 3] h(2) by (auto simp: ex_space_def)
  then show ?thesis using h(4) by metis
qed

theorem native_signal_transparent_witness:
  "\<exists>st'. deliver ex_host SIGSEGV SEGV_ACCERR 0x100008 ex_uc ex_native = Inr (ex_uc\<lparr>g_rip := 0x40001007\<rparr>, st')"
proof -
  have "signal_event SIGSEGV SEGV_ACCERR 0x100008 ex_native = Inr (Some \<lparr>nev_event = EVENT_YIELD, nev_cause = 0, nev_ref = 0\<rparr>)"
    by (simp add: signal_event_def SIGSEGV_def SIGUSR1_def SIGVTALRM_def am_in_userspace_def IN_RANGE_def USER_SPACE_def)
  from native_signal_transparent [OF this, of ex_host ex_uc] show ?thesis
    by (auto simp: ex_native_def ex_host_def ex_uc_def setup_stack_taken signal_frame_def am_in_userspace_def)
qed

end
