(* ===== verification/Kvm.thy ===== *)
theory Kvm
  imports Difftest Cte
begin

text \<open>
  The KVM reference of differential testing (\<open>tools/kvm-diff/src/kvm.c\<close>): a virtual machine that is run one instruction
  at a time, with the instructions whose effect differs under single-stepping patched by hand.

  The hypervisor is a parameter: its state has type \<open>'k\<close>, the parts of the system registers the code only copies type \<open>'x\<close>.
  \<open>hv_ioctl\<close> is the result of a call that sets something, \<open>hv_run\<close> of \<open>KVM_RUN\<close>, which may change the memory of the guest
  and the page shared with the kernel.
\<close>

section \<open>Data\<close>

record kvm_regs =
  kr_rax :: u64
  kr_rbx :: u64
  kr_rcx :: u64
  kr_rdx :: u64
  kr_rsi :: u64
  kr_rdi :: u64
  kr_rsp :: u64
  kr_rbp :: u64
  kr_high :: "u64 list"
  kr_rip :: u64
  kr_rflags :: u64

record kvm_segment =
  sg_base :: u64
  sg_limit :: u32
  sg_selector :: u16
  sg_type :: u8
  sg_present :: u8
  sg_dpl :: u8
  sg_db :: u8
  sg_s :: u8
  sg_l :: u8
  sg_g :: u8

record 'x kvm_sregs =
  sr_cs :: kvm_segment
  sr_ds :: kvm_segment
  sr_es :: kvm_segment
  sr_fs :: kvm_segment
  sr_gs :: kvm_segment
  sr_ss :: kvm_segment
  sr_idt_base :: u64
  sr_cr0 :: u64
  sr_rest :: 'x

record kvm_guest_debug =
  gd_control :: u32
  gd_debugreg0 :: u64
  gd_debugreg7 :: u64

datatype int_wp_state = STATE_IDLE | STATE_INT_INSTR | STATE_IRET_INSTR

datatype 'x kvm_call =
    KVM_GET_API_VERSION
  | KVM_CREATE_VM
  | KVM_SET_TSS_ADDR u32
  | KVM_SET_USER_MEMORY_REGION nat u64 nat
  | KVM_CREATE_VCPU
  | KVM_GET_VCPU_MMAP_SIZE
  | KVM_SET_GUEST_DEBUG kvm_guest_debug
  | KVM_SET_REGS kvm_regs
  | KVM_SET_SREGS "'x kvm_sregs"
  | KVM_INTERRUPT u32

datatype kvm_run_result = Run_ok | Run_eintr | Run_error

text \<open>
  \<open>struct vm\<close>, \<open>struct vcpu\<close> and the fields of the shared page \<open>kvm_run\<close> the code uses: the synchronised registers
  \<open>v_regs\<close> and \<open>v_sregs\<close>, \<open>v_valid\<close> and \<open>v_dirty\<close>, the exit reason and the address of the debug exit.
\<close>

record ('x, 'k) vmachine =
  v_hyp :: 'k
  v_sys_fd :: int
  v_vm_fd :: int
  v_vcpu_fd :: int
  v_mem :: byte_array
  v_mmio :: byte_array
  v_regs :: kvm_regs
  v_sregs :: "'x kvm_sregs"
  v_valid :: u64
  v_dirty :: u64
  v_exit_reason :: u32
  v_debug_pc :: u64
  int_wp_state :: int_wp_state
  has_error_code :: bool
  v_entry :: u32

record ('x, 'k) hypervisor =
  hv_open :: "'k \<Rightarrow> int \<times> 'k"
  hv_mmap :: "nat \<Rightarrow> bool"
  hv_ioctl :: "'x kvm_call \<Rightarrow> 'k \<Rightarrow> int \<times> 'k"
  hv_get_regs :: "'k \<Rightarrow> kvm_regs option"
  hv_get_sregs :: "'k \<Rightarrow> 'x kvm_sregs option"
  hv_translate :: "('x, 'k) vmachine \<Rightarrow> u64 \<Rightarrow> int \<times> bool \<times> u64"
  hv_run :: "('x, 'k) vmachine \<Rightarrow> kvm_run_result \<times> ('x, 'k) vmachine"

definition CR0_PE :: u64 where "CR0_PE = 1"
definition CR0_PG :: u64 where "CR0_PG = 0x80000000"

definition RFLAGS_TF :: u32 where "RFLAGS_TF = 0x100"
definition RFLAGS_FIX_MASK :: u32 where "RFLAGS_FIX_MASK = 0x200000 OR 0x40000 OR 0x10000 OR RFLAGS_TF OR 0x10"

text \<open>From \<open>linux/kvm.h\<close>.\<close>

definition KVM_API_VERSION :: int where "KVM_API_VERSION = 12"
definition KVM_EXIT_DEBUG :: u32 where "KVM_EXIT_DEBUG = 4"
definition KVM_EXIT_HLT :: u32 where "KVM_EXIT_HLT = 5"
definition KVM_SYNC_X86_REGS :: u64 where "KVM_SYNC_X86_REGS = 1"
definition KVM_SYNC_X86_SREGS :: u64 where "KVM_SYNC_X86_SREGS = 2"
definition KVM_GUESTDBG_ENABLE :: u32 where "KVM_GUESTDBG_ENABLE = 1"
definition KVM_GUESTDBG_SINGLESTEP :: u32 where "KVM_GUESTDBG_SINGLESTEP = 2"
definition KVM_GUESTDBG_USE_HW_BP :: u32 where "KVM_GUESTDBG_USE_HW_BP = 0x20000"

section \<open>Calls of the hypervisor\<close>

definition hv_call :: "('x, 'k) hypervisor \<Rightarrow> 'x kvm_call \<Rightarrow> ('x, 'k) vmachine \<Rightarrow> int \<times> ('x, 'k) vmachine" where
  "hv_call hv c v = (let (r, k) = hv_ioctl hv c (v_hyp v) in (r, v\<lparr>v_hyp := k\<rparr>))"

definition hv_check :: "('x, 'k) hypervisor \<Rightarrow> 'x kvm_call \<Rightarrow> ('x, 'k) vmachine \<Rightarrow> (int \<times> ('x, 'k) vmachine) res" where
  "hv_check hv c v = (let (r, v) = hv_call hv c v in bindE (assertE (r \<ge> 0)) (\<lambda>_. Inr (r, v)))"

definition kvm_set_step_mode :: "('x, 'k) hypervisor \<Rightarrow> bool \<Rightarrow> u32 \<Rightarrow> ('x, 'k) vmachine \<Rightarrow> ('x, 'k) vmachine res" where
  "kvm_set_step_mode hv watch watch_addr v =
     bindE (hv_check hv (KVM_SET_GUEST_DEBUG
       \<lparr>gd_control = KVM_GUESTDBG_ENABLE OR KVM_GUESTDBG_SINGLESTEP OR KVM_GUESTDBG_USE_HW_BP,
        gd_debugreg0 = ucast watch_addr, gd_debugreg7 = (if watch then 1 else 0)\<rparr>) v) (\<lambda>(_, v). Inr v)"

definition kvm_getregs :: "('x, 'k) hypervisor \<Rightarrow> ('x, 'k) vmachine \<Rightarrow> kvm_regs res" where
  "kvm_getregs hv v = optE Assert_fail (hv_get_regs hv (v_hyp v))"

definition kvm_setregs :: "('x, 'k) hypervisor \<Rightarrow> kvm_regs \<Rightarrow> ('x, 'k) vmachine \<Rightarrow> ('x, 'k) vmachine res" where
  "kvm_setregs hv r v = bindE (hv_check hv (KVM_SET_REGS r) v) (\<lambda>(_, v). kvm_set_step_mode hv False 0 v)"

definition kvm_getsregs :: "('x, 'k) hypervisor \<Rightarrow> ('x, 'k) vmachine \<Rightarrow> 'x kvm_sregs res" where
  "kvm_getsregs hv v = optE Assert_fail (hv_get_sregs hv (v_hyp v))"

definition kvm_setsregs :: "('x, 'k) hypervisor \<Rightarrow> 'x kvm_sregs \<Rightarrow> ('x, 'k) vmachine \<Rightarrow> ('x, 'k) vmachine res" where
  "kvm_setsregs hv r v = bindE (hv_check hv (KVM_SET_SREGS r) v) (\<lambda>(_, v). Inr v)"

section \<open>Start\<close>

definition create_mem :: "('x, 'k) hypervisor \<Rightarrow> nat \<Rightarrow> u64 \<Rightarrow> nat \<Rightarrow> ('x, 'k) vmachine \<Rightarrow> (byte_array \<times> ('x, 'k) vmachine) res" where
  "create_mem hv slot base mem_size v =
     bindE (assertE (hv_mmap hv mem_size)) (\<lambda>_.
     bindE (hv_check hv (KVM_SET_USER_MEMORY_REGION slot base mem_size) v) (\<lambda>(_, v). Inr (\<lambda>_. 0, v)))"

definition vm_init :: "('x, 'k) hypervisor \<Rightarrow> nat \<Rightarrow> ('x, 'k) vmachine \<Rightarrow> ('x, 'k) vmachine res" where
  "vm_init hv mem_size v =
     (let (fd, k) = hv_open hv (v_hyp v); v = v\<lparr>v_sys_fd := fd, v_hyp := k\<rparr> in
     bindE (assertE (fd \<ge> 0)) (\<lambda>_.
     bindE (hv_check hv KVM_GET_API_VERSION v) (\<lambda>(api_ver, v).
     bindE (assertE (api_ver = KVM_API_VERSION)) (\<lambda>_.
     bindE (hv_check hv KVM_CREATE_VM v) (\<lambda>(fd, v).
     let v = v\<lparr>v_vm_fd := fd\<rparr> in
     bindE (hv_check hv (KVM_SET_TSS_ADDR 0xfffbd000) v) (\<lambda>(_, v).
     bindE (create_mem hv 0 0 mem_size v) (\<lambda>(m, v).
     let v = v\<lparr>v_mem := m\<rparr> in
     bindE (create_mem hv 1 0xa1000000 0x1000 v) (\<lambda>(m, v).
     Inr (v\<lparr>v_mmio := m\<rparr>)))))))))"

definition vcpu_init :: "('x, 'k) hypervisor \<Rightarrow> ('x, 'k) vmachine \<Rightarrow> ('x, 'k) vmachine res" where
  "vcpu_init hv v =
     bindE (hv_check hv KVM_CREATE_VCPU v) (\<lambda>(fd, v).
     let v = v\<lparr>v_vcpu_fd := fd\<rparr>; (sz, v) = hv_call hv KVM_GET_VCPU_MMAP_SIZE v in
     bindE (assertE (sz > 0)) (\<lambda>_.
     bindE (assertE (hv_mmap hv (nat sz))) (\<lambda>_.
     Inr (v\<lparr>v_valid := KVM_SYNC_X86_REGS OR KVM_SYNC_X86_SREGS, int_wp_state := STATE_IDLE\<rparr>))))"

definition kvm_mbr :: "u8 list" where
  "kvm_mbr =
    [0x0f, 0x01, 0x15, 0x28, 0x7c, 0x00, 0x00,
     0xea, 0x0e, 0x7c, 0x00, 0x00, 0x08, 0x00,
     0xeb, 0xfe,
     0x00, 0x00, 0x00, 0x00, 0x00, 0x00, 0x00, 0x00,
     0xff, 0xff, 0x00, 0x00, 0x00, 0x9a, 0xcf, 0x00,
     0xff, 0xff, 0x00, 0x00, 0x00, 0x92, 0xcf, 0x00,
     0x17, 0x00, 0x10, 0x7c, 0x00, 0x00]"

definition setup_protected_mode :: "'x kvm_sregs \<Rightarrow> 'x kvm_sregs" where
  "setup_protected_mode sregs =
     (let seg = \<lparr>sg_base = 0, sg_limit = 0xffffffff, sg_selector = push_bit 3 1, sg_type = 11, sg_present = 1, sg_dpl = 0,
                 sg_db = 1, sg_s = 1, sg_l = 0, sg_g = 1\<rparr>;
          sregs = sregs\<lparr>sr_cr0 := sr_cr0 sregs OR CR0_PE, sr_cs := seg\<rparr>;
          seg = seg\<lparr>sg_type := 3, sg_selector := push_bit 3 2\<rparr>
      in sregs\<lparr>sr_ss := seg, sr_gs := seg, sr_fs := seg, sr_es := seg, sr_ds := seg\<rparr>)"

section \<open>One instruction\<close>

text \<open>Accesses to \<open>vm.mem\<close> at a 32-bit offset.\<close>

definition mem8 :: "('x, 'k) vmachine \<Rightarrow> u32 \<Rightarrow> u8 res" where
  "mem8 v p = bindE (load_bytes PMEM_SIZE (unat p) 1 (v_mem v)) (\<lambda>bs. Inr (le_word bs))"

definition mem32 :: "('x, 'k) vmachine \<Rightarrow> u32 \<Rightarrow> u32 res" where
  "mem32 v p = bindE (load_bytes PMEM_SIZE (unat p) 4 (v_mem v)) (\<lambda>bs. Inr (le_word bs))"

definition set_mem32 :: "u32 \<Rightarrow> u32 \<Rightarrow> ('x, 'k) vmachine \<Rightarrow> ('x, 'k) vmachine res" where
  "set_mem32 p d v = bindE (store_bytes PMEM_SIZE (unat p) (le_bytes 4 d) (v_mem v)) (\<lambda>m. Inr (v\<lparr>v_mem := m\<rparr>))"

definition va2pa :: "('x, 'k) hypervisor \<Rightarrow> ('x, 'k) vmachine \<Rightarrow> u64 \<Rightarrow> u64 res" where
  "va2pa hv v va =
     (if sr_cr0 (v_sregs v) AND CR0_PG \<noteq> 0 then
        let (r, valid, pa) = hv_translate hv v va in bindE (assertE (r = 0)) (\<lambda>_. Inr (if valid then pa else - 1))
      else Inr va)"

definition pushf_patch :: "('x, 'k) hypervisor \<Rightarrow> ('x, 'k) vmachine \<Rightarrow> ('x, 'k) vmachine res" where
  "pushf_patch hv v =
     (let v = v\<lparr>v_regs := (v_regs v)\<lparr>kr_rsp := kr_rsp (v_regs v) - 4\<rparr>\<rparr> in
     bindE (va2pa hv v (kr_rsp (v_regs v))) (\<lambda>esp.
     bindE (set_mem32 (ucast esp) (ucast (kr_rflags (v_regs v) AND ucast (NOT RFLAGS_FIX_MASK))) v) (\<lambda>v.
     Inr (v\<lparr>v_regs := (v_regs v)\<lparr>kr_rflags := kr_rflags (v_regs v) OR ucast RFLAGS_TF, kr_rip := kr_rip (v_regs v) + 1\<rparr>,
            v_dirty := KVM_SYNC_X86_REGS\<rparr>))))"

definition popf_patch :: "('x, 'k) hypervisor \<Rightarrow> ('x, 'k) vmachine \<Rightarrow> ('x, 'k) vmachine res" where
  "popf_patch hv v =
     bindE (va2pa hv v (kr_rsp (v_regs v))) (\<lambda>esp.
     bindE (mem32 v (ucast esp)) (\<lambda>fl.
     Inr (v\<lparr>v_regs := (v_regs v)\<lparr>kr_rflags := ucast (fl OR RFLAGS_TF OR 2), kr_rsp := kr_rsp (v_regs v) + 4, kr_rip := kr_rip (v_regs v) + 1\<rparr>,
            v_dirty := KVM_SYNC_X86_REGS\<rparr>)))"

definition iret_patch :: "('x, 'k) hypervisor \<Rightarrow> ('x, 'k) vmachine \<Rightarrow> ('x, 'k) vmachine res" where
  "iret_patch hv v =
     bindE (va2pa hv v (kr_rsp (v_regs v))) (\<lambda>ret_addr.
     bindE (mem32 v (ucast ret_addr)) (\<lambda>eip.
     bindE (kvm_set_step_mode hv True eip (v\<lparr>v_entry := eip\<rparr>)) (\<lambda>v.
     Inr (v\<lparr>int_wp_state := STATE_IRET_INSTR\<rparr>))))"

definition patching :: "('x, 'k) hypervisor \<Rightarrow> ('x, 'k) vmachine \<Rightarrow> (bool \<times> ('x, 'k) vmachine) res" where
  "patching hv v =
     bindE (va2pa hv v (kr_rip (v_regs v))) (\<lambda>at.
     let at = ucast at in
     if at = 0xffffffff then Inr (False, v) else
     bindE (mem8 v at) (\<lambda>opcode.
     if opcode = 0x9c then
       if int_wp_state v = STATE_INT_INSTR then Inr (False, v) else bindE (pushf_patch hv v) (\<lambda>v. Inr (True, v))
     else if opcode = 0x9d then
       if int_wp_state v = STATE_INT_INSTR then Inr (False, v) else bindE (popf_patch hv v) (\<lambda>v. Inr (True, v))
     else if opcode = 0xcf then bindE (iret_patch hv v) (\<lambda>v. Inr (False, v))
     else Inr (False, v)))"

definition and_mem32 :: "u32 \<Rightarrow> u32 \<Rightarrow> ('x, 'k) vmachine \<Rightarrow> ('x, 'k) vmachine res" where
  "and_mem32 p m v = bindE (mem32 v p) (\<lambda>d. set_mem32 p (d AND m) v)"

definition fix_push_sreg :: "('x, 'k) hypervisor \<Rightarrow> ('x, 'k) vmachine \<Rightarrow> ('x, 'k) vmachine res" where
  "fix_push_sreg hv v = bindE (va2pa hv v (kr_rsp (v_regs v))) (\<lambda>esp. and_mem32 (ucast esp) 0x0000ffff v)"

definition patching_after :: "('x, 'k) hypervisor \<Rightarrow> u64 \<Rightarrow> ('x, 'k) vmachine \<Rightarrow> ('x, 'k) vmachine res" where
  "patching_after hv last_pc v =
     bindE (va2pa hv v last_pc) (\<lambda>at.
     let at = ucast at in
     if at = 0xffffffff then Inr v else
     bindE (mem8 v at) (\<lambda>opcode.
     if opcode = 0x1e \<or> opcode = 0x06 then
       bindE (fix_push_sreg hv v) (\<lambda>v. bindE (assertE (kr_rip (v_regs v) = last_pc + 1)) (\<lambda>_. Inr v))
     else if opcode = 0x0f then
       bindE (mem8 v (at + 1)) (\<lambda>opcode2.
       if opcode2 = 0xa0 then bindE (fix_push_sreg hv v) (\<lambda>v. bindE (assertE (kr_rip (v_regs v) = last_pc + 2)) (\<lambda>_. Inr v))
       else Inr v)
     else Inr v))"

definition leave_watch :: "('x, 'k) hypervisor \<Rightarrow> ('x, 'k) vmachine \<Rightarrow> ('x, 'k) vmachine res" where
  "leave_watch hv v =
     bindE (assertE (ucast (v_entry v) = v_debug_pc v)) (\<lambda>_.
     bindE (kvm_set_step_mode hv False 0 v) (\<lambda>v.
     Inr (v\<lparr>int_wp_state := STATE_IDLE\<rparr>)))"

definition debug_exit :: "('x, 'k) hypervisor \<Rightarrow> u64 \<Rightarrow> ('x, 'k) vmachine \<Rightarrow> ('x, 'k) vmachine res" where
  "debug_exit hv at v =
     bindE (patching_after hv at v) (\<lambda>v.
     case int_wp_state v of
       STATE_INT_INSTR \<Rightarrow>
         let eflag_offset = 8 + (if has_error_code v then 4 else 0) in
         bindE (va2pa hv v (kr_rsp (v_regs v) + eflag_offset)) (\<lambda>eflag_addr.
         bindE (and_mem32 (ucast eflag_addr) (NOT RFLAGS_FIX_MASK) v) (\<lambda>v.
         leave_watch hv v))
     | STATE_IRET_INSTR \<Rightarrow> leave_watch hv v
     | STATE_IDLE \<Rightarrow> Inr v)"

section \<open>The loop\<close>

text \<open>\<open>KVM_RUN\<close>: the program's own variables stay as they are.\<close>

definition kvm_run :: "('x, 'k) hypervisor \<Rightarrow> ('x, 'k) vmachine \<Rightarrow> kvm_run_result \<times> ('x, 'k) vmachine" where
  "kvm_run hv v =
     (let (r, w) = hv_run hv v
      in (r, v\<lparr>v_hyp := v_hyp w, v_mem := v_mem w, v_mmio := v_mmio w, v_regs := v_regs w, v_sregs := v_sregs w,
               v_dirty := v_dirty w, v_exit_reason := v_exit_reason w, v_debug_pc := v_debug_pc w\<rparr>))"

partial_function (option) kvm_exec :: "('x, 'k) hypervisor \<Rightarrow> u64 \<Rightarrow> ('x, 'k) vmachine \<Rightarrow> ('x, 'k) vmachine res option" where
  "kvm_exec hv n v =
     (if n = 0 then Some (Inr v)
      else case patching hv v of
        Inl e \<Rightarrow> Some (Inl e)
      | Inr (p, v) \<Rightarrow>
          if p then kvm_exec hv (n - 1) v
          else case kvm_run hv v of (r, v') \<Rightarrow>
            (case r of
               Run_eintr \<Rightarrow> kvm_exec hv n v'
             | Run_error \<Rightarrow> Some (Inl Assert_fail)
             | Run_ok \<Rightarrow>
                 if v_exit_reason v' \<noteq> KVM_EXIT_DEBUG then
                   if v_exit_reason v' = KVM_EXIT_HLT then Some (Inr v') else Some (Inl Assert_fail)
                 else case debug_exit hv (kr_rip (v_regs v)) v' of
                   Inl e \<Rightarrow> Some (Inl e)
                 | Inr v'' \<Rightarrow> kvm_exec hv (n - 1) v''))"

definition kvm_difftest_exec :: "('x, 'k) hypervisor \<Rightarrow> u64 \<Rightarrow> ('x, 'k) vmachine \<Rightarrow> ('x, 'k) vmachine res" where
  "kvm_difftest_exec hv n v = bindE (optE Diverge (kvm_exec hv n v)) (\<lambda>r. r)"

definition run_protected_mode :: "('x, 'k) hypervisor \<Rightarrow> ('x, 'k) vmachine \<Rightarrow> ('x, 'k) vmachine res" where
  "run_protected_mode hv v =
     bindE (kvm_getsregs hv v) (\<lambda>sregs.
     bindE (kvm_setsregs hv (setup_protected_mode sregs) v) (\<lambda>v.
     bindE (kvm_setregs hv \<lparr>kr_rax = 0, kr_rbx = 0, kr_rcx = 0, kr_rdx = 0, kr_rsi = 0, kr_rdi = 0, kr_rsp = 0, kr_rbp = 0,
        kr_high = replicate 8 0, kr_rip = 0x7c00, kr_rflags = 2\<rparr> v) (\<lambda>v.
     bindE (store_bytes PMEM_SIZE 0x7c00 kvm_mbr (v_mem v)) (\<lambda>m.
     kvm_difftest_exec hv 10 (v\<lparr>v_mem := m\<rparr>)))))"

section \<open>The interface\<close>

definition kvm_memcpy_from_dut :: "u32 \<Rightarrow> u8 list \<Rightarrow> ('x, 'k) vmachine \<Rightarrow> ('x, 'k) vmachine res" where
  "kvm_memcpy_from_dut addr src v = bindE (store_bytes PMEM_SIZE (unat addr) src (v_mem v)) (\<lambda>m. Inr (v\<lparr>v_mem := m\<rparr>))"

definition kvm_difftest_getregs :: "('x, 'k) vmachine \<Rightarrow> x86_CPU_state" where
  "kvm_difftest_getregs v =
     (let ref = v_regs v in
      \<lparr>gpr = [ucast (kr_rax ref), ucast (kr_rcx ref), ucast (kr_rdx ref), ucast (kr_rbx ref),
              ucast (kr_rsp ref), ucast (kr_rbp ref), ucast (kr_rsi ref), ucast (kr_rdi ref)], pc = ucast (kr_rip ref)\<rparr>)"

definition kvm_difftest_setregs :: "x86_CPU_state \<Rightarrow> ('x, 'k) vmachine \<Rightarrow> ('x, 'k) vmachine" where
  "kvm_difftest_setregs x v =
     v\<lparr>v_regs := (v_regs v)\<lparr>kr_rax := ucast (gpr x ! 0), kr_rbx := ucast (gpr x ! 3), kr_rcx := ucast (gpr x ! 1), kr_rdx := ucast (gpr x ! 2),
         kr_rsp := ucast (gpr x ! 4), kr_rbp := ucast (gpr x ! 5), kr_rsi := ucast (gpr x ! 6), kr_rdi := ucast (gpr x ! 7),
         kr_rip := ucast (pc x), kr_rflags := kr_rflags (v_regs v) OR ucast RFLAGS_TF\<rparr>,
       v_dirty := KVM_SYNC_X86_REGS\<rparr>"

definition gate_entry :: "('x, 'k) vmachine \<Rightarrow> u32 \<Rightarrow> u32 res" where
  "gate_entry v pgate =
     bindE (mem8 v pgate) (\<lambda>b0. bindE (mem8 v (pgate + 1)) (\<lambda>b1. bindE (mem8 v (pgate + 6)) (\<lambda>b6. bindE (mem8 v (pgate + 7)) (\<lambda>b7.
     Inr (ucast b0 OR push_bit 8 (ucast b1) OR push_bit 16 (ucast b6) OR push_bit 24 (ucast b7))))))"

definition kvm_raise_intr :: "('x, 'k) hypervisor \<Rightarrow> u32 \<Rightarrow> ('x, 'k) vmachine \<Rightarrow> ('x, 'k) vmachine res" where
  "kvm_raise_intr hv NO v =
     (let pgate_vaddr = ucast (sr_idt_base (v_sregs v) + ucast (NO * 8)) :: u32 in
     bindE (va2pa hv v (ucast pgate_vaddr)) (\<lambda>pgate.
     bindE (gate_entry v (ucast pgate)) (\<lambda>entry.
     bindE (kvm_set_step_mode hv True entry v) (\<lambda>v.
     let v = v\<lparr>int_wp_state := STATE_INT_INSTR, has_error_code := NO = 14, v_entry := entry\<rparr> in
     if NO = 48 then
       let (r, v) = hv_call hv (KVM_INTERRUPT NO) v in bindE (assertE (r = 0)) (\<lambda>_. Inr v)
     else Inr v))))"

definition kvm_difftest_init :: "('x, 'k) hypervisor \<Rightarrow> ('x, 'k) vmachine \<Rightarrow> ('x, 'k) vmachine res" where
  "kvm_difftest_init hv v = bindE (vm_init hv PMEM_SIZE v) (\<lambda>v. bindE (vcpu_init hv v) (run_protected_mode hv))"

text \<open>KVM as the reference of \<open>difftest_step\<close>; once it has failed the process has ended, and no register is read.\<close>

definition kvm_ops :: "('x, 'k) hypervisor \<Rightarrow> ('x, 'k) vmachine res ref_ops" where
  "kvm_ops hv =
     \<lparr>ref_memcpy_from_dut = (\<lambda>a bs s. bindE s (kvm_memcpy_from_dut a bs)),
      ref_getregs = (\<lambda>s. (case s of Inr v \<Rightarrow> kvm_difftest_getregs v | Inl _ \<Rightarrow> \<lparr>gpr = [], pc = 0\<rparr>, s)),
      ref_setregs = (\<lambda>c s. bindE s (\<lambda>v. Inr (kvm_difftest_setregs c v))),
      ref_exec = (\<lambda>n s. bindE s (kvm_difftest_exec hv n))\<rparr>"

end
