(* ===== verification/Kvm_Correct.thy ===== *)
theory Kvm_Correct
  imports Kvm Cte_Correct
begin

text \<open>
  The KVM reference: it follows NEMU's registers, finds the handler of every vector in a table that
  \<open>cte_init\<close> built, completes an interrupt it was told of, and ends whenever the host stops interrupting it.
\<close>

lemmas kvm_mem_defs = mem8_def mem32_def set_mem32_def and_mem32_def load_bytes_def store_bytes_def

definition no_paging :: "('x, 'k) vmachine \<Rightarrow> bool" where
  "no_paging v \<longleftrightarrow> sr_cr0 (v_sregs v) AND CR0_PG = 0"

lemma va2pa_off [simp]: "no_paging v \<Longrightarrow> va2pa hv v a = Inr a"
  by (simp add: va2pa_def no_paging_def)

text \<open>
  What \<open>linux/kvm.h\<close> and the documentation of the calls say of their results: the version is 12, calls that create something return a
  file descriptor, the size of the shared page is positive, calls that set something return 0. A hypervisor that has the
  resources grants all of them; the injection of an interrupt it may refuse, when another one is pending.
\<close>

fun kvm_success :: "'x kvm_call \<Rightarrow> int \<Rightarrow> bool" where
  "kvm_success KVM_GET_API_VERSION r = (r = 12)"
| "kvm_success KVM_CREATE_VM r = (0 \<le> r)"
| "kvm_success KVM_CREATE_VCPU r = (0 \<le> r)"
| "kvm_success KVM_GET_VCPU_MMAP_SIZE r = (0 < r)"
| "kvm_success (KVM_INTERRUPT n) r = (r = 0 \<or> r = -1)"
| "kvm_success _ r = (r = 0)"

definition hv_grants :: "('x, 'k) hypervisor \<Rightarrow> bool" where
  "hv_grants hv \<longleftrightarrow> (\<forall>c k. kvm_success c (fst (hv_ioctl hv c k)))"

lemma hv_grants_success: "hv_grants hv \<Longrightarrow> kvm_success c (fst (hv_ioctl hv c k))"
  by (simp add: hv_grants_def)

lemma hv_grants_check:
  assumes "hv_grants hv" "\<forall>n. c \<noteq> KVM_INTERRUPT n"
  shows "hv_check hv c v = Inr (fst (hv_ioctl hv c (v_hyp v)), v\<lparr>v_hyp := snd (hv_ioctl hv c (v_hyp v))\<rparr>)"
proof -
  have "kvm_success c (fst (hv_ioctl hv c (v_hyp v)))" using assms(1) by (rule hv_grants_success)
  then have "0 \<le> fst (hv_ioctl hv c (v_hyp v))" using assms(2) by (cases c) auto
  then show ?thesis by (simp add: hv_check_def hv_call_def split_beta)
qed

text \<open>The state of the hypervisor after \<open>kvm_set_step_mode\<close>.\<close>

definition stepped :: "('x, 'k) hypervisor \<Rightarrow> bool \<Rightarrow> u32 \<Rightarrow> 'k \<Rightarrow> 'k" where
  "stepped hv b a k = snd (hv_ioctl hv (KVM_SET_GUEST_DEBUG
     \<lparr>gd_control = KVM_GUESTDBG_ENABLE OR KVM_GUESTDBG_SINGLESTEP OR KVM_GUESTDBG_USE_HW_BP,
      gd_debugreg0 = ucast a, gd_debugreg7 = if b then 1 else 0\<rparr>) k)"

lemma hv_grants_step: "hv_grants hv \<Longrightarrow> kvm_set_step_mode hv b a v = Inr (v\<lparr>v_hyp := stepped hv b a (v_hyp v)\<rparr>)"
  by (simp add: kvm_set_step_mode_def hv_grants_check stepped_def)

text \<open>With such a hypervisor the set-up of the reference goes through to the ten instructions that load the descriptor table.\<close>

lemma kvm_init_runs:
  assumes "hv_grants hv" "\<And>k. 0 \<le> fst (hv_open hv k)" "\<And>n. hv_mmap hv n" "\<And>k. hv_get_sregs hv k = Some sregs"
  shows "\<exists>w. kvm_difftest_init hv v = kvm_difftest_exec hv 10 w \<and> int_wp_state w = STATE_IDLE \<and>
    load_bytes PMEM_SIZE 0x7c00 (length kvm_mbr) (v_mem w) = Inr kvm_mbr"
proof -
  note ok = hv_grants_check [OF assms(1)] hv_grants_step [OF assms(1)]
  have vals: "fst (hv_ioctl hv KVM_GET_API_VERSION k) = 12" "0 < fst (hv_ioctl hv KVM_GET_VCPU_MMAP_SIZE k)" for k
    using hv_grants_success [OF assms(1), of KVM_GET_API_VERSION] hv_grants_success [OF assms(1), of KVM_GET_VCPU_MMAP_SIZE] by simp_all
  obtain u where u: "vm_init hv PMEM_SIZE v = Inr u"
    using assms(2) [of "v_hyp v"] by (auto simp: vm_init_def create_mem_def ok vals assms(3) KVM_API_VERSION_def Let_def split_beta)
  obtain x where x: "vcpu_init hv u = Inr x" "int_wp_state x = STATE_IDLE"
    using vals(2) by (auto simp: vcpu_init_def ok hv_call_def assms(3) Let_def split_beta)
  have b: "31744 + length kvm_mbr \<le> PMEM_SIZE" by (simp add: kvm_mbr_def PMEM_SIZE_def)
  then have "\<exists>w. run_protected_mode hv x = kvm_difftest_exec hv 10 w \<and> int_wp_state w = STATE_IDLE \<and> v_mem w = put_bytes 0x7c00 kvm_mbr (v_mem x)"
    using x(2) by (auto simp: run_protected_mode_def kvm_getsregs_def assms(4) kvm_setsregs_def kvm_setregs_def ok store_bytes_def)
  then show ?thesis
    using u x(1) load_put_same [OF b] by (auto simp: kvm_difftest_init_def)
qed

section \<open>Registers\<close>

lemma ucast_up_down [simp]: "ucast (ucast (a :: u32) :: u64) = a"
  by (rule bit_word_eqI) (auto simp: bit_simps)

lemma kvm_setregs_getregs: "length (gpr x) = 8 \<Longrightarrow> kvm_difftest_getregs (kvm_difftest_setregs x v) = x"
  by (auto simp: kvm_difftest_getregs_def kvm_difftest_setregs_def numeral_eq_Suc length_Suc_conv)

text \<open>
  An instruction NEMU tells differential testing to skip brings the KVM reference to NEMU's registers: the step takes no
  instruction in the virtual machine, changes no memory, and afterwards the reference reports exactly NEMU's registers and
  keeps the trap flag that single-steps it.
\<close>

theorem kvm_skip_syncs:
  assumes "skip_dut_nr_instr d = 0" "is_skip_ref d" "ref_state d = Inr v" "length (gpr (cpu (dut_mach d))) = 8"
  shows "\<exists>w. difftest_step (kvm_ops hv) this_pc next_pc d = Inr (d\<lparr>is_skip_ref := False, ref_state := Inr w\<rparr>) \<and>
    ref_getregs (kvm_ops hv) (Inr w) = (cpu (dut_mach d), Inr w) \<and> v_mem w = v_mem v \<and> v_dirty w = KVM_SYNC_X86_REGS \<and>
    kr_rflags (v_regs w) AND ucast RFLAGS_TF = ucast RFLAGS_TF"
proof -
  let ?w = "kvm_difftest_setregs (cpu (dut_mach d)) v"
  have "difftest_step (kvm_ops hv) this_pc next_pc d = Inr (d\<lparr>is_skip_ref := False, ref_state := Inr ?w\<rparr>)"
    using assms by (simp add: difftest_step_def kvm_ops_def)
  moreover have "(a OR b) AND b = b" for a b :: u64
    by (rule bit_word_eqI) (auto simp: bit_simps)
  ultimately show ?thesis
    using kvm_setregs_getregs [OF assms(4), of v]
    by (intro exI [of _ ?w]) (simp add: kvm_ops_def, simp add: kvm_difftest_setregs_def)
qed

section \<open>Interrupt gates\<close>

text \<open>The bytes of a gate descriptor in memory, and a table of them.\<close>

definition gate_bytes :: "GateDesc32 \<Rightarrow> u8 list" where
  "gate_bytes g = le_bytes 2 (off_15_0 g) @ le_bytes 2 (gd_cs g) @
     [ucast (gd_args g) OR push_bit 5 (ucast (gd_rsv1 g)),
      ucast (gd_type g) OR push_bit 4 (ucast (gd_s g)) OR push_bit 5 (ucast (gd_dpl g)) OR push_bit 7 (ucast (gd_p g))] @
     le_bytes 2 (off_31_16 g)"

definition idt_at :: "nat \<Rightarrow> GateDesc32 list \<Rightarrow> byte_array \<Rightarrow> bool" where
  "idt_at base gates m \<longleftrightarrow> base + 8 * length gates \<le> PMEM_SIZE \<and>
     (\<forall>i<length gates. load_bytes PMEM_SIZE (base + 8 * i) 8 m = Inr (gate_bytes (gates ! i)))"

lemma mem8_load: "load_bytes PMEM_SIZE p n (v_mem v) = Inr bs \<Longrightarrow> i < n \<Longrightarrow> unat q = p + i \<Longrightarrow> mem8 v q = Inr (bs ! i)"
  by (auto simp: mem8_def load_bytes_def split: if_splits)

lemma gate_entry_off:
  assumes "load_bytes PMEM_SIZE (unat p) 8 (v_mem v) = Inr (gate_bytes g)"
  shows "gate_entry v p = Inr (gate_off g)"
proof -
  have "unat p + 8 \<le> PMEM_SIZE"
    using load_bytes_Inr [OF assms] by simp
  then have "unat (p + 1) = unat p + 1" "unat (p + 6) = unat p + 6" "unat (p + 7) = unat p + 7"
    by (simp_all add: PMEM_SIZE_def unat_word_ariths(1))
  then have m: "mem8 v p = Inr (gate_bytes g ! 0)" "mem8 v (p + 1) = Inr (gate_bytes g ! 1)" "mem8 v (p + 6) = Inr (gate_bytes g ! 6)"
    "mem8 v (p + 7) = Inr (gate_bytes g ! 7)"
    by (auto intro!: mem8_load [OF assms])
  have b: "gate_bytes g ! 0 = ucast (off_15_0 g)" "gate_bytes g ! 1 = ucast (drop_bit 8 (off_15_0 g))"
    "gate_bytes g ! 6 = ucast (off_31_16 g)" "gate_bytes g ! 7 = ucast (drop_bit 8 (off_31_16 g))"
    by (simp_all add: gate_bytes_def nth_append le_bytes_def)
  have h: "ucast (ucast x :: u8) OR push_bit 8 (ucast (ucast (drop_bit 8 x) :: u8)) = (ucast x :: u32)" for x :: u16
    by (rule bit_word_eqI) (auto simp: bit_simps not_le not_less dest: bit_imp_le_length)
  have "ucast (ucast (off_15_0 g) :: u8) OR push_bit 8 (ucast (ucast (drop_bit 8 (off_15_0 g)) :: u8)) OR
      push_bit 16 (ucast (ucast (off_31_16 g) :: u8)) OR push_bit 24 (ucast (ucast (drop_bit 8 (off_31_16 g)) :: u8)) = gate_off g"
    using h [of "off_15_0 g"] arg_cong [OF h [of "off_31_16 g"], of "push_bit 16"]
    by (simp add: gate_off_def push_bit_or or.assoc [symmetric]) (simp add: or.commute)
  then show ?thesis unfolding gate_entry_def m b by simp
qed

text \<open>The timer interrupt is injected at once; \<open>injected\<close> tells whether the hypervisor took it.\<close>

definition injected :: "('x, 'k) hypervisor \<Rightarrow> u32 \<Rightarrow> u32 \<Rightarrow> 'k \<Rightarrow> bool" where
  "injected hv NO e k \<longleftrightarrow> fst (hv_ioctl hv (KVM_INTERRUPT NO) (stepped hv True e k)) = 0"

lemma raise_from_entry:
  assumes "hv_grants hv" "no_paging v" "gate_entry v (ucast (sr_idt_base (v_sregs v) + ucast (NO * 8))) = Inr e"
  shows "\<exists>w. kvm_raise_intr hv NO v = (if NO = 48 \<and> \<not> injected hv NO e (v_hyp v) then Inl Assert_fail else Inr w) \<and>
    v_entry w = e \<and> has_error_code w = (NO = 14) \<and>
    int_wp_state w = STATE_INT_INSTR \<and> v_mem w = v_mem v \<and> v_regs w = v_regs v \<and> v_sregs w = v_sregs v"
proof -
  define k where "k = stepped hv True e (v_hyp v)"
  define u where "u = v\<lparr>v_hyp := k, int_wp_state := STATE_INT_INSTR, has_error_code := NO = 14, v_entry := e\<rparr>"
  define w where "w = (if NO = 48 then u\<lparr>v_hyp := snd (hv_ioctl hv (KVM_INTERRUPT NO) k)\<rparr> else u)"
  have "kvm_raise_intr hv NO v = (if NO = 48 then let (r, v) = hv_call hv (KVM_INTERRUPT NO) u in bindE (assertE (r = 0)) (\<lambda>_. Inr v) else Inr u)"
    using assms(2,3) hv_grants_step [OF assms(1)] by (simp add: kvm_raise_intr_def Let_def u_def k_def)
  also have "\<dots> = (if NO = 48 \<and> \<not> injected hv NO e (v_hyp v) then Inl Assert_fail else Inr w)"
    by (simp add: hv_call_def injected_def w_def u_def k_def assertE_def split_beta)
  finally show ?thesis by (intro exI [of _ w]) (simp add: w_def u_def)
qed

text \<open>
  C34. Told of an interrupt, the KVM reference finds its handler: with the table that \<open>cte_init\<close> of the abstract machine
  builds anywhere in physical memory, it watches for exactly the stub of that vector, remembers whether the
  processor pushes an error code (a page fault), and changes neither registers nor memory. Only the timer interrupt, which it
  injects at once, can fail: exactly if the hypervisor refuses the injection.
\<close>

theorem kvm_finds_handler:
  assumes "hv_grants hv" "no_paging v" "idt_at (unat (sr_idt_base (v_sregs v))) (cte_idt ld) (v_mem v)" "n < 256"
  shows "\<exists>w. kvm_raise_intr hv (of_nat n) v = (if n = 48 \<and> \<not> injected hv 48 (s_irqall ld) (v_hyp v) then Inl Assert_fail else Inr w) \<and>
    v_entry w = (if n \<in> fst ` set IRQS then s_irq ld n else s_irqall ld) \<and> has_error_code w = (n = 14) \<and>
    int_wp_state w = STATE_INT_INSTR \<and> v_mem w = v_mem v \<and> v_regs w = v_regs v \<and> v_sregs w = v_sregs v"
proof -
  define p :: u32 where "p = ucast (sr_idt_base (v_sregs v) + ucast (of_nat n * 8 :: u32))"
  have bnd: "unat (sr_idt_base (v_sregs v)) + 8 * NR_IRQ \<le> PMEM_SIZE"
    using assms(3) by (simp add: idt_at_def length_cte_idt)
  have n8: "unat (of_nat n * 8 :: u32) = 8 * n"
    using assms(4) by (simp add: unat_word_ariths(2) unat_of_nat)
  have "unat (ucast (of_nat n * 8 :: u32) :: u64) = 8 * n"
    using n8 assms(4) by (simp add: unsigned_ucast_eq take_bit_nat_eq_self)
  then have "unat (sr_idt_base (v_sregs v) + ucast (of_nat n * 8 :: u32)) = unat (sr_idt_base (v_sregs v)) + 8 * n"
    using bnd assms(4) by (simp add: unat_word_ariths(1) PMEM_SIZE_def NR_IRQ_def)
  then have p: "unat p = unat (sr_idt_base (v_sregs v)) + 8 * n"
    using bnd assms(4) by (simp add: p_def unsigned_ucast_eq take_bit_nat_eq_self PMEM_SIZE_def NR_IRQ_def)
  have "load_bytes PMEM_SIZE (unat p) 8 (v_mem v) = Inr (gate_bytes (cte_idt ld ! n))"
    using assms(3,4) by (simp add: idt_at_def p length_cte_idt NR_IRQ_def)
  then have g: "gate_entry v p = Inr (if n \<in> fst ` set IRQS then s_irq ld n else s_irqall ld)"
    using gate_entry_off [of p v] assms(4) cte_idt_nth [of n ld] by (simp only: NR_IRQ_def gate_off_GATE32)
  have num: "(of_nat n :: u32) = 14 \<longleftrightarrow> n = 14" "(of_nat n :: u32) = 48 \<longleftrightarrow> n = 48"
    using assms(4) by (simp_all add: word_unat_eq_iff unat_of_nat)
  have "48 \<notin> fst ` set IRQS" by (simp add: IRQS_def)
  then show ?thesis
    using raise_from_entry [OF assms(1,2), of "of_nat n"] g num unfolding p_def by (cases "n = 48") simp_all
qed

section \<open>Interrupts\<close>

lemma mem8_range: "mem8 v p = Inr b \<Longrightarrow> p \<noteq> 0xffffffff"
  by (auto simp: kvm_mem_defs PMEM_SIZE_def split: if_splits)

lemma patching_plain:
  assumes "no_paging v" "mem8 v (ucast (kr_rip (v_regs v))) = Inr b" "b \<noteq> 0xcf" "int_wp_state v = STATE_INT_INSTR \<or> b \<notin> {0x9c, 0x9d}"
  shows "patching hv v = Inr (False, v)"
  using assms mem8_range [OF assms(2)] by (auto simp: patching_def Let_def)

lemma patching_after_plain:
  assumes "no_paging v" "mem8 v (ucast a) = Inr b" "b \<notin> {0x1e, 0x06, 0x0f}"
  shows "patching_after hv a v = Inr v"
  using assms by (simp add: patching_after_def Let_def)

lemma kvm_run_own:
  "kvm_run hv v = (r, w) \<Longrightarrow> int_wp_state w = int_wp_state v \<and> has_error_code w = has_error_code v \<and> v_entry w = v_entry v"
  by (auto simp: kvm_run_def split: prod.splits)

lemma and_mem32_ok: "mem32 v p = Inr d \<Longrightarrow> and_mem32 p m v = Inr (v\<lparr>v_mem := put_bytes (unat p) (le_bytes 4 (d AND m)) (v_mem v)\<rparr>)"
  by (auto simp: kvm_mem_defs split: if_splits)

text \<open>
  C35. An announced interrupt completes: when the virtual machine stops at the handler that was announced, one call of
  \<open>difftest_exec\<close> returns to the idle state, and all it changes is the flags word of the interrupt frame, found above the
  error code if there is one, from which it clears exactly the bits that single-stepping disturbs.
\<close>

theorem kvm_interrupt_completes:
  assumes "hv_grants hv" "no_paging v" "int_wp_state v = STATE_INT_INSTR"
    and "mem8 v (ucast (kr_rip (v_regs v))) = Inr b" "b \<noteq> 0xcf"
    and run: "kvm_run hv v = (Run_ok, w)" "v_exit_reason w = KVM_EXIT_DEBUG" "v_debug_pc w = ucast (v_entry v)" "no_paging w"
    and "mem8 w (ucast (kr_rip (v_regs v))) = Inr b'" "b' \<notin> {0x1e, 0x06, 0x0f}"
    and fl: "mem32 w (ucast (kr_rsp (v_regs w) + (if has_error_code v then 12 else 8))) = Inr fl"
  shows "\<exists>u. kvm_difftest_exec hv 1 v = Inr u \<and> int_wp_state u = STATE_IDLE \<and> v_regs u = v_regs w \<and>
    v_mem u = put_bytes (unat (ucast (kr_rsp (v_regs w) + (if has_error_code v then 12 else 8)) :: u32))
      (le_bytes 4 (fl AND NOT RFLAGS_FIX_MASK)) (v_mem w)"
proof -
  define a where "a = kr_rsp (v_regs w) + (if has_error_code v then 12 else 8)"
  define w1 where "w1 = w\<lparr>v_mem := put_bytes (unat (ucast a :: u32)) (le_bytes 4 (fl AND NOT RFLAGS_FIX_MASK)) (v_mem w)\<rparr>"
  define k where "k = stepped hv False 0 (v_hyp w1)"
  have k: "kvm_set_step_mode hv False 0 w1 = Inr (w1\<lparr>v_hyp := k\<rparr>)"
    using hv_grants_step [OF assms(1)] by (simp add: k_def)
  have own: "int_wp_state w = STATE_INT_INSTR" "has_error_code w = has_error_code v" "v_entry w = v_entry v"
    using kvm_run_own [OF run(1)] assms(3) by simp_all
  have f: "and_mem32 (ucast a) (NOT RFLAGS_FIX_MASK) w = Inr w1"
    using and_mem32_ok [OF fl, of "NOT RFLAGS_FIX_MASK"] by (simp add: w1_def a_def)
  have o: "8 + (if has_error_code v then 4 else 0) = (if has_error_code v then 12 else 8 :: u64)" by simp
  have "leave_watch hv w1 = Inr (w1\<lparr>v_hyp := k, int_wp_state := STATE_IDLE\<rparr>)"
    using k own(3) run(3) by (simp add: leave_watch_def w1_def)
  then have "debug_exit hv (kr_rip (v_regs v)) w = Inr (w1\<lparr>v_hyp := k, int_wp_state := STATE_IDLE\<rparr>)"
    using own f patching_after_plain [OF run(4) assms(10,11)] run(4) unfolding debug_exit_def Let_def
    by (simp only: own o a_def [symmetric] bindE.simps int_wp_state.case va2pa_off)
  then have "kvm_exec hv 1 v = Some (Inr (w1\<lparr>v_hyp := k, int_wp_state := STATE_IDLE\<rparr>))"
    using patching_plain [OF assms(2,4,5)] assms(3) run(1,2) by (subst kvm_exec.simps) (simp add: kvm_exec.simps)
  then show ?thesis
    by (simp add: kvm_difftest_exec_def w1_def a_def)
qed

text \<open>
  C36. An interrupt announced while the next instruction is an \<open>iret\<close> is lost: unlike \<open>pushf\<close> and \<open>popf\<close>, the patch of
  \<open>iret\<close> does not look at the pending interrupt and replaces the address watched for. If the virtual machine, run from the
  state \<open>u\<close> that the patch leaves, takes the interrupt and stops at the handler that was announced, the run aborts, unless the
  return address happens to be that of the handler.
\<close>

theorem kvm_iret_loses_interrupt:
  assumes "hv_grants hv" "no_paging v" "int_wp_state v = STATE_INT_INSTR" "n \<noteq> 0"
    and "mem8 v (ucast (kr_rip (v_regs v))) = Inr 0xcf" "mem32 v (ucast (kr_rsp (v_regs v))) = Inr ret" "ret \<noteq> v_entry v"
    and u: "u = v\<lparr>v_entry := ret, v_hyp := stepped hv True ret (v_hyp v), int_wp_state := STATE_IRET_INSTR\<rparr>"
    and w: "kvm_run hv u = (Run_ok, w)" "v_exit_reason w = KVM_EXIT_DEBUG" "v_debug_pc w = ucast (v_entry v)" "no_paging w"
      "mem8 w (ucast (kr_rip (v_regs v))) = Inr 0xcf"
  shows "kvm_difftest_exec hv n v = Inl Assert_fail"
proof -
  have p: "patching hv v = Inr (False, u)"
    using assms(2,5,6) mem8_range [OF assms(5)] hv_grants_step [OF assms(1)] by (simp add: patching_def iret_patch_def Let_def u)
  have own: "v_regs u = v_regs v" "v_entry u = ret" "int_wp_state u = STATE_IRET_INSTR"
    by (simp_all add: u)
  have "(ucast ret :: u64) \<noteq> ucast (v_entry v)"
    using assms(7) ucast_up_down by metis
  moreover have "int_wp_state w = STATE_IRET_INSTR" "v_entry w = ret"
    using kvm_run_own [OF w(1)] own by simp_all
  moreover have "patching_after hv (kr_rip (v_regs v)) w = Inr w"
    by (rule patching_after_plain [OF w(4,5)]) simp
  ultimately have "debug_exit hv (kr_rip (v_regs v)) w = Inl Assert_fail"
    using w(3) by (simp add: debug_exit_def leave_watch_def)
  then have "kvm_exec hv n v = Some (Inl Assert_fail)"
    using p w(1,2) assms(4) own(1) by (subst kvm_exec.simps) simp
  then show ?thesis by (simp add: kvm_difftest_exec_def)
qed

section \<open>Patched instructions\<close>

text \<open>
  \<open>pushf\<close> followed by \<open>popf\<close> never enters the virtual machine: whatever the hypervisor does, two instructions leave the
  stack pointer and every general register as they were, the program counter two further, and the 32-bit flags equal to
  the old ones with the bits of the fix mask cleared, the trap flag and the reserved bit 1 set. Only the
  four bytes below the stack pointer change.
\<close>

theorem kvm_pushf_popf:
  assumes "no_paging v" "int_wp_state v = STATE_IDLE"
    and "mem8 v (ucast (kr_rip (v_regs v))) = Inr 0x9c" "mem8 v (ucast (kr_rip (v_regs v) + 1)) = Inr 0x9d"
    and sp: "unat (ucast (kr_rsp (v_regs v) - 4) :: u32) + 4 \<le> PMEM_SIZE"
    and code: "unat (ucast (kr_rip (v_regs v) + 1) :: u32) \<notin> {unat (ucast (kr_rsp (v_regs v) - 4) :: u32)..<unat (ucast (kr_rsp (v_regs v) - 4) :: u32) + 4}"
  defines "fl \<equiv> ucast (kr_rflags (v_regs v)) AND NOT RFLAGS_FIX_MASK :: u32"
  shows "kvm_difftest_exec hv 2 v = Inr (v\<lparr>v_regs := (v_regs v)\<lparr>kr_rip := kr_rip (v_regs v) + 2, kr_rflags := ucast (fl OR RFLAGS_TF OR 2)\<rparr>,
    v_mem := put_bytes (unat (ucast (kr_rsp (v_regs v) - 4) :: u32)) (le_bytes 4 fl) (v_mem v), v_dirty := KVM_SYNC_X86_REGS\<rparr>)"
proof -
  define p where "p = (ucast (kr_rsp (v_regs v) - 4) :: u32)"
  define v1 where "v1 = v\<lparr>v_regs := (v_regs v)\<lparr>kr_rsp := kr_rsp (v_regs v) - 4, kr_rflags := kr_rflags (v_regs v) OR ucast RFLAGS_TF,
      kr_rip := kr_rip (v_regs v) + 1\<rparr>, v_mem := put_bytes (unat p) (le_bytes 4 fl) (v_mem v), v_dirty := KVM_SYNC_X86_REGS\<rparr>"
  have fl: "ucast (kr_rflags (v_regs v) AND ucast (NOT RFLAGS_FIX_MASK)) = fl"
    unfolding fl_def by (rule bit_word_eqI) (auto simp: bit_simps)
  have np: "no_paging (v\<lparr>v_regs := r\<rparr>)" "no_paging v1" for r
    using assms(1) by (simp_all add: no_paging_def v1_def)
  have "pushf_patch hv v = Inr v1"
    using sp np(1) by (simp add: pushf_patch_def fl set_mem32_def store_bytes_def p_def v1_def)
  then have 1: "patching hv v = Inr (True, v1)"
    using assms(1-3) mem8_range [OF assms(3)] by (simp add: patching_def Let_def)
  have m: "mem32 v1 p = Inr fl"
    using sp load_put_same [of "unat p" "le_bytes 4 fl" PMEM_SIZE "v_mem v"] by (simp add: mem32_def v1_def p_def le_word_le_bytes_full)
  have op: "mem8 v1 (ucast (kr_rip (v_regs v) + 1)) = Inr 0x9d"
    using assms(4) code by (auto simp: mem8_def load_bytes_def v1_def put_bytes_def p_def split: if_splits)
  have "popf_patch hv v1 = Inr (v1\<lparr>v_regs := (v_regs v1)\<lparr>kr_rflags := ucast (fl OR RFLAGS_TF OR 2), kr_rsp := kr_rsp (v_regs v),
      kr_rip := kr_rip (v_regs v) + 2\<rparr>\<rparr>)"
    using m np(2) by (simp add: popf_patch_def v1_def p_def)
  then have 2: "patching hv v1 = Inr (True, v1\<lparr>v_regs := (v_regs v1)\<lparr>kr_rflags := ucast (fl OR RFLAGS_TF OR 2), kr_rsp := kr_rsp (v_regs v),
      kr_rip := kr_rip (v_regs v) + 2\<rparr>\<rparr>)"
    using np(2) op mem8_range [OF op] assms(2) by (simp add: patching_def Let_def v1_def)
  have "kvm_exec hv 2 v = Some (Inr (v1\<lparr>v_regs := (v_regs v1)\<lparr>kr_rflags := ucast (fl OR RFLAGS_TF OR 2), kr_rsp := kr_rsp (v_regs v),
      kr_rip := kr_rip (v_regs v) + 2\<rparr>\<rparr>))"
    using 1 2 by (subst kvm_exec.simps, simp) (subst kvm_exec.simps, simp, simp add: kvm_exec.simps)
  then show ?thesis
    by (simp add: kvm_difftest_exec_def v1_def p_def)
qed

section \<open>Termination\<close>

lemma kvm_step_rank:
  fixes rank :: "'k \<Rightarrow> nat"
  assumes "\<And>c k. rank (snd (hv_ioctl hv c k)) \<le> rank k" "kvm_set_step_mode hv b a v = Inr w"
  shows "rank (v_hyp w) \<le> rank (v_hyp v)"
  using assms(1) [of _ "v_hyp v"] assms(2)
  by (auto simp: kvm_set_step_mode_def hv_check_def hv_call_def bindE_eq_Inr split: prod.splits) (metis snd_conv)

lemma patching_rank:
  fixes rank :: "'k \<Rightarrow> nat"
  assumes r: "\<And>c k. rank (snd (hv_ioctl hv c k)) \<le> rank k" and "patching hv v = Inr (p, w)"
  shows "rank (v_hyp w) \<le> rank (v_hyp v)"
proof -
  have st: "rank (v_hyp y) \<le> rank (v_hyp x)" if "kvm_set_step_mode hv True e (x\<lparr>v_entry := e\<rparr>) = Inr y" for e x y
    using kvm_step_rank [of rank, OF r that] by simp
  show ?thesis
    using assms(2) by (auto simp: patching_def pushf_patch_def popf_patch_def iret_patch_def set_mem32_def bindE_eq_Inr Let_def dest: st split: if_splits)
qed

text \<open>
  C37. \<open>difftest_exec\<close> ends: if the host interrupts \<open>KVM_RUN\<close> only finitely often in a row (a rank of the hypervisor's state that
  an interrupted run lowers and no other call raises), the loop returns for every number of instructions, every
  state and every program in memory.
\<close>

theorem kvm_exec_terminates:
  fixes rank :: "'k \<Rightarrow> nat"
  assumes "\<And>v w. kvm_run hv v = (Run_eintr, w) \<Longrightarrow> rank (v_hyp w) < rank (v_hyp v)"
    and "\<And>c k. rank (snd (hv_ioctl hv c k)) \<le> rank k"
  shows "\<exists>r. kvm_exec hv n v = Some r"
proof (induction "unat n" arbitrary: n v rule: less_induct)
  case less
  note outer = less
  show ?case
  proof (induction "rank (v_hyp v)" arbitrary: v rule: less_induct)
    case less
    have dec: "\<exists>r. kvm_exec hv (n - 1) u = Some r" if "n \<noteq> 0" for u
      using outer [of "n - 1"] that by (simp add: unat_minus_one unat_gt_0)
    have again: "\<exists>r. kvm_exec hv n w = Some r" if "patching hv v = Inr (False, u)" "kvm_run hv u = (Run_eintr, w)" for u w
      using less [of w] assms(1) [OF that(2)] patching_rank [of rank, OF assms(2) that(1)] by simp
    show ?case
      using dec again by (subst kvm_exec.simps) (auto split: sum.splits kvm_run_result.splits prod.splits)
  qed
qed


section \<open>Examples\<close>

definition ex_seg :: kvm_segment where
  "ex_seg = \<lparr>sg_base = 0, sg_limit = 0, sg_selector = 8, sg_type = 0, sg_present = 1, sg_dpl = 0, sg_db = 1, sg_s = 1, sg_l = 0, sg_g = 1\<rparr>"

text \<open>
  A hypervisor of this kind. Its state counts the interruptions still to come and holds the interrupt that was injected. Its
  machine has one-byte instructions that do nothing, and takes a pending interrupt first: it pushes the frame and stops at
  the handler, which is at 0x1000 for every vector.
\<close>

type_synonym ex_hyp = "nat \<times> bool"

fun ex_ioctl :: "unit kvm_call \<Rightarrow> ex_hyp \<Rightarrow> int \<times> ex_hyp" where
  "ex_ioctl KVM_GET_API_VERSION k = (12, k)"
| "ex_ioctl KVM_CREATE_VM k = (4, k)"
| "ex_ioctl KVM_CREATE_VCPU k = (5, k)"
| "ex_ioctl KVM_GET_VCPU_MMAP_SIZE k = (0x3000, k)"
| "ex_ioctl (KVM_INTERRUPT n) (i, p) = (if p then (-1, (i, p)) else (0, (i, True)))"
| "ex_ioctl _ k = (0, k)"

definition ex_stop :: "u64 \<Rightarrow> (unit, ex_hyp) vmachine \<Rightarrow> kvm_run_result \<times> (unit, ex_hyp) vmachine" where
  "ex_stop a v = (Run_ok, v\<lparr>v_regs := (v_regs v)\<lparr>kr_rip := a\<rparr>, v_exit_reason := KVM_EXIT_DEBUG, v_debug_pc := a\<rparr>)"

definition ex_run :: "(unit, ex_hyp) vmachine \<Rightarrow> kvm_run_result \<times> (unit, ex_hyp) vmachine" where
  "ex_run v =
     (case v_hyp v of
        (Suc i, p) \<Rightarrow> (Run_eintr, v\<lparr>v_hyp := (i, p)\<rparr>)
      | (0, True) \<Rightarrow>
          let r = v_regs v; sp = kr_rsp r - 12;
              frame = le_bytes 4 (ucast (kr_rip r) :: u32) @ le_bytes 4 (8 :: u32) @ le_bytes 4 (ucast (kr_rflags r) OR RFLAGS_TF)
          in ex_stop 0x1000 (v\<lparr>v_hyp := (0, False), v_regs := r\<lparr>kr_rsp := sp\<rparr>, v_mem := put_bytes (unat sp) frame (v_mem v)\<rparr>)
      | (0, False) \<Rightarrow> ex_stop (kr_rip (v_regs v) + 1) v)"

definition ex_sregs :: "unit kvm_sregs" where
  "ex_sregs = \<lparr>sr_cs = ex_seg, sr_ds = ex_seg, sr_es = ex_seg, sr_fs = ex_seg, sr_gs = ex_seg, sr_ss = ex_seg, sr_idt_base = 0x1000, sr_cr0 = 1, sr_rest = ()\<rparr>"

definition ex_hv :: "(unit, ex_hyp) hypervisor" where
  "ex_hv = \<lparr>hv_open = \<lambda>k. (3, k), hv_mmap = \<lambda>_. True, hv_ioctl = ex_ioctl, hv_get_regs = \<lambda>_. None, hv_get_sregs = \<lambda>_. Some ex_sregs,
     hv_translate = \<lambda>_ a. (0, True, a), hv_run = ex_run\<rparr>"

definition ex_vm :: "ex_hyp \<Rightarrow> byte_array \<Rightarrow> int_wp_state \<Rightarrow> (unit, ex_hyp) vmachine" where
  "ex_vm k m s = \<lparr>v_hyp = k, v_sys_fd = 3, v_vm_fd = 4, v_vcpu_fd = 5, v_mem = m, v_mmio = \<lambda>_. 0,
     v_regs = \<lparr>kr_rax = 1, kr_rbx = 2, kr_rcx = 3, kr_rdx = 4, kr_rsi = 5, kr_rdi = 6, kr_rsp = 0x8000, kr_rbp = 7, kr_high = replicate 8 0,
       kr_rip = 0x7c00, kr_rflags = 2\<rparr>,
     v_sregs = ex_sregs, v_valid = 3, v_dirty = 0, v_exit_reason = 0, v_debug_pc = 0, int_wp_state = s, has_error_code = False, v_entry = 0x1000\<rparr>"

lemma ex_hv_grants: "hv_grants ex_hv"
proof -
  have "kvm_success c (fst (ex_ioctl c k))" for c k by (cases "(c, k)" rule: ex_ioctl.cases) auto
  then show ?thesis by (simp add: hv_grants_def ex_hv_def)
qed

text \<open>Its set-up reaches the first instructions, and an interrupt can be injected while none is pending.\<close>

lemma ex_hv_init: "\<exists>w. kvm_difftest_init ex_hv v = kvm_difftest_exec ex_hv 10 w"
  using kvm_init_runs [OF ex_hv_grants, of ex_sregs v] by (auto simp: ex_hv_def)

lemma ex_hv_injected: "injected ex_hv NO e (i, p) = (\<not> p)"
  by (simp add: injected_def stepped_def ex_hv_def)

lemma ex_no_paging: "no_paging (ex_vm k m s)"
  by (simp add: no_paging_def ex_vm_def ex_sregs_def CR0_PG_def)

lemma load_fun: "p + n \<le> 134217728 \<Longrightarrow> load_bytes PMEM_SIZE p n f = Inr (map (\<lambda>i. f (p + i)) [0..<n])" "134217728 \<le> PMEM_SIZE"
  by (simp_all add: load_bytes_def PMEM_SIZE_def)

theorem kvm_skip_syncs_witness:
  "\<exists>w. difftest_step (kvm_ops ex_hv) 0 0
      \<lparr>is_skip_ref = True, skip_dut_nr_instr = 0, ref_state = Inr (ex_vm (0, False) (\<lambda>_. 0) STATE_IDLE), dut_mach = idle_mach\<rparr> =
    Inr \<lparr>is_skip_ref = False, skip_dut_nr_instr = 0, ref_state = Inr w, dut_mach = idle_mach\<rparr> \<and>
    ref_getregs (kvm_ops ex_hv) (Inr w) = (\<lparr>gpr = replicate 8 0, pc = 0\<rparr>, Inr w)"
  using kvm_skip_syncs [of "\<lparr>is_skip_ref = True, skip_dut_nr_instr = 0, ref_state = Inr (ex_vm (0, False) (\<lambda>_. 0) STATE_IDLE), dut_mach = idle_mach\<rparr>"
    "ex_vm (0, False) (\<lambda>_. 0) STATE_IDLE" ex_hv 0 0]
  by (auto simp: idle_mach_def)

theorem kvm_finds_handler_witness:
  "\<forall>ld :: symbols. \<exists>m w. kvm_raise_intr ex_hv 14 (ex_vm (0, False) m STATE_IDLE) = Inr w \<and> v_entry w = s_irq ld 14 \<and> has_error_code w"
proof
  fix ld :: symbols
  define m where "m = (\<lambda>i. gate_bytes (cte_idt ld ! ((i - 0x1000) div 8)) ! ((i - 0x1000) mod 8))"
  have "length (gate_bytes g) = 8" for g by (simp add: gate_bytes_def)
  then have "map (\<lambda>j. m (0x1000 + 8 * i + j)) [0..<8] = gate_bytes (cte_idt ld ! i)" for i
    by (intro nth_equalityI) (auto simp: m_def)
  then have "idt_at (unat (sr_idt_base (v_sregs (ex_vm (0, False) m STATE_IDLE)))) (cte_idt ld) (v_mem (ex_vm (0, False) m STATE_IDLE))"
    by (simp add: idt_at_def length_cte_idt NR_IRQ_def ex_vm_def ex_sregs_def load_fun(1) order_trans [OF _ load_fun(2)])
  then show "\<exists>m w. kvm_raise_intr ex_hv 14 (ex_vm (0, False) m STATE_IDLE) = Inr w \<and> v_entry w = s_irq ld 14 \<and> has_error_code w"
    using kvm_finds_handler [OF ex_hv_grants ex_no_paging, of "(0, False)" m STATE_IDLE ld 14] by (auto simp: IRQS_def)
qed

text \<open>The state in which the pending interrupt is taken: at the handler, above the frame.\<close>

lemma ex_taken:
  assumes "v_hyp v = (0, True)" "v_regs v = v_regs (ex_vm k m s)" "v_sregs v = ex_sregs" "v_mem v 0x7c00 = c"
  shows "\<exists>w. kvm_run ex_hv v = (Run_ok, w) \<and> v_exit_reason w = KVM_EXIT_DEBUG \<and> v_debug_pc w = 0x1000 \<and> kr_rip (v_regs w) = 0x1000 \<and>
    kr_rsp (v_regs w) = 0x7ff4 \<and> no_paging w \<and> mem8 w 0x7c00 = Inr c"
  using assms
  by (simp add: kvm_run_def ex_hv_def ex_run_def ex_stop_def Let_def ex_vm_def no_paging_def ex_sregs_def CR0_PG_def mem8_def load_fun put_bytes_def)

lemma mem_word: "unat p + 4 \<le> 134217728 \<Longrightarrow> \<exists>w. mem32 v p = Inr w"
  by (simp add: mem32_def load_fun)

theorem kvm_interrupt_completes_witness:
  "\<exists>u. kvm_difftest_exec ex_hv 1 (ex_vm (0, True) (\<lambda>_. 0x90) STATE_INT_INSTR) = Inr u \<and> int_wp_state u = STATE_IDLE \<and> kr_rip (v_regs u) = 0x1000"
proof -
  let ?v = "ex_vm (0, True) (\<lambda>_. 0x90) STATE_INT_INSTR"
  obtain w where w: "kvm_run ex_hv ?v = (Run_ok, w)" "v_exit_reason w = KVM_EXIT_DEBUG" "v_debug_pc w = 0x1000" "kr_rip (v_regs w) = 0x1000"
    "kr_rsp (v_regs w) = 0x7ff4" "no_paging w" "mem8 w 0x7c00 = Inr 0x90"
    using ex_taken [of ?v "(0, True)" "\<lambda>_. 0x90" STATE_INT_INSTR "0x90"] by (auto simp: ex_vm_def)
  obtain fl where "mem32 w 0x7ffc = Inr fl" using mem_word [of "0x7ffc" w] by auto
  moreover have "mem8 ?v 0x7c00 = Inr 0x90" by (simp add: mem8_def load_fun ex_vm_def)
  ultimately show ?thesis
    using w kvm_interrupt_completes [OF ex_hv_grants ex_no_paging _ _ _ w(1,2) _ w(6), of "0x90" "0x90" fl]
    by (auto simp: ex_vm_def)
qed

theorem kvm_iret_loses_interrupt_witness:
  "kvm_difftest_exec ex_hv 1 (ex_vm (0, True) (\<lambda>_. 0xcf) STATE_INT_INSTR) = Inl Assert_fail"
proof -
  let ?v = "ex_vm (0, True) (\<lambda>_. 0xcf) STATE_INT_INSTR"
  define u where "u = ?v\<lparr>v_entry := 0xcfcfcfcf, v_hyp := stepped ex_hv True 0xcfcfcfcf (v_hyp ?v), int_wp_state := STATE_IRET_INSTR\<rparr>"
  have "v_hyp u = (0, True)" "v_regs u = v_regs ?v" "v_sregs u = ex_sregs" "v_mem u 0x7c00 = 0xcf"
    by (simp_all add: u_def ex_vm_def stepped_def ex_hv_def)
  from ex_taken [OF this] obtain w where w: "kvm_run ex_hv u = (Run_ok, w)" "v_exit_reason w = KVM_EXIT_DEBUG" "v_debug_pc w = 0x1000"
    "no_paging w" "mem8 w 0x7c00 = Inr 0xcf" by auto
  have "mem8 ?v 0x7c00 = Inr 0xcf" by (simp add: mem8_def load_fun ex_vm_def)
  moreover have "mem32 ?v 0x8000 = Inr 0xcfcfcfcf" by (simp add: mem32_def load_fun ex_vm_def upt_rec)
  ultimately show ?thesis
    using kvm_iret_loses_interrupt [OF ex_hv_grants ex_no_paging _ _ _ _ _ u_def w(1,2) _ w(4), of 1] w(3,5)
    by (simp add: ex_vm_def)
qed

theorem kvm_pushf_popf_witness:
  "\<exists>m. kvm_difftest_exec ex_hv 2 (ex_vm (0, False) (\<lambda>i. if i = 0x7c00 then 0x9c else 0x9d) STATE_IDLE) = Inr m \<and> kr_rip (v_regs m) = 0x7c02 \<and>
     kr_rflags (v_regs m) = 0x102 \<and> kr_rsp (v_regs m) = 0x8000"
proof -
  let ?v = "ex_vm (0, False) (\<lambda>i. if i = 0x7c00 then 0x9c else 0x9d) STATE_IDLE"
  have "mem8 ?v 0x7c00 = Inr 0x9c" "mem8 ?v 0x7c01 = Inr 0x9d"
    by (simp_all add: mem8_def load_fun ex_vm_def)
  then show ?thesis
    using kvm_pushf_popf [of ?v ex_hv] ex_no_paging order_trans [OF _ load_fun(2)]
    by (auto simp: ex_vm_def RFLAGS_FIX_MASK_def RFLAGS_TF_def)
qed

theorem kvm_exec_terminates_witness:
  "\<exists>r. kvm_exec ex_hv 5 (ex_vm (3, False) (\<lambda>_. 0x90) STATE_IDLE) = Some r"
proof (rule kvm_exec_terminates [where rank = fst])
  show "fst (v_hyp w) < fst (v_hyp v)" if "kvm_run ex_hv v = (Run_eintr, w)" for v w
    using that by (auto simp: kvm_run_def ex_hv_def ex_run_def ex_stop_def Let_def split: prod.splits nat.splits bool.splits)
  show "fst (snd (hv_ioctl ex_hv c k)) \<le> fst k" for c k
    by (cases "(c, k)" rule: ex_ioctl.cases) (auto simp: ex_hv_def)
qed

end
