(* ===== verification/Native_Ioe.thy ===== *)
theory Native_Ioe
  imports Ioe
begin

text \<open>
  The devices of AbstractMachine on a Linux host (\<open>am/src/native\<close>): \<open>ioe.c\<close>, \<open>native-timer.c\<close>, \<open>native-input.c\<close>,
  \<open>native-gpu.c\<close> and \<open>native-audio.c\<close>. SDL is outside: it calls \<open>audio_play\<close> from its audio thread, and its events
  reach the loop of the event thread. The scan codes of \<open>SDL_scancode.h\<close> and the clocks are parameters.

  A value of type \<open>int\<close> is an integer; every operation that could leave its range reads or writes outside an array first.
\<close>

section \<open>Audio\<close>

definition SBUF_SIZE_MAX :: nat where "SBUF_SIZE_MAX = 65536"

record audio =
  sbuf :: "u8 list"
  a_head :: int
  a_tail :: int
  a_count :: int

text \<open>\<open>memcpy\<close> out of and into an array.\<close>

definition slice :: "int \<Rightarrow> int \<Rightarrow> 'a list \<Rightarrow> 'a list res" where
  "slice p n xs = (if 0 \<le> p \<and> 0 \<le> n \<and> p + n \<le> int (length xs) then Inr (take (nat n) (drop (nat p) xs)) else Inl Out_of_bounds)"

definition splice :: "int \<Rightarrow> 'a list \<Rightarrow> 'a list \<Rightarrow> 'a list res" where
  "splice p ys xs =
     (if 0 \<le> p \<and> p + int (length ys) \<le> int (length xs) then Inr (take (nat p) xs @ ys @ drop (nat p + length ys) xs) else Inl Out_of_bounds)"

text \<open>
  The copies of \<open>audio_play\<close> and \<open>audio_write\<close>, and the two functions as they are when nothing else touches
  the ring while they run.
\<close>

definition play_copy :: "int \<Rightarrow> audio \<Rightarrow> (u8 list \<times> audio) res" where
  "play_copy nread st =
     (if nread + a_tail st < int SBUF_SIZE_MAX then
        bindE (slice (a_tail st) nread (sbuf st)) (\<lambda>out. Inr (out, st\<lparr>a_tail := a_tail st + nread\<rparr>))
      else
        let first_cpy_len = int SBUF_SIZE_MAX - a_tail st in
        bindE (slice (a_tail st) first_cpy_len (sbuf st)) (\<lambda>out1.
        bindE (slice 0 (nread - first_cpy_len) (sbuf st)) (\<lambda>out2.
        Inr (out1 @ out2, st\<lparr>a_tail := nread - first_cpy_len\<rparr>))))"

definition audio_play :: "int \<Rightarrow> audio \<Rightarrow> (u8 list \<times> audio) res" where
  "audio_play len st =
     (let nread = (if a_count st < len then a_count st else len) in
     bindE (play_copy nread st) (\<lambda>(out, st).
     Inr (out @ replicate (nat (len - nread)) 0, st\<lparr>a_count := a_count st - nread\<rparr>)))"

definition write_copy :: "u8 list \<Rightarrow> int \<Rightarrow> audio \<Rightarrow> audio res" where
  "write_copy buf nwrite st =
     (if nwrite + a_head st < int SBUF_SIZE_MAX then
        bindE (slice 0 nwrite buf) (\<lambda>bs. bindE (splice (a_head st) bs (sbuf st)) (\<lambda>sb. Inr (st\<lparr>sbuf := sb, a_head := a_head st + nwrite\<rparr>)))
      else
        let first_cpy_len = int SBUF_SIZE_MAX - a_head st in
        bindE (slice 0 first_cpy_len buf) (\<lambda>bs. bindE (splice (a_head st) bs (sbuf st)) (\<lambda>sb.
        bindE (slice first_cpy_len (nwrite - first_cpy_len) buf) (\<lambda>bs. bindE (splice 0 bs sb) (\<lambda>sb.
        Inr (st\<lparr>sbuf := sb, a_head := nwrite - first_cpy_len\<rparr>))))))"

definition audio_write :: "u8 list \<Rightarrow> int \<Rightarrow> audio \<Rightarrow> (int \<times> audio) res" where
  "audio_write buf len st =
     (let free = int SBUF_SIZE_MAX - a_count st; nwrite = (if free < len then free else len) in
     bindE (write_copy buf nwrite st) (\<lambda>st.
     Inr (nwrite, st\<lparr>a_count := a_count st + nwrite\<rparr>)))"

text \<open>
  The two functions as their threads run them. The only variable both use is \<open>count\<close>, without a lock: each load and each store
  of it is a step of its own, so \<open>count -= nread\<close> is two steps, and \<open>if (count < len) nread = count\<close> loads it a
  second time. A copy is one step; \<open>stream\<close> has room for \<open>len\<close> bytes. A thread that is done stays where it is.
\<close>

datatype play_pc =
    Play_start int
  | Play_reload int
  | Play_copy int int
  | Play_load int int "u8 list"
  | Play_store int int "u8 list" int
  | Play_done "u8 list"

fun play_next :: "play_pc \<Rightarrow> audio \<Rightarrow> (play_pc \<times> audio) res" where
  "play_next (Play_start len) st = Inr (if a_count st < len then Play_reload len else Play_copy len len, st)"
| "play_next (Play_reload len) st = Inr (Play_copy len (a_count st), st)"
| "play_next (Play_copy len nread) st =
     (if nread > len then Inl Out_of_bounds
      else bindE (play_copy nread st) (\<lambda>(out, st). Inr (Play_load len nread out, st)))"
| "play_next (Play_load len nread out) st = Inr (Play_store len nread out (a_count st), st)"
| "play_next (Play_store len nread out c) st = Inr (Play_done (out @ replicate (nat (len - nread)) 0), st\<lparr>a_count := c - nread\<rparr>)"
| "play_next (Play_done out) st = Inr (Play_done out, st)"

datatype write_pc =
    Write_start "u8 list"
  | Write_copy "u8 list" int
  | Write_load int
  | Write_store int int
  | Write_done int

fun write_next :: "write_pc \<Rightarrow> audio \<Rightarrow> (write_pc \<times> audio) res" where
  "write_next (Write_start buf) st =
     (let free = int SBUF_SIZE_MAX - a_count st; len = int (length buf) in Inr (Write_copy buf (if free < len then free else len), st))"
| "write_next (Write_copy buf nwrite) st = bindE (write_copy buf nwrite st) (\<lambda>st. Inr (Write_load nwrite, st))"
| "write_next (Write_load nwrite) st = Inr (Write_store nwrite (a_count st), st)"
| "write_next (Write_store nwrite c) st = Inr (Write_done nwrite, st\<lparr>a_count := c + nwrite\<rparr>)"
| "write_next (Write_done nwrite) st = Inr (Write_done nwrite, st)"

text \<open>A schedule says which thread takes the next step: the audio thread (\<open>True\<close>) or the program.\<close>

fun audio_sched :: "bool list \<Rightarrow> play_pc \<Rightarrow> write_pc \<Rightarrow> audio \<Rightarrow> (play_pc \<times> write_pc \<times> audio) res" where
  "audio_sched [] p w st = Inr (p, w, st)"
| "audio_sched (True # s) p w st = bindE (play_next p st) (\<lambda>(p, st). audio_sched s p w st)"
| "audio_sched (False # s) p w st = bindE (write_next w st) (\<lambda>(w, st). audio_sched s p w st)"

definition am_audio_ctrl :: "audio \<Rightarrow> audio" where
  "am_audio_ctrl st = st\<lparr>a_head := 0, a_tail := 0, a_count := 0\<rparr>"

definition am_audio_status :: "audio \<Rightarrow> int" where
  "am_audio_status st = a_count st"

definition am_audio_config :: "bool \<times> int" where
  "am_audio_config = (True, int SBUF_SIZE_MAX)"

text \<open>
  The wait for space in \<open>__am_audio_play\<close>, which only loads \<open>count\<close>: while it spins the audio thread makes the calls of
  \<open>audio_play\<close> with the lengths \<open>cbs\<close>, which end before \<open>audio_write\<close> begins. If they end without making enough space, the loop goes on for ever.
\<close>

fun audio_wait :: "int \<Rightarrow> int list \<Rightarrow> audio \<Rightarrow> (u8 list \<times> audio) res" where
  "audio_wait len cbs st =
     (if int SBUF_SIZE_MAX - a_count st < len then
        case cbs of
          [] \<Rightarrow> Inl Diverge
        | c # cbs \<Rightarrow> bindE (audio_play c st) (\<lambda>(out, st). bindE (audio_wait len cbs st) (\<lambda>(outs, st). Inr (out @ outs, st)))
      else Inr ([], st))"

declare audio_wait.simps [simp del]

definition am_audio_play :: "u8 list \<Rightarrow> int list \<Rightarrow> audio \<Rightarrow> (u8 list \<times> audio) res" where
  "am_audio_play buf cbs st =
     (let len = int (length buf) in
     bindE (assertE (len \<le> int SBUF_SIZE_MAX)) (\<lambda>_.
     bindE (audio_wait len cbs st) (\<lambda>(out, st).
     bindE (audio_write buf len st) (\<lambda>(_, st). Inr (out, st)))))"

section \<open>Keyboard\<close>

definition NATIVE_KEYDOWN_MASK :: u32 where "NATIVE_KEYDOWN_MASK = 0x8000"
definition NATIVE_KEY_QUEUE_LEN :: nat where "NATIVE_KEY_QUEUE_LEN = 1024"

record keys =
  key_queue :: "u32 list"
  key_f :: nat
  key_r :: nat

text \<open>The table is written in the order of \<open>AM_KEYS\<close>; for a repeated index the last one counts.\<close>

definition native_keymap :: "(string \<Rightarrow> nat) \<Rightarrow> nat \<Rightarrow> u32 res" where
  "native_keymap sdl_scancode code =
     (if code < 256 then
        Inr (case map_of (rev (map (\<lambda>k. (sdl_scancode k, k)) AM_KEYS)) code of None \<Rightarrow> 0 | Some k \<Rightarrow> of_nat (AM_KEY k))
      else Inl Out_of_bounds)"

datatype sdl_event = SDL_QUIT | SDL_KEYDOWN nat | SDL_KEYUP nat | SDL_OTHER

definition key_push :: "u32 \<Rightarrow> keys \<Rightarrow> keys" where
  "key_push am_code st = st\<lparr>key_queue := (key_queue st)[key_r st := am_code], key_r := (key_r st + 1) mod NATIVE_KEY_QUEUE_LEN\<rparr>"

text \<open>One event; \<open>True\<close> when the process is signalled, \<open>None\<close> when it halts.\<close>

definition key_event :: "(string \<Rightarrow> nat) \<Rightarrow> nat \<Rightarrow> bool \<Rightarrow> keys \<Rightarrow> (bool \<times> keys) option res" where
  "key_event sdl_scancode scancode keydown st =
     bindE (native_keymap sdl_scancode scancode) (\<lambda>k.
     if k \<noteq> 0 then Inr (Some (True, key_push (k OR (if keydown then NATIVE_KEYDOWN_MASK else 0)) st)) else Inr (Some (False, st)))"

definition event_step :: "(string \<Rightarrow> nat) \<Rightarrow> sdl_event \<Rightarrow> keys \<Rightarrow> (bool \<times> keys) option res" where
  "event_step sdl_scancode ev st =
     (case ev of
        SDL_QUIT \<Rightarrow> Inr None
      | SDL_KEYDOWN k \<Rightarrow> key_event sdl_scancode k True st
      | SDL_KEYUP k \<Rightarrow> key_event sdl_scancode k False st
      | SDL_OTHER \<Rightarrow> Inr (Some (False, st)))"

definition am_input_keybrd :: "keys \<Rightarrow> (bool \<times> u32) \<times> keys" where
  "am_input_keybrd st =
     (let (k, st) = (if key_f st \<noteq> key_r st then (key_queue st ! key_f st, st\<lparr>key_f := (key_f st + 1) mod NATIVE_KEY_QUEUE_LEN\<rparr>) else (0, st))
      in ((k AND NATIVE_KEYDOWN_MASK \<noteq> 0, k AND NOT NATIVE_KEYDOWN_MASK), st))"

section \<open>Frame buffer\<close>

definition W :: int where "W = 400"
definition H :: int where "H = 300"

text \<open>\<open>cp_bytes\<close> is four times \<open>min w (W - x)\<close>; when that is negative, \<open>memcpy\<close> takes it as a size beyond every array.\<close>

fun native_fbdraw_loop :: "nat \<Rightarrow> int \<Rightarrow> int \<Rightarrow> int \<Rightarrow> int \<Rightarrow> int \<Rightarrow> u32 list \<Rightarrow> u32 list \<Rightarrow> u32 list res" where
  "native_fbdraw_loop 0 j x y w h pixels fb = Inr fb"
| "native_fbdraw_loop (Suc n) j x y w h pixels fb =
     (if j < h \<and> y + j < H then
        bindE (slice (j * w) (min w (W - x)) pixels) (\<lambda>row.
        bindE (splice ((y + j) * W + x) row fb) (\<lambda>fb.
        native_fbdraw_loop n (j + 1) x y w h pixels fb))
      else Inr fb)"

definition native_fbdraw :: "int \<Rightarrow> int \<Rightarrow> int \<Rightarrow> int \<Rightarrow> u32 list \<Rightarrow> u32 list \<Rightarrow> u32 list res" where
  "native_fbdraw x y w h pixels fb = native_fbdraw_loop (nat h) 0 x y w h pixels fb"

definition native_gpu_init :: "u32 list" where
  "native_gpu_init = replicate (nat (W * H)) 0"

section \<open>Registers\<close>

record tm =
  tm_sec :: int
  tm_min :: int
  tm_hour :: int
  tm_mday :: int
  tm_mon :: int
  tm_year :: int

text \<open>The buffer of each register, by its name in \<open>amdev.h\<close>.\<close>

datatype devbuf =
    UART_CONFIG bool
  | TIMER_CONFIG bool bool
  | TIMER_RTC int int int int int int
  | TIMER_UPTIME u64
  | INPUT_CONFIG bool
  | INPUT_KEYBRD bool u32
  | GPU_CONFIG bool bool int int int
  | GPU_STATUS bool
  | GPU_FBDRAW int int "u32 list" int int bool
  | AUDIO_CONFIG bool int
  | AUDIO_CTRL int int int
  | AUDIO_STATUS int
  | AUDIO_PLAY "u8 list"
  | DISK_CONFIG bool int int
  | NET_CONFIG bool
  | OTHER_REG nat

record native_io =
  has_ioe :: bool
  ioe_init_done :: bool
  boot_time :: "int \<times> int"
  nio_keys :: keys
  nio_audio :: audio
  nio_fb :: "u32 list"

text \<open>What the host gives during one call: the time of day, the local time, the calls of the audio thread.\<close>

record host_now =
  now_tv :: "int \<times> int"
  now_tm :: tm
  now_callbacks :: "int list"

definition native_timer_config :: devbuf where "native_timer_config = TIMER_CONFIG True True"
definition native_input_config :: devbuf where "native_input_config = INPUT_CONFIG True"
definition native_gpu_config :: devbuf where "native_gpu_config = GPU_CONFIG True False W H 0"
definition native_gpu_status :: devbuf where "native_gpu_status = GPU_STATUS True"

definition native_timer_rtc :: "tm \<Rightarrow> devbuf" where
  "native_timer_rtc t = TIMER_RTC (tm_year t + 1900) (tm_mon t + 1) (tm_mday t) (tm_hour t) (tm_min t) (tm_sec t)"

definition native_timer_uptime :: "int \<times> int \<Rightarrow> int \<times> int \<Rightarrow> u64" where
  "native_timer_uptime boot now =
     (let seconds = fst now - fst boot; useconds = snd now - snd boot in word_of_int (seconds * 1000000 + (useconds + 500)))"

definition native_ioe_init :: "nat \<Rightarrow> native_io \<Rightarrow> native_io res" where
  "native_ioe_init cpu st =
     (if cpu \<noteq> 0 then Inl (Panic ''call ioe_init() in other CPUs'')
      else if ioe_init_done st then Inl (Panic ''double-initialization'')
      else Inr (st\<lparr>has_ioe := True\<rparr>))"

definition am_ioe_init :: "host_now \<Rightarrow> native_io \<Rightarrow> native_io" where
  "am_ioe_init now st = st\<lparr>boot_time := now_tv now, nio_fb := native_gpu_init, ioe_init_done := True\<rparr>"

definition native_lut :: "host_now \<Rightarrow> devbuf \<Rightarrow> native_io \<Rightarrow> (devbuf \<times> native_io) res" where
  "native_lut now buf st =
     (case buf of
        TIMER_CONFIG _ _ \<Rightarrow> Inr (native_timer_config, st)
      | TIMER_RTC _ _ _ _ _ _ \<Rightarrow> Inr (native_timer_rtc (now_tm now), st)
      | TIMER_UPTIME _ \<Rightarrow> Inr (TIMER_UPTIME (native_timer_uptime (boot_time st) (now_tv now)), st)
      | INPUT_CONFIG _ \<Rightarrow> Inr (native_input_config, st)
      | INPUT_KEYBRD _ _ \<Rightarrow> let ((d, k), ks) = am_input_keybrd (nio_keys st) in Inr (INPUT_KEYBRD d k, st\<lparr>nio_keys := ks\<rparr>)
      | GPU_CONFIG _ _ _ _ _ \<Rightarrow> Inr (native_gpu_config, st)
      | GPU_FBDRAW x y pixels w h sync \<Rightarrow> bindE (native_fbdraw x y w h pixels (nio_fb st)) (\<lambda>fb. Inr (buf, st\<lparr>nio_fb := fb\<rparr>))
      | GPU_STATUS _ \<Rightarrow> Inr (native_gpu_status, st)
      | UART_CONFIG _ \<Rightarrow> Inr (UART_CONFIG False, st)
      | AUDIO_CONFIG _ _ \<Rightarrow> Inr (AUDIO_CONFIG (fst am_audio_config) (snd am_audio_config), st)
      | AUDIO_CTRL _ _ _ \<Rightarrow> Inr (buf, st\<lparr>nio_audio := am_audio_ctrl (nio_audio st)\<rparr>)
      | AUDIO_STATUS _ \<Rightarrow> Inr (AUDIO_STATUS (am_audio_status (nio_audio st)), st)
      | AUDIO_PLAY bs \<Rightarrow> bindE (am_audio_play bs (now_callbacks now) (nio_audio st)) (\<lambda>(_, a). Inr (buf, st\<lparr>nio_audio := a\<rparr>))
      | DISK_CONFIG _ sz n \<Rightarrow> Inr (DISK_CONFIG False sz n, st)
      | NET_CONFIG _ \<Rightarrow> Inr (NET_CONFIG False, st)
      | OTHER_REG n \<Rightarrow> if n < 128 then Inl (Panic ''access nonexist register'') else Inl Out_of_bounds)"

definition native_do_io :: "host_now \<Rightarrow> devbuf \<Rightarrow> native_io \<Rightarrow> (devbuf \<times> native_io) res" where
  "native_do_io now buf st = native_lut now buf (if \<not> ioe_init_done st then am_ioe_init now st else st)"

end
