(* ===== verification/Native_Ioe_Correct.thy ===== *)
theory Native_Ioe_Correct
  imports Native_Ioe
begin

text \<open>
  The ring buffers of the native devices as queues, how overlapping calls of the two audio threads break theirs, and what
  drawing does to the frame buffer.
\<close>

section \<open>Rings\<close>

text \<open>Reading \<open>n\<close> elements from position \<open>t\<close> of a ring, and writing \<open>bs\<close> at position \<open>h\<close>.\<close>

lemma mod_wrap: "t < m \<Longrightarrow> i \<le> m \<Longrightarrow> (t + i) mod m = (if t + i < m then t + i else t + i - m)" for t i m :: nat
  by (auto simp: mod_if)

lemma ring_read:
  assumes "t < length xs" "n \<le> length xs"
  shows "(if n + t < length xs then take n (drop t xs) else drop t xs @ take (n - (length xs - t)) xs) =
    map (\<lambda>i. xs ! ((t + i) mod length xs)) [0..<n]"
proof (cases "n + t < length xs")
  case True
  then show ?thesis by (intro nth_equalityI) (simp_all add: mod_wrap)
next
  case False
  then show ?thesis
    using assms by (intro nth_equalityI) (auto simp: nth_append mod_wrap add.commute)
qed

definition ring_write :: "nat \<Rightarrow> 'a list \<Rightarrow> 'a list \<Rightarrow> 'a list" where
  "ring_write h bs xs =
     (if length bs + h < length xs then take h xs @ bs @ drop (h + length bs) xs
      else drop (length xs - h) bs @ drop (length bs - (length xs - h)) (take h xs @ take (length xs - h) bs))"

lemma length_ring_write: "h < length xs \<Longrightarrow> length bs \<le> length xs \<Longrightarrow> length (ring_write h bs xs) = length xs"
  by (auto simp: ring_write_def)

lemma ring_write_nth:
  assumes "h < length xs" "length bs \<le> length xs" "i < length xs"
  shows "ring_write h bs xs ! ((h + i) mod length xs) = (if i < length bs then bs ! i else xs ! ((h + i) mod length xs))"
  using assms by (auto simp: ring_write_def mod_wrap nth_append min_def)

definition ring :: "'a list \<Rightarrow> nat \<Rightarrow> 'a list \<Rightarrow> bool" where
  "ring xs t q \<longleftrightarrow> t < length xs \<and> length q \<le> length xs \<and> (\<forall>i<length q. xs ! ((t + i) mod length xs) = q ! i)"

lemma ring_read_queue:
  assumes "ring xs t q" "n \<le> length q"
  shows "map (\<lambda>i. xs ! ((t + i) mod length xs)) [0..<n] = take n q"
  using assms by (intro nth_equalityI) (auto simp: ring_def)

lemma ring_drop:
  assumes "ring xs t q" "n \<le> length q"
  shows "ring xs ((t + n) mod length xs) (drop n q)"
proof -
  have "((t + n) mod length xs + i) mod length xs = (t + (n + i)) mod length xs" for i
    by (metis add.assoc mod_add_left_eq)
  moreover have "(t + n) mod length xs < length xs"
    using assms(1) by (intro mod_less_divisor) (auto simp: ring_def)
  ultimately show ?thesis using assms by (auto simp: ring_def)
qed

lemma ring_append:
  assumes "ring xs t q" "length q + length bs \<le> length xs"
  shows "ring (ring_write ((t + length q) mod length xs) bs xs) t (q @ bs)"
proof -
  let ?m = "length xs" and ?h = "(t + length q) mod length xs"
  have m: "t < ?m" "?h < ?m" using assms(1) by (auto simp: ring_def intro: mod_less_divisor)
  have w: "length (ring_write ?h bs xs) = ?m" using m assms(2) by (intro length_ring_write) auto
  have "ring_write ?h bs xs ! ((t + i) mod ?m) = (q @ bs) ! i" if i: "i < length (q @ bs)" for i
  proof -
    have im: "i < ?m" using i assms(2) by simp
    define j where "j = (if length q \<le> i then i - length q else i + ?m - length q)"
    have j: "j < ?m" "(?h + j) mod ?m = (t + i) mod ?m"
    proof -
      show "j < ?m" using i im assms(1) by (auto simp: j_def ring_def)
      have "(?h + j) mod ?m = (t + (length q + j)) mod ?m" by (metis add.assoc mod_add_left_eq)
      also have "length q + j = (if length q \<le> i then i else i + ?m)"
        using assms(1) by (auto simp: j_def ring_def)
      also have "(t + (if length q \<le> i then i else i + ?m)) mod ?m = (t + i) mod ?m"
        by (simp add: add.assoc [symmetric])
      finally show "(?h + j) mod ?m = (t + i) mod ?m" .
    qed
    have "j < length bs \<longleftrightarrow> length q \<le> i" using i im assms by (auto simp: j_def ring_def)
    moreover have "ring_write ?h bs xs ! ((t + i) mod ?m) = (if j < length bs then bs ! j else xs ! ((t + i) mod ?m))"
      using ring_write_nth [OF m(2) _ j(1), of bs] assms(2) unfolding j(2) by simp
    ultimately show ?thesis
      using assms(1) i by (auto simp: nth_append ring_def j_def)
  qed
  then show ?thesis using assms m w by (simp add: ring_def)
qed

section \<open>Audio\<close>

definition audio_inv :: "audio \<Rightarrow> u8 list \<Rightarrow> bool" where
  "audio_inv st q \<longleftrightarrow> length (sbuf st) = SBUF_SIZE_MAX \<and> 0 \<le> a_tail st \<and> ring (sbuf st) (nat (a_tail st)) q \<and>
     a_count st = int (length q) \<and> a_head st = int ((nat (a_tail st) + length q) mod SBUF_SIZE_MAX)"

lemma slice_nat: "p + n \<le> length xs \<Longrightarrow> slice (int p) (int n) xs = Inr (take n (drop p xs))"
  by (simp add: slice_def)

lemma splice_nat: "p + length ys \<le> length xs \<Longrightarrow> splice (int p) ys xs = Inr (take p xs @ ys @ drop (p + length ys) xs)"
  by (simp add: splice_def)

lemma audio_play_spec:
  assumes "audio_inv st q" "0 \<le> len"
  shows "\<exists>st'. audio_play len st = Inr (take (nat len) q @ replicate (nat len - length q) 0, st') \<and> audio_inv st' (drop (nat len) q)"
proof -
  define n t where "n = min (nat len) (length q)" and "t = nat (a_tail st)"
  have inv: "length (sbuf st) = SBUF_SIZE_MAX" "a_tail st = int t" "ring (sbuf st) t q" "a_count st = int (length q)"
    "a_head st = int ((t + length q) mod SBUF_SIZE_MAX)"
    using assms(1) by (auto simp: audio_inv_def t_def)
  have t: "t < SBUF_SIZE_MAX" "n \<le> length q" "length q \<le> SBUF_SIZE_MAX"
    using inv(1,3) by (auto simp: ring_def n_def)
  have nr: "(if a_count st < len then a_count st else len) = int n"
    using assms(2) inv(4) by (auto simp: n_def)
  have out: "take n q = (if n + t < SBUF_SIZE_MAX then take n (drop t (sbuf st))
      else drop t (sbuf st) @ take (n - (SBUF_SIZE_MAX - t)) (sbuf st))"
    using ring_read [of t "sbuf st" n] ring_read_queue [OF inv(3) t(2)] t unfolding inv(1) by simp
  define t' where "t' = (t + n) mod SBUF_SIZE_MAX"
  have t': "int t' = (if n + t < SBUF_SIZE_MAX then int t + int n else int n - (int SBUF_SIZE_MAX - int t))"
    using t mod_wrap [of t SBUF_SIZE_MAX n] by (auto simp: t'_def)
  define st' where "st' = st\<lparr>a_tail := int t', a_count := int (length q - n)\<rparr>"
  have 1: "(if int n + int t < int SBUF_SIZE_MAX then
              bindE (slice (int t) (int n) (sbuf st)) (\<lambda>out. Inr (out, st\<lparr>a_tail := int t + int n\<rparr>))
            else
              bindE (slice (int t) (int SBUF_SIZE_MAX - int t) (sbuf st)) (\<lambda>out1.
              bindE (slice 0 (int n - (int SBUF_SIZE_MAX - int t)) (sbuf st)) (\<lambda>out2.
              Inr (out1 @ out2, st\<lparr>a_tail := int n - (int SBUF_SIZE_MAX - int t)\<rparr>)))) = Inr (take n q, st\<lparr>a_tail := int t'\<rparr>)"
  proof (cases "n + t < SBUF_SIZE_MAX")
    case True
    then show ?thesis
      using inv(1) out t' by (simp add: slice_nat add.commute)
  next
    case False
    have "slice (int t) (int SBUF_SIZE_MAX - int t) (sbuf st) = Inr (drop t (sbuf st))"
      using slice_nat [of t "SBUF_SIZE_MAX - t" "sbuf st"] t inv(1) by (simp add: of_nat_diff)
    moreover have e: "int n - (int SBUF_SIZE_MAX - int t) = int (n - (SBUF_SIZE_MAX - t))"
      using t False by linarith
    have "slice 0 (int n - (int SBUF_SIZE_MAX - int t)) (sbuf st) = Inr (take (n - (SBUF_SIZE_MAX - t)) (sbuf st))"
      unfolding e using slice_nat [of 0 "n - (SBUF_SIZE_MAX - t)" "sbuf st"] t inv(1) by simp
    ultimately show ?thesis using False out t' by simp
  qed
  have "audio_play len st = Inr (take n q @ replicate (nat (len - int n)) 0, st')"
    unfolding audio_play_def play_copy_def Let_def nr inv(2) 1 using t by (simp add: st'_def inv(4) of_nat_diff)
  moreover have "nat (len - int n) = nat len - length q" "take n q = take (nat len) q" "drop n q = drop (nat len) q"
    using assms(2) by (auto simp: n_def min_def)
  moreover have "audio_inv st' (drop n q)"
  proof -
    have "(t' + (length q - n)) mod SBUF_SIZE_MAX = (t + length q) mod SBUF_SIZE_MAX"
      unfolding t'_def mod_add_left_eq using t(2) by simp
    then show ?thesis
      using ring_drop [OF inv(3) t(2)] inv t by (simp add: audio_inv_def st'_def t'_def)
  qed
  ultimately show ?thesis by metis
qed

lemma audio_write_spec:
  assumes "audio_inv st q" "length q + length bs \<le> SBUF_SIZE_MAX"
  shows "\<exists>st'. audio_write bs (int (length bs)) st = Inr (int (length bs), st') \<and> audio_inv st' (q @ bs)"
proof -
  define t h n where "t = nat (a_tail st)" and "h = (t + length q) mod SBUF_SIZE_MAX" and "n = length bs"
  have inv: "length (sbuf st) = SBUF_SIZE_MAX" "a_tail st = int t" "ring (sbuf st) t q" "a_count st = int (length q)" "a_head st = int h"
    using assms(1) by (auto simp: audio_inv_def t_def h_def)
  have h: "h < SBUF_SIZE_MAX" by (simp add: h_def SBUF_SIZE_MAX_def)
  have nw: "(if int SBUF_SIZE_MAX - a_count st < int n then int SBUF_SIZE_MAX - a_count st else int n) = int n"
    using assms(2) inv(4) by (simp add: n_def)
  define h' where "h' = (h + n) mod SBUF_SIZE_MAX"
  have n: "n \<le> SBUF_SIZE_MAX" using assms(2) by (simp add: n_def)
  have h': "int h' = (if n + h < SBUF_SIZE_MAX then int h + int n else int n - (int SBUF_SIZE_MAX - int h))"
    using h n mod_wrap [of h SBUF_SIZE_MAX n] by (auto simp: h'_def)
  have 1: "(if int n + int h < int SBUF_SIZE_MAX then
              bindE (slice 0 (int n) bs) (\<lambda>bs. bindE (splice (int h) bs (sbuf st)) (\<lambda>sb. Inr (st\<lparr>sbuf := sb, a_head := int h + int n\<rparr>)))
            else
              bindE (slice 0 (int SBUF_SIZE_MAX - int h) bs) (\<lambda>b. bindE (splice (int h) b (sbuf st)) (\<lambda>sb.
              bindE (slice (int SBUF_SIZE_MAX - int h) (int n - (int SBUF_SIZE_MAX - int h)) bs) (\<lambda>b. bindE (splice 0 b sb) (\<lambda>sb.
              Inr (st\<lparr>sbuf := sb, a_head := int n - (int SBUF_SIZE_MAX - int h)\<rparr>)))))) =
      Inr (st\<lparr>sbuf := ring_write h bs (sbuf st), a_head := int h'\<rparr>)"
  proof (cases "n + h < SBUF_SIZE_MAX")
    case True
    then show ?thesis
      using slice_nat [of 0 n bs] splice_nat [of h bs "sbuf st"] inv(1) h'
      by (simp add: n_def ring_write_def add.commute)
  next
    case False
    define f where "f = SBUF_SIZE_MAX - h"
    have f: "f \<le> n" "int SBUF_SIZE_MAX - int h = int f" "h + f = SBUF_SIZE_MAX" using False h by (auto simp: f_def)
    have s: "slice 0 (int f) bs = Inr (take f bs)" "slice (int f) (int n - int f) bs = Inr (drop f bs)"
      using slice_nat [of 0 f bs] slice_nat [of f "n - f" bs] f(1) by (simp_all add: n_def of_nat_diff)
    have "splice (int h) (take f bs) (sbuf st) = Inr (take h (sbuf st) @ take f bs)"
      using splice_nat [of h "take f bs" "sbuf st"] f inv(1) by (simp add: n_def)
    moreover have "splice 0 (drop f bs) (take h (sbuf st) @ take f bs) = Inr (drop f bs @ drop (n - f) (take h (sbuf st) @ take f bs))"
      using splice_nat [of 0 "drop f bs" "take h (sbuf st) @ take f bs"] f inv(1) n h by (simp add: n_def)
    moreover have "ring_write h bs (sbuf st) = drop f bs @ drop (n - f) (take h (sbuf st) @ take f bs)"
      using False inv(1) by (simp add: ring_write_def n_def f_def)
    moreover have "int h' = int n - int f" using False h' unfolding f(2) by simp
    ultimately show ?thesis
      using False s unfolding f(2) by simp
  qed
  define st' where "st' = st\<lparr>sbuf := ring_write h bs (sbuf st), a_head := int h', a_count := int (length q + n)\<rparr>"
  have "audio_write bs (int (length bs)) st = Inr (int n, st')"
    unfolding audio_write_def write_copy_def Let_def n_def [symmetric] nw inv(5) 1 by (simp add: st'_def inv(4))
  moreover have "audio_inv st' (q @ bs)"
  proof -
    have "h' = (t + (length q + n)) mod SBUF_SIZE_MAX"
      by (simp add: h'_def h_def mod_add_left_eq add.assoc)
    then show ?thesis
      using ring_append [OF inv(3), of bs] length_ring_write [of h "sbuf st" bs] inv assms(2) h
      by (simp add: audio_inv_def st'_def h_def n_def)
  qed
  ultimately show ?thesis by (simp add: n_def)
qed


text \<open>
  A thread that runs alone does what its function does.
\<close>

lemma play_alone:
  "audio_sched [True, True, True, True, True] (Play_start len) w st =
     bindE (audio_play len st) (\<lambda>(out, st). Inr (Play_done out, w, st))"
  by (auto simp: audio_play_def Let_def split_beta bindE_assoc intro!: bindE_cong)

lemma write_alone:
  "audio_sched [False, False, False, False] p (Write_start bs) st =
     bindE (audio_write bs (int (length bs)) st) (\<lambda>(n, st). Inr (p, Write_done n, st))"
  by (auto simp: audio_write_def Let_def split_beta bindE_assoc intro!: bindE_cong)

text \<open>
  The audio device since it was opened, with the bytes the program has played and the bytes of them the host has taken. The
  host's calls and the program's alternate in any order, each call as a whole.
\<close>

inductive audio_reach :: "audio \<Rightarrow> u8 list \<Rightarrow> u8 list \<Rightarrow> bool" where
  start: "length (sbuf st) = SBUF_SIZE_MAX \<Longrightarrow> audio_reach (am_audio_ctrl st) [] []"
| play: "audio_reach st w r \<Longrightarrow> am_audio_play bs [] st = Inr (out, st') \<Longrightarrow> audio_reach st' (w @ bs) r"
| host: "audio_reach st w r \<Longrightarrow> 0 \<le> len \<Longrightarrow> audio_play len st = Inr (out, st') \<Longrightarrow>
    audio_reach st' w (r @ take (nat (am_audio_status st)) out)"

lemma am_audio_play_cases:
  assumes "audio_inv st q" "length bs \<le> SBUF_SIZE_MAX"
  shows "if length q + length bs \<le> SBUF_SIZE_MAX then \<exists>st'. am_audio_play bs [] st = Inr ([], st') \<and> audio_inv st' (q @ bs)
    else am_audio_play bs [] st = Inl Diverge"
proof -
  have c: "a_count st = int (length q)" using assms(1) by (simp add: audio_inv_def)
  show ?thesis
    using audio_write_spec [OF assms(1), of bs] assms(2) by (auto simp: am_audio_play_def Let_def audio_wait.simps c)
qed

lemma audio_reach_inv: "audio_reach st w r \<Longrightarrow> \<exists>q. w = r @ q \<and> audio_inv st q"
proof (induction rule: audio_reach.induct)
  case (start st)
  then show ?case
    by (intro exI [of _ "[]"]) (simp add: audio_inv_def am_audio_ctrl_def ring_def SBUF_SIZE_MAX_def)
next
  case (play st w r bs out st')
  then obtain q where q: "w = r @ q" "audio_inv st q" by blast
  have "length bs \<le> SBUF_SIZE_MAX"
    using play(2) by (auto simp: am_audio_play_def Let_def bindE_eq_Inr)
  with am_audio_play_cases [OF q(2) this] play(2) q(1) show ?case by (auto split: if_splits)
next
  case (host st w r len out st')
  then obtain q where q: "w = r @ q" "audio_inv st q" by blast
  from audio_play_spec [OF q(2) host(2)] host(3)
  have "out = take (nat len) q @ replicate (nat len - length q) 0" "audio_inv st' (drop (nat len) q)" by auto
  moreover have "nat (am_audio_status st) = length q"
    using q(2) by (simp add: audio_inv_def am_audio_status_def)
  ultimately show ?case
    using q(1) by (intro exI [of _ "drop (nat len) q"]) (auto simp: min_def)
qed

text \<open>
  C38. The audio device is a queue as long as no call of \<open>audio_play\<close> by the audio thread overlaps a call of \<open>audio_write\<close>: in
  whatever order the calls of the two follow one another, the
  host receives the bytes in the order they were played, none lost or repeated; \<open>AM_AUDIO_STATUS\<close> reports exactly the bytes
  not yet taken, an underrun is filled with silence, and a write of at most the buffer's size waits exactly as long
  as it does not fit. No access ever leaves the buffer.
\<close>

theorem audio_queue:
  assumes "audio_reach st w r"
  shows "\<exists>q. w = r @ q \<and> am_audio_status st = int (length q) \<and> length q \<le> SBUF_SIZE_MAX \<and>
    (\<forall>n. \<exists>st'. audio_play (int n) st = Inr (take n q @ replicate (n - length q) 0, st')) \<and>
    (\<forall>bs. length bs \<le> SBUF_SIZE_MAX \<longrightarrow>
      (if length q + length bs \<le> SBUF_SIZE_MAX then \<exists>st'. am_audio_play bs [] st = Inr ([], st') \<and> am_audio_status st' = int (length (q @ bs))
       else am_audio_play bs [] st = Inl Diverge))"
proof -
  obtain q where q: "w = r @ q" "audio_inv st q"
    using audio_reach_inv [OF assms] by blast
  have status: "am_audio_status s = int (length p)" if "audio_inv s p" for s p
    using that by (simp add: audio_inv_def am_audio_status_def)
  have "length q \<le> SBUF_SIZE_MAX" using q(2) by (auto simp: audio_inv_def ring_def)
  moreover have "\<exists>st'. audio_play (int n) st = Inr (take n q @ replicate (n - length q) 0, st')" for n
    using audio_play_spec [OF q(2), of "int n"] by auto
  moreover have "if length q + length bs \<le> SBUF_SIZE_MAX then \<exists>st'. am_audio_play bs [] st = Inr ([], st') \<and> am_audio_status st' = int (length (q @ bs))
       else am_audio_play bs [] st = Inl Diverge" if "length bs \<le> SBUF_SIZE_MAX" for bs
    using am_audio_play_cases [OF q(2) that] status by (auto split: if_splits)
  ultimately show ?thesis using q(1) status [OF q(2)] by blast
qed

theorem audio_queue_witness:
  "\<exists>st. audio_reach st [1, 2, 3] [] \<and> am_audio_status st = 3 \<and> (\<exists>st'. audio_play 5 st = Inr ([1, 2, 3, 0, 0], st'))"
proof -
  let ?s = "am_audio_ctrl \<lparr>sbuf = replicate SBUF_SIZE_MAX 0, a_head = 0, a_tail = 0, a_count = 0\<rparr>"
  have 0: "audio_reach ?s [] []" by (rule start) simp
  obtain st where st: "am_audio_play [1, 2, 3] [] ?s = Inr ([], st)"
    using audio_reach_inv [OF 0] am_audio_play_cases [of ?s "[]" "[1, 2, 3]"] by (auto simp: SBUF_SIZE_MAX_def split: if_splits)
  have r: "audio_reach st [1, 2, 3] []"
    using play [OF 0 st] by simp
  obtain q where q: "[1, 2, 3] = q" "am_audio_status st = int (length q)"
    "\<forall>n. \<exists>st'. audio_play (int n) st = Inr (take n q @ replicate (n - length q) 0, st')"
    using audio_queue [OF r] by auto
  have "am_audio_status st = 3" using q(1,2) by auto
  moreover have "\<exists>st'. audio_play 5 st = Inr ([1, 2, 3, 0, 0], st')"
    using q(3) [rule_format, of 5] q(1) by (auto simp: eval_nat_numeral)
  ultimately have "am_audio_status st = 3" "\<exists>st'. audio_play 5 st = Inr ([1, 2, 3, 0, 0], st')"
    by blast+
  then show ?thesis using r by blast
qed


text \<open>
  Calls that do overlap can break the queue, from any of its states, since \<open>count\<close> is updated without a lock. If the program
  writes between the load and the store of the audio thread's \<open>count -= nread\<close>, its bytes are in the ring but not counted
  (with \<open>length q - n\<close> instead of \<open>length q - n + length bs\<close>); if it writes between the two loads of \<open>count\<close>, the audio thread copies
  more bytes than \<open>stream\<close> has room for.
\<close>

lemma play_copy_tail: "play_copy n st = Inr (out, st') \<Longrightarrow> \<exists>t. st' = st\<lparr>a_tail := t\<rparr>"
  by (auto simp: play_copy_def Let_def bindE_eq_Inr split: if_splits)

lemma write_copy_tail: "write_copy bs n (st\<lparr>a_tail := t\<rparr>) = bindE (write_copy bs n st) (\<lambda>s. Inr (s\<lparr>a_tail := t\<rparr>))"
  by (auto simp: write_copy_def Let_def bindE_assoc intro!: bindE_cong)

lemma write_copy_count: "write_copy bs n st = Inr st' \<Longrightarrow> a_count st' = a_count st"
  by (auto simp: write_copy_def Let_def bindE_eq_Inr split: if_splits)

theorem audio_races:
  assumes "audio_reach st (r @ q) r" "length q + length bs \<le> SBUF_SIZE_MAX"
  shows "n \<le> length q \<Longrightarrow> \<exists>sched st'. audio_sched sched (Play_start (int n)) (Write_start bs) st =
      Inr (Play_done (take n q), Write_done (int (length bs)), st') \<and> am_audio_status st' = int (length q - n)"
    and "length q < n \<Longrightarrow> n < length q + length bs \<Longrightarrow>
      \<exists>sched. audio_sched sched (Play_start (int n)) (Write_start bs) st = Inl Out_of_bounds"
proof -
  have inv: "audio_inv st q" using audio_reach_inv [OF assms(1)] by auto
  then have c: "a_count st = int (length q)" by (simp add: audio_inv_def)
  have nw: "(int SBUF_SIZE_MAX - int (length q) < int (length bs)) = False"
    using assms(2) by simp
  obtain sw where sw: "write_copy bs (int (length bs)) st = Inr sw"
    using audio_write_spec [OF inv assms(2)] by (auto simp: audio_write_def Let_def bindE_eq_Inr c nw)
  show "\<exists>sched st'. audio_sched sched (Play_start (int n)) (Write_start bs) st =
      Inr (Play_done (take n q), Write_done (int (length bs)), st') \<and> am_audio_status st' = int (length q - n)" if n: "n \<le> length q"
  proof -
    obtain sp where sp: "play_copy (int n) st = Inr (take n q, sp)"
      using audio_play_spec [OF inv, of "int n"] n c by (auto simp: audio_play_def Let_def bindE_eq_Inr)
    obtain t where t: "sp = st\<lparr>a_tail := t\<rparr>" using play_copy_tail [OF sp] by blast
    have "audio_sched [True, True, True, False, False, False, False, True] (Play_start (int n)) (Write_start bs) st =
        Inr (Play_done (take n q), Write_done (int (length bs)), sw\<lparr>a_tail := t, a_count := int (length q) - int n\<rparr>)"
      using n sp sw by (simp add: c nw t Let_def write_copy_tail write_copy_count [OF sw])
    then show ?thesis using n by (fastforce simp: am_audio_status_def of_nat_diff)
  qed
  show "\<exists>sched. audio_sched sched (Play_start (int n)) (Write_start bs) st = Inl Out_of_bounds"
    if "length q < n" "n < length q + length bs"
  proof -
    have "audio_sched [True, False, False, False, False, True, True] (Play_start (int n)) (Write_start bs) st = Inl Out_of_bounds"
      using that sw by (simp add: c nw Let_def write_copy_count [OF sw])
    then show ?thesis by blast
  qed
qed

lemma audio_races_example:
  "\<exists>st sched. audio_reach st [] [] \<and> audio_sched sched (Play_start 1) (Write_start [7, 8]) st = Inl Out_of_bounds"
proof -
  have r: "audio_reach (am_audio_ctrl \<lparr>sbuf = replicate SBUF_SIZE_MAX 0, a_head = 0, a_tail = 0, a_count = 0\<rparr>) [] []"
    (is "audio_reach ?s [] []") by (rule start) simp
  then show ?thesis
    using audio_races(2) [of ?s "[]" "[]" "[7, 8]" 1] by (fastforce simp: SBUF_SIZE_MAX_def)
qed

section \<open>Keyboard\<close>

fun key_reads :: "nat \<Rightarrow> keys \<Rightarrow> (bool \<times> u32) list" where
  "key_reads 0 st = []"
| "key_reads (Suc n) st = (let (k, st) = am_input_keybrd st in k # key_reads n st)"

definition key_code :: "u32 \<Rightarrow> bool \<times> u32" where
  "key_code k = (k AND NATIVE_KEYDOWN_MASK \<noteq> 0, k AND NOT NATIVE_KEYDOWN_MASK)"

definition keys_hold :: "keys \<Rightarrow> u32 list \<Rightarrow> bool" where
  "keys_hold st q \<longleftrightarrow> length (key_queue st) = NATIVE_KEY_QUEUE_LEN \<and> ring (key_queue st) (key_f st) q \<and> length q < NATIVE_KEY_QUEUE_LEN \<and>
     key_r st = (key_f st + length q) mod NATIVE_KEY_QUEUE_LEN"

lemma keys_hold_push:
  assumes "keys_hold st q"
  shows "keys_hold (key_push k st) (if Suc (length q) < NATIVE_KEY_QUEUE_LEN then q @ [k] else [])"
proof -
  have q: "ring (key_queue st) (key_f st) q" "length (key_queue st) = NATIVE_KEY_QUEUE_LEN" "key_f st < NATIVE_KEY_QUEUE_LEN"
    "key_r st = (key_f st + length q) mod NATIVE_KEY_QUEUE_LEN" "length q < NATIVE_KEY_QUEUE_LEN"
    using assms by (auto simp: keys_hold_def ring_def)
  have r: "key_r st < NATIVE_KEY_QUEUE_LEN" using q(4) by (simp add: NATIVE_KEY_QUEUE_LEN_def)
  have nx: "(key_r st + 1) mod NATIVE_KEY_QUEUE_LEN = (key_f st + Suc (length q)) mod NATIVE_KEY_QUEUE_LEN"
    unfolding q(4) by (simp add: mod_Suc_eq)
  have "ring_write (key_r st) [k] (key_queue st) = (key_queue st)[key_r st := k]"
    using r q(2) by (intro nth_equalityI) (auto simp: ring_write_def nth_append nth_list_update min_def)
  then have "ring ((key_queue st)[key_r st := k]) (key_f st) (q @ [k])"
    using ring_append [OF q(1), of "[k]"] q(2,4,5) by simp
  moreover have "(key_f st + Suc (length q)) mod NATIVE_KEY_QUEUE_LEN = key_f st" if "\<not> Suc (length q) < NATIVE_KEY_QUEUE_LEN"
  proof -
    have "Suc (length q) = NATIVE_KEY_QUEUE_LEN" using that q(5) by simp
    then show ?thesis using q(3) by simp
  qed
  ultimately show ?thesis
    using q nx by (auto simp: keys_hold_def key_push_def ring_def)
qed

lemma keys_hold_read:
  assumes "keys_hold st q"
  shows "key_reads (length q) st = map key_code q"
  using assms
proof (induction q arbitrary: st)
  case Nil
  then show ?case by simp
next
  case (Cons k q)
  have q: "ring (key_queue st) (key_f st) (k # q)" "length (key_queue st) = NATIVE_KEY_QUEUE_LEN" "key_f st < NATIVE_KEY_QUEUE_LEN"
    "key_r st = (key_f st + Suc (length q)) mod NATIVE_KEY_QUEUE_LEN" "Suc (length q) < NATIVE_KEY_QUEUE_LEN"
    using Cons.prems by (auto simp: keys_hold_def ring_def)
  have ne: "key_f st \<noteq> key_r st"
    using q(3-5) by (auto simp: mod_if)
  have "key_queue st ! key_f st = k" using q(1-3) by (auto simp: ring_def)
  then have rd: "am_input_keybrd st = (key_code k, st\<lparr>key_f := (key_f st + 1) mod NATIVE_KEY_QUEUE_LEN\<rparr>)"
    using ne by (simp add: am_input_keybrd_def key_code_def)
  have "(key_f st + 1) mod NATIVE_KEY_QUEUE_LEN + length q = (key_f st + 1) mod NATIVE_KEY_QUEUE_LEN + length q" by simp
  have "((key_f st + 1) mod NATIVE_KEY_QUEUE_LEN + length q) mod NATIVE_KEY_QUEUE_LEN = (key_f st + Suc (length q)) mod NATIVE_KEY_QUEUE_LEN"
    unfolding mod_add_left_eq by simp
  then have "keys_hold (st\<lparr>key_f := (key_f st + 1) mod NATIVE_KEY_QUEUE_LEN\<rparr>) q"
    using ring_drop [OF q(1), of 1] q by (simp add: keys_hold_def)
  then show ?case using Cons.IH rd by simp
qed

lemma keys_hold_empty: "keys_hold st [] \<Longrightarrow> key_reads n st = replicate n (False, 0)"
  by (induction n) (auto simp: keys_hold_def am_input_keybrd_def ring_def)

text \<open>
  C39. The keyboard queue: from an empty queue, up to 1023 events of the event thread are read back in their order, each as its
  press or release and its key. The 1024th unread event makes the full queue look empty: every event is lost, and
  reading reports no key at all.
\<close>

theorem key_queue_order:
  assumes "keys_hold st []" "length es \<le> NATIVE_KEY_QUEUE_LEN"
  shows "key_reads (length es) (fold key_push es st) =
    (if length es < NATIVE_KEY_QUEUE_LEN then map key_code es else replicate NATIVE_KEY_QUEUE_LEN (False, 0))"
proof -
  have hold: "length es < NATIVE_KEY_QUEUE_LEN \<Longrightarrow> keys_hold (fold key_push es st) es" for es
  proof (induction es rule: rev_induct)
    case Nil
    then show ?case using assms(1) by simp
  next
    case (snoc e es)
    then show ?case using keys_hold_push [of "fold key_push es st" es e] by simp
  qed
  show ?thesis
  proof (cases "length es < NATIVE_KEY_QUEUE_LEN")
    case True
    then show ?thesis using keys_hold_read [OF hold] by simp
  next
    case False
    then obtain e es' where es: "es = es' @ [e]" "Suc (length es') = NATIVE_KEY_QUEUE_LEN"
      using assms(2) by (cases es rule: rev_cases) (auto simp: NATIVE_KEY_QUEUE_LEN_def)
    then have "keys_hold (fold key_push es st) []"
      using keys_hold_push [OF hold [of es'], of e] by simp
    then show ?thesis using keys_hold_empty es by simp
  qed
qed

theorem key_queue_order_witness:
  "key_reads 1024 (fold key_push (replicate 1024 0x8001) \<lparr>key_queue = replicate 1024 0, key_f = 1000, key_r = 1000\<rparr>) = replicate 1024 (False, 0)"
  using key_queue_order [of "\<lparr>key_queue = replicate 1024 0, key_f = 1000, key_r = 1000\<rparr>" "replicate 1024 0x8001"]
  by (simp add: keys_hold_def ring_def NATIVE_KEY_QUEUE_LEN_def)

section \<open>Frame buffer\<close>

definition in_box :: "int \<Rightarrow> int \<Rightarrow> int \<Rightarrow> int \<Rightarrow> int \<Rightarrow> int \<Rightarrow> bool" where
  "in_box x y w h r c \<longleftrightarrow> y \<le> r \<and> r < y + h \<and> x \<le> c \<and> c < x + w"

lemma splice_int:
  assumes "splice p ys xs = Inr zs" "0 \<le> k" "k < int (length xs)"
  shows "zs ! nat k = (if p \<le> k \<and> k < p + int (length ys) then ys ! nat (k - p) else xs ! nat k)"
  using assms by (auto simp: splice_def nth_append nat_diff_distrib nat_less_iff split: if_splits)


lemma length_splice: "splice p ys xs = Inr zs \<Longrightarrow> length zs = length xs"
  by (auto simp: splice_def split: if_splits)

lemma box_cell:
  fixes a r c x m :: int
  assumes "0 \<le> c" "c < 400" "0 \<le> x" "x + m \<le> 400"
  shows "a * 400 + x \<le> r * 400 + c \<and> r * 400 + c < a * 400 + x + m \<longleftrightarrow> r = a \<and> x \<le> c \<and> c < x + m"
proof
  assume *: "a * 400 + x \<le> r * 400 + c \<and> r * 400 + c < a * 400 + x + m"
  then have "r \<le> a" "a \<le> r" using assms by linarith+
  then show "r = a \<and> x \<le> c \<and> c < x + m" using * by auto
qed auto

definition box_ok :: "int \<Rightarrow> int \<Rightarrow> int \<Rightarrow> int \<Rightarrow> u32 list \<Rightarrow> u32 list \<Rightarrow> bool" where
  "box_ok x y w h pixels fb \<longleftrightarrow> 0 \<le> x \<and> x \<le> W \<and> 0 \<le> y \<and> 0 \<le> w \<and> 0 \<le> h \<and> int (length pixels) = w * h \<and> int (length fb) = W * H"

lemma row_ok:
  assumes "box_ok x y w h pixels fb" "0 \<le> j" "j < h" "y + j < H"
  shows "\<exists>row fb'. slice (j * w) (min w (W - x)) pixels = Inr row \<and> splice ((y + j) * W + x) row fb = Inr fb' \<and> length fb' = length fb \<and>
    (\<forall>r c. 0 \<le> r \<and> r < H \<and> 0 \<le> c \<and> c < W \<longrightarrow> fb' ! nat (r * W + c) =
       (if r = y + j \<and> x \<le> c \<and> c < x + w then pixels ! nat (j * w + (c - x)) else fb ! nat (r * W + c)))"
proof -
  define m where "m = min w (W - x)"
  have m: "0 \<le> m" "m \<le> w" "x + m \<le> W" using assms(1) by (auto simp: m_def box_ok_def)
  have "(j + 1) * w \<le> h * w" using assms by (intro mult_right_mono) (auto simp: box_ok_def)
  then have src: "0 \<le> j * w" "j * w + m \<le> int (length pixels)"
    using assms(1,2) m by (auto simp: box_ok_def algebra_simps)
  define row where "row = take (nat m) (drop (nat (j * w)) pixels)"
  have s: "slice (j * w) m pixels = Inr row"
    using src m by (simp add: slice_def row_def)
  have row: "int (length row) = m" "\<And>i. 0 \<le> i \<Longrightarrow> i < m \<Longrightarrow> row ! nat i = pixels ! nat (j * w + i)"
    using src m by (auto simp: row_def min_def nat_add_distrib)
  have dst: "0 \<le> (y + j) * W + x" "(y + j) * W + x + m \<le> int (length fb)"
    using assms m by (auto simp: box_ok_def W_def H_def)
  then obtain fb' where f: "splice ((y + j) * W + x) row fb = Inr fb'"
    using row(1) by (simp add: splice_def)
  have "fb' ! nat (r * W + c) = (if r = y + j \<and> x \<le> c \<and> c < x + w then pixels ! nat (j * w + (c - x)) else fb ! nat (r * W + c))"
    if rc: "0 \<le> r" "r < H" "0 \<le> c" "c < W" for r c
  proof -
    have k: "0 \<le> r * W + c" "r * W + c < int (length fb)"
      using rc assms(1) by (auto simp: box_ok_def W_def H_def)
    have "(y + j) * W + x \<le> r * W + c \<and> r * W + c < (y + j) * W + x + m \<longleftrightarrow> r = y + j \<and> x \<le> c \<and> c < x + w"
      using box_cell [of c x m "y + j" r] rc m assms(1) unfolding W_def box_ok_def
      by (auto simp: m_def W_def min_def split: if_splits)
    then show ?thesis
      using splice_int [OF f k] row(2) [of "c - x"] row(1) rc m
      by (auto simp: m_def min_def split: if_splits)
  qed
  then show ?thesis using s f length_splice [OF f] unfolding m_def by blast
qed

lemma fbdraw_loop_box:
  assumes "box_ok x y w h pixels fb" "0 \<le> j" "j + int n = h"
  shows "\<exists>fb'. native_fbdraw_loop n j x y w h pixels fb = Inr fb' \<and> length fb' = length fb \<and>
    (\<forall>r c. 0 \<le> r \<and> r < H \<and> 0 \<le> c \<and> c < W \<longrightarrow> fb' ! nat (r * W + c) =
       (if in_box x (y + j) w (h - j) r c then pixels ! nat ((r - y) * w + (c - x)) else fb ! nat (r * W + c)))"
  using assms
proof (induction n arbitrary: j fb)
  case 0
  then show ?case by (auto simp: in_box_def)
next
  case (Suc n)
  show ?case
  proof (cases "y + j < H")
    case False
    then show ?thesis by (auto simp: in_box_def)
  next
    case True
    have jh: "j < h" using Suc.prems(3) by simp
    obtain row fb1 where r: "slice (j * w) (min w (W - x)) pixels = Inr row" "splice ((y + j) * W + x) row fb = Inr fb1" "length fb1 = length fb"
      "\<And>r c. 0 \<le> r \<and> r < H \<and> 0 \<le> c \<and> c < W \<Longrightarrow> fb1 ! nat (r * W + c) =
         (if r = y + j \<and> x \<le> c \<and> c < x + w then pixels ! nat (j * w + (c - x)) else fb ! nat (r * W + c))"
      using row_ok [OF Suc.prems(1,2) jh True] by blast
    have "box_ok x y w h pixels fb1" using Suc.prems(1) r(3) by (simp add: box_ok_def)
    from Suc.IH [OF this, of "j + 1"] Suc.prems(2,3) obtain fb' where
      "native_fbdraw_loop n (j + 1) x y w h pixels fb1 = Inr fb'" "length fb' = length fb1"
      "\<And>r c. 0 \<le> r \<and> r < H \<and> 0 \<le> c \<and> c < W \<Longrightarrow> fb' ! nat (r * W + c) =
         (if in_box x (y + (j + 1)) w (h - (j + 1)) r c then pixels ! nat ((r - y) * w + (c - x)) else fb1 ! nat (r * W + c))"
      by auto
    then show ?thesis
      using r jh True by (intro exI [of _ fb']) (auto simp: in_box_def)
  qed
qed

text \<open>
  C40. Drawing on the host sets exactly the pixels of the rectangle that lie in the frame buffer to the source colours and
  leaves all others, for a rectangle whose corner is on the screen, however far it reaches beyond the right and lower edges. A
  corner right of the screen is not clipped: the first row already leaves the frame buffer.
\<close>

theorem native_fbdraw_exact:
  assumes "0 \<le> x" "0 \<le> y" "0 \<le> w" "0 \<le> h" "int (length pixels) = w * h" "int (length fb) = W * H"
  shows "if x \<le> W then \<exists>fb'. native_fbdraw x y w h pixels fb = Inr fb' \<and> length fb' = length fb \<and>
      (\<forall>r c. 0 \<le> r \<and> r < H \<and> 0 \<le> c \<and> c < W \<longrightarrow> fb' ! nat (r * W + c) =
         (if in_box x y w h r c then pixels ! nat ((r - y) * w + (c - x)) else fb ! nat (r * W + c)))
    else native_fbdraw x y w h pixels fb = (if 0 < h \<and> y < H then Inl Out_of_bounds else Inr fb)"
proof (cases "x \<le> W")
  case True
  then have "box_ok x y w h pixels fb" using assms by (simp add: box_ok_def)
  from fbdraw_loop_box [OF this, of 0 "nat h"] show ?thesis
    using True assms(4) by (simp add: native_fbdraw_def)
next
  case False
  then have "slice 0 (min w (W - x)) pixels = Inl Out_of_bounds" by (auto simp: slice_def)
  then show ?thesis
    using False assms(4) by (cases "nat h") (auto simp: native_fbdraw_def)
qed

theorem native_fbdraw_exact_witness:
  "(\<exists>fb. native_fbdraw 399 299 2 2 [1, 2, 3, 4] native_gpu_init = Inr fb \<and> fb ! nat (299 * W + 399) = 1) \<and>
   native_fbdraw 401 0 1 1 [7] native_gpu_init = Inl Out_of_bounds"
proof -
  have len: "int (length native_gpu_init) = W * H" by (simp add: native_gpu_init_def W_def H_def)
  have "\<exists>fb. native_fbdraw 399 299 2 2 [1, 2, 3, 4] native_gpu_init = Inr fb \<and>
    (\<forall>r c. 0 \<le> r \<and> r < H \<and> 0 \<le> c \<and> c < W \<longrightarrow> fb ! nat (r * W + c) =
         (if in_box 399 299 2 2 r c then [1, 2, 3, 4] ! nat ((r - 299) * 2 + (c - 399)) else native_gpu_init ! nat (r * W + c)))"
    using native_fbdraw_exact [of 399 299 2 2 "[1, 2, 3, 4]", OF _ _ _ _ _ len] by (auto simp: W_def)
  then obtain fb where fb: "native_fbdraw 399 299 2 2 [1, 2, 3, 4] native_gpu_init = Inr fb"
    "\<forall>r c. 0 \<le> r \<and> r < H \<and> 0 \<le> c \<and> c < W \<longrightarrow> fb ! nat (r * W + c) =
         (if in_box 399 299 2 2 r c then [1, 2, 3, 4] ! nat ((r - 299) * 2 + (c - 399)) else native_gpu_init ! nat (r * W + c))" by blast
  have "fb ! nat (299 * W + 399) = 1"
    using fb(2) [rule_format, of 299 399] by (simp add: in_box_def W_def H_def)
  with fb(1) have "\<exists>fb. native_fbdraw 399 299 2 2 [1, 2, 3, 4] native_gpu_init = Inr fb \<and> fb ! nat (299 * W + 399) = 1"
    by blast
  moreover have "native_fbdraw 401 0 1 1 [7] native_gpu_init = Inl Out_of_bounds"
    using native_fbdraw_exact [of 401 0 1 1 "[7]", OF _ _ _ _ _ len] by (simp add: W_def H_def)
  ultimately show ?thesis by blast
qed

end
