(* ===== verification/Am_Nemu.thy ===== *)
theory Am_Nemu
  imports Cte Native_Ioe Gen_Expr "HOL-Library.Char_ord"
begin

text \<open>
  AbstractMachine on NEMU (\<open>am/src/nemu\<close>) and the C library that comes with it (\<open>klib/src/stdlib.c\<close>). Many operations here are
  placeholders that later work fills in: \<open>map\<close>, \<open>kcontext\<close>, \<open>ucontext\<close>, \<open>ienabled\<close> and \<open>memcpy\<close> do nothing, and are modelled so.

  The page allocator is a parameter, with its state of type \<open>'p\<close>; the addresses the linker chose are arguments.
\<close>

section \<open>Address spaces\<close>

text \<open>\<open>nv_dir\<close> is the register that holds the page directory: \<open>satp\<close>, CR3 or the variable \<open>cur_pdir\<close>.\<close>

record ('w, 'p) nvme =
  nv_pool :: 'p
  nv_kas :: 'w
  nv_enable :: bool
  nv_dir :: 'w
  nv_cr0 :: u32

definition NEMU_PGSIZE :: nat where "NEMU_PGSIZE = 4096"

definition NEMU_PADDR_SPACE :: "'w::len word \<Rightarrow> 'w word Area list" where
  "NEMU_PADDR_SPACE pmem_start =
     [\<lparr>a_start = pmem_start, a_end = pmem_start + 128 * 1024 * 1024\<rparr>,
      \<lparr>a_start = 0xa0000000, a_end = 0xa0000000 + 0x200000\<rparr>,
      \<lparr>a_start = 0xa1000000, a_end = 0xa1000000 + 0x1000\<rparr>]"

definition nemu_map :: "'w::len word \<Rightarrow> 'w word \<Rightarrow> 'w word \<Rightarrow> u32 \<Rightarrow> ('w word, 'p) nvme \<Rightarrow> ('w word, 'p) nvme" where
  "nemu_map as va pa prot st = st"

partial_function (option) kas_loop :: "'w::len word \<Rightarrow> 'w word \<Rightarrow> 'w word \<Rightarrow> ('w word, 'p) nvme \<Rightarrow> ('w word, 'p) nvme option" where
  "kas_loop kas va area_end st = (if va < area_end then kas_loop kas (va + 4096) area_end (nemu_map kas va va 0 st) else Some st)"

fun kas_segments :: "'w::len word \<Rightarrow> 'w word Area list \<Rightarrow> ('w word, 'p) nvme \<Rightarrow> ('w word, 'p) nvme option" where
  "kas_segments kas [] st = Some st"
| "kas_segments kas (a # as) st = (case kas_loop kas (a_start a) (a_end a) st of None \<Rightarrow> None | Some st \<Rightarrow> kas_segments kas as st)"

definition kas_init :: "('p \<Rightarrow> 'w::len word \<times> 'p) \<Rightarrow> 'w word \<Rightarrow> ('w word, 'p) nvme \<Rightarrow> ('w word, 'p) nvme option" where
  "kas_init pgalloc pmem_start st =
     (let (p, pool) = pgalloc (nv_pool st); st = st\<lparr>nv_kas := p, nv_pool := pool\<rparr>
      in kas_segments p (NEMU_PADDR_SPACE pmem_start) st)"

definition rv32_set_satp :: "u32 \<Rightarrow> u32" where
  "rv32_set_satp pdir = 0x80000000 OR drop_bit 12 pdir"

definition rv32_get_satp :: "u32 \<Rightarrow> u32" where
  "rv32_get_satp satp = push_bit 12 satp"

definition rv64_set_satp :: "u64 \<Rightarrow> u64" where
  "rv64_set_satp pdir = (let mode = push_bit 60 8 in mode OR drop_bit 12 pdir)"

definition rv64_get_satp :: "u64 \<Rightarrow> u64" where
  "rv64_get_satp satp = push_bit 12 satp"

definition rv32_vme_init :: "('p \<Rightarrow> u32 \<times> 'p) \<Rightarrow> u32 \<Rightarrow> (u32, 'p) nvme \<Rightarrow> (u32, 'p) nvme option" where
  "rv32_vme_init pgalloc pmem_start st =
     map_option (\<lambda>st. st\<lparr>nv_dir := rv32_set_satp (nv_kas st), nv_enable := True\<rparr>) (kas_init pgalloc pmem_start st)"

definition rv64_vme_init :: "('p \<Rightarrow> u64 \<times> 'p) \<Rightarrow> u64 \<Rightarrow> (u64, 'p) nvme \<Rightarrow> (u64, 'p) nvme option" where
  "rv64_vme_init pgalloc pmem_start st =
     map_option (\<lambda>st. st\<lparr>nv_dir := rv64_set_satp (nv_kas st), nv_enable := True\<rparr>) (kas_init pgalloc pmem_start st)"

definition x86n_vme_init :: "('p \<Rightarrow> u32 \<times> 'p) \<Rightarrow> u32 \<Rightarrow> (u32, 'p) nvme \<Rightarrow> (u32, 'p) nvme option" where
  "x86n_vme_init pgalloc pmem_start st =
     map_option (\<lambda>st. st\<lparr>nv_dir := nv_kas st, nv_cr0 := nv_cr0 st OR 0x80000000, nv_enable := True\<rparr>) (kas_init pgalloc pmem_start st)"

definition mips_vme_init :: "(u32, 'p) nvme \<Rightarrow> (u32, 'p) nvme" where
  "mips_vme_init st = st\<lparr>nv_enable := True\<rparr>"

definition nemu_protect :: "'w::len word Area \<Rightarrow> ('p \<Rightarrow> 'w word \<times> 'p) \<Rightarrow> ('w word, 'p) nvme \<Rightarrow> 'w word AddrSpace \<times> ('w word, 'p) nvme" where
  "nemu_protect user_space pgalloc st =
     (let (updir, pool) = pgalloc (nv_pool st)
      in (\<lparr>as_pgsize = NEMU_PGSIZE, as_area = user_space, as_ptr = updir\<rparr>, st\<lparr>nv_pool := pool\<rparr>))"

definition rv32_protect :: "('p \<Rightarrow> u32 \<times> 'p) \<Rightarrow> (u32, 'p) nvme \<Rightarrow> u32 AddrSpace \<times> (u32, 'p) nvme" where
  "rv32_protect = nemu_protect \<lparr>a_start = 0x40000000, a_end = 0x80000000\<rparr>"

definition rv64_protect :: "('p \<Rightarrow> u64 \<times> 'p) \<Rightarrow> (u64, 'p) nvme \<Rightarrow> u64 AddrSpace \<times> (u64, 'p) nvme" where
  "rv64_protect = nemu_protect \<lparr>a_start = 0x40000000, a_end = 0x80000000\<rparr>"

definition x86n_protect :: "('p \<Rightarrow> u32 \<times> 'p) \<Rightarrow> (u32, 'p) nvme \<Rightarrow> u32 AddrSpace \<times> (u32, 'p) nvme" where
  "x86n_protect = nemu_protect \<lparr>a_start = 0x40000000, a_end = 0xc0000000\<rparr>"

definition mips_protect :: "('p \<Rightarrow> u32 \<times> 'p) \<Rightarrow> (u32, 'p) nvme \<Rightarrow> u32 AddrSpace \<times> (u32, 'p) nvme" where
  "mips_protect = nemu_protect \<lparr>a_start = 0x40000000, a_end = 0x80000000\<rparr>"

text \<open>The page directory a context records, and the switch to the one it recorded.\<close>

definition rv32_get_cur_as :: "(u32, 'p) nvme \<Rightarrow> u32" where
  "rv32_get_cur_as st = (if nv_enable st then rv32_get_satp (nv_dir st) else 0)"

definition rv32_switch :: "u32 \<Rightarrow> (u32, 'p) nvme \<Rightarrow> (u32, 'p) nvme" where
  "rv32_switch pdir st = (if nv_enable st \<and> pdir \<noteq> 0 then st\<lparr>nv_dir := rv32_set_satp pdir\<rparr> else st)"

definition rv64_get_cur_as :: "(u64, 'p) nvme \<Rightarrow> u64" where
  "rv64_get_cur_as st = (if nv_enable st then rv64_get_satp (nv_dir st) else 0)"

definition rv64_switch :: "u64 \<Rightarrow> (u64, 'p) nvme \<Rightarrow> (u64, 'p) nvme" where
  "rv64_switch pdir st = (if nv_enable st \<and> pdir \<noteq> 0 then st\<lparr>nv_dir := rv64_set_satp pdir\<rparr> else st)"

definition x86n_get_cur_as :: "(u32, 'p) nvme \<Rightarrow> u32" where
  "x86n_get_cur_as st = (if nv_enable st then nv_dir st else 0)"

definition x86n_switch :: "u32 \<Rightarrow> (u32, 'p) nvme \<Rightarrow> (u32, 'p) nvme" where
  "x86n_switch pdir st = (if nv_enable st \<and> pdir \<noteq> 0 then st\<lparr>nv_dir := pdir\<rparr> else st)"

definition mips_get_cur_as :: "(u32, 'p) nvme \<Rightarrow> u32" where
  "mips_get_cur_as st = nv_dir st"

definition mips_switch :: "u32 \<Rightarrow> (u32, 'p) nvme \<Rightarrow> (u32, 'p) nvme" where
  "mips_switch pdir st = (if nv_enable st \<and> pdir \<noteq> 0 then st\<lparr>nv_dir := pdir\<rparr> else st)"

section \<open>Events\<close>

text \<open>
  Every cause is an error event; with no handler the context is returned as it is. The user handler is the argument
  \<open>call\<close>, its address 0 when none was registered.
\<close>

definition nemu_irq_handle :: "('h \<Rightarrow> event_kind \<Rightarrow> 'w::len word \<Rightarrow> 's \<Rightarrow> 'w word \<times> 's) \<Rightarrow> 'h option \<Rightarrow> 'w word \<Rightarrow> 's \<Rightarrow> ('w word \<times> 's) res" where
  "nemu_irq_handle call handler c s =
     (case handler of
        None \<Rightarrow> Inr (c, s)
      | Some h \<Rightarrow> let (c, s) = call h EVENT_ERROR c s in bindE (assertE (c \<noteq> 0)) (\<lambda>_. Inr (c, s)))"

definition rv32_irq_handle :: "('h \<Rightarrow> event_kind \<Rightarrow> u32 \<Rightarrow> 's \<Rightarrow> u32 \<times> 's) \<Rightarrow> 'h option \<Rightarrow> u32 \<Rightarrow> 's \<Rightarrow> (u32 \<times> 's) res" where
  "rv32_irq_handle = nemu_irq_handle"

definition rv64_irq_handle :: "('h \<Rightarrow> event_kind \<Rightarrow> u64 \<Rightarrow> 's \<Rightarrow> u64 \<times> 's) \<Rightarrow> 'h option \<Rightarrow> u64 \<Rightarrow> 's \<Rightarrow> (u64 \<times> 's) res" where
  "rv64_irq_handle = nemu_irq_handle"

definition x86n_irq_handle :: "('h \<Rightarrow> event_kind \<Rightarrow> u32 \<Rightarrow> 's \<Rightarrow> u32 \<times> 's) \<Rightarrow> 'h option \<Rightarrow> u32 \<Rightarrow> 's \<Rightarrow> (u32 \<times> 's) res" where
  "x86n_irq_handle = nemu_irq_handle"

definition mips_irq_handle :: "('h \<Rightarrow> event_kind \<Rightarrow> u32 \<Rightarrow> 's \<Rightarrow> u32 \<times> 's) \<Rightarrow> 'h option \<Rightarrow> u32 \<Rightarrow> 's \<Rightarrow> (u32 \<times> 's) res" where
  "mips_irq_handle = nemu_irq_handle"

definition EX_ENTRY :: u32 where "EX_ENTRY = 0x80000180"

text \<open>The writes \<open>cte_init\<close> makes on MIPS: a jump to the trap routine at both exception entries.\<close>

definition mips_j :: "u32 \<Rightarrow> u32" where
  "mips_j asm_trap = 0x08000000 OR (drop_bit 2 asm_trap AND 0x3ffffff)"

definition mips_cte_init :: "u32 \<Rightarrow> mem32 \<Rightarrow> mem32" where
  "mips_cte_init asm_trap m =
     (let instr = mips_j asm_trap;
          m = store32 m EX_ENTRY instr;
          m = store32 m (EX_ENTRY + 4) 0;
          m = store32 m 0x80000000 instr
      in store32 m (0x80000000 + 4) 0)"

definition x86n_idt :: "u32 \<Rightarrow> u32 \<Rightarrow> u32 \<Rightarrow> u32 \<Rightarrow> GateDesc32 list" where
  "x86n_idt vecnull irq0 vecsys vectrap =
     (let idt = replicate 256 (GATE32 STS_TG (KSEL 1) vecnull DPL_KERN);
          idt = idt[32 := GATE32 STS_IG (KSEL 1) irq0 DPL_KERN];
          idt = idt[0x80 := GATE32 STS_TG (KSEL 1) vecsys DPL_USER]
      in idt[0x81 := GATE32 STS_TG (KSEL 1) vectrap DPL_KERN])"

section \<open>Devices\<close>

text \<open>The ports written, last first, and whether \<open>ioe_init\<close> has filled the table.\<close>

record nemu_io =
  nio_outl :: "(u32 \<times> u32) list"
  nio_lut_full :: bool

definition nemu_ioe_init :: "nemu_io \<Rightarrow> nemu_io" where
  "nemu_ioe_init st = st\<lparr>nio_lut_full := True\<rparr>"

definition nemu_fbdraw :: "u32 \<Rightarrow> bool \<Rightarrow> nemu_io \<Rightarrow> nemu_io" where
  "nemu_fbdraw vgactl_addr sync st = (if sync then st\<lparr>nio_outl := (vgactl_addr + 4, 1) # nio_outl st\<rparr> else st)"

definition nemu_gpu_config :: devbuf where "nemu_gpu_config = GPU_CONFIG True False 0 0 0"
definition nemu_gpu_status :: devbuf where "nemu_gpu_status = GPU_STATUS True"
definition nemu_timer_uptime :: devbuf where "nemu_timer_uptime = TIMER_UPTIME 0"
definition nemu_timer_rtc :: devbuf where "nemu_timer_rtc = TIMER_RTC 1900 0 0 0 0 0"
definition nemu_input_keybrd :: devbuf where "nemu_input_keybrd = INPUT_KEYBRD False 0"
definition nemu_audio_config :: "int \<Rightarrow> devbuf" where "nemu_audio_config bufsize = AUDIO_CONFIG False bufsize"
definition nemu_audio_status :: devbuf where "nemu_audio_status = AUDIO_STATUS 0"

definition nemu_lut :: "u32 \<Rightarrow> devbuf \<Rightarrow> nemu_io \<Rightarrow> (devbuf \<times> nemu_io) res" where
  "nemu_lut vgactl_addr buf st =
     (case buf of
        TIMER_CONFIG _ _ \<Rightarrow> Inr (TIMER_CONFIG True True, st)
      | TIMER_RTC _ _ _ _ _ _ \<Rightarrow> Inr (nemu_timer_rtc, st)
      | TIMER_UPTIME _ \<Rightarrow> Inr (nemu_timer_uptime, st)
      | INPUT_CONFIG _ \<Rightarrow> Inr (INPUT_CONFIG True, st)
      | INPUT_KEYBRD _ _ \<Rightarrow> Inr (nemu_input_keybrd, st)
      | GPU_CONFIG _ _ _ _ _ \<Rightarrow> Inr (nemu_gpu_config, st)
      | GPU_FBDRAW x y pixels w h sync \<Rightarrow> Inr (buf, nemu_fbdraw vgactl_addr sync st)
      | GPU_STATUS _ \<Rightarrow> Inr (nemu_gpu_status, st)
      | UART_CONFIG _ \<Rightarrow> Inr (UART_CONFIG False, st)
      | AUDIO_CONFIG _ sz \<Rightarrow> Inr (nemu_audio_config sz, st)
      | AUDIO_CTRL _ _ _ \<Rightarrow> Inr (buf, st)
      | AUDIO_STATUS _ \<Rightarrow> Inr (nemu_audio_status, st)
      | AUDIO_PLAY _ \<Rightarrow> Inr (buf, st)
      | DISK_CONFIG _ sz n \<Rightarrow> Inr (DISK_CONFIG False sz n, st)
      | NET_CONFIG _ \<Rightarrow> Inr (NET_CONFIG False, st)
      | OTHER_REG n \<Rightarrow> if 128 \<le> n then Inl Out_of_bounds
          else if nio_lut_full st then Inl (Panic ''access nonexist register'') else Inl Null_deref)"

section \<open>C library\<close>

text \<open>The state of \<open>rand\<close> is an \<open>unsigned long\<close>, of 32 or 64 bits.\<close>

definition klib_rand :: "'w::len word \<Rightarrow> u32 \<times> 'w word" where
  "klib_rand s = (let s = s * 1103515245 + 12345 in (ucast (s div 65536) mod 32768, s))"

definition klib_srand :: "u32 \<Rightarrow> 'w::len word" where
  "klib_srand seed = ucast seed"

definition klib_abs :: "u32 \<Rightarrow> u32" where
  "klib_abs x = (if sint x < 0 then - x else x)"

fun atoi_digits :: "u32 \<Rightarrow> string \<Rightarrow> u32" where
  "atoi_digits x [] = x"
| "atoi_digits x (c # cs) = (if CHR ''0'' \<le> c \<and> c \<le> CHR ''9'' then atoi_digits (x * 10 + of_char c - 48) cs else x)"

fun klib_atoi :: "string \<Rightarrow> u32" where
  "klib_atoi [] = 0"
| "klib_atoi (c # cs) = (if c = CHR '' '' then klib_atoi cs else atoi_digits 0 (c # cs))"

end
