(* ===== verification/Am_Nemu_Correct.thy ===== *)
theory Am_Nemu_Correct
  imports Am_Nemu
begin

text \<open>
  AbstractMachine on NEMU: the start ends, a context finds its address space again, exceptions reach the trap routine; and
  the C library's numbers.
\<close>

section \<open>Address spaces\<close>

lemma kas_loop_ends:
  fixes va :: "'w::len word"
  assumes "12 < LENGTH('w)" "unat area_end + 4096 \<le> 2 ^ LENGTH('w)"
  shows "kas_loop kas va area_end st = Some st"
proof (induction "unat area_end - unat va" arbitrary: va rule: less_induct)
  case less
  show ?case
  proof (cases "va < area_end")
    case True
    have "(2 :: nat) ^ 13 \<le> 2 ^ LENGTH('w)" using assms(1) by (intro power_increasing) auto
    then have "unat (4096 :: 'w word) = 4096"
      using unat_of_nat [of 4096, where ?'a = 'w] by (simp add: take_bit_nat_eq_self)
    then have "unat (va + 4096) = unat va + 4096"
      using True assms(2) by (simp add: unat_word_ariths(1) word_less_nat_alt)
    then show ?thesis
      using True less [of "va + 4096"] by (subst kas_loop.simps) (simp add: nemu_map_def word_less_nat_alt)
  next
    case False
    then show ?thesis by (simp add: kas_loop.simps)
  qed
qed

lemma kas_segments_ends:
  fixes kas :: "'w::len word"
  assumes "12 < LENGTH('w)" "\<forall>a\<in>set as. unat (a_end a) + 4096 \<le> 2 ^ LENGTH('w)"
  shows "kas_segments kas as st = Some st"
  using assms(2) by (induction as) (simp_all add: kas_loop_ends [OF assms(1)])

lemma kas_init_ends:
  assumes "unat pmem_start + 128 * 1024 * 1024 + 4096 \<le> 2 ^ 32"
  shows "kas_init pgalloc (pmem_start :: u32) st = (let (p, pool) = pgalloc (nv_pool st) in Some (st\<lparr>nv_kas := p, nv_pool := pool\<rparr>))"
proof -
  have "unat (pmem_start + 134217728) = unat pmem_start + 134217728"
    using assms by (simp add: unat_word_ariths(1))
  then have "\<forall>a\<in>set (NEMU_PADDR_SPACE pmem_start). unat (a_end a) + 4096 \<le> 2 ^ LENGTH(32)"
    using assms by (simp add: NEMU_PADDR_SPACE_def)
  then show ?thesis
    by (simp add: kas_init_def Let_def kas_segments_ends split: prod.splits)
qed

definition page_aligned :: "'w::len word \<Rightarrow> bool" where
  "page_aligned p \<longleftrightarrow> take_bit 12 p = 0"

lemma aligned_bit: "page_aligned p \<Longrightarrow> k < 12 \<Longrightarrow> \<not> bit p k"
  unfolding page_aligned_def by (metis bit_0_eq bit_take_bit_iff bot_apply bot_bool_def)

lemma aligned_round:
  assumes "page_aligned p"
  shows "push_bit 12 (drop_bit 12 p) = p"
proof (rule bit_word_eqI)
  fix k
  show "bit (push_bit 12 (drop_bit 12 p)) k \<longleftrightarrow> bit p k"
    using aligned_bit [OF assms, of k] by (cases "k < 12") (auto simp: bit_simps not_less dest: bit_imp_le_length)
qed

lemma rv32_satp: "page_aligned p \<Longrightarrow> rv32_get_satp (rv32_set_satp p) = p"
proof -
  assume p: "page_aligned p"
  have z: "push_bit 12 (0x80000000 :: u32) = 0" by simp
  show ?thesis unfolding rv32_get_satp_def rv32_set_satp_def push_bit_or aligned_round [OF p] z by simp
qed

lemma rv64_satp: "page_aligned p \<Longrightarrow> rv64_get_satp (rv64_set_satp p) = p"
proof -
  assume p: "page_aligned p"
  have z: "push_bit 12 (push_bit 60 8 :: u64) = 0" by simp
  show ?thesis unfolding rv64_get_satp_def rv64_set_satp_def Let_def push_bit_or aligned_round [OF p] z by simp
qed

text \<open>
  The start ends, turns translation on and makes the kernel's directory the current one.
\<close>

theorem nemu_vme_starts:
  assumes "unat pmem_start + 128 * 1024 * 1024 + 4096 \<le> 2 ^ 32" "pgalloc (nv_pool st) = (p, pool)" "page_aligned p"
  shows "(\<exists>s. rv32_vme_init pgalloc pmem_start st = Some s \<and> nv_enable s \<and> rv32_get_cur_as s = p) \<and>
    (\<exists>s. x86n_vme_init pgalloc pmem_start st = Some s \<and> nv_enable s \<and> x86n_get_cur_as s = p \<and> bit (nv_cr0 s) 31)"
proof -
  have "bit (0x80000000 :: u32) 31" by simp
  then show ?thesis
    using kas_init_ends [OF assms(1), of pgalloc st] assms(2)
    by (simp add: rv32_vme_init_def x86n_vme_init_def rv32_get_cur_as_def x86n_get_cur_as_def rv32_satp [OF assms(3)] bit_or_iff)
qed

text \<open>
  A context finds its address space again: the directory a context recorded when it was interrupted is installed when
  the kernel switches back to it, whatever directories were current in between, on each of the four instruction sets; a
  kernel context, which recorded none, keeps the current one. The directories are the page-aligned tables the allocator returns.
\<close>

theorem context_space_restored:
  assumes "page_aligned p" "page_aligned q" "p \<noteq> 0" "q \<noteq> 0" "nv_enable st" "nv_enable st'"
    and "page_aligned r" "r \<noteq> 0" "nv_enable s" "nv_enable s'"
  shows "rv32_switch (rv32_get_cur_as (rv32_switch p st)) (rv32_switch q st') = rv32_switch p st' \<and>
    rv64_switch (rv64_get_cur_as (rv64_switch r s)) (rv64_switch t s') = rv64_switch r s' \<and>
    x86n_switch (x86n_get_cur_as (x86n_switch p st)) (x86n_switch q st') = x86n_switch p st' \<and>
    mips_switch (mips_get_cur_as (mips_switch p st)) (mips_switch q st') = mips_switch p st' \<and>
    rv32_get_cur_as (rv32_switch 0 (rv32_switch q st')) = q"
  using assms
  by (simp add: rv32_switch_def rv32_get_cur_as_def rv32_satp rv64_switch_def rv64_get_cur_as_def rv64_satp
      x86n_switch_def x86n_get_cur_as_def mips_switch_def mips_get_cur_as_def)

section \<open>C library\<close>

lemma word_of_int_uint64: "word_of_int (take_bit 64 z) = (word_of_int z :: u32)"
  by (simp add: word_of_int_eq_iff)

lemma ucast_lcg: "ucast (s * 1103515245 + 12345 :: u64) = (ucast s * 1103515245 + 12345 :: u32)"
proof -
  have "uint (s * 1103515245 + 12345) = take_bit 64 (uint s * 1103515245 + 12345)"
    unfolding uint_word_ariths take_bit_eq_mod mod_add_left_eq by simp
  then have "ucast (s * 1103515245 + 12345) = (word_of_int (uint s * 1103515245 + 12345) :: u32)"
    unfolding ucast_eq by (simp only: word_of_int_uint64)
  also have "\<dots> = word_of_int (uint s) * 1103515245 + 12345"
    by (simp only: of_int_add of_int_mult of_int_numeral)
  finally show ?thesis unfolding ucast_eq .
qed

fun rand_seq :: "nat \<Rightarrow> 'w::len word \<Rightarrow> u32 list" where
  "rand_seq 0 s = []"
| "rand_seq (Suc n) s = (let (r, s) = klib_rand s in r # rand_seq n s)"

lemma rand_value: "ucast (s div 65536 :: u64) mod 32768 = (ucast (ucast s div 65536 :: u32) mod 32768 :: u32)"
proof -
  have d: "a div 65536 = drop_bit 16 a" "b div 65536 = drop_bit 16 b" "c mod 32768 = take_bit 15 c" for a :: u64 and b c :: u32
    by (simp_all add: drop_bit_eq_div take_bit_eq_mod)
  show ?thesis unfolding d by (rule bit_word_eqI) (auto simp: bit_simps)
qed

text \<open>
  The numbers of \<open>rand\<close> lie between 0 and 32767, and the sequence after a seed is the same on 32-bit and 64-bit machines,
  although \<open>unsigned long\<close> differs.
\<close>

theorem rand_portable:
  "rand_seq n (klib_srand seed :: u64) = rand_seq n (klib_srand seed :: u32) \<and> (\<forall>r\<in>set (rand_seq n (klib_srand seed :: u32)). r < 32768)"
proof -
  have "rand_seq n s = rand_seq n (ucast s :: u32)" for s :: u64
    by (induction n arbitrary: s) (simp_all add: klib_rand_def Let_def ucast_lcg rand_value)
  moreover have "r < 32768" if "r \<in> set (rand_seq n s)" for r and s :: u32
    using that by (induction n arbitrary: s) (auto simp: klib_rand_def Let_def word_mod_less_divisor)
  moreover have "ucast (ucast seed :: u64) = (ucast seed :: u32)"
    by (rule bit_word_eqI) (auto simp: bit_simps)
  ultimately show ?thesis by (simp add: klib_srand_def)
qed

lemma digit_char:
  fixes d :: nat
  assumes "d < 10"
  shows "CHR ''0'' \<le> (char_of (48 + d) :: char) \<and> (char_of (48 + d) :: char) \<le> CHR ''9'' \<and> of_char (char_of (48 + d) :: char) = (of_nat (48 + d) :: u32)"
proof -
  have "(of_char (char_of (48 + d) :: char) :: u32) = of_nat (of_char (char_of (48 + d) :: char) :: nat)"
    by (rule of_nat_of_char [symmetric])
  also have "\<dots> = of_nat (48 + d)" using assms unfolding of_char_of by simp
  finally have "(of_char (char_of (48 + d) :: char) :: u32) = of_nat (48 + d)" .
  moreover have "d \<in> {0, 1, 2, 3, 4, 5, 6, 7, 8, 9}" using assms by auto
  ultimately show ?thesis by (auto simp: less_eq_char_def)
qed

lemma atoi_show: "atoi_digits (of_nat a) (show_nat n @ cs) = atoi_digits (of_nat (a * 10 ^ length (show_nat n) + n)) cs"
proof (induction n arbitrary: a cs rule: show_nat.induct)
  case (1 n)
  have step: "atoi_digits (of_nat b) (char_of (48 + d) # cs) = atoi_digits (of_nat (b * 10 + d)) cs" if "d < 10" for b d cs
    using digit_char [OF that] by (simp add: algebra_simps)
  show ?case
  proof (cases "n < 10")
    case True
    then show ?thesis using step [of n a cs] by (simp add: show_nat.simps [of n])
  next
    case False
    have "(a * 10 ^ length (show_nat (n div 10)) + n div 10) * 10 + n mod 10 = a * 10 ^ Suc (length (show_nat (n div 10))) + n"
      by (simp add: algebra_simps)
    moreover have "show_nat n @ cs = show_nat (n div 10) @ char_of (48 + n mod 10) # cs"
      using False by (simp add: show_nat.simps [of n])
    moreover have "length (show_nat n) = Suc (length (show_nat (n div 10)))"
      using False by (simp add: show_nat.simps [of n])
    moreover have "n mod 10 < 10" by simp
    ultimately show ?thesis
      using step [of "n mod 10"] by (simp only: 1 [OF False])
  qed
qed

text \<open>
  \<open>atoi\<close> reads back every decimal number modulo \<open>2 ^ 32\<close>, after any spaces and up to the first character that is no digit.
\<close>

theorem atoi_reads:
  assumes "cs = [] \<or> \<not> (CHR ''0'' \<le> hd cs \<and> hd cs \<le> CHR ''9'')"
  shows "klib_atoi (replicate k (CHR '' '') @ show_nat n @ cs) = of_nat n"
proof -
  have stop: "atoi_digits x cs = x" for x using assms by (cases cs) auto
  obtain c r where c: "show_nat n = c # r" "c \<noteq> CHR '' ''"
  proof -
    have "\<exists>d r. (d :: nat) < 10 \<and> show_nat n = char_of (48 + d) # r"
    proof (induction n rule: show_nat.induct)
      case (1 n)
      then show ?case by (cases "n < 10") (auto simp: show_nat.simps [of n])
    qed
    then obtain d :: nat and r where "d < 10" "show_nat n = char_of (48 + d) # r" by blast
    moreover have "(char_of (48 + d) :: char) \<noteq> CHR '' ''"
    proof -
      have "\<not> CHR ''0'' \<le> CHR '' ''" by simp
      then show ?thesis using digit_char [OF \<open>d < 10\<close>] by metis
    qed
    ultimately show ?thesis using that by blast
  qed
  have "klib_atoi (show_nat n @ cs) = atoi_digits (of_nat 0) (show_nat n @ cs)"
    using c by simp
  then have "klib_atoi (show_nat n @ cs) = of_nat n"
    unfolding atoi_show stop by simp
  then show ?thesis by (induction k) simp_all
qed

section \<open>Exceptions\<close>

text \<open>
  On MIPS the instruction \<open>cte_init\<close> writes at the two exception entries jumps to the trap routine, wherever the linker
  put it in the 256 MB region of the entries.
\<close>

theorem mips_j_target:
  assumes "drop_bit 28 t = 8" "take_bit 2 t = 0"
  shows "push_bit 28 (drop_bit 28 EX_ENTRY) OR push_bit 2 (take_bit 26 (mips_j t)) = (t :: u32)"
proof -
  have e: "drop_bit 28 EX_ENTRY = drop_bit 28 t" using assms(1) by (simp add: EX_ENTRY_def)
  have m: "take_bit 26 (mips_j t) = take_bit 26 (drop_bit 2 t)"
  proof -
    have k: "(0x3ffffff :: u32) = mask 26" by (simp add: mask_eq_exp_minus_1)
    have z: "take_bit 26 (0x08000000 :: u32) = 0" by simp
    show ?thesis unfolding mips_j_def k take_bit_or z
      by (rule bit_word_eqI) (auto simp: bit_simps)
  qed
  have low: "\<not> bit t k" if "k < 2" for k
    using assms(2) that by (metis bit_0_eq bit_take_bit_iff bot_apply bot_bool_def)
  show ?thesis unfolding e m
  proof (rule bit_word_eqI)
    fix k
    show "bit (push_bit 28 (drop_bit 28 t) OR push_bit 2 (take_bit 26 (drop_bit 2 t))) k \<longleftrightarrow> bit t k"
      using low [of k] by (cases "k < 2"; cases "k < 28") (auto simp: bit_simps not_less simp del: add_2_eq_Suc add_2_eq_Suc' dest: bit_imp_le_length)
  qed
qed


section \<open>Examples\<close>

theorem context_space_restored_witness:
  "\<exists>st :: (u32, unit) nvme. rv32_get_cur_as (rv32_switch 0 (rv32_switch 0x80003000 st)) = 0x80003000"
proof -
  define st :: "(u32, unit) nvme" where "st = \<lparr>nv_pool = (), nv_kas = 0, nv_enable = True, nv_dir = 0, nv_cr0 = 0\<rparr>"
  define st64 :: "(u64, unit) nvme" where "st64 = \<lparr>nv_pool = (), nv_kas = 0, nv_enable = True, nv_dir = 0, nv_cr0 = 0\<rparr>"
  have "page_aligned (0x80003000 :: u32)" by (simp add: page_aligned_def)
  then have "rv32_get_cur_as (rv32_switch 0 (rv32_switch 0x80003000 st)) = 0x80003000"
    using context_space_restored [of "0x80003000" "0x80003000" st st "0x80003000" "st64" st64] by (simp add: st_def st64_def page_aligned_def)
  then show ?thesis by blast
qed

theorem mips_j_target_witness:
  "push_bit 28 (drop_bit 28 EX_ENTRY) OR push_bit 2 (take_bit 26 (mips_j 0x80001234)) = 0x80001234"
  by (rule mips_j_target) simp_all

theorem atoi_reads_witness: "klib_atoi '' 42;'' = 42"
  using atoi_reads [of "'';''" 1 42] by (simp add: show_nat.simps)

theorem nemu_vme_starts_witness:
  "\<exists>s. rv32_vme_init (\<lambda>p. (0x80400000, p)) 0x80000000 \<lparr>nv_pool = (), nv_kas = 0, nv_enable = False, nv_dir = 0, nv_cr0 = 0\<rparr> = Some s \<and>
     rv32_get_cur_as s = 0x80400000"
  using nemu_vme_starts [of "0x80000000" "\<lambda>p. (0x80400000, p)" "\<lparr>nv_pool = (), nv_kas = 0, nv_enable = False, nv_dir = 0, nv_cr0 = 0\<rparr>" "0x80400000" "()"]
  by (auto simp: page_aligned_def)

end
