(* ===== verification/Desc64.thy ===== *)
theory Desc64
  imports Trm_Correct
begin

text \<open>
  The descriptor tables of the x86-64 build (\<open>x86.h\<close>, the 64-bit branches of \<open>cte_init\<close> and \<open>__am_percpu_initgdt\<close>):
  gates of 16 bytes with 64-bit addresses, long-mode segments, and the check that the task state segment lies
  below 4 GiB. The functions \<open>irq\<close> and \<open>irqall\<close> are the addresses of the stubs.
\<close>

section \<open>Descriptors\<close>

record GateDesc64 =
  g64_off_15_0 :: "16 word"
  g64_cs :: "16 word"
  g64_isv :: "3 word"
  g64_zero1 :: "5 word"
  g64_type :: "4 word"
  g64_zero2 :: "1 word"
  g64_dpl :: "2 word"
  g64_p :: "1 word"
  g64_off_31_16 :: "16 word"
  g64_off_63_32 :: "32 word"
  g64_rsv :: "32 word"

definition GATE64 :: "nat \<Rightarrow> u32 \<Rightarrow> u64 \<Rightarrow> nat \<Rightarrow> GateDesc64" where
  "GATE64 type cs entry dpl =
     \<lparr>g64_off_15_0 = ucast (entry AND 0xffff), g64_cs = ucast cs, g64_isv = 0, g64_zero1 = 0, g64_type = of_nat type, g64_zero2 = 0,
      g64_dpl = of_nat dpl, g64_p = 1, g64_off_31_16 = ucast (drop_bit 16 entry AND 0xffff), g64_off_63_32 = ucast (drop_bit 32 entry),
      g64_rsv = 0\<rparr>"

definition SEG64 :: "nat \<Rightarrow> nat \<Rightarrow> SegDesc" where
  "SEG64 type dpl =
     \<lparr>lim_15_0 = 0, base_15_0 = 0, base_23_16 = 0, sd_type = of_nat type, sd_s = 1, sd_dpl = of_nat dpl, sd_p = 1, lim_19_16 = 0,
      sd_avl = 0, sd_l = 1, sd_db = 0, sd_g = 0, base_31_24 = 0\<rparr>"

text \<open>How the processor reads a 64-bit gate.\<close>

definition gate_off64 :: "GateDesc64 \<Rightarrow> u64" where
  "gate_off64 g = push_bit 32 (ucast (g64_off_63_32 g)) OR push_bit 16 (ucast (g64_off_31_16 g)) OR ucast (g64_off_15_0 g)"

section \<open>Tables\<close>

definition cte_idt64 :: "(nat \<Rightarrow> u64) \<Rightarrow> u64 \<Rightarrow> GateDesc64 list" where
  "cte_idt64 irq irqall =
     foldl (\<lambda>idt (n, dpl, err). idt[n := GATE64 STS_TG (KSEL SEG_KCODE) (irq n) dpl])
       (replicate NR_IRQ (GATE64 STS_TG (KSEL SEG_KCODE) irqall DPL_KERN)) IRQS"

definition sizeof_TSS64 :: u32 where "sizeof_TSS64 = 4 + 3 * 8 + 19 * 4"

text \<open>The macro \<open>SEG16\<close> at an address of 64 bits, which it cuts to the fields.\<close>

definition percpu_gdt64 :: "u64 \<Rightarrow> SegDesc list \<Rightarrow> SegDesc list res" where
  "percpu_gdt64 tss gdt =
     (let gdt = gdt[SEG_KCODE := SEG64 (STA_X OR STA_R) DPL_KERN];
          gdt = gdt[SEG_KDATA := SEG64 STA_W DPL_KERN];
          gdt = gdt[SEG_UCODE := SEG64 (STA_X OR STA_R) DPL_USER];
          gdt = gdt[SEG_UDATA := SEG64 STA_W DPL_USER];
          gdt = gdt[SEG_TSS := (SEG16 STS_T32A (ucast tss) (sizeof_TSS64 - 1) DPL_KERN)]
      in if drop_bit 32 tss \<noteq> 0 then Inl (Panic ''internal error (likely a bug in AM)'') else Inr gdt)"

section \<open>What the processor reads\<close>

lemma gate_off_GATE64 [simp]: "gate_off64 (GATE64 t c e dpl) = e"
proof (rule bit_word_eqI)
  fix n assume "n < LENGTH(64)"
  then consider "n < 16" | "16 \<le> n" "n < 32" | "32 \<le> n" "n < 64" by fastforce
  moreover have "(0xffff :: u64) = mask 16" by (simp add: mask_eq_exp_minus_1)
  then have "x AND 0xffff = take_bit 16 x" for x :: u64 by (simp only: take_bit_eq_mask)
  ultimately show "bit (gate_off64 (GATE64 t c e dpl)) n = bit e n"
    by cases (simp_all add: gate_off64_def GATE64_def bit_simps less_diff_conv2)
qed

text \<open>
  The gates of the x86-64 build. Every vector leads to its own stub, or to the common one when it has none, through a
  present gate into kernel code that user programs can call only for the two software interrupts.
\<close>

theorem gates64_lead:
  assumes "v < NR_IRQ"
  shows "gate_off64 (cte_idt64 irq irqall ! v) = (if v \<in> fst ` set IRQS then irq v else irqall) \<and>
    g64_cs (cte_idt64 irq irqall ! v) = ucast (KSEL SEG_KCODE) \<and> g64_p (cte_idt64 irq irqall ! v) = 1 \<and>
    (g64_dpl (cte_idt64 irq irqall ! v) = 3 \<longleftrightarrow> v \<in> {128, 129})"
proof -
  have "v \<notin> fst ` set IRQS \<Longrightarrow> v \<notin> {128, 129}" by (auto simp: IRQS_def)
  moreover have "g64_dpl (GATE64 t c e dpl) = of_nat dpl" "g64_cs (GATE64 t c e dpl) = ucast c" "g64_p (GATE64 t c e dpl) = 1" for t c e dpl
    by (simp_all add: GATE64_def)
  ultimately show ?thesis
    unfolding cte_idt64_def irq_table [OF assms] by (auto simp: DPL_USER_def DPL_KERN_def)
qed

theorem gates64_lead_witness:
  "gate_off64 (cte_idt64 (\<lambda>n. 0xffffffff80000000 + of_nat n) 0x100000 ! 14) = 0xffffffff8000000e \<and>
   gate_off64 (cte_idt64 (\<lambda>n. 0xffffffff80000000 + of_nat n) 0x100000 ! 200) = 0x100000"
  using gates64_lead [of 14 "\<lambda>n. 0xffffffff80000000 + of_nat n" "0x100000"] gates64_lead [of 200 "\<lambda>n. 0xffffffff80000000 + of_nat n" "0x100000"]
  by (simp add: NR_IRQ_def IRQS_def)

text \<open>
  The segments of the x86-64 build: long-mode code, with the privilege level of each segment, and a task state segment whose base is
  \<open>tss\<close>; an address of \<open>tss\<close> above 4 GiB, which would not fit, ends in a panic instead.
\<close>

theorem gdt64_segments:
  assumes "length gdt = NR_SEG + 1"
  shows "case percpu_gdt64 tss gdt of
      Inl e \<Rightarrow> 2 ^ 32 \<le> unat tss
    | Inr g \<Rightarrow> ucast (seg_base (g ! SEG_TSS)) = tss \<and> seg_limit (g ! SEG_TSS) = sizeof_TSS64 - 1 \<and> sd_l (g ! SEG_KCODE) = 1 \<and>
        sd_l (g ! SEG_UCODE) = 1 \<and> map (\<lambda>i. sd_dpl (g ! i)) [SEG_KCODE, SEG_KDATA, SEG_UCODE, SEG_UDATA, SEG_TSS] = [0, 0, 3, 3, 0] \<and>
        g ! 0 = gdt ! 0 \<and> g ! 6 = gdt ! 6"
proof (cases "drop_bit 32 tss = 0")
  case True
  then have "take_bit 32 tss = tss" using bits_ident [of 32 tss] by simp
  moreover have "ucast (ucast tss :: u32) = take_bit 32 tss" by (intro bit_word_eqI) (auto simp: bit_simps)
  ultimately have "ucast (ucast tss :: u32) = tss" by simp
  moreover have dpl: "sd_dpl (SEG16 t b l d) = of_nat d" for t b l d by (simp add: SEG16_def)
  ultimately show ?thesis using True assms
    by (simp add: percpu_gdt64_def seg_base_eq seg_limits dpl sizeof_TSS64_def SEG64_def DPL_KERN_def DPL_USER_def NR_SEG_def SEG_KCODE_def SEG_KDATA_def SEG_UCODE_def SEG_UDATA_def SEG_TSS_def)
next
  case False
  then have "unat tss div 2 ^ 32 \<noteq> 0" using unat_drop_bit_eq [of 32 tss] by (metis drop_bit_eq_div unat_eq_zero)
  then have "2 ^ 32 \<le> unat tss" using div_less by (metis not_less)
  then show ?thesis using False by (simp add: percpu_gdt64_def)
qed

theorem gdt64_segments_witness:
  "\<exists>g. percpu_gdt64 0x104000 (replicate 7 (SEG64 0 0)) = Inr g \<and> ucast (seg_base (g ! SEG_TSS)) = (0x104000 :: u64) \<and> sd_l (g ! SEG_KCODE) = 1"
proof -
  have "percpu_gdt64 0x104000 (replicate 7 (SEG64 0 0)) \<noteq> Inl (Panic ''internal error (likely a bug in AM)'')"
    by (simp add: percpu_gdt64_def)
  then obtain g where g: "percpu_gdt64 0x104000 (replicate 7 (SEG64 0 0)) = Inr g" by (auto simp: percpu_gdt64_def Let_def)
  then have "ucast (seg_base (g ! SEG_TSS)) = (0x104000 :: u64)" "sd_l (g ! SEG_KCODE) = 1"
    using gdt64_segments [of "replicate 7 (SEG64 0 0)" "0x104000"] by (simp_all add: NR_SEG_def)
  then show ?thesis using g by simp
qed

end
