(* ===== verification/Native_Mpe.thy ===== *)
theory Native_Mpe
  imports Prelude
begin

text \<open>
  Multiprocessing of the native platform (\<open>am/src/native/mpe.c\<close>): processors are processes. \<open>mpe_init\<close> forks them, each
  waits for a byte from a pipe, and the first process sets up the devices and then writes one byte for each. The host
  interleaves the processes and may refuse a \<open>fork\<close>, which the code does not notice. Proved: whoever runs the user's
  entry has its own processor number and finds the devices set up, and no process waits for ever.
\<close>

section \<open>Processes\<close>

datatype nboot_pc = NB_fork nat | NB_ioe | NB_write nat | NB_entry

datatype nchild_pc = NC_none | NC_read | NC_entry nat

record native_mpe =
  np_boot :: nboot_pc
  np_child :: "nat \<Rightarrow> nchild_pc"
  np_pipe :: nat
  np_ioe :: bool

text \<open>One round of a loop, or the device initialisation; \<open>ok\<close> is whether the host grants a \<open>fork\<close>.\<close>

fun nboot_step_at :: "nboot_pc \<Rightarrow> nat \<Rightarrow> bool \<Rightarrow> bool \<Rightarrow> native_mpe \<Rightarrow> native_mpe option" where
  "nboot_step_at (NB_fork i) ncpu has_ioe ok s =
     Some (if i < ncpu then s\<lparr>np_child := (if ok then (np_child s)(i := NC_read) else np_child s), np_boot := NB_fork (i + 1)\<rparr>
           else s\<lparr>np_boot := NB_ioe\<rparr>)"
| "nboot_step_at NB_ioe ncpu has_ioe ok s = Some (s\<lparr>np_ioe := has_ioe, np_boot := NB_write 1\<rparr>)"
| "nboot_step_at (NB_write i) ncpu has_ioe ok s =
     Some (if i < ncpu then s\<lparr>np_pipe := np_pipe s + 1, np_boot := NB_write (i + 1)\<rparr> else s\<lparr>np_boot := NB_entry\<rparr>)"
| "nboot_step_at NB_entry ncpu has_ioe ok s = None"

definition nboot_step :: "nat \<Rightarrow> bool \<Rightarrow> bool \<Rightarrow> native_mpe \<Rightarrow> native_mpe option" where
  "nboot_step ncpu has_ioe ok s = nboot_step_at (np_boot s) ncpu has_ioe ok s"

text \<open>A child waits in \<open>read\<close> while the pipe is empty: it holds a writing end itself, so the file never ends.\<close>

definition nchild_step :: "nat \<Rightarrow> native_mpe \<Rightarrow> native_mpe option" where
  "nchild_step c s =
     (case np_child s c of
        NC_read \<Rightarrow> if np_pipe s = 0 then None else Some (s\<lparr>np_pipe := np_pipe s - 1, np_child := (np_child s)(c := NC_entry c)\<rparr>)
      | _ \<Rightarrow> None)"

inductive native_mpe_step :: "nat \<Rightarrow> bool \<Rightarrow> native_mpe \<Rightarrow> native_mpe \<Rightarrow> bool" for ncpu has_ioe where
  NBoot: "nboot_step ncpu has_ioe ok s = Some s' \<Longrightarrow> native_mpe_step ncpu has_ioe s s'"
| NChild: "nchild_step c s = Some s' \<Longrightarrow> native_mpe_step ncpu has_ioe s s'"

definition native_mpe_init :: native_mpe where
  "native_mpe_init = \<lparr>np_boot = NB_fork 1, np_child = (\<lambda>_. NC_none), np_pipe = 0, np_ioe = False\<rparr>"

inductive native_mpe_reach :: "nat \<Rightarrow> bool \<Rightarrow> native_mpe \<Rightarrow> bool" for ncpu has_ioe where
  NInit: "native_mpe_reach ncpu has_ioe native_mpe_init"
| NStep: "native_mpe_reach ncpu has_ioe s \<Longrightarrow> native_mpe_step ncpu has_ioe s s' \<Longrightarrow> native_mpe_reach ncpu has_ioe s'"

inductive_cases native_mpe_stepE: "native_mpe_step ncpu has_ioe s s'"

section \<open>Invariant\<close>

definition in_entry :: "native_mpe \<Rightarrow> nat set" where
  "in_entry s = {c. \<exists>k. np_child s c = NC_entry k}"

text \<open>The bytes written so far.\<close>

fun written :: "nat \<Rightarrow> nboot_pc \<Rightarrow> nat" where
  "written ncpu (NB_write i) = i - 1"
| "written ncpu NB_entry = ncpu - 1"
| "written ncpu _ = 0"

fun boot_ok :: "nat \<Rightarrow> nboot_pc \<Rightarrow> bool" where
  "boot_ok ncpu (NB_fork i) \<longleftrightarrow> 1 \<le> i \<and> i \<le> max 1 ncpu"
| "boot_ok ncpu (NB_write i) \<longleftrightarrow> 1 \<le> i \<and> i \<le> max 1 ncpu"
| "boot_ok ncpu _ \<longleftrightarrow> True"

fun ioe_done :: "nboot_pc \<Rightarrow> bool" where
  "ioe_done (NB_fork i) \<longleftrightarrow> False"
| "ioe_done NB_ioe \<longleftrightarrow> False"
| "ioe_done _ \<longleftrightarrow> True"

lemma written_done: "0 < written ncpu b \<Longrightarrow> ioe_done b"
  by (cases b) simp_all

definition native_mpe_inv :: "nat \<Rightarrow> bool \<Rightarrow> native_mpe \<Rightarrow> bool" where
  "native_mpe_inv ncpu has_ioe s \<longleftrightarrow> boot_ok ncpu (np_boot s) \<and>
     (\<forall>c. np_child s c \<noteq> NC_none \<longrightarrow> 1 \<le> c \<and> c < ncpu) \<and> (\<forall>c k. np_child s c = NC_entry k \<longrightarrow> k = c) \<and>
     (\<forall>i. np_boot s = NB_fork i \<longrightarrow> (\<forall>c \<ge> i. np_child s c = NC_none)) \<and>
     card (in_entry s) + np_pipe s = written ncpu (np_boot s) \<and> (ioe_done (np_boot s) \<longrightarrow> np_ioe s = has_ioe)"

lemma in_entry_finite: "native_mpe_inv ncpu has_ioe s \<Longrightarrow> in_entry s \<subseteq> {1..<ncpu}"
  by (fastforce simp: native_mpe_inv_def in_entry_def)

lemma in_entry_upd [simp]:
  "in_entry (s\<lparr>np_boot := b\<rparr>) = in_entry s" "in_entry (s\<lparr>np_pipe := p\<rparr>) = in_entry s" "in_entry (s\<lparr>np_ioe := d\<rparr>) = in_entry s"
  by (simp_all add: in_entry_def)

lemma in_entry_fork: "np_child s i = NC_none \<Longrightarrow> in_entry (s\<lparr>np_child := (np_child s)(i := NC_read)\<rparr>) = in_entry s"
  by (auto simp: in_entry_def)

lemma in_entry_start:
  "np_child s c = NC_read \<Longrightarrow> in_entry (s\<lparr>np_child := (np_child s)(c := NC_entry c)\<rparr>) = insert c (in_entry s) \<and> c \<notin> in_entry s"
  by (auto simp: in_entry_def)

lemma nboot_inv:
  assumes "native_mpe_inv ncpu has_ioe s" "nboot_step ncpu has_ioe ok s = Some s'"
  shows "native_mpe_inv ncpu has_ioe s'"
proof (cases "np_boot s")
  case (NB_fork i)
  then show ?thesis using assms in_entry_fork [of s i]
    by (auto simp: native_mpe_inv_def nboot_step_def in_entry_def split: if_splits)
next
  case NB_ioe
  then show ?thesis using assms by (auto simp: native_mpe_inv_def nboot_step_def)
next
  case (NB_write i)
  then show ?thesis using assms by (auto simp: native_mpe_inv_def nboot_step_def split: if_splits)
next
  case NB_entry
  then show ?thesis using assms by (simp add: nboot_step_def)
qed

lemma nchild_inv:
  assumes "native_mpe_inv ncpu has_ioe s" "nchild_step c s = Some s'"
  shows "native_mpe_inv ncpu has_ioe s'"
proof -
  have c: "np_child s c = NC_read" "np_pipe s > 0"
    "s' = s\<lparr>np_pipe := np_pipe s - 1, np_child := (np_child s)(c := NC_entry c)\<rparr>"
    using assms(2) by (auto simp: nchild_step_def split: nchild_pc.splits if_splits)
  have "finite (in_entry s)" using in_entry_finite [OF assms(1)] finite_subset by blast
  moreover have "in_entry s' = insert c (in_entry s)" "c \<notin> in_entry s" using c by (auto simp: in_entry_def)
  ultimately have "card (in_entry s') + np_pipe s' = card (in_entry s) + np_pipe s" using c by simp
  moreover have "np_boot s \<noteq> NB_fork i" for i using assms(1) c(2) by (auto simp: native_mpe_inv_def)
  ultimately show ?thesis using assms(1) c by (auto simp: native_mpe_inv_def)
qed

lemma native_mpe_reach_inv: "native_mpe_reach ncpu has_ioe s \<Longrightarrow> native_mpe_inv ncpu has_ioe s"
proof (induction rule: native_mpe_reach.induct)
  case NInit
  then show ?case by (simp add: native_mpe_inv_def native_mpe_init_def in_entry_def)
next
  case (NStep s s')
  then show ?case by (auto elim!: native_mpe_stepE intro: nboot_inv nchild_inv)
qed

section \<open>Start of the processors\<close>

text \<open>
  Whatever the interleaving and whichever forks the host refuses: a process in the user's entry has the number it
  was forked with, and the devices are set up when it gets there; and while a process waits, the first process or the waiting one can go on.
\<close>

theorem native_mpe_starts:
  assumes "native_mpe_reach ncpu has_ioe s"
  shows "(np_child s c = NC_entry k \<longrightarrow> k = c \<and> 1 \<le> c \<and> c < ncpu \<and> np_ioe s = has_ioe) \<and>
    (np_child s c = NC_read \<longrightarrow> nboot_step ncpu has_ioe True s \<noteq> None \<or> nchild_step c s \<noteq> None)"
proof -
  note inv = native_mpe_reach_inv [OF assms]
  have fin: "finite (in_entry s)" using in_entry_finite [OF inv] finite_subset by blast
  have "0 < card (in_entry s)" if "np_child s c = NC_entry k" using that fin by (auto simp: card_gt_0_iff in_entry_def)
  then have 1: "np_child s c = NC_entry k \<longrightarrow> k = c \<and> 1 \<le> c \<and> c < ncpu \<and> np_ioe s = has_ioe"
    using inv written_done [of ncpu "np_boot s"] unfolding native_mpe_inv_def by (metis add_gr_0 nchild_pc.distinct(3))
  have "np_pipe s > 0" if "np_boot s = NB_entry" "np_child s c = NC_read"
  proof -
    have "1 \<le> c \<and> c < ncpu" using inv that by (auto simp: native_mpe_inv_def)
    moreover have "in_entry s \<subseteq> {1..<ncpu} - {c}" using in_entry_finite [OF inv] that by (auto simp: in_entry_def)
    ultimately have "card (in_entry s) < ncpu - 1" using card_mono [of "{1..<ncpu} - {c}" "in_entry s"] by simp linarith
    then show ?thesis using inv that by (auto simp: native_mpe_inv_def)
  qed
  then show ?thesis using 1 by (cases "np_boot s") (auto simp: nboot_step_def nchild_step_def)
qed

text \<open>Two processors: the second starts after the devices.\<close>

theorem native_mpe_starts_witness:
  "\<exists>s. native_mpe_reach 2 True s \<and> np_child s 1 = NC_entry 1 \<and> np_ioe s"
proof -
  let ?s = "\<lambda>b c p d. \<lparr>np_boot = b, np_child = (\<lambda>_. NC_none)(1 := c), np_pipe = p, np_ioe = d\<rparr>"
  have "native_mpe_init = ?s (NB_fork 1) NC_none 0 False" by (simp add: native_mpe_init_def fun_eq_iff)
  then have "native_mpe_reach 2 True (?s (NB_fork 1) NC_none 0 False)" using NInit [of 2 True] by simp
  then have "native_mpe_reach 2 True (?s (NB_fork 2) NC_read 0 False)"
    by (rule NStep, intro NBoot [of _ _ True]) (simp add: nboot_step_def)
  then have "native_mpe_reach 2 True (?s NB_ioe NC_read 0 False)"
    by (rule NStep, intro NBoot [of _ _ True]) (simp add: nboot_step_def)
  then have "native_mpe_reach 2 True (?s (NB_write 1) NC_read 0 True)"
    by (rule NStep, intro NBoot [of _ _ True]) (simp add: nboot_step_def)
  then have "native_mpe_reach 2 True (?s (NB_write 2) NC_read 1 True)"
    by (rule NStep, intro NBoot [of _ _ True]) (simp add: nboot_step_def)
  then have r: "native_mpe_reach 2 True (?s (NB_write 2) (NC_entry 1) 0 True)"
    by (rule NStep, intro NChild [of 1]) (simp add: nchild_step_def)
  then show ?thesis using native_mpe_starts [OF r, of 1 1] by auto
qed

end
