(* ===== verification/Spec2Isabelle.thy ===== *)
theory Spec2Isabelle
  imports Expr_Test Session Int64 Difftest Riscv Mips32 Vme_Init Boot Ioe_Correct Trm_Correct Native_Correct Kvm_Correct Native_Ioe_Correct Am_Nemu_Correct Desc64 Native_Mpe
begin

text \<open>
  A model of NEMU, an emulator for x86, riscv32, riscv64 and mips32 guests with a debugger (directory \<open>nemu\<close>), and
  of AbstractMachine, the machine interface that guest programs are written against (directory \<open>abstract-machine\<close>). The
  build modelled is the default one: guest x86 in NEMU, \<open>DEBUG\<close> on, \<open>DIFF_TEST\<close> off; \<open>HAS_IOE\<close> is the field \<open>has_ioe\<close> of the
  configuration. The parts that are compiled separately (the RISC guests, the differential-testing libraries, the platforms of
  AbstractMachine) are modelled in their own builds.
\<close>

section \<open>The program and its theories\<close>

text \<open>
  The parts and their theories, with the source files under \<open>src/nemu\<close>:

  \<^item> \<open>Prelude\<close>: faults and the sequencing operators (\<open>fault\<close>, \<open>res\<close>, \<open>bindE\<close>, \<open>seqs\<close>, \<open>wpE\<close>), little-endian views of words, bounded byte arrays,
    \<open>strtok\<close>. A run that the C code does not define (an access outside an array, a null pointer, a variable not assigned, an
    assertion or panic) is an \<open>Inl\<close> value and never a silent default.
  \<^item> \<open>Device\<close>: \<open>device/\<close>: the I/O space and its maps (\<open>io/map.c\<close>, \<open>mmio.c\<close>, \<open>port-io.c\<close>), serial line, timer, keyboard, VGA, audio, alarm, and their
    initialisation and polling. State: the record \<open>io_state\<close>. SDL events and the host clock are arguments.
  \<^item> \<open>Memory\<close>, \<open>Memory_Safe\<close>: \<open>memory/paddr.c\<close> and the templates of \<open>memory/vaddr.h\<close>: physical memory as a function from offsets to bytes, the dispatch to
    devices, guest loads and stores.
  \<^item> \<open>Rtl\<close>: the register transfer language (\<open>rtl/\<close>, \<open>engine/interpreter\<close>): every basic and pseudo instruction, generic in the word size.
  \<^item> \<open>X86_Reg\<close>, \<open>X86_Decode\<close>, \<open>X86_Exec\<close>: \<open>isa/x86\<close>: the register file, the operand decoders (\<open>decode.c\<close>, \<open>decode.h\<close>), the execution helpers, opcode tables and
    \<open>isa_exec_once\<close>. \<open>X86_Correct\<close>: effective addresses and the built-in image; \<open>X86_Safe\<close>: no decode field is read before it is assigned.
  \<^item> \<open>Expr\<close>: \<open>monitor/debug/expr.c\<close>: rules, tokenizer and evaluator of the debugger's expressions. \<open>Expr_Correct\<close>: the evaluator against syntax
    trees. \<open>Gen_Expr\<close>, \<open>Expr_Test\<close>: \<open>tools/gen-expr\<close> and \<open>test_expr\<close>, the random test of the evaluator against the C compiler.
  \<^item> \<open>Watchpoint\<close>: \<open>monitor/debug/watchpoint.c\<close>: the pool and its two linked lists as indices into an array.
  \<^item> \<open>Monitor\<close>: \<open>monitor/cpu-exec.c\<close>, \<open>monitor/debug/ui.c\<close>, \<open>monitor/monitor.c\<close>, \<open>main.c\<close>: the execution loop, the debugger's commands, the command line, start-up and exit
    status. State: the record \<open>nemu\<close>. \<open>Monitor_Correct\<close>: runs of the built-in image; \<open>Session\<close>: an invariant of every session.
  \<^item> \<open>Risc\<close>, \<open>Riscv\<close>, \<open>Mips32\<close>: \<open>isa/riscv32\<close>, \<open>isa/riscv64\<close>, \<open>isa/mips32\<close>: what the three share, then decoders, helpers and the step of each.
  \<^item> \<open>Gdb\<close>, \<open>Difftest\<close>: \<open>tools/qemu-diff\<close> (packets and commands of the GDB protocol, set-up of the reference) and \<open>monitor/difftest\<close> (the comparison).
  \<^item> \<open>Kvm\<close>, \<open>Kvm_Correct\<close>: \<open>tools/kvm-diff/src/kvm.c\<close>, the other reference; the hypervisor is the record \<open>hypervisor\<close> of its calls.

  The theories of AbstractMachine, with the source files under \<open>src/abstract-machine\<close>:

  \<^item> \<open>Int64\<close>: \<open>klib/src/int64.c\<close>: 64-bit division for 32-bit machines.
  \<^item> \<open>Vme\<close>, \<open>Vme_Correct\<close>, \<open>Vme_Space\<close>, \<open>Vme_Init\<close>: \<open>am/src/x86/qemu/vme.c\<close> for x86 and x86-64: page tables in a memory of entries, the page allocator of the user,
    and the translation the processor makes of them.
  \<^item> \<open>Ata\<close>, \<open>Boot\<close>: ports, the disk, and the second stage of the boot loader (\<open>am/src/x86/qemu/boot/main.c\<close>).
  \<^item> \<open>Ioe\<close>, \<open>Ioe_Correct\<close>: \<open>am/src/x86/qemu/ioe.c\<close>: every device register and the interrupt controllers.
  \<^item> \<open>Cte\<close>, \<open>Cte_Correct\<close>: \<open>am/src/x86/qemu/cte.c\<close>, \<open>trap32.S\<close>: descriptors, trap entry and exit, event dispatch, contexts. \<open>Desc64\<close>: the tables of the x86-64 build.
  \<^item> \<open>Trm\<close>, \<open>Trm_Correct\<close>: \<open>trm.c\<close>, \<open>mpe.c\<close>: processor discovery, start, halt, and the hand-over to the other processors.
  \<^item> \<open>Native\<close>, \<open>Native_Ioe\<close>, \<open>Native_Mpe\<close> and their \<open>_Correct\<close> theories: \<open>am/src/native\<close>, where the machine is a process of the host.
  \<^item> \<open>Am_Nemu\<close>, \<open>Am_Nemu_Correct\<close>: \<open>am/src/nemu\<close>, where the machine is NEMU, and the numbers of \<open>klib\<close>.

  How they interact: \<open>nemu_main\<close> initialises memory, guest and watchpoints and runs the commands; \<open>cpu_exec\<close> executes instructions
  (\<open>isa_exec_once\<close>, which decodes with the helpers of \<open>X86_Decode\<close> and executes RTL on registers and memory), then checks the watchpoints, whose expressions
  read the same registers and memory, and polls the devices, which run callbacks on memory-mapped accesses. The reference of \<open>difftest_step\<close> is any record \<open>ref_ops\<close>; the GDB
  client and KVM are two of them. In AbstractMachine the boot loader hands over to \<open>start_c\<close>, which fills the descriptor tables the traps of \<open>Cte\<close> go through;
  a context carries the page directory of \<open>Vme\<close>; the native platform replaces the tables by calls of the host.
\<close>

section \<open>What the theorems show\<close>

text \<open>
  \<^item> Safety of whole runs: \<open>nemu_session_safe\<close> (any image, commands, alarm signals and host events), \<open>risc_zero_register\<close>, \<open>isa_exec_once_no_uninit\<close>, \<open>recv_packet_in_bounds\<close>.
  \<^item> Refinement of a specification: the RISC steps refine, for the few instructions the source implements, their semantics as functions on registers and
    memory (\<open>rinstr_step\<close> in \<open>Risc\<close>, the encodings in \<open>riscv_dec\<close> and \<open>mips_dec\<close>), and stop the run at all others;
    the page tables refine a map from pages to frames (\<open>user_space_refines\<close>, \<open>space_life_cycle\<close>); the mapped pages of the native host refine one map per address
    space (\<open>native_host_exact\<close>, when heads are handed out clear and no page is mapped twice); the audio ring refines a queue while the calls of its two threads
    do not overlap (\<open>audio_queue\<close>; \<open>audio_races\<close> shows what happens when they do, step by step).
  \<^item> Equivalence with a reference: the division routines with \<open>div\<close> and \<open>mod\<close>; the evaluator with the grammar of C, on every file the generator writes.
  \<^item> Round trips: guest stores and loads, packets, disk blocks, interrupts and signals that return to the interrupted context.
  \<^item> Functional behaviour of decoders, loader, drawing, dispatch, contexts and references, on every branch the statement names.
  \<^item> Order and progress: the hand-over of processors (\<open>mpe_hand_over\<close>, \<open>mpe_terminates\<close>) and of processes (\<open>native_mpe_starts\<close>) under any interleaving; acceptance of a good packet after
    bad ones; \<open>kvm_exec_terminates\<close>.
  \<^item> Errors the code has, stated as theorems: accesses at the end of memory, the watchpoint that hides a trap, cyclic mapping lists, lost keys, the races of the audio threads, the interrupt lost
    at an \<open>iret\<close>.

  Interfaces are locales: \<open>word_store\<close> (loads after stores; interpreted by guest memory as \<open>guest_mem\<close>), \<open>resource_pool\<close> (by the watchpoints as \<open>wp\<close>), \<open>prefix_codec\<close> (by
  packets and registers as \<open>pk\<close> and \<open>rg\<close>), \<open>risc_isa\<close> (by the three guests as \<open>rv32\<close>, \<open>rv64\<close>, \<open>mips\<close>), \<open>page_tables\<close>, \<open>user_tables\<close> and \<open>user_space\<close> (by the two x86 builds as
  \<open>kern\<close>, \<open>x86_vm\<close>, \<open>x86_64_vm\<close>, \<open>x86_space\<close>, \<open>x86_64_space\<close>). Three locales state the law of something outside the sources, and
  properties assume them: \<open>ata_drive\<close> (a disk behind ports), \<open>local_apic\<close> (a controller that knows its processor's number), \<open>c_compiler\<close> (a compiler that follows the C grammar);
  \<open>drv\<close>, \<open>apic\<close> and \<open>sample\<close> interpret them on concrete functions.
\<close>

section \<open>Loops, bounds and parameters\<close>

text \<open>
  Loops that run over data are structural recursion or recursion with a measure (\<open>eval\<close>, \<open>tokenize\<close>, \<open>delete_wps\<close>, \<open>exec_loop\<close> on the instruction count,
  \<open>test_lines\<close> on the length of the file). The execution loop takes the number of instructions the command asks for, so it always ends.
  Prefix bytes recurse in \<open>fetch_decode_exec\<close>, which ends because each fills the log buffer further.

  Loops that may run for ever are partial functions whose value \<open>None\<close> means so, turned into the fault \<open>Diverge\<close> where they are called:
  list walks (\<open>find_pre\<close>, \<open>no_to_wp_loop\<close>, \<open>check_wp_loop\<close>, \<open>watchpoint_display_loop\<close>, \<open>find_page\<close>, \<open>map_all\<close>, \<open>unmap_all\<close>), which return on every list
  the invariants allow; loops up to an address that may be missed (\<open>copy_loop\<close>, \<open>zero_loop\<close>, \<open>load_elf_loop\<close>, \<open>area_loop\<close>, \<open>kas_loop\<close>, \<open>mp_entries\<close>),
  shown to return under the conditions of the properties; waits for hardware (\<open>wait_loop\<close>, \<open>wait_sec\<close>, \<open>estimate_freq\<close>, \<open>timer_rtc_loop\<close>, \<open>lapic_wait\<close>),
  which return when the device answers; \<open>kvm_exec\<close>; the canvas tree of \<open>render\<close>, which may be cyclic; and \<open>gen_retry\<close>.
  \<open>gen_rand_expr\<close> recurses as deep as the random numbers say and takes that depth as fuel. The sessions of the debugger run over the list of lines typed.

  Arguments of the model stand for what is not in the sources: the host clock and the alarm signals it raises (delivered before the devices are
  polled), random numbers, keyboard and window events, the contents of files, the answers of
  \<open>getopt_long\<close>, the hypervisor (\<open>hv_grants\<close> states the documented results of its calls), the devices behind ports, the page allocator and the event handler of the user, the addresses the linker chooses.
  Bounds are the code's: \<open>PMEM_SIZE\<close> (128 MiB), 32 watchpoints, 65536 tokens, 1024 keys, sectors of 512 bytes, 28-bit sector numbers, 8 processors (16 on the host).
\<close>

section \<open>Not modelled\<close>

text \<open>
  \<^item> Text output: the disassembly and the trace of the \<open>DEBUG\<close> build (only the length of the buffer they fill, which can overflow), logos, help texts; messages of the debugger are
    a list of events.
  \<^item> Assembly: the first boot sector, the trap stubs of the guests of NEMU and of x86-64; \<open>trap32.S\<close> is modelled.
  \<^item> Host services: SDL drawing and audio callbacks beyond the data they exchange, sockets (a list of bytes each way), \<open>fork\<close> and \<open>exec\<close> of QEMU, \<open>dlopen\<close>, the start
    of the native process (\<open>init_platform\<close>), signal and timer set-up.
  \<^item> Stubs of the sources: address translation and interrupts of NEMU's guests, register comparison of the RISC guests, \<open>ucontext\<close>, \<open>kcontext\<close> and
    \<open>ienabled\<close> on NEMU, and the string and formatting functions of \<open>klib\<close> have no body to model.
  \<^item> The set-up of QEMU for riscv64, which begins by writing past an array, and the branches of other ISAs of the build flags (128-bit integers, big-endian hosts).
\<close>

section \<open>Properties that span instruction sets\<close>

text \<open>
  C18. The built-in images of the RISC guests end well: from any memory and register content,
  \<open>init_isa\<close> succeeds and, after four instructions, the run is in state \<open>NEMU_END\<close> at the trap with exit code 0.
\<close>

theorem risc_images_good_trap:
  assumes "length (gpr (cpu m)) = 32" "nstate (nemu_state m) = NEMU_RUNNING" "log_bytebuf_len m = 0"
    "length (gpr (cpu n)) = 32" "nstate (nemu_state n) = NEMU_RUNNING" "log_bytebuf_len n = 0"
  shows "(\<exists>m1. rv32_init_isa m = Inr m1 \<and> (\<forall>k. \<exists>m2. risc_loop rv32_isa_exec_once (k + 4) m1 = Inr m2 \<and>
      nemu_state m2 = \<lparr>nstate = NEMU_END, halt_pc = 0x8010000c, halt_ret = 0\<rparr>)) \<and>
    (\<exists>m1. mips_init_isa m = Inr m1 \<and> (\<forall>k. \<exists>m2. risc_loop mips_isa_exec_once (k + 4) m1 = Inr m2 \<and>
      nemu_state m2 = \<lparr>nstate = NEMU_END, halt_pc = 0x8010000c, halt_ret = 0\<rparr>)) \<and>
    (\<exists>m1. rv64_init_isa n = Inr m1 \<and> (\<forall>k. \<exists>m2. risc_loop rv64_isa_exec_once (k + 4) m1 = Inr m2 \<and>
      nemu_state m2 = \<lparr>nstate = NEMU_END, halt_pc = 0x8010000c, halt_ret = 0\<rparr>))"
  using rv32_image [OF assms(1-3)] mips_image [OF assms(1-3)] rv64_image [OF assms(4-6)] by blast

theorem risc_images_good_trap_witness:
  "\<exists>m1 m2. rv64_init_isa (risc_boot []) = Inr m1 \<and> risc_loop rv64_isa_exec_once 4 m1 = Inr m2 \<and> halt_ret (nemu_state m2) = 0"
  using risc_images_good_trap [of "risc_boot []" "risc_boot []"] by (fastforce dest: spec [of _ 0])

text \<open>
  C19. Whatever a RISC guest executes, for any number of instructions, the emulator never reads a decode
  field it has not assigned, keeps 32 registers, and the zero register reads zero after every instruction.
\<close>

theorem risc_zero_register:
  assumes "length (gpr (cpu m)) = 32" "length (gpr (cpu n)) = 32"
  shows "risc_run_ok rv32_isa_exec_once k m \<and> risc_run_ok mips_isa_exec_once k m \<and> risc_run_ok rv64_isa_exec_once k n"
  using rv32.run_ok [OF assms(1)] mips.run_ok [OF assms(1)] rv64.run_ok [OF assms(2)] by blast

theorem risc_zero_register_witness:
  "risc_run_ok rv32_isa_exec_once 3 (risc_boot [0x12345037]) \<and> risc_run_ok mips_isa_exec_once 3 (risc_boot [0x12345037]) \<and>
   risc_run_ok rv64_isa_exec_once 3 (risc_boot [0x12345037])"
  by (rule risc_zero_register) simp_all
end
